(* ===== verification/Arbor_Prelude.thy ===== *)
theory Arbor_Prelude
  imports Main "HOL-Library.Word"
begin

text \<open>
  The vocabulary every component shares: the C integer widths with their wrap-around,
  the "return early on a bad status" sequencing, out-pointers, and bounds
  of signed and unsigned words.

  \<^item> A stored fixed-width integer is a \<open>word\<close>; \<open>sint\<close>/\<open>unat\<close> read it. C arithmetic is
    written on \<open>int\<close>/\<open>nat\<close> with \<open>s64\<close>, \<open>s128\<close>, \<open>u64\<close>, \<open>u128\<close> around every operation
    that could leave the width; the lemmas below remove them where the value fits.
  \<^item> A C function \<open>status f(..., T *out)\<close> is a function into \<open>status + T\<close>: \<open>Inl s\<close> is
    "returned \<open>s\<close>, nothing stored", \<open>Inr v\<close> is "returned OK and stored \<open>v\<close>".
\<close>

section \<open>Integer widths\<close>

abbreviation INT64_MAX :: int where "INT64_MAX \<equiv> 9223372036854775807"
abbreviation INT64_MIN :: int where "INT64_MIN \<equiv> - 9223372036854775808"
abbreviation UINT64_MAX :: nat where "UINT64_MAX \<equiv> 18446744073709551615"
abbreviation UINT32_MAX :: nat where "UINT32_MAX \<equiv> 4294967295"
abbreviation UINT16_MAX :: nat where "UINT16_MAX \<equiv> 65535"

type_synonym u8 = "8 word"
type_synonym u16 = "16 word"
type_synonym u32 = "32 word"
type_synonym u64 = "64 word"
type_synonym i64 = "64 word"

definition s64 :: "int \<Rightarrow> int" where
  "s64 k = signed_take_bit 63 k"

definition s128 :: "int \<Rightarrow> int" where
  "s128 k = signed_take_bit 127 k"

definition u64 :: "nat \<Rightarrow> nat" where
  "u64 n = n mod 2 ^ 64"

definition u128 :: "nat \<Rightarrow> nat" where
  "u128 n = n mod 2 ^ 128"

definition in_i64 :: "int \<Rightarrow> bool" where
  "in_i64 k \<longleftrightarrow> INT64_MIN \<le> k \<and> k \<le> INT64_MAX"

definition in_i128 :: "int \<Rightarrow> bool" where
  "in_i128 k \<longleftrightarrow> - (2 ^ 127) \<le> k \<and> k < 2 ^ 127"

named_theorems width_simps \<open>removing a wrap-around where the value fits its width\<close>

lemma s64_id [width_simps]: "INT64_MIN \<le> k \<Longrightarrow> k \<le> INT64_MAX \<Longrightarrow> s64 k = k"
  unfolding s64_def by (rule signed_take_bit_int_eq_self) simp_all

lemma s128_id [width_simps]:
  "- 170141183460469231731687303715884105728 \<le> k \<Longrightarrow>
   k < 170141183460469231731687303715884105728 \<Longrightarrow> s128 k = k"
  unfolding s128_def by (rule signed_take_bit_int_eq_self) simp_all

lemma u64_id [width_simps]: "n < 18446744073709551616 \<Longrightarrow> u64 n = n"
  by (simp add: u64_def)

lemma u128_id [width_simps]: "n < 340282366920938463463374607431768211456 \<Longrightarrow> u128 n = n"
  by (simp add: u128_def)

lemma sint_i64_lower: "INT64_MIN \<le> sint (w :: i64)"
  using sint_ge [of w] by simp

lemma sint_i64_upper: "sint (w :: i64) \<le> INT64_MAX"
  using sint_lt [of w] by simp

lemma sint_in_i64 [simp]: "in_i64 (sint (w :: i64))"
  by (simp add: in_i64_def sint_i64_lower sint_i64_upper)

lemma sint_word_of_int [width_simps]:
  "INT64_MIN \<le> k \<Longrightarrow> k \<le> INT64_MAX \<Longrightarrow> sint (word_of_int k :: i64) = k"
  by (simp add: sint_sbintrunc' signed_take_bit_int_eq_self)

lemma in_i64_sint: "in_i64 k \<Longrightarrow> sint (word_of_int k :: i64) = k"
  by (simp add: in_i64_def width_simps)

lemma sint_i64_add [width_simps]:
  "INT64_MIN \<le> sint a + sint b \<Longrightarrow> sint a + sint b \<le> INT64_MAX \<Longrightarrow>
   sint (a + b :: i64) = sint a + sint b"
  using sint_word_of_int [of "sint a + sint b"] by simp

lemma sint_i64_diff [width_simps]:
  "INT64_MIN \<le> sint a - sint b \<Longrightarrow> sint a - sint b \<le> INT64_MAX \<Longrightarrow>
   sint (a - b :: i64) = sint a - sint b"
  using sint_word_of_int [of "sint a - sint b"] by simp

lemma sint_i64_uminus [width_simps]:
  "sint a \<noteq> INT64_MIN \<Longrightarrow> sint (- a :: i64) = - sint a"
  using sint_word_of_int [of "- sint a"] sint_i64_lower [of a] sint_i64_upper [of a] by simp

lemma i64_eq_iff: "(a :: i64) = b \<longleftrightarrow> sint a = sint b"
  by (simp add: word_eq_iff_signed)

lemma sint_i64_eq_0 [simp]: "sint (w :: i64) = 0 \<longleftrightarrow> w = 0"
  by (simp add: i64_eq_iff)

lemma unat_u64_upper: "unat (w :: u64) < 18446744073709551616"
  using unsigned_less [of w, where ?'a = nat] by simp

lemma unat_u32_upper: "unat (w :: u32) < 4294967296"
  using unsigned_less [of w, where ?'a = nat] by simp

lemma unat_u16_upper: "unat (w :: u16) < 65536"
  using unsigned_less [of w, where ?'a = nat] by simp

lemma unat_u8_upper: "unat (w :: u8) < 256"
  using unsigned_less [of w, where ?'a = nat] by simp

lemma unat_u16_le: "unat (w :: u16) \<le> 65535"
  using unat_u16_upper [of w] by linarith

lemma unat_of_nat_u16 [width_simps]: "n < 65536 \<Longrightarrow> unat (of_nat n :: u16) = n"
  by (simp add: unat_of_nat)

lemma unat_of_nat_u8 [width_simps]: "n < 256 \<Longrightarrow> unat (of_nat n :: u8) = n"
  by (simp add: unat_of_nat)

lemma unat_of_nat_u32 [width_simps]: "n < 4294967296 \<Longrightarrow> unat (of_nat n :: u32) = n"
  by (simp add: unat_of_nat)

lemma unat_of_nat_u64 [width_simps]: "n < 18446744073709551616 \<Longrightarrow> unat (of_nat n :: u64) = n"
  by (simp add: unat_of_nat)

section \<open>Out-pointers and early return\<close>

datatype out_ptr = NULL | Out

definition then_ok :: "'e + 'a \<Rightarrow> ('a \<Rightarrow> 'e + 'b) \<Rightarrow> 'e + 'b" where
  "then_ok m f = (case m of Inl e \<Rightarrow> Inl e | Inr v \<Rightarrow> f v)"

lemma then_ok_simps [simp]:
  "then_ok (Inl e) f = Inl e"
  "then_ok (Inr v) f = f v"
  by (simp_all add: then_ok_def)

lemma then_ok_Inr_iff: "then_ok m f = Inr b \<longleftrightarrow> (\<exists>a. m = Inr a \<and> f a = Inr b)"
  by (cases m) simp_all

lemma then_ok_Inl_iff:
  "then_ok m f = Inl e \<longleftrightarrow> m = Inl e \<or> (\<exists>a. m = Inr a \<and> f a = Inl e)"
  by (cases m) simp_all

lemma then_ok_InrE [elim]:
  assumes "then_ok m f = Inr b"
  obtains a where "m = Inr a" and "f a = Inr b"
  using assms by (cases m) simp_all

lemma then_ok_cong [fundef_cong]:
  "m = m' \<Longrightarrow> (\<And>v. m' = Inr v \<Longrightarrow> f v = f' v) \<Longrightarrow> then_ok m f = then_ok m' f'"
  by (cases m') simp_all

end
