(* ===== verification/Rounding.thy ===== *)
theory Rounding
  imports Arbor_Prelude
begin

text \<open>
  The mathematical rounding the fixed-point and colour code promises: division with ties
  to even. \<open>round_half_even\<close> is the specification, on floor division over \<open>int\<close>;
  \<open>nearest_even\<close> says what it means (within half a divisor, an even quotient on a tie) and
  determines the result; \<open>round_magnitude\<close> is the shape the C code computes (unsigned
  quotient and remainder, then an increment), tied to the specification for every sign.
\<close>

definition round_half_even :: "int \<Rightarrow> int \<Rightarrow> int" where
  "round_half_even n d =
     (let q = n div d; r = n mod d in
      if 2 * \<bar>r\<bar> < \<bar>d\<bar> \<or> (2 * \<bar>r\<bar> = \<bar>d\<bar> \<and> even q) then q else q + 1)"

definition nearest_even :: "int \<Rightarrow> int \<Rightarrow> int \<Rightarrow> bool" where
  "nearest_even n d x \<longleftrightarrow> 2 * \<bar>n - x * d\<bar> \<le> \<bar>d\<bar> \<and> (2 * \<bar>n - x * d\<bar> = \<bar>d\<bar> \<longrightarrow> even x)"

lemma mod_sign_bounds:
  fixes n d :: int
  shows "0 < d \<Longrightarrow> 0 \<le> n mod d \<and> n mod d < d"
    and "d < 0 \<Longrightarrow> d < n mod d \<and> n mod d \<le> 0"
  by simp_all

lemma round_half_even_nearest:
  assumes "d \<noteq> 0"
  shows "nearest_even n d (round_half_even n d)"
proof -
  define q r where "q = n div d" and "r = n mod d"
  have n: "n = q * d + r" by (simp add: q_def r_def)
  have step: "n - (q + 1) * d = r - d" by (simp add: n algebra_simps)
  have base: "n - q * d = r" by (simp add: n)
  have bound: "\<bar>r - d\<bar> = \<bar>d\<bar> - \<bar>r\<bar>" and "\<bar>r\<bar> < \<bar>d\<bar>"
    using assms mod_sign_bounds [of d n] unfolding r_def [symmetric] by linarith+
  show ?thesis
    unfolding nearest_even_def round_half_even_def Let_def q_def [symmetric] r_def [symmetric]
    using bound by (simp add: base step)
qed

lemma nearest_even_unique:
  assumes "nearest_even n d x" and "nearest_even n d y" and "d \<noteq> 0"
  shows "x = y"
proof (rule ccontr)
  assume "x \<noteq> y"
  have "\<bar>x - y\<bar> * \<bar>d\<bar> = \<bar>(n - y * d) - (n - x * d)\<bar>"
    by (simp add: abs_mult [symmetric] algebra_simps)
  then have le: "\<bar>x - y\<bar> * \<bar>d\<bar> \<le> \<bar>n - x * d\<bar> + \<bar>n - y * d\<bar>" by linarith
  also have "\<dots> \<le> 1 * \<bar>d\<bar>"
    using assms by (simp add: nearest_even_def)
  finally have "\<bar>x - y\<bar> = 1"
    using \<open>x \<noteq> y\<close> \<open>d \<noteq> 0\<close> by (simp add: mult_le_cancel_right)
  with le assms have "2 * \<bar>n - x * d\<bar> = \<bar>d\<bar>" and "2 * \<bar>n - y * d\<bar> = \<bar>d\<bar>"
    by (auto simp: nearest_even_def)
  then have "even x" and "even y"
    using assms by (simp_all add: nearest_even_def)
  with \<open>\<bar>x - y\<bar> = 1\<close> show False by presburger
qed

lemma round_half_even_eqI: "d \<noteq> 0 \<Longrightarrow> nearest_even n d x \<Longrightarrow> round_half_even n d = x"
  using nearest_even_unique round_half_even_nearest by blast

lemma round_half_even_neg: "d \<noteq> 0 \<Longrightarrow> round_half_even (- n) d = - round_half_even n d"
proof (rule round_half_even_eqI)
  assume "d \<noteq> 0"
  have "- n - - round_half_even n d * d = - (n - round_half_even n d * d)" by simp
  then show "nearest_even (- n) d (- round_half_even n d)"
    using round_half_even_nearest [OF \<open>d \<noteq> 0\<close>, of n]
    unfolding nearest_even_def \<open>_ = - (n - round_half_even n d * d)\<close> abs_minus_cancel even_minus
    by blast
qed

lemma round_half_even_neg_both: "d \<noteq> 0 \<Longrightarrow> round_half_even (- n) (- d) = round_half_even n d"
proof (rule round_half_even_eqI)
  assume "d \<noteq> 0"
  have "- n - round_half_even n d * - d = - (n - round_half_even n d * d)" by simp
  then show "nearest_even (- n) (- d) (round_half_even n d)"
    using round_half_even_nearest [OF \<open>d \<noteq> 0\<close>, of n]
    unfolding nearest_even_def \<open>_ = - (n - round_half_even n d * d)\<close> abs_minus_cancel by blast
qed simp

lemma round_half_even_neg_right: "d \<noteq> 0 \<Longrightarrow> round_half_even n (- d) = - round_half_even n d"
  using round_half_even_neg_both [of d "- n"] round_half_even_neg [of d n] by simp

lemma round_half_even_exact [simp]: "d \<noteq> 0 \<Longrightarrow> round_half_even (k * d) d = k"
  by (rule round_half_even_eqI) (simp_all add: nearest_even_def)

lemma close_multiples:
  fixes m n A B d :: int
  shows "2 * \<bar>m - A\<bar> \<le> d \<Longrightarrow> 2 * \<bar>n - B\<bar> \<le> d \<Longrightarrow> B + d \<le> A \<Longrightarrow> m \<le> n \<Longrightarrow> m = n"
  by arith

lemma round_half_even_bounds:
  assumes "0 < d"
  shows "2 * n \<le> 2 * (round_half_even n d * d) + d" "2 * (round_half_even n d * d) \<le> 2 * n + d"
proof -
  have arith: "2 * \<bar>n - A\<bar> \<le> d \<Longrightarrow> 2 * n \<le> 2 * A + d \<and> 2 * A \<le> 2 * n + d" for A :: int
    by arith
  have "2 * \<bar>n - round_half_even n d * d\<bar> \<le> d"
    using round_half_even_nearest [of d n] assms by (simp add: nearest_even_def)
  from arith [OF this] show "2 * n \<le> 2 * (round_half_even n d * d) + d"
    and "2 * (round_half_even n d * d) \<le> 2 * n + d" by simp_all
qed

lemma round_half_even_mono:
  assumes "0 < d" and "m \<le> n"
  shows "round_half_even m d \<le> round_half_even n d"
proof (rule ccontr)
  let ?x = "round_half_even m d" and ?y = "round_half_even n d"
  assume "\<not> ?x \<le> ?y"
  then have "?y + 1 \<le> ?x" by simp
  have nm: "nearest_even m d ?x" and nn: "nearest_even n d ?y"
    using assms by (simp_all add: round_half_even_nearest)
  have "(?y + 1) * d \<le> ?x * d" using \<open>?y + 1 \<le> ?x\<close> \<open>0 < d\<close> by (simp add: mult_right_mono)
  then have gap: "?y * d + d \<le> ?x * d" by (simp add: algebra_simps)
  have "2 * \<bar>m - ?x * d\<bar> \<le> d" and "2 * \<bar>n - ?y * d\<bar> \<le> d"
    using nm nn \<open>0 < d\<close> by (simp_all add: nearest_even_def)
  from close_multiples [OF this gap \<open>m \<le> n\<close>] have "m = n" .
  then have "?x = ?y" by simp
  with \<open>?y + 1 \<le> ?x\<close> show False by simp
qed
definition round_magnitude :: "nat \<Rightarrow> nat \<Rightarrow> nat" where
  "round_magnitude a b =
     (if 2 * (a mod b) > b \<or> (2 * (a mod b) = b \<and> odd (a div b)) then a div b + 1 else a div b)"

lemma round_magnitude_nonneg:
  assumes "0 < b"
  shows "round_half_even (int a) (int b) = int (round_magnitude a b)"
  unfolding round_half_even_def round_magnitude_def Let_def
  by (auto simp flip: of_nat_div of_nat_mod simp: of_nat_add) 

lemma round_half_even_magnitude:
  assumes "d \<noteq> 0"
  shows "round_half_even n d =
    (if (n < 0) = (d < 0) then int (round_magnitude (nat \<bar>n\<bar>) (nat \<bar>d\<bar>))
     else - int (round_magnitude (nat \<bar>n\<bar>) (nat \<bar>d\<bar>)))"
proof -
  have pos: "round_half_even \<bar>n\<bar> \<bar>d\<bar> = int (round_magnitude (nat \<bar>n\<bar>) (nat \<bar>d\<bar>))"
    using round_magnitude_nonneg [of "nat \<bar>d\<bar>" "nat \<bar>n\<bar>"] assms by simp
  show ?thesis
    using pos assms round_half_even_neg [of d n] round_half_even_neg_both [of d n] round_half_even_neg_right [of d n]
    by (simp add: abs_if split: if_splits)
qed

lemma round_magnitude_bounds:
  "a div b \<le> round_magnitude a b" "round_magnitude a b \<le> a div b + 1"
  by (simp_all add: round_magnitude_def)

end
