(* ===== verification/Fixed_Point.thy ===== *)
theory Fixed_Point
  imports Rounding
begin

text \<open>
  The checked Q32.32 scalar arithmetic of \<open>src/c/geometry.c\<close>: a coordinate is an
  \<open>int64_t\<close> counting units of \<open>2 ^ -32\<close>. The 128-bit reductions (the generic one, the
  x86-64 \<open>DIV\<close> hot path, the portable fallback and the shift by 32) are modelled
  instruction for instruction and shown to compute the same correctly rounded quotient;
  the scalar operations then equal their exact value or report overflow.
\<close>

section \<open>Types of geometry.h\<close>

type_synonym arbor_coord = i64

abbreviation ARBOR_COORD_FRACTION_BITS :: nat where "ARBOR_COORD_FRACTION_BITS \<equiv> 32"
abbreviation ARBOR_COORD_ONE :: int where "ARBOR_COORD_ONE \<equiv> 4294967296"
abbreviation ARBOR_Q32_SCALE_I128 :: int where "ARBOR_Q32_SCALE_I128 \<equiv> 4294967296"
abbreviation ARBOR_Q64_SCALE_I128 :: int where "ARBOR_Q64_SCALE_I128 \<equiv> 18446744073709551616"

datatype arbor_geometry_status =
    ARBOR_GEOMETRY_OK
  | ARBOR_GEOMETRY_INVALID_ARGUMENT
  | ARBOR_GEOMETRY_OVERFLOW
  | ARBOR_GEOMETRY_SINGULAR

text \<open>A C enum parameter can hold a value outside the enumeration; the code checks for it.\<close>

datatype arbor_rounding_mode =
    ARBOR_ROUND_TOWARD_ZERO
  | ARBOR_ROUND_FLOOR
  | ARBOR_ROUND_CEIL
  | ARBOR_ROUND_NEAREST_EVEN
  | ARBOR_ROUND_OUT_OF_ENUM int

type_synonym 'a geometry_result = "arbor_geometry_status + 'a"

definition arbor_rounding_mode_valid :: "arbor_rounding_mode \<Rightarrow> bool" where
  "arbor_rounding_mode_valid mode \<longleftrightarrow>
     mode = ARBOR_ROUND_TOWARD_ZERO \<or> mode = ARBOR_ROUND_FLOOR \<or>
     mode = ARBOR_ROUND_CEIL \<or> mode = ARBOR_ROUND_NEAREST_EVEN"

section \<open>128-bit reductions\<close>

definition arbor_i128_magnitude :: "int \<Rightarrow> nat" where
  "arbor_i128_magnitude value =
     (if value \<ge> 0 then nat value else u128 (nat (s128 (- s128 (value + 1))) + 1))"

text \<open>
  The tail the reductions share: compare the rounded magnitude with the limit of its sign,
  then negate, with the magnitude \<open>2 ^ 63\<close> mapped to \<open>INT64_MIN\<close> without negating.
\<close>

definition signed_quotient_to_i64 :: "bool \<Rightarrow> nat \<Rightarrow> i64 geometry_result" where
  "signed_quotient_to_i64 negative magnitude =
     (let limit = (if negative then 9223372036854775808 else 9223372036854775807) in
      if magnitude > limit then Inl ARBOR_GEOMETRY_OVERFLOW
      else if \<not> negative then Inr (of_nat magnitude)
      else if magnitude = 9223372036854775808 then Inr (word_of_int INT64_MIN)
      else Inr (- of_nat magnitude))"

definition arbor_round_div_i128_to_i64 ::
    "int \<Rightarrow> int \<Rightarrow> arbor_rounding_mode \<Rightarrow> out_ptr \<Rightarrow> i64 geometry_result" where
  "arbor_round_div_i128_to_i64 numerator denominator mode out =
     (if out = NULL \<or> denominator = 0 \<or> \<not> arbor_rounding_mode_valid mode
      then Inl ARBOR_GEOMETRY_INVALID_ARGUMENT
      else
        let negative = ((numerator < 0) \<noteq> (denominator < 0));
            numerator_magnitude = arbor_i128_magnitude numerator;
            denominator_magnitude = arbor_i128_magnitude denominator;
            quotient = numerator_magnitude div denominator_magnitude;
            remainder = numerator_magnitude mod denominator_magnitude;
            increment =
              (remainder \<noteq> 0 \<and>
               (case mode of
                  ARBOR_ROUND_TOWARD_ZERO \<Rightarrow> False
                | ARBOR_ROUND_FLOOR \<Rightarrow> negative
                | ARBOR_ROUND_CEIL \<Rightarrow> \<not> negative
                | ARBOR_ROUND_NEAREST_EVEN \<Rightarrow>
                    remainder > denominator_magnitude - remainder \<or>
                    (remainder = denominator_magnitude - remainder \<and> odd quotient)
                | ARBOR_ROUND_OUT_OF_ENUM _ \<Rightarrow> False))
        in if increment \<and> quotient = 340282366920938463463374607431768211455
           then Inl ARBOR_GEOMETRY_OVERFLOW
           else signed_quotient_to_i64 negative (if increment then u128 (quotient + 1) else quotient))"

definition arbor_coord_from_i128_scaled :: "int \<Rightarrow> int \<Rightarrow> out_ptr \<Rightarrow> arbor_coord geometry_result" where
  "arbor_coord_from_i128_scaled numerator denominator out =
     arbor_round_div_i128_to_i64 numerator denominator ARBOR_ROUND_NEAREST_EVEN out"

text \<open>The x86-64 \<open>DIV r64\<close>: the 128-bit dividend \<open>RDX:RAX\<close> by a 64-bit divisor.\<close>

definition x86_divq :: "nat \<Rightarrow> nat \<Rightarrow> nat \<Rightarrow> nat \<times> nat" where
  "x86_divq high low divisor =
     ((high * 2 ^ 64 + low) div divisor, (high * 2 ^ 64 + low) mod divisor)"

definition arbor_round_nearest_even_i128_by_i64_to_i64 ::
    "int \<Rightarrow> i64 \<Rightarrow> out_ptr \<Rightarrow> i64 geometry_result" where
  "arbor_round_nearest_even_i128_by_i64_to_i64 numerator denominator out =
     (if out = NULL \<or> denominator = 0 then Inl ARBOR_GEOMETRY_INVALID_ARGUMENT
      else
        let negative = ((numerator < 0) \<noteq> (sint denominator < 0));
            magnitude = arbor_i128_magnitude numerator;
            denominator_magnitude = arbor_i128_magnitude (sint denominator);
            high = u64 (magnitude div 2 ^ 64);
            low = u64 magnitude;
            divisor = u64 denominator_magnitude
        in if high \<ge> divisor then Inl ARBOR_GEOMETRY_OVERFLOW
           else
             let (quotient, remainder) = x86_divq high low divisor;
                 increment = (remainder > divisor - remainder \<or>
                              (remainder = divisor - remainder \<and> odd quotient))
             in if increment \<and> quotient = UINT64_MAX then Inl ARBOR_GEOMETRY_OVERFLOW
                else signed_quotient_to_i64 negative (if increment then u64 (quotient + 1) else quotient))"

text \<open>C division and remainder truncate towards zero.\<close>

definition c_div :: "int \<Rightarrow> int \<Rightarrow> int" where
  "c_div n d = sgn n * sgn d * (\<bar>n\<bar> div \<bar>d\<bar>)"

definition c_mod :: "int \<Rightarrow> int \<Rightarrow> int" where
  "c_mod n d = n - c_div n d * d"

definition arbor_round_nearest_even_i128_by_i64_to_i64_portable ::
    "int \<Rightarrow> i64 \<Rightarrow> out_ptr \<Rightarrow> i64 geometry_result" where
  "arbor_round_nearest_even_i128_by_i64_to_i64_portable numerator denominator out =
     (if out = NULL \<or> denominator = 0 then Inl ARBOR_GEOMETRY_INVALID_ARGUMENT
      else
        let divisor = sint denominator;
            quotient = s128 (c_div numerator divisor);
            remainder = s128 (c_mod numerator divisor);
            remainder_abs = (if remainder < 0 then nat (s128 (- remainder)) else nat remainder);
            divisor_abs = (if divisor < 0 then nat (s128 (- divisor)) else nat divisor);
            twice_remainder = u128 (remainder_abs * 2);
            negative = ((numerator < 0) \<noteq> (divisor < 0));
            quotient =
              (if twice_remainder > divisor_abs \<or> (twice_remainder = divisor_abs \<and> odd quotient)
               then s128 (quotient + (if negative then - 1 else 1)) else quotient)
        in if quotient < INT64_MIN \<or> quotient > INT64_MAX then Inl ARBOR_GEOMETRY_OVERFLOW
           else Inr (word_of_int quotient))"

definition arbor_round_nearest_even_i128_q32_to_i64 :: "int \<Rightarrow> out_ptr \<Rightarrow> i64 geometry_result" where
  "arbor_round_nearest_even_i128_q32_to_i64 numerator out =
     (if out = NULL then Inl ARBOR_GEOMETRY_INVALID_ARGUMENT
      else
        let negative = (numerator < 0);
            magnitude = arbor_i128_magnitude numerator;
            quotient = drop_bit ARBOR_COORD_FRACTION_BITS magnitude;
            remainder = take_bit 32 (u64 magnitude);
            quotient =
              (if remainder > 2147483648 \<or> (remainder = 2147483648 \<and> odd quotient)
               then u128 (quotient + 1) else quotient)
        in signed_quotient_to_i64 negative quotient)"

definition arbor_coord_from_i128_q32_hot :: "int \<Rightarrow> out_ptr \<Rightarrow> arbor_coord geometry_result" where
  "arbor_coord_from_i128_q32_hot numerator out =
     arbor_round_nearest_even_i128_q32_to_i64 numerator out"

text \<open>
  \<open>arbor_coord_from_i128_divisor_hot\<close> picks its reduction at compile time: the generic one
  for WebAssembly, the hot path or the fallback natively. The build is an argument.
\<close>

datatype target = X86_64 | Native_Other | Wasm

definition arbor_coord_from_i128_divisor_hot ::
    "target \<Rightarrow> int \<Rightarrow> arbor_coord \<Rightarrow> out_ptr \<Rightarrow> arbor_coord geometry_result" where
  "arbor_coord_from_i128_divisor_hot target numerator denominator out =
     (case target of
        Wasm \<Rightarrow> arbor_coord_from_i128_scaled numerator (sint denominator) out
      | X86_64 \<Rightarrow> arbor_round_nearest_even_i128_by_i64_to_i64 numerator denominator out
      | Native_Other \<Rightarrow>
          arbor_round_nearest_even_i128_by_i64_to_i64_portable numerator denominator out)"

section \<open>What the reductions compute\<close>

definition deliver_i64 :: "int \<Rightarrow> i64 geometry_result" where
  "deliver_i64 k = (if in_i64 k then Inr (word_of_int k) else Inl ARBOR_GEOMETRY_OVERFLOW)"

definition round_exact :: "arbor_rounding_mode \<Rightarrow> int \<Rightarrow> int \<Rightarrow> int" where
  "round_exact mode n d =
     (case mode of
        ARBOR_ROUND_FLOOR \<Rightarrow> n div d
      | ARBOR_ROUND_CEIL \<Rightarrow> - ((- n) div d)
      | ARBOR_ROUND_NEAREST_EVEN \<Rightarrow> round_half_even n d
      | _ \<Rightarrow> c_div n d)"

lemma arbor_i128_magnitude_eq [width_simps]: "in_i128 v \<Longrightarrow> arbor_i128_magnitude v = nat \<bar>v\<bar>"
  by (auto simp: arbor_i128_magnitude_def in_i128_def width_simps nat_add_distrib)

lemma signed_quotient_to_i64_eq:
  "signed_quotient_to_i64 negative m = deliver_i64 (if negative then - int m else int m)"
  by (auto simp: signed_quotient_to_i64_def deliver_i64_def in_i64_def)

lemma in_i64_i128: "in_i64 k \<Longrightarrow> in_i128 k"
  by (simp add: in_i64_def in_i128_def)

lemma nat_abs_div: "nat \<bar>n\<bar> div nat \<bar>d\<bar> = nat (\<bar>n\<bar> div \<bar>d\<bar>)" for n d :: int
  by (simp add: nat_div_distrib)

lemma nat_abs_mod: "nat \<bar>n\<bar> mod nat \<bar>d\<bar> = nat (\<bar>n\<bar> mod \<bar>d\<bar>)" for n d :: int
  by (simp add: nat_mod_distrib)

definition rounding_increment :: "arbor_rounding_mode \<Rightarrow> bool \<Rightarrow> nat \<Rightarrow> nat \<Rightarrow> nat \<Rightarrow> bool" where
  "rounding_increment mode negative q r b =
     (r \<noteq> 0 \<and>
      (case mode of
         ARBOR_ROUND_FLOOR \<Rightarrow> negative
       | ARBOR_ROUND_CEIL \<Rightarrow> \<not> negative
       | ARBOR_ROUND_NEAREST_EVEN \<Rightarrow> r > b - r \<or> (r = b - r \<and> odd q)
       | _ \<Rightarrow> False))"

lemma floor_magnitude:
  fixes n d :: int
  assumes "d \<noteq> 0"
  shows "n div d =
    (if (n < 0) = (d < 0) then \<bar>n\<bar> div \<bar>d\<bar>
     else - (\<bar>n\<bar> div \<bar>d\<bar> + (if \<bar>n\<bar> mod \<bar>d\<bar> = 0 then 0 else 1)))"
  using assms zdiv_zminus1_eq_if [of d "- n"] zdiv_zminus2_eq_if [of "- d" n]
    zmod_zminus2_eq_if [of n "- d"]
  by (auto simp: abs_if div_minus_minus)

lemma round_exact_magnitude:
  fixes n d :: int
  assumes "d \<noteq> 0" and "arbor_rounding_mode_valid mode"
  defines "negative \<equiv> (n < 0) \<noteq> (d < 0)"
    and "q \<equiv> nat \<bar>n\<bar> div nat \<bar>d\<bar>" and "r \<equiv> nat \<bar>n\<bar> mod nat \<bar>d\<bar>"
  defines "m \<equiv> (if rounding_increment mode negative q r (nat \<bar>d\<bar>) then q + 1 else q)"
  shows "round_exact mode n d = (if negative then - int m else int m)"
proof -
  have r: "r < nat \<bar>d\<bar>" using assms(1) by (simp add: r_def)
  have nonneg: "0 \<le> \<bar>n\<bar> mod \<bar>d\<bar>" using assms(1) by simp
  have zero: "r = 0 \<longleftrightarrow> \<bar>n\<bar> mod \<bar>d\<bar> = 0"
    unfolding r_def nat_abs_mod nat_0_iff using nonneg by linarith
  have q: "int q = \<bar>n\<bar> div \<bar>d\<bar>"
    using assms(1) by (simp add: q_def nat_abs_div pos_imp_zdiv_nonneg_iff)
  have floor: "n div d = (if negative then - (int q + (if r = 0 then 0 else 1)) else int q)"
    using floor_magnitude [OF assms(1), of n] by (simp add: q zero negative_def)
  have ceil: "(- n) div d = (if negative then int q else - (int q + (if r = 0 then 0 else 1)))"
    using floor_magnitude [OF assms(1), of "- n"] assms(1) zero q
    by (cases "n = 0") (auto simp: negative_def not_less le_less)
  have trunc: "c_div n d = (if negative then - int q else int q)"
    using assms(1) q by (auto simp: c_div_def negative_def sgn_if)
  have nearest: "round_half_even n d = (if negative then - int m else int m)"
    if "mode = ARBOR_ROUND_NEAREST_EVEN"
  proof -
    have "round_magnitude (nat \<bar>n\<bar>) (nat \<bar>d\<bar>) = m"
      using r unfolding round_magnitude_def m_def rounding_increment_def that q_def [symmetric] r_def [symmetric]
      by auto
    then show ?thesis
      using round_half_even_magnitude [OF assms(1), of n] by (simp add: negative_def)
  qed
  show ?thesis
    using assms(2) floor ceil trunc nearest
    by (cases mode) (auto simp: round_exact_def m_def rounding_increment_def arbor_rounding_mode_valid_def)
qed

theorem arbor_round_div_i128_to_i64_exact:
  assumes "in_i128 n" and "in_i128 d" and "d \<noteq> 0" and "arbor_rounding_mode_valid mode"
  shows "arbor_round_div_i128_to_i64 n d mode Out = deliver_i64 (round_exact mode n d)"
proof -
  let ?neg = "(n < 0) \<noteq> (d < 0)" and ?q = "nat \<bar>n\<bar> div nat \<bar>d\<bar>" and ?r = "nat \<bar>n\<bar> mod nat \<bar>d\<bar>"
  have "?q \<le> nat \<bar>n\<bar>" by (rule div_le_dividend)
  moreover have "nat \<bar>n\<bar> \<le> 170141183460469231731687303715884105728"
    using assms(1) by (auto simp: in_i128_def)
  ultimately have q: "?q \<le> 170141183460469231731687303715884105728" by (rule le_trans)
  have mag: "arbor_i128_magnitude n = nat \<bar>n\<bar>" "arbor_i128_magnitude d = nat \<bar>d\<bar>"
    using assms(1,2) by (simp_all add: arbor_i128_magnitude_eq)
  have wrap: "u128 (?q + 1) = ?q + 1" and "?q \<noteq> 340282366920938463463374607431768211455"
    using q by (simp_all add: u128_id)
  have "arbor_round_div_i128_to_i64 n d mode Out =
    signed_quotient_to_i64 ?neg (if rounding_increment mode ?neg ?q ?r (nat \<bar>d\<bar>) then ?q + 1 else ?q)"
    using assms(3,4) \<open>?q \<noteq> _\<close>
    unfolding arbor_round_div_i128_to_i64_def Let_def mag wrap rounding_increment_def
    by (cases mode) (simp_all add: arbor_rounding_mode_valid_def)
  then show ?thesis
    using round_exact_magnitude [OF assms(3,4), of n] by (simp add: signed_quotient_to_i64_eq)
qed

text \<open>The three native and the shift reductions, against the same specification.\<close>

lemma deliver_round_half_even:
  assumes "d \<noteq> 0"
  shows "deliver_i64 (round_half_even n d) =
    signed_quotient_to_i64 ((n < 0) \<noteq> (d < 0)) (round_magnitude (nat \<bar>n\<bar>) (nat \<bar>d\<bar>))"
  using round_half_even_magnitude [OF assms, of n] by (simp add: signed_quotient_to_i64_eq)

lemma signed_quotient_overflow:
  "9223372036854775808 < m \<Longrightarrow> signed_quotient_to_i64 negative m = Inl ARBOR_GEOMETRY_OVERFLOW"
  by (simp add: signed_quotient_to_i64_def)

lemma round_magnitude_increment:
  fixes r b q :: nat
  assumes "r < b"
  shows "(if b - r < r \<or> r = b - r \<and> odd q then q + 1 else q) =
    (if b < 2 * r \<or> 2 * r = b \<and> odd q then q + 1 else q)"
  using assms by (auto split: if_splits)

lemma magnitude_bound: "in_i128 n \<Longrightarrow> nat \<bar>n\<bar> \<le> 170141183460469231731687303715884105728"
  by (auto simp: in_i128_def)

lemma sint_i64_magnitude: "nat \<bar>sint (d :: i64)\<bar> \<le> 9223372036854775808"
  using sint_i64_lower [of d] sint_i64_upper [of d] by linarith

lemma x86_reduction_exact:
  assumes n: "in_i128 n" and d: "d \<noteq> 0"
  shows "arbor_round_nearest_even_i128_by_i64_to_i64 n d Out = deliver_i64 (round_half_even n (sint d))"
proof -
  define a b where "a = nat \<bar>n\<bar>" and "b = nat \<bar>sint d\<bar>"
  have a: "a \<le> 170141183460469231731687303715884105728"
    unfolding a_def using n by (rule magnitude_bound)
  have b: "0 < b" "b \<le> 9223372036854775808"
    using d sint_i64_magnitude [of d] by (simp_all add: b_def)
  have split: "u64 (a div 18446744073709551616) * 18446744073709551616 + u64 a = a"
    and high: "u64 (a div 18446744073709551616) = a div 18446744073709551616"
    using a by (simp_all add: u64_def)
  have mags: "arbor_i128_magnitude n = a" "arbor_i128_magnitude (sint d) = b" "u64 b = b"
    using n b in_i64_i128 [OF sint_in_i64, of d] by (simp_all add: a_def b_def width_simps)
  have spec: "deliver_i64 (round_half_even n (sint d)) =
      signed_quotient_to_i64 ((n < 0) \<noteq> (sint d < 0)) (round_magnitude a b)"
    using deliver_round_half_even [of "sint d" n] d by (simp add: a_def b_def)
  show ?thesis
  proof (cases "b \<le> a div 18446744073709551616")
    case True
    then have "b * 18446744073709551616 \<le> a" by (simp add: less_eq_div_iff_mult_less_eq)
    then have "18446744073709551616 \<le> a div b"
      using b by (simp add: less_eq_div_iff_mult_less_eq mult.commute)
    then have "9223372036854775808 < round_magnitude a b"
      using round_magnitude_bounds(1) [of a b] by linarith
    with True d show ?thesis
      by (simp add: arbor_round_nearest_even_i128_by_i64_to_i64_def mags high spec
        signed_quotient_overflow Let_def)
  next
    case False
    then have "a < b * 18446744073709551616" by (simp add: not_le div_less_iff_less_mult)
    then have q: "a div b < 18446744073709551616" using b by (simp add: div_less_iff_less_mult mult.commute)
    have rem: "a mod b < b" using b by simp
    have whole: "round_magnitude a b =
        (if b - a mod b < a mod b \<or> a mod b = b - a mod b \<and> odd (a div b) then a div b + 1 else a div b)"
      unfolding round_magnitude_increment [OF rem] by (simp add: round_magnitude_def)
    show ?thesis
      using False d q
      by (auto simp: arbor_round_nearest_even_i128_by_i64_to_i64_def mags x86_divq_def
        high split [unfolded high] spec whole signed_quotient_overflow width_simps Let_def split: if_splits)
  qed
qed

lemma c_div_magnitude:
  fixes n d :: int
  assumes "d \<noteq> 0"
  shows "c_div n d = (if (n < 0) = (d < 0) then \<bar>n\<bar> div \<bar>d\<bar> else - (\<bar>n\<bar> div \<bar>d\<bar>))"
  using assms by (cases "n = 0") (auto simp: c_div_def sgn_if)

lemma c_mod_magnitude:
  fixes n d :: int
  assumes "d \<noteq> 0"
  shows "c_mod n d = (if n < 0 then - (\<bar>n\<bar> mod \<bar>d\<bar>) else \<bar>n\<bar> mod \<bar>d\<bar>)"
  unfolding c_mod_def c_div_magnitude [OF assms]
  using assms by (auto simp: minus_div_mult_eq_mod [symmetric] abs_if)

lemma portable_reduction_exact:
  assumes n: "in_i128 n" and strict: "n \<noteq> - (2 ^ 127)" and d: "d \<noteq> 0"
  shows "arbor_round_nearest_even_i128_by_i64_to_i64_portable n d Out =
    deliver_i64 (round_half_even n (sint d))"
proof -
  define a b where "a = nat \<bar>n\<bar>" and "b = nat \<bar>sint d\<bar>"
  define neg where "neg = ((n < 0) \<noteq> (sint d < 0))"
  have sd: "sint d \<noteq> 0" using d by simp
  have a: "a < 170141183460469231731687303715884105728"
    unfolding a_def using n strict by (auto simp: in_i128_def)
  have b: "0 < b" "b \<le> 9223372036854775808"
    using d sint_i64_magnitude [of d] by (simp_all add: b_def)
  have q: "a div b < 170141183460469231731687303715884105728"
    using div_le_dividend [of a b] a by linarith
  have r: "a mod b < 9223372036854775808"
    using mod_less_divisor [OF b(1), of a] b(2) by linarith
  have qi: "\<bar>n\<bar> div \<bar>sint d\<bar> = int (a div b)" and ri: "\<bar>n\<bar> mod \<bar>sint d\<bar> = int (a mod b)"
    by (simp_all add: a_def b_def zdiv_int zmod_int)
  have quot: "s128 (c_div n (sint d)) = (if neg then - int (a div b) else int (a div b))"
    using q unfolding c_div_magnitude [OF sd] qi by (simp add: neg_def width_simps)
  have rem: "s128 (c_mod n (sint d)) = (if n < 0 then - int (a mod b) else int (a mod b))"
    using r b unfolding c_mod_magnitude [OF sd] ri by (simp add: width_simps)
  have rem_abs: "nat \<bar>s128 (c_mod n (sint d))\<bar> = a mod b"
    unfolding rem by simp
  have div_abs: "(if sint d < 0 then nat (s128 (- sint d)) else nat (sint d)) = b"
    using sint_i64_lower [of d] sint_i64_upper [of d] by (auto simp: b_def width_simps)
  have rem_if: "(if s128 (c_mod n (sint d)) < 0 then nat (s128 (- s128 (c_mod n (sint d))))
      else nat (s128 (c_mod n (sint d)))) = a mod b"
    using r b unfolding rem by (auto simp: width_simps)
  have twice: "u128 (a mod b * 2) = 2 * (a mod b)"
    using r b by (simp add: width_simps)
  define up where "up = (b < 2 * (a mod b) \<or> 2 * (a mod b) = b \<and> odd (a div b))"
  have bump: "s128 (s128 (c_div n (sint d)) + (if neg then - 1 else 1)) =
      (if neg then - int (a div b + 1) else int (a div b + 1))"
    if "1 < b"
  proof -
    have "a div b \<le> a div 2" using that by (simp add: div_le_mono2)
    then show ?thesis using a unfolding quot by (auto simp: width_simps)
  qed
  have up_b: "1 < b" if up
    using that mod_less_divisor [OF b(1), of a] unfolding up_def by linarith
  have spec: "round_half_even n (sint d) = (if neg then - int (if up then a div b + 1 else a div b)
      else int (if up then a div b + 1 else a div b))"
    using round_half_even_magnitude [OF sd, of n]
    unfolding round_magnitude_def a_def [symmetric] b_def [symmetric] neg_def up_def by simp
  show ?thesis
    using d up_b bump
    unfolding arbor_round_nearest_even_i128_by_i64_to_i64_portable_def Let_def rem_if div_abs twice
      neg_def [symmetric] spec deliver_i64_def
    by (auto simp: quot up_def in_i64_def)
qed

lemma q32_reduction_exact:
  assumes n: "in_i128 n"
  shows "arbor_round_nearest_even_i128_q32_to_i64 n Out =
    deliver_i64 (round_half_even n ARBOR_Q32_SCALE_I128)"
proof -
  define a where "a = nat \<bar>n\<bar>"
  have a: "a \<le> 170141183460469231731687303715884105728"
    unfolding a_def using n by (rule magnitude_bound)
  have low: "take_bit 32 (u64 a) = a mod 4294967296"
    by (simp add: take_bit_eq_mod u64_def mod_mod_cancel)
  have high: "drop_bit 32 a = a div 4294967296"
    by (simp add: drop_bit_eq_div)
  have wrap: "u128 (a div 4294967296 + 1) = a div 4294967296 + 1"
    using a by (simp add: width_simps)
  have "round_magnitude a 4294967296 =
      (if 2147483648 < a mod 4294967296 \<or> a mod 4294967296 = 2147483648 \<and> odd (a div 4294967296)
       then a div 4294967296 + 1 else a div 4294967296)"
    unfolding round_magnitude_def by auto
  then show ?thesis
    unfolding deliver_round_half_even [of "ARBOR_Q32_SCALE_I128" n, simplified]
    by (simp add: arbor_round_nearest_even_i128_q32_to_i64_def width_simps n
      a_def [symmetric] low high wrap [simplified] Let_def)
qed

section \<open>The reduction interface\<close>

text \<open>
  The arithmetic above the reductions needs one law of them: inside the numerators the code
  can form, the result is the correctly rounded quotient or OVERFLOW. The four reductions
  provide it; everything proved in the locale holds for each of them.
\<close>

locale nearest_even_reduction =
  fixes reduce :: "int \<Rightarrow> i64 \<Rightarrow> i64 geometry_result"
  assumes reduce_exact:
    "in_i128 n \<Longrightarrow> n \<noteq> - (2 ^ 127) \<Longrightarrow> d \<noteq> 0 \<Longrightarrow>
     reduce n d = deliver_i64 (round_half_even n (sint d))"
begin

lemma reduce_multiple:
  assumes "in_i128 (k * sint d)" and "k * sint d \<noteq> - (2 ^ 127)" and "d \<noteq> 0"
  shows "reduce (k * sint d) d = deliver_i64 k"
  using assms by (simp add: reduce_exact)

lemma reduce_within_half:
  assumes "in_i128 n" and "n \<noteq> - (2 ^ 127)" and "d \<noteq> 0" and "reduce n d = Inr r"
  shows "2 * \<bar>n - sint r * sint d\<bar> \<le> \<bar>sint d\<bar>"
  using assms round_half_even_nearest [of "sint d" n]
  by (auto simp: reduce_exact deliver_i64_def in_i64_sint nearest_even_def split: if_splits)

lemma reduce_mono:
  assumes "in_i128 m" and "m \<noteq> - (2 ^ 127)" and "in_i128 n" and "n \<noteq> - (2 ^ 127)"
    and "0 < sint d" and "m \<le> n"
    and "reduce m d = Inr r" and "reduce n d = Inr s"
  shows "sint r \<le> sint s"
proof -
  have "d \<noteq> 0" using assms(5) by auto
  with assms show ?thesis
    using round_half_even_mono [of "sint d" m n]
    by (auto simp: reduce_exact deliver_i64_def in_i64_sint split: if_splits)
qed

end

interpretation generic: nearest_even_reduction
  "\<lambda>n d. arbor_round_div_i128_to_i64 n (sint d) ARBOR_ROUND_NEAREST_EVEN Out"
  by unfold_locales
    (simp add: arbor_round_div_i128_to_i64_exact in_i64_i128 arbor_rounding_mode_valid_def round_exact_def)

interpretation x86: nearest_even_reduction
  "\<lambda>n d. arbor_round_nearest_even_i128_by_i64_to_i64 n d Out"
  by unfold_locales (rule x86_reduction_exact)

interpretation portable: nearest_even_reduction
  "\<lambda>n d. arbor_round_nearest_even_i128_by_i64_to_i64_portable n d Out"
  by unfold_locales (rule portable_reduction_exact)

lemma divisor_hot_exact:
  assumes "in_i128 n" and "n \<noteq> - (2 ^ 127)" and "d \<noteq> 0"
  shows "arbor_coord_from_i128_divisor_hot target n d Out = deliver_i64 (round_half_even n (sint d))"
  using assms generic.reduce_exact x86.reduce_exact portable.reduce_exact
  by (cases target) (simp_all add: arbor_coord_from_i128_divisor_hot_def arbor_coord_from_i128_scaled_def)

interpretation divisor_hot: nearest_even_reduction
  "\<lambda>n d. arbor_coord_from_i128_divisor_hot target n d Out" for target
  by unfold_locales (rule divisor_hot_exact)

section \<open>Scalar operations\<close>

definition arbor_coord_from_integer :: "i64 \<Rightarrow> out_ptr \<Rightarrow> arbor_coord geometry_result" where
  "arbor_coord_from_integer integer out =
     (if out = NULL then Inl ARBOR_GEOMETRY_INVALID_ARGUMENT
      else let raw = s128 (sint integer * ARBOR_Q32_SCALE_I128) in
        if raw < INT64_MIN \<or> raw > INT64_MAX then Inl ARBOR_GEOMETRY_OVERFLOW
        else Inr (word_of_int raw))"

definition arbor_coord_from_ratio ::
    "i64 \<Rightarrow> u64 \<Rightarrow> arbor_rounding_mode \<Rightarrow> out_ptr \<Rightarrow> arbor_coord geometry_result" where
  "arbor_coord_from_ratio numerator denominator mode out =
     (if out = NULL \<or> denominator = 0 \<or> int (unat denominator) > INT64_MAX \<or>
         \<not> arbor_rounding_mode_valid mode
      then Inl ARBOR_GEOMETRY_INVALID_ARGUMENT
      else let scaled = s128 (sint numerator * ARBOR_Q32_SCALE_I128) in
        arbor_round_div_i128_to_i64 scaled (int (unat denominator)) mode out)"

definition arbor_coord_to_integer ::
    "arbor_coord \<Rightarrow> arbor_rounding_mode \<Rightarrow> out_ptr \<Rightarrow> i64 geometry_result" where
  "arbor_coord_to_integer val mode out =
     (if out = NULL \<or> \<not> arbor_rounding_mode_valid mode then Inl ARBOR_GEOMETRY_INVALID_ARGUMENT
      else arbor_round_div_i128_to_i64 (sint val) ARBOR_Q32_SCALE_I128 mode out)"

definition arbor_coord_add :: "arbor_coord \<Rightarrow> arbor_coord \<Rightarrow> out_ptr \<Rightarrow> arbor_coord geometry_result" where
  "arbor_coord_add left right out =
     (if out = NULL then Inl ARBOR_GEOMETRY_INVALID_ARGUMENT
      else if (sint right > 0 \<and> sint left > s64 (INT64_MAX - sint right)) \<or>
              (sint right < 0 \<and> sint left < s64 (INT64_MIN - sint right))
      then Inl ARBOR_GEOMETRY_OVERFLOW
      else Inr (left + right))"

definition arbor_coord_sub :: "arbor_coord \<Rightarrow> arbor_coord \<Rightarrow> out_ptr \<Rightarrow> arbor_coord geometry_result" where
  "arbor_coord_sub left right out =
     (if out = NULL then Inl ARBOR_GEOMETRY_INVALID_ARGUMENT
      else if (sint right < 0 \<and> sint left > s64 (INT64_MAX + sint right)) \<or>
              (sint right > 0 \<and> sint left < s64 (INT64_MIN + sint right))
      then Inl ARBOR_GEOMETRY_OVERFLOW
      else Inr (left - right))"

definition arbor_coord_neg :: "arbor_coord \<Rightarrow> out_ptr \<Rightarrow> arbor_coord geometry_result" where
  "arbor_coord_neg val out =
     (if out = NULL then Inl ARBOR_GEOMETRY_INVALID_ARGUMENT
      else if sint val = INT64_MIN then Inl ARBOR_GEOMETRY_OVERFLOW
      else Inr (- val))"

definition arbor_coord_abs :: "arbor_coord \<Rightarrow> out_ptr \<Rightarrow> arbor_coord geometry_result" where
  "arbor_coord_abs val out =
     (if out = NULL then Inl ARBOR_GEOMETRY_INVALID_ARGUMENT
      else if sint val = INT64_MIN then Inl ARBOR_GEOMETRY_OVERFLOW
      else Inr (if sint val < 0 then - val else val))"

definition arbor_coord_mul :: "arbor_coord \<Rightarrow> arbor_coord \<Rightarrow> out_ptr \<Rightarrow> arbor_coord geometry_result" where
  "arbor_coord_mul left right out =
     (if out = NULL then Inl ARBOR_GEOMETRY_INVALID_ARGUMENT
      else let product = s128 (sint left * sint right) in
        arbor_coord_from_i128_q32_hot product out)"

definition arbor_coord_div ::
    "target \<Rightarrow> arbor_coord \<Rightarrow> arbor_coord \<Rightarrow> out_ptr \<Rightarrow> arbor_coord geometry_result" where
  "arbor_coord_div target numerator denominator out =
     (if out = NULL \<or> denominator = 0 then Inl ARBOR_GEOMETRY_INVALID_ARGUMENT
      else let scaled = s128 (sint numerator * ARBOR_Q32_SCALE_I128) in
        arbor_coord_from_i128_divisor_hot target scaled denominator out)"

named_theorems coord_exact \<open>scalar operations as exact integer arithmetic\<close>

lemma sint_scaled_i128:
  assumes "0 \<le> k" and "k \<le> 18446744073709551616"
  shows "in_i128 (sint (w :: i64) * k)" and "s128 (sint w * k) = sint w * k"
proof -
  have "\<bar>sint w * k\<bar> \<le> 9223372036854775808 * 18446744073709551616"
    unfolding abs_mult using sint_i64_lower [of w] sint_i64_upper [of w] assms
    by (intro mult_mono) auto
  moreover have "sint w * k \<noteq> 9223372036854775808 * 18446744073709551616"
  proof
    assume eq: "sint w * k = 9223372036854775808 * 18446744073709551616"
    have "sint w * k \<le> 9223372036854775807 * k"
      using sint_i64_upper [of w] assms by (intro mult_right_mono) auto
    then show False using eq assms by linarith
  qed
  ultimately show "in_i128 (sint w * k)" by (auto simp: in_i128_def)
  then show "s128 (sint w * k) = sint w * k" by (simp add: in_i128_def width_simps)
qed

lemma sint_product_bound: "\<bar>sint (a :: i64) * sint (b :: i64)\<bar> \<le> 85070591730234615865843651857942052864"
proof -
  have "\<bar>sint a * sint b\<bar> \<le> 9223372036854775808 * 9223372036854775808"
    unfolding abs_mult using sint_i64_lower [of a] sint_i64_upper [of a] sint_i64_lower [of b] sint_i64_upper [of b]
    by (intro mult_mono) auto
  then show ?thesis by simp
qed

lemma sint_product_i128:
  "in_i128 (sint (a :: i64) * sint (b :: i64))" "s128 (sint a * sint b) = sint a * sint b"
  using sint_product_bound [of a b] by (auto simp: in_i128_def width_simps)

lemma deliver_i64_word [simp]: "deliver_i64 (sint w) = Inr w"
  by (simp add: deliver_i64_def)

lemma deliver_i64_Inr_iff: "deliver_i64 k = Inr w \<longleftrightarrow> in_i64 k \<and> sint w = k"
  by (auto simp: deliver_i64_def in_i64_sint)

lemma deliver_i64_Inl_iff: "deliver_i64 k = Inl e \<longleftrightarrow> \<not> in_i64 k \<and> e = ARBOR_GEOMETRY_OVERFLOW"
  by (auto simp: deliver_i64_def)

lemma arbor_coord_add_exact [coord_exact]: "arbor_coord_add l r Out = deliver_i64 (sint l + sint r)"
  using sint_i64_lower [of r] sint_i64_upper [of r] sint_i64_lower [of l] sint_i64_upper [of l]
  by (auto simp: arbor_coord_add_def deliver_i64_def in_i64_def width_simps)

lemma arbor_coord_sub_exact [coord_exact]: "arbor_coord_sub l r Out = deliver_i64 (sint l - sint r)"
  using sint_i64_lower [of r] sint_i64_upper [of r] sint_i64_lower [of l] sint_i64_upper [of l]
  by (auto simp: arbor_coord_sub_def deliver_i64_def in_i64_def width_simps)

lemma arbor_coord_neg_exact [coord_exact]: "arbor_coord_neg a Out = deliver_i64 (- sint a)"
  using sint_i64_lower [of a] sint_i64_upper [of a]
  by (auto simp: arbor_coord_neg_def deliver_i64_def in_i64_def)

lemma arbor_coord_abs_exact [coord_exact]: "arbor_coord_abs a Out = deliver_i64 \<bar>sint a\<bar>"
  using sint_i64_lower [of a] sint_i64_upper [of a]
  by (auto simp: arbor_coord_abs_def deliver_i64_def in_i64_def)

lemma arbor_coord_mul_exact [coord_exact]:
  "arbor_coord_mul a b Out = deliver_i64 (round_half_even (sint a * sint b) ARBOR_Q32_SCALE_I128)"
  by (simp add: arbor_coord_mul_def arbor_coord_from_i128_q32_hot_def sint_product_i128 q32_reduction_exact)

lemma scaled_not_min: "sint (w :: i64) * ARBOR_Q32_SCALE_I128 \<noteq> - (2 ^ 127)"
  using sint_i64_lower [of w] by simp

lemma arbor_coord_div_exact [coord_exact]:
  "b \<noteq> 0 \<Longrightarrow> arbor_coord_div target a b Out =
     deliver_i64 (round_half_even (sint a * ARBOR_Q32_SCALE_I128) (sint b))"
  using sint_scaled_i128 [of ARBOR_Q32_SCALE_I128 a] scaled_not_min [of a]
  by (simp add: arbor_coord_div_def divisor_hot.reduce_exact)

lemma arbor_coord_from_integer_exact [coord_exact]:
  "arbor_coord_from_integer k Out = deliver_i64 (sint k * ARBOR_COORD_ONE)"
  using sint_scaled_i128(2) [of ARBOR_Q32_SCALE_I128 k]
  by (auto simp: arbor_coord_from_integer_def deliver_i64_def in_i64_def)

lemma arbor_coord_from_ratio_exact [coord_exact]:
  assumes "0 < unat d" and "int (unat d) \<le> INT64_MAX" and "arbor_rounding_mode_valid mode"
  shows "arbor_coord_from_ratio n d mode Out =
    deliver_i64 (round_exact mode (sint n * ARBOR_Q32_SCALE_I128) (int (unat d)))"
proof -
  have "in_i64 (int (unat d))" using assms(1,2) unfolding in_i64_def by linarith
  then have d: "in_i128 (int (unat d))" "int (unat d) \<noteq> 0"
    using assms(1) in_i64_i128 by (blast, linarith)
  have n: "in_i128 (sint n * ARBOR_Q32_SCALE_I128)"
    by (rule sint_scaled_i128) simp_all
  show ?thesis
    using assms sint_scaled_i128(2) [of ARBOR_Q32_SCALE_I128 n]
      arbor_round_div_i128_to_i64_exact [OF n d assms(3)]
    by (auto simp: arbor_coord_from_ratio_def)
qed

lemma arbor_coord_to_integer_exact [coord_exact]:
  assumes "arbor_rounding_mode_valid mode"
  shows "arbor_coord_to_integer a mode Out = deliver_i64 (round_exact mode (sint a) ARBOR_Q32_SCALE_I128)"
proof -
  have "in_i128 ARBOR_Q32_SCALE_I128" by (simp add: in_i128_def)
  with assms show ?thesis
    using in_i64_i128 [OF sint_in_i64, of a]
    by (simp add: arbor_coord_to_integer_def arbor_round_div_i128_to_i64_exact)
qed

end
