(* ===== verification/Rect.thy ===== *)
theory Rect
  imports Fixed_Point
begin

text \<open>
  Points, sizes, half-open rectangles and lines of \<open>src/c/geometry.c\<close>. The abstract view
  of a rectangle is the set of integer points it covers (\<open>rect_region\<close>, in raw Q32.32
  units): intersection is set intersection, union is the least rectangle around both.
\<close>

record arbor_point =
  pt_x :: arbor_coord
  pt_y :: arbor_coord

record arbor_size =
  size_width :: arbor_coord
  size_height :: arbor_coord

record arbor_rect =
  rect_x :: arbor_coord
  rect_y :: arbor_coord
  rect_width :: arbor_coord
  rect_height :: arbor_coord

record arbor_line =
  line_start :: arbor_point
  line_end :: arbor_point

section \<open>Operations\<close>

definition arbor_rect_edges ::
    "arbor_rect \<Rightarrow> out_ptr \<Rightarrow> out_ptr \<Rightarrow> (arbor_coord \<times> arbor_coord) geometry_result" where
  "arbor_rect_edges rect right bottom =
     (if right = NULL \<or> bottom = NULL \<or> sint (rect_width rect) < 0 \<or> sint (rect_height rect) < 0
      then Inl ARBOR_GEOMETRY_INVALID_ARGUMENT
      else
        then_ok (arbor_coord_add (rect_x rect) (rect_width rect) Out) (\<lambda>computed_right.
        then_ok (arbor_coord_add (rect_y rect) (rect_height rect) Out) (\<lambda>computed_bottom.
        Inr (computed_right, computed_bottom))))"

definition arbor_size_make :: "arbor_coord \<Rightarrow> arbor_coord \<Rightarrow> out_ptr \<Rightarrow> arbor_size geometry_result" where
  "arbor_size_make width height out =
     (if out = NULL \<or> sint width < 0 \<or> sint height < 0 then Inl ARBOR_GEOMETRY_INVALID_ARGUMENT
      else Inr \<lparr>size_width = width, size_height = height\<rparr>)"

definition arbor_rect_make ::
    "arbor_coord \<Rightarrow> arbor_coord \<Rightarrow> arbor_coord \<Rightarrow> arbor_coord \<Rightarrow> out_ptr \<Rightarrow> arbor_rect geometry_result" where
  "arbor_rect_make x y width height out =
     (if out = NULL \<or> sint width < 0 \<or> sint height < 0 then Inl ARBOR_GEOMETRY_INVALID_ARGUMENT
      else
        then_ok (arbor_coord_add x width Out) (\<lambda>_.
        then_ok (arbor_coord_add y height Out) (\<lambda>_.
        Inr \<lparr>rect_x = x, rect_y = y, rect_width = width, rect_height = height\<rparr>)))"

definition arbor_rect_from_edges ::
    "arbor_coord \<Rightarrow> arbor_coord \<Rightarrow> arbor_coord \<Rightarrow> arbor_coord \<Rightarrow> out_ptr \<Rightarrow> arbor_rect geometry_result" where
  "arbor_rect_from_edges left top_edge right bottom out =
     (if out = NULL \<or> sint right < sint left \<or> sint bottom < sint top_edge
      then Inl ARBOR_GEOMETRY_INVALID_ARGUMENT
      else
        then_ok (arbor_coord_sub right left Out) (\<lambda>width.
        then_ok (arbor_coord_sub bottom top_edge Out) (\<lambda>height.
        arbor_rect_make left top_edge width height out)))"

definition arbor_point_translate ::
    "arbor_point \<Rightarrow> arbor_point \<Rightarrow> out_ptr \<Rightarrow> arbor_point geometry_result" where
  "arbor_point_translate point delta out =
     (if out = NULL then Inl ARBOR_GEOMETRY_INVALID_ARGUMENT
      else
        then_ok (arbor_coord_add (pt_x point) (pt_x delta) Out) (\<lambda>x.
        then_ok (arbor_coord_add (pt_y point) (pt_y delta) Out) (\<lambda>y.
        Inr \<lparr>pt_x = x, pt_y = y\<rparr>)))"

definition arbor_rect_translate ::
    "arbor_rect \<Rightarrow> arbor_point \<Rightarrow> out_ptr \<Rightarrow> arbor_rect geometry_result" where
  "arbor_rect_translate rect delta out =
     (if out = NULL then Inl ARBOR_GEOMETRY_INVALID_ARGUMENT
      else
        then_ok (arbor_rect_edges rect Out Out) (\<lambda>_.
        then_ok (arbor_coord_add (rect_x rect) (pt_x delta) Out) (\<lambda>x.
        then_ok (arbor_coord_add (rect_y rect) (pt_y delta) Out) (\<lambda>y.
        let result = \<lparr>rect_x = x, rect_y = y,
                      rect_width = rect_width rect, rect_height = rect_height rect\<rparr> in
        then_ok (arbor_rect_edges result Out Out) (\<lambda>_. Inr result)))))"

definition arbor_rect_contains_point :: "arbor_rect \<Rightarrow> arbor_point \<Rightarrow> bool" where
  "arbor_rect_contains_point rect point =
     (case arbor_rect_edges rect Out Out of
        Inl _ \<Rightarrow> False
      | Inr (right, bottom) \<Rightarrow>
          if rect_width rect = 0 \<or> rect_height rect = 0 then False
          else sint (pt_x point) \<ge> sint (rect_x rect) \<and> sint (pt_x point) < sint right \<and>
               sint (pt_y point) \<ge> sint (rect_y rect) \<and> sint (pt_y point) < sint bottom)"

definition arbor_rect_intersection ::
    "arbor_rect \<Rightarrow> arbor_rect \<Rightarrow> out_ptr \<Rightarrow> out_ptr \<Rightarrow> (arbor_rect \<times> bool) geometry_result" where
  "arbor_rect_intersection left right out intersects =
     (if out = NULL \<or> intersects = NULL then Inl ARBOR_GEOMETRY_INVALID_ARGUMENT
      else
        then_ok (arbor_rect_edges left Out Out) (\<lambda>(left_right, left_bottom).
        then_ok (arbor_rect_edges right Out Out) (\<lambda>(right_right, right_bottom).
        let x0 = (if sint (rect_x left) > sint (rect_x right) then rect_x left else rect_x right);
            y0 = (if sint (rect_y left) > sint (rect_y right) then rect_y left else rect_y right);
            x1 = (if sint left_right < sint right_right then left_right else right_right);
            y1 = (if sint left_bottom < sint right_bottom then left_bottom else right_bottom);
            visible = (sint x1 > sint x0 \<and> sint y1 > sint y0)
        in if \<not> visible
           then Inr (\<lparr>rect_x = x0, rect_y = y0, rect_width = 0, rect_height = 0\<rparr>, visible)
           else then_ok (arbor_rect_from_edges x0 y0 x1 y1 Out) (\<lambda>result. Inr (result, visible)))))"

definition arbor_rect_union ::
    "arbor_rect \<Rightarrow> arbor_rect \<Rightarrow> out_ptr \<Rightarrow> arbor_rect geometry_result" where
  "arbor_rect_union left right out =
     (if out = NULL then Inl ARBOR_GEOMETRY_INVALID_ARGUMENT
      else
        then_ok (arbor_rect_edges left Out Out) (\<lambda>(left_right, left_bottom).
        then_ok (arbor_rect_edges right Out Out) (\<lambda>(right_right, right_bottom).
        let x0 = (if sint (rect_x left) < sint (rect_x right) then rect_x left else rect_x right);
            y0 = (if sint (rect_y left) < sint (rect_y right) then rect_y left else rect_y right);
            x1 = (if sint left_right > sint right_right then left_right else right_right);
            y1 = (if sint left_bottom > sint right_bottom then left_bottom else right_bottom)
        in arbor_rect_from_edges x0 y0 x1 y1 out)))"

definition arbor_line_bounds :: "arbor_line \<Rightarrow> out_ptr \<Rightarrow> arbor_rect geometry_result" where
  "arbor_line_bounds line out =
     (if out = NULL then Inl ARBOR_GEOMETRY_INVALID_ARGUMENT
      else
        let s = line_start line; e = line_end line;
            left = (if sint (pt_x s) < sint (pt_x e) then pt_x s else pt_x e);
            right = (if sint (pt_x s) > sint (pt_x e) then pt_x s else pt_x e);
            top_edge = (if sint (pt_y s) < sint (pt_y e) then pt_y s else pt_y e);
            bottom = (if sint (pt_y s) > sint (pt_y e) then pt_y s else pt_y e)
        in arbor_rect_from_edges left top_edge right bottom out)"

definition arbor_clip_rect ::
    "arbor_rect \<Rightarrow> arbor_rect \<Rightarrow> out_ptr \<Rightarrow> out_ptr \<Rightarrow> (arbor_rect \<times> bool) geometry_result" where
  "arbor_clip_rect current_clip requested_clip out visible =
     arbor_rect_intersection current_clip requested_clip out visible"

section \<open>Rectangles as regions\<close>

definition rect_right :: "arbor_rect \<Rightarrow> int" where
  "rect_right r = sint (rect_x r) + sint (rect_width r)"

definition rect_bottom :: "arbor_rect \<Rightarrow> int" where
  "rect_bottom r = sint (rect_y r) + sint (rect_height r)"

definition rect_valid :: "arbor_rect \<Rightarrow> bool" where
  "rect_valid r \<longleftrightarrow> 0 \<le> sint (rect_width r) \<and> 0 \<le> sint (rect_height r) \<and>
     rect_right r \<le> INT64_MAX \<and> rect_bottom r \<le> INT64_MAX"

definition rect_region :: "arbor_rect \<Rightarrow> (int \<times> int) set" where
  "rect_region r = {sint (rect_x r) ..< rect_right r} \<times> {sint (rect_y r) ..< rect_bottom r}"

definition extent_ok :: "int \<Rightarrow> int \<Rightarrow> bool" where
  "extent_ok lo hi \<longleftrightarrow> hi - lo \<le> INT64_MAX"

lemma rect_edges_valid:
  assumes "rect_valid r"
  shows "arbor_rect_edges r Out Out = Inr (word_of_int (rect_right r), word_of_int (rect_bottom r))"
    and "sint (word_of_int (rect_right r) :: i64) = rect_right r"
    and "sint (word_of_int (rect_bottom r) :: i64) = rect_bottom r"
  using assms sint_i64_lower [of "rect_x r"] sint_i64_lower [of "rect_y r"]
  by (simp_all add: arbor_rect_edges_def coord_exact deliver_i64_def in_i64_def rect_valid_def
    rect_right_def rect_bottom_def width_simps)

lemma rect_edges_Inr_valid: "arbor_rect_edges r Out Out = Inr e \<Longrightarrow> rect_valid r"
  by (auto simp: arbor_rect_edges_def coord_exact deliver_i64_def in_i64_def rect_valid_def
    rect_right_def rect_bottom_def split: if_splits)

lemma rect_edges_invalid: "\<not> rect_valid r \<Longrightarrow> \<exists>e. arbor_rect_edges r Out Out = Inl e"
  using rect_edges_Inr_valid by (cases "arbor_rect_edges r Out Out") auto

lemma rect_from_edges_exact:
  "arbor_rect_from_edges l t r b Out =
     (if sint r < sint l \<or> sint b < sint t then Inl ARBOR_GEOMETRY_INVALID_ARGUMENT
      else if extent_ok (sint l) (sint r) \<and> extent_ok (sint t) (sint b)
      then Inr \<lparr>rect_x = l, rect_y = t, rect_width = r - l, rect_height = b - t\<rparr>
      else Inl ARBOR_GEOMETRY_OVERFLOW)"
proof -
  have "arbor_rect_make l t (word_of_int (sint r - sint l)) (word_of_int (sint b - sint t)) Out =
      Inr \<lparr>rect_x = l, rect_y = t, rect_width = r - l, rect_height = b - t\<rparr>"
    if "\<not> (sint r < sint l \<or> sint b < sint t)" "extent_ok (sint l) (sint r)" "extent_ok (sint t) (sint b)"
    using that
    by (simp add: arbor_rect_make_def coord_exact extent_ok_def width_simps)
  then show ?thesis
    using sint_i64_lower [of l] sint_i64_upper [of r] sint_i64_lower [of t] sint_i64_upper [of b]
    by (auto simp: arbor_rect_from_edges_def coord_exact deliver_i64_def in_i64_def extent_ok_def)
qed

definition rect_within :: "arbor_rect \<Rightarrow> arbor_rect \<Rightarrow> bool" where
  "rect_within a b \<longleftrightarrow> sint (rect_x b) \<le> sint (rect_x a) \<and> rect_right a \<le> rect_right b \<and>
     sint (rect_y b) \<le> sint (rect_y a) \<and> rect_bottom a \<le> rect_bottom b"

lemma sint_if_max: "sint (if sint a > sint b then a else b :: i64) = max (sint a) (sint b)"
  by (simp add: max_def)

lemma sint_if_min: "sint (if sint a < sint b then a else b :: i64) = min (sint a) (sint b)"
  by (simp add: min_def)

lemma rect_from_edges_Inr:
  assumes "arbor_rect_from_edges l t r b Out = Inr q"
  shows "rect_valid q" "sint (rect_x q) = sint l" "sint (rect_y q) = sint t"
    "rect_right q = sint r" "rect_bottom q = sint b"
  using assms sint_i64_upper [of r] sint_i64_upper [of b]
  by (auto simp: rect_from_edges_exact extent_ok_def rect_valid_def rect_right_def rect_bottom_def
    width_simps split: if_splits)

lemma arbor_rect_intersection_exact:
  assumes l: "rect_valid l" and r: "rect_valid r"
  shows "\<exists>q v. arbor_rect_intersection l r Out Out = Inr (q, v) \<and> rect_valid q \<and>
    rect_region q = rect_region l \<inter> rect_region r \<and> (v \<longleftrightarrow> rect_region l \<inter> rect_region r \<noteq> {})"
proof -
  define x0 where "x0 = (if sint (rect_x l) > sint (rect_x r) then rect_x l else rect_x r)"
  define y0 where "y0 = (if sint (rect_y l) > sint (rect_y r) then rect_y l else rect_y r)"
  define x1 :: i64 where "x1 = (if rect_right l < rect_right r then word_of_int (rect_right l)
      else word_of_int (rect_right r))"
  define y1 :: i64 where "y1 = (if rect_bottom l < rect_bottom r then word_of_int (rect_bottom l)
      else word_of_int (rect_bottom r))"
  have x1: "sint x1 = min (rect_right l) (rect_right r)" and y1: "sint y1 = min (rect_bottom l) (rect_bottom r)"
    using rect_edges_valid(2,3) [OF l] rect_edges_valid(2,3) [OF r]
    by (simp_all only: x1_def y1_def min_def) (auto)
  have x0: "sint x0 = max (sint (rect_x l)) (sint (rect_x r))"
    and y0: "sint y0 = max (sint (rect_y l)) (sint (rect_y r))"
    by (simp_all only: x0_def y0_def sint_if_max)
  have meet: "rect_region l \<inter> rect_region r = {sint x0 ..< sint x1} \<times> {sint y0 ..< sint y1}"
    unfolding x0 x1 y0 y1 rect_region_def by auto
  have unfold: "arbor_rect_intersection l r Out Out =
      (if \<not> (sint x1 > sint x0 \<and> sint y1 > sint y0)
       then Inr (\<lparr>rect_x = x0, rect_y = y0, rect_width = 0, rect_height = 0\<rparr>, False)
       else then_ok (arbor_rect_from_edges x0 y0 x1 y1 Out) (\<lambda>result. Inr (result, True)))"
    unfolding arbor_rect_intersection_def rect_edges_valid(1) [OF l] rect_edges_valid(1) [OF r] Let_def
      then_ok_simps prod.case rect_edges_valid(2,3) [OF l] rect_edges_valid(2,3) [OF r]
      x0_def [symmetric] y0_def [symmetric] x1_def [symmetric] y1_def [symmetric]
    by simp
  show ?thesis
  proof (cases "sint x1 > sint x0 \<and> sint y1 > sint y0")
    case True
    have "sint x1 - sint x0 \<le> INT64_MAX" "sint y1 - sint y0 \<le> INT64_MAX"
      using sint_i64_upper [of "rect_width l"] sint_i64_upper [of "rect_height l"]
      unfolding x0 x1 y0 y1 rect_right_def rect_bottom_def by linarith+
    then obtain q where q: "arbor_rect_from_edges x0 y0 x1 y1 Out = Inr q"
      using True by (simp add: rect_from_edges_exact extent_ok_def)
    have "rect_region q = rect_region l \<inter> rect_region r"
      unfolding meet using rect_from_edges_Inr [OF q] by (simp add: rect_region_def)
    moreover have "rect_region l \<inter> rect_region r \<noteq> {}" unfolding meet using True by auto
    ultimately show ?thesis
      using True q rect_from_edges_Inr(1) [OF q] unfolding unfold by auto
  next
    case False
    then have "rect_region l \<inter> rect_region r = {}" unfolding meet by auto
    with False show ?thesis
      unfolding unfold using sint_i64_upper [of x0] sint_i64_upper [of y0]
      by (auto simp: rect_valid_def rect_right_def rect_bottom_def rect_region_def)
  qed
qed

lemma arbor_rect_union_exact:
  assumes l: "rect_valid l" and r: "rect_valid r"
  shows "case arbor_rect_union l r Out of
      Inr u \<Rightarrow> rect_valid u \<and> rect_within l u \<and> rect_within r u \<and>
        (\<forall>q. rect_valid q \<and> rect_within l q \<and> rect_within r q \<longrightarrow> rect_within u q)
    | Inl e \<Rightarrow> e = ARBOR_GEOMETRY_OVERFLOW \<and>
        \<not> (\<exists>q. rect_valid q \<and> rect_within l q \<and> rect_within r q)"
proof -
  define x0 where "x0 = (if sint (rect_x l) < sint (rect_x r) then rect_x l else rect_x r)"
  define y0 where "y0 = (if sint (rect_y l) < sint (rect_y r) then rect_y l else rect_y r)"
  define x1 :: i64 where "x1 = (if rect_right l > rect_right r then word_of_int (rect_right l)
      else word_of_int (rect_right r))"
  define y1 :: i64 where "y1 = (if rect_bottom l > rect_bottom r then word_of_int (rect_bottom l)
      else word_of_int (rect_bottom r))"
  have x1: "sint x1 = max (rect_right l) (rect_right r)" and y1: "sint y1 = max (rect_bottom l) (rect_bottom r)"
    using rect_edges_valid(2,3) [OF l] rect_edges_valid(2,3) [OF r]
    by (simp_all only: x1_def y1_def max_def) (auto)
  have x0: "sint x0 = min (sint (rect_x l)) (sint (rect_x r))"
    and y0: "sint y0 = min (sint (rect_y l)) (sint (rect_y r))"
    by (simp_all only: x0_def y0_def sint_if_min)
  have unfold: "arbor_rect_union l r Out = arbor_rect_from_edges x0 y0 x1 y1 Out"
    unfolding arbor_rect_union_def rect_edges_valid(1) [OF l] rect_edges_valid(1) [OF r] Let_def
      then_ok_simps prod.case rect_edges_valid(2,3) [OF l] rect_edges_valid(2,3) [OF r]
      x0_def [symmetric] y0_def [symmetric] x1_def [symmetric] y1_def [symmetric]
    by simp
  have order: "\<not> sint x1 < sint x0" "\<not> sint y1 < sint y0"
    using l r unfolding x0 x1 y0 y1 by (auto simp: rect_valid_def rect_right_def rect_bottom_def)
  show ?thesis
  proof (cases "extent_ok (sint x0) (sint x1) \<and> extent_ok (sint y0) (sint y1)")
    case True
    then obtain q where q: "arbor_rect_from_edges x0 y0 x1 y1 Out = Inr q"
      using order by (simp add: rect_from_edges_exact)
    then show ?thesis
      unfolding unfold using rect_from_edges_Inr [OF q] x0 x1 y0 y1
      by (auto simp: rect_within_def)
  next
    case False
    have "extent_ok (sint x0) (sint x1) \<and> extent_ok (sint y0) (sint y1)"
      if "rect_valid q" "rect_within l q" "rect_within r q" for q
    proof -
      have "sint (rect_x q) \<le> sint x0" "sint x1 \<le> rect_right q"
        "sint (rect_y q) \<le> sint y0" "sint y1 \<le> rect_bottom q"
        using that unfolding x0 x1 y0 y1 by (auto simp: rect_within_def)
      then show ?thesis
        using sint_i64_upper [of "rect_width q"] sint_i64_upper [of "rect_height q"]
        unfolding extent_ok_def rect_right_def rect_bottom_def by linarith
    qed
    with False order show ?thesis
      unfolding unfold by (auto simp: rect_from_edges_exact)
  qed
qed

lemma arbor_rect_contains_point_region:
  "arbor_rect_contains_point r p \<longleftrightarrow> rect_valid r \<and> (sint (pt_x p), sint (pt_y p)) \<in> rect_region r"
proof (cases "rect_valid r")
  case True
  then show ?thesis
    using rect_edges_valid [OF True]
    by (auto simp: arbor_rect_contains_point_def rect_region_def rect_right_def rect_bottom_def rect_valid_def)
next
  case False
  then show ?thesis
    using rect_edges_invalid [OF False] by (auto simp: arbor_rect_contains_point_def)
qed

lemma arbor_rect_make_exact:
  "arbor_rect_make x y w h Out =
     (let q = \<lparr>rect_x = x, rect_y = y, rect_width = w, rect_height = h\<rparr> in
      if sint w < 0 \<or> sint h < 0 then Inl ARBOR_GEOMETRY_INVALID_ARGUMENT
      else if rect_valid q then Inr q else Inl ARBOR_GEOMETRY_OVERFLOW)"
  using sint_i64_lower [of x] sint_i64_lower [of y]
  by (auto simp: arbor_rect_make_def coord_exact deliver_i64_def in_i64_def rect_valid_def
    rect_right_def rect_bottom_def Let_def)

text \<open>
  Translation moves the region, fails only where the moved rectangle is not representable,
  and translating back restores the rectangle.
\<close>

lemma arbor_rect_translate_Inr_iff:
  "arbor_rect_translate r d Out = Inr q \<longleftrightarrow>
     rect_valid r \<and> rect_valid q \<and>
     rect_width q = rect_width r \<and> rect_height q = rect_height r \<and>
     sint (rect_x q) = sint (rect_x r) + sint (pt_x d) \<and>
     sint (rect_y q) = sint (rect_y r) + sint (pt_y d)"
  (is "?L \<longleftrightarrow> ?R")
proof
  assume ?L
  then show ?R
    by (auto simp: arbor_rect_translate_def Let_def then_ok_Inr_iff coord_exact deliver_i64_Inr_iff
      split: if_splits dest!: rect_edges_Inr_valid)
next
  assume R: ?R
  then have q: "q = \<lparr>rect_x = rect_x q, rect_y = rect_y q, rect_width = rect_width r, rect_height = rect_height r\<rparr>"
    by simp
  have x: "sint (rect_x r) + sint (pt_x d) = sint (rect_x q)"
    and y: "sint (rect_y r) + sint (pt_y d) = sint (rect_y q)" using R by simp_all
  have "rect_valid r" and "rect_valid q" using R by blast+
  then show ?L
    unfolding arbor_rect_translate_def coord_exact x y deliver_i64_word then_ok_simps Let_def
      q [symmetric] by (simp add: rect_edges_valid(1))
qed

lemma arbor_line_bounds_exact:
  defines "within \<equiv> (\<lambda>p q. sint (rect_x q) \<le> sint (pt_x p) \<and> sint (pt_x p) \<le> rect_right q \<and>
     sint (rect_y q) \<le> sint (pt_y p) \<and> sint (pt_y p) \<le> rect_bottom q)"
  shows "case arbor_line_bounds ln Out of
      Inr u \<Rightarrow> rect_valid u \<and> within (line_start ln) u \<and> within (line_end ln) u \<and>
        (\<forall>q. rect_valid q \<and> within (line_start ln) q \<and> within (line_end ln) q \<longrightarrow> rect_within u q)
    | Inl e \<Rightarrow> e = ARBOR_GEOMETRY_OVERFLOW \<and>
        \<not> (\<exists>q. rect_valid q \<and> within (line_start ln) q \<and> within (line_end ln) q)"
proof -
  let ?s = "line_start ln" and ?e = "line_end ln"
  define l where "l = (if sint (pt_x ?s) < sint (pt_x ?e) then pt_x ?s else pt_x ?e)"
  define r where "r = (if sint (pt_x ?s) > sint (pt_x ?e) then pt_x ?s else pt_x ?e)"
  define t where "t = (if sint (pt_y ?s) < sint (pt_y ?e) then pt_y ?s else pt_y ?e)"
  define b where "b = (if sint (pt_y ?s) > sint (pt_y ?e) then pt_y ?s else pt_y ?e)"
  have edges: "sint l = min (sint (pt_x ?s)) (sint (pt_x ?e))" "sint r = max (sint (pt_x ?s)) (sint (pt_x ?e))"
    "sint t = min (sint (pt_y ?s)) (sint (pt_y ?e))" "sint b = max (sint (pt_y ?s)) (sint (pt_y ?e))"
    by (simp_all only: l_def r_def t_def b_def sint_if_max sint_if_min)
  have unfold: "arbor_line_bounds ln Out = arbor_rect_from_edges l t r b Out"
    by (simp add: arbor_line_bounds_def Let_def l_def r_def t_def b_def)
  have order: "\<not> sint r < sint l" "\<not> sint b < sint t" unfolding edges by auto
  show ?thesis
  proof (cases "extent_ok (sint l) (sint r) \<and> extent_ok (sint t) (sint b)")
    case True
    then obtain q where q: "arbor_rect_from_edges l t r b Out = Inr q"
      using order by (simp add: rect_from_edges_exact)
    show ?thesis
      unfolding unfold q using rect_from_edges_Inr [OF q] edges
      by (auto simp: within_def rect_within_def)
  next
    case False
    have "extent_ok (sint l) (sint r) \<and> extent_ok (sint t) (sint b)"
      if "rect_valid q" "within ?s q" "within ?e q" for q
    proof -
      have "sint (rect_x q) \<le> sint l" "sint r \<le> rect_right q"
        "sint (rect_y q) \<le> sint t" "sint b \<le> rect_bottom q"
        using that unfolding edges within_def by auto
      then show ?thesis
        using sint_i64_upper [of "rect_width q"] sint_i64_upper [of "rect_height q"]
        unfolding extent_ok_def rect_right_def rect_bottom_def by linarith
    qed
    with False order show ?thesis
      unfolding unfold by (auto simp: rect_from_edges_exact)
  qed
qed

end
