(* ===== verification/Device.thy ===== *)
theory Device
  imports Rect
begin

text \<open>
  Exact rational device scales and the logical-to-device map of \<open>src/c/geometry.c\<close>.
  A scale is kept as a fraction in lowest terms whose parts fit \<open>INT64_MAX\<close>
  (\<open>reduced_scale\<close>); making and composing scales are exact or report overflow, and mapping
  a rectangle maps its edges, so neighbouring rectangles stay neighbours.
\<close>

record arbor_device_scale =
  scale_numerator :: u64
  scale_denominator :: u64

record arbor_logical_point =
  lpt_x :: arbor_coord
  lpt_y :: arbor_coord

record arbor_device_point =
  dpt_x :: arbor_coord
  dpt_y :: arbor_coord

record arbor_logical_rect =
  lrect_x :: arbor_coord
  lrect_y :: arbor_coord
  lrect_width :: arbor_coord
  lrect_height :: arbor_coord

record arbor_device_rect =
  drect_x :: arbor_coord
  drect_y :: arbor_coord
  drect_width :: arbor_coord
  drect_height :: arbor_coord

record arbor_device_map =
  map_scale :: arbor_device_scale
  map_origin_x :: arbor_coord
  map_origin_y :: arbor_coord

section \<open>Operations\<close>

fun arbor_u64_gcd :: "nat \<Rightarrow> nat \<Rightarrow> nat" where
  "arbor_u64_gcd left right =
     (if right \<noteq> 0 then let remainder = left mod right in arbor_u64_gcd right remainder else left)"

declare arbor_u64_gcd.simps [simp del]

abbreviation INT64_MAX_u :: nat where "INT64_MAX_u \<equiv> 9223372036854775807"

definition arbor_device_scale_make ::
    "u64 \<Rightarrow> u64 \<Rightarrow> out_ptr \<Rightarrow> arbor_device_scale geometry_result" where
  "arbor_device_scale_make numerator denominator out =
     (if out = NULL \<or> numerator = 0 \<or> denominator = 0 then Inl ARBOR_GEOMETRY_INVALID_ARGUMENT
      else
        let divisor = arbor_u64_gcd (unat numerator) (unat denominator);
            n = unat numerator div divisor;
            d = unat denominator div divisor
        in if n > INT64_MAX_u \<or> d > INT64_MAX_u then Inl ARBOR_GEOMETRY_OVERFLOW
           else Inr \<lparr>scale_numerator = of_nat n, scale_denominator = of_nat d\<rparr>)"

definition arbor_device_scale_compose ::
    "arbor_device_scale \<Rightarrow> arbor_device_scale \<Rightarrow> out_ptr \<Rightarrow> arbor_device_scale geometry_result" where
  "arbor_device_scale_compose left right out =
     (if out = NULL \<or> scale_numerator left = 0 \<or> scale_denominator left = 0 \<or>
         scale_numerator right = 0 \<or> scale_denominator right = 0
      then Inl ARBOR_GEOMETRY_INVALID_ARGUMENT
      else
        let left_n = unat (scale_numerator left); left_d = unat (scale_denominator left);
            right_n = unat (scale_numerator right); right_d = unat (scale_denominator right);
            divisor = arbor_u64_gcd left_n right_d;
            left_n = left_n div divisor; right_d = right_d div divisor;
            divisor = arbor_u64_gcd right_n left_d;
            right_n = right_n div divisor; left_d = left_d div divisor;
            numerator_product = u128 (left_n * right_n);
            denominator_product = u128 (left_d * right_d)
        in if numerator_product > INT64_MAX_u \<or> denominator_product > INT64_MAX_u
           then Inl ARBOR_GEOMETRY_OVERFLOW
           else arbor_device_scale_make (of_nat numerator_product) (of_nat denominator_product) out)"

definition arbor_device_map_make ::
    "arbor_device_scale \<Rightarrow> arbor_coord \<Rightarrow> arbor_coord \<Rightarrow> out_ptr \<Rightarrow> arbor_device_map geometry_result" where
  "arbor_device_map_make scale origin_x origin_y out =
     (if out = NULL then Inl ARBOR_GEOMETRY_INVALID_ARGUMENT
      else
        then_ok (arbor_device_scale_make (scale_numerator scale) (scale_denominator scale) Out) (\<lambda>s.
        Inr \<lparr>map_scale = s, map_origin_x = origin_x, map_origin_y = origin_y\<rparr>))"

definition arbor_device_scale_coord ::
    "arbor_device_scale \<Rightarrow> arbor_coord \<Rightarrow> out_ptr \<Rightarrow> arbor_coord geometry_result" where
  "arbor_device_scale_coord scale val out =
     (if out = NULL \<or> scale_numerator scale = 0 \<or> scale_denominator scale = 0 \<or>
         unat (scale_numerator scale) > INT64_MAX_u \<or> unat (scale_denominator scale) > INT64_MAX_u
      then Inl ARBOR_GEOMETRY_INVALID_ARGUMENT
      else
        let scaled = s128 (sint val * int (unat (scale_numerator scale)))
        in arbor_round_div_i128_to_i64 scaled (int (unat (scale_denominator scale)))
             ARBOR_ROUND_NEAREST_EVEN out)"

definition arbor_device_map_point ::
    "arbor_device_map \<Rightarrow> arbor_logical_point \<Rightarrow> out_ptr \<Rightarrow> arbor_device_point geometry_result" where
  "arbor_device_map_point m logical out =
     (if out = NULL then Inl ARBOR_GEOMETRY_INVALID_ARGUMENT
      else
        then_ok (arbor_device_scale_coord (map_scale m) (lpt_x logical) Out) (\<lambda>scaled_x.
        then_ok (arbor_device_scale_coord (map_scale m) (lpt_y logical) Out) (\<lambda>scaled_y.
        then_ok (arbor_coord_add scaled_x (map_origin_x m) Out) (\<lambda>x.
        then_ok (arbor_coord_add scaled_y (map_origin_y m) Out) (\<lambda>y.
        Inr \<lparr>dpt_x = x, dpt_y = y\<rparr>)))))"

definition arbor_device_map_rect_bounds ::
    "arbor_device_map \<Rightarrow> arbor_logical_rect \<Rightarrow> out_ptr \<Rightarrow> arbor_device_rect geometry_result" where
  "arbor_device_map_rect_bounds m logical out =
     (if out = NULL \<or> sint (lrect_width logical) < 0 \<or> sint (lrect_height logical) < 0
      then Inl ARBOR_GEOMETRY_INVALID_ARGUMENT
      else
        then_ok (arbor_coord_add (lrect_x logical) (lrect_width logical) Out) (\<lambda>logical_right.
        then_ok (arbor_coord_add (lrect_y logical) (lrect_height logical) Out) (\<lambda>logical_bottom.
        then_ok (arbor_device_map_point m \<lparr>lpt_x = lrect_x logical, lpt_y = lrect_y logical\<rparr> Out) (\<lambda>top_left.
        then_ok (arbor_device_map_point m \<lparr>lpt_x = logical_right, lpt_y = logical_bottom\<rparr> Out) (\<lambda>bottom_right.
        then_ok (arbor_coord_sub (dpt_x bottom_right) (dpt_x top_left) Out) (\<lambda>width.
        then_ok (arbor_coord_sub (dpt_y bottom_right) (dpt_y top_left) Out) (\<lambda>height.
        if sint width < 0 \<or> sint height < 0 then Inl ARBOR_GEOMETRY_OVERFLOW
        else Inr \<lparr>drect_x = dpt_x top_left, drect_y = dpt_y top_left,
                  drect_width = width, drect_height = height\<rparr>)))))))"

section \<open>Scales\<close>

lemma arbor_u64_gcd_gcd: "arbor_u64_gcd a b = gcd a b"
proof (induction a b rule: arbor_u64_gcd.induct)
  case (1 left right)
  then show ?case
    by (subst arbor_u64_gcd.simps) (simp add: Let_def gcd_red_nat [of left right])
qed

definition reduced_scale :: "arbor_device_scale \<Rightarrow> bool" where
  "reduced_scale s \<longleftrightarrow>
     (let n = unat (scale_numerator s); d = unat (scale_denominator s)
      in 0 < n \<and> n \<le> INT64_MAX_u \<and> 0 < d \<and> d \<le> INT64_MAX_u \<and> coprime n d)"

definition same_ratio :: "arbor_device_scale \<Rightarrow> nat \<Rightarrow> nat \<Rightarrow> bool" where
  "same_ratio s n d \<longleftrightarrow> unat (scale_numerator s) * d = n * unat (scale_denominator s)"

text \<open>Equal fractions in lowest terms have equal parts.\<close>

lemma reduced_fraction_unique:
  fixes p q n d :: nat
  assumes "coprime p q" and "0 < n" and "0 < d" and "p * d = n * q" and "0 < p"
  shows "p = n div gcd n d" and "q = d div gcd n d"
proof -
  define g where "g = gcd n d"
  have "\<exists>u v. n = u * g \<and> d = v * g \<and> coprime u v"
    unfolding g_def by (rule gcd_coprime_exists) (use assms(2) in simp)
  then obtain u v where g: "n = u * g" "d = v * g" "coprime u v" by blast
  then have "0 < g" using assms(2) by auto
  moreover have "p * v * g = u * q * g"
    using assms(4) unfolding g(1,2) by (simp only: ac_simps)
  ultimately have cross: "p * v = u * q" by simp
  have "p dvd u * q" "u dvd p * v" using cross by (metis dvd_triv_left)+
  then have "p dvd u" "u dvd p"
    using assms(1) g(3) by (simp_all add: coprime_dvd_mult_left_iff)
  then have "p = u" by (rule dvd_antisym)
  moreover from this have "q = v" using cross assms(5) by simp
  ultimately show "p = n div gcd n d" and "q = d div gcd n d"
    using g(1,2) \<open>0 < g\<close> unfolding g_def [symmetric] by simp_all
qed

lemma reduced_fraction_cross: "n div gcd n d * d = n * (d div gcd n d)" for n d :: nat
  by (simp add: dvd_div_mult div_mult_swap)

lemma arbor_device_scale_make_Inr_iff:
  "arbor_device_scale_make n d Out = Inr s \<longleftrightarrow>
     n \<noteq> 0 \<and> d \<noteq> 0 \<and> reduced_scale s \<and> same_ratio s (unat n) (unat d)"
proof (cases "n = 0 \<or> d = 0")
  case True
  then show ?thesis by (auto simp: arbor_device_scale_make_def)
next
  case False
  then have pos: "0 < unat n" "0 < unat d" by (simp_all add: unat_gt_0)
  let ?g = "gcd (unat n) (unat d)"
  let ?p = "unat n div ?g" and ?q = "unat d div ?g"
  have red: "coprime ?p ?q" "0 < ?p" "0 < ?q" "?p * unat d = unat n * ?q"
    using pos reduced_fraction_cross [of "unat n" "unat d"]
    by (simp_all add: div_gcd_coprime div_greater_zero_iff gcd_le1_nat gcd_le2_nat)
  show ?thesis
  proof
    assume "arbor_device_scale_make n d Out = Inr s"
    then have "?p \<le> INT64_MAX_u" "?q \<le> INT64_MAX_u"
      and s: "s = \<lparr>scale_numerator = of_nat ?p, scale_denominator = of_nat ?q\<rparr>"
      using False by (auto simp: arbor_device_scale_make_def Let_def arbor_u64_gcd_gcd split: if_splits)
    then show "n \<noteq> 0 \<and> d \<noteq> 0 \<and> reduced_scale s \<and> same_ratio s (unat n) (unat d)"
      using False red by (simp add: reduced_scale_def same_ratio_def Let_def width_simps)
  next
    assume *: "n \<noteq> 0 \<and> d \<noteq> 0 \<and> reduced_scale s \<and> same_ratio s (unat n) (unat d)"
    then have "unat (scale_numerator s) = ?p" "unat (scale_denominator s) = ?q"
      using reduced_fraction_unique [OF _ pos, of "unat (scale_numerator s)" "unat (scale_denominator s)"]
      by (simp_all add: reduced_scale_def same_ratio_def Let_def)
    then show "arbor_device_scale_make n d Out = Inr s"
      using * by (simp add: arbor_device_scale_make_def Let_def arbor_u64_gcd_gcd reduced_scale_def
        flip: \<open>unat (scale_numerator s) = ?p\<close> \<open>unat (scale_denominator s) = ?q\<close>)
  qed
qed

lemma arbor_device_scale_make_total:
  "n \<noteq> 0 \<Longrightarrow> d \<noteq> 0 \<Longrightarrow> arbor_device_scale_make n d Out = Inl e \<Longrightarrow> e = ARBOR_GEOMETRY_OVERFLOW"
  by (auto simp: arbor_device_scale_make_def Let_def split: if_splits)

definition product_ratio :: "arbor_device_scale \<Rightarrow> arbor_device_scale \<Rightarrow> arbor_device_scale \<Rightarrow> bool" where
  "product_ratio s l r \<longleftrightarrow> same_ratio s (unat (scale_numerator l) * unat (scale_numerator r))
     (unat (scale_denominator l) * unat (scale_denominator r))"

lemma cancelled_product:
  fixes a b c d :: nat
  assumes "0 < a" "0 < b" "0 < c" "0 < d"
  defines "N \<equiv> a div gcd a d * (c div gcd c b)" and "D \<equiv> b div gcd c b * (d div gcd a d)"
  shows "0 < N" and "0 < D" and "p * D = N * q \<longleftrightarrow> p * (b * d) = a * c * q"
    and "coprime a b \<Longrightarrow> coprime c d \<Longrightarrow> coprime N D"
proof -
  show pos: "0 < N" "0 < D"
    using assms by (simp_all add: div_greater_zero_iff gcd_le1_nat gcd_le2_nat)
  have ad: "a div gcd a d * d = a * (d div gcd a d)" and cb: "c div gcd c b * b = c * (b div gcd c b)"
    by (rule reduced_fraction_cross)+
  have "N * (b * d) = (a div gcd a d * d) * (c div gcd c b * b)" by (simp add: N_def)
  also have "\<dots> = a * c * D" unfolding ad cb by (simp add: D_def)
  finally have cross: "N * (b * d) = a * c * D" .
  show "p * D = N * q \<longleftrightarrow> p * (b * d) = a * c * q"
  proof
    assume "p * D = N * q"
    then have "D * (p * (b * d)) = D * (a * c * q)"
      using cross by (metis mult.assoc mult.commute)
    then show "p * (b * d) = a * c * q" using pos by simp
  next
    assume "p * (b * d) = a * c * q"
    then have "b * d * (p * D) = b * d * (N * q)"
      using cross by (metis mult.assoc mult.commute)
    then show "p * D = N * q" using assms by simp
  qed
  have part: "a div gcd a d dvd a" "d div gcd a d dvd d" "c div gcd c b dvd c" "b div gcd c b dvd b"
    by (metis dvd_div_mult_self dvd_triv_left gcd_dvd1 gcd_dvd2)+
  assume "coprime a b" "coprime c d"
  moreover have "coprime (a div gcd a d) (d div gcd a d)" "coprime (c div gcd c b) (b div gcd c b)"
    using assms by (simp_all add: div_gcd_coprime)
  moreover have "coprime (a div gcd a d) (b div gcd c b)" "coprime (c div gcd c b) (d div gcd a d)"
    using coprime_divisors [OF part(1,4) \<open>coprime a b\<close>] coprime_divisors [OF part(3,2) \<open>coprime c d\<close>]
    by simp_all
  ultimately show "coprime N D"
    unfolding N_def D_def by (simp add: coprime_mult_left_iff coprime_mult_right_iff)
qed

lemma arbor_device_scale_compose_eq:
  assumes "scale_numerator l \<noteq> 0" "scale_denominator l \<noteq> 0"
    and "scale_numerator r \<noteq> 0" "scale_denominator r \<noteq> 0"
  defines "a \<equiv> unat (scale_numerator l)" and "b \<equiv> unat (scale_denominator l)"
    and "c \<equiv> unat (scale_numerator r)" and "d \<equiv> unat (scale_denominator r)"
  defines "N \<equiv> a div gcd a d * (c div gcd c b)" and "D \<equiv> b div gcd c b * (d div gcd a d)"
  shows "arbor_device_scale_compose l r Out =
    (if N > INT64_MAX_u \<or> D > INT64_MAX_u then Inl ARBOR_GEOMETRY_OVERFLOW
     else arbor_device_scale_make (of_nat N) (of_nat D) Out)"
proof -
  have le: "x div g * (y div h) < 340282366920938463463374607431768211456"
    if "x < 18446744073709551616" "y < 18446744073709551616" for x y g h :: nat
  proof -
    have "x div g * (y div h) \<le> x * y" by (simp add: mult_mono div_le_dividend)
    also have "\<dots> \<le> 18446744073709551615 * 18446744073709551615"
      using that by (intro mult_mono) simp_all
    finally show ?thesis by simp
  qed
  have "u128 N = N" "u128 D = D"
    unfolding N_def D_def a_def b_def c_def d_def by (intro u128_id le unat_u64_upper)+
  then show ?thesis
    using assms(1-4)
    by (simp add: arbor_device_scale_compose_def Let_def arbor_u64_gcd_gcd mult.commute
      flip: a_def b_def c_def d_def N_def D_def)
qed

lemma arbor_device_scale_compose_cancelled:
  assumes "scale_numerator l \<noteq> 0" "scale_denominator l \<noteq> 0"
    and "scale_numerator r \<noteq> 0" "scale_denominator r \<noteq> 0"
  obtains N D where "arbor_device_scale_compose l r Out =
      (if N > INT64_MAX_u \<or> D > INT64_MAX_u then Inl ARBOR_GEOMETRY_OVERFLOW
       else arbor_device_scale_make (of_nat N) (of_nat D) Out)"
    and "0 < N" and "0 < D"
    and "\<And>s. unat (scale_numerator s) * D = N * unat (scale_denominator s) \<longleftrightarrow> product_ratio s l r"
    and "reduced_scale l \<Longrightarrow> reduced_scale r \<Longrightarrow> coprime N D"
proof -
  note pos = assms [folded unat_gt_0]
  note prod = cancelled_product [OF pos]
  show ?thesis
    by (rule that [OF arbor_device_scale_compose_eq [OF assms] prod(1,2)])
      (use prod(3,4) in \<open>auto simp: product_ratio_def same_ratio_def reduced_scale_def Let_def\<close>)
qed

lemma of_nat_u64_neq_0: "0 < n \<Longrightarrow> n \<le> INT64_MAX_u \<Longrightarrow> (of_nat n :: u64) \<noteq> 0"
  using unat_of_nat_u64 [of n] by auto

lemma arbor_device_scale_compose_Inr:
  assumes "arbor_device_scale_compose l r Out = Inr s"
  shows "reduced_scale s" and "product_ratio s l r"
proof -
  have pos: "scale_numerator l \<noteq> 0" "scale_denominator l \<noteq> 0" "scale_numerator r \<noteq> 0"
    "scale_denominator r \<noteq> 0"
    using assms by (auto simp: arbor_device_scale_compose_def split: if_splits)
  obtain N D where ND: "arbor_device_scale_compose l r Out =
      (if N > INT64_MAX_u \<or> D > INT64_MAX_u then Inl ARBOR_GEOMETRY_OVERFLOW
       else arbor_device_scale_make (of_nat N) (of_nat D) Out)"
    and ratio: "\<And>s. unat (scale_numerator s) * D = N * unat (scale_denominator s) \<longleftrightarrow> product_ratio s l r"
    using arbor_device_scale_compose_cancelled [OF pos] by metis
  from assms ND have le: "N \<le> INT64_MAX_u" "D \<le> INT64_MAX_u"
    and "arbor_device_scale_make (of_nat N) (of_nat D) Out = Inr s"
    by (auto split: if_splits)
  then show "reduced_scale s" and "product_ratio s l r"
    by (simp_all add: arbor_device_scale_make_Inr_iff same_ratio_def width_simps flip: ratio)
qed

lemma arbor_device_scale_compose_Inr_iff:
  assumes "reduced_scale l" and "reduced_scale r"
  shows "arbor_device_scale_compose l r Out = Inr s \<longleftrightarrow> reduced_scale s \<and> product_ratio s l r"
proof
  assume s: "reduced_scale s \<and> product_ratio s l r"
  have pos: "scale_numerator l \<noteq> 0" "scale_denominator l \<noteq> 0" "scale_numerator r \<noteq> 0"
    "scale_denominator r \<noteq> 0"
    using assms by (auto simp: reduced_scale_def Let_def)
  obtain N D where ND: "arbor_device_scale_compose l r Out =
      (if N > INT64_MAX_u \<or> D > INT64_MAX_u then Inl ARBOR_GEOMETRY_OVERFLOW
       else arbor_device_scale_make (of_nat N) (of_nat D) Out)" "0 < N" "0 < D"
    and ratio: "\<And>s. unat (scale_numerator s) * D = N * unat (scale_denominator s) \<longleftrightarrow> product_ratio s l r"
    and cop: "coprime N D"
    using arbor_device_scale_compose_cancelled [OF pos] assms by metis
  have "unat (scale_numerator s) = N" "unat (scale_denominator s) = D"
    using reduced_fraction_unique [of "unat (scale_numerator s)" "unat (scale_denominator s)" N D]
      s ratio [of s] ND(2,3) cop by (simp_all add: reduced_scale_def Let_def)
  moreover from this have "N \<le> INT64_MAX_u" "D \<le> INT64_MAX_u"
    using s by (simp_all add: reduced_scale_def Let_def)
  ultimately show "arbor_device_scale_compose l r Out = Inr s"
    using s ratio [of s] ND
    by (simp add: arbor_device_scale_make_Inr_iff same_ratio_def width_simps of_nat_u64_neq_0)
qed (use arbor_device_scale_compose_Inr in blast)

lemma arbor_device_scale_compose_total:
  "reduced_scale l \<Longrightarrow> reduced_scale r \<Longrightarrow> arbor_device_scale_compose l r Out = Inl e \<Longrightarrow>
   e = ARBOR_GEOMETRY_OVERFLOW"
proof -
  assume "reduced_scale l" "reduced_scale r" and e: "arbor_device_scale_compose l r Out = Inl e"
  then have pos: "scale_numerator l \<noteq> 0" "scale_denominator l \<noteq> 0" "scale_numerator r \<noteq> 0"
    "scale_denominator r \<noteq> 0"
    by (auto simp: reduced_scale_def Let_def)
  obtain N D where "arbor_device_scale_compose l r Out =
      (if N > INT64_MAX_u \<or> D > INT64_MAX_u then Inl ARBOR_GEOMETRY_OVERFLOW
       else arbor_device_scale_make (of_nat N) (of_nat D) Out)" "0 < N" "0 < D"
    using arbor_device_scale_compose_cancelled [OF pos] by metis
  with e show ?thesis
    using arbor_device_scale_make_total [of "of_nat N" "of_nat D" e] of_nat_u64_neq_0 [of N]
      of_nat_u64_neq_0 [of D] by (auto split: if_splits)
qed

section \<open>Mapping\<close>

definition scale_in_range :: "arbor_device_scale \<Rightarrow> bool" where
  "scale_in_range s \<longleftrightarrow>
     0 < unat (scale_numerator s) \<and> unat (scale_numerator s) \<le> INT64_MAX_u \<and>
     0 < unat (scale_denominator s) \<and> unat (scale_denominator s) \<le> INT64_MAX_u"

lemma reduced_scale_in_range: "reduced_scale s \<Longrightarrow> scale_in_range s"
  by (simp add: reduced_scale_def scale_in_range_def Let_def)

definition scaled_exact :: "arbor_device_scale \<Rightarrow> int \<Rightarrow> int" where
  "scaled_exact s v = round_half_even (v * int (unat (scale_numerator s))) (int (unat (scale_denominator s)))"

lemma arbor_device_scale_coord_exact:
  assumes "scale_in_range s"
  shows "arbor_device_scale_coord s v Out = deliver_i64 (scaled_exact s (sint v))"
proof -
  let ?n = "int (unat (scale_numerator s))" and ?d = "int (unat (scale_denominator s))"
  have k: "0 \<le> ?n" "?n \<le> 18446744073709551616" and d': "0 < ?d" "?d \<le> INT64_MAX"
    using assms unfolding scale_in_range_def by linarith+
  then have d: "in_i128 ?d" "?d \<noteq> 0"
    by (simp_all add: in_i128_def)
  show ?thesis
    using assms sint_scaled_i128 [OF k] arbor_round_div_i128_to_i64_exact [OF _ d]
    by (simp add: arbor_device_scale_coord_def scale_in_range_def Let_def scaled_exact_def round_exact_def
      arbor_rounding_mode_valid_def unat_gt_0)
qed

lemma scaled_exact_mono:
  assumes "scale_in_range s" and "u \<le> v"
  shows "scaled_exact s u \<le> scaled_exact s v"
proof -
  have "0 < int (unat (scale_denominator s))" "0 \<le> int (unat (scale_numerator s))"
    using assms(1) unfolding scale_in_range_def by linarith+
  then show ?thesis
    unfolding scaled_exact_def by (intro round_half_even_mono mult_right_mono assms(2))
qed

lemma deliver_i64_Inr_eq: "deliver_i64 k = Inr w \<longleftrightarrow> k = sint w"
  by (auto simp: deliver_i64_def in_i64_sint)

lemma in_i64_iff_sint: "in_i64 k \<longleftrightarrow> (\<exists>w :: i64. sint w = k)"
  by (metis in_i64_sint sint_in_i64)

lemma arbor_device_map_point_Inr_iff:
  assumes "scale_in_range (map_scale m)"
  shows "arbor_device_map_point m p Out = Inr q \<longleftrightarrow>
     in_i64 (scaled_exact (map_scale m) (sint (lpt_x p))) \<and>
     in_i64 (scaled_exact (map_scale m) (sint (lpt_y p))) \<and>
     sint (dpt_x q) = scaled_exact (map_scale m) (sint (lpt_x p)) + sint (map_origin_x m) \<and>
     sint (dpt_y q) = scaled_exact (map_scale m) (sint (lpt_y p)) + sint (map_origin_y m)"
  unfolding arbor_device_map_point_def in_i64_iff_sint
  by (cases q) (auto simp: then_ok_Inr_iff arbor_device_scale_coord_exact [OF assms] coord_exact
    deliver_i64_Inr_eq, metis)

lemma arbor_device_map_point_mono:
  assumes "scale_in_range (map_scale m)"
    and "arbor_device_map_point m p Out = Inr p'" and "arbor_device_map_point m q Out = Inr q'"
  shows "sint (lpt_x p) \<le> sint (lpt_x q) \<Longrightarrow> sint (dpt_x p') \<le> sint (dpt_x q')"
    and "sint (lpt_y p) \<le> sint (lpt_y q) \<Longrightarrow> sint (dpt_y p') \<le> sint (dpt_y q')"
  using assms(2,3) scaled_exact_mono [OF assms(1)]
  by (simp_all add: arbor_device_map_point_Inr_iff [OF assms(1)])

lemma arbor_device_map_rect_bounds_Inr:
  assumes "scale_in_range (map_scale m)" and "arbor_device_map_rect_bounds m r Out = Inr d"
  shows "\<exists>right bottom p q. sint right = sint (lrect_x r) + sint (lrect_width r) \<and>
      sint bottom = sint (lrect_y r) + sint (lrect_height r) \<and>
      arbor_device_map_point m \<lparr>lpt_x = lrect_x r, lpt_y = lrect_y r\<rparr> Out = Inr p \<and>
      arbor_device_map_point m \<lparr>lpt_x = right, lpt_y = bottom\<rparr> Out = Inr q \<and>
      drect_x d = dpt_x p \<and> drect_y d = dpt_y p \<and>
      sint (drect_x d) + sint (drect_width d) = sint (dpt_x q) \<and>
      sint (drect_y d) + sint (drect_height d) = sint (dpt_y q) \<and>
      0 \<le> sint (drect_width d) \<and> 0 \<le> sint (drect_height d)"
  using assms(2)
  unfolding arbor_device_map_rect_bounds_def
  by (auto simp: then_ok_Inr_iff coord_exact deliver_i64_Inr_eq not_less split: if_splits)
    (metis add.commute diff_add_cancel)

end
