(* ===== verification/Affine.thy ===== *)
theory Affine
  imports Rect
begin

text \<open>
  The affine transforms of \<open>src/c/geometry.c\<close>: fused products, composition, inversion,
  point and rectangle transforms, and the CORDIC rotation. Every matrix entry a transform
  computes is the correctly rounded value of the exact fused expression; the 128-bit
  overflow guards never reject a representable result.
\<close>

record arbor_affine =
  aff_a :: arbor_coord
  aff_b :: arbor_coord
  aff_c :: arbor_coord
  aff_d :: arbor_coord
  aff_tx :: arbor_coord
  aff_ty :: arbor_coord

section \<open>Fused products\<close>

definition arbor_affine_fused2 ::
    "arbor_coord \<Rightarrow> arbor_coord \<Rightarrow> arbor_coord \<Rightarrow> arbor_coord \<Rightarrow> out_ptr \<Rightarrow> arbor_coord geometry_result" where
  "arbor_affine_fused2 left_a left_b right_a right_b out =
     (let first = s128 (sint left_a * sint right_a);
          second = s128 (sint left_b * sint right_b)
      in if \<not> in_i128 (first + second) then Inl ARBOR_GEOMETRY_OVERFLOW
         else arbor_coord_from_i128_q32_hot (first + second) out)"

definition arbor_affine_fused2_translate ::
    "arbor_coord \<Rightarrow> arbor_coord \<Rightarrow> arbor_coord \<Rightarrow> arbor_coord \<Rightarrow> arbor_coord \<Rightarrow> out_ptr \<Rightarrow>
     arbor_coord geometry_result" where
  "arbor_affine_fused2_translate left_a left_b right_a right_b translation out =
     (let first = s128 (sint left_a * sint right_a);
          second = s128 (sint left_b * sint right_b);
          translated = s128 (sint translation * ARBOR_Q32_SCALE_I128)
      in if \<not> in_i128 (first + second) \<or> \<not> in_i128 (first + second + translated)
         then Inl ARBOR_GEOMETRY_OVERFLOW
         else arbor_coord_from_i128_q32_hot (first + second + translated) out)"

lemma round_q32_overflow:
  assumes "n < - 79228162514264337593543950336 \<or> 79228162514264337593543950336 < n"
  shows "deliver_i64 (round_half_even n ARBOR_Q32_SCALE_I128) = Inl ARBOR_GEOMETRY_OVERFLOW"
proof -
  have near: "2 * n \<le> 2 * (round_half_even n ARBOR_Q32_SCALE_I128 * ARBOR_Q32_SCALE_I128) + ARBOR_Q32_SCALE_I128"
    "2 * (round_half_even n ARBOR_Q32_SCALE_I128 * ARBOR_Q32_SCALE_I128) \<le> 2 * n + ARBOR_Q32_SCALE_I128"
    by (rule round_half_even_bounds, simp)+
  have "\<not> in_i64 (round_half_even n ARBOR_Q32_SCALE_I128)"
  proof
    assume "in_i64 (round_half_even n ARBOR_Q32_SCALE_I128)"
    with near assms show False unfolding in_i64_def by (elim disjE) linarith+
  qed
  then show ?thesis by (simp add: deliver_i64_def)
qed

lemma arbor_affine_fused2_exact:
  "arbor_affine_fused2 a b c d Out =
     deliver_i64 (round_half_even (sint a * sint c + sint b * sint d) ARBOR_Q32_SCALE_I128)"
proof (cases "in_i128 (sint a * sint c + sint b * sint d)")
  case True
  then show ?thesis
    by (simp add: arbor_affine_fused2_def sint_product_i128 arbor_coord_from_i128_q32_hot_def
      q32_reduction_exact)
next
  case False
  then have "deliver_i64 (round_half_even (sint a * sint c + sint b * sint d) ARBOR_Q32_SCALE_I128) =
      Inl ARBOR_GEOMETRY_OVERFLOW"
    by (intro round_q32_overflow) (auto simp: in_i128_def)
  with False show ?thesis
    by (simp add: arbor_affine_fused2_def sint_product_i128)
qed

lemma arbor_affine_fused2_translate_exact:
  "arbor_affine_fused2_translate a b c d t Out =
     deliver_i64 (round_half_even (sint a * sint c + sint b * sint d + sint t * ARBOR_Q32_SCALE_I128)
       ARBOR_Q32_SCALE_I128)"
  (is "_ = deliver_i64 (round_half_even ?n _)")
proof (cases "in_i128 (sint a * sint c + sint b * sint d) \<and> in_i128 ?n")
  case True
  then show ?thesis
    using sint_scaled_i128(2) [of ARBOR_Q32_SCALE_I128 t]
    by (simp add: arbor_affine_fused2_translate_def sint_product_i128 arbor_coord_from_i128_q32_hot_def
      q32_reduction_exact)
next
  case False
  have "?n < - 79228162514264337593543950336 \<or> 79228162514264337593543950336 < ?n"
    using False sint_i64_lower [of t] sint_i64_upper [of t]
    unfolding in_i128_def by auto
  from round_q32_overflow [OF this] show ?thesis
    using False sint_scaled_i128(2) [of ARBOR_Q32_SCALE_I128 t]
    by (auto simp: arbor_affine_fused2_translate_def sint_product_i128)
qed

section \<open>Matrices\<close>

definition arbor_affine_identity :: arbor_affine where
  "arbor_affine_identity =
     \<lparr>aff_a = word_of_int ARBOR_COORD_ONE, aff_b = 0, aff_c = 0, aff_d = word_of_int ARBOR_COORD_ONE,
      aff_tx = 0, aff_ty = 0\<rparr>"

definition arbor_affine_translation :: "arbor_coord \<Rightarrow> arbor_coord \<Rightarrow> arbor_affine" where
  "arbor_affine_translation tx ty = arbor_affine_identity\<lparr>aff_tx := tx, aff_ty := ty\<rparr>"

definition arbor_affine_scale :: "arbor_coord \<Rightarrow> arbor_coord \<Rightarrow> arbor_affine" where
  "arbor_affine_scale sx sy =
     \<lparr>aff_a = sx, aff_b = 0, aff_c = 0, aff_d = sy, aff_tx = 0, aff_ty = 0\<rparr>"

definition arbor_affine_compose :: "arbor_affine \<Rightarrow> arbor_affine \<Rightarrow> out_ptr \<Rightarrow> arbor_affine geometry_result" where
  "arbor_affine_compose left right out =
     (if out = NULL then Inl ARBOR_GEOMETRY_INVALID_ARGUMENT
      else
        then_ok (arbor_affine_fused2 (aff_a left) (aff_c left) (aff_a right) (aff_b right) Out) (\<lambda>a.
        then_ok (arbor_affine_fused2 (aff_b left) (aff_d left) (aff_a right) (aff_b right) Out) (\<lambda>b.
        then_ok (arbor_affine_fused2 (aff_a left) (aff_c left) (aff_c right) (aff_d right) Out) (\<lambda>c.
        then_ok (arbor_affine_fused2 (aff_b left) (aff_d left) (aff_c right) (aff_d right) Out) (\<lambda>d.
        then_ok (arbor_affine_fused2_translate (aff_a left) (aff_c left) (aff_tx right) (aff_ty right)
          (aff_tx left) Out) (\<lambda>tx.
        then_ok (arbor_affine_fused2_translate (aff_b left) (aff_d left) (aff_tx right) (aff_ty right)
          (aff_ty left) Out) (\<lambda>ty.
        Inr \<lparr>aff_a = a, aff_b = b, aff_c = c, aff_d = d, aff_tx = tx, aff_ty = ty\<rparr>)))))))"

definition arbor_affine_invert :: "arbor_affine \<Rightarrow> out_ptr \<Rightarrow> arbor_affine geometry_result" where
  "arbor_affine_invert transform out =
     (let ad = s128 (sint (aff_a transform) * sint (aff_d transform));
          bc = s128 (sint (aff_b transform) * sint (aff_c transform)) in
      if out = NULL then Inl ARBOR_GEOMETRY_INVALID_ARGUMENT
      else if \<not> in_i128 (ad - bc) then Inl ARBOR_GEOMETRY_OVERFLOW
      else let determinant = ad - bc in
        if determinant = 0 then Inl ARBOR_GEOMETRY_SINGULAR
        else
          then_ok (arbor_coord_from_i128_scaled (s128 (sint (aff_d transform) * ARBOR_Q64_SCALE_I128))
            determinant Out) (\<lambda>a.
          then_ok (arbor_coord_from_i128_scaled (s128 (sint (aff_b transform) * ARBOR_Q64_SCALE_I128))
            determinant Out) (\<lambda>b_unnegated.
          then_ok (arbor_coord_neg b_unnegated Out) (\<lambda>b.
          then_ok (arbor_coord_from_i128_scaled (s128 (sint (aff_c transform) * ARBOR_Q64_SCALE_I128))
            determinant Out) (\<lambda>c_unnegated.
          then_ok (arbor_coord_neg c_unnegated Out) (\<lambda>c.
          then_ok (arbor_coord_from_i128_scaled (s128 (sint (aff_a transform) * ARBOR_Q64_SCALE_I128))
            determinant Out) (\<lambda>d.
          then_ok (arbor_affine_fused2 a c (aff_tx transform) (aff_ty transform) Out) (\<lambda>translated_x.
          then_ok (arbor_affine_fused2 b d (aff_tx transform) (aff_ty transform) Out) (\<lambda>translated_y.
          then_ok (arbor_coord_neg translated_x Out) (\<lambda>tx.
          then_ok (arbor_coord_neg translated_y Out) (\<lambda>ty.
          Inr \<lparr>aff_a = a, aff_b = b, aff_c = c, aff_d = d, aff_tx = tx, aff_ty = ty\<rparr>)))))))))))"

definition arbor_affine_transform_point ::
    "arbor_affine \<Rightarrow> arbor_point \<Rightarrow> out_ptr \<Rightarrow> arbor_point geometry_result" where
  "arbor_affine_transform_point transform point out =
     (if out = NULL then Inl ARBOR_GEOMETRY_INVALID_ARGUMENT
      else
        then_ok (arbor_affine_fused2_translate (aff_a transform) (aff_c transform)
          (pt_x point) (pt_y point) (aff_tx transform) Out) (\<lambda>x.
        then_ok (arbor_affine_fused2_translate (aff_b transform) (aff_d transform)
          (pt_x point) (pt_y point) (aff_ty transform) Out) (\<lambda>y.
        Inr \<lparr>pt_x = x, pt_y = y\<rparr>)))"

text \<open>
  The rectangle transform: map the four corners in the code's order, stop at the first
  failure, then fold the minimum and maximum over corners 1 to 3.
\<close>

fun transform_corners :: "arbor_affine \<Rightarrow> arbor_point list \<Rightarrow> arbor_point list geometry_result" where
  "transform_corners transform [] = Inr []"
| "transform_corners transform (corner # corners) =
     then_ok (arbor_affine_transform_point transform corner Out) (\<lambda>p.
     then_ok (transform_corners transform corners) (\<lambda>ps. Inr (p # ps)))"

fun corner_extent ::
    "arbor_coord \<times> arbor_coord \<times> arbor_coord \<times> arbor_coord \<Rightarrow> arbor_point list \<Rightarrow>
     arbor_coord \<times> arbor_coord \<times> arbor_coord \<times> arbor_coord" where
  "corner_extent (min_x, max_x, min_y, max_y) [] = (min_x, max_x, min_y, max_y)"
| "corner_extent (min_x, max_x, min_y, max_y) (p # ps) =
     corner_extent
       (if sint (pt_x p) < sint min_x then pt_x p else min_x,
        if sint (pt_x p) > sint max_x then pt_x p else max_x,
        if sint (pt_y p) < sint min_y then pt_y p else min_y,
        if sint (pt_y p) > sint max_y then pt_y p else max_y) ps"

definition arbor_affine_transform_rect_bounds ::
    "arbor_affine \<Rightarrow> arbor_rect \<Rightarrow> out_ptr \<Rightarrow> arbor_rect geometry_result" where
  "arbor_affine_transform_rect_bounds transform rect out =
     (if out = NULL then Inl ARBOR_GEOMETRY_INVALID_ARGUMENT
      else
        then_ok (arbor_rect_edges rect Out Out) (\<lambda>(right, bottom).
        then_ok (transform_corners transform
          [\<lparr>pt_x = rect_x rect, pt_y = rect_y rect\<rparr>, \<lparr>pt_x = right, pt_y = rect_y rect\<rparr>,
           \<lparr>pt_x = rect_x rect, pt_y = bottom\<rparr>, \<lparr>pt_x = right, pt_y = bottom\<rparr>]) (\<lambda>transformed.
        let p0 = hd transformed;
            (min_x, max_x, min_y, max_y) =
              corner_extent (pt_x p0, pt_x p0, pt_y p0, pt_y p0) (tl transformed)
        in arbor_rect_from_edges min_x min_y max_x max_y out)))"

section \<open>Entries as correctly rounded fused expressions\<close>

definition q32_round :: "int \<Rightarrow> int" where
  "q32_round n = round_half_even n ARBOR_Q32_SCALE_I128"

lemma q32_round_multiple [simp]: "q32_round (k * ARBOR_Q32_SCALE_I128) = k"
  by (simp add: q32_round_def)

lemma q32_round_one [simp]: "q32_round (ARBOR_Q32_SCALE_I128 * k) = k"
  using q32_round_multiple [of k] by (simp add: mult.commute)

lemma q32_round_zero [simp]: "q32_round 0 = 0"
  using q32_round_multiple [of 0] by simp

lemma q32_round_unit [simp]: "q32_round ARBOR_Q64_SCALE_I128 = ARBOR_Q32_SCALE_I128"
  using q32_round_multiple [of ARBOR_Q32_SCALE_I128] by simp

lemma q32_round_mono: "m \<le> n \<Longrightarrow> q32_round m \<le> q32_round n"
  unfolding q32_round_def by (rule round_half_even_mono) simp_all

lemmas affine_exact = arbor_affine_fused2_exact [folded q32_round_def]
  arbor_affine_fused2_translate_exact [folded q32_round_def]

lemma sint_coord_one [simp]: "sint (word_of_int ARBOR_COORD_ONE :: i64) = ARBOR_COORD_ONE"
  by (simp add: sint_word_of_int)

lemma sint_one_numeral [simp]: "sint (4294967296 :: i64) = 4294967296"
  by simp

definition affine_exact_point :: "arbor_affine \<Rightarrow> int \<Rightarrow> int \<Rightarrow> int \<times> int" where
  "affine_exact_point m x y =
     (q32_round (sint (aff_a m) * x + sint (aff_c m) * y + sint (aff_tx m) * ARBOR_Q32_SCALE_I128),
      q32_round (sint (aff_b m) * x + sint (aff_d m) * y + sint (aff_ty m) * ARBOR_Q32_SCALE_I128))"

lemma transform_point_Inr_iff:
  "arbor_affine_transform_point m p Out = Inr q \<longleftrightarrow>
     (sint (pt_x q), sint (pt_y q)) = affine_exact_point m (sint (pt_x p)) (sint (pt_y p))"
  (is "?L \<longleftrightarrow> ?R")
proof
  assume ?L
  then show ?R
    by (auto simp: arbor_affine_transform_point_def affine_exact then_ok_Inr_iff deliver_i64_Inr_iff affine_exact_point_def)
next
  assume ?R
  note eqs = this [unfolded affine_exact_point_def prod.inject, THEN conjunct1, symmetric]
    this [unfolded affine_exact_point_def prod.inject, THEN conjunct2, symmetric]
  show ?L
    unfolding arbor_affine_transform_point_def affine_exact eqs deliver_i64_word then_ok_simps by simp
qed

text \<open>The matrix an exact evaluation with one rounding per entry gives.\<close>

definition compose_matches :: "arbor_affine \<Rightarrow> arbor_affine \<Rightarrow> arbor_affine \<Rightarrow> bool" where
  "compose_matches l r q \<longleftrightarrow>
     sint (aff_a q) = q32_round (sint (aff_a l) * sint (aff_a r) + sint (aff_c l) * sint (aff_b r)) \<and>
     sint (aff_b q) = q32_round (sint (aff_b l) * sint (aff_a r) + sint (aff_d l) * sint (aff_b r)) \<and>
     sint (aff_c q) = q32_round (sint (aff_a l) * sint (aff_c r) + sint (aff_c l) * sint (aff_d r)) \<and>
     sint (aff_d q) = q32_round (sint (aff_b l) * sint (aff_c r) + sint (aff_d l) * sint (aff_d r)) \<and>
     (sint (aff_tx q), sint (aff_ty q)) = affine_exact_point l (sint (aff_tx r)) (sint (aff_ty r))"

lemma compose_Inr_iff: "arbor_affine_compose l r Out = Inr q \<longleftrightarrow> compose_matches l r q"
proof
  assume "arbor_affine_compose l r Out = Inr q"
  then show "compose_matches l r q"
    by (auto simp: arbor_affine_compose_def affine_exact then_ok_Inr_iff deliver_i64_Inr_iff affine_exact_point_def
      compose_matches_def)
next
  assume "compose_matches l r q"
  note eqs = this [unfolded compose_matches_def affine_exact_point_def prod.inject]
  have "deliver_i64 (q32_round (sint (aff_a l) * sint (aff_a r) + sint (aff_c l) * sint (aff_b r))) = Inr (aff_a q)"
    "deliver_i64 (q32_round (sint (aff_b l) * sint (aff_a r) + sint (aff_d l) * sint (aff_b r))) = Inr (aff_b q)"
    "deliver_i64 (q32_round (sint (aff_a l) * sint (aff_c r) + sint (aff_c l) * sint (aff_d r))) = Inr (aff_c q)"
    "deliver_i64 (q32_round (sint (aff_b l) * sint (aff_c r) + sint (aff_d l) * sint (aff_d r))) = Inr (aff_d q)"
    "deliver_i64 (q32_round (sint (aff_a l) * sint (aff_tx r) + sint (aff_c l) * sint (aff_ty r) +
       sint (aff_tx l) * ARBOR_Q32_SCALE_I128)) = Inr (aff_tx q)"
    "deliver_i64 (q32_round (sint (aff_b l) * sint (aff_tx r) + sint (aff_d l) * sint (aff_ty r) +
       sint (aff_ty l) * ARBOR_Q32_SCALE_I128)) = Inr (aff_ty q)"
    using eqs by (metis deliver_i64_word)+
  then show "arbor_affine_compose l r Out = Inr q"
    unfolding arbor_affine_compose_def affine_exact by simp
qed

lemma q32_round_plus_multiple: "q32_round (k * ARBOR_Q32_SCALE_I128 + j * ARBOR_Q32_SCALE_I128) = k + j"
  using q32_round_multiple [of "k + j"] by (simp add: algebra_simps)

lemma affine_exact_point_translation:
  "affine_exact_point (arbor_affine_translation tx ty) x y = (x + sint tx, y + sint ty)"
  using q32_round_plus_multiple [of x "sint tx"] q32_round_plus_multiple [of y "sint ty"]
  by (simp add: affine_exact_point_def arbor_affine_translation_def arbor_affine_identity_def mult.commute)

lemma identity_is_translation: "arbor_affine_identity = arbor_affine_translation 0 0"
  by (simp add: arbor_affine_translation_def arbor_affine_identity_def)

lemma affine_exact_point_identity: "affine_exact_point arbor_affine_identity x y = (x, y)"
  by (simp add: identity_is_translation affine_exact_point_translation)

lemma affine_exact_point_origin: "affine_exact_point m 0 0 = (sint (aff_tx m), sint (aff_ty m))"
  by (simp add: affine_exact_point_def)

lemma compose_identity_left: "arbor_affine_compose arbor_affine_identity m Out = Inr m"
  unfolding compose_Inr_iff compose_matches_def affine_exact_point_identity
  by (simp add: arbor_affine_identity_def)

lemma compose_identity_right: "arbor_affine_compose m arbor_affine_identity Out = Inr m"
  using affine_exact_point_origin [of m]
  unfolding compose_Inr_iff compose_matches_def
  by (simp add: arbor_affine_identity_def mult.commute)

lemma transform_by_translation:
  "arbor_affine_transform_point (arbor_affine_translation tx ty) p Out =
     arbor_point_translate p \<lparr>pt_x = tx, pt_y = ty\<rparr> Out"
proof -
  have "q32_round (sint (aff_a (arbor_affine_translation tx ty)) * sint (pt_x p) +
        sint (aff_c (arbor_affine_translation tx ty)) * sint (pt_y p) +
        sint (aff_tx (arbor_affine_translation tx ty)) * ARBOR_Q32_SCALE_I128) = sint (pt_x p) + sint tx"
    "q32_round (sint (aff_b (arbor_affine_translation tx ty)) * sint (pt_x p) +
        sint (aff_d (arbor_affine_translation tx ty)) * sint (pt_y p) +
        sint (aff_ty (arbor_affine_translation tx ty)) * ARBOR_Q32_SCALE_I128) = sint (pt_y p) + sint ty"
    using affine_exact_point_translation [of tx ty "sint (pt_x p)" "sint (pt_y p)"]
    by (simp_all add: affine_exact_point_def)
  then show ?thesis
    unfolding arbor_affine_transform_point_def arbor_point_translate_def affine_exact coord_exact by simp
qed

lemma compose_translations:
  assumes "in_i64 (sint tx + sint ux)" and "in_i64 (sint ty + sint uy)"
  shows "arbor_affine_compose (arbor_affine_translation tx ty) (arbor_affine_translation ux uy) Out =
    Inr (arbor_affine_translation (tx + ux) (ty + uy))"
  using assms affine_exact_point_translation [of tx ty "sint ux" "sint uy"]
  unfolding compose_Inr_iff compose_matches_def
  by (simp add: arbor_affine_translation_def arbor_affine_identity_def in_i64_def width_simps mult.commute)

section \<open>Inversion\<close>

definition affine_det :: "arbor_affine \<Rightarrow> int" where
  "affine_det m = sint (aff_a m) * sint (aff_d m) - sint (aff_b m) * sint (aff_c m)"

definition q64_ratio :: "int \<Rightarrow> int \<Rightarrow> int" where
  "q64_ratio k determinant = round_half_even (k * ARBOR_Q64_SCALE_I128) determinant"

lemma square_bounds:
  fixes a b :: i64
  shows "sint a * sint b \<le> 85070591730234615865843651857942052864"
    and "- 85070591730234615856620279821087277056 \<le> sint a * sint b"
proof -
  show "sint a * sint b \<le> 85070591730234615865843651857942052864"
    using sint_product_bound [of a b] by linarith
  have low: "- 85070591730234615856620279821087277056 \<le> x * y"
    if "- 9223372036854775808 \<le> x" "x < 0" "0 \<le> y" "y \<le> 9223372036854775807" for x y :: int
  proof -
    have "- x * y \<le> 9223372036854775808 * 9223372036854775807"
      using that by (intro mult_mono) auto
    then show ?thesis by simp
  qed
  show "- 85070591730234615856620279821087277056 \<le> sint a * sint b"
  proof (cases "sint a < 0 \<longleftrightarrow> sint b < 0")
    case True
    then have "0 \<le> sint a * sint b" by (auto simp: zero_le_mult_iff)
    then show ?thesis by simp
  next
    case False
    then show ?thesis
      using low [of "sint a" "sint b"] low [of "sint b" "sint a"]
        sint_i64_lower [of a] sint_i64_upper [of a] sint_i64_lower [of b] sint_i64_upper [of b]
      by (auto simp: mult.commute)
  qed
qed

lemma affine_det_i128: "in_i128 (affine_det m)"
  using square_bounds [of "aff_a m" "aff_d m"] square_bounds [of "aff_b m" "aff_c m"]
  unfolding in_i128_def affine_det_def by simp

lemma q64_ratio_scaled:
  assumes "in_i128 det" and "det \<noteq> 0"
  shows "arbor_coord_from_i128_scaled (s128 (sint (w :: i64) * ARBOR_Q64_SCALE_I128)) det Out =
    deliver_i64 (q64_ratio (sint w) det)"
  using assms sint_scaled_i128 [of ARBOR_Q64_SCALE_I128 w]
  by (simp add: arbor_coord_from_i128_scaled_def arbor_round_div_i128_to_i64_exact
    arbor_rounding_mode_valid_def round_exact_def q64_ratio_def)

lemma arbor_affine_invert_exact:
  "arbor_affine_invert m Out =
     (let det = affine_det m in
      if det = 0 then Inl ARBOR_GEOMETRY_SINGULAR
      else
        then_ok (deliver_i64 (q64_ratio (sint (aff_d m)) det)) (\<lambda>a.
        then_ok (deliver_i64 (q64_ratio (sint (aff_b m)) det)) (\<lambda>b'.
        then_ok (deliver_i64 (- sint b')) (\<lambda>b.
        then_ok (deliver_i64 (q64_ratio (sint (aff_c m)) det)) (\<lambda>c'.
        then_ok (deliver_i64 (- sint c')) (\<lambda>c.
        then_ok (deliver_i64 (q64_ratio (sint (aff_a m)) det)) (\<lambda>d.
        then_ok (deliver_i64 (q32_round (sint a * sint (aff_tx m) + sint c * sint (aff_ty m)))) (\<lambda>tx'.
        then_ok (deliver_i64 (q32_round (sint b * sint (aff_tx m) + sint d * sint (aff_ty m)))) (\<lambda>ty'.
        then_ok (deliver_i64 (- sint tx')) (\<lambda>tx.
        then_ok (deliver_i64 (- sint ty')) (\<lambda>ty.
        Inr \<lparr>aff_a = a, aff_b = b, aff_c = c, aff_d = d, aff_tx = tx, aff_ty = ty\<rparr>)))))))))))"
proof (cases "affine_det m = 0")
  case True
  then show ?thesis
    using affine_det_i128 [of m]
    by (simp add: arbor_affine_invert_def sint_product_i128 affine_det_def [symmetric] Let_def)
next
  case False
  then show ?thesis
    using affine_det_i128 [of m]
    by (simp add: arbor_affine_invert_def sint_product_i128 affine_det_def [symmetric] Let_def
      q64_ratio_scaled affine_exact coord_exact)
qed

text \<open>Inverting a translation negates it, exactly.\<close>

lemma invert_translation:
  assumes "sint tx \<noteq> INT64_MIN" and "sint ty \<noteq> INT64_MIN"
  shows "arbor_affine_invert (arbor_affine_translation tx ty) Out =
    Inr (arbor_affine_translation (- tx) (- ty))"
proof -
  have "affine_det (arbor_affine_translation tx ty) = ARBOR_Q64_SCALE_I128"
    by (simp add: affine_det_def arbor_affine_translation_def arbor_affine_identity_def)
  moreover have "q64_ratio k ARBOR_Q64_SCALE_I128 = k" for k
    by (simp add: q64_ratio_def)
  moreover have "deliver_i64 (- sint tx) = Inr (- tx)" "deliver_i64 (- sint ty) = Inr (- ty)"
    using assms sint_i64_uminus [of tx] sint_i64_uminus [of ty] by (metis deliver_i64_word)+
  moreover have "deliver_i64 ARBOR_COORD_ONE = Inr (word_of_int ARBOR_COORD_ONE)"
    by (simp add: deliver_i64_def in_i64_def)
  moreover have "deliver_i64 0 = Inr 0" by (simp add: deliver_i64_def in_i64_def)
  ultimately show ?thesis
    by (simp add: arbor_affine_invert_exact arbor_affine_translation_def arbor_affine_identity_def)
qed

section \<open>Bounds of a transformed rectangle\<close>

lemma transform_corners_Inr:
  "transform_corners m ps = Inr qs \<Longrightarrow>
   list_all2 (\<lambda>p q. (sint (pt_x q), sint (pt_y q)) = affine_exact_point m (sint (pt_x p)) (sint (pt_y p))) ps qs"
proof (induction ps arbitrary: qs)
  case Nil
  then show ?case by simp
next
  case (Cons p ps)
  then show ?case by (auto simp: then_ok_Inr_iff transform_point_Inr_iff)
qed

lemma corner_extent_bounds:
  assumes "corner_extent (a, b, c, d) ps = (a', b', c', d')"
  shows "sint a' \<le> sint a \<and> sint b \<le> sint b' \<and> sint c' \<le> sint c \<and> sint d \<le> sint d' \<and>
    (\<forall>p\<in>set ps. sint a' \<le> sint (pt_x p) \<and> sint (pt_x p) \<le> sint b' \<and>
      sint c' \<le> sint (pt_y p) \<and> sint (pt_y p) \<le> sint d')"
  using assms
proof (induction ps arbitrary: a b c d)
  case Nil
  then show ?case by simp
next
  case (Cons p ps)
  from Cons.IH [OF Cons.prems [unfolded corner_extent.simps]] show ?case
    by (simp split: if_splits)
qed

lemma linear_corner_max:
  fixes a :: int
  assumes "x0 \<le> x" and "x \<le> x1"
  shows "a * x \<le> max (a * x0) (a * x1)" "min (a * x0) (a * x1) \<le> a * x"
  using assms mult_left_mono [of x x1 a] mult_left_mono [of x0 x a]
    mult_left_mono_neg [of x0 x a] mult_left_mono_neg [of x x1 a]
  by (cases "0 \<le> a"; simp)+

lemma bilinear_corners:
  fixes a c :: int
  assumes "x0 \<le> x" and "x \<le> x1" and "y0 \<le> y" and "y \<le> y1"
  shows "\<exists>u\<in>{x0, x1}. \<exists>v\<in>{y0, y1}. a * x + c * y + t \<le> a * u + c * v + t"
    and "\<exists>u\<in>{x0, x1}. \<exists>v\<in>{y0, y1}. a * u + c * v + t \<le> a * x + c * y + t"
  using linear_corner_max [OF assms(1,2), of a] linear_corner_max [OF assms(3,4), of c]
  by (auto simp: max_def min_def split: if_splits)

lemma q32_bilinear_between:
  fixes a c :: int
  assumes "x0 \<le> x" and "x \<le> x1" and "y0 \<le> y" and "y \<le> y1"
    and corner: "\<And>u v. u \<in> {x0, x1} \<Longrightarrow> v \<in> {y0, y1} \<Longrightarrow>
      lo \<le> q32_round (a * u + c * v + t) \<and> q32_round (a * u + c * v + t) \<le> hi"
  shows "lo \<le> q32_round (a * x + c * y + t) \<and> q32_round (a * x + c * y + t) \<le> hi"
proof -
  obtain u v where uv: "u \<in> {x0, x1}" "v \<in> {y0, y1}" "a * x + c * y + t \<le> a * u + c * v + t"
    using bilinear_corners(1) [OF assms(1-4)] by blast
  obtain w z where wz: "w \<in> {x0, x1}" "z \<in> {y0, y1}" "a * w + c * z + t \<le> a * x + c * y + t"
    using bilinear_corners(2) [OF assms(1-4)] by blast
  show ?thesis
    using corner [OF uv(1,2)] corner [OF wz(1,2)] q32_round_mono [OF uv(3)] q32_round_mono [OF wz(3)]
    by linarith
qed

definition point_in_closed :: "arbor_point \<Rightarrow> arbor_rect \<Rightarrow> bool" where
  "point_in_closed p r \<longleftrightarrow>
     sint (rect_x r) \<le> sint (pt_x p) \<and> sint (pt_x p) \<le> rect_right r \<and>
     sint (rect_y r) \<le> sint (pt_y p) \<and> sint (pt_y p) \<le> rect_bottom r"

definition exact_in_closed :: "int \<times> int \<Rightarrow> arbor_rect \<Rightarrow> bool" where
  "exact_in_closed p r \<longleftrightarrow>
     sint (rect_x r) \<le> fst p \<and> fst p \<le> rect_right r \<and>
     sint (rect_y r) \<le> snd p \<and> snd p \<le> rect_bottom r"

lemma rect_bounds_corners:
  assumes "arbor_affine_transform_rect_bounds m r Out = Inr q"
  shows "rect_valid r" and "rect_valid q"
    and "\<And>u v. u \<in> {sint (rect_x r), rect_right r} \<Longrightarrow> v \<in> {sint (rect_y r), rect_bottom r} \<Longrightarrow>
      exact_in_closed (affine_exact_point m u v) q"
proof -
  obtain e where e: "arbor_rect_edges r Out Out = Inr e"
    using assms by (auto simp: arbor_affine_transform_rect_bounds_def then_ok_Inr_iff)
  then show valid: "rect_valid r" by (rule rect_edges_Inr_valid)
  let ?R = "word_of_int (rect_right r) :: i64" and ?B = "word_of_int (rect_bottom r) :: i64"
  let ?cs = "[\<lparr>pt_x = rect_x r, pt_y = rect_y r\<rparr>, \<lparr>pt_x = ?R, pt_y = rect_y r\<rparr>,
     \<lparr>pt_x = rect_x r, pt_y = ?B\<rparr>, \<lparr>pt_x = ?R, pt_y = ?B\<rparr>]"
  obtain ps where ps: "transform_corners m ?cs = Inr ps"
    and q: "(let p0 = hd ps; (min_x, max_x, min_y, max_y) =
        corner_extent (pt_x p0, pt_x p0, pt_y p0, pt_y p0) (tl ps)
      in arbor_rect_from_edges min_x min_y max_x max_y Out) = Inr q"
    using assms rect_edges_valid(1) [OF valid]
    by (auto simp: arbor_affine_transform_rect_bounds_def then_ok_Inr_iff simp del: transform_corners.simps)
  from transform_corners_Inr [OF ps] obtain p0 p1 p2 p3 where four: "ps = [p0, p1, p2, p3]"
    and exact: "(sint (pt_x p0), sint (pt_y p0)) = affine_exact_point m (sint (rect_x r)) (sint (rect_y r))"
      "(sint (pt_x p1), sint (pt_y p1)) = affine_exact_point m (rect_right r) (sint (rect_y r))"
      "(sint (pt_x p2), sint (pt_y p2)) = affine_exact_point m (sint (rect_x r)) (rect_bottom r)"
      "(sint (pt_x p3), sint (pt_y p3)) = affine_exact_point m (rect_right r) (rect_bottom r)"
    using rect_edges_valid(2,3) [OF valid] by (auto simp: list_all2_Cons1)
  obtain a b c d where ext: "corner_extent (pt_x p0, pt_x p0, pt_y p0, pt_y p0) [p1, p2, p3] = (a, b, c, d)"
    by (metis prod_cases4)
  with q four have from_edges: "arbor_rect_from_edges a c b d Out = Inr q" by simp
  note edges = rect_from_edges_Inr [OF from_edges]
  then show "rect_valid q" by simp
  have "exact_in_closed (sint (pt_x p), sint (pt_y p)) q" if "p \<in> {p0, p1, p2, p3}" for p
    using that corner_extent_bounds [OF ext] edges by (auto simp: exact_in_closed_def)
  then show "exact_in_closed (affine_exact_point m u v) q"
    if "u \<in> {sint (rect_x r), rect_right r}" "v \<in> {sint (rect_y r), rect_bottom r}" for u v
    using that exact by (metis insertE insertI1 insertI2 singletonD)
qed

lemma rect_bounds_contain_image:
  assumes bounds: "arbor_affine_transform_rect_bounds m r Out = Inr q" and p: "point_in_closed p r"
  shows "\<exists>p'. arbor_affine_transform_point m p Out = Inr p' \<and> point_in_closed p' q"
proof -
  note corner = rect_bounds_corners(3) [OF bounds]
  have range: "sint (rect_x r) \<le> sint (pt_x p)" "sint (pt_x p) \<le> rect_right r"
    "sint (rect_y r) \<le> sint (pt_y p)" "sint (pt_y p) \<le> rect_bottom r"
    using p by (simp_all add: point_in_closed_def)
  obtain x y where xy: "affine_exact_point m (sint (pt_x p)) (sint (pt_y p)) = (x, y)" by fastforce
  have x: "x = q32_round (sint (aff_a m) * sint (pt_x p) + sint (aff_c m) * sint (pt_y p) +
      sint (aff_tx m) * ARBOR_Q32_SCALE_I128)"
    and y: "y = q32_round (sint (aff_b m) * sint (pt_x p) + sint (aff_d m) * sint (pt_y p) +
      sint (aff_ty m) * ARBOR_Q32_SCALE_I128)"
    using xy by (simp_all only: affine_exact_point_def prod.inject)
  have "sint (rect_x q) \<le> x \<and> x \<le> rect_right q"
    unfolding x by (rule q32_bilinear_between [OF range])
      (use corner in \<open>simp only: exact_in_closed_def affine_exact_point_def fst_conv snd_conv\<close>)
  moreover have "sint (rect_y q) \<le> y \<and> y \<le> rect_bottom q"
    unfolding y by (rule q32_bilinear_between [OF range])
      (use corner in \<open>simp only: exact_in_closed_def affine_exact_point_def fst_conv snd_conv\<close>)
  ultimately have between: "sint (rect_x q) \<le> x" "x \<le> rect_right q" "sint (rect_y q) \<le> y" "y \<le> rect_bottom q"
    by blast+
  have "sint (word_of_int x :: i64) = x" "sint (word_of_int y :: i64) = y"
    using between rect_bounds_corners(2) [OF bounds] sint_i64_lower [of "rect_x q"] sint_i64_lower [of "rect_y q"]
    by (simp_all add: sint_word_of_int rect_valid_def)
  then have "arbor_affine_transform_point m p Out = Inr \<lparr>pt_x = word_of_int x, pt_y = word_of_int y\<rparr>"
    and "point_in_closed \<lparr>pt_x = word_of_int x, pt_y = word_of_int y\<rparr> q"
    using between by (simp_all add: transform_point_Inr_iff xy point_in_closed_def)
  then show ?thesis by blast
qed

end
