(* ===== verification/Rotation.thy ===== *)
theory Rotation
  imports Affine
begin

text \<open>
  \<open>arbor_affine_rotation_turns\<close> of \<open>src/c/geometry.c\<close>: quarter turns are exact, any other
  angle runs 31 CORDIC iterations on \<open>int64_t\<close> values scaled by \<open>2 ^ 62\<close>. The squared
  norm of the iterates is tracked between two integer sequences, which shows that no
  iteration leaves \<open>int64_t\<close>, that the function never fails, and that the matrix it
  returns is a rotation up to the last bits: its determinant is \<open>2 ^ 64\<close> within \<open>2 ^ 34\<close>.
\<close>

section \<open>The code\<close>

abbreviation ARBOR_CORDIC_K_Q62 :: int where "ARBOR_CORDIC_K_Q62 \<equiv> 2800459870029453824"
abbreviation ARBOR_CORDIC_ITERATIONS :: nat where "ARBOR_CORDIC_ITERATIONS \<equiv> 31"
abbreviation ARBOR_CORDIC_TO_Q32_SCALE :: int where "ARBOR_CORDIC_TO_Q32_SCALE \<equiv> 1073741824"

definition arbor_cordic_atan_turns_q32 :: "int list" where
  "arbor_cordic_atan_turns_q32 =
    [536870912, 316933406, 167458907, 85004756, 42667331, 21354465, 10679838, 5340245, 2670163,
     1335087, 667544, 333772, 166886, 83443, 41722, 20861, 10430, 5215, 2608, 1304, 652, 326,
     163, 81, 41, 20, 10, 5, 3, 1, 1]"

definition arbor_shift_right_arithmetic_i64 :: "int \<Rightarrow> nat \<Rightarrow> int" where
  "arbor_shift_right_arithmetic_i64 val shift =
     (if shift = 0 then val
      else if val \<ge> 0 then drop_bit shift val
      else
        let magnitude = u64 (nat (s64 (- s64 (val + 1))) + 1);
            quotient = drop_bit shift magnitude;
            remainder_mask = u64 (2 ^ shift) - 1;
            quotient = (if Bit_Operations.and magnitude remainder_mask \<noteq> 0
                        then u64 (quotient + 1) else quotient)
        in if quotient = 2 ^ 63 then INT64_MIN else - int quotient)"

definition cordic_step :: "nat \<Rightarrow> int \<times> int \<times> int \<Rightarrow> int \<times> int \<times> int" where
  "cordic_step i = (\<lambda>(x, y, z).
     let shifted_x = arbor_shift_right_arithmetic_i64 x i;
         shifted_y = arbor_shift_right_arithmetic_i64 y i
     in if z \<ge> 0
        then (s64 (x - shifted_y), s64 (y + shifted_x), s64 (z - arbor_cordic_atan_turns_q32 ! i))
        else (s64 (x + shifted_y), s64 (y - shifted_x), s64 (z + arbor_cordic_atan_turns_q32 ! i)))"

definition cordic_loop :: "int \<Rightarrow> int \<times> int \<times> int" where
  "cordic_loop remainder =
     fold cordic_step [0..<ARBOR_CORDIC_ITERATIONS] (ARBOR_CORDIC_K_Q62, 0, remainder)"

definition arbor_affine_rotation_turns :: "arbor_coord \<Rightarrow> out_ptr \<Rightarrow> arbor_affine geometry_result" where
  "arbor_affine_rotation_turns turns out =
     (if out = NULL then Inl ARBOR_GEOMETRY_INVALID_ARGUMENT
      else
        let quarter = ARBOR_COORD_ONE div 4;
            normalized = c_mod (sint turns) ARBOR_COORD_ONE;
            normalized = (if normalized < 0 then normalized + ARBOR_COORD_ONE else normalized);
            quadrant = c_div normalized quarter;
            remainder = c_mod normalized quarter;
            matrix = (\<lambda>cosine sine. \<lparr>aff_a = word_of_int cosine, aff_b = word_of_int sine,
               aff_c = word_of_int (s64 (- sine)), aff_d = word_of_int cosine, aff_tx = 0, aff_ty = 0\<rparr>)
        in if remainder = 0
           then Inr
             (if quadrant = 0 then matrix ARBOR_COORD_ONE 0
              else if quadrant = 1 then matrix 0 ARBOR_COORD_ONE
              else if quadrant = 2 then matrix (- ARBOR_COORD_ONE) 0
              else matrix 0 (- ARBOR_COORD_ONE))
           else
             let (x, y, z) = cordic_loop remainder in
             then_ok (arbor_round_div_i128_to_i64 x ARBOR_CORDIC_TO_Q32_SCALE ARBOR_ROUND_NEAREST_EVEN Out) (\<lambda>cosine.
             then_ok (arbor_round_div_i128_to_i64 y ARBOR_CORDIC_TO_Q32_SCALE ARBOR_ROUND_NEAREST_EVEN Out) (\<lambda>sine.
             Inr
               (if quadrant = 0 then matrix (sint cosine) (sint sine)
                else if quadrant = 1 then matrix (s64 (- sint sine)) (sint cosine)
                else if quadrant = 2 then matrix (s64 (- sint cosine)) (s64 (- sint sine))
                else matrix (sint sine) (s64 (- sint cosine))))))"

section \<open>The arithmetic shift is floor division\<close>

lemma and_low_bits_zero: "Bit_Operations.and (m :: nat) (2 ^ s - 1) = m mod 2 ^ s"
  by (simp add: take_bit_eq_mod [symmetric] take_bit_eq_mask mask_eq_exp_minus_1)

lemma ceil_div_neg:
  fixes m b :: nat
  assumes "0 < b"
  shows "(- int m) div int b = - int (m div b + (if m mod b = 0 then 0 else 1))"
  using zdiv_zminus1_eq_if [of "int b" "int m"] assms
  by (auto simp: zdiv_int [symmetric] zmod_int [symmetric])

lemma arithmetic_shift_floor:
  assumes "INT64_MIN \<le> v" and "v \<le> INT64_MAX" and "s < 64"
  shows "arbor_shift_right_arithmetic_i64 v s = v div 2 ^ s"
proof (cases "s = 0 \<or> 0 \<le> v")
  case True
  then show ?thesis by (auto simp: arbor_shift_right_arithmetic_i64_def drop_bit_eq_div)
next
  case False
  define m where "m = nat (- v)"
  have m: "v = - int m" "0 < m" "m \<le> 9223372036854775808" using False assms by (auto simp: m_def)
  have mag: "u64 (nat (s64 (- s64 (v + 1))) + 1) = m"
    using m False assms by (simp add: width_simps)
  have "(2 :: nat) ^ s < 2 ^ 64" using assms(3) by (rule power_strict_increasing) simp
  then have pow: "u64 (2 ^ s) = 2 ^ s" unfolding u64_def by (rule mod_less)
  have small: "m div 2 ^ s + 1 < 18446744073709551616"
    using m(3) div_le_dividend [of m "2 ^ s"] by linarith
  have "m div 2 ^ s \<le> m div 2" using False by (intro div_le_mono2) (auto simp: self_le_power)
  then have limit: "m div 2 ^ s + 1 < 2 ^ 63" using m(3) by simp
  have "arbor_shift_right_arithmetic_i64 v s = - int (m div 2 ^ s + (if m mod 2 ^ s = 0 then 0 else 1))"
    using False small limit
    unfolding arbor_shift_right_arithmetic_i64_def mag pow and_low_bits_zero Let_def drop_bit_eq_div
    by (auto simp: width_simps)
  also have "\<dots> = v div 2 ^ s"
    using ceil_div_neg [of "2 ^ s" m] by (simp add: m(1))
  finally show ?thesis .
qed

section \<open>The norm of the iterates\<close>

definition norm_error :: int where "norm_error = 73786976294838206464"

fun norm_hi :: "nat \<Rightarrow> int" where
  "norm_hi 0 = ARBOR_CORDIC_K_Q62 * ARBOR_CORDIC_K_Q62"
| "norm_hi (Suc i) = ((4 ^ i + 1) * norm_hi i) div 4 ^ i + norm_error"

fun norm_lo :: "nat \<Rightarrow> int" where
  "norm_lo 0 = ARBOR_CORDIC_K_Q62 * ARBOR_CORDIC_K_Q62"
| "norm_lo (Suc i) = ((4 ^ i + 1) * norm_lo i) div 4 ^ i - norm_error"

lemma shifted_part:
  fixes x s :: int
  assumes "0 < s" and "\<bar>x\<bar> \<le> M"
  shows "s * \<bar>x div s\<bar> \<le> M + s" and "\<bar>s\<^sup>2 * (x div s)\<^sup>2 - x\<^sup>2\<bar> \<le> 2 * s * M + s\<^sup>2"
proof -
  define X e where "X = x div s" and "e = x mod s"
  have e: "0 \<le> e" "e < s" and x: "s * X = x - e" using assms(1) by (simp_all add: X_def e_def algebra_simps minus_mod_eq_mult_div)
  have "s * \<bar>X\<bar> = \<bar>x - e\<bar>" using assms(1) by (simp add: x [symmetric] abs_mult)
  also have "\<dots> \<le> M + s" using assms(2) e by linarith
  finally show "s * \<bar>x div s\<bar> \<le> M + s" by (simp add: X_def)
  have "s\<^sup>2 * X\<^sup>2 = (x - e)\<^sup>2" by (simp add: x [symmetric] power_mult_distrib)
  then have "s\<^sup>2 * X\<^sup>2 - x\<^sup>2 = e * e - 2 * (x * e)"
    by (simp add: power2_eq_square algebra_simps)
  also have "\<bar>\<dots>\<bar> \<le> \<bar>e * e\<bar> + 2 * \<bar>x * e\<bar>" by linarith
  also have "\<bar>e * e\<bar> \<le> s * s" using e by (simp add: abs_mult mult_mono)
  also have "\<bar>x * e\<bar> \<le> M * s" using assms(2) e by (simp add: abs_mult mult_mono)
  finally show "\<bar>s\<^sup>2 * (x div s)\<^sup>2 - x\<^sup>2\<bar> \<le> 2 * s * M + s\<^sup>2"
    by (simp add: X_def power2_eq_square algebra_simps)
qed

lemma cross_part:
  fixes x y s :: int
  assumes "0 < s" and "\<bar>x\<bar> \<le> M" and "\<bar>y\<bar> \<le> M"
  shows "\<bar>y * (x div s) - x * (y div s)\<bar> \<le> 2 * (M + s)"
proof -
  define X Y where "X = x div s" and "Y = y div s"
  define ex ey where "ex = x mod s" and "ey = y mod s"
  have e: "0 \<le> ex" "ex < s" "0 \<le> ey" "ey < s" using assms(1) by (simp_all add: ex_def ey_def)
  have xy: "x = s * X + ex" "y = s * Y + ey" by (simp_all add: X_def Y_def ex_def ey_def)
  have "y * X - x * Y = ey * X - ex * Y" by (simp add: xy algebra_simps)
  also have "\<bar>\<dots>\<bar> \<le> \<bar>ey * X\<bar> + \<bar>ex * Y\<bar>" by linarith
  also have "\<bar>ey * X\<bar> \<le> s * \<bar>X\<bar>" using e by (simp add: abs_mult mult_right_mono)
  also have "\<bar>ex * Y\<bar> \<le> s * \<bar>Y\<bar>" using e by (simp add: abs_mult mult_right_mono)
  finally have "\<bar>y * X - x * Y\<bar> \<le> s * \<bar>X\<bar> + s * \<bar>Y\<bar>" by simp
  then show ?thesis
    using shifted_part(1) [OF assms(1,2)] shifted_part(1) [OF assms(1,3)] by (simp add: X_def Y_def)
qed

lemma rotate_norm:
  fixes x y s \<sigma> :: int
  assumes "0 < s" and "\<bar>x\<bar> \<le> M" and "\<bar>y\<bar> \<le> M" and \<sigma>: "\<sigma> = 1 \<or> \<sigma> = - 1"
  shows "\<bar>s\<^sup>2 * ((x - \<sigma> * (y div s))\<^sup>2 + (y + \<sigma> * (x div s))\<^sup>2) - (s\<^sup>2 + 1) * (x\<^sup>2 + y\<^sup>2)\<bar>
    \<le> 4 * s * M + 2 * s\<^sup>2 + s\<^sup>2 * (4 * (M + s))"
proof -
  define X Y where "X = x div s" and "Y = y div s"
  have sq: "\<sigma> * \<sigma> = 1" using \<sigma> by auto
  have split: "s\<^sup>2 * ((x - \<sigma> * Y)\<^sup>2 + (y + \<sigma> * X)\<^sup>2) - (s\<^sup>2 + 1) * (x\<^sup>2 + y\<^sup>2) =
      (s\<^sup>2 * X\<^sup>2 - x\<^sup>2) + (s\<^sup>2 * Y\<^sup>2 - y\<^sup>2) + s\<^sup>2 * (2 * (\<sigma> * (y * X - x * Y)))"
    using \<sigma> by (auto simp: power2_eq_square algebra_simps)
  have "\<bar>s\<^sup>2 * (2 * (\<sigma> * (y * X - x * Y)))\<bar> = s\<^sup>2 * (2 * \<bar>y * X - x * Y\<bar>)"
    using \<sigma> by (auto simp: abs_mult)
  also have "\<dots> \<le> s\<^sup>2 * (2 * (2 * (M + s)))"
    using cross_part [OF assms(1-3)] by (intro mult_left_mono) (simp_all add: X_def Y_def)
  finally have "\<bar>s\<^sup>2 * (2 * (\<sigma> * (y * X - x * Y)))\<bar> \<le> s\<^sup>2 * (4 * (M + s))" by simp
  then show ?thesis
    using shifted_part(2) [OF assms(1,2)] shifted_part(2) [OF assms(1,3)] split
    unfolding X_def Y_def by linarith
qed

lemma norm_hi_nonneg: "0 \<le> norm_hi i"
  by (induction i) (simp_all add: norm_error_def pos_imp_zdiv_nonneg_iff)

lemma norm_hi_step: "norm_hi i \<le> norm_hi (Suc i)"
proof -
  have "4 ^ i * norm_hi i \<le> (4 ^ i + 1) * norm_hi i"
    using norm_hi_nonneg [of i] by (simp add: distrib_right)
  then have "norm_hi i \<le> ((4 ^ i + 1) * norm_hi i) div 4 ^ i"
    by (metis nonzero_mult_div_cancel_left power_not_zero zdiv_mono1 zero_less_numeral zero_less_power zero_neq_numeral)
  then show ?thesis by (simp add: norm_error_def)
qed

lemma norm_hi_final: "norm_hi 31 = 21267647932558669496580562112724130691"
  by (simp add: eval_nat_numeral norm_error_def)

lemma norm_lo_final: "norm_lo 31 = 21267647932558664852648473515090546161"
  by (simp add: eval_nat_numeral norm_error_def)

lemma norm_hi_bound: "i \<le> 31 \<Longrightarrow> norm_hi i \<le> 25000000000000000000000000000000000000"
proof -
  assume "i \<le> 31"
  then have "norm_hi i \<le> norm_hi 31"
    by (rule lift_Suc_mono_le [of norm_hi, OF norm_hi_step])
  then show ?thesis by (simp add: norm_hi_final)
qed

lemma component_bound:
  fixes x y :: int
  assumes "x\<^sup>2 + y\<^sup>2 \<le> 25000000000000000000000000000000000000"
  shows "\<bar>x\<bar> \<le> 5000000000000000000"
proof (rule power2_le_imp_le)
  have "x\<^sup>2 \<le> 25000000000000000000000000000000000000" using assms zero_le_power2 [of y] by linarith
  then show "\<bar>x\<bar>\<^sup>2 \<le> 5000000000000000000\<^sup>2" by simp
qed simp

lemma cordic_atan_range:
  assumes "i < 31"
  shows "0 \<le> arbor_cordic_atan_turns_q32 ! i" "arbor_cordic_atan_turns_q32 ! i < 1073741824"
proof -
  have "list_all (\<lambda>a. 0 \<le> a \<and> a < 1073741824) arbor_cordic_atan_turns_q32"
    and "length arbor_cordic_atan_turns_q32 = 31"
    by (simp_all add: arbor_cordic_atan_turns_q32_def)
  with assms show "0 \<le> arbor_cordic_atan_turns_q32 ! i" "arbor_cordic_atan_turns_q32 ! i < 1073741824"
    by (simp_all add: list_all_length)
qed

definition cordic_inv :: "nat \<Rightarrow> int \<times> int \<times> int \<Rightarrow> bool" where
  "cordic_inv i = (\<lambda>(x, y, z). norm_lo i \<le> x\<^sup>2 + y\<^sup>2 \<and> x\<^sup>2 + y\<^sup>2 \<le> norm_hi i \<and>
     \<bar>z\<bar> \<le> (int i + 1) * 1073741824)"

lemma rotate_error:
  assumes "i < 31"
  defines "s \<equiv> 2 ^ i :: int"
  shows "4 * s * 5000000000000000000 + 2 * s\<^sup>2 + s\<^sup>2 * (4 * (5000000000000000000 + s)) \<le> s\<^sup>2 * norm_error"
proof -
  have s: "1 \<le> s" by (simp add: s_def)
  have "s \<le> 2 ^ 30" unfolding s_def using assms(1) by (intro power_increasing) simp_all
  then have cube: "s\<^sup>2 * s \<le> s\<^sup>2 * 1073741824" by (intro mult_left_mono) simp_all
  have "s * 1 \<le> s * s" using s by (intro mult_left_mono) simp_all
  then have square: "s \<le> s\<^sup>2" by (simp add: power2_eq_square)
  have eq: "4 * s * 5000000000000000000 + 2 * s\<^sup>2 + s\<^sup>2 * (4 * (5000000000000000000 + s)) =
      4 * (s\<^sup>2 * s) + 20000000000000000000 * s + 20000000000000000002 * s\<^sup>2"
    by (simp add: algebra_simps)
  show ?thesis
    unfolding eq norm_error_def using cube square zero_le_power2 [of s] by linarith
qed

lemma rotate_norm_bounds:
  fixes x y \<sigma> :: int
  assumes i: "i < 31" and lo: "norm_lo i \<le> x\<^sup>2 + y\<^sup>2" and hi: "x\<^sup>2 + y\<^sup>2 \<le> norm_hi i"
    and \<sigma>: "\<sigma> = 1 \<or> \<sigma> = - 1"
  defines "x' \<equiv> x - \<sigma> * (y div 2 ^ i)" and "y' \<equiv> y + \<sigma> * (x div 2 ^ i)"
  shows "norm_lo (Suc i) \<le> x'\<^sup>2 + y'\<^sup>2" and "x'\<^sup>2 + y'\<^sup>2 \<le> norm_hi (Suc i)"
proof -
  define s N N' where "s = (2 ^ i :: int)" and "N = x\<^sup>2 + y\<^sup>2" and "N' = x'\<^sup>2 + y'\<^sup>2"
  have s: "0 < s" by (simp add: s_def)
  have "s\<^sup>2 = (2\<^sup>2) ^ i" unfolding s_def by (simp only: power_mult [symmetric] mult.commute)
  then have s2: "s\<^sup>2 = 4 ^ i" by simp
  have comp: "\<bar>x\<bar> \<le> 5000000000000000000" "\<bar>y\<bar> \<le> 5000000000000000000"
    using component_bound [of x y] component_bound [of y x] hi norm_hi_bound [of i] i by linarith+
  have "\<bar>s\<^sup>2 * N' - (s\<^sup>2 + 1) * N\<bar> \<le> s\<^sup>2 * norm_error"
    using rotate_norm [OF s comp \<sigma>] rotate_error [OF i] unfolding N'_def N_def x'_def y'_def s_def by linarith
  then have up: "s\<^sup>2 * N' \<le> (s\<^sup>2 + 1) * N + s\<^sup>2 * norm_error"
    and dn: "(s\<^sup>2 + 1) * N \<le> s\<^sup>2 * N' + s\<^sup>2 * norm_error" by linarith+
  have "(s\<^sup>2 + 1) * N \<le> (s\<^sup>2 + 1) * norm_hi i" using hi by (intro mult_left_mono) (simp_all add: N_def)
  with up have "(N' - norm_error) * s\<^sup>2 \<le> (s\<^sup>2 + 1) * norm_hi i" by (simp add: algebra_simps)
  then show "x'\<^sup>2 + y'\<^sup>2 \<le> norm_hi (Suc i)"
    using zdiv_mono1 [of "(N' - norm_error) * s\<^sup>2" "(s\<^sup>2 + 1) * norm_hi i" "s\<^sup>2"] s
    by (simp add: s2 N'_def)
  have "(s\<^sup>2 + 1) * norm_lo i \<le> (s\<^sup>2 + 1) * N" using lo by (intro mult_left_mono) (simp_all add: N_def)
  with dn have "(s\<^sup>2 + 1) * norm_lo i \<le> (N' + norm_error) * s\<^sup>2" by (simp add: algebra_simps)
  then show "norm_lo (Suc i) \<le> x'\<^sup>2 + y'\<^sup>2"
    using zdiv_mono1 [of "(s\<^sup>2 + 1) * norm_lo i" "(N' + norm_error) * s\<^sup>2" "s\<^sup>2"] s
    by (simp add: s2 N'_def)
qed

lemma cordic_step_inv:
  assumes i: "i < 31" and inv: "cordic_inv i (x, y, z)"
  shows "cordic_inv (Suc i) (cordic_step i (x, y, z))"
proof -
  define \<sigma> :: int where "\<sigma> = (if z \<ge> 0 then 1 else - 1)"
  let ?x = "x - \<sigma> * (y div 2 ^ i)" and ?y = "y + \<sigma> * (x div 2 ^ i)"
    and ?z = "z - \<sigma> * arbor_cordic_atan_turns_q32 ! i"
  have \<sigma>: "\<sigma> = 1 \<or> \<sigma> = - 1" by (simp add: \<sigma>_def)
  have lo: "norm_lo i \<le> x\<^sup>2 + y\<^sup>2" and hi: "x\<^sup>2 + y\<^sup>2 \<le> norm_hi i"
    and z: "\<bar>z\<bar> \<le> (int i + 1) * 1073741824" using inv by (simp_all add: cordic_inv_def)
  have comp: "\<bar>x\<bar> \<le> 5000000000000000000" "\<bar>y\<bar> \<le> 5000000000000000000"
    using component_bound [of x y] component_bound [of y x] hi norm_hi_bound [of i] i by linarith+
  note bounds = rotate_norm_bounds [OF i lo hi \<sigma>]
  have comp': "\<bar>?x\<bar> \<le> 5000000000000000000" "\<bar>?y\<bar> \<le> 5000000000000000000"
    using component_bound [of ?x ?y] component_bound [of ?y ?x] bounds(2) norm_hi_bound [of "Suc i"] i
    by linarith+
  have z': "\<bar>?z\<bar> \<le> (int (Suc i) + 1) * 1073741824"
    using z cordic_atan_range [OF i] by (auto simp: \<sigma>_def abs_le_iff algebra_simps)
  also have "\<dots> \<le> 33 * 1073741824" using i by simp
  finally have zb: "\<bar>?z\<bar> \<le> 33 * 1073741824" .
  have shift: "arbor_shift_right_arithmetic_i64 x i = x div 2 ^ i"
    "arbor_shift_right_arithmetic_i64 y i = y div 2 ^ i"
    using comp i by (auto intro!: arithmetic_shift_floor)
  have "s64 ?x = ?x" "s64 ?y = ?y" "s64 ?z = ?z"
    using comp' zb by (auto intro!: s64_id)
  then have "cordic_step i (x, y, z) = (?x, ?y, ?z)"
    by (auto simp: cordic_step_def shift \<sigma>_def)
  then show ?thesis
    using bounds z' by (simp only: cordic_inv_def split_conv)
qed

lemma cordic_fold_inv:
  "n \<le> 31 \<Longrightarrow> cordic_inv 0 st \<Longrightarrow> cordic_inv n (fold cordic_step [0..<n] st)"
proof (induction n)
  case 0
  then show ?case by simp
next
  case (Suc n)
  then show ?case
    using cordic_step_inv [of n] by (cases "fold cordic_step [0..<n] st") auto
qed

lemma cordic_loop_norm:
  assumes "0 \<le> r" and "r \<le> 1073741824" and loop: "cordic_loop r = (x, y, z)"
  shows "\<bar>x\<^sup>2 + y\<^sup>2 - 2 ^ 124\<bar> \<le> 2 ^ 74" "\<bar>x\<bar> \<le> 5000000000000000000" "\<bar>y\<bar> \<le> 5000000000000000000"
proof -
  have "cordic_inv 0 (ARBOR_CORDIC_K_Q62, 0, r)" using assms by (simp add: cordic_inv_def)
  from cordic_fold_inv [OF _ this, of 31] loop
  have b: "norm_lo 31 \<le> x\<^sup>2 + y\<^sup>2" "x\<^sup>2 + y\<^sup>2 \<le> norm_hi 31"
    by (simp_all add: cordic_loop_def cordic_inv_def)
  then show "\<bar>x\<^sup>2 + y\<^sup>2 - 2 ^ 124\<bar> \<le> 2 ^ 74" by (simp add: norm_lo_final norm_hi_final)
  show "\<bar>x\<bar> \<le> 5000000000000000000" "\<bar>y\<bar> \<le> 5000000000000000000"
    using b component_bound [of x y] component_bound [of y x] by (simp_all add: norm_hi_final)
qed

lemma q62_to_q32:
  assumes "\<bar>x\<bar> \<le> 5000000000000000000"
  defines "c \<equiv> round_half_even x ARBOR_CORDIC_TO_Q32_SCALE"
  shows "arbor_round_div_i128_to_i64 x ARBOR_CORDIC_TO_Q32_SCALE ARBOR_ROUND_NEAREST_EVEN Out =
      Inr (word_of_int c)"
    and "\<bar>1073741824 * c - x\<bar> \<le> 536870912" and "\<bar>c\<bar> \<le> 5000000000"
proof -
  have "2 * x \<le> 2 * (c * ARBOR_CORDIC_TO_Q32_SCALE) + ARBOR_CORDIC_TO_Q32_SCALE"
    "2 * (c * ARBOR_CORDIC_TO_Q32_SCALE) \<le> 2 * x + ARBOR_CORDIC_TO_Q32_SCALE"
    unfolding c_def by (rule round_half_even_bounds, simp)+
  then show near: "\<bar>1073741824 * c - x\<bar> \<le> 536870912" by linarith
  with assms(1) show c: "\<bar>c\<bar> \<le> 5000000000" by linarith
  have "in_i128 x" "in_i128 ARBOR_CORDIC_TO_Q32_SCALE" using assms(1) by (auto simp: in_i128_def)
  then show "arbor_round_div_i128_to_i64 x ARBOR_CORDIC_TO_Q32_SCALE ARBOR_ROUND_NEAREST_EVEN Out =
      Inr (word_of_int c)"
    using c by (simp add: arbor_round_div_i128_to_i64_exact arbor_rounding_mode_valid_def
      round_exact_def c_def [symmetric] deliver_i64_def in_i64_def abs_le_iff)
qed

lemma rounded_norm:
  fixes x y c s :: int
  assumes norm: "\<bar>x\<^sup>2 + y\<^sup>2 - 2 ^ 124\<bar> \<le> 2 ^ 74"
    and x: "\<bar>x\<bar> \<le> 5000000000000000000" and y: "\<bar>y\<bar> \<le> 5000000000000000000"
    and c: "\<bar>1073741824 * c - x\<bar> \<le> 536870912" and s: "\<bar>1073741824 * s - y\<bar> \<le> 536870912"
  shows "\<bar>c\<^sup>2 + s\<^sup>2 - 2 ^ 64\<bar> \<le> 2 ^ 34"
proof -
  have part: "\<bar>1152921504606846976 * k\<^sup>2 - u\<^sup>2\<bar> \<le> 5368709120288230376151711744"
    if u: "\<bar>u\<bar> \<le> 5000000000000000000" and k: "\<bar>1073741824 * k - u\<bar> \<le> 536870912" for u k :: int
  proof -
    define e where "e = 1073741824 * k - u"
    have "1152921504606846976 * k\<^sup>2 = (u + e)\<^sup>2"
      by (simp add: e_def power_mult_distrib)
    then have "1152921504606846976 * k\<^sup>2 - u\<^sup>2 = 2 * (u * e) + e * e"
      by (simp add: power2_eq_square algebra_simps)
    moreover have "\<bar>u * e\<bar> \<le> 5000000000000000000 * 536870912"
      using u k unfolding abs_mult e_def by (intro mult_mono) auto
    moreover have "\<bar>e * e\<bar> \<le> 536870912 * 536870912"
      using k unfolding abs_mult e_def by (intro mult_mono) auto
    ultimately show ?thesis by linarith
  qed
  show ?thesis
    using part [OF x c] part [OF y s] norm by simp
qed

lemma c_mod_wrap:
  fixes k d :: int
  assumes "0 < d"
  shows "(if c_mod k d < 0 then c_mod k d + d else c_mod k d) = k mod d"
proof (cases "k < 0")
  case False
  then show ?thesis using assms by (simp add: c_mod_magnitude not_less)
next
  case True
  have "0 \<le> (- k) mod d" "(- k) mod d < d" using assms by simp_all
  moreover have "k mod d = (if (- k) mod d = 0 then 0 else d - (- k) mod d)"
    using zmod_zminus1_eq_if [of "- k" d] assms by simp
  ultimately show ?thesis
    using True assms by (simp add: c_mod_magnitude, arith)
qed

definition is_rotation :: "arbor_affine \<Rightarrow> bool" where
  "is_rotation m \<longleftrightarrow> aff_d m = aff_a m \<and> sint (aff_c m) = - sint (aff_b m) \<and>
     aff_tx m = 0 \<and> aff_ty m = 0 \<and> \<bar>affine_det m - 2 ^ 64\<bar> \<le> 2 ^ 34"

lemma is_rotation_matrix:
  assumes "\<bar>c\<bar> \<le> 5000000000" and "\<bar>s\<bar> \<le> 5000000000" and "\<bar>c\<^sup>2 + s\<^sup>2 - 2 ^ 64\<bar> \<le> 2 ^ 34"
  shows "is_rotation \<lparr>aff_a = word_of_int c, aff_b = word_of_int s, aff_c = word_of_int (s64 (- s)),
    aff_d = word_of_int c, aff_tx = 0, aff_ty = 0\<rparr>"
proof -
  have r: "sint (word_of_int c :: i64) = c" "sint (word_of_int s :: i64) = s" "s64 (- s) = - s"
    using assms(1,2) by (auto intro!: sint_word_of_int s64_id)
  then have "sint (- word_of_int s :: i64) = - s"
    using assms(2) sint_i64_uminus [of "word_of_int s"] by simp
  then show ?thesis
    using assms(3) by (simp add: is_rotation_def affine_det_def r power2_eq_square)
qed

lemma rotation_cordic:
  assumes "0 \<le> r" and "r \<le> 1073741824"
  obtains x y z c s where "cordic_loop r = (x, y, z)"
    and "arbor_round_div_i128_to_i64 x ARBOR_CORDIC_TO_Q32_SCALE ARBOR_ROUND_NEAREST_EVEN Out = Inr (word_of_int c)"
    and "arbor_round_div_i128_to_i64 y ARBOR_CORDIC_TO_Q32_SCALE ARBOR_ROUND_NEAREST_EVEN Out = Inr (word_of_int s)"
    and "\<bar>c\<bar> \<le> 5000000000" and "\<bar>s\<bar> \<le> 5000000000" and "\<bar>c\<^sup>2 + s\<^sup>2 - 2 ^ 64\<bar> \<le> 2 ^ 34"
    and "sint (word_of_int c :: i64) = c" and "sint (word_of_int s :: i64) = s"
    and "s64 (- c) = - c" and "s64 (- s) = - s"
proof -
  obtain x y z where loop: "cordic_loop r = (x, y, z)" by (metis prod_cases3)
  note n = cordic_loop_norm [OF assms loop]
  let ?c = "round_half_even x ARBOR_CORDIC_TO_Q32_SCALE" and ?s = "round_half_even y ARBOR_CORDIC_TO_Q32_SCALE"
  note c = q62_to_q32 [OF n(2)] and s = q62_to_q32 [OF n(3)]
  have w: "sint (word_of_int k :: i64) = k" "s64 (- k) = - k" if "\<bar>k\<bar> \<le> 5000000000" for k
    using that by (auto intro!: sint_word_of_int s64_id)
  show ?thesis
    by (rule that [OF loop c(1) s(1) c(3) s(3) rounded_norm [OF n c(2) s(2)]
      w(1) [OF c(3)] w(1) [OF s(3)] w(2) [OF c(3)] w(2) [OF s(3)]])
qed

lemma arbor_affine_rotation_turns_rotates:
  "\<exists>m. arbor_affine_rotation_turns t Out = Inr m \<and> is_rotation m"
proof -
  define n where "n = (if c_mod (sint t) ARBOR_COORD_ONE < 0 then c_mod (sint t) ARBOR_COORD_ONE + ARBOR_COORD_ONE
      else c_mod (sint t) ARBOR_COORD_ONE)"
  define quadrant remainder where "quadrant = c_div n 1073741824" and "remainder = c_mod n 1073741824"
  have "0 \<le> n"
    unfolding n_def by (simp add: c_mod_wrap)
  then have "remainder = n mod 1073741824"
    by (simp add: remainder_def c_mod_magnitude)
  then have r: "0 \<le> remainder" "remainder \<le> 1073741824"
    by (simp_all add: less_imp_le)
  show ?thesis
  proof (cases "remainder = 0")
    case True
    have quarter: "is_rotation \<lparr>aff_a = word_of_int c, aff_b = word_of_int s, aff_c = word_of_int (s64 (- s)),
        aff_d = word_of_int c, aff_tx = 0, aff_ty = 0\<rparr>"
      if "(c, s) \<in> {(ARBOR_COORD_ONE, 0), (0, ARBOR_COORD_ONE), (- ARBOR_COORD_ONE, 0), (0, - ARBOR_COORD_ONE)}"
      for c s
      using that by (intro is_rotation_matrix) auto
    show ?thesis
      using True quarter [of ARBOR_COORD_ONE 0] quarter [of 0 ARBOR_COORD_ONE]
        quarter [of "- ARBOR_COORD_ONE" 0] quarter [of 0 "- ARBOR_COORD_ONE"]
      by (simp add: arbor_affine_rotation_turns_def Let_def n_def [symmetric] quadrant_def [symmetric]
        remainder_def [symmetric])
  next
    case False
    obtain x y z c s where loop: "cordic_loop remainder = (x, y, z)"
      and cos: "arbor_round_div_i128_to_i64 x ARBOR_CORDIC_TO_Q32_SCALE ARBOR_ROUND_NEAREST_EVEN Out = Inr (word_of_int c)"
      and sin: "arbor_round_div_i128_to_i64 y ARBOR_CORDIC_TO_Q32_SCALE ARBOR_ROUND_NEAREST_EVEN Out = Inr (word_of_int s)"
      and b: "\<bar>c\<bar> \<le> 5000000000" "\<bar>s\<bar> \<le> 5000000000" "\<bar>c\<^sup>2 + s\<^sup>2 - 2 ^ 64\<bar> \<le> 2 ^ 34"
      and w: "sint (word_of_int c :: i64) = c" "sint (word_of_int s :: i64) = s"
        "s64 (- c) = - c" "s64 (- s) = - s"
      using rotation_cordic [OF r] by metis
    have turned: "is_rotation \<lparr>aff_a = word_of_int u, aff_b = word_of_int v, aff_c = word_of_int (s64 (- v)),
        aff_d = word_of_int u, aff_tx = 0, aff_ty = 0\<rparr>"
      if "(u, v) \<in> {(c, s), (- s, c), (- c, - s), (s, - c)}" for u v
      using that b by (intro is_rotation_matrix) (auto simp: add.commute)
    show ?thesis
      using False turned [of c s] turned [of "- s" c] turned [of "- c" "- s"] turned [of s "- c"]
      by (simp add: arbor_affine_rotation_turns_def Let_def n_def [symmetric] quadrant_def [symmetric]
        remainder_def [symmetric] loop cos sin w)
  qed
qed

end
