(* ===== verification/Int128.thy ===== *)
theory Int128
  imports Arbor_Prelude
begin

text \<open>
  The 128-bit multiplication and division the WebAssembly build supplies in
  \<open>src/wasm/geometry_int128_builtins.c\<close> (\<open>__multi3\<close>, \<open>__udivti3\<close>), written in the source on
  pairs of 64-bit words seen through a union. Each helper is shown to be the 128-bit word
  operation it stands for, and the two entry points to be \<open>*\<close> and \<open>div\<close> on \<open>128 word\<close>.
\<close>

unbundle bit_operations_syntax

record arbor_wasm_u128_words =
  words_low :: u64
  words_high :: u64

type_synonym arbor_wasm_u128 = "128 word"

text \<open>The union's two views, for a little-endian target.\<close>

definition union_words :: "arbor_wasm_u128 \<Rightarrow> arbor_wasm_u128_words" where
  "union_words x = \<lparr>words_low = ucast x, words_high = ucast (drop_bit 64 x)\<rparr>"

definition union_all :: "arbor_wasm_u128_words \<Rightarrow> arbor_wasm_u128" where
  "union_all w = word_cat (words_high w) (words_low w)"

section \<open>The code\<close>

definition arbor_mul64_high :: "u64 \<Rightarrow> u64 \<Rightarrow> u64" where
  "arbor_mul64_high left right =
     (let left_low = ucast (ucast left :: u32) :: u64;
          left_high = drop_bit 32 left;
          right_low = ucast (ucast right :: u32) :: u64;
          right_high = drop_bit 32 right;
          p0 = left_low * right_low;
          p1 = left_low * right_high;
          p2 = left_high * right_low;
          p3 = left_high * right_high;
          middle = drop_bit 32 p0 + ucast (ucast p1 :: u32) + ucast (ucast p2 :: u32)
      in p3 + drop_bit 32 p1 + drop_bit 32 p2 + drop_bit 32 middle)"

definition multi3 :: "arbor_wasm_u128 \<Rightarrow> arbor_wasm_u128 \<Rightarrow> arbor_wasm_u128" where
  "multi3 left right =
     (let a = union_words left; b = union_words right;
          low = words_low a * words_low b;
          low_high = arbor_mul64_high (words_low a) (words_low b);
          high = low_high + words_high a * words_low b + words_low a * words_high b
      in union_all \<lparr>words_low = low, words_high = high\<rparr>)"

definition arbor_u128_words_compare :: "arbor_wasm_u128_words \<Rightarrow> arbor_wasm_u128_words \<Rightarrow> int" where
  "arbor_u128_words_compare left right =
     (if words_high left < words_high right then - 1
      else if words_high left > words_high right then 1
      else if words_low left < words_low right then - 1
      else if words_low left > words_low right then 1
      else 0)"

definition arbor_u128_words_sub ::
    "arbor_wasm_u128_words \<Rightarrow> arbor_wasm_u128_words \<Rightarrow> arbor_wasm_u128_words" where
  "arbor_u128_words_sub left right =
     (let borrow = (if words_low left < words_low right then 1 else 0)
      in \<lparr>words_low = words_low left - words_low right,
          words_high = words_high left - words_high right - borrow\<rparr>)"

definition arbor_u128_words_shift_left_one :: "arbor_wasm_u128_words \<Rightarrow> arbor_wasm_u128_words" where
  "arbor_u128_words_shift_left_one v =
     \<lparr>words_low = push_bit 1 (words_low v),
      words_high = push_bit 1 (words_high v) OR drop_bit 63 (words_low v)\<rparr>"

definition arbor_u128_words_bit :: "arbor_wasm_u128_words \<Rightarrow> nat \<Rightarrow> u64" where
  "arbor_u128_words_bit v n =
     (if n \<ge> 64 then drop_bit (n - 64) (words_high v) AND 1 else drop_bit n (words_low v) AND 1)"

definition arbor_u128_words_set_bit :: "arbor_wasm_u128_words \<Rightarrow> nat \<Rightarrow> arbor_wasm_u128_words" where
  "arbor_u128_words_set_bit v n =
     (if n \<ge> 64 then v\<lparr>words_high := words_high v OR push_bit (n - 64) 1\<rparr>
      else v\<lparr>words_low := words_low v OR push_bit n 1\<rparr>)"

text \<open>One iteration for the bit \<open>i - 1\<close>; the loop runs \<open>i\<close> from 128 down to 1.\<close>

definition udivti3_step :: "arbor_wasm_u128_words \<Rightarrow> arbor_wasm_u128_words \<Rightarrow> nat \<Rightarrow>
    arbor_wasm_u128_words \<times> arbor_wasm_u128_words \<Rightarrow> arbor_wasm_u128_words \<times> arbor_wasm_u128_words" where
  "udivti3_step n d i = (\<lambda>(quotient, remainder).
     let b = i - 1;
         remainder = arbor_u128_words_shift_left_one remainder;
         remainder = remainder\<lparr>words_low := words_low remainder OR arbor_u128_words_bit n b\<rparr>
     in if arbor_u128_words_compare remainder d \<ge> 0
        then (arbor_u128_words_set_bit quotient b, arbor_u128_words_sub remainder d)
        else (quotient, remainder))"

primrec udivti3_loop :: "arbor_wasm_u128_words \<Rightarrow> arbor_wasm_u128_words \<Rightarrow> nat \<Rightarrow>
    arbor_wasm_u128_words \<times> arbor_wasm_u128_words \<Rightarrow> arbor_wasm_u128_words \<times> arbor_wasm_u128_words" where
  "udivti3_loop n d 0 state = state"
| "udivti3_loop n d (Suc i) state = udivti3_loop n d i (udivti3_step n d (Suc i) state)"

definition udivti3 :: "arbor_wasm_u128 \<Rightarrow> arbor_wasm_u128 \<Rightarrow> arbor_wasm_u128" where
  "udivti3 numerator denominator =
     (let n = union_words numerator; d = union_words denominator;
          zero = \<lparr>words_low = 0, words_high = 0\<rparr>
      in union_all (fst (udivti3_loop n d 128 (zero, zero))))"

section \<open>The two views\<close>

lemma union_all_int: "union_all w = word_of_int (uint (words_high w) * 2 ^ 64 + uint (words_low w))"
  by (simp add: union_all_def word_cat_eq push_bit_eq_mult mult.commute)

lemma union_words_all [simp]: "union_words (union_all w) = w"
proof -
  have "ucast (word_cat h l :: arbor_wasm_u128) = l" for h l :: u64
    by (rule bit_word_eqI) (simp add: bit_word_ucast_iff bit_word_cat_iff)
  moreover have "ucast (drop_bit 64 (word_cat h l :: arbor_wasm_u128)) = h" for h l :: u64
    by (rule bit_word_eqI) (simp add: bit_word_ucast_iff bit_word_cat_iff bit_drop_bit_eq)
  ultimately show ?thesis by (simp add: union_words_def union_all_def)
qed

lemma union_all_words [simp]: "union_all (union_words x) = x"
  unfolding union_words_def union_all_def
  by (rule bit_word_eqI) (auto simp: bit_word_ucast_iff bit_word_cat_iff bit_drop_bit_eq)

lemma uint_word_of_int_u128:
  "0 \<le> k \<Longrightarrow> k < 2 ^ 128 \<Longrightarrow> uint (word_of_int k :: arbor_wasm_u128) = k"
  by (simp add: uint_word_of_int_eq take_bit_int_eq_self)

lemma unat_union_all: "unat (union_all w) = unat (words_high w) * 2 ^ 64 + unat (words_low w)"
proof -
  have "uint (words_high w) < 2 ^ 64" "uint (words_low w) < 2 ^ 64"
    using uint_lt2p [of "words_high w"] uint_lt2p [of "words_low w"] by simp_all
  then have "0 \<le> uint (words_high w) * 2 ^ 64 + uint (words_low w)"
    and "uint (words_high w) * 2 ^ 64 + uint (words_low w) < 2 ^ 128"
    by simp_all
  then have "uint (union_all w) = uint (words_high w) * 2 ^ 64 + uint (words_low w)"
    unfolding union_all_int by (rule uint_word_of_int_u128)
  then have "int (unat (union_all w)) = int (unat (words_high w) * 2 ^ 64 + unat (words_low w))"
    by simp
  then show ?thesis by (simp only: of_nat_eq_iff)
qed

lemma word_of_int_u128_cong:
  "(word_of_int (z + k * 340282366920938463463374607431768211456) :: arbor_wasm_u128) = word_of_int z"
  by (simp only: word_of_int_eq_iff take_bit_eq_mod) simp

lemma high_wrap: "(word_of_int (x mod 2 ^ 64 * 2 ^ 64 + y) :: arbor_wasm_u128) = word_of_int (x * 2 ^ 64 + y)"
proof -
  have step: "(q * 2 ^ 64 + r) * 2 ^ 64 + y = r * 2 ^ 64 + y + q * 340282366920938463463374607431768211456"
    for q r :: int by simp
  show ?thesis
    using word_of_int_u128_cong [of "x mod 2 ^ 64 * 2 ^ 64 + y" "x div 2 ^ 64"]
    unfolding step [symmetric] div_mult_mod_eq by (rule sym)
qed

section \<open>Multiplication\<close>

lemma mul_high_split:
  fixes a b c d :: nat
  assumes "0 < B"
  shows "(a * B + b) * (c * B + d) div (B * B) =
    a * c + b * c div B + a * d div B + (b * d div B + b * c mod B + a * d mod B) div B"
proof -
  define p q where "p = b * c" and "q = a * d"
  have p: "p = p div B * B + p mod B" and q: "q = q div B * B + q mod B" by simp_all
  have "(a * B + b) * (c * B + d) = (B * (a * c) + (p + q)) * B + b * d"
    by (simp add: p_def q_def algebra_simps)
  then have "(a * B + b) * (c * B + d) div (B * B) = (B * (a * c) + (p + q) + b * d div B) div B"
    using assms by (simp add: div_mult2_eq)
  also have "B * (a * c) + (p + q) + b * d div B =
      (a * c + p div B + q div B) * B + (b * d div B + p mod B + q mod B)"
    by (subst p, subst q) (simp add: algebra_simps)
  also have "\<dots> div B = a * c + p div B + q div B + (b * d div B + p mod B + q mod B) div B"
    using assms by simp
  finally show ?thesis by (simp add: p_def q_def)
qed

lemma unat_low_half: "unat (ucast (ucast w :: u32) :: u64) = unat w mod 2 ^ 32" for w :: u64
  by (simp add: unsigned_ucast_eq take_bit_eq_mod unat_mod)

lemma unat_high_half: "unat (drop_bit 32 w) = unat w div 2 ^ 32" for w :: u64
  by (simp add: unsigned_drop_bit_eq drop_bit_eq_div unat_div)

lemma product_halves:
  fixes x y :: nat
  assumes "x \<le> 4294967295" and "y \<le> 4294967295"
  shows "x * y \<le> 18446744065119617025"
  using mult_le_mono [OF assms] by simp

lemma unat_u64_mult:
  "unat l * unat r < 18446744073709551616 \<Longrightarrow> unat (l * r) = unat l * unat r" for l r :: u64
  by (simp add: unat_word_ariths)

lemma unat_u64_plus:
  "unat l + unat r < 18446744073709551616 \<Longrightarrow> unat (l + r) = unat l + unat r" for l r :: u64
  by (simp add: unat_word_ariths)

lemma arbor_mul64_high_eq: "unat (arbor_mul64_high l r) = unat l * unat r div 2 ^ 64"
proof -
  define B :: nat where "B = 4294967296"
  define a b c d where "a = unat l div B" and "b = unat l mod B" and "c = unat r div B" and "d = unat r mod B"
  have "a \<le> 4294967295" "b \<le> 4294967295" "c \<le> 4294967295" "d \<le> 4294967295"
    using unat_u64_upper [of l] unat_u64_upper [of r]
    by (simp_all add: a_def b_def c_def d_def B_def less_mult_imp_div_less flip: less_Suc_eq_le)
  note le = product_halves [OF this(2,4)] product_halves [OF this(2,3)] product_halves [OF this(1,4)]
    product_halves [OF this(1,3)]
  have prod: "unat l * unat r div (B * B) =
      a * c + b * c div B + a * d div B + (b * d div B + b * c mod B + a * d mod B) div B"
    using mul_high_split [of B a b c d] by (simp add: a_def b_def c_def d_def B_def)
  let ?L = "ucast (ucast l :: u32) :: u64" and ?R = "ucast (ucast r :: u32) :: u64"
  let ?H = "drop_bit 32 l" and ?K = "drop_bit 32 r"
  have halves: "unat ?L = b" "unat ?H = a" "unat ?R = d" "unat ?K = c"
    by (simp_all only: unat_low_half unat_high_half) (simp_all add: a_def b_def c_def d_def B_def)
  have p: "unat (?L * ?R) = b * d" "unat (?L * ?K) = b * c" "unat (?H * ?R) = a * d" "unat (?H * ?K) = a * c"
    using le by (simp_all add: unat_u64_mult halves)
  have small: "u div B \<le> 4294967295" "u mod B \<le> 4294967295" if "u \<le> 18446744065119617025" for u
    using that div_le_mono [OF that, of B] by (simp_all add: B_def flip: less_Suc_eq_le)
  note s = small [OF le(1)] small [OF le(2)] small [OF le(3)] small [OF le(4)]
  define m where "m = b * d div B + b * c mod B + a * d mod B"
  have m: "unat (drop_bit 32 (?L * ?R) + ucast (ucast (?L * ?K) :: u32) + ucast (ucast (?H * ?R) :: u32)) = m"
    using s p by (simp add: unat_u64_plus unat_low_half unat_high_half m_def B_def)
  have "unat l * unat r div (B * B) < 18446744073709551616"
    using mult_le_mono [of "unat l" 18446744073709551615 "unat r" 18446744073709551615]
      unat_u64_upper [of l] unat_u64_upper [of r] by (simp add: B_def less_mult_imp_div_less)
  then have total: "a * c + b * c div B + a * d div B + m div B < 18446744073709551616"
    unfolding prod m_def .
  show ?thesis
    unfolding arbor_mul64_high_def Let_def
    using total p m prod [folded m_def]
    by (simp add: unat_u64_plus unat_high_half B_def)
qed

lemma uint_arbor_mul64_high: "uint (arbor_mul64_high l r) = uint l * uint r div 2 ^ 64"
proof -
  have "int (unat (arbor_mul64_high l r)) = int (unat l * unat r div 2 ^ 64)"
    by (simp only: arbor_mul64_high_eq)
  then show ?thesis by (simp add: zdiv_int)
qed

lemma multi3_words:
  "multi3 (union_all a) (union_all b) = union_all a * union_all b"
proof -
  let ?al = "uint (words_low a)" and ?ah = "uint (words_high a)"
  let ?bl = "uint (words_low b)" and ?bh = "uint (words_high b)"
  have high: "uint (arbor_mul64_high (words_low a) (words_low b) + words_high a * words_low b
      + words_low a * words_high b) = (?al * ?bl div 2 ^ 64 + ?ah * ?bl + ?al * ?bh) mod 2 ^ 64"
    by (simp add: uint_word_ariths uint_arbor_mul64_high mod_simps)
  have low: "uint (words_low a * words_low b) = ?al * ?bl mod 2 ^ 64"
    by (simp add: uint_word_ariths)
  have step: "(q + s + t) * 2 ^ 64 + r + u * 2 ^ 128 = (q * 2 ^ 64 + r) + (s + t) * 2 ^ 64 + u * 2 ^ 128"
    for q r s t u :: int by (simp add: algebra_simps)
  have expand: "(h * 2 ^ 64 + l) * (k * 2 ^ 64 + m) = (l * m + (h * m + l * k) * 2 ^ 64) + h * k * 2 ^ 128"
    for h l k m :: int by (simp add: algebra_simps)
  have "multi3 (union_all a) (union_all b) =
      word_of_int ((?al * ?bl div 2 ^ 64 + ?ah * ?bl + ?al * ?bh) * 2 ^ 64 + ?al * ?bl mod 2 ^ 64)"
    unfolding multi3_def Let_def union_words_all
    unfolding union_all_int arbor_wasm_u128_words.select_convs high low high_wrap by (rule refl)
  also have "(?al * ?bl div 2 ^ 64 + ?ah * ?bl + ?al * ?bh) * 2 ^ 64 + ?al * ?bl mod 2 ^ 64 =
      ?al * ?bl + (?ah * ?bl + ?al * ?bh) * 2 ^ 64"
  proof -
    have "q * 2 ^ 64 + r = x \<Longrightarrow> (q + s + t) * 2 ^ 64 + r = x + (s + t) * 2 ^ 64" for q r s t x :: int
      by (simp add: algebra_simps)
    then show ?thesis using div_mult_mod_eq by blast
  qed
  also have "word_of_int \<dots> = (word_of_int ((?ah * 2 ^ 64 + ?al) * (?bh * 2 ^ 64 + ?bl)) :: arbor_wasm_u128)"
    unfolding expand using word_of_int_u128_cong [of _ "?ah * ?bh"] by simp
  also have "\<dots> = union_all a * union_all b"
    unfolding union_all_int by (rule wi_hom_mult [symmetric])
  finally show ?thesis .
qed

lemma multi3_eq: "multi3 a b = a * b"
  using multi3_words [of "union_words a" "union_words b"] by simp

section \<open>Division\<close>

lemma uint_borrow: "uint (if c then 1 else 0 :: u64) = (if c then 1 else 0)"
  by simp

lemma union_all_sub: "union_all (arbor_u128_words_sub l r) = union_all l - union_all r"
proof -
  let ?ll = "uint (words_low l)" and ?lh = "uint (words_high l)"
  let ?rl = "uint (words_low r)" and ?rh = "uint (words_high r)"
  let ?b = "if words_low l < words_low r then 1 else 0 :: int"
  have "uint (words_low l - words_low r) = ?ll - ?rl + ?b * 2 ^ 64"
    by (simp add: uint_sub_if' word_less_def not_less)
  moreover have "uint (words_high l - words_high r - (if words_low l < words_low r then 1 else 0)) =
      (?lh - ?rh - ?b) mod 2 ^ 64"
    by (simp add: uint_word_ariths mod_simps)
  ultimately have "union_all (arbor_u128_words_sub l r) =
      word_of_int ((?lh - ?rh - ?b) * 2 ^ 64 + (?ll - ?rl + ?b * 2 ^ 64))"
    unfolding arbor_u128_words_sub_def Let_def union_all_int arbor_wasm_u128_words.select_convs
    by (simp only: high_wrap)
  also have "(?lh - ?rh - ?b) * 2 ^ 64 + (?ll - ?rl + ?b * 2 ^ 64) =
      (?lh * 2 ^ 64 + ?ll) - (?rh * 2 ^ 64 + ?rl)"
    by (simp add: algebra_simps)
  also have "word_of_int \<dots> = union_all l - union_all r"
    unfolding union_all_int by (rule wi_hom_sub [symmetric])
  finally show ?thesis .
qed

lemma bit_union_all:
  "bit (union_all w) n \<longleftrightarrow> (if n < 64 then bit (words_low w) n else bit (words_high w) (n - 64))"
  using bit_imp_le_length [of "words_high w" "n - 64"]
  by (auto simp: union_all_def bit_word_cat_iff)

lemma bit_twice: "bit (a * 2) n \<longleftrightarrow> 0 < n \<and> n < LENGTH('a) \<and> bit a (n - 1)" for a :: "'a::len word"
  using bit_double_iff [of a n] by (auto simp: mult.commute possible_bit_word)

lemma union_all_shift: "union_all (arbor_u128_words_shift_left_one v) = push_bit 1 (union_all v)"
proof (rule bit_word_eqI)
  fix n assume "n < LENGTH(128)"
  then show "bit (union_all (arbor_u128_words_shift_left_one v)) n = bit (push_bit 1 (union_all v)) n"
    by (cases "n = 64") (auto simp: bit_union_all arbor_u128_words_shift_left_one_def bit_or_iff bit_twice
      bit_drop_bit_eq dest: bit_imp_le_length)
qed

lemma arbor_u128_words_bit_eq: "arbor_u128_words_bit v n = of_bool (bit (union_all v) n)"
  by (rule bit_word_eqI) (auto simp: arbor_u128_words_bit_def bit_union_all bit_and_iff bit_drop_bit_eq
    bit_1_iff bit_of_bool_iff)

lemma union_all_set_bit:
  "n < 128 \<Longrightarrow> union_all (arbor_u128_words_set_bit v n) = union_all v OR push_bit n 1"
  by (rule bit_word_eqI) (auto simp: arbor_u128_words_set_bit_def bit_union_all bit_or_iff bit_exp_iff)

lemma union_all_or_low:
  "union_all (v\<lparr>words_low := words_low v OR of_bool b\<rparr>) = union_all v OR of_bool b"
  by (rule bit_word_eqI) (auto simp: bit_union_all bit_or_iff bit_of_bool_iff)

lemma arbor_u128_words_compare_ge: "arbor_u128_words_compare l r \<ge> 0 \<longleftrightarrow> union_all r \<le> union_all l"
proof -
  have lex: "(if h < k then False else if k < h then True else if a < b then False else True) \<longleftrightarrow>
      k * 2 ^ 64 + b \<le> h * 2 ^ 64 + a"
    if "a < 18446744073709551616" "b < 18446744073709551616" for h k a b :: nat
    using that by auto
  show ?thesis
    unfolding word_le_nat_alt unat_union_all lex [symmetric, OF unat_u64_upper unat_u64_upper]
    by (auto simp: arbor_u128_words_compare_def word_less_nat_alt)
qed

definition udivti3_invariant :: "nat \<Rightarrow> nat \<Rightarrow> nat \<Rightarrow> arbor_wasm_u128_words \<times> arbor_wasm_u128_words \<Rightarrow> bool" where
  "udivti3_invariant n d i = (\<lambda>(q, r).
     unat (union_all q) = n div 2 ^ i div d * 2 ^ i \<and> unat (union_all r) = n div 2 ^ i mod d)"

lemma long_division_step:
  fixes n d i :: nat
  assumes "0 < d"
  defines "R \<equiv> 2 * (n div 2 ^ Suc i mod d) + of_bool (bit n i)"
  shows "n div 2 ^ i div d = 2 * (n div 2 ^ Suc i div d) + of_bool (d \<le> R)"
    and "n div 2 ^ i mod d = (if d \<le> R then R - d else R)"
proof -
  define M where "M = n div 2 ^ Suc i"
  have "M = n div 2 ^ i div 2" by (simp add: M_def div_mult2_eq power_Suc2 del: power_Suc)
  then have "n div 2 ^ i = 2 * M + of_bool (bit n i)"
    using div_mult_mod_eq [of "n div 2 ^ i" 2] by (simp add: bit_iff_odd mod_2_eq_odd)
  moreover have "2 * M = d * (2 * (M div d)) + 2 * (M mod d)"
    by (metis distrib_left mult.left_commute mult_div_mod_eq)
  ultimately have M: "n div 2 ^ i = d * (2 * (M div d)) + R"
    unfolding R_def M_def [symmetric] by linarith
  have "R < 2 * d"
    using mod_less_divisor [OF assms(1), of M] unfolding R_def M_def [symmetric]
    by (cases "bit n i") simp_all
  then have "R div d = of_bool (d \<le> R)" "R mod d = (if d \<le> R then R - d else R)"
    using assms(1) by (auto simp: div_nat_eqI mod_if le_mod_geq)
  then show "n div 2 ^ i div d = 2 * (n div 2 ^ Suc i div d) + of_bool (d \<le> R)"
    and "n div 2 ^ i mod d = (if d \<le> R then R - d else R)"
    using assms(1) unfolding M M_def [symmetric] by simp_all
qed

lemma shifted_remainder:
  fixes r :: arbor_wasm_u128
  assumes "unat r < 2 ^ 127"
  shows "unat (push_bit 1 r OR of_bool b) = 2 * unat r + of_bool b"
proof -
  have "push_bit 1 r OR of_bool b = push_bit 1 r + of_bool b"
    by (rule disjunctive_add [symmetric]) (auto simp: bit_twice bit_of_bool_iff)
  moreover have "unat (push_bit 1 r) = 2 * unat r"
    using assms by (simp add: unat_word_ariths)
  ultimately show ?thesis
    using assms by (simp add: unat_word_ariths)
qed

lemma quotient_set_bit:
  fixes q :: arbor_wasm_u128
  assumes "unat q = Q * 2 ^ Suc i" and "i < 128"
  shows "unat (q OR push_bit i 1) = (2 * Q + 1) * 2 ^ i"
proof -
  have "unat (push_bit i (1 :: arbor_wasm_u128)) = push_bit i 1"
    using power_strict_increasing [OF assms(2), of "2 :: nat"] unat_of_nat [of "2 ^ i", where ?'a = 128]
    by simp
  then have "unat (q OR push_bit i 1) = push_bit i (2 * Q) OR push_bit i 1"
    unfolding unsigned_or_eq assms(1) by (simp add: push_bit_eq_mult mult.assoc mult.commute mult.left_commute)
  also have "\<dots> = push_bit i (2 * Q OR 1)" by (rule push_bit_or [symmetric])
  also have "2 * Q OR 1 = 2 * Q + 1" unfolding or_one_eq by simp
  finally show ?thesis by (simp add: push_bit_eq_mult)
qed

lemma udivti3_step_invariant:
  assumes "0 < unat (union_all d)" and "i < 128"
    and "udivti3_invariant (unat (union_all n)) (unat (union_all d)) (Suc i) (q, r)"
  shows "udivti3_invariant (unat (union_all n)) (unat (union_all d)) i (udivti3_step n d (Suc i) (q, r))"
proof -
  define N D where "N = unat (union_all n)" and "D = unat (union_all d)"
  note inv = assms(3) [unfolded udivti3_invariant_def prod.case, folded N_def D_def]
  define R where "R = 2 * (N div 2 ^ Suc i mod D) + of_bool (bit N i)"
  note div = long_division_step [OF assms(1) [folded D_def], of N i, folded R_def]
  define s where "s = (arbor_u128_words_shift_left_one r)\<lparr>words_low :=
      words_low (arbor_u128_words_shift_left_one r) OR arbor_u128_words_bit n i\<rparr>"
  have "N < 2 ^ 128" using unsigned_less [of "union_all n", where ?'a = nat] by (simp add: N_def)
  moreover have "N div 2 ^ Suc i \<le> N div 2" by (intro div_le_mono2) simp_all
  ultimately have "N div 2 ^ Suc i < 2 ^ 127" by simp
  then have "unat (union_all r) < 2 ^ 127"
    using inv mod_less_eq_dividend [of "N div 2 ^ Suc i" D] by linarith
  then have "unat (union_all s) = R"
    unfolding s_def arbor_u128_words_bit_eq union_all_or_low union_all_shift R_def
    by (subst shifted_remainder) (simp_all add: inv N_def bit_unsigned_iff)
  then have ge: "0 \<le> arbor_u128_words_compare s d \<longleftrightarrow> D \<le> R"
    by (simp add: arbor_u128_words_compare_ge word_le_nat_alt D_def)
  have step: "udivti3_step n d (Suc i) (q, r) =
      (if D \<le> R then (arbor_u128_words_set_bit q i, arbor_u128_words_sub s d) else (q, s))"
    by (simp add: udivti3_step_def Let_def ge flip: s_def)
  have "unat (union_all s - union_all d) = R - D" if "D \<le> R"
    using that \<open>unat (union_all s) = R\<close> by (simp add: unat_sub word_le_nat_alt D_def)
  moreover have "unat (union_all (arbor_u128_words_set_bit q i)) = (2 * (N div 2 ^ Suc i div D) + 1) * 2 ^ i"
    unfolding union_all_set_bit [OF assms(2)] by (rule quotient_set_bit) (use inv assms(2) in simp_all)
  ultimately show ?thesis
    using \<open>unat (union_all s) = R\<close> inv
    unfolding udivti3_invariant_def N_def [symmetric] D_def [symmetric] step div
    by (simp add: union_all_sub)
qed

lemma udivti3_loop_invariant:
  assumes "0 < unat (union_all d)" and "i \<le> 128"
    and "udivti3_invariant (unat (union_all n)) (unat (union_all d)) i state"
  shows "udivti3_invariant (unat (union_all n)) (unat (union_all d)) 0 (udivti3_loop n d i state)"
  using assms(2,3)
proof (induction i arbitrary: state)
  case (Suc i)
  obtain q r where "state = (q, r)" by (cases state)
  then show ?case
    using Suc udivti3_step_invariant [OF assms(1), of i n q r] by simp
qed simp

lemma udivti3_eq:
  assumes "b \<noteq> 0"
  shows "udivti3 a b = a div b"
proof -
  let ?zero = "\<lparr>words_low = 0, words_high = 0\<rparr>"
  have "unat a < 2 ^ 128" using unsigned_less [of a, where ?'a = nat] by simp
  then have "udivti3_invariant (unat a) (unat b) 128 (?zero, ?zero)"
    by (simp add: udivti3_invariant_def unat_union_all)
  then have "udivti3_invariant (unat a) (unat b) 0
      (udivti3_loop (union_words a) (union_words b) 128 (?zero, ?zero))"
    using udivti3_loop_invariant [of "union_words b" 128 "union_words a"] assms
    by (simp add: unat_gt_0)
  then show ?thesis
    by (simp add: udivti3_def Let_def udivti3_invariant_def split_beta word_unat_eq_iff unat_div)
qed

end
