(* ===== verification/Geometry_Properties.thy ===== *)
theory Geometry_Properties
  imports Device Rotation Int128
begin

text \<open>
  The properties of the fixed-point and geometry code, each over the functions of the source,
  with a witness at concrete values where it has a hypothesis.
\<close>

section \<open>Fixed point\<close>

text \<open>C1: In every rounding mode the general 128-by-128-bit division delivers exactly the rounded
  quotient, or OVERFLOW when that quotient does not fit \<open>int64_t\<close>, for all signs and the full range
  of both operands.\<close>

theorem division_rounds_exactly:
  assumes "in_i128 n" and "in_i128 d" and "d \<noteq> 0" and "arbor_rounding_mode_valid mode"
  shows "arbor_round_div_i128_to_i64 n d mode Out =
    (let q = (case mode of
        ARBOR_ROUND_FLOOR \<Rightarrow> n div d
      | ARBOR_ROUND_CEIL \<Rightarrow> - ((- n) div d)
      | ARBOR_ROUND_NEAREST_EVEN \<Rightarrow> round_half_even n d
      | _ \<Rightarrow> sgn n * sgn d * (\<bar>n\<bar> div \<bar>d\<bar>))
     in if in_i64 q then Inr (word_of_int q) else Inl ARBOR_GEOMETRY_OVERFLOW)"
  unfolding arbor_round_div_i128_to_i64_exact [OF assms] deliver_i64_def round_exact_def c_div_def Let_def
  by (rule refl)

theorem division_rounds_exactly_witness:
  "arbor_round_div_i128_to_i64 (- 7) 2 ARBOR_ROUND_NEAREST_EVEN Out = Inr (- 4) \<and>
   arbor_round_div_i128_to_i64 (- 7) 2 ARBOR_ROUND_FLOOR Out = Inr (- 4) \<and>
   arbor_round_div_i128_to_i64 (- 7) 2 ARBOR_ROUND_TOWARD_ZERO Out = Inr (- 3)"
  using division_rounds_exactly [of "- 7" 2 ARBOR_ROUND_NEAREST_EVEN]
    division_rounds_exactly [of "- 7" 2 ARBOR_ROUND_FLOOR]
    division_rounds_exactly [of "- 7" 2 ARBOR_ROUND_TOWARD_ZERO]
  by (simp add: in_i128_def in_i64_def arbor_rounding_mode_valid_def round_half_even_def Let_def)

text \<open>C2: The three reductions the build can choose (the x86-64 \<open>div\<close> instruction, the portable
  128-bit fallback, the generic division of WebAssembly) agree on every numerator the code can form.\<close>

theorem reductions_agree:
  assumes "in_i128 n" and "n \<noteq> - (2 ^ 127)" and "d \<noteq> 0"
  shows "arbor_coord_from_i128_divisor_hot X86_64 n d Out = arbor_coord_from_i128_divisor_hot Wasm n d Out \<and>
    arbor_coord_from_i128_divisor_hot Native_Other n d Out = arbor_coord_from_i128_divisor_hot Wasm n d Out"
  by (simp only: divisor_hot.reduce_exact [OF assms])

theorem reductions_agree_witness:
  "arbor_coord_from_i128_divisor_hot X86_64 (- 5) 2 Out = arbor_coord_from_i128_divisor_hot Wasm (- 5) 2 Out \<and>
   arbor_coord_from_i128_divisor_hot Wasm (- 5) 2 Out = Inr (- 2)"
  using reductions_agree [of "- 5" 2] divisor_hot.reduce_exact [of "- 5" 2 Wasm]
  by (simp add: in_i128_def in_i64_def deliver_i64_def round_half_even_def Let_def)

text \<open>C3: Multiplication of coordinates returns the Q32.32 value nearest to the exact product, the even
  one on a tie, and reports OVERFLOW exactly when no such 64-bit value exists.\<close>

theorem multiplication_nearest:
  "case arbor_coord_mul a b Out of
     Inr c \<Rightarrow> nearest_even (sint a * sint b) ARBOR_Q32_SCALE_I128 (sint c)
   | Inl e \<Rightarrow> e = ARBOR_GEOMETRY_OVERFLOW \<and>
       \<not> (\<exists>c :: i64. nearest_even (sint a * sint b) ARBOR_Q32_SCALE_I128 (sint c))"
proof -
  have near: "nearest_even (sint a * sint b) ARBOR_Q32_SCALE_I128
      (round_half_even (sint a * sint b) ARBOR_Q32_SCALE_I128)"
    by (rule round_half_even_nearest) simp
  then show ?thesis
    using nearest_even_unique [OF near, of "sint c" for c :: i64]
    unfolding arbor_coord_mul_exact deliver_i64_def
    by (auto simp: in_i64_sint)
qed

text \<open>Division of coordinates by a nonzero divisor is correctly rounded on every build target, and
  reports OVERFLOW exactly when the rounded quotient is not representable.\<close>

theorem division_nearest:
  assumes "b \<noteq> 0"
  shows "case arbor_coord_div target a b Out of
     Inr c \<Rightarrow> nearest_even (sint a * ARBOR_Q32_SCALE_I128) (sint b) (sint c)
   | Inl e \<Rightarrow> e = ARBOR_GEOMETRY_OVERFLOW \<and>
       \<not> (\<exists>c :: i64. nearest_even (sint a * ARBOR_Q32_SCALE_I128) (sint b) (sint c))"
proof -
  have near: "nearest_even (sint a * ARBOR_Q32_SCALE_I128) (sint b)
      (round_half_even (sint a * ARBOR_Q32_SCALE_I128) (sint b))"
    using assms by (intro round_half_even_nearest) simp
  have uniq: "sint c = round_half_even (sint a * ARBOR_Q32_SCALE_I128) (sint b)"
    if "nearest_even (sint a * ARBOR_Q32_SCALE_I128) (sint b) (sint c)" for c :: i64
    using nearest_even_unique [OF that near] assms by simp
  show ?thesis
    unfolding arbor_coord_div_exact [OF assms] deliver_i64_def
    using near uniq by (auto simp: in_i64_sint)
qed

theorem division_nearest_witness:
  "arbor_coord_div X86_64 4294967296 (- 8589934592) Out = Inr (- 2147483648) \<and>
   nearest_even (4294967296 * ARBOR_Q32_SCALE_I128) (- 8589934592) (- 2147483648)"
  using division_nearest [where b = "- 8589934592" and target = X86_64 and a = 4294967296]
  by (simp add: arbor_coord_div_exact deliver_i64_def in_i64_def round_half_even_def Let_def)

text \<open>C4: Checked addition, subtraction, negation and absolute value never wrap: each returns the exact
  integer when it fits 64 bits and OVERFLOW otherwise.\<close>

theorem checked_arithmetic_exact:
  "arbor_coord_add a b Out = (let k = sint a + sint b in
     if in_i64 k then Inr (word_of_int k) else Inl ARBOR_GEOMETRY_OVERFLOW) \<and>
   arbor_coord_sub a b Out = (let k = sint a - sint b in
     if in_i64 k then Inr (word_of_int k) else Inl ARBOR_GEOMETRY_OVERFLOW) \<and>
   arbor_coord_neg a Out = (let k = - sint a in
     if in_i64 k then Inr (word_of_int k) else Inl ARBOR_GEOMETRY_OVERFLOW) \<and>
   arbor_coord_abs a Out = (let k = \<bar>sint a\<bar> in
     if in_i64 k then Inr (word_of_int k) else Inl ARBOR_GEOMETRY_OVERFLOW)"
  unfolding coord_exact deliver_i64_def Let_def by blast

text \<open>An integer converted to a coordinate converts back to itself in every rounding mode.\<close>

theorem integer_round_trip:
  assumes "arbor_coord_from_integer k Out = Inr c" and "arbor_rounding_mode_valid mode"
  shows "arbor_coord_to_integer c mode Out = Inr k"
proof -
  have c: "sint c = sint k * ARBOR_Q32_SCALE_I128"
    using assms(1) by (simp add: arbor_coord_from_integer_exact deliver_i64_Inr_iff)
  have "round_exact mode (sint k * ARBOR_Q32_SCALE_I128) ARBOR_Q32_SCALE_I128 = sint k"
    by (cases mode) (simp_all add: round_exact_def c_div_def abs_mult sgn_mult abs_sgn minus_mult_left
      mult_sgn_abs del: mult_minus_left)
  then show ?thesis
    by (simp add: arbor_coord_to_integer_exact [OF assms(2)] c)
qed

theorem integer_round_trip_witness:
  "arbor_coord_to_integer (- 8589934592) ARBOR_ROUND_CEIL Out = Inr (- 2)"
  using integer_round_trip [of "- 2" "- 8589934592" ARBOR_ROUND_CEIL]
  by (simp add: arbor_coord_from_integer_exact deliver_i64_def in_i64_def arbor_rounding_mode_valid_def)

section \<open>Rectangles\<close>

text \<open>C5: Intersecting two valid rectangles always succeeds, and a point lies in the result exactly when
  \<open>contains_point\<close> accepts it for both; the visibility flag is set exactly when such a point exists.\<close>

theorem intersection_is_set_intersection:
  assumes "rect_valid l" and "rect_valid r"
  shows "\<exists>q v. arbor_rect_intersection l r Out Out = Inr (q, v) \<and>
    (\<forall>p. arbor_rect_contains_point q p \<longleftrightarrow> arbor_rect_contains_point l p \<and> arbor_rect_contains_point r p) \<and>
    (v \<longleftrightarrow> rect_region l \<inter> rect_region r \<noteq> {})"
  using arbor_rect_intersection_exact [OF assms] assms
  by (metis Int_iff arbor_rect_contains_point_region)

definition unit_rect :: arbor_rect where
  "unit_rect = \<lparr>rect_x = 0, rect_y = 0, rect_width = 2, rect_height = 2\<rparr>"

lemma unit_rect_valid: "rect_valid unit_rect"
  by (simp add: unit_rect_def rect_valid_def rect_right_def rect_bottom_def)

theorem intersection_is_set_intersection_witness:
  "\<exists>q v. arbor_rect_intersection unit_rect unit_rect Out Out = Inr (q, v) \<and>
    (\<forall>p. arbor_rect_contains_point q p \<longleftrightarrow> arbor_rect_contains_point unit_rect p)"
  using intersection_is_set_intersection [OF unit_rect_valid unit_rect_valid] by blast

text \<open>The union of two valid rectangles is the least valid rectangle around both; OVERFLOW is reported
  exactly when no valid rectangle contains both.\<close>

theorem union_is_least:
  assumes "rect_valid l" and "rect_valid r"
  shows "case arbor_rect_union l r Out of
      Inr u \<Rightarrow> rect_valid u \<and> rect_within l u \<and> rect_within r u \<and>
        (\<forall>q. rect_valid q \<and> rect_within l q \<and> rect_within r q \<longrightarrow> rect_within u q)
    | Inl e \<Rightarrow> e = ARBOR_GEOMETRY_OVERFLOW \<and>
        \<not> (\<exists>q. rect_valid q \<and> rect_within l q \<and> rect_within r q)"
  by (rule arbor_rect_union_exact [OF assms])

theorem union_is_least_witness:
  "case arbor_rect_union unit_rect unit_rect Out of
      Inr u \<Rightarrow> rect_within unit_rect u | Inl e \<Rightarrow> e = ARBOR_GEOMETRY_OVERFLOW"
  using union_is_least [OF unit_rect_valid unit_rect_valid] by (simp split: sum.splits)

section \<open>Affine maps\<close>

text \<open>Composing affine maps has the identity as unit on both sides, composing translations adds them
  whenever the sums fit, and transforming a point by a translation is translating the point.\<close>

theorem affine_laws:
  "arbor_affine_compose arbor_affine_identity m Out = Inr m \<and>
   arbor_affine_compose m arbor_affine_identity Out = Inr m \<and>
   arbor_affine_transform_point (arbor_affine_translation tx ty) p Out =
     arbor_point_translate p \<lparr>pt_x = tx, pt_y = ty\<rparr> Out"
  by (simp add: compose_identity_left compose_identity_right transform_by_translation)

text \<open>C6: Inversion reports SINGULAR exactly when the exact determinant is zero; otherwise the linear part it
  returns is the adjugate over the determinant, each entry rounded to nearest even.\<close>

theorem inversion_exact:
  "(arbor_affine_invert m Out = Inl ARBOR_GEOMETRY_SINGULAR \<longleftrightarrow> affine_det m = 0) \<and>
   (\<forall>i. arbor_affine_invert m Out = Inr i \<longrightarrow>
     nearest_even (sint (aff_d m) * ARBOR_Q64_SCALE_I128) (affine_det m) (sint (aff_a i)) \<and>
     nearest_even (sint (aff_b m) * ARBOR_Q64_SCALE_I128) (affine_det m) (- sint (aff_b i)) \<and>
     nearest_even (sint (aff_c m) * ARBOR_Q64_SCALE_I128) (affine_det m) (- sint (aff_c i)) \<and>
     nearest_even (sint (aff_a m) * ARBOR_Q64_SCALE_I128) (affine_det m) (sint (aff_d i)))"
proof (intro conjI allI impI)
  show "arbor_affine_invert m Out = Inl ARBOR_GEOMETRY_SINGULAR \<longleftrightarrow> affine_det m = 0"
    by (auto simp: arbor_affine_invert_exact Let_def then_ok_Inl_iff deliver_i64_def split: if_splits)
  fix i
  assume i: "arbor_affine_invert m Out = Inr i"
  have near: "nearest_even (k * ARBOR_Q64_SCALE_I128) (affine_det m) (q64_ratio k (affine_det m))"
    if "affine_det m \<noteq> 0" for k
    unfolding q64_ratio_def by (rule round_half_even_nearest [OF that])
  have entries: "affine_det m \<noteq> 0 \<and> q64_ratio (sint (aff_d m)) (affine_det m) = sint (aff_a i) \<and>
      q64_ratio (sint (aff_b m)) (affine_det m) = - sint (aff_b i) \<and>
      q64_ratio (sint (aff_c m)) (affine_det m) = - sint (aff_c i) \<and>
      q64_ratio (sint (aff_a m)) (affine_det m) = sint (aff_d i)"
    using i by (auto simp: arbor_affine_invert_exact Let_def then_ok_Inr_iff deliver_i64_Inr_iff split: if_splits)
  then show "nearest_even (sint (aff_d m) * ARBOR_Q64_SCALE_I128) (affine_det m) (sint (aff_a i))"
    and "nearest_even (sint (aff_b m) * ARBOR_Q64_SCALE_I128) (affine_det m) (- sint (aff_b i))"
    and "nearest_even (sint (aff_c m) * ARBOR_Q64_SCALE_I128) (affine_det m) (- sint (aff_c i))"
    and "nearest_even (sint (aff_a m) * ARBOR_Q64_SCALE_I128) (affine_det m) (sint (aff_d i))"
    using near by metis+
qed

theorem inversion_exact_witness:
  "arbor_affine_invert (arbor_affine_translation 1 2) Out = Inr (arbor_affine_translation (- 1) (- 2)) \<and>
   nearest_even (ARBOR_Q32_SCALE_I128 * ARBOR_Q64_SCALE_I128) ARBOR_Q64_SCALE_I128 ARBOR_Q32_SCALE_I128"
  using inversion_exact [of "arbor_affine_translation 1 2"] invert_translation [of 1 2]
  by (simp add: affine_det_def arbor_affine_translation_def arbor_affine_identity_def)

text \<open>C7: The bounding rectangle of a transformed rectangle contains the image of every point of it, and every
  such point transforms without overflow.\<close>

theorem transformed_bounds_contain_image:
  assumes "arbor_affine_transform_rect_bounds m r Out = Inr q" and "point_in_closed p r"
  shows "\<exists>p'. arbor_affine_transform_point m p Out = Inr p' \<and> point_in_closed p' q"
  by (rule rect_bounds_contain_image [OF assms])

lemma shifted_unit_bounds:
  "arbor_affine_transform_rect_bounds (arbor_affine_translation 5 5) unit_rect Out =
     Inr \<lparr>rect_x = 5, rect_y = 5, rect_width = 2, rect_height = 2\<rparr>"
proof -
  have "arbor_rect_edges unit_rect Out Out = Inr (2, 2)"
    by (simp add: arbor_rect_edges_def unit_rect_def coord_exact deliver_i64_def in_i64_def)
  then show ?thesis
    by (simp add: arbor_affine_transform_rect_bounds_def transform_by_translation arbor_point_translate_def
      coord_exact deliver_i64_def in_i64_def unit_rect_def rect_from_edges_exact extent_ok_def)
qed

theorem transformed_bounds_contain_image_witness:
  "\<exists>p'. arbor_affine_transform_point (arbor_affine_translation 5 5) \<lparr>pt_x = 1, pt_y = 2\<rparr> Out = Inr p' \<and>
    point_in_closed p' \<lparr>rect_x = 5, rect_y = 5, rect_width = 2, rect_height = 2\<rparr>"
  using transformed_bounds_contain_image [OF shifted_unit_bounds, of "\<lparr>pt_x = 1, pt_y = 2\<rparr>"]
  by (simp add: point_in_closed_def unit_rect_def rect_right_def rect_bottom_def)

text \<open>C8: Building a rotation never fails for any angle, and the matrix is a rotation up to its last bits: equal
  diagonal entries, opposite off-diagonal ones, no translation, and a determinant within \<open>2 ^ 34\<close> of \<open>2 ^ 64\<close>.\<close>

theorem rotation_total_and_norm:
  "\<exists>m. arbor_affine_rotation_turns turns Out = Inr m \<and> aff_d m = aff_a m \<and>
     sint (aff_c m) = - sint (aff_b m) \<and> aff_tx m = 0 \<and> aff_ty m = 0 \<and>
     \<bar>sint (aff_a m) * sint (aff_d m) - sint (aff_b m) * sint (aff_c m) - 2 ^ 64\<bar> \<le> 2 ^ 34"
  using arbor_affine_rotation_turns_rotates [of turns] by (simp only: is_rotation_def affine_det_def)

section \<open>Device scales\<close>

text \<open>Composing two scales in lowest terms returns the product fraction in lowest terms whenever its parts fit
  \<open>INT64_MAX\<close>, and OVERFLOW exactly when they do not.\<close>

theorem scale_composition_exact:
  assumes "reduced_scale l" and "reduced_scale r"
  shows "case arbor_device_scale_compose l r Out of
      Inr s \<Rightarrow> reduced_scale s \<and> product_ratio s l r
    | Inl e \<Rightarrow> e = ARBOR_GEOMETRY_OVERFLOW \<and> \<not> (\<exists>s. reduced_scale s \<and> product_ratio s l r)"
  using arbor_device_scale_compose_Inr_iff [OF assms] arbor_device_scale_compose_total [OF assms]
  by (auto split: sum.splits)

theorem scale_composition_exact_witness:
  "case arbor_device_scale_compose \<lparr>scale_numerator = 3, scale_denominator = 2\<rparr>
      \<lparr>scale_numerator = 4, scale_denominator = 3\<rparr> Out of
      Inr s \<Rightarrow> reduced_scale s | Inl e \<Rightarrow> e = ARBOR_GEOMETRY_OVERFLOW"
  using scale_composition_exact [of "\<lparr>scale_numerator = 3, scale_denominator = 2\<rparr>"
      "\<lparr>scale_numerator = 4, scale_denominator = 3\<rparr>"]
  by (simp add: reduced_scale_def coprime_iff_gcd_eq_1 gcd_non_0_nat split: sum.splits)

text \<open>C9: Device rectangles of logical rectangles that share a vertical edge share the mapped edge: the right edge of
  the left one is the left edge of the right one, with no gap and no overlap, and widths are never negative.\<close>

theorem device_rectangles_tile:
  assumes "scale_in_range (map_scale m)"
    and "arbor_device_map_rect_bounds m r Out = Inr d" and "arbor_device_map_rect_bounds m s Out = Inr e"
    and "sint (lrect_x s) = sint (lrect_x r) + sint (lrect_width r)"
  shows "sint (drect_x e) = sint (drect_x d) + sint (drect_width d) \<and> 0 \<le> sint (drect_width d)"
proof
  show "0 \<le> sint (drect_width d)"
    using arbor_device_map_rect_bounds_Inr [OF assms(1,2)] by blast
  show "sint (drect_x e) = sint (drect_x d) + sint (drect_width d)"
    using arbor_device_map_rect_bounds_Inr [OF assms(1,2)] arbor_device_map_rect_bounds_Inr [OF assms(1,3)] assms(4)
    by (auto simp: arbor_device_map_point_Inr_iff [OF assms(1)])
qed

definition plain_map :: arbor_device_map where
  "plain_map = \<lparr>map_scale = \<lparr>scale_numerator = 3, scale_denominator = 2\<rparr>, map_origin_x = 0, map_origin_y = 0\<rparr>"

definition strip :: "arbor_coord \<Rightarrow> arbor_logical_rect" where
  "strip x = \<lparr>lrect_x = x, lrect_y = 0, lrect_width = 1, lrect_height = 1\<rparr>"

lemma plain_map_range: "scale_in_range (map_scale plain_map)"
  by (simp add: plain_map_def scale_in_range_def)

lemma plain_map_strips:
  "arbor_device_map_rect_bounds plain_map (strip 1) Out =
     Inr \<lparr>drect_x = 2, drect_y = 0, drect_width = 1, drect_height = 2\<rparr>"
  "arbor_device_map_rect_bounds plain_map (strip 2) Out =
     Inr \<lparr>drect_x = 3, drect_y = 0, drect_width = 1, drect_height = 2\<rparr>"
  by (simp_all add: arbor_device_map_rect_bounds_def arbor_device_map_point_def plain_map_def strip_def
    arbor_device_scale_coord_exact scale_in_range_def scaled_exact_def coord_exact deliver_i64_def in_i64_def
    round_half_even_def Let_def)

theorem device_rectangles_tile_witness: "sint (3 :: i64) = sint (2 :: i64) + sint (1 :: i64)"
  using device_rectangles_tile [OF plain_map_range plain_map_strips] by (simp add: strip_def)

section \<open>128-bit builtins\<close>

text \<open>C10: The WebAssembly builtins compute 128-bit multiplication modulo \<open>2 ^ 128\<close> for all operands and 128-bit
  division for every nonzero divisor.\<close>

theorem wasm_builtins_exact:
  "multi3 a b = a * b \<and> (d \<noteq> 0 \<longrightarrow> udivti3 n d = n div d)"
  by (simp add: multi3_eq udivti3_eq)

theorem wasm_builtins_exact_witness: "udivti3 (2 ^ 100 + 5) (2 ^ 70) = 2 ^ 30"
  using wasm_builtins_exact [of 0 0 "2 ^ 70" "2 ^ 100 + 5"] by simp

end
