(* ===== verification/Color.thy ===== *)
theory Color
  imports Rounding
begin

text \<open>
  The colour arithmetic of \<open>src/c/renderer.c\<close> on premultiplied 16-bit linear-light pixels:
  multiplication of unsigned fractions, coverage, source-over compositing, and the sRGB
  conversions with the frozen table of \<open>renderer/srgb8_linear16_lut.h\<close>. Each fraction routine is
  shown to round exactly half to even; compositing keeps pixels premultiplied.
\<close>

record arbor_rgba8_srgb =
  srgb_r :: u8
  srgb_g :: u8
  srgb_b :: u8
  srgb_a :: u8

record arbor_rgba16 =
  px_r :: u16
  px_g :: u16
  px_b :: u16
  px_a :: u16

type_synonym arbor_coverage = u64

abbreviation ARBOR_COVERAGE_ONE :: nat where "ARBOR_COVERAGE_ONE \<equiv> 4294967296"

definition arbor_srgb8_to_linear16 :: "nat list" where
  "arbor_srgb8_to_linear16 =
    [
     0, 20, 40, 60, 80, 99, 119, 139, 159, 179, 199, 219, 241, 264, 288, 313,
     340, 367, 396, 427, 458, 491, 526, 562, 599, 637, 677, 718, 761, 805, 851, 898,
     947, 997, 1048, 1101, 1156, 1212, 1270, 1330, 1391, 1453, 1517, 1583, 1651, 1720, 1790, 1863,
     1937, 2013, 2090, 2170, 2250, 2333, 2418, 2504, 2592, 2681, 2773, 2866, 2961, 3058, 3157, 3258,
     3360, 3464, 3570, 3678, 3788, 3900, 4014, 4129, 4247, 4366, 4488, 4611, 4736, 4864, 4993, 5124,
     5257, 5392, 5530, 5669, 5810, 5953, 6099, 6246, 6395, 6547, 6700, 6856, 7014, 7174, 7335, 7500,
     7666, 7834, 8004, 8177, 8352, 8528, 8708, 8889, 9072, 9258, 9445, 9635, 9828, 10022, 10219, 10417,
     10619, 10822, 11028, 11235, 11446, 11658, 11873, 12090, 12309, 12530, 12754, 12980, 13209, 13440, 13673, 13909,
     14146, 14387, 14629, 14874, 15122, 15371, 15623, 15878, 16135, 16394, 16656, 16920, 17187, 17456, 17727, 18001,
     18277, 18556, 18837, 19121, 19407, 19696, 19987, 20281, 20577, 20876, 21177, 21481, 21787, 22096, 22407, 22721,
     23038, 23357, 23678, 24002, 24329, 24658, 24990, 25325, 25662, 26001, 26344, 26688, 27036, 27386, 27739, 28094,
     28452, 28813, 29176, 29542, 29911, 30282, 30656, 31033, 31412, 31794, 32179, 32567, 32957, 33350, 33745, 34143,
     34544, 34948, 35355, 35764, 36176, 36591, 37008, 37429, 37852, 38278, 38706, 39138, 39572, 40009, 40449, 40891,
     41337, 41785, 42236, 42690, 43147, 43606, 44069, 44534, 45002, 45473, 45947, 46423, 46903, 47385, 47871, 48359,
     48850, 49344, 49841, 50341, 50844, 51349, 51858, 52369, 52884, 53401, 53921, 54445, 54971, 55500, 56032, 56567,
     57105, 57646, 58190, 58737, 59287, 59840, 60396, 60955, 61517, 62082, 62650, 63221, 63795, 64372, 64952, 65535]"

section \<open>Unsigned fractions\<close>

definition arbor_renderer_unorm16_mul :: "u16 \<Rightarrow> u16 \<Rightarrow> u16" where
  "arbor_renderer_unorm16_mul left right =
     (let product = u64 (unat left * unat right);
          quotient = product div 65535;
          remainder = product mod 65535;
          twice = u64 (remainder * 2);
          quotient = (if twice > 65535 \<or> (twice = 65535 \<and> odd quotient) then u64 (quotient + 1)
                      else quotient);
          quotient = (if quotient > UINT16_MAX then UINT16_MAX else quotient)
      in of_nat quotient)"

definition arbor_renderer_scale_u16_q32 :: "u16 \<Rightarrow> arbor_coverage \<Rightarrow> u16" where
  "arbor_renderer_scale_u16_q32 val coverage =
     (if coverage = 0 \<or> val = 0 then 0
      else if unat coverage \<ge> ARBOR_COVERAGE_ONE then val
      else
        let product = u64 (unat val * unat coverage);
            quotient = drop_bit 32 product;
            remainder = take_bit 32 product;
            quotient = (if remainder > 2147483648 \<or> (remainder = 2147483648 \<and> odd quotient)
                        then u64 (quotient + 1) else quotient);
            quotient = (if quotient > UINT16_MAX then UINT16_MAX else quotient)
        in of_nat quotient)"

definition arbor_renderer_coverage_mul :: "arbor_coverage \<Rightarrow> arbor_coverage \<Rightarrow> arbor_coverage" where
  "arbor_renderer_coverage_mul left right =
     (if left = 0 \<or> right = 0 then 0
      else if unat left \<ge> ARBOR_COVERAGE_ONE
        then (if unat right > ARBOR_COVERAGE_ONE then of_nat ARBOR_COVERAGE_ONE else right)
      else if unat right \<ge> ARBOR_COVERAGE_ONE
        then (if unat left > ARBOR_COVERAGE_ONE then of_nat ARBOR_COVERAGE_ONE else left)
      else
        let product = u64 (unat left * unat right);
            quotient = drop_bit 32 product;
            remainder = take_bit 32 product;
            quotient = (if remainder > 2147483648 \<or> (remainder = 2147483648 \<and> odd quotient)
                        then u64 (quotient + 1) else quotient)
        in of_nat quotient)"

definition arbor_renderer_unpremultiply :: "u16 \<Rightarrow> u16 \<Rightarrow> u16" where
  "arbor_renderer_unpremultiply val alpha =
     (if alpha = 0 \<or> val = 0 then 0
      else if unat val \<ge> unat alpha then of_nat UINT16_MAX
      else
        let numerator = u64 (unat val * 65535);
            quotient = numerator div unat alpha;
            remainder = numerator mod unat alpha;
            twice = u64 (remainder * 2);
            quotient = (if twice > unat alpha \<or> (twice = unat alpha \<and> odd quotient)
                        then u64 (quotient + 1) else quotient);
            quotient = (if quotient > UINT16_MAX then UINT16_MAX else quotient)
        in of_nat quotient)"

section \<open>Pixels\<close>

definition arbor_rgba16_is_valid_premultiplied :: "arbor_rgba16 \<Rightarrow> bool" where
  "arbor_rgba16_is_valid_premultiplied color \<longleftrightarrow>
     px_r color \<le> px_a color \<and> px_g color \<le> px_a color \<and> px_b color \<le> px_a color"

definition arbor_rgba16_apply_coverage :: "arbor_rgba16 \<Rightarrow> arbor_coverage \<Rightarrow> arbor_rgba16" where
  "arbor_rgba16_apply_coverage color coverage =
     (let coverage = (if unat coverage > ARBOR_COVERAGE_ONE then of_nat ARBOR_COVERAGE_ONE else coverage)
      in if coverage = 0 then \<lparr>px_r = 0, px_g = 0, px_b = 0, px_a = 0\<rparr>
         else if coverage = of_nat ARBOR_COVERAGE_ONE then color
         else \<lparr>px_r = arbor_renderer_scale_u16_q32 (px_r color) coverage,
               px_g = arbor_renderer_scale_u16_q32 (px_g color) coverage,
               px_b = arbor_renderer_scale_u16_q32 (px_b color) coverage,
               px_a = arbor_renderer_scale_u16_q32 (px_a color) coverage\<rparr>)"

definition blend_channel :: "u16 \<Rightarrow> u16 \<Rightarrow> u16 \<Rightarrow> u16" where
  "blend_channel source destination inverse_alpha =
     (let v = unat source + unat (arbor_renderer_unorm16_mul destination inverse_alpha)
      in of_nat (if v > UINT16_MAX then UINT16_MAX else v))"

definition arbor_rgba16_source_over :: "arbor_rgba16 \<Rightarrow> arbor_rgba16 \<Rightarrow> arbor_rgba16" where
  "arbor_rgba16_source_over source destination =
     (let inverse_alpha = of_nat UINT16_MAX - px_a source;
          r = blend_channel (px_r source) (px_r destination) inverse_alpha;
          g = blend_channel (px_g source) (px_g destination) inverse_alpha;
          b = blend_channel (px_b source) (px_b destination) inverse_alpha;
          a = blend_channel (px_a source) (px_a destination) inverse_alpha
      in \<lparr>px_r = (if r > a then a else r), px_g = (if g > a then a else g),
          px_b = (if b > a then a else b), px_a = a\<rparr>)"

section \<open>sRGB\<close>

text \<open>The binary search for the first table entry that is not below the value.\<close>

function linear16_search :: "nat \<Rightarrow> nat \<Rightarrow> nat \<Rightarrow> nat" where
  "linear16_search val low high =
     (if low < high
      then let mid = low + (high - low) div 2
           in if arbor_srgb8_to_linear16 ! mid < val then linear16_search val (mid + 1) high
              else linear16_search val low mid
      else low)"
  by auto
termination linear16_search
  by (relation "measure (\<lambda>(_, low, high). high - low)") auto

declare linear16_search.simps [simp del]

definition arbor_renderer_linear16_to_srgb8 :: "u16 \<Rightarrow> u8" where
  "arbor_renderer_linear16_to_srgb8 val =
     (let low = linear16_search (unat val) 0 255
      in if low = 0 then 0
         else
           let upper = low; lower = low - 1;
               upper_distance = arbor_srgb8_to_linear16 ! upper - unat val;
               lower_distance = unat val - arbor_srgb8_to_linear16 ! lower
           in if lower_distance < upper_distance \<or> (lower_distance = upper_distance \<and> even lower)
              then of_nat lower else of_nat upper)"

definition arbor_rgba16_from_srgb8 :: "arbor_rgba8_srgb \<Rightarrow> arbor_rgba16" where
  "arbor_rgba16_from_srgb8 color =
     (let alpha = ucast (srgb_a color) * 257;
          linear = (\<lambda>channel. of_nat (arbor_srgb8_to_linear16 ! unat channel))
      in \<lparr>px_r = arbor_renderer_unorm16_mul (linear (srgb_r color)) alpha,
          px_g = arbor_renderer_unorm16_mul (linear (srgb_g color)) alpha,
          px_b = arbor_renderer_unorm16_mul (linear (srgb_b color)) alpha,
          px_a = alpha\<rparr>)"

definition arbor_rgba16_to_srgb8 :: "arbor_rgba16 \<Rightarrow> arbor_rgba8_srgb" where
  "arbor_rgba16_to_srgb8 color =
     (let linear_r = arbor_renderer_unpremultiply (px_r color) (px_a color);
          linear_g = arbor_renderer_unpremultiply (px_g color) (px_a color);
          linear_b = arbor_renderer_unpremultiply (px_b color) (px_a color);
          alpha_scaled = unat (px_a color) * 255;
          alpha_q = alpha_scaled div 65535;
          alpha_r = alpha_scaled mod 65535;
          twice = alpha_r * 2;
          alpha_q = (if twice > 65535 \<or> (twice = 65535 \<and> odd alpha_q) then alpha_q + 1 else alpha_q);
          alpha_q = (if alpha_q > 255 then 255 else alpha_q)
      in \<lparr>srgb_r = (if px_a color = 0 then 0 else arbor_renderer_linear16_to_srgb8 linear_r),
          srgb_g = (if px_a color = 0 then 0 else arbor_renderer_linear16_to_srgb8 linear_g),
          srgb_b = (if px_a color = 0 then 0 else arbor_renderer_linear16_to_srgb8 linear_b),
          srgb_a = of_nat alpha_q\<rparr>)"

section \<open>Every fraction routine rounds half to even\<close>

lemma round_magnitude_mono:
  assumes "0 < b" and "a \<le> c"
  shows "round_magnitude a b \<le> round_magnitude c b"
  using round_half_even_mono [of "int b" "int a" "int c"] assms
  by (simp add: round_magnitude_nonneg)

lemma round_magnitude_multiple [simp]: "0 < b \<Longrightarrow> round_magnitude (k * b) b = k"
  by (simp add: round_magnitude_def)

lemma round_magnitude_le:
  assumes "0 < b" and "a \<le> k * b"
  shows "round_magnitude a b \<le> k"
  using round_magnitude_mono [OF assms] assms(1) by simp

lemma round_magnitude_zero [simp]: "round_magnitude 0 b = 0"
  by (simp add: round_magnitude_def)

lemma unat_u16_product: "unat (a :: u16) * unat (b :: u16) \<le> 4294836225"
  using mult_le_mono [OF unat_u16_le [of a] unat_u16_le [of b]] by simp

text \<open>The two shapes the code rounds in: quotient and remainder, and shift and mask.\<close>

lemma rounded_quotient:
  assumes "n \<le> 1099511627776" and "0 < d" and "d \<le> 65535"
  shows "(if u64 (n mod d * 2) > d \<or> (u64 (n mod d * 2) = d \<and> odd (n div d))
     then u64 (n div d + 1) else n div d) = round_magnitude n d"
proof -
  have "n mod d < d" "n div d \<le> 1099511627776"
    using assms(1,2) div_le_dividend [of n d] by (simp, linarith)
  then have "u64 (n mod d * 2) = n mod d * 2" "u64 (n div d + 1) = n div d + 1"
    using assms(1,3) by (simp_all add: u64_id)
  then show ?thesis by (simp only: round_magnitude_def mult.commute)
qed

lemma rounded_shift:
  assumes "n < 18446744073709551616"
  shows "(if take_bit 32 n > 2147483648 \<or> (take_bit 32 n = 2147483648 \<and> odd (drop_bit 32 n))
     then u64 (drop_bit 32 n + 1) else drop_bit 32 n) = round_magnitude n ARBOR_COVERAGE_ONE"
proof -
  have "n div 4294967296 \<le> 4294967296" using div_le_mono [OF less_imp_le [OF assms], of 4294967296] by simp
  then have "u64 (n div 4294967296 + 1) = n div 4294967296 + 1" by (simp add: u64_id)
  then show ?thesis by (auto simp: round_magnitude_def take_bit_eq_mod drop_bit_eq_div)
qed

lemma unat_clamped: "n \<le> 65535 \<Longrightarrow> unat (of_nat (if n > UINT16_MAX then UINT16_MAX else n) :: u16) = n"
  by (simp add: unat_of_nat_u16)

lemma arbor_renderer_unorm16_mul_exact:
  "unat (arbor_renderer_unorm16_mul l r) = round_magnitude (unat l * unat r) 65535"
proof -
  have "round_magnitude (unat l * unat r) 65535 \<le> unat r"
    using unat_u16_le [of l] by (intro round_magnitude_le) (simp_all add: mult.commute)
  then have le: "round_magnitude (unat l * unat r) 65535 \<le> 65535"
    using unat_u16_le [of r] by linarith
  have n: "u64 (unat l * unat r) = unat l * unat r" "unat l * unat r \<le> 1099511627776"
    using unat_u16_product [of l r] by (simp_all add: u64_id)
  show ?thesis
    unfolding arbor_renderer_unorm16_mul_def Let_def n(1) rounded_quotient [OF n(2), of 65535, simplified]
    using rounded_quotient [OF n(2), of 65535] le by (simp only: unat_clamped)
qed

lemma arbor_renderer_scale_u16_q32_exact:
  assumes "unat coverage \<le> ARBOR_COVERAGE_ONE"
  shows "unat (arbor_renderer_scale_u16_q32 v coverage) =
    round_magnitude (unat v * unat coverage) ARBOR_COVERAGE_ONE"
proof (cases "coverage = 0 \<or> v = 0 \<or> unat coverage = ARBOR_COVERAGE_ONE")
  case True
  then show ?thesis by (auto simp: arbor_renderer_scale_u16_q32_def)
next
  case False
  have prod: "unat v * unat coverage \<le> 65535 * ARBOR_COVERAGE_ONE"
    using mult_le_mono [OF unat_u16_le [of v] assms] by simp
  then have n: "u64 (unat v * unat coverage) = unat v * unat coverage"
    and lt: "unat v * unat coverage < 18446744073709551616" by (simp_all add: u64_id)
  have le: "round_magnitude (unat v * unat coverage) ARBOR_COVERAGE_ONE \<le> 65535"
    using prod by (intro round_magnitude_le) simp_all
  have "arbor_renderer_scale_u16_q32 v coverage =
      (let q = round_magnitude (unat v * unat coverage) ARBOR_COVERAGE_ONE
       in of_nat (if q > UINT16_MAX then UINT16_MAX else q))"
    using False assms unfolding arbor_renderer_scale_u16_q32_def Let_def n rounded_shift [OF lt] by simp
  then show ?thesis using unat_clamped [OF le] by (simp add: Let_def)
qed

lemma arbor_renderer_coverage_mul_exact:
  assumes "unat l \<le> ARBOR_COVERAGE_ONE" and "unat r \<le> ARBOR_COVERAGE_ONE"
  shows "unat (arbor_renderer_coverage_mul l r) = round_magnitude (unat l * unat r) ARBOR_COVERAGE_ONE"
proof (cases "l = 0 \<or> r = 0 \<or> unat l = ARBOR_COVERAGE_ONE \<or> unat r = ARBOR_COVERAGE_ONE")
  case True
  then show ?thesis
    using assms round_magnitude_multiple [of ARBOR_COVERAGE_ONE "unat r"]
    by (auto simp: arbor_renderer_coverage_mul_def mult.commute)
next
  case False
  then have l: "unat l \<le> 4294967295" "unat r \<le> 4294967295" using assms by linarith+
  have lt: "unat l * unat r < 18446744073709551616"
    using mult_le_mono [OF l] by simp
  then have n: "u64 (unat l * unat r) = unat l * unat r" by (simp add: u64_id)
  have "round_magnitude (unat l * unat r) ARBOR_COVERAGE_ONE \<le> unat r"
    using assms by (intro round_magnitude_le) (simp_all add: mult.commute)
  then have "round_magnitude (unat l * unat r) ARBOR_COVERAGE_ONE < 18446744073709551616"
    using l by linarith
  then show ?thesis
    using False assms unfolding arbor_renderer_coverage_mul_def Let_def n rounded_shift [OF lt]
    by (simp add: unat_of_nat_u64)
qed

lemma arbor_renderer_unpremultiply_exact:
  "unat (arbor_renderer_unpremultiply v a) =
     (if a = 0 then 0 else if v \<ge> a then (if v = 0 then 0 else 65535)
      else round_magnitude (unat v * 65535) (unat a))"
proof (cases "a = 0 \<or> v = 0 \<or> unat v \<ge> unat a")
  case True
  then show ?thesis
    by (auto simp: arbor_renderer_unpremultiply_def word_le_nat_alt unat_of_nat_u16)
next
  case False
  have n: "u64 (unat v * 65535) = unat v * 65535" "unat v * 65535 \<le> 1099511627776"
    using unat_u16_le [of v] by (simp_all add: u64_id)
  have a: "0 < unat a" "unat a \<le> 65535" using False unat_u16_le [of a] by (simp_all add: unat_gt_0)
  have le: "round_magnitude (unat v * 65535) (unat a) \<le> 65535"
    using False a by (intro round_magnitude_le) (simp_all add: mult.commute)
  have "arbor_renderer_unpremultiply v a =
      (let q = round_magnitude (unat v * 65535) (unat a)
       in of_nat (if q > UINT16_MAX then UINT16_MAX else q))"
    using False unfolding arbor_renderer_unpremultiply_def Let_def n(1) rounded_quotient [OF n(2) a] by simp
  then show ?thesis using unat_clamped [OF le] False by (simp add: Let_def word_le_nat_alt)
qed

section \<open>Scaling pixels by a fraction\<close>

text \<open>
  What compositing needs of a routine that scales a channel by a fraction: zero stays zero,
  no channel grows, and channel order is kept. Coverage and inverse alpha are the two instances.
\<close>

locale channel_scaling =
  fixes scale :: "u16 \<Rightarrow> u16"
  assumes scale_mono: "v \<le> w \<Longrightarrow> scale v \<le> scale w"
    and scale_le: "scale v \<le> v"
begin

definition scale_pixel :: "arbor_rgba16 \<Rightarrow> arbor_rgba16" where
  "scale_pixel p = \<lparr>px_r = scale (px_r p), px_g = scale (px_g p), px_b = scale (px_b p), px_a = scale (px_a p)\<rparr>"

lemma scale_zero: "scale 0 = 0"
  using scale_le [of 0] by simp

lemma scaled_valid:
  "arbor_rgba16_is_valid_premultiplied p \<Longrightarrow> arbor_rgba16_is_valid_premultiplied (scale_pixel p)"
  by (simp add: arbor_rgba16_is_valid_premultiplied_def scale_pixel_def scale_mono)

lemma scale_sum_mono:
  "unat s \<le> unat t \<Longrightarrow> v \<le> w \<Longrightarrow> unat s + unat (scale v) \<le> unat t + unat (scale w)"
  using scale_mono [of v w] by (simp add: word_le_nat_alt)

end

lemma unat_scaled_mono:
  "v \<le> w \<Longrightarrow> 0 < d \<Longrightarrow> round_magnitude (unat v * k) d \<le> round_magnitude (unat w * k) d"
  by (intro round_magnitude_mono) (simp_all add: word_le_nat_alt)

interpretation inverse_alpha: channel_scaling "\<lambda>v. arbor_renderer_unorm16_mul v k" for k
proof
  fix v w :: u16
  show "v \<le> w \<Longrightarrow> arbor_renderer_unorm16_mul v k \<le> arbor_renderer_unorm16_mul w k"
    by (simp add: word_le_nat_alt [of "arbor_renderer_unorm16_mul v k"] arbor_renderer_unorm16_mul_exact
      unat_scaled_mono)
  show "arbor_renderer_unorm16_mul v k \<le> v"
    unfolding word_le_nat_alt arbor_renderer_unorm16_mul_exact
    using unat_u16_le [of k] by (intro round_magnitude_le) simp_all
qed

lemma scale_u16_q32_saturates:
  "ARBOR_COVERAGE_ONE \<le> unat c \<Longrightarrow> arbor_renderer_scale_u16_q32 v c = v"
  by (auto simp: arbor_renderer_scale_u16_q32_def)

interpretation coverage: channel_scaling "\<lambda>v. arbor_renderer_scale_u16_q32 v c" for c
proof
  fix v w :: u16
  show "arbor_renderer_scale_u16_q32 v c \<le> arbor_renderer_scale_u16_q32 w c" if "v \<le> w"
  proof (cases "unat c \<le> ARBOR_COVERAGE_ONE")
    case True
    then show ?thesis
      unfolding word_le_nat_alt arbor_renderer_scale_u16_q32_exact [OF True]
      using that by (intro unat_scaled_mono) simp_all
  qed (use that in \<open>simp add: scale_u16_q32_saturates\<close>)
  show "arbor_renderer_scale_u16_q32 v c \<le> v"
  proof (cases "unat c \<le> ARBOR_COVERAGE_ONE")
    case True
    then show ?thesis
      unfolding word_le_nat_alt arbor_renderer_scale_u16_q32_exact [OF True]
      by (intro round_magnitude_le) simp_all
  qed (simp add: scale_u16_q32_saturates)
qed

lemma arbor_rgba16_apply_coverage_scales:
  "arbor_rgba16_apply_coverage p c = coverage.scale_pixel c p"
proof -
  let ?one = "of_nat ARBOR_COVERAGE_ONE :: u64"
  have one: "unat ?one = ARBOR_COVERAGE_ONE" "?one \<noteq> 0" by simp_all
  consider "c = 0" | "unat c < ARBOR_COVERAGE_ONE" "c \<noteq> 0" | "ARBOR_COVERAGE_ONE \<le> unat c" by linarith
  then show ?thesis
  proof cases
    case 3
    then have "(if unat c > ARBOR_COVERAGE_ONE then ?one else c) = ?one"
      using word_unat_eq_iff [of c ?one] one(1) by auto
    then show ?thesis
      using one(2) 3 unfolding arbor_rgba16_apply_coverage_def Let_def coverage.scale_pixel_def
      by (simp add: scale_u16_q32_saturates)
  next
    case 2
    then have "c \<noteq> ?one" using one(1) by force
    then show ?thesis
      using 2 unfolding arbor_rgba16_apply_coverage_def Let_def coverage.scale_pixel_def by simp
  next
    case 1
    then show ?thesis
      unfolding arbor_rgba16_apply_coverage_def Let_def coverage.scale_pixel_def
      by (simp add: arbor_renderer_scale_u16_q32_def)
  qed
qed

lemma apply_coverage_valid:
  "arbor_rgba16_is_valid_premultiplied p \<Longrightarrow>
   arbor_rgba16_is_valid_premultiplied (arbor_rgba16_apply_coverage p c)"
  by (simp add: arbor_rgba16_apply_coverage_scales coverage.scaled_valid)

section \<open>Compositing\<close>

definition composite_exact :: "nat \<Rightarrow> nat \<Rightarrow> nat \<Rightarrow> nat" where
  "composite_exact s d sa = s + round_magnitude (d * (65535 - sa)) 65535"

lemma unat_inverse_alpha: "unat (65535 - sa :: u16) = 65535 - unat sa"
  using unat_u16_le [of sa] by (simp add: unat_sub word_le_nat_alt)

lemma composite_exact_le:
  assumes "s \<le> unat (sa :: u16)" and "d \<le> 65535"
  shows "composite_exact s d (unat sa) \<le> 65535"
proof -
  have "round_magnitude (d * (65535 - unat sa)) 65535 \<le> 65535 - unat sa"
    using assms(2) by (intro round_magnitude_le) (simp_all add: mult.commute)
  then show ?thesis using assms unat_u16_le [of sa] by (simp add: composite_exact_def)
qed

lemma blend_channel_exact:
  assumes "s \<le> sa"
  shows "unat (blend_channel s d (65535 - sa)) = composite_exact (unat s) (unat d) (unat sa)"
proof -
  have "composite_exact (unat s) (unat d) (unat sa) \<le> 65535"
    using assms unat_u16_le [of d] by (intro composite_exact_le) (simp_all add: word_le_nat_alt)
  then show ?thesis
    unfolding blend_channel_def Let_def arbor_renderer_unorm16_mul_exact unat_inverse_alpha composite_exact_def
    by (rule unat_clamped)
qed

lemma composite_exact_mono:
  "s \<le> t \<Longrightarrow> d \<le> e \<Longrightarrow> composite_exact s d a \<le> composite_exact t e a"
  unfolding composite_exact_def by (intro add_mono round_magnitude_mono) simp_all

lemma source_over_exact:
  assumes "arbor_rgba16_is_valid_premultiplied s" and "arbor_rgba16_is_valid_premultiplied d"
  shows "unat (px_r (arbor_rgba16_source_over s d)) = composite_exact (unat (px_r s)) (unat (px_r d)) (unat (px_a s))"
    and "unat (px_g (arbor_rgba16_source_over s d)) = composite_exact (unat (px_g s)) (unat (px_g d)) (unat (px_a s))"
    and "unat (px_b (arbor_rgba16_source_over s d)) = composite_exact (unat (px_b s)) (unat (px_b d)) (unat (px_a s))"
    and "unat (px_a (arbor_rgba16_source_over s d)) = composite_exact (unat (px_a s)) (unat (px_a d)) (unat (px_a s))"
proof -
  let ?k = "65535 - px_a s"
  have le: "px_r s \<le> px_a s" "px_g s \<le> px_a s" "px_b s \<le> px_a s"
    and "px_r d \<le> px_a d" "px_g d \<le> px_a d" "px_b d \<le> px_a d"
    using assms by (simp_all add: arbor_rgba16_is_valid_premultiplied_def)
  then have "\<not> blend_channel (px_a s) (px_a d) ?k < blend_channel (px_r s) (px_r d) ?k"
    and "\<not> blend_channel (px_a s) (px_a d) ?k < blend_channel (px_g s) (px_g d) ?k"
    and "\<not> blend_channel (px_a s) (px_a d) ?k < blend_channel (px_b s) (px_b d) ?k"
    unfolding not_less word_le_nat_alt
    by (simp_all add: blend_channel_exact composite_exact_mono word_le_nat_alt [symmetric])
  then show "unat (px_r (arbor_rgba16_source_over s d)) = composite_exact (unat (px_r s)) (unat (px_r d)) (unat (px_a s))"
    and "unat (px_g (arbor_rgba16_source_over s d)) = composite_exact (unat (px_g s)) (unat (px_g d)) (unat (px_a s))"
    and "unat (px_b (arbor_rgba16_source_over s d)) = composite_exact (unat (px_b s)) (unat (px_b d)) (unat (px_a s))"
    and "unat (px_a (arbor_rgba16_source_over s d)) = composite_exact (unat (px_a s)) (unat (px_a d)) (unat (px_a s))"
    using le by (simp_all add: arbor_rgba16_source_over_def Let_def blend_channel_exact)
qed

lemma source_over_valid:
  assumes "arbor_rgba16_is_valid_premultiplied s" and "arbor_rgba16_is_valid_premultiplied d"
  shows "arbor_rgba16_is_valid_premultiplied (arbor_rgba16_source_over s d)"
  using assms unfolding arbor_rgba16_is_valid_premultiplied_def word_le_nat_alt source_over_exact [OF assms]
  by (simp add: composite_exact_mono)

text \<open>Even on pixels that are not premultiplied the result is, by the final clamps.\<close>

lemma source_over_always_valid: "arbor_rgba16_is_valid_premultiplied (arbor_rgba16_source_over s d)"
proof -
  have "(if r > a then a else r) \<le> a" for r a :: u16 by auto
  then show ?thesis
    unfolding arbor_rgba16_is_valid_premultiplied_def arbor_rgba16_source_over_def Let_def
      arbor_rgba16.select_convs by blast
qed

lemma unorm16_mul_one [simp]: "arbor_renderer_unorm16_mul v 65535 = v" "arbor_renderer_unorm16_mul v 0 = 0"
  by (simp_all add: word_unat_eq_iff arbor_renderer_unorm16_mul_exact)

lemma blend_channel_ends:
  "blend_channel s d 0 = s" "blend_channel 0 d 65535 = d"
  unfolding blend_channel_def Let_def
  using unat_u16_le [of s] unat_u16_le [of d] by simp_all

lemma source_over_opaque:
  assumes "arbor_rgba16_is_valid_premultiplied s" and "px_a s = 65535"
  shows "arbor_rgba16_source_over s d = s"
  using assms
  by (cases s) (auto simp: arbor_rgba16_source_over_def Let_def blend_channel_ends
    arbor_rgba16_is_valid_premultiplied_def not_less)

lemma source_over_transparent:
  assumes "arbor_rgba16_is_valid_premultiplied d"
  shows "arbor_rgba16_source_over \<lparr>px_r = 0, px_g = 0, px_b = 0, px_a = 0\<rparr> d = d"
  using assms
  by (cases d) (auto simp: arbor_rgba16_source_over_def Let_def blend_channel_ends
    arbor_rgba16_is_valid_premultiplied_def not_less)

section \<open>sRGB conversion\<close>

abbreviation lut :: "nat \<Rightarrow> nat" where "lut i \<equiv> arbor_srgb8_to_linear16 ! i"

lemma lut_length: "length arbor_srgb8_to_linear16 = 256"
  by (simp add: arbor_srgb8_to_linear16_def)

lemma lut_sorted: "sorted_wrt (<) arbor_srgb8_to_linear16"
proof -
  have "successively (<) arbor_srgb8_to_linear16" by (simp add: arbor_srgb8_to_linear16_def)
  then show ?thesis by (simp add: successively_conv_sorted_wrt)
qed

lemma lut_ends: "lut 0 = 0" "lut 255 = 65535"
  by (simp_all add: arbor_srgb8_to_linear16_def)

lemma lut_less_iff: "i < 256 \<Longrightarrow> j < 256 \<Longrightarrow> lut i < lut j \<longleftrightarrow> i < j"
  using sorted_wrt_nth_less [OF lut_sorted, of i j] sorted_wrt_nth_less [OF lut_sorted, of j i]
  by (cases i j rule: linorder_cases) (auto simp: lut_length)

lemma lut_le:
  assumes "i < 256"
  shows "lut i \<le> 65535"
proof -
  have "\<not> lut 255 < lut i" using assms lut_less_iff [of 255 i] by simp
  then show ?thesis using lut_ends(2) by simp
qed

lemma linear16_search_correct:
  assumes "low \<le> high" and "high \<le> 255" and "\<forall>i < low. lut i < v" and "v \<le> lut high"
  shows "linear16_search v low high \<le> high" and "v \<le> lut (linear16_search v low high)"
    and "\<forall>i < linear16_search v low high. lut i < v"
proof -
  have "linear16_search v low high \<le> high \<and> v \<le> lut (linear16_search v low high) \<and>
      (\<forall>i < linear16_search v low high. lut i < v)"
    using assms
  proof (induction v low high rule: linear16_search.induct)
    case (1 v low high)
    show ?case
    proof (cases "low < high")
      case False
      then show ?thesis using "1.prems" by (simp add: linear16_search.simps)
    next
      case True
      define mid where "mid = low + (high - low) div 2"
      have mid: "low \<le> mid" "mid < high" using True unfolding mid_def by simp_all
      show ?thesis
      proof (cases "lut mid < v")
        case True
        have "\<forall>i < mid + 1. lut i < v"
        proof (intro allI impI)
          fix i assume "i < mid + 1"
          then have "\<not> lut mid < lut i"
            using lut_less_iff [of mid i] mid "1.prems"(2) by simp
          with True show "lut i < v" by simp
        qed
        then show ?thesis
          using "1.IH"(1) [OF \<open>low < high\<close> mid_def True] True \<open>low < high\<close> mid "1.prems"
          by (simp add: linear16_search.simps [of v low high] mid_def [symmetric])
      next
        case False
        then show ?thesis
          using "1.IH"(2) [OF \<open>low < high\<close> mid_def False] \<open>low < high\<close> mid "1.prems"
          by (simp add: linear16_search.simps [of v low high] mid_def [symmetric])
      qed
    qed
  qed
  then show "linear16_search v low high \<le> high" and "v \<le> lut (linear16_search v low high)"
    and "\<forall>i < linear16_search v low high. lut i < v" by blast+
qed

text \<open>
  The result is a nearest table entry, and on a tie the even one; neither distance is
  computed with a borrow.
\<close>

definition srgb_distance :: "nat \<Rightarrow> nat \<Rightarrow> nat" where
  "srgb_distance v i = (if lut i \<le> v then v - lut i else lut i - v)"

lemma linear16_search_unat:
  fixes v :: u16
  shows "linear16_search (unat v) 0 255 \<le> 255" and "unat v \<le> lut (linear16_search (unat v) 0 255)"
    and "i < linear16_search (unat v) 0 255 \<Longrightarrow> lut i < unat v"
proof -
  have "unat v \<le> lut 255" using unat_u16_le [of v] lut_ends(2) by simp
  note c = linear16_search_correct [OF _ _ _ this]
  show "linear16_search (unat v) 0 255 \<le> 255" by (rule c(1)) simp_all
  show "unat v \<le> lut (linear16_search (unat v) 0 255)" by (rule c(2)) simp_all
  show "i < linear16_search (unat v) 0 255 \<Longrightarrow> lut i < unat v" using c(3) [of 0] by simp
qed

lemma nearest_of_two:
  fixes A B V l :: nat and d :: "nat \<Rightarrow> nat"
  defines "k \<equiv> (if V - A < B - V \<or> (V - A = B - V \<and> even l) then l else Suc l)"
  assumes d: "d l = V - A" "d (Suc l) = B - V"
    and j: "(j = l \<or> V - A < d j) \<or> (j = Suc l \<or> B - V < d j)"
    and "V - A \<le> d j \<or> B - V \<le> d j"
  shows "d k \<le> d j" and "d k = d j \<Longrightarrow> j \<noteq> k \<Longrightarrow> even k"
  using assms by (auto split: if_splits)

lemma arbor_renderer_linear16_to_srgb8_nearest:
  fixes v :: u16
  defines "k \<equiv> unat (arbor_renderer_linear16_to_srgb8 v)"
  assumes "j < 256"
  shows "srgb_distance (unat v) k \<le> srgb_distance (unat v) j"
    and "srgb_distance (unat v) k = srgb_distance (unat v) j \<Longrightarrow> j \<noteq> k \<Longrightarrow> even k"
proof -
  define u where "u = linear16_search (unat v) 0 255"
  note s = linear16_search_unat [where v = v, folded u_def]
  have k: "k = (if u = 0 then 0
      else if unat v - lut (u - 1) < lut u - unat v \<or> (unat v - lut (u - 1) = lut u - unat v \<and> even (u - 1))
      then u - 1 else u)"
  proof -
    have "unat (of_nat (u - 1) :: u8) = u - 1" "unat (of_nat u :: u8) = u"
      using s(1) by (intro unat_of_nat_u8; simp)+
    then show ?thesis
      unfolding k_def arbor_renderer_linear16_to_srgb8_def Let_def u_def [symmetric]
      by (simp only: if_distrib [of unat] unat_0)
  qed
  have "srgb_distance (unat v) k \<le> srgb_distance (unat v) j \<and>
      (srgb_distance (unat v) k = srgb_distance (unat v) j \<longrightarrow> j \<noteq> k \<longrightarrow> even k)"
  proof (cases u)
    case 0
    then show ?thesis using k s(2) lut_ends(1) by (simp add: srgb_distance_def)
  next
    case (Suc l)
    have low: "lut l < unat v" using s(3) [of l] Suc by simp
    have d: "srgb_distance (unat v) l = unat v - lut l" "srgb_distance (unat v) (Suc l) = lut (Suc l) - unat v"
      using low s(2) Suc by (auto simp: srgb_distance_def)
    have "j \<le> l \<Longrightarrow> j = l \<or> lut j < lut l" "Suc l \<le> j \<Longrightarrow> j = Suc l \<or> lut (Suc l) < lut j"
      using lut_less_iff [of j l] lut_less_iff [of "Suc l" j] assms(2) s(1) Suc by auto
    then have j: "(j = l \<or> unat v - lut l < srgb_distance (unat v) j) \<or>
        (j = Suc l \<or> lut (Suc l) - unat v < srgb_distance (unat v) j)"
      using low s(2) Suc by (cases "j \<le> l") (auto simp: srgb_distance_def)
    then have "unat v - lut l \<le> srgb_distance (unat v) j \<or> lut (Suc l) - unat v \<le> srgb_distance (unat v) j"
      using d by auto
    moreover have "k = (if unat v - lut l < lut (Suc l) - unat v \<or>
        (unat v - lut l = lut (Suc l) - unat v \<and> even l) then l else Suc l)"
      using k Suc by simp
    ultimately show ?thesis
      using nearest_of_two [OF d j] by (simp only:) blast
  qed
  then show "srgb_distance (unat v) k \<le> srgb_distance (unat v) j"
    and "srgb_distance (unat v) k = srgb_distance (unat v) j \<Longrightarrow> j \<noteq> k \<Longrightarrow> even k" by blast+
qed

text \<open>Every table value converts back to its index.\<close>

lemma arbor_renderer_linear16_to_srgb8_inverse:
  assumes "i < 256"
  shows "arbor_renderer_linear16_to_srgb8 (of_nat (lut i)) = of_nat i"
proof -
  have v: "unat (of_nat (lut i) :: u16) = lut i"
    using lut_le [OF assms] by (simp add: unat_of_nat_u16)
  note s = linear16_search_unat [where v = "of_nat (lut i)", unfolded v]
  have "\<not> linear16_search (lut i) 0 255 < i"
    using s(1,2) assms lut_less_iff [of "linear16_search (lut i) 0 255" i] by auto
  moreover have "\<not> i < linear16_search (lut i) 0 255"
    using s(3) [of i] by blast
  ultimately have k: "linear16_search (lut i) 0 255 = i" by simp
  have "0 < i \<Longrightarrow> lut (i - 1) < lut i" using assms lut_less_iff [of "i - 1" i] by simp
  then show ?thesis
    unfolding arbor_renderer_linear16_to_srgb8_def Let_def v k by (cases "i = 0") auto
qed

lemma alpha_round_trip:
  fixes a :: u8
  shows "unat (ucast a * 257 :: u16) = unat a * 257"
  using unat_u8_upper [of a] by (simp add: unat_word_ariths unsigned_ucast_eq take_bit_nat_eq_self)

lemma arbor_renderer_unpremultiply_opaque [simp]: "arbor_renderer_unpremultiply v 65535 = v"
  using unat_u16_le [of v]
  by (auto simp: word_unat_eq_iff arbor_renderer_unpremultiply_exact word_le_nat_alt)

lemma to_srgb8_alpha: "srgb_a (arbor_rgba16_to_srgb8 \<lparr>px_r = r, px_g = g, px_b = b, px_a = ucast a * 257\<rparr>) = a"
proof -
  have e: "unat a * 257 * 255 = unat a * 65535" by simp
  have "unat a * 257 * 255 div 65535 = unat a" "unat a * 257 * 255 mod 65535 = 0"
    unfolding e by simp_all
  then show ?thesis
    unfolding arbor_rgba16_to_srgb8_def Let_def arbor_rgba8_srgb.select_convs arbor_rgba16.select_convs
      alpha_round_trip
    using unat_u8_upper [of a] by simp
qed

lemma from_srgb8_valid: "arbor_rgba16_is_valid_premultiplied (arbor_rgba16_from_srgb8 c)"
proof -
  have "arbor_renderer_unorm16_mul v k \<le> k" for v k
    unfolding word_le_nat_alt arbor_renderer_unorm16_mul_exact
    using unat_u16_le [of v] by (intro round_magnitude_le) (simp_all add: mult.commute)
  then show ?thesis
    by (simp add: arbor_rgba16_is_valid_premultiplied_def arbor_rgba16_from_srgb8_def Let_def)
qed

lemma srgb8_opaque_round_trip:
  assumes "srgb_a c = 255"
  shows "arbor_rgba16_to_srgb8 (arbor_rgba16_from_srgb8 c) = c"
proof -
  have alpha: "(ucast (255 :: u8) * 257 :: u16) = 65535" by simp
  have a: "srgb_a (arbor_rgba16_to_srgb8 \<lparr>px_r = r, px_g = g, px_b = b, px_a = 65535\<rparr>) = 255" for r g b
    using to_srgb8_alpha [of r g b 255] by simp
  have "arbor_renderer_linear16_to_srgb8 (of_nat (lut (unat i))) = i" for i :: u8
    using arbor_renderer_linear16_to_srgb8_inverse [of "unat i"] unat_u8_upper [of i] by simp
  then show ?thesis
    using a assms
    by (cases c) (simp add: arbor_rgba16_from_srgb8_def arbor_rgba16_to_srgb8_def Let_def)
qed

lemma srgb8_alpha_round_trip: "srgb_a (arbor_rgba16_to_srgb8 (arbor_rgba16_from_srgb8 c)) = srgb_a c"
  unfolding arbor_rgba16_from_srgb8_def Let_def by (rule to_srgb8_alpha)

end
