(* ===== verification/Surface.thy ===== *)
theory Surface
  imports Color Device
begin

text \<open>
  Raster surfaces of \<open>src/c/renderer.c\<close>: validation, pixel addressing, pixel load and store,
  and \<open>arbor_renderer_clear\<close>. The bytes behind \<open>surface.pixels\<close> are a list; an access outside
  it is the outcome \<open>None\<close>, so memory safety is a theorem and not an assumption of the model.
  Pixel slots behave as independent variables (locale \<open>pixel_store\<close>), from which the effect of
  every drawing loop on every pixel follows.
\<close>

unbundle bit_operations_syntax

datatype arbor_renderer_status =
    ARBOR_RENDERER_OK
  | ARBOR_RENDERER_INVALID_ARGUMENT
  | ARBOR_RENDERER_OVERFLOW
  | ARBOR_RENDERER_BUFFER_TOO_SMALL
  | ARBOR_RENDERER_PATH_LIMIT

type_synonym pixel_memory = "u8 list"

record arbor_raster_surface =
  surface_pixels :: out_ptr
  surface_width :: u32
  surface_height :: u32
  surface_stride :: u64
  surface_buffer_bytes :: u64

abbreviation BYTES_PER_PIXEL :: nat where "BYTES_PER_PIXEL \<equiv> 8"

section \<open>Surfaces\<close>

definition arbor_renderer_u64_mul_checked :: "nat \<Rightarrow> nat \<Rightarrow> out_ptr \<Rightarrow> nat option" where
  "arbor_renderer_u64_mul_checked left right out =
     (if out = NULL then None
      else if left \<noteq> 0 \<and> right > UINT64_MAX div left then None
      else Some (u64 (left * right)))"

definition arbor_renderer_i64_add_checked :: "int \<Rightarrow> int \<Rightarrow> out_ptr \<Rightarrow> int option" where
  "arbor_renderer_i64_add_checked left right out =
     (if out = NULL then None
      else if (right > 0 \<and> left > s64 (INT64_MAX - right)) \<or> (right < 0 \<and> left < s64 (INT64_MIN - right))
        then None
      else Some (s64 (left + right)))"

definition arbor_renderer_surface_validate :: "arbor_raster_surface \<Rightarrow> arbor_renderer_status" where
  "arbor_renderer_surface_validate surface =
     (case arbor_renderer_u64_mul_checked (unat (surface_width surface)) BYTES_PER_PIXEL Out of
        None \<Rightarrow> ARBOR_RENDERER_OVERFLOW
      | Some row_bytes \<Rightarrow>
          if unat (surface_stride surface) < row_bytes then ARBOR_RENDERER_OVERFLOW
          else
            (case arbor_renderer_u64_mul_checked (unat (surface_stride surface))
                    (unat (surface_height surface)) Out of
               None \<Rightarrow> ARBOR_RENDERER_OVERFLOW
             | Some required_bytes \<Rightarrow>
                 if required_bytes > unat (surface_buffer_bytes surface)
                   then ARBOR_RENDERER_BUFFER_TOO_SMALL
                 else if required_bytes \<noteq> 0 \<and> surface_pixels surface = NULL
                   then ARBOR_RENDERER_INVALID_ARGUMENT
                 else ARBOR_RENDERER_OK))"

definition arbor_raster_surface_init ::
    "out_ptr \<Rightarrow> out_ptr \<Rightarrow> u64 \<Rightarrow> u32 \<Rightarrow> u32 \<Rightarrow> u64 \<Rightarrow> arbor_renderer_status + arbor_raster_surface" where
  "arbor_raster_surface_init out pixels buffer_bytes width height stride_bytes =
     (if out = NULL then Inl ARBOR_RENDERER_INVALID_ARGUMENT
      else
        (case arbor_renderer_u64_mul_checked (unat width) BYTES_PER_PIXEL Out of
           None \<Rightarrow> Inl ARBOR_RENDERER_OVERFLOW
         | Some row_bytes \<Rightarrow>
             if unat stride_bytes < row_bytes then Inl ARBOR_RENDERER_INVALID_ARGUMENT
             else
               (case arbor_renderer_u64_mul_checked (unat stride_bytes) (unat height) Out of
                  None \<Rightarrow> Inl ARBOR_RENDERER_OVERFLOW
                | Some required_bytes \<Rightarrow>
                    if required_bytes > unat buffer_bytes then Inl ARBOR_RENDERER_BUFFER_TOO_SMALL
                    else if required_bytes \<noteq> 0 \<and> pixels = NULL then Inl ARBOR_RENDERER_INVALID_ARGUMENT
                    else Inr \<lparr>surface_pixels = pixels, surface_width = width, surface_height = height,
                              surface_stride = stride_bytes, surface_buffer_bytes = buffer_bytes\<rparr>)))"

definition arbor_raster_surface_pixel_offset ::
    "arbor_raster_surface \<Rightarrow> u32 \<Rightarrow> u32 \<Rightarrow> out_ptr \<Rightarrow> arbor_renderer_status + nat" where
  "arbor_raster_surface_pixel_offset surface x y out_offset =
     (if out_offset = NULL \<or> x \<ge> surface_width surface \<or> y \<ge> surface_height surface \<or>
         surface_pixels surface = NULL
      then Inl ARBOR_RENDERER_INVALID_ARGUMENT
      else
        (case arbor_renderer_u64_mul_checked (unat y) (unat (surface_stride surface)) Out of
           None \<Rightarrow> Inl ARBOR_RENDERER_OVERFLOW
         | Some row_offset \<Rightarrow>
             (case arbor_renderer_u64_mul_checked (unat x) BYTES_PER_PIXEL Out of
                None \<Rightarrow> Inl ARBOR_RENDERER_OVERFLOW
              | Some column_offset \<Rightarrow>
                  if row_offset > UINT64_MAX - column_offset then Inl ARBOR_RENDERER_OVERFLOW
                  else
                    let offset = u64 (row_offset + column_offset)
                    in if offset > unat (surface_buffer_bytes surface) \<or>
                          BYTES_PER_PIXEL > unat (surface_buffer_bytes surface) - offset
                       then Inl ARBOR_RENDERER_BUFFER_TOO_SMALL
                       else Inr offset)))"

section \<open>Pixel memory\<close>

definition arbor_renderer_load_u16_le :: "pixel_memory \<Rightarrow> nat \<Rightarrow> u16 option" where
  "arbor_renderer_load_u16_le mem p =
     (if p + 1 < length mem then Some (ucast (mem ! p) OR push_bit 8 (ucast (mem ! (p + 1)))) else None)"

definition arbor_renderer_store_u16_le :: "pixel_memory \<Rightarrow> nat \<Rightarrow> u16 \<Rightarrow> pixel_memory option" where
  "arbor_renderer_store_u16_le mem p v =
     (if p + 1 < length mem then Some (mem[p := ucast (v AND 255), p + 1 := ucast (drop_bit 8 v)]) else None)"

text \<open>The four loads and the four stores every pixel access of the file makes.\<close>

definition load_pixel :: "pixel_memory \<Rightarrow> nat \<Rightarrow> arbor_rgba16 option" where
  "load_pixel mem p =
     Option.bind (arbor_renderer_load_u16_le mem (p + 0)) (\<lambda>r.
     Option.bind (arbor_renderer_load_u16_le mem (p + 2)) (\<lambda>g.
     Option.bind (arbor_renderer_load_u16_le mem (p + 4)) (\<lambda>b.
     Option.bind (arbor_renderer_load_u16_le mem (p + 6)) (\<lambda>a.
     Some \<lparr>px_r = r, px_g = g, px_b = b, px_a = a\<rparr>))))"

definition store_pixel :: "pixel_memory \<Rightarrow> nat \<Rightarrow> arbor_rgba16 \<Rightarrow> pixel_memory option" where
  "store_pixel mem p v =
     Option.bind (arbor_renderer_store_u16_le mem (p + 0) (px_r v)) (\<lambda>mem.
     Option.bind (arbor_renderer_store_u16_le mem (p + 2) (px_g v)) (\<lambda>mem.
     Option.bind (arbor_renderer_store_u16_le mem (p + 4) (px_b v)) (\<lambda>mem.
     arbor_renderer_store_u16_le mem (p + 6) (px_a v))))"

definition arbor_raster_surface_get_pixel ::
    "pixel_memory \<Rightarrow> arbor_raster_surface \<Rightarrow> u32 \<Rightarrow> u32 \<Rightarrow> out_ptr \<Rightarrow>
     (arbor_renderer_status + arbor_rgba16) option" where
  "arbor_raster_surface_get_pixel mem surface x y out =
     (if out = NULL then Some (Inl ARBOR_RENDERER_INVALID_ARGUMENT)
      else
        (case arbor_raster_surface_pixel_offset surface x y Out of
           Inl status \<Rightarrow> Some (Inl status)
         | Inr offset \<Rightarrow> map_option Inr (load_pixel mem offset)))"

definition arbor_raster_surface_set_pixel ::
    "pixel_memory \<Rightarrow> arbor_raster_surface \<Rightarrow> u32 \<Rightarrow> u32 \<Rightarrow> arbor_rgba16 \<Rightarrow>
     (arbor_renderer_status \<times> pixel_memory) option" where
  "arbor_raster_surface_set_pixel mem surface x y pixel =
     (if \<not> arbor_rgba16_is_valid_premultiplied pixel then Some (ARBOR_RENDERER_INVALID_ARGUMENT, mem)
      else
        (case arbor_raster_surface_pixel_offset surface x y Out of
           Inl status \<Rightarrow> Some (status, mem)
         | Inr offset \<Rightarrow> map_option (Pair ARBOR_RENDERER_OK) (store_pixel mem offset pixel)))"

text \<open>
  \<open>arbor_renderer_clear\<close> copies the packed pixel eight times per iteration while at least
  eight pixels remain, then once per pixel.
\<close>

definition packed_pixel :: "arbor_rgba16 \<Rightarrow> u64" where
  "packed_pixel color =
     ucast (px_r color) OR push_bit 16 (ucast (px_g color)) OR push_bit 32 (ucast (px_b color)) OR
     push_bit 48 (ucast (px_a color))"

definition memcpy_u64 :: "pixel_memory \<Rightarrow> nat \<Rightarrow> u64 \<Rightarrow> pixel_memory option" where
  "memcpy_u64 mem p packed =
     (if p + 8 \<le> length mem
      then Some (take p mem @ map (\<lambda>i. ucast (drop_bit (8 * i) packed)) [0..<8] @ drop (p + 8) mem)
      else None)"

fun clear_row :: "u64 \<Rightarrow> nat \<Rightarrow> nat \<Rightarrow> pixel_memory \<Rightarrow> pixel_memory option" where
  "clear_row packed p remaining mem =
     (if remaining \<ge> 8 then
        Option.bind (memcpy_u64 mem (p + 0) packed) (\<lambda>mem.
        Option.bind (memcpy_u64 mem (p + 8) packed) (\<lambda>mem.
        Option.bind (memcpy_u64 mem (p + 16) packed) (\<lambda>mem.
        Option.bind (memcpy_u64 mem (p + 24) packed) (\<lambda>mem.
        Option.bind (memcpy_u64 mem (p + 32) packed) (\<lambda>mem.
        Option.bind (memcpy_u64 mem (p + 40) packed) (\<lambda>mem.
        Option.bind (memcpy_u64 mem (p + 48) packed) (\<lambda>mem.
        Option.bind (memcpy_u64 mem (p + 56) packed) (\<lambda>mem.
        clear_row packed (p + 64) (remaining - 8) mem))))))))
      else if remaining \<noteq> 0 then
        Option.bind (memcpy_u64 mem p packed) (\<lambda>mem. clear_row packed (p + 8) (remaining - 1) mem)
      else Some mem)"

declare clear_row.simps [simp del]

primrec clear_rows :: "arbor_raster_surface \<Rightarrow> u64 \<Rightarrow> nat list \<Rightarrow> pixel_memory \<Rightarrow> pixel_memory option" where
  "clear_rows surface packed [] mem = Some mem"
| "clear_rows surface packed (y # ys) mem =
     Option.bind (clear_row packed (u64 (y * unat (surface_stride surface))) (unat (surface_width surface)) mem)
       (clear_rows surface packed ys)"

definition arbor_renderer_clear ::
    "pixel_memory \<Rightarrow> arbor_raster_surface \<Rightarrow> arbor_rgba16 \<Rightarrow> (arbor_renderer_status \<times> pixel_memory) option" where
  "arbor_renderer_clear mem surface color =
     (let packed = packed_pixel color in
      if \<not> arbor_rgba16_is_valid_premultiplied color then Some (ARBOR_RENDERER_INVALID_ARGUMENT, mem)
      else if arbor_renderer_surface_validate surface \<noteq> ARBOR_RENDERER_OK
        then Some (arbor_renderer_surface_validate surface, mem)
      else map_option (Pair ARBOR_RENDERER_OK)
             (clear_rows surface packed [0..<unat (surface_height surface)] mem))"

section \<open>Checked arithmetic\<close>

lemma arbor_renderer_u64_mul_checked_eq:
  "arbor_renderer_u64_mul_checked a b Out = (if a * b \<le> UINT64_MAX then Some (a * b) else None)"
proof (cases "a = 0")
  case False
  then have "UINT64_MAX div a < b \<longleftrightarrow> UINT64_MAX < a * b"
    by (simp add: div_less_iff_less_mult mult.commute)
  then show ?thesis
    using False by (auto simp: arbor_renderer_u64_mul_checked_def u64_id)
qed (simp add: arbor_renderer_u64_mul_checked_def u64_def)

lemma arbor_renderer_i64_add_checked_eq:
  assumes "in_i64 a" and "in_i64 b"
  shows "arbor_renderer_i64_add_checked a b Out = (if in_i64 (a + b) then Some (a + b) else None)"
  using assms by (auto simp: arbor_renderer_i64_add_checked_def in_i64_def s64_id)

lemma unat_u32_product8: "unat (w :: u32) * 8 \<le> 34359738360"
  using unat_u32_upper [of w] by linarith

text \<open>A surface is usable when its rows do not overlap and lie in the buffer.\<close>

definition surface_fits :: "arbor_raster_surface \<Rightarrow> bool" where
  "surface_fits s \<longleftrightarrow>
     unat (surface_width s) * 8 \<le> unat (surface_stride s) \<and>
     unat (surface_stride s) * unat (surface_height s) \<le> unat (surface_buffer_bytes s) \<and>
     (unat (surface_stride s) * unat (surface_height s) \<noteq> 0 \<longrightarrow> surface_pixels s = Out)"

lemma out_ptr_not_NULL: "p \<noteq> NULL \<longleftrightarrow> p = Out"
  by (cases p) simp_all

lemma surface_validate_OK_iff: "arbor_renderer_surface_validate s = ARBOR_RENDERER_OK \<longleftrightarrow> surface_fits s"
  using unat_u64_upper [of "surface_buffer_bytes s"] unat_u32_product8 [of "surface_width s"]
  by (auto simp: arbor_renderer_surface_validate_def arbor_renderer_u64_mul_checked_eq surface_fits_def
    not_less not_le out_ptr_not_NULL split: if_splits)

lemma arbor_raster_surface_init_fits:
  "arbor_raster_surface_init Out pixels buf w h stride = Inr s \<Longrightarrow> surface_fits s"
  using unat_u32_product8 [of w]
  by (auto simp: arbor_raster_surface_init_def arbor_renderer_u64_mul_checked_eq surface_fits_def
    not_less not_le out_ptr_not_NULL split: if_splits)

section \<open>Bytes and pixels\<close>

definition word16 :: "u8 \<Rightarrow> u8 \<Rightarrow> u16" where
  "word16 low high = ucast low OR push_bit 8 (ucast high)"

definition pixel_bytes :: "arbor_rgba16 \<Rightarrow> u8 list" where
  "pixel_bytes v = concat (map (\<lambda>c. [ucast (c AND 255), ucast (drop_bit 8 c)]) [px_r v, px_g v, px_b v, px_a v])"

lemma bit_u16_255: "n < 16 \<Longrightarrow> bit (255 :: u16) n \<longleftrightarrow> n < 8"
  using bit_mask_iff [of 8 n, where ?'a = "16 word"] by (simp add: mask_eq_exp_minus_1)

lemma word16_split: "word16 (ucast (v AND 255)) (ucast (drop_bit 8 v)) = v"
proof (rule bit_word_eqI)
  fix n assume "n < LENGTH(16)"
  then show "bit (word16 (ucast (v AND 255)) (ucast (drop_bit 8 v))) n = bit v n"
    using bit_u16_255 [of n] by (cases "n < 8") (auto simp: word16_def bit_or_iff bit_and_iff bit_push_bit_iff bit_word_ucast_iff
      bit_drop_bit_eq)
qed

lemma length_8_list: "length xs = 8 \<Longrightarrow> \<exists>b0 b1 b2 b3 b4 b5 b6 b7. xs = [b0, b1, b2, b3, b4, b5, b6, b7]"
  by (auto simp: length_Suc_conv eval_nat_numeral)

lemma slot_split:
  assumes "p + 8 \<le> length mem"
  obtains A b0 b1 b2 b3 b4 b5 b6 b7 C where "mem = A @ b0 # b1 # b2 # b3 # b4 # b5 # b6 # b7 # C"
    and "p = length A"
proof -
  from length_8_list [of "take 8 (drop p mem)"] assms
  obtain b0 b1 b2 b3 b4 b5 b6 b7 where b: "take 8 (drop p mem) = [b0, b1, b2, b3, b4, b5, b6, b7]"
    by auto
  have "mem = take p mem @ take 8 (drop p mem) @ drop 8 (drop p mem)"
    by (simp only: append_take_drop_id)
  then show ?thesis using that [of "take p mem"] b assms by simp
qed

lemma store_pixel_bytes:
  assumes "p + 8 \<le> length mem"
  shows "store_pixel mem p v = Some (take p mem @ pixel_bytes v @ drop (p + 8) mem)"
  using assms
  by (elim slot_split) (simp add: store_pixel_def arbor_renderer_store_u16_le_def list_update_append
    pixel_bytes_def eval_nat_numeral)

lemma load_pixel_bytes:
  "load_pixel (A @ b0 # b1 # b2 # b3 # b4 # b5 # b6 # b7 # C) (length A) =
     Some \<lparr>px_r = word16 b0 b1, px_g = word16 b2 b3, px_b = word16 b4 b5, px_a = word16 b6 b7\<rparr>"
  by (simp add: load_pixel_def arbor_renderer_load_u16_le_def nth_append word16_def eval_nat_numeral)

lemma length_pixel_bytes [simp]: "length (pixel_bytes v) = 8"
  by (simp add: pixel_bytes_def)

lemma store_pixel_Some:
  assumes "p + 8 \<le> length mem"
  obtains mem' where "store_pixel mem p v = Some mem'" and "length mem' = length mem"
    and "load_pixel mem' p = Some v"
    and "\<And>i. i < p \<or> p + 8 \<le> i \<Longrightarrow> mem' ! i = mem ! i"
proof -
  let ?mem' = "take p mem @ pixel_bytes v @ drop (p + 8) mem"
  have "load_pixel ?mem' p = Some v"
    using load_pixel_bytes [of "take p mem"] assms
    by (simp add: pixel_bytes_def word16_split)
  moreover have "?mem' ! i = mem ! i" if "i < p \<or> p + 8 \<le> i" for i
    using that assms by (auto simp: nth_append)
  ultimately show ?thesis
    using that store_pixel_bytes [OF assms] assms by simp
qed

lemma load_pixel_cong:
  assumes "length mem = length mem'" and "\<And>i. q \<le> i \<Longrightarrow> i < q + 8 \<Longrightarrow> mem ! i = mem' ! i"
  shows "load_pixel mem q = load_pixel mem' q"
  using assms by (simp add: load_pixel_def arbor_renderer_load_u16_le_def)

lemma load_pixel_Some:
  assumes "p + 8 \<le> length mem"
  obtains v where "load_pixel mem p = Some v"
  using assms by (elim slot_split) (simp add: load_pixel_bytes)

lemma bit_packed_pixel:
  assumes "n < 16"
  shows "bit (packed_pixel c) n = bit (px_r c) n" "bit (packed_pixel c) (16 + n) = bit (px_g c) n"
    "bit (packed_pixel c) (32 + n) = bit (px_b c) n" "bit (packed_pixel c) (48 + n) = bit (px_a c) n"
  using assms
  by (auto simp: packed_pixel_def bit_or_iff bit_push_bit_iff bit_word_ucast_iff dest: bit_imp_le_length)

lemma packed_pixel_bytes: "map (\<lambda>i. ucast (drop_bit (8 * i) (packed_pixel c))) [0..<8] = pixel_bytes c"
proof -
  have low: "(ucast (drop_bit k (packed_pixel c)) :: u8) = ucast (v AND 255)"
    if "\<And>n. n < 16 \<Longrightarrow> bit (packed_pixel c) (k + n) = bit v n" for k and v :: u16
  proof (rule bit_word_eqI)
    fix n assume "n < LENGTH(8)"
    then show "bit (ucast (drop_bit k (packed_pixel c)) :: u8) n = bit (ucast (v AND 255) :: u8) n"
      using that [of n] bit_u16_255 [of n] by (simp add: bit_word_ucast_iff bit_drop_bit_eq bit_and_iff)
  qed
  have high: "(ucast (drop_bit (k + 8) (packed_pixel c)) :: u8) = ucast (drop_bit 8 v)"
    if "\<And>n. n < 16 \<Longrightarrow> bit (packed_pixel c) (k + n) = bit v n" for k and v :: u16
  proof (rule bit_word_eqI)
    fix n assume "n < LENGTH(8)"
    then show "bit (ucast (drop_bit (k + 8) (packed_pixel c)) :: u8) n = bit (ucast (drop_bit 8 v) :: u8) n"
      using that [of "8 + n"] by (simp add: bit_word_ucast_iff bit_drop_bit_eq add.assoc)
  qed
  have upt: "[0..<8] = [0, 1, 2, 3, 4, 5, 6, 7 :: nat]" by (simp add: upt_rec)
  show ?thesis
    unfolding upt pixel_bytes_def
    using low [of 0 "px_r c"] low [of 16 "px_g c"] low [of 32 "px_b c"] low [of 48 "px_a c"]
      high [of 0 "px_r c"] high [of 16 "px_g c"] high [of 32 "px_b c"] high [of 48 "px_a c"]
    by (simp add: bit_packed_pixel)
qed

lemma memcpy_packed_pixel:
  "p + 8 \<le> length mem \<Longrightarrow> memcpy_u64 mem p (packed_pixel c) = store_pixel mem p c"
  unfolding memcpy_u64_def packed_pixel_bytes by (simp add: store_pixel_bytes)

section \<open>Pixel slots\<close>

definition pixel_inside :: "arbor_raster_surface \<Rightarrow> nat \<times> nat \<Rightarrow> bool" where
  "pixel_inside s p \<longleftrightarrow> surface_fits s \<and> fst p < unat (surface_width s) \<and> snd p < unat (surface_height s)"

definition pixel_slot :: "arbor_raster_surface \<Rightarrow> nat \<times> nat \<Rightarrow> nat" where
  "pixel_slot s p = snd p * unat (surface_stride s) + fst p * 8"

definition memory_ok :: "arbor_raster_surface \<Rightarrow> pixel_memory \<Rightarrow> bool" where
  "memory_ok s mem \<longleftrightarrow> unat (surface_buffer_bytes s) \<le> length mem"

definition pixel_at :: "arbor_raster_surface \<Rightarrow> pixel_memory \<Rightarrow> nat \<times> nat \<Rightarrow> arbor_rgba16" where
  "pixel_at s mem p = the (load_pixel mem (pixel_slot s p))"

definition put_pixel :: "arbor_raster_surface \<Rightarrow> pixel_memory \<Rightarrow> nat \<times> nat \<Rightarrow> arbor_rgba16 \<Rightarrow> pixel_memory" where
  "put_pixel s mem p v = the (store_pixel mem (pixel_slot s p) v)"

lemma row_end:
  assumes "surface_fits s" and "x < unat (surface_width s)"
  shows "x * 8 + 8 \<le> unat (surface_stride s)"
  using assms unfolding surface_fits_def by linarith

lemma row_bound:
  assumes "y < (h :: nat)"
  shows "y * stride + stride \<le> stride * h"
proof -
  have "(y + 1) * stride \<le> h * stride" using assms by (intro mult_le_mono1) simp
  then show ?thesis by (simp add: mult.commute)
qed

lemma pixel_slot_bound: "pixel_inside s p \<Longrightarrow> pixel_slot s p + 8 \<le> unat (surface_buffer_bytes s)"
  using row_end [of s "fst p"] row_bound [of "snd p" "unat (surface_height s)" "unat (surface_stride s)"]
  unfolding pixel_inside_def pixel_slot_def surface_fits_def by linarith

lemma pixel_slot_row_less:
  assumes "surface_fits s" and "x < unat (surface_width s)" and "y < y'"
  shows "pixel_slot s (x, y) + 8 \<le> pixel_slot s (x', y')"
proof -
  have "y * unat (surface_stride s) + unat (surface_stride s) \<le> unat (surface_stride s) * y'"
    by (rule row_bound [OF assms(3)])
  then show ?thesis
    using row_end [OF assms(1,2)] by (simp add: pixel_slot_def mult.commute)
qed

lemma pixel_slot_disjoint:
  assumes "pixel_inside s p" and "pixel_inside s q" and "p \<noteq> q"
  shows "pixel_slot s p + 8 \<le> pixel_slot s q \<or> pixel_slot s q + 8 \<le> pixel_slot s p"
proof -
  obtain x y x' y' where pq: "p = (x, y)" "q = (x', y')" by (cases p; cases q)
  have "y < y' \<or> y' < y \<or> (y = y' \<and> x < x') \<or> (y = y' \<and> x' < x)"
    using assms(3) pq by auto
  then consider "y < y'" | "y' < y" | "y = y'" "x < x'" | "y = y'" "x' < x" by blast
  then show ?thesis
  proof cases
    case 1
    then show ?thesis using pixel_slot_row_less [of s x y y' x'] assms(1) by (simp add: pq pixel_inside_def)
  next
    case 2
    then show ?thesis using pixel_slot_row_less [of s x' y' y x] assms(2) by (simp add: pq pixel_inside_def)
  qed (simp_all add: pq pixel_slot_def)
qed

lemma arbor_raster_surface_pixel_offset_inside:
  assumes "pixel_inside s (unat x, unat y)"
  shows "arbor_raster_surface_pixel_offset s x y Out = Inr (pixel_slot s (unat x, unat y))"
proof -
  note b = pixel_slot_bound [OF assms] unat_u64_upper [of "surface_buffer_bytes s"]
  have "unat (surface_stride s) * unat (surface_height s) \<noteq> 0"
    using assms row_end [of s "unat x"] by (auto simp: pixel_inside_def)
  then have "surface_pixels s = Out"
    using assms by (simp add: pixel_inside_def surface_fits_def)
  moreover have "unat y * unat (surface_stride s) \<le> UINT64_MAX" "unat x * 8 \<le> UINT64_MAX"
    "\<not> UINT64_MAX - unat x * 8 < unat y * unat (surface_stride s)"
    using b unfolding pixel_slot_def fst_conv snd_conv by linarith+
  ultimately show ?thesis
    using assms b
    by (simp add: arbor_raster_surface_pixel_offset_def arbor_renderer_u64_mul_checked_eq pixel_inside_def
      pixel_slot_def word_less_nat_alt not_le u64_id Let_def)
qed

lemma pixel_slot_ok: "pixel_inside s p \<Longrightarrow> memory_ok s mem \<Longrightarrow> pixel_slot s p + 8 \<le> length mem"
  using pixel_slot_bound [of s p] by (simp add: memory_ok_def)

lemma load_pixel_slot:
  assumes "pixel_inside s p" and "memory_ok s mem"
  shows "load_pixel mem (pixel_slot s p) = Some (pixel_at s mem p)"
  using load_pixel_Some [OF pixel_slot_ok [OF assms]] by (metis option.sel pixel_at_def)

lemma store_pixel_slot:
  assumes "pixel_inside s p" and "memory_ok s mem"
  shows "store_pixel mem (pixel_slot s p) v = Some (put_pixel s mem p v)"
  using store_pixel_Some [OF pixel_slot_ok [OF assms]] by (metis option.sel put_pixel_def)

lemma put_pixel_facts:
  assumes "pixel_inside s p" and "memory_ok s mem"
  shows "length (put_pixel s mem p v) = length mem" and "pixel_at s (put_pixel s mem p v) p = v"
    and "\<And>i. i < pixel_slot s p \<or> pixel_slot s p + 8 \<le> i \<Longrightarrow> put_pixel s mem p v ! i = mem ! i"
  using store_pixel_Some [OF pixel_slot_ok [OF assms], of v] store_pixel_slot [OF assms, of v]
  by (metis option.sel pixel_at_def)+

section \<open>The surface as a store of pixels\<close>

text \<open>
  What drawing code needs of the surface: writing a slot changes that slot and no other.
  A loop that updates a list of distinct slots then changes exactly those, each once.
\<close>

locale pixel_store =
  fixes inside :: "'p \<Rightarrow> bool" and ok :: "'m \<Rightarrow> bool"
    and get :: "'m \<Rightarrow> 'p \<Rightarrow> 'v" and put :: "'m \<Rightarrow> 'p \<Rightarrow> 'v \<Rightarrow> 'm"
  assumes put_ok: "inside p \<Longrightarrow> ok m \<Longrightarrow> ok (put m p v)"
    and get_put_same: "inside p \<Longrightarrow> ok m \<Longrightarrow> get (put m p v) p = v"
    and get_put_other: "inside p \<Longrightarrow> inside q \<Longrightarrow> ok m \<Longrightarrow> p \<noteq> q \<Longrightarrow> get (put m p v) q = get m q"
begin

definition update_all :: "('p \<Rightarrow> 'v \<Rightarrow> 'v) \<Rightarrow> 'p list \<Rightarrow> 'm \<Rightarrow> 'm" where
  "update_all f ps m = fold (\<lambda>p m. put m p (f p (get m p))) ps m"

lemma update_all_simps [simp]:
  "update_all f [] m = m"
  "update_all f (p # ps) m = update_all f ps (put m p (f p (get m p)))"
  by (simp_all add: update_all_def)

lemma update_all_append: "update_all f (ps @ qs) m = update_all f qs (update_all f ps m)"
  by (simp add: update_all_def)

lemma update_all_ok: "\<forall>p\<in>set ps. inside p \<Longrightarrow> ok m \<Longrightarrow> ok (update_all f ps m)"
  by (induction ps arbitrary: m) (simp_all add: put_ok)

lemma get_update_all:
  assumes "\<forall>p\<in>set ps. inside p" and "distinct ps" and "ok m" and "inside q"
  shows "get (update_all f ps m) q = (if q \<in> set ps then f q (get m q) else get m q)"
  using assms(1-3)
proof (induction ps arbitrary: m)
  case (Cons p ps)
  then have "get (update_all f (p # ps) m) q =
      (if q \<in> set ps then f q (get (put m p (f p (get m p))) q) else get (put m p (f p (get m p))) q)"
    by (simp add: put_ok)
  then show ?case
    using Cons.prems assms(4) by (cases "q = p") (auto simp: get_put_same get_put_other)
qed simp

lemma update_all_invariant:
  assumes "\<forall>p\<in>set ps. inside p" and "ok m" and "\<And>q. inside q \<Longrightarrow> P (get m q)"
    and "\<And>p v. P v \<Longrightarrow> P (f p v)" and "inside q"
  shows "P (get (update_all f ps m) q)"
  using assms(1-3)
proof (induction ps arbitrary: m)
  case (Cons p ps)
  have "P (get (put m p (f p (get m p))) r)" if "inside r" for r
    using that Cons.prems assms(4) by (cases "r = p") (auto simp: get_put_same get_put_other)
  then show ?case
    using Cons.prems by (simp add: Cons.IH put_ok)
qed (simp add: assms(5))

end

interpretation surface: pixel_store "pixel_inside s" "memory_ok s" "pixel_at s" "put_pixel s" for s
proof
  fix p q :: "nat \<times> nat" and m v
  assume p: "pixel_inside s p" and m: "memory_ok s m"
  note facts = put_pixel_facts [OF p m, where v = v]
  show "memory_ok s (put_pixel s m p v)" using m facts(1) by (simp add: memory_ok_def)
  show "pixel_at s (put_pixel s m p v) p = v" by (rule facts(2))
  assume q: "pixel_inside s q" and "p \<noteq> q"
  have "load_pixel (put_pixel s m p v) (pixel_slot s q) = load_pixel m (pixel_slot s q)"
  proof (rule load_pixel_cong [OF facts(1)])
    fix i assume "pixel_slot s q \<le> i" "i < pixel_slot s q + 8"
    then show "put_pixel s m p v ! i = m ! i"
      using pixel_slot_disjoint [OF p q \<open>p \<noteq> q\<close>] facts(3) [of i] by linarith
  qed
  then show "pixel_at s (put_pixel s m p v) q = pixel_at s m q" by (simp add: pixel_at_def)
qed

lemma update_all_length:
  "\<forall>p\<in>set ps. pixel_inside s p \<Longrightarrow> memory_ok s m \<Longrightarrow> length (surface.update_all s f ps m) = length m"
  by (induction ps arbitrary: m) (simp_all add: put_pixel_facts(1) surface.put_ok)

section \<open>Clearing\<close>

abbreviation row_pixels :: "nat \<Rightarrow> nat list \<Rightarrow> (nat \<times> nat) list" where
  "row_pixels y xs \<equiv> map (\<lambda>x. (x, y)) xs"

definition surface_pixel_list :: "arbor_raster_surface \<Rightarrow> (nat \<times> nat) list" where
  "surface_pixel_list s =
     concat (map (\<lambda>y. row_pixels y [0..<unat (surface_width s)]) [0..<unat (surface_height s)])"

lemma set_surface_pixel_list:
  "surface_fits s \<Longrightarrow> p \<in> set (surface_pixel_list s) \<longleftrightarrow> pixel_inside s p"
  by (cases p) (auto simp: surface_pixel_list_def pixel_inside_def image_iff)

lemma distinct_rows: "distinct ys \<Longrightarrow> distinct xs \<Longrightarrow> distinct (concat (map (\<lambda>y. row_pixels y xs) ys))"
  by (induction ys) (auto simp: distinct_map inj_on_def)

lemma distinct_surface_pixel_list: "distinct (surface_pixel_list s)"
  unfolding surface_pixel_list_def by (rule distinct_rows) simp_all

lemma memcpy_slot:
  assumes "pixel_inside s (x + k, y)" and "memory_ok s mem"
  shows "memcpy_u64 mem (pixel_slot s (x, y) + 8 * k) (packed_pixel c) = Some (put_pixel s mem (x + k, y) c)"
proof -
  have slot: "pixel_slot s (x, y) + 8 * k = pixel_slot s (x + k, y)" by (simp add: pixel_slot_def)
  show ?thesis
    unfolding slot using store_pixel_slot [OF assms] memcpy_packed_pixel [OF pixel_slot_ok [OF assms]] by simp
qed

lemma upt_8:
  assumes "8 \<le> n"
  shows "[x..<x + n] = [x, x + 1, x + 2, x + 3, x + 4, x + 5, x + 6, x + 7] @ [x + 8..<x + n]"
proof -
  have "[x..<x + n] = [x..<x + 8] @ [x + 8..<x + n]"
    using upt_add_eq_append [of x "x + 8" "n - 8"] assms by simp
  moreover have "[x..<x + 8] = [x, x + 1, x + 2, x + 3, x + 4, x + 5, x + 6, x + 7]"
    by (simp add: upt_rec)
  ultimately show ?thesis by simp
qed

lemma clear_row_update:
  assumes "\<And>k. k < n \<Longrightarrow> pixel_inside s (x + k, y)" and "memory_ok s mem"
  shows "clear_row (packed_pixel c) (pixel_slot s (x, y)) n mem =
    Some (surface.update_all s (\<lambda>_ _. c) (row_pixels y [x..<x + n]) mem)"
  using assms
proof (induction n arbitrary: x mem rule: less_induct)
  case (less n)
  note ok = surface.put_ok [where s = s]
  have inside: "pixel_inside s (x + k, y)" if "k < n" for k by (rule less.prems(1) [OF that])
  have one: "memcpy_u64 m (pixel_slot s (x, y) + 8 * k) (packed_pixel c) = Some (put_pixel s m (x + k, y) c)"
    if "k < n" "memory_ok s m" for k m by (rule memcpy_slot [OF inside [OF that(1)] that(2)])
  have next_slot: "pixel_slot s (x, y) + 8 * k = pixel_slot s (x + k, y)" for k by (simp add: pixel_slot_def)
  consider "8 \<le> n" | "0 < n" "n < 8" | "n = 0" by linarith
  then show ?case
  proof cases
    case 1
    have tail: "clear_row (packed_pixel c) (pixel_slot s (x, y) + 64) (n - 8) m =
        Some (surface.update_all s (\<lambda>_ _. c) (row_pixels y [x + 8..<x + n]) m)" if "memory_ok s m" for m
      using less.IH [of "n - 8" "x + 8" m] inside [of "k + 8" for k] that 1 next_slot [of 8]
      by (simp add: add.assoc add.commute add.left_commute)
    show ?thesis
      using 1 one [of 0] one [of 1] one [of 2] one [of 3] one [of 4] one [of 5] one [of 6] one [of 7]
        inside [of 0] inside [of 1] inside [of 2] inside [of 3] inside [of 4] inside [of 5] inside [of 6] inside [of 7]
      by (subst clear_row.simps) (simp add: tail ok less.prems(2) upt_8 [OF 1])
  next
    case 2
    have tail: "clear_row (packed_pixel c) (pixel_slot s (x, y) + 8) (n - Suc 0) m =
        Some (surface.update_all s (\<lambda>_ _. c) (row_pixels y [Suc x..<x + n]) m)" if "memory_ok s m" for m
      using less.IH [of "n - 1" "x + 1" m] inside [of "k + 1" for k] that 2 next_slot [of 1]
      by (simp add: add.assoc add.commute add.left_commute)
    have "[x..<x + n] = x # [Suc x..<x + n]" using 2 by (simp add: upt_conv_Cons)
    then show ?thesis
      using 2 one [of 0] inside [of 0]
      by (subst clear_row.simps) (simp add: tail ok less.prems(2))
  qed (simp add: clear_row.simps)
qed

lemma clear_rows_update:
  assumes "surface_fits s" and "\<forall>y\<in>set ys. y < unat (surface_height s)" and "memory_ok s mem"
  shows "clear_rows s (packed_pixel c) ys mem =
    Some (surface.update_all s (\<lambda>_ _. c) (concat (map (\<lambda>y. row_pixels y [0..<unat (surface_width s)]) ys)) mem)"
  using assms(2,3)
proof (induction ys arbitrary: mem)
  case (Cons y ys)
  have inside: "pixel_inside s (x, y)" if "x < unat (surface_width s)" for x
    using that assms(1) Cons.prems(1) by (simp add: pixel_inside_def)
  have "y * unat (surface_stride s) \<le> unat (surface_buffer_bytes s)"
    using assms(1) Cons.prems(1) row_bound [of y "unat (surface_height s)" "unat (surface_stride s)"]
    by (simp add: surface_fits_def)
  then have "u64 (y * unat (surface_stride s)) = pixel_slot s (0, y)"
    using unat_u64_upper [of "surface_buffer_bytes s"] by (simp add: pixel_slot_def u64_id)
  then show ?case
    using clear_row_update [of "unat (surface_width s)" s 0 y mem c] inside Cons
    by (simp add: surface.update_all_append surface.update_all_ok)
qed simp

lemma arbor_renderer_clear_exact:
  assumes "surface_fits s" and "memory_ok s mem" and "arbor_rgba16_is_valid_premultiplied c"
  shows "arbor_renderer_clear mem s c =
    Some (ARBOR_RENDERER_OK, surface.update_all s (\<lambda>_ _. c) (surface_pixel_list s) mem)"
  using assms clear_rows_update [OF assms(1) _ assms(2), of "[0..<unat (surface_height s)]" c]
  by (simp add: arbor_renderer_clear_def Let_def surface_validate_OK_iff surface_pixel_list_def)

section \<open>Reading and writing one pixel\<close>

lemma pixel_offset_Inr_inside:
  assumes "surface_fits s" and "arbor_raster_surface_pixel_offset s x y Out = Inr off"
  shows "pixel_inside s (unat x, unat y)"
  using assms by (auto simp: arbor_raster_surface_pixel_offset_def pixel_inside_def word_less_nat_alt not_le
    split: if_splits)

lemma arbor_raster_surface_get_pixel_exact:
  assumes "pixel_inside s (unat x, unat y)" and "memory_ok s mem"
  shows "arbor_raster_surface_get_pixel mem s x y Out = Some (Inr (pixel_at s mem (unat x, unat y)))"
  by (simp add: arbor_raster_surface_get_pixel_def arbor_raster_surface_pixel_offset_inside [OF assms(1)]
    load_pixel_slot [OF assms])

lemma arbor_raster_surface_set_pixel_exact:
  assumes "pixel_inside s (unat x, unat y)" and "memory_ok s mem" and "arbor_rgba16_is_valid_premultiplied v"
  shows "arbor_raster_surface_set_pixel mem s x y v =
    Some (ARBOR_RENDERER_OK, put_pixel s mem (unat x, unat y) v)"
  using assms(3) by (simp add: arbor_raster_surface_set_pixel_def store_pixel_slot [OF assms(1,2)]
    arbor_raster_surface_pixel_offset_inside [OF assms(1)])

text \<open>
  Even a surface record nobody validated cannot make a checked access leave the buffer.
\<close>

lemma pixel_offset_in_buffer:
  "arbor_raster_surface_pixel_offset s x y out = Inr off \<Longrightarrow> off + 8 \<le> unat (surface_buffer_bytes s)"
  by (auto simp: arbor_raster_surface_pixel_offset_def Let_def not_less split: if_splits option.splits)

end
