(* ===== verification/Fill.thy ===== *)
theory Fill
  imports Surface
begin

text \<open>
  Rectangle filling of \<open>src/c/renderer.c\<close>: pixel bounds of a device rectangle, the coverage of a
  pixel by it (nearest-even product of the two overlaps), blending, and
  \<open>arbor_renderer_fill_rect\<close>. The loop is shown to blend every pixel of the surface with its own
  coverage and to touch no other byte.
\<close>

record arbor_pixel_bounds =
  pb_left :: int
  pb_top :: int
  pb_right :: int
  pb_bottom :: int

section \<open>The code\<close>

definition arbor_renderer_floor_q32 :: "int \<Rightarrow> int" where
  "arbor_renderer_floor_q32 val =
     (let quotient = c_div val ARBOR_COORD_ONE; remainder = c_mod val ARBOR_COORD_ONE
      in if val < 0 \<and> remainder \<noteq> 0 then s64 (quotient - 1) else quotient)"

definition arbor_renderer_ceil_q32 :: "int \<Rightarrow> int" where
  "arbor_renderer_ceil_q32 val =
     (let quotient = c_div val ARBOR_COORD_ONE; remainder = c_mod val ARBOR_COORD_ONE
      in if val > 0 \<and> remainder \<noteq> 0 then s64 (quotient + 1) else quotient)"

definition arbor_renderer_overlap_q32 :: "int \<Rightarrow> int \<Rightarrow> int \<Rightarrow> int \<Rightarrow> u64" where
  "arbor_renderer_overlap_q32 shape_start shape_end pixel_start pixel_end =
     (let overlap_start = (if shape_start > pixel_start then shape_start else pixel_start);
          overlap_end = (if shape_end < pixel_end then shape_end else pixel_end)
      in if overlap_end \<le> overlap_start then 0 else word_of_int (s64 (overlap_end - overlap_start)))"

definition arbor_renderer_rect_pixel_bounds ::
    "arbor_device_rect \<Rightarrow> u32 \<Rightarrow> u32 \<Rightarrow> out_ptr \<Rightarrow> arbor_renderer_status + arbor_pixel_bounds" where
  "arbor_renderer_rect_pixel_bounds rect width height out =
     (let failed = Inl (if sint (drect_width rect) < 0 \<or> sint (drect_height rect) < 0
                        then ARBOR_RENDERER_INVALID_ARGUMENT else ARBOR_RENDERER_OVERFLOW)
      in if out = NULL \<or> sint (drect_width rect) < 0 \<or> sint (drect_height rect) < 0 then failed
      else
        (case (arbor_renderer_i64_add_checked (sint (drect_x rect)) (sint (drect_width rect)) Out,
               arbor_renderer_i64_add_checked (sint (drect_y rect)) (sint (drect_height rect)) Out) of
           (Some right_raw, Some bottom_raw) \<Rightarrow>
             let left = arbor_renderer_floor_q32 (sint (drect_x rect));
                 upper = arbor_renderer_floor_q32 (sint (drect_y rect));
                 right = arbor_renderer_ceil_q32 right_raw;
                 bottom = arbor_renderer_ceil_q32 bottom_raw;
                 left = (if left < 0 then 0 else left);
                 upper = (if upper < 0 then 0 else upper);
                 right = (if right < 0 then 0 else right);
                 bottom = (if bottom < 0 then 0 else bottom);
                 left = (if left > int (unat width) then int (unat width) else left);
                 right = (if right > int (unat width) then int (unat width) else right);
                 upper = (if upper > int (unat height) then int (unat height) else upper);
                 bottom = (if bottom > int (unat height) then int (unat height) else bottom);
                 right = (if right < left then left else right);
                 bottom = (if bottom < upper then upper else bottom)
             in Inr \<lparr>pb_left = left, pb_top = upper, pb_right = right, pb_bottom = bottom\<rparr>
         | _ \<Rightarrow> failed))"

definition arbor_renderer_rect_coverage_edges ::
    "int \<Rightarrow> int \<Rightarrow> int \<Rightarrow> int \<Rightarrow> int \<Rightarrow> int \<Rightarrow> arbor_coverage" where
  "arbor_renderer_rect_coverage_edges left_raw top_raw right_raw bottom_raw pixel_x pixel_y =
     (if pixel_x < 0 \<or> pixel_y < 0 then 0
      else if nat pixel_x > nat (INT64_MAX div ARBOR_COORD_ONE) \<or>
              nat pixel_y > nat (INT64_MAX div ARBOR_COORD_ONE) then 0
      else
        let pixel_left = s64 (pixel_x * ARBOR_COORD_ONE);
            pixel_top = s64 (pixel_y * ARBOR_COORD_ONE);
            pixel_right = s64 (pixel_left + ARBOR_COORD_ONE);
            pixel_bottom = s64 (pixel_top + ARBOR_COORD_ONE);
            overlap_x = arbor_renderer_overlap_q32 left_raw right_raw pixel_left pixel_right;
            overlap_y = arbor_renderer_overlap_q32 top_raw bottom_raw pixel_top pixel_bottom
        in arbor_renderer_coverage_mul overlap_x overlap_y)"

definition arbor_renderer_rect_coverage :: "arbor_device_rect \<Rightarrow> int \<Rightarrow> int \<Rightarrow> arbor_coverage" where
  "arbor_renderer_rect_coverage rect pixel_x pixel_y =
     (if sint (drect_width rect) \<le> 0 \<or> sint (drect_height rect) \<le> 0 then 0
      else
        (case (arbor_renderer_i64_add_checked (sint (drect_x rect)) (sint (drect_width rect)) Out,
               arbor_renderer_i64_add_checked (sint (drect_y rect)) (sint (drect_height rect)) Out) of
           (Some right_raw, Some bottom_raw) \<Rightarrow>
             arbor_renderer_rect_coverage_edges (sint (drect_x rect)) (sint (drect_y rect))
               right_raw bottom_raw pixel_x pixel_y
         | _ \<Rightarrow> 0))"

text \<open>Load, scale by coverage, composite, store: the body both drawing loops share.\<close>

definition blend_memory :: "pixel_memory \<Rightarrow> nat \<Rightarrow> arbor_rgba16 \<Rightarrow> arbor_coverage \<Rightarrow> pixel_memory option" where
  "blend_memory mem p color coverage =
     Option.bind (load_pixel mem p) (\<lambda>destination.
       let source = arbor_rgba16_apply_coverage color coverage;
           output = arbor_rgba16_source_over source destination
       in store_pixel mem p output)"

definition arbor_renderer_blend_pixel ::
    "arbor_raster_surface \<Rightarrow> int \<Rightarrow> int \<Rightarrow> arbor_rgba16 \<Rightarrow> arbor_coverage \<Rightarrow> pixel_memory \<Rightarrow>
     (arbor_renderer_status \<times> pixel_memory) option" where
  "arbor_renderer_blend_pixel surface x y color coverage mem =
     (if coverage = 0 \<or> x < 0 \<or> y < 0 \<or> x \<ge> int (unat (surface_width surface)) \<or>
         y \<ge> int (unat (surface_height surface))
      then Some (ARBOR_RENDERER_OK, mem)
      else
        (case arbor_raster_surface_pixel_offset surface (word_of_int x) (word_of_int y) Out of
           Inl status \<Rightarrow> Some (status, mem)
         | Inr offset \<Rightarrow> map_option (Pair ARBOR_RENDERER_OK) (blend_memory mem offset color coverage)))"

text \<open>A \<open>for\<close> loop whose body cannot return early.\<close>

primrec for_each :: "('x \<Rightarrow> 'm \<Rightarrow> 'm option) \<Rightarrow> 'x list \<Rightarrow> 'm \<Rightarrow> 'm option" where
  "for_each body [] m = Some m"
| "for_each body (x # xs) m = Option.bind (body x m) (for_each body xs)"

definition fill_pixel ::
    "arbor_raster_surface \<Rightarrow> arbor_device_rect \<Rightarrow> int \<Rightarrow> int \<Rightarrow> arbor_rgba16 \<Rightarrow> nat \<Rightarrow> nat \<Rightarrow>
     pixel_memory \<Rightarrow> pixel_memory option" where
  "fill_pixel surface rect right_raw bottom_raw color y x mem =
     (let coverage = arbor_renderer_rect_coverage_edges (sint (drect_x rect)) (sint (drect_y rect))
            right_raw bottom_raw (signed_take_bit 31 (int x)) (signed_take_bit 31 (int y))
      in if coverage = 0 then Some mem
         else blend_memory mem (u64 (y * unat (surface_stride surface)) + u64 (x * BYTES_PER_PIXEL)) color coverage)"

definition arbor_renderer_fill_rect ::
    "pixel_memory \<Rightarrow> arbor_raster_surface \<Rightarrow> arbor_device_rect \<Rightarrow> arbor_rgba16 \<Rightarrow>
     (arbor_renderer_status \<times> pixel_memory) option" where
  "arbor_renderer_fill_rect mem surface rect color =
     (if \<not> arbor_rgba16_is_valid_premultiplied color then Some (ARBOR_RENDERER_INVALID_ARGUMENT, mem)
      else if arbor_renderer_surface_validate surface \<noteq> ARBOR_RENDERER_OK
        then Some (arbor_renderer_surface_validate surface, mem)
      else if sint (drect_width rect) < 0 \<or> sint (drect_height rect) < 0
        then Some (ARBOR_RENDERER_INVALID_ARGUMENT, mem)
      else
        (case (arbor_renderer_i64_add_checked (sint (drect_x rect)) (sint (drect_width rect)) Out,
               arbor_renderer_i64_add_checked (sint (drect_y rect)) (sint (drect_height rect)) Out) of
           (Some right_raw, Some bottom_raw) \<Rightarrow>
             (case arbor_renderer_rect_pixel_bounds rect (surface_width surface) (surface_height surface) Out of
                Inl status \<Rightarrow> Some (status, mem)
              | Inr bounds \<Rightarrow>
                  map_option (Pair ARBOR_RENDERER_OK)
                    (for_each (\<lambda>y. for_each (fill_pixel surface rect right_raw bottom_raw color y)
                        [nat (pb_left bounds)..<nat (pb_right bounds)])
                      [nat (pb_top bounds)..<nat (pb_bottom bounds)] mem))
         | _ \<Rightarrow> Some (ARBOR_RENDERER_OVERFLOW, mem)))"

section \<open>Floors, ceilings and overlaps\<close>

lemma c_floor:
  fixes v n :: int
  assumes "0 < n"
  shows "(if v < 0 \<and> c_mod v n \<noteq> 0 then c_div v n - 1 else c_div v n) = v div n"
  using assms zdiv_zminus1_eq_if [of n "- v"]
  by (cases "v < 0") (auto simp: c_div_magnitude c_mod_magnitude)

lemma c_ceiling:
  fixes v n :: int
  assumes "0 < n"
  shows "(if 0 < v \<and> c_mod v n \<noteq> 0 then c_div v n + 1 else c_div v n) = - ((- v) div n)"
  using assms zdiv_zminus1_eq_if [of n v]
  by (cases v "0 :: int" rule: linorder_cases) (auto simp: c_div_magnitude c_mod_magnitude)

lemma c_div_coord_range:
  assumes "in_i64 v"
  shows "- 2147483648 \<le> c_div v ARBOR_COORD_ONE" and "c_div v ARBOR_COORD_ONE \<le> 2147483648"
proof -
  have "\<bar>v\<bar> \<le> 9223372036854775808" using assms by (auto simp: in_i64_def)
  then have "\<bar>v\<bar> div ARBOR_COORD_ONE \<le> 9223372036854775808 div ARBOR_COORD_ONE"
    by (intro zdiv_mono1) simp_all
  moreover have "0 \<le> \<bar>v\<bar> div ARBOR_COORD_ONE" by (simp add: pos_imp_zdiv_nonneg_iff)
  ultimately show "- 2147483648 \<le> c_div v ARBOR_COORD_ONE" and "c_div v ARBOR_COORD_ONE \<le> 2147483648"
    using c_div_magnitude [of ARBOR_COORD_ONE v] by (simp_all split: if_splits)
qed

lemma arbor_renderer_floor_q32_eq:
  assumes "in_i64 v"
  shows "arbor_renderer_floor_q32 v = v div ARBOR_COORD_ONE"
proof -
  have "s64 (c_div v ARBOR_COORD_ONE - 1) = c_div v ARBOR_COORD_ONE - 1"
    using c_div_coord_range [OF assms] by (simp add: s64_id)
  then show ?thesis
    unfolding arbor_renderer_floor_q32_def Let_def
    using c_floor [of ARBOR_COORD_ONE v] by (simp only:)
qed

lemma arbor_renderer_ceil_q32_eq:
  assumes "in_i64 v"
  shows "arbor_renderer_ceil_q32 v = - ((- v) div ARBOR_COORD_ONE)"
proof -
  have "s64 (c_div v ARBOR_COORD_ONE + 1) = c_div v ARBOR_COORD_ONE + 1"
    using c_div_coord_range [OF assms] by (simp add: s64_id)
  then show ?thesis
    unfolding arbor_renderer_ceil_q32_def Let_def
    using c_ceiling [of ARBOR_COORD_ONE v] by (simp only:)
qed

definition overlap_exact :: "int \<Rightarrow> int \<Rightarrow> int \<Rightarrow> int" where
  "overlap_exact a b px = max 0 (min b ((px + 1) * ARBOR_COORD_ONE) - max a (px * ARBOR_COORD_ONE))"

definition drawable_column :: "int \<Rightarrow> bool" where
  "drawable_column px \<longleftrightarrow> 0 \<le> px \<and> px < 2147483647"

lemma overlap_exact_range: "0 \<le> overlap_exact a b px" "overlap_exact a b px \<le> ARBOR_COORD_ONE"
  by (auto simp: overlap_exact_def)

lemma nat_u64: "0 \<le> k \<Longrightarrow> k \<le> INT64_MAX \<Longrightarrow> unat (word_of_int k :: u64) = nat k"
  by (simp add: unat_eq_nat_uint uint_word_of_int_eq take_bit_int_eq_self)

lemma arbor_renderer_overlap_q32_exact:
  assumes "drawable_column px"
  shows "unat (arbor_renderer_overlap_q32 a b (s64 (px * ARBOR_COORD_ONE))
      (s64 (s64 (px * ARBOR_COORD_ONE) + ARBOR_COORD_ONE))) = nat (overlap_exact a b px)"
proof -
  have s: "s64 (px * ARBOR_COORD_ONE) = px * ARBOR_COORD_ONE"
    "s64 (px * ARBOR_COORD_ONE + ARBOR_COORD_ONE) = px * ARBOR_COORD_ONE + ARBOR_COORD_ONE"
    using assms by (auto simp: drawable_column_def intro!: s64_id)
  define u v where "u = (if a > px * ARBOR_COORD_ONE then a else px * ARBOR_COORD_ONE)"
    and "v = (if b < px * ARBOR_COORD_ONE + ARBOR_COORD_ONE then b else px * ARBOR_COORD_ONE + ARBOR_COORD_ONE)"
  have uv: "v - u \<le> ARBOR_COORD_ONE" by (auto simp: u_def v_def)
  have "u = max a (px * ARBOR_COORD_ONE)" "v = min b ((px + 1) * ARBOR_COORD_ONE)"
    by (simp_all add: u_def v_def algebra_simps)
  then have "overlap_exact a b px = max 0 (v - u)"
    by (simp only: overlap_exact_def)
  moreover have "unat (word_of_int (s64 (v - u)) :: u64) = nat (v - u)" if "u < v"
  proof -
    have "s64 (v - u) = v - u" using that uv by (intro s64_id) simp_all
    then show ?thesis
      using that uv nat_u64 [of "v - u"] by simp
  qed
  ultimately show ?thesis
    unfolding s arbor_renderer_overlap_q32_def Let_def u_def [symmetric] v_def [symmetric] by auto
qed

definition cover_exact :: "int \<Rightarrow> int \<Rightarrow> int \<Rightarrow> int \<Rightarrow> int \<Rightarrow> int \<Rightarrow> nat" where
  "cover_exact l t r b px py =
     round_magnitude (nat (overlap_exact l r px) * nat (overlap_exact t b py)) ARBOR_COVERAGE_ONE"

lemma arbor_renderer_rect_coverage_edges_exact:
  assumes "drawable_column px" and "drawable_column py"
  shows "unat (arbor_renderer_rect_coverage_edges l t r b px py) = cover_exact l t r b px py"
proof -
  have le: "nat (overlap_exact a b k) \<le> ARBOR_COVERAGE_ONE" for a b k
    using overlap_exact_range [of a b k] by linarith
  have "\<not> nat px > nat (INT64_MAX div ARBOR_COORD_ONE)" "\<not> nat py > nat (INT64_MAX div ARBOR_COORD_ONE)"
    using assms by (auto simp: drawable_column_def nat_less_iff)
  then show ?thesis
    using assms le
    by (simp add: arbor_renderer_rect_coverage_edges_def Let_def drawable_column_def cover_exact_def
      arbor_renderer_coverage_mul_exact arbor_renderer_overlap_q32_exact)
qed

lemma cover_exact_positive:
  assumes "cover_exact l t r b px py \<noteq> 0"
  shows "0 < overlap_exact l r px" and "0 < overlap_exact t b py"
  using assms overlap_exact_range [of l r px] overlap_exact_range [of t b py]
  by (auto simp: cover_exact_def le_less)

lemma int_div_less:
  fixes a k n :: int
  assumes "0 < n" and "a < k * n"
  shows "a div n < k"
proof -
  have "n * (a div n) \<le> a"
    using mult_div_mod_eq [of n a] pos_mod_sign [OF assms(1), of a] by linarith
  then have "(a div n) * n < k * n" using assms(2) by (simp add: mult.commute)
  then show ?thesis using assms(1) by simp
qed

lemma overlap_exact_bounds:
  assumes "0 < overlap_exact a b px"
  shows "a div ARBOR_COORD_ONE \<le> px" and "px < - ((- b) div ARBOR_COORD_ONE)"
proof -
  have "a < (px + 1) * ARBOR_COORD_ONE" and "px * ARBOR_COORD_ONE < b"
    using assms by (auto simp: overlap_exact_def)
  then have "a div ARBOR_COORD_ONE < px + 1" and "- b < (- px) * ARBOR_COORD_ONE"
    by (simp_all add: int_div_less)
  then show "a div ARBOR_COORD_ONE \<le> px" and "px < - ((- b) div ARBOR_COORD_ONE)"
    using int_div_less [of ARBOR_COORD_ONE "- b" "- px"] by linarith+
qed

section \<open>Bounds of a rectangle\<close>

definition device_rect_ok :: "arbor_device_rect \<Rightarrow> bool" where
  "device_rect_ok r \<longleftrightarrow> 0 \<le> sint (drect_width r) \<and> 0 \<le> sint (drect_height r) \<and>
     in_i64 (sint (drect_x r) + sint (drect_width r)) \<and> in_i64 (sint (drect_y r) + sint (drect_height r))"

definition drect_right :: "arbor_device_rect \<Rightarrow> int" where
  "drect_right r = sint (drect_x r) + sint (drect_width r)"

definition drect_bottom :: "arbor_device_rect \<Rightarrow> int" where
  "drect_bottom r = sint (drect_y r) + sint (drect_height r)"

definition clamp :: "int \<Rightarrow> int \<Rightarrow> int" where
  "clamp limit v = min limit (max 0 v)"

definition pixel_span :: "int \<Rightarrow> int \<Rightarrow> int \<Rightarrow> int \<times> int" where
  "pixel_span limit a b =
     (let l = clamp limit (a div ARBOR_COORD_ONE); r = clamp limit (- ((- b) div ARBOR_COORD_ONE))
      in (l, max l r))"

lemma clamp_code:
  "(if limit < max 0 v then limit else max 0 v) = clamp limit v"
  by (auto simp: clamp_def)

lemma arbor_renderer_rect_pixel_bounds_exact:
  assumes "device_rect_ok r"
  shows "arbor_renderer_rect_pixel_bounds r w h Out =
    Inr \<lparr>pb_left = fst (pixel_span (int (unat w)) (sint (drect_x r)) (drect_right r)),
         pb_top = fst (pixel_span (int (unat h)) (sint (drect_y r)) (drect_bottom r)),
         pb_right = snd (pixel_span (int (unat w)) (sint (drect_x r)) (drect_right r)),
         pb_bottom = snd (pixel_span (int (unat h)) (sint (drect_y r)) (drect_bottom r))\<rparr>"
proof -
  have ok: "in_i64 (drect_right r)" "in_i64 (drect_bottom r)" "\<not> sint (drect_width r) < 0" "\<not> sint (drect_height r) < 0"
    using assms by (simp_all add: device_rect_ok_def drect_right_def drect_bottom_def)
  have max: "(if b < a then a else b) = max a b" for a b :: int by auto
  show ?thesis
    unfolding arbor_renderer_rect_pixel_bounds_def Let_def
    using ok
    by (simp only: arbor_renderer_i64_add_checked_eq sint_in_i64 drect_right_def [symmetric]
      drect_bottom_def [symmetric] if_True if_False prod.case option.case out_ptr.simps simp_thms
      arbor_renderer_floor_q32_eq arbor_renderer_ceil_q32_eq clamp_code of_nat_0_le_iff max
      pixel_span_def Let_def fst_conv snd_conv)
qed

lemma pixel_span_range:
  assumes "0 \<le> limit"
  shows "0 \<le> fst (pixel_span limit a b)" "fst (pixel_span limit a b) \<le> snd (pixel_span limit a b)"
    "snd (pixel_span limit a b) \<le> limit"
  using assms by (auto simp: pixel_span_def clamp_def Let_def)

lemma pixel_span_covers:
  assumes "0 < overlap_exact a b px" and "0 \<le> px" and "px < limit"
  shows "fst (pixel_span limit a b) \<le> px" and "px < snd (pixel_span limit a b)"
  using overlap_exact_bounds [OF assms(1)] assms(2,3)
  by (auto simp: pixel_span_def clamp_def Let_def)

section \<open>Filling\<close>

definition blend_exact :: "arbor_rgba16 \<Rightarrow> arbor_coverage \<Rightarrow> arbor_rgba16 \<Rightarrow> arbor_rgba16" where
  "blend_exact color c v = arbor_rgba16_source_over (arbor_rgba16_apply_coverage color c) v"

lemma blend_memory_slot:
  assumes "pixel_inside s p" and "memory_ok s mem"
  shows "blend_memory mem (pixel_slot s p) color c = Some (put_pixel s mem p (blend_exact color c (pixel_at s mem p)))"
  by (simp add: blend_memory_def Let_def load_pixel_slot [OF assms] store_pixel_slot [OF assms] blend_exact_def)

definition fill_coverage :: "arbor_device_rect \<Rightarrow> nat \<times> nat \<Rightarrow> arbor_coverage" where
  "fill_coverage r p = arbor_renderer_rect_coverage_edges (sint (drect_x r)) (sint (drect_y r))
     (drect_right r) (drect_bottom r) (signed_take_bit 31 (int (fst p))) (signed_take_bit 31 (int (snd p)))"

lemma pixel_address:
  assumes "pixel_inside s (x, y)"
  shows "u64 (y * unat (surface_stride s)) + u64 (x * BYTES_PER_PIXEL) = pixel_slot s (x, y)"
  using pixel_slot_bound [OF assms] unat_u64_upper [of "surface_buffer_bytes s"]
  by (simp add: pixel_slot_def u64_id)

lemma fill_pixel_exact:
  assumes "pixel_inside s (x, y)" and "memory_ok s mem"
  shows "fill_pixel s r (drect_right r) (drect_bottom r) color y x mem =
    Some (if fill_coverage r (x, y) = 0 then mem
          else put_pixel s mem (x, y) (blend_exact color (fill_coverage r (x, y)) (pixel_at s mem (x, y))))"
  by (simp add: fill_pixel_def Let_def fill_coverage_def blend_memory_slot [OF assms] pixel_address [OF assms(1)])

text \<open>The pixels the loop blends: those of the given columns and rows with nonzero coverage.\<close>

definition fill_list :: "arbor_device_rect \<Rightarrow> nat list \<Rightarrow> nat list \<Rightarrow> (nat \<times> nat) list" where
  "fill_list r xs ys = filter (\<lambda>p. fill_coverage r p \<noteq> 0) (concat (map (\<lambda>y. row_pixels y xs) ys))"

abbreviation fill_update where
  "fill_update s r color ps mem \<equiv> surface.update_all s (\<lambda>p. blend_exact color (fill_coverage r p)) ps mem"

lemma fill_row_exact:
  assumes "\<forall>x\<in>set xs. pixel_inside s (x, y)" and "memory_ok s mem"
  shows "for_each (fill_pixel s r (drect_right r) (drect_bottom r) color y) xs mem =
    Some (fill_update s r color (filter (\<lambda>p. fill_coverage r p \<noteq> 0) (row_pixels y xs)) mem)"
  using assms by (induction xs arbitrary: mem) (auto simp: fill_pixel_exact surface.put_ok)

lemma fill_rows_exact:
  assumes "\<forall>y\<in>set ys. \<forall>x\<in>set xs. pixel_inside s (x, y)" and "memory_ok s mem"
  shows "for_each (\<lambda>y. for_each (fill_pixel s r (drect_right r) (drect_bottom r) color y) xs) ys mem =
    Some (fill_update s r color (fill_list r xs ys) mem)"
  using assms
proof (induction ys arbitrary: mem)
  case (Cons y ys)
  then have "memory_ok s (fill_update s r color (filter (\<lambda>p. fill_coverage r p \<noteq> 0) (row_pixels y xs)) mem)"
    by (intro surface.update_all_ok) auto
  then show ?case
    using Cons fill_row_exact [of xs s y mem r color]
    by (simp add: fill_list_def surface.update_all_append)
qed (simp add: fill_list_def)

definition fill_columns :: "arbor_raster_surface \<Rightarrow> arbor_device_rect \<Rightarrow> nat list" where
  "fill_columns s r = (let span = pixel_span (int (unat (surface_width s))) (sint (drect_x r)) (drect_right r)
     in [nat (fst span)..<nat (snd span)])"

definition fill_rows :: "arbor_raster_surface \<Rightarrow> arbor_device_rect \<Rightarrow> nat list" where
  "fill_rows s r = (let span = pixel_span (int (unat (surface_height s))) (sint (drect_y r)) (drect_bottom r)
     in [nat (fst span)..<nat (snd span)])"

lemma fill_area_inside:
  assumes "surface_fits s" and "x \<in> set (fill_columns s r)" and "y \<in> set (fill_rows s r)"
  shows "pixel_inside s (x, y)"
proof -
  have "x < nat (snd (pixel_span (int (unat (surface_width s))) (sint (drect_x r)) (drect_right r)))"
    and "y < nat (snd (pixel_span (int (unat (surface_height s))) (sint (drect_y r)) (drect_bottom r)))"
    using assms(2,3) by (simp_all add: fill_columns_def fill_rows_def Let_def)
  then show ?thesis
    using assms(1) pixel_span_range(3) [of "int (unat (surface_width s))" "sint (drect_x r)" "drect_right r"]
      pixel_span_range(3) [of "int (unat (surface_height s))" "sint (drect_y r)" "drect_bottom r"]
    unfolding pixel_inside_def fst_conv snd_conv by linarith
qed

lemma arbor_renderer_fill_rect_exact:
  assumes "surface_fits s" and "memory_ok s mem" and "arbor_rgba16_is_valid_premultiplied color" and "device_rect_ok r"
  shows "arbor_renderer_fill_rect mem s r color =
    Some (ARBOR_RENDERER_OK, fill_update s r color (fill_list r (fill_columns s r) (fill_rows s r)) mem)"
proof -
  have ok: "in_i64 (drect_right r)" "in_i64 (drect_bottom r)" "\<not> sint (drect_width r) < 0" "\<not> sint (drect_height r) < 0"
    using assms(4) by (simp_all add: device_rect_ok_def drect_right_def drect_bottom_def)
  have add: "arbor_renderer_i64_add_checked (sint (drect_x r)) (sint (drect_width r)) Out = Some (drect_right r)"
    "arbor_renderer_i64_add_checked (sint (drect_y r)) (sint (drect_height r)) Out = Some (drect_bottom r)"
    using ok by (simp_all add: arbor_renderer_i64_add_checked_eq drect_right_def drect_bottom_def)
  have loop: "for_each (\<lambda>y. for_each (fill_pixel s r (drect_right r) (drect_bottom r) color y) (fill_columns s r))
      (fill_rows s r) mem = Some (fill_update s r color (fill_list r (fill_columns s r) (fill_rows s r)) mem)"
    using fill_area_inside [OF assms(1)] by (intro fill_rows_exact assms(2)) blast
  show ?thesis
    unfolding arbor_renderer_fill_rect_def add arbor_renderer_rect_pixel_bounds_exact [OF assms(4)]
    using assms(1,3) ok loop
    by (simp add: surface_validate_OK_iff fill_columns_def fill_rows_def Let_def)
qed

text \<open>
  The coverage of a pixel is exact, except in the column and in the row \<open>2 ^ 31 - 1\<close>: there the far edge of the pixel
  does not fit 64 bits and no coverage comes out. Pixels further out lie beyond every rectangle. A pixel outside the bounds
  of the loop has no coverage.
\<close>

definition pixel_cover :: "arbor_device_rect \<Rightarrow> nat \<times> nat \<Rightarrow> nat" where
  "pixel_cover r p = cover_exact (sint (drect_x r)) (sint (drect_y r)) (drect_right r) (drect_bottom r)
     (int (fst p)) (int (snd p))"

definition on_last_line :: "nat \<times> nat \<Rightarrow> bool" where
  "on_last_line p \<longleftrightarrow> fst p = 2147483647 \<or> snd p = 2147483647"

lemma signed_take_bit_31: "n < 2147483648 \<Longrightarrow> signed_take_bit 31 (int n) = int n"
  by (rule signed_take_bit_int_eq_self) simp_all

lemma signed_take_bit_31_negative:
  assumes "2147483648 \<le> n" and "n < 4294967296"
  shows "signed_take_bit 31 (int n) < 0"
proof -
  have "signed_take_bit 31 (int n) = signed_take_bit 31 (int n - 4294967296)"
    by (rule signed_take_bit_eq_iff_take_bit_eq [THEN iffD2]) (simp add: take_bit_eq_mod mod_diff_right_eq [symmetric])
  also have "\<dots> = int n - 4294967296" using assms by (intro signed_take_bit_int_eq_self) simp_all
  finally show ?thesis using assms by simp
qed

lemma overlap_last_line:
  "arbor_renderer_overlap_q32 a b (s64 (2147483647 * ARBOR_COORD_ONE)) (s64 (s64 (2147483647 * ARBOR_COORD_ONE) + ARBOR_COORD_ONE)) = 0"
proof -
  have "s64 (2147483647 * ARBOR_COORD_ONE) = 9223372032559808512" by (simp add: s64_def)
  moreover have "s64 (9223372032559808512 + ARBOR_COORD_ONE) = - 9223372036854775808" by (simp add: s64_def)
  ultimately show ?thesis by (simp add: arbor_renderer_overlap_q32_def Let_def)
qed

lemma overlap_beyond:
  assumes "in_i64 b" and "2147483648 \<le> px"
  shows "overlap_exact a b px = 0"
proof -
  have "2147483648 * ARBOR_COORD_ONE \<le> px * ARBOR_COORD_ONE" using assms(2) by (intro mult_right_mono) simp_all
  then show ?thesis using assms(1) by (auto simp: overlap_exact_def in_i64_def)
qed

lemma cover_exact_zero: "overlap_exact l r px = 0 \<or> overlap_exact t b py = 0 \<Longrightarrow> cover_exact l t r b px py = 0"
  using cover_exact_positive [of l t r b px py] by (cases "cover_exact l t r b px py = 0") auto

lemma coverage_mul_zero: "arbor_renderer_coverage_mul 0 v = 0" "arbor_renderer_coverage_mul u 0 = 0"
  by (simp_all add: arbor_renderer_coverage_mul_def)

lemma fill_coverage_exact:
  assumes "device_rect_ok r" and "pixel_inside s p"
  shows "unat (fill_coverage r p) = (if on_last_line p then 0 else pixel_cover r p)"
proof -
  have small: "fst p < 4294967296" "snd p < 4294967296"
    using assms(2) unat_u32_upper [of "surface_width s"] unat_u32_upper [of "surface_height s"] unfolding pixel_inside_def by linarith+
  consider "on_last_line p" | "fst p < 2147483647" "snd p < 2147483647"
    | "\<not> on_last_line p" "2147483648 \<le> fst p \<or> 2147483648 \<le> snd p" by (auto simp: on_last_line_def) linarith
  then show ?thesis
  proof cases
    case 1
    then have "fill_coverage r p = 0"
      using overlap_last_line
      by (auto simp: fill_coverage_def on_last_line_def signed_take_bit_31 arbor_renderer_rect_coverage_edges_def Let_def coverage_mul_zero)
    then show ?thesis using 1 by simp
  next
    case 2
    then show ?thesis
      by (simp add: fill_coverage_def pixel_cover_def signed_take_bit_31 arbor_renderer_rect_coverage_edges_exact drawable_column_def
        on_last_line_def)
  next
    case 3
    have ends: "in_i64 (drect_right r)" "in_i64 (drect_bottom r)"
      using assms(1) by (simp_all add: device_rect_ok_def drect_right_def drect_bottom_def)
    have "fill_coverage r p = 0"
      using 3(2) small signed_take_bit_31_negative by (auto simp: fill_coverage_def arbor_renderer_rect_coverage_edges_def)
    moreover have "pixel_cover r p = 0"
      unfolding pixel_cover_def
      using 3(2) overlap_beyond [OF ends(1), of "int (fst p)"] overlap_beyond [OF ends(2), of "int (snd p)"]
      by (intro cover_exact_zero) auto
    ultimately show ?thesis by simp
  qed
qed

lemma fill_coverage_zero:
  assumes "device_rect_ok r" and "pixel_inside s p"
  shows "fill_coverage r p = 0 \<longleftrightarrow> on_last_line p \<or> pixel_cover r p = 0"
  by (simp add: word_unat_eq_iff [of "fill_coverage r p"] fill_coverage_exact [OF assms])

lemma fill_list_set:
  assumes "device_rect_ok r" and "pixel_inside s p"
  shows "p \<in> set (fill_list r (fill_columns s r) (fill_rows s r)) \<longleftrightarrow> fill_coverage r p \<noteq> 0"
proof -
  obtain x y where p: "p = (x, y)" by (cases p)
  have in_span: "k \<in> set [nat (fst (pixel_span (int n) a b))..<nat (snd (pixel_span (int n) a b))]"
    if "0 < overlap_exact a b (int k)" "k < n" for k n a b
    using pixel_span_covers [OF that(1), of "int n"] that(2) pixel_span_range(1) [of "int n" a b]
    by (auto simp: nat_le_iff zless_nat_eq_int_zless)
  have "x \<in> set (fill_columns s r) \<and> y \<in> set (fill_rows s r)" if "fill_coverage r p \<noteq> 0"
  proof -
    have "pixel_cover r p \<noteq> 0"
      using that fill_coverage_zero [OF assms] by simp
    then have "0 < overlap_exact (sint (drect_x r)) (drect_right r) (int x)"
      "0 < overlap_exact (sint (drect_y r)) (drect_bottom r) (int y)"
      using cover_exact_positive unfolding pixel_cover_def p by fastforce+
    then show ?thesis
      using assms(2) in_span unfolding fill_columns_def fill_rows_def Let_def pixel_inside_def p fst_conv snd_conv
      by blast
  qed
  then show ?thesis by (auto simp: fill_list_def p image_iff)
qed

lemma fill_list_distinct: "distinct (fill_list r (fill_columns s r) (fill_rows s r))"
  unfolding fill_list_def by (intro distinct_filter distinct_rows) (simp_all add: fill_columns_def fill_rows_def Let_def)

lemma fill_list_inside:
  assumes "surface_fits s"
  shows "\<forall>p\<in>set (fill_list r (fill_columns s r) (fill_rows s r)). pixel_inside s p"
  using fill_area_inside [OF assms] by (auto simp: fill_list_def)

lemma arbor_renderer_fill_rect_pixels:
  assumes "surface_fits s" and "memory_ok s mem" and "arbor_rgba16_is_valid_premultiplied color" and "device_rect_ok r"
  obtains mem' where "arbor_renderer_fill_rect mem s r color = Some (ARBOR_RENDERER_OK, mem')"
    and "length mem' = length mem"
    and "\<And>p. pixel_inside s p \<Longrightarrow> pixel_at s mem' p =
      (if on_last_line p \<or> pixel_cover r p = 0 then pixel_at s mem p
       else blend_exact color (of_nat (pixel_cover r p)) (pixel_at s mem p))"
proof -
  let ?ps = "fill_list r (fill_columns s r) (fill_rows s r)"
  note inside = fill_list_inside [OF assms(1), of r]
  have "pixel_at s (fill_update s r color ?ps mem) p =
      (if on_last_line p \<or> pixel_cover r p = 0 then pixel_at s mem p
       else blend_exact color (of_nat (pixel_cover r p)) (pixel_at s mem p))" if "pixel_inside s p" for p
  proof -
    have cover: "of_nat (pixel_cover r p) = fill_coverage r p" if "\<not> on_last_line p"
      using that by (simp add: fill_coverage_exact [OF assms(4) \<open>pixel_inside s p\<close>, simplified that if_False, symmetric])
    show ?thesis
      using surface.get_update_all [OF inside fill_list_distinct assms(2) that] fill_list_set [OF assms(4) that]
        fill_coverage_zero [OF assms(4) that] cover
      by auto
  qed
  then show ?thesis
    using that [OF arbor_renderer_fill_rect_exact [OF assms(1-4)]] update_all_length [OF inside assms(2)] by simp
qed

section \<open>Safe drawing\<close>

text \<open>
  What every drawing operation keeps, whatever its arguments: no access leaves the buffer, the
  buffer keeps its length, and a premultiplied pixel stays premultiplied.
\<close>

definition safe_draw :: "arbor_raster_surface \<Rightarrow>
    (pixel_memory \<Rightarrow> (arbor_renderer_status \<times> pixel_memory) option) \<Rightarrow> bool" where
  "safe_draw s f \<longleftrightarrow> (\<forall>mem. memory_ok s mem \<longrightarrow> (\<exists>st mem'. f mem = Some (st, mem') \<and> length mem' = length mem \<and>
     (\<forall>p. pixel_inside s p \<longrightarrow> arbor_rgba16_is_valid_premultiplied (pixel_at s mem p) \<longrightarrow>
        arbor_rgba16_is_valid_premultiplied (pixel_at s mem' p))))"

lemma safe_draw_status: "safe_draw s (\<lambda>mem. Some (st, mem))"
  by (simp add: safe_draw_def)

lemma safe_draw_if: "(c \<Longrightarrow> safe_draw s f) \<Longrightarrow> (\<not> c \<Longrightarrow> safe_draw s g) \<Longrightarrow> safe_draw s (\<lambda>mem. if c then f mem else g mem)"
  by (cases c) simp_all

lemma blend_exact_valid: "arbor_rgba16_is_valid_premultiplied (blend_exact color c v)"
  by (simp add: blend_exact_def source_over_always_valid)

lemma put_pixel_safe:
  assumes "pixel_inside s p" and "memory_ok s mem" and "arbor_rgba16_is_valid_premultiplied v"
    and "pixel_inside s q" and "arbor_rgba16_is_valid_premultiplied (pixel_at s mem q)"
  shows "arbor_rgba16_is_valid_premultiplied (pixel_at s (put_pixel s mem p v) q)"
  using assms surface.get_put_same [OF assms(1,2)] surface.get_put_other [OF assms(1,4,2)] by (cases "q = p") auto

lemma update_all_safe:
  assumes "\<forall>p\<in>set ps. pixel_inside s p" and "memory_ok s mem"
    and "\<And>p v. arbor_rgba16_is_valid_premultiplied (f p v)"
    and "pixel_inside s q" and "arbor_rgba16_is_valid_premultiplied (pixel_at s mem q)"
  shows "arbor_rgba16_is_valid_premultiplied (pixel_at s (surface.update_all s f ps mem) q)"
  using assms(1,2,5)
  by (induction ps arbitrary: mem) (simp_all add: put_pixel_safe surface.put_ok assms(3,4))

lemma fill_rect_safe: "safe_draw s (\<lambda>mem. arbor_renderer_fill_rect mem s r color)"
proof (cases "surface_fits s \<and> arbor_rgba16_is_valid_premultiplied color \<and> device_rect_ok r")
  case True
  note inside = fill_list_inside [of s r]
  show ?thesis
    using True inside update_all_length [OF inside] update_all_safe [OF inside]
    by (auto simp: safe_draw_def arbor_renderer_fill_rect_exact blend_exact_valid)
next
  case False
  then have "arbor_renderer_fill_rect mem s r color =
      Some (fst (the (arbor_renderer_fill_rect mem s r color)), mem)" for mem
    by (auto simp: arbor_renderer_fill_rect_def surface_validate_OK_iff arbor_renderer_i64_add_checked_eq
      device_rect_ok_def not_less)
  then show ?thesis unfolding safe_draw_def by blast
qed

lemma nat_u32: "0 \<le> k \<Longrightarrow> k \<le> 4294967295 \<Longrightarrow> unat (word_of_int k :: u32) = nat k"
  by (simp add: unat_eq_nat_uint uint_word_of_int_eq take_bit_int_eq_self)

lemma blend_pixel_safe:
  assumes "surface_fits s"
  shows "safe_draw s (arbor_renderer_blend_pixel s x y color c)"
proof (cases "c = 0 \<or> x < 0 \<or> y < 0 \<or> x \<ge> int (unat (surface_width s)) \<or> y \<ge> int (unat (surface_height s))")
  case True
  then show ?thesis by (auto simp: safe_draw_def arbor_renderer_blend_pixel_def)
next
  case False
  have "x \<le> 4294967295" "y \<le> 4294967295"
    using False unat_u32_upper [of "surface_width s"] unat_u32_upper [of "surface_height s"] by linarith+
  then have xy: "unat (word_of_int x :: u32) = nat x" "unat (word_of_int y :: u32) = nat y"
    using False by (simp_all add: nat_u32)
  have inside: "pixel_inside s (nat x, nat y)"
    using False assms by (auto simp: pixel_inside_def nat_less_iff)
  then show ?thesis
    using False arbor_raster_surface_pixel_offset_inside [of s "word_of_int x" "word_of_int y"]
      put_pixel_facts(1) [OF inside] put_pixel_safe [OF inside]
    by (auto simp: safe_draw_def arbor_renderer_blend_pixel_def xy blend_memory_slot [OF inside] blend_exact_valid)
qed

lemma clear_safe: "safe_draw s (\<lambda>mem. arbor_renderer_clear mem s color)"
proof (cases "surface_fits s \<and> arbor_rgba16_is_valid_premultiplied color")
  case True
  then have inside: "\<forall>p\<in>set (surface_pixel_list s). pixel_inside s p" by (simp add: set_surface_pixel_list)
  show ?thesis
    using True update_all_length [OF inside] update_all_safe [OF inside, where f = "\<lambda>_ _. color"]
    by (auto simp: safe_draw_def arbor_renderer_clear_exact)
next
  case False
  then show ?thesis by (auto simp: safe_draw_def arbor_renderer_clear_def Let_def surface_validate_OK_iff)
qed

end
