(* ===== verification/Stroke.thy ===== *)
theory Stroke
  imports Fill
begin

text \<open>
  Lines, curve flattening and path stroking of \<open>src/c/renderer.c\<close>. A curve is drawn by drawing the
  segments of a connected polyline of at most 4096 segments, and no drawing operation leaves the buffer or
  makes a pixel exceed its alpha. The build target only selects the division in the gradient.
\<close>

datatype arbor_path_command_type =
    ARBOR_PATH_MOVE_TO
  | ARBOR_PATH_LINE_TO
  | ARBOR_PATH_QUAD_TO
  | ARBOR_PATH_CUBIC_TO
  | ARBOR_PATH_CLOSE
  | ARBOR_PATH_OUT_OF_ENUM int

record arbor_path_command =
  cmd_type :: arbor_path_command_type
  cmd_p1 :: arbor_point
  cmd_p2 :: arbor_point
  cmd_p3 :: arbor_point

abbreviation ARBOR_RENDERER_MAX_PATH_COMMANDS :: nat where "ARBOR_RENDERER_MAX_PATH_COMMANDS \<equiv> 4096"
abbreviation ARBOR_RENDERER_CURVE_MAX_DEPTH :: nat where "ARBOR_RENDERER_CURVE_MAX_DEPTH \<equiv> 12"
abbreviation ARBOR_RENDERER_CURVE_TOLERANCE_RAW :: nat where "ARBOR_RENDERER_CURVE_TOLERANCE_RAW \<equiv> 16777216"

type_synonym drawing = "pixel_memory \<Rightarrow> (arbor_renderer_status \<times> pixel_memory) option"

text \<open>Continue on OK, return any other status.\<close>

definition then_drawn ::
    "(arbor_renderer_status \<times> pixel_memory) option \<Rightarrow> drawing \<Rightarrow> (arbor_renderer_status \<times> pixel_memory) option" where
  "then_drawn r f = (case r of None \<Rightarrow> None
     | Some (status, mem) \<Rightarrow> if status = ARBOR_RENDERER_OK then f mem else Some (status, mem))"

text \<open>A geometry failure inside drawing is reported as OVERFLOW.\<close>

definition or_overflow ::
    "'a geometry_result \<Rightarrow> pixel_memory \<Rightarrow> ('a \<Rightarrow> (arbor_renderer_status \<times> pixel_memory) option) \<Rightarrow>
     (arbor_renderer_status \<times> pixel_memory) option" where
  "or_overflow r mem f = (case r of Inl _ \<Rightarrow> Some (ARBOR_RENDERER_OVERFLOW, mem) | Inr v \<Rightarrow> f v)"

primrec for_status :: "('x \<Rightarrow> drawing) \<Rightarrow> 'x list \<Rightarrow> drawing" where
  "for_status body [] mem = Some (ARBOR_RENDERER_OK, mem)"
| "for_status body (x # xs) mem = then_drawn (body x mem) (for_status body xs)"

section \<open>Midpoints and flatness\<close>

definition arbor_renderer_midpoint_coord :: "arbor_coord \<Rightarrow> arbor_coord \<Rightarrow> arbor_coord" where
  "arbor_renderer_midpoint_coord left right =
     (let sum = s128 (sint left + sint right);
          negative = (sum < 0);
          magnitude = (if negative then u128 (nat (s128 (- s128 (sum + 1))) + 1) else nat sum);
          quotient = drop_bit 1 magnitude;
          remainder = take_bit 1 magnitude;
          quotient = (if remainder \<noteq> 0 \<and> odd quotient then u128 (quotient + 1) else quotient)
      in if negative
         then (if quotient = 2 ^ 63 then word_of_int INT64_MIN else - of_nat quotient)
         else of_nat quotient)"

definition arbor_renderer_midpoint_point :: "arbor_point \<Rightarrow> arbor_point \<Rightarrow> arbor_point" where
  "arbor_renderer_midpoint_point left right =
     \<lparr>pt_x = arbor_renderer_midpoint_coord (pt_x left) (pt_x right),
      pt_y = arbor_renderer_midpoint_coord (pt_y left) (pt_y right)\<rparr>"

definition arbor_renderer_abs_i128 :: "int \<Rightarrow> nat" where
  "arbor_renderer_abs_i128 val =
     (if val \<ge> 0 then nat val else u128 (nat (s128 (- s128 (val + 1))) + 1))"

definition second_difference :: "arbor_coord \<Rightarrow> arbor_coord \<Rightarrow> arbor_coord \<Rightarrow> int" where
  "second_difference a b c = s128 (s128 (sint a - s128 (2 * sint b)) + sint c)"

definition arbor_renderer_quad_flat_enough :: "arbor_point \<Rightarrow> arbor_point \<Rightarrow> arbor_point \<Rightarrow> bool" where
  "arbor_renderer_quad_flat_enough p0 p1 p2 =
     (let dx = second_difference (pt_x p0) (pt_x p1) (pt_x p2);
          dy = second_difference (pt_y p0) (pt_y p1) (pt_y p2);
          limit = ARBOR_RENDERER_CURVE_TOLERANCE_RAW * 4
      in arbor_renderer_abs_i128 dx \<le> limit \<and> arbor_renderer_abs_i128 dy \<le> limit)"

definition arbor_renderer_cubic_flat_enough ::
    "arbor_point \<Rightarrow> arbor_point \<Rightarrow> arbor_point \<Rightarrow> arbor_point \<Rightarrow> bool" where
  "arbor_renderer_cubic_flat_enough p0 p1 p2 p3 =
     (let d1x = second_difference (pt_x p0) (pt_x p1) (pt_x p2);
          d1y = second_difference (pt_y p0) (pt_y p1) (pt_y p2);
          d2x = second_difference (pt_x p1) (pt_x p2) (pt_x p3);
          d2y = second_difference (pt_y p1) (pt_y p2) (pt_y p3);
          limit = ARBOR_RENDERER_CURVE_TOLERANCE_RAW * 4
      in arbor_renderer_abs_i128 d1x \<le> limit \<and> arbor_renderer_abs_i128 d1y \<le> limit \<and>
         arbor_renderer_abs_i128 d2x \<le> limit \<and> arbor_renderer_abs_i128 d2y \<le> limit)"

section \<open>Lines\<close>

text \<open>One iteration of the loop over the major axis.\<close>

definition line_cell ::
    "arbor_raster_surface \<Rightarrow> arbor_rgba16 \<Rightarrow> bool \<Rightarrow> arbor_coord \<Rightarrow> arbor_coord \<Rightarrow> arbor_coord \<Rightarrow> arbor_coord \<Rightarrow>
     nat \<Rightarrow> drawing" where
  "line_cell surface color steep x0 x1 y0 gradient major mem =
     (let cell_start = s64 (int major * ARBOR_COORD_ONE);
          cell_end = s64 (cell_start + ARBOR_COORD_ONE);
          overlap_start = (if sint x0 > cell_start then sint x0 else cell_start);
          overlap_end = (if sint x1 < cell_end then sint x1 else cell_end)
      in if overlap_end \<le> overlap_start then Some (ARBOR_RENDERER_OK, mem)
         else
           let midpoint = arbor_renderer_midpoint_coord (word_of_int overlap_start) (word_of_int overlap_end)
           in or_overflow (arbor_coord_sub midpoint x0 Out) mem (\<lambda>from_start.
              or_overflow (arbor_coord_mul gradient from_start Out) mem (\<lambda>y_delta.
              or_overflow (arbor_coord_add y0 y_delta Out) mem (\<lambda>y_value.
              let base_coverage = word_of_int (s64 (overlap_end - overlap_start));
                  fraction = ucast y_value :: u32;
                  lower_coverage =
                    arbor_renderer_coverage_mul base_coverage (of_nat ARBOR_COVERAGE_ONE - ucast fraction);
                  upper_coverage = arbor_renderer_coverage_mul base_coverage (ucast fraction);
                  minor = arbor_renderer_floor_q32 (sint y_value)
              in if steep
                 then then_drawn (arbor_renderer_blend_pixel surface minor (int major) color lower_coverage mem)
                        (arbor_renderer_blend_pixel surface (s64 (minor + 1)) (int major) color upper_coverage)
                 else then_drawn (arbor_renderer_blend_pixel surface (int major) minor color lower_coverage mem)
                        (arbor_renderer_blend_pixel surface (int major) (s64 (minor + 1)) color upper_coverage)))))"

definition arbor_renderer_line_device ::
    "target \<Rightarrow> arbor_raster_surface \<Rightarrow> arbor_point \<Rightarrow> arbor_point \<Rightarrow> arbor_rgba16 \<Rightarrow> drawing" where
  "arbor_renderer_line_device target surface from to color mem =
     (let x0 = pt_x from; y0 = pt_y from; x1 = pt_x to; y1 = pt_y to in
      if \<not> arbor_rgba16_is_valid_premultiplied color then Some (ARBOR_RENDERER_INVALID_ARGUMENT, mem)
      else if x0 = x1 \<and> y0 = y1
        then arbor_renderer_blend_pixel surface (arbor_renderer_floor_q32 (sint x0))
               (arbor_renderer_floor_q32 (sint y0)) color (of_nat ARBOR_COVERAGE_ONE) mem
      else
        or_overflow (arbor_coord_sub x1 x0 Out) mem (\<lambda>dx.
        or_overflow (arbor_coord_sub y1 y0 Out) mem (\<lambda>dy.
        or_overflow (arbor_coord_abs dx Out) mem (\<lambda>abs_dx.
        or_overflow (arbor_coord_abs dy Out) mem (\<lambda>abs_dy.
        let steep = (sint abs_dy > sint abs_dx);
            (x0, y0, x1, y1) = (if steep then (y0, x0, y1, x1) else (x0, y0, x1, y1));
            (x0, y0, x1, y1) = (if sint x0 > sint x1 then (x1, y1, x0, y0) else (x0, y0, x1, y1))
        in or_overflow (arbor_coord_sub x1 x0 Out) mem (\<lambda>dx.
           if sint dx \<le> 0 then Some (ARBOR_RENDERER_OVERFLOW, mem)
           else or_overflow (arbor_coord_sub y1 y0 Out) mem (\<lambda>dy.
           let major_start = arbor_renderer_floor_q32 (sint x0);
               major_end = arbor_renderer_ceil_q32 (sint x1);
               major_limit = int (unat (if steep then surface_height surface else surface_width surface));
               major_start = (if major_start < 0 then 0 else major_start);
               major_end = (if major_end > major_limit then major_limit else major_end)
           in if major_end \<le> major_start then Some (ARBOR_RENDERER_OK, mem)
              else or_overflow (arbor_coord_div target dy dx Out) mem (\<lambda>gradient.
                   for_status (line_cell surface color steep x0 x1 y0 gradient)
                     [nat major_start..<nat major_end] mem))))))))"

definition arbor_renderer_draw_line ::
    "target \<Rightarrow> pixel_memory \<Rightarrow> arbor_raster_surface \<Rightarrow> arbor_line \<Rightarrow> arbor_rgba16 \<Rightarrow>
     (arbor_renderer_status \<times> pixel_memory) option" where
  "arbor_renderer_draw_line target mem surface line color =
     (if arbor_renderer_surface_validate surface \<noteq> ARBOR_RENDERER_OK
      then Some (arbor_renderer_surface_validate surface, mem)
      else arbor_renderer_line_device target surface (line_start line) (line_end line) color mem)"

section \<open>Curves\<close>

function arbor_renderer_stroke_quad_recursive ::
    "target \<Rightarrow> arbor_raster_surface \<Rightarrow> arbor_point \<Rightarrow> arbor_point \<Rightarrow> arbor_point \<Rightarrow> arbor_rgba16 \<Rightarrow> nat \<Rightarrow> drawing" where
  "arbor_renderer_stroke_quad_recursive target surface p0 p1 p2 color depth mem =
     (if depth \<ge> ARBOR_RENDERER_CURVE_MAX_DEPTH \<or> arbor_renderer_quad_flat_enough p0 p1 p2
      then arbor_renderer_line_device target surface p0 p2 color mem
      else
        let p01 = arbor_renderer_midpoint_point p0 p1;
            p12 = arbor_renderer_midpoint_point p1 p2;
            p012 = arbor_renderer_midpoint_point p01 p12
        in then_drawn (arbor_renderer_stroke_quad_recursive target surface p0 p01 p012 color (depth + 1) mem)
             (arbor_renderer_stroke_quad_recursive target surface p012 p12 p2 color (depth + 1)))"
  by pat_completeness auto
termination arbor_renderer_stroke_quad_recursive
  by (relation "measure (\<lambda>(_, _, _, _, _, _, depth, _). ARBOR_RENDERER_CURVE_MAX_DEPTH - depth)") auto

declare arbor_renderer_stroke_quad_recursive.simps [simp del]

function arbor_renderer_stroke_cubic_recursive ::
    "target \<Rightarrow> arbor_raster_surface \<Rightarrow> arbor_point \<Rightarrow> arbor_point \<Rightarrow> arbor_point \<Rightarrow> arbor_point \<Rightarrow> arbor_rgba16 \<Rightarrow>
     nat \<Rightarrow> drawing" where
  "arbor_renderer_stroke_cubic_recursive target surface p0 p1 p2 p3 color depth mem =
     (if depth \<ge> ARBOR_RENDERER_CURVE_MAX_DEPTH \<or> arbor_renderer_cubic_flat_enough p0 p1 p2 p3
      then arbor_renderer_line_device target surface p0 p3 color mem
      else
        let p01 = arbor_renderer_midpoint_point p0 p1;
            p12 = arbor_renderer_midpoint_point p1 p2;
            p23 = arbor_renderer_midpoint_point p2 p3;
            p012 = arbor_renderer_midpoint_point p01 p12;
            p123 = arbor_renderer_midpoint_point p12 p23;
            p0123 = arbor_renderer_midpoint_point p012 p123
        in then_drawn (arbor_renderer_stroke_cubic_recursive target surface p0 p01 p012 p0123 color (depth + 1) mem)
             (arbor_renderer_stroke_cubic_recursive target surface p0123 p123 p23 p3 color (depth + 1)))"
  by pat_completeness auto
termination arbor_renderer_stroke_cubic_recursive
  by (relation "measure (\<lambda>(_, _, _, _, _, _, _, depth, _). ARBOR_RENDERER_CURVE_MAX_DEPTH - depth)") auto

declare arbor_renderer_stroke_cubic_recursive.simps [simp del]

section \<open>Paths\<close>

record path_state =
  path_current :: arbor_point
  path_subpath_start :: arbor_point
  path_have_current :: bool

definition stroke_to ::
    "path_state \<Rightarrow> arbor_point \<Rightarrow> drawing \<Rightarrow> pixel_memory \<Rightarrow>
     (arbor_renderer_status \<times> path_state \<times> pixel_memory) option" where
  "stroke_to st next draw mem =
     (if \<not> path_have_current st then Some (ARBOR_RENDERER_INVALID_ARGUMENT, st, mem)
      else map_option (\<lambda>(status, mem).
             (status, if status = ARBOR_RENDERER_OK then st\<lparr>path_current := next\<rparr> else st, mem)) (draw mem))"

definition stroke_command ::
    "target \<Rightarrow> arbor_raster_surface \<Rightarrow> arbor_rgba16 \<Rightarrow> arbor_path_command \<Rightarrow> path_state \<Rightarrow> pixel_memory \<Rightarrow>
     (arbor_renderer_status \<times> path_state \<times> pixel_memory) option" where
  "stroke_command target surface color command st mem =
     (case cmd_type command of
        ARBOR_PATH_MOVE_TO \<Rightarrow>
          Some (ARBOR_RENDERER_OK, \<lparr>path_current = cmd_p1 command, path_subpath_start = cmd_p1 command,
                                    path_have_current = True\<rparr>, mem)
      | ARBOR_PATH_LINE_TO \<Rightarrow>
          stroke_to st (cmd_p1 command)
            (arbor_renderer_line_device target surface (path_current st) (cmd_p1 command) color) mem
      | ARBOR_PATH_QUAD_TO \<Rightarrow>
          stroke_to st (cmd_p2 command)
            (arbor_renderer_stroke_quad_recursive target surface (path_current st) (cmd_p1 command)
               (cmd_p2 command) color 0) mem
      | ARBOR_PATH_CUBIC_TO \<Rightarrow>
          stroke_to st (cmd_p3 command)
            (arbor_renderer_stroke_cubic_recursive target surface (path_current st) (cmd_p1 command)
               (cmd_p2 command) (cmd_p3 command) color 0) mem
      | ARBOR_PATH_CLOSE \<Rightarrow>
          stroke_to st (path_subpath_start st)
            (arbor_renderer_line_device target surface (path_current st) (path_subpath_start st) color) mem
      | ARBOR_PATH_OUT_OF_ENUM _ \<Rightarrow> Some (ARBOR_RENDERER_INVALID_ARGUMENT, st, mem))"

text \<open>The loop reads \<open>commands[i]\<close>; an index past the array is the outcome \<open>None\<close>.\<close>

primrec stroke_commands ::
    "target \<Rightarrow> arbor_raster_surface \<Rightarrow> arbor_rgba16 \<Rightarrow> arbor_path_command list \<Rightarrow> nat list \<Rightarrow> path_state \<Rightarrow> drawing" where
  "stroke_commands target surface color commands [] st mem = Some (ARBOR_RENDERER_OK, mem)"
| "stroke_commands target surface color commands (i # is) st mem =
     (if i < length commands
      then
        (case stroke_command target surface color (commands ! i) st mem of
           None \<Rightarrow> None
         | Some (status, st', mem') \<Rightarrow>
             if status = ARBOR_RENDERER_OK then stroke_commands target surface color commands is st' mem'
             else Some (status, mem'))
      else None)"

definition arbor_renderer_stroke_path ::
    "target \<Rightarrow> pixel_memory \<Rightarrow> arbor_raster_surface \<Rightarrow> arbor_path_command list option \<Rightarrow> u32 \<Rightarrow> arbor_rgba16 \<Rightarrow>
     (arbor_renderer_status \<times> pixel_memory) option" where
  "arbor_renderer_stroke_path target mem surface commands command_count color =
     (if arbor_renderer_surface_validate surface \<noteq> ARBOR_RENDERER_OK
      then Some (arbor_renderer_surface_validate surface, mem)
      else if \<not> arbor_rgba16_is_valid_premultiplied color \<or> (command_count \<noteq> 0 \<and> commands = None)
        then Some (ARBOR_RENDERER_INVALID_ARGUMENT, mem)
      else if unat command_count > ARBOR_RENDERER_MAX_PATH_COMMANDS
        then Some (ARBOR_RENDERER_PATH_LIMIT, mem)
      else
        let origin = \<lparr>pt_x = 0, pt_y = 0\<rparr>
        in stroke_commands target surface color (case commands of None \<Rightarrow> [] | Some cs \<Rightarrow> cs)
             [0..<unat command_count]
             \<lparr>path_current = origin, path_subpath_start = origin, path_have_current = False\<rparr> mem)"

section \<open>Midpoints are exact\<close>

lemma round_magnitude_half:
  "(if take_bit 1 n \<noteq> 0 \<and> odd (drop_bit 1 n) then drop_bit 1 n + 1 else drop_bit 1 n) = round_magnitude n 2"
  by (auto simp: round_magnitude_def take_bit_eq_mod drop_bit_eq_div)

lemma midpoint_magnitude:
  "round_half_even k 2 = (if k < 0 then - int (round_magnitude (nat \<bar>k\<bar>) 2) else int (round_magnitude (nat \<bar>k\<bar>) 2))"
  using round_half_even_magnitude [of 2 k] by simp

lemma round_half_even_2_bounds:
  assumes "2 * lo \<le> k" and "k \<le> 2 * hi"
  shows "lo \<le> round_half_even k 2" and "round_half_even k 2 \<le> hi"
  using round_half_even_mono [of 2 "lo * 2" k] round_half_even_mono [of 2 k "hi * 2"] assms
  by (simp_all add: mult.commute)

lemma arbor_renderer_midpoint_coord_exact:
  "sint (arbor_renderer_midpoint_coord a b) = round_half_even (sint a + sint b) 2"
proof -
  define k where "k = sint a + sint b"
  have bounds: "- 18446744073709551616 \<le> k" "k \<le> 18446744073709551614"
    using sint_i64_lower [of a] sint_i64_lower [of b] sint_i64_upper [of a] sint_i64_upper [of b]
    unfolding k_def by linarith+
  have range: "INT64_MIN \<le> round_half_even k 2" "round_half_even k 2 \<le> INT64_MAX"
    using round_half_even_2_bounds [of INT64_MIN k INT64_MAX] bounds by simp_all
  define m where "m = nat \<bar>k\<bar>"
  have mag: "(if k < 0 then u128 (nat (s128 (- s128 (k + 1))) + 1) else nat k) = m"
    using bounds by (auto simp: m_def s128_id u128_id)
  have "m \<le> 18446744073709551616" using bounds by (simp add: m_def)
  then have "drop_bit 1 m \<le> 9223372036854775808" by (simp add: drop_bit_eq_div)
  then have wrap: "u128 (drop_bit 1 m + 1) = drop_bit 1 m + 1" by (simp add: u128_id)
  have sum: "s128 k = k" using bounds by (simp add: s128_id)
  have "arbor_renderer_midpoint_coord a b =
      (if k < 0 then (if round_magnitude m 2 = 2 ^ 63 then word_of_int INT64_MIN else - of_nat (round_magnitude m 2))
       else of_nat (round_magnitude m 2))"
    unfolding arbor_renderer_midpoint_coord_def Let_def k_def [symmetric] sum mag wrap
      round_magnitude_half by (rule refl)
  also have "\<dots> = word_of_int (round_half_even k 2)"
    unfolding midpoint_magnitude m_def [symmetric] by simp
  finally show ?thesis
    using range by (simp add: sint_word_of_int k_def)
qed

section \<open>Every drawing operation is safe\<close>

named_theorems safe_intros \<open>composition of safe drawing operations\<close>

lemma safe_then [safe_intros]:
  assumes "safe_draw s f" and "safe_draw s g"
  shows "safe_draw s (\<lambda>mem. then_drawn (f mem) g)"
proof -
  have "\<exists>st mem'. then_drawn (f mem) g = Some (st, mem') \<and> length mem' = length mem \<and>
      (\<forall>p. pixel_inside s p \<longrightarrow> arbor_rgba16_is_valid_premultiplied (pixel_at s mem p) \<longrightarrow>
        arbor_rgba16_is_valid_premultiplied (pixel_at s mem' p))" if mem: "memory_ok s mem" for mem
  proof -
    obtain st mem' where f: "f mem = Some (st, mem')" "length mem' = length mem"
      "\<forall>p. pixel_inside s p \<longrightarrow> arbor_rgba16_is_valid_premultiplied (pixel_at s mem p) \<longrightarrow>
        arbor_rgba16_is_valid_premultiplied (pixel_at s mem' p)"
      using assms(1) mem unfolding safe_draw_def by blast
    have "memory_ok s mem'" using mem f(2) by (simp add: memory_ok_def)
    then obtain st2 mem2 where "g mem' = Some (st2, mem2)" "length mem2 = length mem'"
      "\<forall>p. pixel_inside s p \<longrightarrow> arbor_rgba16_is_valid_premultiplied (pixel_at s mem' p) \<longrightarrow>
        arbor_rgba16_is_valid_premultiplied (pixel_at s mem2 p)"
      using assms(2) unfolding safe_draw_def by blast
    with f show ?thesis by (simp add: then_drawn_def)
  qed
  then show ?thesis by (simp add: safe_draw_def)
qed

lemma safe_or_overflow [safe_intros]:
  "(\<And>v. r = Inr v \<Longrightarrow> safe_draw s (f v)) \<Longrightarrow> safe_draw s (\<lambda>mem. or_overflow r mem (\<lambda>v. f v mem))"
  by (cases r) (simp_all add: or_overflow_def safe_draw_status)

lemma safe_case_prod [safe_intros]:
  "(\<And>a b. p = (a, b) \<Longrightarrow> safe_draw s (f a b)) \<Longrightarrow> safe_draw s (\<lambda>mem. case p of (a, b) \<Rightarrow> f a b mem)"
  by (cases p) simp

lemma safe_for_status [safe_intros]:
  "(\<And>x. safe_draw s (body x)) \<Longrightarrow> safe_draw s (for_status body xs)"
proof (induction xs)
  case Nil
  have "for_status body [] = (\<lambda>mem. Some (ARBOR_RENDERER_OK, mem))" by (rule ext) simp
  then show ?case by (simp only: safe_draw_status)
next
  case (Cons x xs)
  have "for_status body (x # xs) = (\<lambda>mem. then_drawn (body x mem) (for_status body xs))" by (rule ext) simp
  then show ?case using safe_then [OF Cons.prems Cons.IH [OF Cons.prems]] by (simp only:)
qed

lemmas [safe_intros] = safe_draw_status safe_draw_if

lemma line_cell_safe:
  assumes "surface_fits s"
  shows "safe_draw s (line_cell s color steep x0 x1 y0 gradient major)"
  unfolding line_cell_def [abs_def] Let_def by (intro safe_intros blend_pixel_safe [OF assms])

lemma line_device_safe:
  assumes "surface_fits s"
  shows "safe_draw s (arbor_renderer_line_device target s a b color)"
  unfolding arbor_renderer_line_device_def [abs_def] Let_def
  by (intro safe_intros blend_pixel_safe [OF assms] line_cell_safe [OF assms])

lemma draw_line_safe: "safe_draw s (\<lambda>mem. arbor_renderer_draw_line target mem s line color)"
  unfolding arbor_renderer_draw_line_def
  by (intro safe_intros line_device_safe) (simp add: surface_validate_OK_iff)

section \<open>Curves as polylines\<close>

function quad_segments :: "arbor_point \<Rightarrow> arbor_point \<Rightarrow> arbor_point \<Rightarrow> nat \<Rightarrow> (arbor_point \<times> arbor_point) list" where
  "quad_segments p0 p1 p2 depth =
     (if depth \<ge> ARBOR_RENDERER_CURVE_MAX_DEPTH \<or> arbor_renderer_quad_flat_enough p0 p1 p2 then [(p0, p2)]
      else
        let p01 = arbor_renderer_midpoint_point p0 p1;
            p12 = arbor_renderer_midpoint_point p1 p2;
            p012 = arbor_renderer_midpoint_point p01 p12
        in quad_segments p0 p01 p012 (depth + 1) @ quad_segments p012 p12 p2 (depth + 1))"
  by pat_completeness auto
termination quad_segments
  by (relation "measure (\<lambda>(_, _, _, depth). ARBOR_RENDERER_CURVE_MAX_DEPTH - depth)") auto

declare quad_segments.simps [simp del]

function cubic_segments ::
    "arbor_point \<Rightarrow> arbor_point \<Rightarrow> arbor_point \<Rightarrow> arbor_point \<Rightarrow> nat \<Rightarrow> (arbor_point \<times> arbor_point) list" where
  "cubic_segments p0 p1 p2 p3 depth =
     (if depth \<ge> ARBOR_RENDERER_CURVE_MAX_DEPTH \<or> arbor_renderer_cubic_flat_enough p0 p1 p2 p3 then [(p0, p3)]
      else
        let p01 = arbor_renderer_midpoint_point p0 p1;
            p12 = arbor_renderer_midpoint_point p1 p2;
            p23 = arbor_renderer_midpoint_point p2 p3;
            p012 = arbor_renderer_midpoint_point p01 p12;
            p123 = arbor_renderer_midpoint_point p12 p23;
            p0123 = arbor_renderer_midpoint_point p012 p123
        in cubic_segments p0 p01 p012 p0123 (depth + 1) @ cubic_segments p0123 p123 p23 p3 (depth + 1))"
  by pat_completeness auto
termination cubic_segments
  by (relation "measure (\<lambda>(_, _, _, _, depth). ARBOR_RENDERER_CURVE_MAX_DEPTH - depth)") auto

declare cubic_segments.simps [simp del]

fun polyline :: "'p \<Rightarrow> ('p \<times> 'p) list \<Rightarrow> 'p \<Rightarrow> bool" where
  "polyline p [] q \<longleftrightarrow> p = q"
| "polyline p ((a, b) # segments) q \<longleftrightarrow> p = a \<and> polyline b segments q"

lemma polyline_append: "polyline p xs r \<Longrightarrow> polyline r ys q \<Longrightarrow> polyline p (xs @ ys) q"
  by (induction p xs r rule: polyline.induct) simp_all

lemma for_status_append: "for_status body (xs @ ys) mem = then_drawn (for_status body xs mem) (for_status body ys)"
  by (induction xs arbitrary: mem) (auto simp: then_drawn_def split: option.splits)

abbreviation draw_segments where
  "draw_segments target s color \<equiv> for_status (\<lambda>(a, b). arbor_renderer_line_device target s a b color)"

lemma then_drawn_ok: "then_drawn r (\<lambda>mem. Some (ARBOR_RENDERER_OK, mem)) = r"
  by (auto simp: then_drawn_def split: option.splits prod.splits)

lemma draw_one_segment: "draw_segments target s color [(a, b)] mem = arbor_renderer_line_device target s a b color mem"
  using then_drawn_ok by (simp add: for_status.simps [abs_def])

lemma stroke_quad_segments:
  "arbor_renderer_stroke_quad_recursive target s p0 p1 p2 color depth mem =
     draw_segments target s color (quad_segments p0 p1 p2 depth) mem"
proof (induction target s p0 p1 p2 color depth mem rule: arbor_renderer_stroke_quad_recursive.induct)
  case (1 target s p0 p1 p2 color depth mem)
  show ?case
  proof (cases "depth \<ge> ARBOR_RENDERER_CURVE_MAX_DEPTH \<or> arbor_renderer_quad_flat_enough p0 p1 p2")
    case True
    then show ?thesis
      by (simp add: quad_segments.simps arbor_renderer_stroke_quad_recursive.simps [of target s p0 p1 p2] draw_one_segment
        del: for_status.simps)
  next
    case False
    let ?l = "arbor_renderer_midpoint_point p0 p1" and ?m = "arbor_renderer_midpoint_point p1 p2"
    let ?ul = "arbor_renderer_midpoint_point ?l ?m"
    have "arbor_renderer_stroke_quad_recursive target s ?ul ?m p2 color (depth + 1) =
        draw_segments target s color (quad_segments ?ul ?m p2 (depth + 1))"
      by (rule ext) (rule "1.IH"(2) [OF False refl refl refl])
    then show ?thesis
      using "1.IH"(1) [OF False refl refl refl] False
      by (simp add: quad_segments.simps [of p0 p1 p2] arbor_renderer_stroke_quad_recursive.simps [of target s p0 p1 p2]
        for_status_append Let_def)
  qed
qed

lemma stroke_cubic_segments:
  "arbor_renderer_stroke_cubic_recursive target s p0 p1 p2 p3 color depth mem =
     draw_segments target s color (cubic_segments p0 p1 p2 p3 depth) mem"
proof (induction target s p0 p1 p2 p3 color depth mem rule: arbor_renderer_stroke_cubic_recursive.induct)
  case (1 target s p0 p1 p2 p3 color depth mem)
  show ?case
  proof (cases "depth \<ge> ARBOR_RENDERER_CURVE_MAX_DEPTH \<or> arbor_renderer_cubic_flat_enough p0 p1 p2 p3")
    case True
    then show ?thesis
      by (simp add: cubic_segments.simps arbor_renderer_stroke_cubic_recursive.simps [of target s p0 p1 p2 p3]
        draw_one_segment del: for_status.simps)
  next
    case False
    let ?l = "arbor_renderer_midpoint_point p0 p1" and ?m = "arbor_renderer_midpoint_point p1 p2"
      and ?r = "arbor_renderer_midpoint_point p2 p3"
    let ?ul = "arbor_renderer_midpoint_point ?l ?m" and ?ur = "arbor_renderer_midpoint_point ?m ?r"
    let ?mid = "arbor_renderer_midpoint_point ?ul ?ur"
    have "arbor_renderer_stroke_cubic_recursive target s ?mid ?ur ?r p3 color (depth + 1) =
        draw_segments target s color (cubic_segments ?mid ?ur ?r p3 (depth + 1))"
      by (rule ext) (rule "1.IH"(2) [OF False refl refl refl refl refl refl])
    then show ?thesis
      using "1.IH"(1) [OF False refl refl refl refl refl refl] False
      by (simp add: cubic_segments.simps [of p0 p1 p2 p3]
        arbor_renderer_stroke_cubic_recursive.simps [of target s p0 p1 p2 p3] for_status_append Let_def)
  qed
qed

lemma power_halves: "d < n \<Longrightarrow> 2 ^ (n - d) = 2 ^ (n - (d + 1)) + (2 ^ (n - (d + 1)) :: nat)"
  by (subst Suc_diff_Suc [symmetric]) simp_all

lemma quad_segments_polyline:
  "polyline p0 (quad_segments p0 p1 p2 depth) p2 \<and>
   length (quad_segments p0 p1 p2 depth) \<le> 2 ^ (ARBOR_RENDERER_CURVE_MAX_DEPTH - depth)"
proof (induction p0 p1 p2 depth rule: quad_segments.induct)
  case (1 p0 p1 p2 depth)
  show ?case
  proof (cases "depth \<ge> ARBOR_RENDERER_CURVE_MAX_DEPTH \<or> arbor_renderer_quad_flat_enough p0 p1 p2")
    case True
    then show ?thesis by (subst (1 2) quad_segments.simps) simp
  next
    case False
    note ih = "1.IH" [OF False refl refl refl]
    have "depth < ARBOR_RENDERER_CURVE_MAX_DEPTH" using False by simp
    note power = power_halves [OF this]
    then show ?thesis
      using False ih power by (subst (1 2) quad_segments.simps) (auto simp: Let_def intro: polyline_append)
  qed
qed

lemma cubic_segments_polyline:
  "polyline p0 (cubic_segments p0 p1 p2 p3 depth) p3 \<and>
   length (cubic_segments p0 p1 p2 p3 depth) \<le> 2 ^ (ARBOR_RENDERER_CURVE_MAX_DEPTH - depth)"
proof (induction p0 p1 p2 p3 depth rule: cubic_segments.induct)
  case (1 p0 p1 p2 p3 depth)
  show ?case
  proof (cases "depth \<ge> ARBOR_RENDERER_CURVE_MAX_DEPTH \<or> arbor_renderer_cubic_flat_enough p0 p1 p2 p3")
    case True
    then show ?thesis by (subst (1 2) cubic_segments.simps) simp
  next
    case False
    note ih = "1.IH" [OF False refl refl refl refl refl refl]
    have "depth < ARBOR_RENDERER_CURVE_MAX_DEPTH" using False by simp
    note power = power_halves [OF this]
    then show ?thesis
      using False ih power by (subst (1 2) cubic_segments.simps) (auto simp: Let_def intro: polyline_append)
  qed
qed

section \<open>Stroking a path is safe\<close>

lemma draw_segments_safe: "surface_fits s \<Longrightarrow> safe_draw s (draw_segments target s color segments)"
  by (intro safe_for_status) (auto intro: line_device_safe)

lemma stroke_quad_safe:
  assumes "surface_fits s"
  shows "safe_draw s (arbor_renderer_stroke_quad_recursive target s p0 p1 p2 color depth)"
proof -
  have "arbor_renderer_stroke_quad_recursive target s p0 p1 p2 color depth =
      draw_segments target s color (quad_segments p0 p1 p2 depth)"
    by (rule ext) (rule stroke_quad_segments)
  then show ?thesis using draw_segments_safe [OF assms] by (simp only:)
qed

lemma stroke_cubic_safe:
  assumes "surface_fits s"
  shows "safe_draw s (arbor_renderer_stroke_cubic_recursive target s p0 p1 p2 p3 color depth)"
proof -
  have "arbor_renderer_stroke_cubic_recursive target s p0 p1 p2 p3 color depth =
      draw_segments target s color (cubic_segments p0 p1 p2 p3 depth)"
    by (rule ext) (rule stroke_cubic_segments)
  then show ?thesis using draw_segments_safe [OF assms] by (simp only:)
qed

text \<open>The same contract for operations that also carry a state.\<close>

definition safe_with_state ::
    "arbor_raster_surface \<Rightarrow> (pixel_memory \<Rightarrow> ('r \<times> 'st \<times> pixel_memory) option) \<Rightarrow> bool" where
  "safe_with_state s f \<longleftrightarrow> (\<forall>mem. memory_ok s mem \<longrightarrow> (\<exists>r st mem'. f mem = Some (r, st, mem') \<and>
     length mem' = length mem \<and>
     (\<forall>p. pixel_inside s p \<longrightarrow> arbor_rgba16_is_valid_premultiplied (pixel_at s mem p) \<longrightarrow>
       arbor_rgba16_is_valid_premultiplied (pixel_at s mem' p))))"

lemma stroke_to_safe:
  assumes "safe_draw s draw"
  shows "safe_with_state s (stroke_to st next draw)"
  using assms unfolding safe_with_state_def safe_draw_def stroke_to_def by fastforce

lemma safe_with_state_return: "safe_with_state s (\<lambda>mem. Some (r, st, mem))"
  by (simp add: safe_with_state_def)

lemma stroke_command_safe:
  assumes "surface_fits s"
  shows "safe_with_state s (stroke_command target s color command st)"
  unfolding stroke_command_def [abs_def]
  by (cases "cmd_type command")
    (simp_all add: stroke_to_safe line_device_safe stroke_quad_safe stroke_cubic_safe safe_with_state_return assms)

lemma stroke_commands_safe:
  assumes "surface_fits s" and "\<forall>i \<in> set is. i < length commands"
  shows "safe_draw s (stroke_commands target s color commands is st)"
  using assms(2)
proof (induction "is" arbitrary: st)
  case Nil
  show ?case by (simp add: safe_draw_def)
next
  case (Cons i rest)
  have "\<exists>status mem'. stroke_commands target s color commands (i # rest) st mem = Some (status, mem') \<and>
      length mem' = length mem \<and>
      (\<forall>p. pixel_inside s p \<longrightarrow> arbor_rgba16_is_valid_premultiplied (pixel_at s mem p) \<longrightarrow>
        arbor_rgba16_is_valid_premultiplied (pixel_at s mem' p))" if mem: "memory_ok s mem" for mem
  proof -
    obtain r st' mem1 where step: "stroke_command target s color (commands ! i) st mem = Some (r, st', mem1)"
      "length mem1 = length mem"
      "\<forall>p. pixel_inside s p \<longrightarrow> arbor_rgba16_is_valid_premultiplied (pixel_at s mem p) \<longrightarrow>
        arbor_rgba16_is_valid_premultiplied (pixel_at s mem1 p)"
      using stroke_command_safe [OF assms(1), of target color "commands ! i" st] mem
      unfolding safe_with_state_def by blast
    have "memory_ok s mem1" using mem step(2) by (simp add: memory_ok_def)
    moreover have "safe_draw s (stroke_commands target s color commands rest st')"
      using Cons by simp
    ultimately obtain status mem2 where
      "stroke_commands target s color commands rest st' mem1 = Some (status, mem2)" "length mem2 = length mem1"
      "\<forall>p. pixel_inside s p \<longrightarrow> arbor_rgba16_is_valid_premultiplied (pixel_at s mem1 p) \<longrightarrow>
        arbor_rgba16_is_valid_premultiplied (pixel_at s mem2 p)"
      unfolding safe_draw_def by blast
    with step Cons.prems show ?thesis by simp
  qed
  then show ?case by (simp add: safe_draw_def)
qed

lemma stroke_path_safe:
  assumes "\<forall>cs. commands = Some cs \<longrightarrow> unat count \<le> length cs"
  shows "safe_draw s (\<lambda>mem. arbor_renderer_stroke_path target mem s commands count color)"
proof (cases "arbor_renderer_surface_validate s = ARBOR_RENDERER_OK \<and> (count \<noteq> 0 \<longrightarrow> commands \<noteq> None)")
  case True
  then have "surface_fits s" by (simp add: surface_validate_OK_iff)
  moreover have "\<forall>i \<in> set [0..<unat count]. i < length (case commands of None \<Rightarrow> [] | Some cs \<Rightarrow> cs)"
    using True assms by (auto split: option.splits)
  ultimately show ?thesis
    unfolding arbor_renderer_stroke_path_def Let_def
    by (intro safe_intros stroke_commands_safe)
next
  case False
  then show ?thesis unfolding arbor_renderer_stroke_path_def
    by (auto simp: safe_draw_def)
qed

end
