(* ===== verification/Renderer_Properties.thy ===== *)
theory Renderer_Properties
  imports Stroke
begin

text \<open>
  The properties of the software renderer: colour arithmetic, pixel access, clearing, filling, lines and
  paths, each over the functions of the source.
\<close>

section \<open>Colours\<close>

text \<open>The exact value every channel of a composite has.\<close>

definition over_channel :: "u16 \<Rightarrow> u16 \<Rightarrow> u16 \<Rightarrow> int" where
  "over_channel s d alpha = int (unat s) + round_half_even (int (unat d) * (65535 - int (unat alpha))) 65535"

lemma composite_over_channel: "int (composite_exact (unat s) (unat d) (unat sa)) = over_channel s d sa"
proof -
  have a: "int (65535 - unat sa) = 65535 - int (unat sa)" using unat_u16_le [of sa] by (simp add: of_nat_diff)
  have "round_half_even (int n) 65535 = int (round_magnitude n 65535)" for n
    using round_half_even_magnitude [of 65535 "int n"] by simp
  from this [of "unat d * (65535 - unat sa)"] show ?thesis
    unfolding composite_exact_def over_channel_def of_nat_mult of_nat_add a by simp
qed

text \<open>C13: Source-over compositing of premultiplied pixels is exact: every channel is the source plus the
  destination times one minus the source alpha, rounded to nearest even, with no clamp taking effect, and
  the result is premultiplied again.\<close>

theorem compositing_exact:
  assumes "arbor_rgba16_is_valid_premultiplied s" and "arbor_rgba16_is_valid_premultiplied d"
  shows "int (unat (px_r (arbor_rgba16_source_over s d))) = over_channel (px_r s) (px_r d) (px_a s) \<and>
    int (unat (px_g (arbor_rgba16_source_over s d))) = over_channel (px_g s) (px_g d) (px_a s) \<and>
    int (unat (px_b (arbor_rgba16_source_over s d))) = over_channel (px_b s) (px_b d) (px_a s) \<and>
    int (unat (px_a (arbor_rgba16_source_over s d))) = over_channel (px_a s) (px_a d) (px_a s) \<and>
    arbor_rgba16_is_valid_premultiplied (arbor_rgba16_source_over s d)"
  by (simp only: source_over_exact [OF assms] composite_over_channel source_over_valid [OF assms] simp_thms)

definition half_grey :: arbor_rgba16 where
  "half_grey = \<lparr>px_r = 100, px_g = 200, px_b = 300, px_a = 32768\<rparr>"

lemma half_grey_valid: "arbor_rgba16_is_valid_premultiplied half_grey"
  by (simp add: half_grey_def arbor_rgba16_is_valid_premultiplied_def)

theorem compositing_exact_witness:
  "int (unat (px_r (arbor_rgba16_source_over half_grey half_grey))) = 150"
  using compositing_exact [OF half_grey_valid half_grey_valid]
  by (simp add: over_channel_def half_grey_def round_half_even_def Let_def)

text \<open>An opaque source replaces the destination and a fully transparent one leaves it unchanged; full coverage
  keeps a colour, zero coverage makes it transparent, and any coverage keeps it premultiplied.\<close>

theorem compositing_laws:
  assumes "arbor_rgba16_is_valid_premultiplied p"
  shows "arbor_rgba16_source_over (arbor_rgba16_apply_coverage p 0) p = p \<and>
    arbor_rgba16_apply_coverage p (of_nat ARBOR_COVERAGE_ONE) = p \<and>
    arbor_rgba16_is_valid_premultiplied (arbor_rgba16_apply_coverage p c) \<and>
    arbor_rgba16_source_over (p\<lparr>px_a := 65535\<rparr>) d = p\<lparr>px_a := 65535\<rparr>"
proof -
  have "v \<le> (65535 :: u16)" for v using unat_u16_le [of v] by (simp add: word_le_nat_alt)
  then have "arbor_rgba16_is_valid_premultiplied (p\<lparr>px_a := 65535\<rparr>)"
    by (simp add: arbor_rgba16_is_valid_premultiplied_def)
  moreover have "arbor_rgba16_apply_coverage p 0 = \<lparr>px_r = 0, px_g = 0, px_b = 0, px_a = 0\<rparr>"
    and "arbor_rgba16_apply_coverage p (of_nat ARBOR_COVERAGE_ONE) = p"
    by (simp_all add: arbor_rgba16_apply_coverage_def)
  ultimately show ?thesis
    using source_over_transparent [OF assms] source_over_opaque apply_coverage_valid [OF assms, of c] by simp
qed

theorem compositing_laws_witness:
  "arbor_rgba16_source_over (half_grey\<lparr>px_a := 65535\<rparr>) half_grey = half_grey\<lparr>px_a := 65535\<rparr>"
  using compositing_laws [OF half_grey_valid] by blast

text \<open>C15: Converting a linear channel to sRGB returns the nearest entry of the conversion table, the even one on a
  tie, for all 65536 inputs.\<close>

theorem srgb_conversion_nearest:
  assumes "j < 256" and "j \<noteq> unat (arbor_renderer_linear16_to_srgb8 v)"
  shows "\<bar>int (unat v) - int (arbor_srgb8_to_linear16 ! unat (arbor_renderer_linear16_to_srgb8 v))\<bar>
      < \<bar>int (unat v) - int (arbor_srgb8_to_linear16 ! j)\<bar> \<or>
    (\<bar>int (unat v) - int (arbor_srgb8_to_linear16 ! unat (arbor_renderer_linear16_to_srgb8 v))\<bar>
      = \<bar>int (unat v) - int (arbor_srgb8_to_linear16 ! j)\<bar> \<and> even (unat (arbor_renderer_linear16_to_srgb8 v)))"
proof -
  have distance: "\<bar>int a - int (arbor_srgb8_to_linear16 ! i)\<bar> = int (srgb_distance a i)" for a i
    by (auto simp: srgb_distance_def of_nat_diff)
  have "srgb_distance (unat v) (unat (arbor_renderer_linear16_to_srgb8 v)) < srgb_distance (unat v) j \<or>
      (srgb_distance (unat v) (unat (arbor_renderer_linear16_to_srgb8 v)) = srgb_distance (unat v) j \<and>
       even (unat (arbor_renderer_linear16_to_srgb8 v)))"
    using arbor_renderer_linear16_to_srgb8_nearest [OF assms(1), where v = v] assms(2) le_less by blast
  then show ?thesis
    unfolding distance of_nat_less_iff of_nat_eq_iff .
qed

theorem srgb_conversion_nearest_witness:
  "\<bar>int 30 - int (arbor_srgb8_to_linear16 ! unat (arbor_renderer_linear16_to_srgb8 30))\<bar> \<le> 10"
proof -
  have "arbor_srgb8_to_linear16 ! 2 = 40" by (simp add: arbor_srgb8_to_linear16_def)
  then show ?thesis
    using srgb_conversion_nearest [of 2 30] by (cases "unat (arbor_renderer_linear16_to_srgb8 30) = 2") auto
qed

text \<open>An opaque sRGB colour survives the round trip through the linear premultiplied format, and alpha
  survives it for every colour.\<close>

theorem srgb_round_trip:
  assumes "srgb_a opaque = 255"
  shows "arbor_rgba16_to_srgb8 (arbor_rgba16_from_srgb8 opaque) = opaque \<and>
    srgb_a (arbor_rgba16_to_srgb8 (arbor_rgba16_from_srgb8 c)) = srgb_a c"
  using srgb8_opaque_round_trip [OF assms] srgb8_alpha_round_trip by blast

theorem srgb_round_trip_witness:
  "arbor_rgba16_to_srgb8 (arbor_rgba16_from_srgb8 \<lparr>srgb_r = 18, srgb_g = 52, srgb_b = 86, srgb_a = 255\<rparr>) =
     \<lparr>srgb_r = 18, srgb_g = 52, srgb_b = 86, srgb_a = 255\<rparr>"
  using srgb_round_trip [of "\<lparr>srgb_r = 18, srgb_g = 52, srgb_b = 86, srgb_a = 255\<rparr>"
      "\<lparr>srgb_r = 18, srgb_g = 52, srgb_b = 86, srgb_a = 255\<rparr>"] by simp

section \<open>Pixels\<close>

text \<open>Setting a pixel of a surface makes it read back as written, leaves every other pixel as it was, and
  changes no byte outside its own eight.\<close>

theorem pixel_set_get:
  assumes "surface_fits s" and "unat (surface_buffer_bytes s) \<le> length mem"
    and "x < surface_width s" and "y < surface_height s" and "arbor_rgba16_is_valid_premultiplied v"
  shows "\<exists>mem'. arbor_raster_surface_set_pixel mem s x y v = Some (ARBOR_RENDERER_OK, mem') \<and>
    length mem' = length mem \<and>
    arbor_raster_surface_get_pixel mem' s x y Out = Some (Inr v) \<and>
    (\<forall>x' y'. (x', y') \<noteq> (x, y) \<longrightarrow>
      arbor_raster_surface_get_pixel mem' s x' y' Out = arbor_raster_surface_get_pixel mem s x' y' Out)"
proof -
  let ?p = "(unat x, unat y)" and ?m = "put_pixel s mem (unat x, unat y) v"
  have inside: "pixel_inside s ?p" and ok: "memory_ok s mem"
    using assms by (simp_all add: pixel_inside_def memory_ok_def word_less_nat_alt)
  have ok': "memory_ok s ?m" by (rule surface.put_ok [OF inside ok])
  have other: "arbor_raster_surface_get_pixel ?m s x' y' Out = arbor_raster_surface_get_pixel mem s x' y' Out"
    if "(x', y') \<noteq> (x, y)" for x' y'
  proof (cases "pixel_inside s (unat x', unat y')")
    case True
    have "?p \<noteq> (unat x', unat y')" using that by (auto simp: word_unat_eq_iff)
    then show ?thesis
      using surface.get_put_other [OF inside True ok] arbor_raster_surface_get_pixel_exact [OF True] ok ok' by simp
  next
    case False
    then show ?thesis
      using pixel_offset_Inr_inside [OF assms(1), of x' y']
      by (auto simp: arbor_raster_surface_get_pixel_def split: sum.split)
  qed
  then show ?thesis
    using arbor_raster_surface_set_pixel_exact [OF inside ok assms(5)] put_pixel_facts(1) [OF inside ok]
      arbor_raster_surface_get_pixel_exact [OF inside ok'] surface.get_put_same [OF inside ok]
    by (intro exI [of _ ?m]) simp
qed

definition small_surface :: arbor_raster_surface where
  "small_surface = \<lparr>surface_pixels = Out, surface_width = 2, surface_height = 2, surface_stride = 16,
     surface_buffer_bytes = 32\<rparr>"

definition small_memory :: pixel_memory where
  "small_memory = replicate 32 0"

lemma small_surface_fits: "surface_fits small_surface"
  and small_memory_length: "length small_memory = 32"
  by (simp_all add: surface_fits_def small_surface_def small_memory_def)

lemma small_memory_ok: "memory_ok small_surface small_memory"
  by (simp add: memory_ok_def small_memory_length) (simp add: small_surface_def)

theorem pixel_set_get_witness:
  "\<exists>mem'. arbor_raster_surface_set_pixel small_memory small_surface 1 1 half_grey = Some (ARBOR_RENDERER_OK, mem') \<and>
    arbor_raster_surface_get_pixel mem' small_surface 1 1 Out = Some (Inr half_grey)"
  using pixel_set_get [OF small_surface_fits, of small_memory 1 1 half_grey] half_grey_valid small_memory_length
  by (auto simp: small_surface_def)

text \<open>Clearing a surface gives every pixel the colour, although the loop writes eight packed pixels per
  iteration, and keeps the padding bytes between the rows.\<close>

theorem clear_sets_every_pixel:
  assumes "surface_fits s" and "unat (surface_buffer_bytes s) \<le> length mem"
    and "arbor_rgba16_is_valid_premultiplied c"
  shows "\<exists>mem'. arbor_renderer_clear mem s c = Some (ARBOR_RENDERER_OK, mem') \<and> length mem' = length mem \<and>
    (\<forall>x y. x < surface_width s \<and> y < surface_height s \<longrightarrow>
      arbor_raster_surface_get_pixel mem' s x y Out = Some (Inr c))"
proof -
  have ok: "memory_ok s mem" using assms(2) by (simp add: memory_ok_def)
  have inside: "\<forall>p\<in>set (surface_pixel_list s). pixel_inside s p"
    by (simp add: set_surface_pixel_list [OF assms(1)])
  let ?m = "surface.update_all s (\<lambda>_ _. c) (surface_pixel_list s) mem"
  have "arbor_raster_surface_get_pixel ?m s x y Out = Some (Inr c)"
    if "x < surface_width s \<and> y < surface_height s" for x y
  proof -
    have p: "pixel_inside s (unat x, unat y)"
      using that assms(1) by (simp add: pixel_inside_def word_less_nat_alt)
    show ?thesis
      using arbor_raster_surface_get_pixel_exact [OF p surface.update_all_ok [OF inside ok]]
        surface.get_update_all [OF inside distinct_surface_pixel_list ok p] p
      by (simp add: set_surface_pixel_list [OF assms(1)])
  qed
  then show ?thesis
    using arbor_renderer_clear_exact [OF assms(1) ok assms(3)] update_all_length [OF inside ok] by auto
qed

theorem clear_sets_every_pixel_witness:
  "\<exists>mem'. arbor_renderer_clear small_memory small_surface half_grey = Some (ARBOR_RENDERER_OK, mem') \<and>
    arbor_raster_surface_get_pixel mem' small_surface 0 1 Out = Some (Inr half_grey)"
  using clear_sets_every_pixel [OF small_surface_fits, of small_memory half_grey] half_grey_valid small_memory_length
  by (auto simp: small_surface_def)

section \<open>Drawing\<close>

text \<open>C12: Filling a rectangle, on a surface of any size that passes the validation, blends every pixel outside the column
  and the row 2147483647 with the colour scaled by the exact area of the pixel the rectangle covers, rounded once to nearest
  even; a pixel the rectangle does not touch keeps its value, whatever part of the rectangle lies outside the surface.
  The column and the row 2147483647 of a surface that has them are the exception, which the code does not check: the far
  edge \<open>pixel_left + ARBOR_COORD_ONE\<close> overflows there, and with the wrap-around of the model these pixels are never
  painted.\<close>

theorem fill_rect_blends_by_area:
  assumes "surface_fits s" and "unat (surface_buffer_bytes s) \<le> length mem"
    and "arbor_rgba16_is_valid_premultiplied color" and "device_rect_ok r"
  shows "\<exists>mem'. arbor_renderer_fill_rect mem s r color = Some (ARBOR_RENDERER_OK, mem') \<and>
    length mem' = length mem \<and>
    (\<forall>p. pixel_inside s p \<longrightarrow> pixel_at s mem' p =
      (if fst p = 2147483647 \<or> snd p = 2147483647 \<or> pixel_cover r p = 0 then pixel_at s mem p
       else arbor_rgba16_source_over (arbor_rgba16_apply_coverage color (of_nat (pixel_cover r p))) (pixel_at s mem p)))"
proof -
  have "memory_ok s mem" using assms(2) by (simp add: memory_ok_def)
  then obtain mem' where "arbor_renderer_fill_rect mem s r color = Some (ARBOR_RENDERER_OK, mem')"
    and "length mem' = length mem"
    and "\<And>p. pixel_inside s p \<Longrightarrow> pixel_at s mem' p =
      (if on_last_line p \<or> pixel_cover r p = 0 then pixel_at s mem p
       else blend_exact color (of_nat (pixel_cover r p)) (pixel_at s mem p))"
    using arbor_renderer_fill_rect_pixels [OF assms(1) _ assms(3,4)] by metis
  then show ?thesis by (auto simp: blend_exact_def on_last_line_def)
qed

definition half_pixel_rect :: arbor_device_rect where
  "half_pixel_rect = \<lparr>drect_x = 0, drect_y = 0, drect_width = 2147483648, drect_height = 4294967296\<rparr>"

lemma half_pixel_rect_ok: "device_rect_ok half_pixel_rect"
  by (simp add: device_rect_ok_def half_pixel_rect_def in_i64_def)

theorem fill_rect_blends_by_area_witness:
  "\<exists>mem'. arbor_renderer_fill_rect small_memory small_surface half_pixel_rect half_grey =
      Some (ARBOR_RENDERER_OK, mem') \<and>
    pixel_at small_surface mem' (0, 0) =
      arbor_rgba16_source_over (arbor_rgba16_apply_coverage half_grey 2147483648)
        (pixel_at small_surface small_memory (0, 0)) \<and>
    pixel_at small_surface mem' (1, 1) = pixel_at small_surface small_memory (1, 1)"
proof -
  have "pixel_cover half_pixel_rect (0, 0) = 2147483648" "pixel_cover half_pixel_rect (1, 1) = 0"
    by (simp_all add: pixel_cover_def cover_exact_def overlap_exact_def half_pixel_rect_def drect_right_def
      drect_bottom_def round_magnitude_def)
  moreover have "pixel_inside small_surface (0, 0)" "pixel_inside small_surface (1, 1)"
    using small_surface_fits by (simp_all add: pixel_inside_def small_surface_def)
  ultimately show ?thesis
    using fill_rect_blends_by_area [OF small_surface_fits, of small_memory half_grey
        half_pixel_rect] half_grey_valid half_pixel_rect_ok small_memory_length
    by (fastforce simp: small_surface_def)
qed

text \<open>C11: No drawing operation can leave the buffer: on any surface record, valid or not, whose buffer size is at
  most the bytes that exist, clearing, filling, lines and paths (of any command array at least as long as the count
  passed) return a status, keep the buffer's length and keep every premultiplied pixel premultiplied.\<close>

theorem drawing_is_memory_safe:
  assumes "\<forall>cs. commands = Some cs \<longrightarrow> unat count \<le> length cs"
  shows "safe_draw s (\<lambda>mem. arbor_renderer_clear mem s color) \<and>
    safe_draw s (\<lambda>mem. arbor_renderer_fill_rect mem s rect color) \<and>
    safe_draw s (\<lambda>mem. arbor_renderer_draw_line target mem s line color) \<and>
    safe_draw s (\<lambda>mem. arbor_renderer_stroke_path target mem s commands count color)"
  by (intro conjI clear_safe fill_rect_safe draw_line_safe stroke_path_safe [OF assms])

definition arbor_origin :: arbor_point where
  "arbor_origin = \<lparr>pt_x = 0, pt_y = 0\<rparr>"

theorem drawing_is_memory_safe_witness:
  "\<exists>status mem'. arbor_renderer_stroke_path X86_64 small_memory small_surface
      (Some [\<lparr>cmd_type = ARBOR_PATH_CLOSE, cmd_p1 = arbor_origin, cmd_p2 = arbor_origin, cmd_p3 = arbor_origin\<rparr>]) 1 half_grey =
    Some (status, mem')"
proof -
  let ?close = "\<lparr>cmd_type = ARBOR_PATH_CLOSE, cmd_p1 = arbor_origin, cmd_p2 = arbor_origin, cmd_p3 = arbor_origin\<rparr>"
  have "\<forall>cs. Some [?close] = Some cs \<longrightarrow> unat (1 :: u32) \<le> length cs" by simp
  then have "safe_draw small_surface (\<lambda>mem. arbor_renderer_stroke_path X86_64 mem small_surface (Some [?close]) 1 half_grey)"
    using drawing_is_memory_safe by blast
  then show ?thesis
    using small_memory_ok unfolding safe_draw_def by blast
qed

text \<open>C14: The recursive curve strokers draw, in order, the segments of a connected polyline from the first to the
  last control point with at most 4096 segments, so the recursion ends for every curve.\<close>

theorem curves_are_polylines:
  "\<exists>quad cubic.
    arbor_renderer_stroke_quad_recursive target s p0 p1 p2 color 0 =
      for_status (\<lambda>(a, b). arbor_renderer_line_device target s a b color) quad \<and>
    polyline p0 quad p2 \<and> length quad \<le> 4096 \<and>
    arbor_renderer_stroke_cubic_recursive target s p0 p1 p2 p3 color 0 =
      for_status (\<lambda>(a, b). arbor_renderer_line_device target s a b color) cubic \<and>
    polyline p0 cubic p3 \<and> length cubic \<le> 4096"
proof (intro exI conjI)
  show "arbor_renderer_stroke_quad_recursive target s p0 p1 p2 color 0 =
      for_status (\<lambda>(a, b). arbor_renderer_line_device target s a b color) (quad_segments p0 p1 p2 0)"
    by (rule ext) (rule stroke_quad_segments)
  show "arbor_renderer_stroke_cubic_recursive target s p0 p1 p2 p3 color 0 =
      for_status (\<lambda>(a, b). arbor_renderer_line_device target s a b color) (cubic_segments p0 p1 p2 p3 0)"
    by (rule ext) (rule stroke_cubic_segments)
qed (use quad_segments_polyline [of p0 p1 p2 0] cubic_segments_polyline [of p0 p1 p2 p3 0] in simp_all)

text \<open>The subdivision point is the exact midpoint, rounded to nearest even, for all coordinates: the sum cannot
  overflow and no midpoint leaves the coordinate range.\<close>

theorem midpoint_nearest:
  "nearest_even (sint (pt_x a) + sint (pt_x b)) 2 (sint (pt_x (arbor_renderer_midpoint_point a b))) \<and>
   nearest_even (sint (pt_y a) + sint (pt_y b)) 2 (sint (pt_y (arbor_renderer_midpoint_point a b)))"
  by (simp add: arbor_renderer_midpoint_point_def arbor_renderer_midpoint_coord_exact round_half_even_nearest)

end
