(* ===== verification/Native_Status.thy ===== *)
theory Native_Status
  imports Arbor_Prelude
begin

text \<open>
  The status values of \<open>src/c/status.c\<close>: a native result (zero, a positive count or a negated
  \<open>errno\<close>) and the code derived from it. The \<open>errno\<close> numbers are those of Linux, the platform
  the sources require. Components that return early with a status use the sum \<open>stop + 'a\<close>, where
  \<open>Fault\<close> is an access outside an object the model holds.
\<close>

section \<open>The code\<close>

abbreviation ENOENT :: int where "ENOENT \<equiv> 2"
abbreviation EINTR :: int where "EINTR \<equiv> 4"
abbreviation EIO :: int where "EIO \<equiv> 5"
abbreviation EAGAIN :: int where "EAGAIN \<equiv> 11"
abbreviation EBUSY :: int where "EBUSY \<equiv> 16"
abbreviation EINVAL :: int where "EINVAL \<equiv> 22"
abbreviation ENOSPC :: int where "ENOSPC \<equiv> 28"
abbreviation EOVERFLOW :: int where "EOVERFLOW \<equiv> 75"
abbreviation EPROTONOSUPPORT :: int where "EPROTONOSUPPORT \<equiv> 93"
abbreviation ECONNRESET :: int where "ECONNRESET \<equiv> 104"
abbreviation EALREADY :: int where "EALREADY \<equiv> 114"
abbreviation ESTALE :: int where "ESTALE \<equiv> 116"

abbreviation ARBORCORE_SERVER_MORE_WORK :: int where "ARBORCORE_SERVER_MORE_WORK \<equiv> 1"

datatype arbor_status_code =
    ARBOR_STATUS_OK
  | ARBOR_STATUS_MORE_WORK
  | ARBOR_STATUS_NOT_FOUND
  | ARBOR_STATUS_INTERRUPTED
  | ARBOR_STATUS_IO
  | ARBOR_STATUS_WOULD_BLOCK
  | ARBOR_STATUS_INVALID_ARGUMENT
  | ARBOR_STATUS_NO_SPACE
  | ARBOR_STATUS_OVERFLOW
  | ARBOR_STATUS_CONNECTION_RESET
  | ARBOR_STATUS_NATIVE_ERROR
  | ARBOR_STATUS_NATIVE_SUCCESS
  | ARBOR_STATUS_OUT_OF_ENUM int

record arbor_status =
  st_code :: arbor_status_code
  st_native :: i64

definition arbor_status_from_native :: "i64 \<Rightarrow> arbor_status" where
  "arbor_status_from_native native =
     \<lparr>st_code =
        (if sint native = 0 then ARBOR_STATUS_OK
         else if sint native = ARBORCORE_SERVER_MORE_WORK then ARBOR_STATUS_MORE_WORK
         else if sint native = - ENOENT then ARBOR_STATUS_NOT_FOUND
         else if sint native = - EINTR then ARBOR_STATUS_INTERRUPTED
         else if sint native = - EIO then ARBOR_STATUS_IO
         else if sint native = - EAGAIN then ARBOR_STATUS_WOULD_BLOCK
         else if sint native = - EINVAL then ARBOR_STATUS_INVALID_ARGUMENT
         else if sint native = - ENOSPC then ARBOR_STATUS_NO_SPACE
         else if sint native = - EOVERFLOW then ARBOR_STATUS_OVERFLOW
         else if sint native = - ECONNRESET then ARBOR_STATUS_CONNECTION_RESET
         else if sint native < 0 then ARBOR_STATUS_NATIVE_ERROR
         else ARBOR_STATUS_NATIVE_SUCCESS),
      st_native = native\<rparr>"

definition arbor_status_is_success :: "arbor_status \<Rightarrow> bool" where
  "arbor_status_is_success status \<longleftrightarrow> sint (st_native status) \<ge> 0"

definition arbor_status_is_error :: "arbor_status \<Rightarrow> bool" where
  "arbor_status_is_error status \<longleftrightarrow> sint (st_native status) < 0"

definition arbor_status_name :: "arbor_status \<Rightarrow> string" where
  "arbor_status_name status =
     (case st_code status of
        ARBOR_STATUS_OK \<Rightarrow> ''ok''
      | ARBOR_STATUS_MORE_WORK \<Rightarrow> ''more_work''
      | ARBOR_STATUS_NOT_FOUND \<Rightarrow> ''not_found''
      | ARBOR_STATUS_INTERRUPTED \<Rightarrow> ''interrupted''
      | ARBOR_STATUS_IO \<Rightarrow> ''io''
      | ARBOR_STATUS_WOULD_BLOCK \<Rightarrow> ''would_block''
      | ARBOR_STATUS_INVALID_ARGUMENT \<Rightarrow> ''invalid_argument''
      | ARBOR_STATUS_NO_SPACE \<Rightarrow> ''no_space''
      | ARBOR_STATUS_OVERFLOW \<Rightarrow> ''overflow''
      | ARBOR_STATUS_CONNECTION_RESET \<Rightarrow> ''connection_reset''
      | ARBOR_STATUS_NATIVE_ERROR \<Rightarrow> ''native_error''
      | ARBOR_STATUS_NATIVE_SUCCESS \<Rightarrow> ''native_success''
      | ARBOR_STATUS_OUT_OF_ENUM _ \<Rightarrow> ''unknown'')"

section \<open>Early return\<close>

definition native_status :: "int \<Rightarrow> arbor_status" where
  "native_status native = arbor_status_from_native (word_of_int native)"

definition ok_status :: arbor_status where
  "ok_status = native_status 0"

datatype stop = Return arbor_status | Fault

definition fail :: "int \<Rightarrow> stop + 'a" where
  "fail errno = Inl (Return (native_status (- errno)))"

definition require :: "bool \<Rightarrow> int \<Rightarrow> stop + unit" where
  "require c errno = (if c then Inr () else fail errno)"

section \<open>Facts\<close>

lemma st_native_from_native [simp]: "st_native (arbor_status_from_native n) = n"
  by (simp add: arbor_status_from_native_def)

lemma st_native_native_status [simp]: "st_native (native_status n) = word_of_int n"
  by (simp add: native_status_def)

lemma st_native_ok_status [simp]: "st_native ok_status = 0"
  by (simp add: ok_status_def)

lemma ok_code_iff: "st_code (arbor_status_from_native n) = ARBOR_STATUS_OK \<longleftrightarrow> n = 0"
  by (simp add: arbor_status_from_native_def)

lemma fail_not_Inr [simp]: "fail e \<noteq> Inr v" "Inr v \<noteq> fail e"
  by (simp_all add: fail_def)

lemma then_ok_fail [simp]: "then_ok (fail e) f = fail e"
  by (simp add: fail_def)

lemma require_Inr [simp]: "require c e = Inr u \<longleftrightarrow> c"
  by (simp add: require_def)

lemma require_simps [simp]: "require True e = Inr ()" "require False e = fail e"
  by (simp_all add: require_def)

lemma then_require_Inr [simp]: "then_ok (require c e) f = Inr v \<longleftrightarrow> c \<and> f () = Inr v"
  by (simp add: require_def)

lemma not_Fault_fail [simp]: "fail e \<noteq> Inl Fault" "require c e \<noteq> Inl Fault"
  by (simp_all add: fail_def require_def)

lemma then_ok_Fault: "then_ok m f = Inl Fault \<longleftrightarrow> m = Inl Fault \<or> (\<exists>a. m = Inr a \<and> f a = Inl Fault)"
  by (rule then_ok_Inl_iff)

end
