(* ===== verification/Byte_Memory.thy ===== *)
theory Byte_Memory
  imports Native_Status
begin

text \<open>
  Addresses, byte memory and the spans of \<open>src/c/http.c\<close>. An address is a 64-bit word with 0 for NULL, and
  the memory gives the byte at each address. A span is valid when its end is representable; a part of a
  valid span is valid, and storing the bytes of one span leaves every span that does not overlap it as it was.
\<close>

type_synonym addr = u64
type_synonym mem = "addr \<Rightarrow> u8"

abbreviation UINTPTR_MAX :: u64 where "UINTPTR_MAX \<equiv> - 1"

section \<open>The code\<close>

record arbor_span =
  span_data :: addr
  span_length :: u64

definition object_span_valid :: "addr \<Rightarrow> u64 \<Rightarrow> bool" where
  "object_span_valid data len =
     (if len = 0 then True else if data = 0 then False else len \<le> UINTPTR_MAX - data)"

definition spans_overlap :: "addr \<Rightarrow> u64 \<Rightarrow> addr \<Rightarrow> u64 \<Rightarrow> bool" where
  "spans_overlap left left_length right right_length =
     (if left_length = 0 \<or> right_length = 0 then False
      else if \<not> object_span_valid left left_length \<or> \<not> object_span_valid right right_length then True
      else
        let left_end = left + left_length; right_end = right + right_length
        in left < right_end \<and> right < left_end)"

text \<open>The byte of a character literal.\<close>

definition ascii :: "char \<Rightarrow> u8" where
  "ascii c = of_char c"

abbreviation ascii_bytes :: "string \<Rightarrow> u8 list" where
  "ascii_bytes s \<equiv> map ascii s"

section \<open>Memory\<close>

definition bytes_at :: "mem \<Rightarrow> addr \<Rightarrow> u64 \<Rightarrow> u8 list" where
  "bytes_at m data len = map (\<lambda>i. m (data + of_nat i)) [0..<unat len]"

abbreviation span_bytes :: "mem \<Rightarrow> arbor_span \<Rightarrow> u8 list" where
  "span_bytes m s \<equiv> bytes_at m (span_data s) (span_length s)"

definition store_bytes :: "mem \<Rightarrow> addr \<Rightarrow> u8 list \<Rightarrow> mem" where
  "store_bytes m data bytes = (\<lambda>a. if unat (a - data) < length bytes then bytes ! unat (a - data) else m a)"

section \<open>Facts\<close>

lemma length_bytes_at [simp]: "length (bytes_at m data len) = unat len"
  by (simp add: bytes_at_def)

lemma bytes_at_Nil [simp]: "bytes_at m data len = [] \<longleftrightarrow> len = 0"
  by (metis length_0_conv length_bytes_at unat_eq_zero)

lemma bytes_at_0 [simp]: "bytes_at m data 0 = []"
  by simp

lemma bytes_at_nth: "i < unat len \<Longrightarrow> bytes_at m data len ! i = m (data + of_nat i)"
  by (simp add: bytes_at_def)

lemma object_span_valid_iff:
  "object_span_valid data len \<longleftrightarrow> len = 0 \<or> (data \<noteq> 0 \<and> unat data + unat len < 18446744073709551616)"
proof -
  have "unat (UINTPTR_MAX - data) = 18446744073709551615 - unat data"
    using unat_u64_upper [of data]
    by (simp add: unat_sub_if_size word_size unsigned_minus_1_eq_mask mask_eq_exp_minus_1)
  then show ?thesis
    using unat_u64_upper [of data] by (auto simp: object_span_valid_def word_le_nat_alt)
qed

lemma object_span_zero [simp]: "object_span_valid data 0"
  by (simp add: object_span_valid_def)

lemma unat_add_u64: "unat a + unat b < 18446744073709551616 \<Longrightarrow> unat (a + b :: u64) = unat a + unat b"
  by (simp add: unat_word_ariths)

lemma unat_add_nat: "unat a + n < 18446744073709551616 \<Longrightarrow> unat (a + of_nat n :: u64) = unat a + n"
  by (simp add: unat_add_u64 unat_of_nat_u64)

text \<open>Two spans that do not overlap, as intervals of numbers.\<close>

lemma spans_disjoint_iff:
  "\<not> spans_overlap l n r k \<longleftrightarrow> n = 0 \<or> k = 0 \<or>
     (object_span_valid l n \<and> object_span_valid r k \<and> (unat l + unat n \<le> unat r \<or> unat r + unat k \<le> unat l))"
  by (auto simp: spans_overlap_def Let_def object_span_valid_iff word_less_nat_alt unat_add_u64)

lemma spans_overlap_commute: "spans_overlap l n r k \<longleftrightarrow> spans_overlap r k l n"
  using spans_disjoint_iff by blast

lemma object_span_part:
  "object_span_valid data len \<Longrightarrow> i + unat n \<le> unat len \<Longrightarrow> object_span_valid (data + of_nat i) n"
  by (cases "n = 0") (auto simp: object_span_valid_iff unat_add_nat word_unat_eq_iff)

lemma bytes_at_part:
  assumes "i + unat n \<le> unat len"
  shows "bytes_at m (data + of_nat i) n = take (unat n) (drop i (bytes_at m data len))"
  by (rule nth_equalityI) (use assms in \<open>simp_all add: bytes_at_nth add.assoc\<close>)

lemma store_bytes_Nil [simp]: "store_bytes m data [] = m"
  by (simp add: store_bytes_def)

lemma unat_diff_below:
  "unat a < unat b \<Longrightarrow> unat (a - b :: u64) = unat a + 18446744073709551616 - unat b"
  by (simp add: unat_sub_if_size word_size)

lemma store_bytes_other:
  assumes "unat data + length bytes \<le> 18446744073709551616" and "unat a < unat data \<or> unat data + length bytes \<le> unat a"
  shows "store_bytes m data bytes a = m a"
proof -
  have "\<not> unat (a - data) < length bytes"
    using assms unat_diff_below [of a data] unat_u64_upper [of a]
    by (cases "unat a < unat data") (auto simp: unat_sub word_le_nat_alt)
  then show ?thesis by (simp add: store_bytes_def)
qed

lemma store_bytes_same:
  assumes "length bytes = unat len"
  shows "bytes_at (store_bytes m data bytes) data len = bytes"
proof (rule nth_equalityI)
  fix i assume "i < length (bytes_at (store_bytes m data bytes) data len)"
  then have i: "i < unat len" by simp
  then have "unat (of_nat i :: u64) = i" using unat_u64_upper [of len] by (intro unat_of_nat_u64) simp
  then show "bytes_at (store_bytes m data bytes) data len ! i = bytes ! i"
    using i assms by (simp add: bytes_at_nth store_bytes_def)
qed (simp add: assms)

lemma store_bytes_disjoint:
  assumes "\<not> spans_overlap data n other k" and "length bytes \<le> unat n" and "object_span_valid data n"
  shows "bytes_at (store_bytes m data bytes) other k = bytes_at m other k"
proof (rule nth_equalityI)
  fix i assume "i < length (bytes_at (store_bytes m data bytes) other k)"
  then have i: "i < unat k" by simp
  then have k: "k \<noteq> 0" by auto
  show "bytes_at (store_bytes m data bytes) other k ! i = bytes_at m other k ! i"
  proof (cases "bytes = []")
    case False
    then have "n \<noteq> 0" using assms(2) by auto
    then have valid: "unat other + unat k < 18446744073709551616" "unat data + unat n < 18446744073709551616"
      and apart: "unat data + unat n \<le> unat other \<or> unat other + unat k \<le> unat data"
      using assms(1,3) k unfolding spans_disjoint_iff object_span_valid_iff by auto
    then have "unat (other + of_nat i) = unat other + i" using i by (intro unat_add_nat) simp
    then show ?thesis
      using i apart valid assms(2) store_bytes_other [of data bytes "other + of_nat i" m]
      by (auto simp: bytes_at_nth)
  qed simp
qed simp

lemma store_bytes_append:
  assumes "length xs + length ys < 18446744073709551616"
  shows "store_bytes (store_bytes m data xs) (data + of_nat (length xs)) ys = store_bytes m data (xs @ ys)"
proof (rule ext)
  fix a
  define d where "d = unat (a - data)"
  have n: "unat (of_nat (length xs) :: u64) = length xs" using assms by (intro unat_of_nat_u64) simp
  have shift: "a - (data + of_nat (length xs)) = (a - data) - of_nat (length xs)" by simp
  have "unat (a - (data + of_nat (length xs))) =
      (if length xs \<le> d then d - length xs else d + 18446744073709551616 - length xs)"
    unfolding shift by (subst unat_sub_if_size) (simp add: word_size n d_def)
  then show "store_bytes (store_bytes m data xs) (data + of_nat (length xs)) ys a = store_bytes m data (xs @ ys) a"
    using assms by (auto simp: store_bytes_def nth_append d_def)
qed

lemma store_bytes_at:
  "i < length bytes \<Longrightarrow> length bytes < 18446744073709551616 \<Longrightarrow> store_bytes m data bytes (data + of_nat i) = bytes ! i"
  by (simp add: store_bytes_def unat_of_nat_u64)

text \<open>Storing at the end of a buffer extends its contents.\<close>

lemma bytes_at_extend:
  assumes valid: "object_span_valid data cap" and fits: "unat len + length bytes \<le> unat cap"
  shows "unat (len + of_nat (length bytes)) = unat len + length bytes"
    and "bytes_at (store_bytes m (data + len) bytes) data (len + of_nat (length bytes)) = bytes_at m data len @ bytes"
proof -
  show total: "unat (len + of_nat (length bytes)) = unat len + length bytes"
    using fits unat_u64_upper [of cap] by (intro unat_add_nat) simp
  have small: "length bytes < 18446744073709551616" using fits unat_u64_upper [of cap] by simp
  show "bytes_at (store_bytes m (data + len) bytes) data (len + of_nat (length bytes)) = bytes_at m data len @ bytes"
  proof (rule nth_equalityI)
    fix i assume "i < length (bytes_at (store_bytes m (data + len) bytes) data (len + of_nat (length bytes)))"
    then have i: "i < unat len + length bytes" by (simp add: total)
    then have "cap \<noteq> 0" using fits by auto
    then have end_at: "unat data + unat cap < 18446744073709551616" using valid by (simp add: object_span_valid_iff)
    show "bytes_at (store_bytes m (data + len) bytes) data (len + of_nat (length bytes)) ! i = (bytes_at m data len @ bytes) ! i"
    proof (cases "i < unat len")
      case True
      have "unat (data + of_nat i) = unat data + i" "unat (data + len) = unat data + unat len"
        using i fits end_at by (auto intro!: unat_add_nat unat_add_u64)
      then have "store_bytes m (data + len) bytes (data + of_nat i) = m (data + of_nat i)"
        using True fits end_at by (intro store_bytes_other) auto
      then show ?thesis using True i by (simp add: bytes_at_nth total nth_append)
    next
      case False
      then obtain j where j: "i = unat len + j" by (metis le_Suc_ex not_less)
      then have "data + of_nat i = data + len + of_nat j" by (simp add: add.assoc)
      then show ?thesis
        using j i store_bytes_at [of j bytes m "data + len"] small by (simp add: bytes_at_nth total nth_append add.assoc [symmetric])
    qed
  qed (simp add: total)
qed

lemma store_inside_span:
  assumes "object_span_valid data len" and "i + length bytes \<le> unat len" and "\<not> spans_overlap data len other k"
  shows "bytes_at (store_bytes m (data + of_nat i) bytes) other k = bytes_at m other k"
proof (cases "bytes = [] \<or> k = 0")
  case False
  then have "len \<noteq> 0" using assms(2) by auto
  then have num: "data \<noteq> 0" "unat data + unat len < 18446744073709551616" "object_span_valid other k"
    "unat data + unat len \<le> unat other \<or> unat other + unat k \<le> unat data"
    using assms(1,3) False unfolding spans_disjoint_iff object_span_valid_iff by auto
  have n: "unat (of_nat (length bytes) :: u64) = length bytes" using assms(2) num(2) by (intro unat_of_nat_u64) simp
  have start: "unat (data + of_nat i) = unat data + i" using assms(2) num(2) by (intro unat_add_nat) simp
  have valid: "object_span_valid (data + of_nat i) (of_nat (length bytes))"
    using object_span_part [OF assms(1), of i "of_nat (length bytes)"] assms(2) n by simp
  have "\<not> spans_overlap (data + of_nat i) (of_nat (length bytes)) other k"
    unfolding spans_disjoint_iff start n using valid num(3,4) assms(2) by auto
  then show ?thesis using store_bytes_disjoint [of _ _ other k bytes m] n valid by simp
qed (auto simp: bytes_at_def)

end
