(* ===== verification/Capability_Types.thy ===== *)
theory Capability_Types
  imports Byte_Memory
begin

text \<open>
  The records of \<open>include/arborcore/capability.h\<close> that several components share: identities, versions and
  bindings. The loop that stops at the first failure is the shape of every validation in the sources.
\<close>

record arbor_capability_id =
  id_high :: u64
  id_low :: u64

record arbor_capability_version =
  ver_major :: u32
  ver_minor :: u32

record arbor_capability_binding =
  bind_id :: arbor_capability_id
  bind_version :: arbor_capability_version
  bind_interface_size :: u32
  bind_reserved0 :: u32
  bind_flags :: u64
  bind_interface_table :: addr
  bind_provider_context :: addr
  bind_provider_module_index :: u64

text \<open>A loop that stops at the first failure.\<close>

fun each_ok :: "('b \<Rightarrow> 'e + unit) \<Rightarrow> 'b list \<Rightarrow> 'e + unit" where
  "each_ok step [] = Inr ()"
| "each_ok step (x # xs) = then_ok (step x) (\<lambda>_. each_ok step xs)"

lemma each_ok_iff: "each_ok step xs = Inr () \<longleftrightarrow> (\<forall>x \<in> set xs. step x = Inr ())"
  by (induction xs) (auto simp: then_ok_Inr_iff)

lemma each_ok_cong [fundef_cong]:
  "xs = ys \<Longrightarrow> (\<And>x. x \<in> set ys \<Longrightarrow> f x = g x) \<Longrightarrow> each_ok f xs = each_ok g ys"
  by (induction ys arbitrary: xs) (auto simp: then_ok_def split: sum.split)

end
