(* ===== verification/Byte_Ranges.thy ===== *)
theory Byte_Ranges
  imports Byte_Memory
begin

text \<open>
  The bytes an object occupies, as a set of numbers. The components keep objects of different types in stores of
  their own; that two objects do not share memory is stated with the sets of this theory.
\<close>

definition bytes_from :: "addr \<Rightarrow> nat \<Rightarrow> nat set" where
  "bytes_from a n = {unat a..<unat a + n}"

lemma bytes_from_disjoint:
  "bytes_from a n \<inter> bytes_from b k = {} \<longleftrightarrow> n = 0 \<or> k = 0 \<or> unat a + n \<le> unat b \<or> unat b + k \<le> unat a"
proof
  assume disjoint: "bytes_from a n \<inter> bytes_from b k = {}"
  show "n = 0 \<or> k = 0 \<or> unat a + n \<le> unat b \<or> unat b + k \<le> unat a"
  proof (rule ccontr)
    assume "\<not> ?thesis"
    then have "max (unat a) (unat b) \<in> bytes_from a n \<inter> bytes_from b k" by (auto simp: bytes_from_def)
    then show False using disjoint by simp
  qed
qed (auto simp: bytes_from_def)

lemma bytes_from_empty [simp]: "bytes_from a n = {} \<longleftrightarrow> n = 0" "bytes_from a 0 = {}"
  by (auto simp: bytes_from_def)

lemma bytes_from_spans: "\<not> spans_overlap p n q k \<Longrightarrow> bytes_from p (unat n) \<inter> bytes_from q (unat k) = {}"
  unfolding spans_disjoint_iff bytes_from_disjoint by auto

text \<open>A slot of an array lies in the bytes of the array.\<close>

lemma bytes_from_slot:
  assumes "unat p = unat base + i * k" and "i < n"
  shows "bytes_from p k \<subseteq> bytes_from base (n * k)"
proof -
  have "Suc i * k \<le> n * k" using assms(2) by (intro mult_le_mono1) simp
  then show ?thesis using assms(1) by (auto simp: bytes_from_def)
qed

text \<open>The bytes of a list of objects, and that no two of them share one.\<close>

definition region_bytes :: "(addr \<times> nat) list \<Rightarrow> nat set" where
  "region_bytes regions = (\<Union>(p, n)\<in>set regions. bytes_from p n)"

lemma region_bytes_disjoint:
  "A \<inter> region_bytes regions = {} \<longleftrightarrow> (\<forall>q k. (q, k) \<in> set regions \<longrightarrow> A \<inter> bytes_from q k = {})"
  by (auto simp: region_bytes_def)

fun regions_apart :: "(addr \<times> nat) list \<Rightarrow> bool" where
  "regions_apart [] \<longleftrightarrow> True"
| "regions_apart ((p, n) # rest) \<longleftrightarrow> list_all (\<lambda>(q, k). bytes_from p n \<inter> bytes_from q k = {}) rest \<and> regions_apart rest"

text \<open>The bytes of the objects in which two stores of objects of \<open>n\<close> bytes differ, and of the memory they differ in.\<close>

definition changed_slots :: "(addr \<Rightarrow> 'a) \<Rightarrow> (addr \<Rightarrow> 'a) \<Rightarrow> nat \<Rightarrow> nat set" where
  "changed_slots f g n = (\<Union>a\<in>{a. g a \<noteq> f a}. bytes_from a n)"

lemma changed_slots_same [simp]: "changed_slots f f n = {}"
  by (simp add: changed_slots_def)

lemma changed_slots_upd: "changed_slots f (f(a := x)) n \<subseteq> bytes_from a n"
  by (auto simp: changed_slots_def split: if_splits)

lemma changed_slots_subset: "(\<And>a. g a \<noteq> f a \<Longrightarrow> bytes_from a n \<subseteq> S) \<Longrightarrow> changed_slots f g n \<subseteq> S"
  by (auto simp: changed_slots_def)

lemma store_bytes_inside:
  assumes "object_span_valid data len" and "i + length bytes \<le> unat len" and "store_bytes m (data + of_nat i) bytes a \<noteq> m a"
  shows "unat a \<in> bytes_from data (unat len)"
proof (cases "bytes = []")
  case False
  then have "len \<noteq> 0" using assms(2) by auto
  then have inside: "unat data + unat len < 18446744073709551616" using assms(1) by (simp add: object_span_valid_iff)
  then have start: "unat (data + of_nat i) = unat data + i" using assms(2) by (intro unat_add_nat) simp
  have "\<not> (unat a < unat data + i \<or> unat data + i + length bytes \<le> unat a)"
    using store_bytes_other [of "data + of_nat i" bytes a m] assms(2,3) inside start by auto
  then show ?thesis using assms(2) by (auto simp: bytes_from_def)
qed (use assms in simp)

end
