(* ===== verification/Journal.thy ===== *)
theory Journal
  imports Capability_Types Byte_Ranges
begin

text \<open>
  The domain-event journal of \<open>src/c/ddd_support.c\<close>. A pointer is its address, 0 is NULL; the journal
  object, the record array and the payload bytes behind it are the record \<open>journal_state\<close>. Every check of
  pointers, capacities and overlapping regions is the code's, on the addresses. The journal is shown to
  refine a list of events: append adds one at the end, rewind keeps a prefix, clear empties it.
\<close>

record arbor_ddd_event_record =
  rec_type_id :: arbor_capability_id
  rec_abi_version :: u32
  rec_flags :: u32
  rec_payload_offset :: u32
  rec_payload_size :: u32

record arbor_ddd_event_checkpoint =
  cp_record_count :: u32
  cp_byte_count :: u32
  cp_generation :: u64

record arbor_ddd_event_journal =
  jr_records :: addr
  jr_record_capacity :: u32
  jr_record_count :: u32
  jr_payload_bytes :: addr
  jr_byte_capacity :: u32
  jr_byte_count :: u32
  jr_generation :: u64

record arbor_ddd_event_view =
  view_type_id :: arbor_capability_id
  view_abi_version :: u32
  view_flags :: u32
  view_payload :: addr
  view_payload_size :: u32
  view_sequence :: u32

record af4_region =
  region_pointer :: addr
  region_length :: u64

text \<open>The journal object with its address, and the two arrays it points to.\<close>

record journal_state =
  js_at :: addr
  js_journal :: arbor_ddd_event_journal
  js_records :: "arbor_ddd_event_record list"
  js_payload :: "u8 list"

abbreviation SIZEOF_EVENT_RECORD :: nat where "SIZEOF_EVENT_RECORD \<equiv> 32"
abbreviation SIZEOF_CHECKPOINT :: nat where "SIZEOF_CHECKPOINT \<equiv> 16"
abbreviation SIZEOF_JOURNAL :: nat where "SIZEOF_JOURNAL \<equiv> 40"
abbreviation SIZEOF_EVENT_VIEW :: nat where "SIZEOF_EVENT_VIEW \<equiv> 40"
abbreviation ALIGNOF_EVENT_RECORD :: nat where "ALIGNOF_EVENT_RECORD \<equiv> 8"

section \<open>Identities and regions\<close>

definition id_is_zero :: "arbor_capability_id \<Rightarrow> bool" where
  "id_is_zero i \<longleftrightarrow> id_high i = 0 \<and> id_low i = 0"

definition region_make :: "addr \<Rightarrow> u64 \<Rightarrow> out_ptr \<Rightarrow> stop + af4_region" where
  "region_make pointer len out =
     (if out = NULL then fail EINVAL
      else if len \<noteq> 0 \<and> pointer = 0 then fail EINVAL
      else if len \<noteq> 0 \<and> len > UINTPTR_MAX - pointer then fail EOVERFLOW
      else Inr \<lparr>region_pointer = pointer, region_length = len\<rparr>)"

definition regions_overlap :: "af4_region \<Rightarrow> af4_region \<Rightarrow> bool" where
  "regions_overlap left right =
     (if region_length left = 0 \<or> region_length right = 0 then False
      else
        let left_start = region_pointer left;
            right_start = region_pointer right;
            left_end = left_start + region_length left;
            right_end = right_start + region_length right
        in left_start < right_end \<and> right_start < left_end)"

definition provider_context_anchor_region :: "addr \<Rightarrow> out_ptr \<Rightarrow> stop + af4_region" where
  "provider_context_anchor_region provider_context out =
     region_make provider_context (if provider_context = 0 then 0 else 1) out"

definition journal_regions ::
    "addr \<Rightarrow> arbor_ddd_event_journal \<Rightarrow> out_ptr \<Rightarrow> out_ptr \<Rightarrow> out_ptr \<Rightarrow>
     stop + (af4_region \<times> af4_region \<times> af4_region)" where
  "journal_regions journal_at journal journal_out records_out payload_out =
     (if journal_at = 0 \<or> journal_out = NULL \<or> records_out = NULL \<or> payload_out = NULL then fail EINVAL
      else
        then_ok (region_make journal_at (of_nat SIZEOF_JOURNAL) journal_out) (\<lambda>journal_region.
        let record_bytes = ucast (jr_record_capacity journal) * of_nat SIZEOF_EVENT_RECORD in
        then_ok (region_make (jr_records journal) record_bytes records_out) (\<lambda>records_region.
        then_ok (region_make (jr_payload_bytes journal) (ucast (jr_byte_capacity journal)) payload_out)
          (\<lambda>payload_region.
        if regions_overlap journal_region records_region \<or> regions_overlap journal_region payload_region \<or>
           regions_overlap records_region payload_region
        then fail EINVAL
        else Inr (journal_region, records_region, payload_region)))))"

section \<open>Validation\<close>

definition journal_shape_validate :: "addr \<Rightarrow> arbor_ddd_event_journal \<Rightarrow> stop + unit" where
  "journal_shape_validate journal_at journal =
     (if journal_at = 0 \<or> jr_generation journal = 0 \<or>
         jr_record_count journal > jr_record_capacity journal \<or> jr_byte_count journal > jr_byte_capacity journal
      then fail EINVAL
      else if jr_record_capacity journal = 0 \<and> jr_records journal \<noteq> 0 then fail EINVAL
      else if jr_record_capacity journal \<noteq> 0 \<and>
         (jr_records journal = 0 \<or> jr_records journal mod of_nat ALIGNOF_EVENT_RECORD \<noteq> 0) then fail EINVAL
      else if jr_byte_capacity journal = 0 \<and> jr_payload_bytes journal \<noteq> 0 then fail EINVAL
      else if jr_byte_capacity journal \<noteq> 0 \<and> jr_payload_bytes journal = 0 then fail EINVAL
      else then_ok (journal_regions journal_at journal Out Out Out) (\<lambda>_. Inr ()))"

definition record_at :: "journal_state \<Rightarrow> nat \<Rightarrow> stop + arbor_ddd_event_record" where
  "record_at js i = (if i < length (js_records js) then Inr (js_records js ! i) else Inl Fault)"

definition record_rejected :: "arbor_ddd_event_record \<Rightarrow> arbor_ddd_event_journal \<Rightarrow> bool" where
  "record_rejected r journal \<longleftrightarrow>
     rec_payload_offset r > jr_byte_count journal \<or>
     rec_payload_size r > jr_byte_count journal - rec_payload_offset r"

definition journal_record_validate_at :: "journal_state \<Rightarrow> nat \<Rightarrow> u32 \<Rightarrow> out_ptr \<Rightarrow> stop + u32" where
  "journal_record_validate_at js index expected_payload_offset end_offset_out =
     (if js_at js = 0 \<or> end_offset_out = NULL \<or> index \<ge> unat (jr_record_count (js_journal js)) then fail EINVAL
      else
        then_ok (record_at js index) (\<lambda>r.
        if id_is_zero (rec_type_id r) \<or> rec_abi_version r = 0 \<or> rec_flags r \<noteq> 0 \<or>
           rec_payload_offset r \<noteq> expected_payload_offset \<or> record_rejected r (js_journal js)
        then fail EINVAL
        else Inr (rec_payload_offset r + rec_payload_size r)))"

text \<open>The loop over the records, with the offset the next one has to start at.\<close>

primrec journal_records_validate :: "journal_state \<Rightarrow> nat list \<Rightarrow> u32 \<Rightarrow> stop + u32" where
  "journal_records_validate js [] expected = Inr expected"
| "journal_records_validate js (i # is) expected =
     then_ok (journal_record_validate_at js i expected Out) (journal_records_validate js is)"

definition arbor_ddd_event_journal_validate :: "journal_state \<Rightarrow> stop + unit" where
  "arbor_ddd_event_journal_validate js =
     then_ok (journal_shape_validate (js_at js) (js_journal js)) (\<lambda>_.
     then_ok (journal_records_validate js [0..<unat (jr_record_count (js_journal js))] 0) (\<lambda>expected.
     require (expected = jr_byte_count (js_journal js)) EINVAL))"

definition journal_checkpoint_validate ::
    "journal_state \<Rightarrow> addr \<Rightarrow> arbor_ddd_event_checkpoint \<Rightarrow> stop + unit" where
  "journal_checkpoint_validate js checkpoint_at checkpoint =
     (let journal = js_journal js in
      then_ok (arbor_ddd_event_journal_validate js) (\<lambda>_.
      if checkpoint_at = 0 then fail EINVAL
      else if cp_generation checkpoint \<noteq> jr_generation journal then fail ESTALE
      else if cp_record_count checkpoint > jr_record_count journal \<or>
         cp_byte_count checkpoint > jr_byte_count journal then fail EINVAL
      else if cp_record_count checkpoint = 0 then require (cp_byte_count checkpoint = 0) EINVAL
      else
        then_ok (record_at js (unat (cp_record_count checkpoint - 1))) (\<lambda>last.
        if id_is_zero (rec_type_id last) \<or> rec_abi_version last = 0 \<or> rec_flags last \<noteq> 0 \<or>
           record_rejected last journal
        then fail EINVAL
        else require (rec_payload_offset last + rec_payload_size last = cp_byte_count checkpoint) EINVAL)))"

section \<open>Operations\<close>

text \<open>\<open>candidate_at\<close> is the stack address of the local the fields are assembled in.\<close>

definition arbor_ddd_event_journal_init ::
    "addr \<Rightarrow> addr \<Rightarrow> u32 \<Rightarrow> addr \<Rightarrow> u32 \<Rightarrow> addr \<Rightarrow> stop + arbor_ddd_event_journal" where
  "arbor_ddd_event_journal_init candidate_at records record_capacity payload_bytes byte_capacity out =
     (if out = 0 then fail EINVAL
      else
        let candidate = \<lparr>jr_records = records, jr_record_capacity = record_capacity, jr_record_count = 0,
              jr_payload_bytes = payload_bytes, jr_byte_capacity = byte_capacity, jr_byte_count = 0,
              jr_generation = 1\<rparr> in
        then_ok (journal_shape_validate candidate_at candidate) (\<lambda>_.
        then_ok (region_make out (of_nat SIZEOF_JOURNAL) Out) (\<lambda>out_region.
        then_ok (journal_regions candidate_at candidate Out Out Out) (\<lambda>(_, records_region, payload_region).
        if regions_overlap out_region records_region \<or> regions_overlap out_region payload_region
        then fail EINVAL
        else Inr candidate))))"

definition arbor_ddd_event_journal_checkpoint ::
    "journal_state \<Rightarrow> addr \<Rightarrow> stop + arbor_ddd_event_checkpoint" where
  "arbor_ddd_event_journal_checkpoint js out =
     then_ok (arbor_ddd_event_journal_validate js) (\<lambda>_.
     if out = 0 then fail EINVAL
     else
       then_ok (region_make out (of_nat SIZEOF_CHECKPOINT) Out) (\<lambda>out_region.
       then_ok (journal_regions (js_at js) (js_journal js) Out Out Out)
         (\<lambda>(journal_region, records_region, payload_region).
       if regions_overlap out_region journal_region \<or> regions_overlap out_region records_region \<or>
          regions_overlap out_region payload_region
       then fail EINVAL
       else Inr \<lparr>cp_record_count = jr_record_count (js_journal js),
                 cp_byte_count = jr_byte_count (js_journal js),
                 cp_generation = jr_generation (js_journal js)\<rparr>)))"

text \<open>\<open>memory_copy\<close> into the payload array from the bytes behind \<open>payload\<close>.\<close>

definition copy_payload :: "u8 list \<Rightarrow> nat \<Rightarrow> u8 list \<Rightarrow> nat \<Rightarrow> stop + u8 list" where
  "copy_payload destination offset source n =
     (if n = 0 then Inr destination
      else if offset + n \<le> length destination \<and> n \<le> length source
        then Inr (take offset destination @ take n source @ drop (offset + n) destination)
      else Inl Fault)"

definition store_record :: "journal_state \<Rightarrow> nat \<Rightarrow> arbor_ddd_event_record \<Rightarrow> stop + arbor_ddd_event_record list" where
  "store_record js i r =
     (if i < length (js_records js) then Inr ((js_records js)[i := r]) else Inl Fault)"

text \<open>The arguments of an append: the event and where it is read from and reported to.\<close>

record append_call =
  call_type_id :: arbor_capability_id
  call_abi_version :: u32
  call_flags :: u32
  call_payload :: addr
  call_bytes :: "u8 list"
  call_payload_size :: u32
  call_sequence_out :: addr

definition arbor_ddd_event_journal_append :: "append_call \<Rightarrow> journal_state \<Rightarrow> stop + (journal_state \<times> u32)" where
  "arbor_ddd_event_journal_append call js =
     (let journal = js_journal js in
      then_ok (journal_shape_validate (js_at js) journal) (\<lambda>_.
      if id_is_zero (call_type_id call) \<or> call_abi_version call = 0 \<or> call_flags call \<noteq> 0 \<or>
         (call_payload_size call \<noteq> 0 \<and> call_payload call = 0) \<or> call_sequence_out call = 0
      then fail EINVAL
      else if jr_record_count journal = jr_record_capacity journal \<or>
         call_payload_size call > jr_byte_capacity journal - jr_byte_count journal
      then fail ENOSPC
      else
        then_ok (journal_regions (js_at js) journal Out Out Out)
          (\<lambda>(journal_region, records_region, payload_region).
        then_ok (region_make (call_sequence_out call) 4 Out) (\<lambda>sequence_region.
        then_ok (region_make (call_payload call) (ucast (call_payload_size call)) Out) (\<lambda>source_region.
        if regions_overlap sequence_region journal_region \<or> regions_overlap sequence_region records_region \<or>
           regions_overlap sequence_region payload_region \<or> regions_overlap sequence_region source_region \<or>
           regions_overlap source_region journal_region \<or> regions_overlap source_region records_region \<or>
           regions_overlap source_region payload_region
        then fail EINVAL
        else
          let sequence = jr_record_count journal;
              payload_offset = jr_byte_count journal;
              r = \<lparr>rec_type_id = call_type_id call, rec_abi_version = call_abi_version call,
                   rec_flags = call_flags call, rec_payload_offset = payload_offset,
                   rec_payload_size = call_payload_size call\<rparr> in
          then_ok (copy_payload (js_payload js) (unat payload_offset) (call_bytes call)
                    (unat (call_payload_size call))) (\<lambda>payload'.
          then_ok (store_record js (unat sequence) r) (\<lambda>records'.
          Inr (js\<lparr>js_payload := payload', js_records := records',
                  js_journal := journal\<lparr>jr_byte_count := payload_offset + call_payload_size call,
                                        jr_record_count := sequence + 1\<rparr>\<rparr>, sequence))))))))"

definition arbor_ddd_event_journal_rewind ::
    "addr \<Rightarrow> arbor_ddd_event_checkpoint \<Rightarrow> journal_state \<Rightarrow> stop + journal_state" where
  "arbor_ddd_event_journal_rewind checkpoint_at checkpoint js =
     then_ok (journal_checkpoint_validate js checkpoint_at checkpoint) (\<lambda>_.
     then_ok (region_make checkpoint_at (of_nat SIZEOF_CHECKPOINT) Out) (\<lambda>checkpoint_region.
     then_ok (journal_regions (js_at js) (js_journal js) Out Out Out)
       (\<lambda>(journal_region, records_region, payload_region).
     if regions_overlap checkpoint_region journal_region \<or> regions_overlap checkpoint_region records_region \<or>
        regions_overlap checkpoint_region payload_region
     then fail EINVAL
     else Inr (js\<lparr>js_journal := (js_journal js)\<lparr>jr_record_count := cp_record_count checkpoint,
                                               jr_byte_count := cp_byte_count checkpoint\<rparr>\<rparr>))))"

definition arbor_ddd_event_journal_view :: "journal_state \<Rightarrow> u32 \<Rightarrow> addr \<Rightarrow> stop + arbor_ddd_event_view" where
  "arbor_ddd_event_journal_view js sequence out =
     (let journal = js_journal js in
      then_ok (journal_shape_validate (js_at js) journal) (\<lambda>_.
      if out = 0 then fail EINVAL
      else if sequence \<ge> jr_record_count journal then fail ENOENT
      else
        then_ok (record_at js (unat sequence)) (\<lambda>r.
        if id_is_zero (rec_type_id r) \<or> rec_abi_version r = 0 \<or> rec_flags r \<noteq> 0 \<or> record_rejected r journal
        then fail EINVAL
        else
          then_ok (region_make out (of_nat SIZEOF_EVENT_VIEW) Out) (\<lambda>out_region.
          then_ok (journal_regions (js_at js) journal Out Out Out)
            (\<lambda>(journal_region, records_region, payload_region).
          if regions_overlap out_region journal_region \<or> regions_overlap out_region records_region \<or>
             regions_overlap out_region payload_region
          then fail EINVAL
          else Inr \<lparr>view_type_id = rec_type_id r, view_abi_version = rec_abi_version r,
                    view_flags = rec_flags r,
                    view_payload = (if rec_payload_size r = 0 then 0
                                    else jr_payload_bytes journal + ucast (rec_payload_offset r)),
                    view_payload_size = rec_payload_size r, view_sequence = sequence\<rparr>)))))"

definition arbor_ddd_event_journal_clear :: "journal_state \<Rightarrow> stop + journal_state" where
  "arbor_ddd_event_journal_clear js =
     (let journal = js_journal js in
      then_ok (journal_shape_validate (js_at js) journal) (\<lambda>_.
      if unat (jr_generation journal) = UINT64_MAX then fail EOVERFLOW
      else Inr (js\<lparr>js_journal := journal\<lparr>jr_record_count := 0, jr_byte_count := 0,
                                        jr_generation := jr_generation journal + 1\<rparr>\<rparr>)))"

section \<open>The packed prefix\<close>

text \<open>
  The records in use describe adjacent payloads from offset 0 on. \<open>arrays_ok\<close> says the arrays behind the
  journal are as large as the capacities it was given.
\<close>

definition record_fine :: "arbor_ddd_event_record \<Rightarrow> bool" where
  "record_fine r \<longleftrightarrow> \<not> id_is_zero (rec_type_id r) \<and> rec_abi_version r \<noteq> 0 \<and> rec_flags r = 0"

fun packed :: "nat \<Rightarrow> arbor_ddd_event_record list \<Rightarrow> nat \<Rightarrow> bool" where
  "packed from [] end_offset \<longleftrightarrow> from = end_offset"
| "packed from (r # rs) end_offset \<longleftrightarrow>
     record_fine r \<and> unat (rec_payload_offset r) = from \<and> packed (from + unat (rec_payload_size r)) rs end_offset"

definition arrays_ok :: "journal_state \<Rightarrow> bool" where
  "arrays_ok js \<longleftrightarrow> unat (jr_record_capacity (js_journal js)) \<le> length (js_records js) \<and>
     unat (jr_byte_capacity (js_journal js)) \<le> length (js_payload js)"

definition retained :: "journal_state \<Rightarrow> arbor_ddd_event_record list" where
  "retained js = take (unat (jr_record_count (js_journal js))) (js_records js)"

definition journal_ok :: "journal_state \<Rightarrow> bool" where
  "journal_ok js \<longleftrightarrow> arrays_ok js \<and> journal_shape_validate (js_at js) (js_journal js) = Inr () \<and>
     packed 0 (retained js) (unat (jr_byte_count (js_journal js)))"

lemma packed_append: "packed k (xs @ ys) e \<longleftrightarrow> (\<exists>m. packed k xs m \<and> packed m ys e)"
  by (induction xs arbitrary: k) auto

lemma packed_le: "packed k rs e \<Longrightarrow> k \<le> e"
  by (induction rs arbitrary: k) (auto intro: add_leD1)

lemma packed_unique: "packed k rs e \<Longrightarrow> packed k rs e' \<Longrightarrow> e = e'"
  by (induction rs arbitrary: k) auto

lemma packed_take: "packed k rs e \<Longrightarrow> \<exists>m \<le> e. packed k (take n rs) m"
  using packed_append [of k "take n rs" "drop n rs" e] packed_le by auto

lemma packed_record:
  assumes "packed k rs e" and "i < length rs"
  shows "record_fine (rs ! i)" and "packed k (take i rs) (unat (rec_payload_offset (rs ! i)))"
    and "unat (rec_payload_offset (rs ! i)) + unat (rec_payload_size (rs ! i)) \<le> e"
proof -
  have "rs = take i rs @ rs ! i # drop (Suc i) rs" using id_take_nth_drop [OF assms(2)] .
  then obtain m where m: "packed k (take i rs) m" "packed m (rs ! i # drop (Suc i) rs) e"
    using assms(1) packed_append [of k "take i rs" "rs ! i # drop (Suc i) rs" e] by auto
  then show "record_fine (rs ! i)" and "packed k (take i rs) (unat (rec_payload_offset (rs ! i)))"
    by auto
  show "unat (rec_payload_offset (rs ! i)) + unat (rec_payload_size (rs ! i)) \<le> e"
    using m(2) packed_le by auto
qed

lemma unat_u32_diff: "(b :: u32) \<le> a \<Longrightarrow> unat (a - b) = unat a - unat b"
  by (simp add: unat_sub)

lemma unat_u32_add: "unat (a :: u32) + unat b \<le> unat (c :: u32) \<Longrightarrow> unat (a + b) = unat a + unat b"
  using unat_u32_upper [of c] by (simp add: unat_word_ariths)

lemma record_rejected_iff:
  "record_rejected r j \<longleftrightarrow>
     unat (jr_byte_count j) < unat (rec_payload_offset r) + unat (rec_payload_size r)"
  by (cases "rec_payload_offset r \<le> jr_byte_count j")
    (auto simp: record_rejected_def word_less_nat_alt unat_u32_diff word_le_nat_alt)

lemma record_validate_Inr_iff:
  assumes "js_at js \<noteq> 0" and "i < unat (jr_record_count (js_journal js))" and "i < length (js_records js)"
  shows "journal_record_validate_at js i e Out = Inr e' \<longleftrightarrow>
    record_fine (js_records js ! i) \<and> rec_payload_offset (js_records js ! i) = e \<and>
    unat e + unat (rec_payload_size (js_records js ! i)) \<le> unat (jr_byte_count (js_journal js)) \<and>
    e' = e + rec_payload_size (js_records js ! i)"
  using assms by (auto simp: journal_record_validate_at_def record_at_def record_fine_def record_rejected_iff)

lemma records_validate_Inr_iff:
  assumes "js_at js \<noteq> 0" and "\<forall>i\<in>set is. i < unat (jr_record_count (js_journal js)) \<and> i < length (js_records js)"
    and "unat e \<le> unat (jr_byte_count (js_journal js))"
  shows "journal_records_validate js is e = Inr e' \<longleftrightarrow>
    packed (unat e) (map ((!) (js_records js)) is) (unat e') \<and> unat e' \<le> unat (jr_byte_count (js_journal js))"
  using assms(2,3)
proof (induction "is" arbitrary: e)
  case Nil
  then show ?case by (auto simp: word_unat_eq_iff)
next
  case (Cons i rest)
  let ?r = "js_records js ! i" and ?n = "unat (jr_byte_count (js_journal js))"
  have step: "journal_record_validate_at js i e Out = Inr m \<longleftrightarrow>
      record_fine ?r \<and> rec_payload_offset ?r = e \<and> unat e + unat (rec_payload_size ?r) \<le> ?n \<and>
      m = e + rec_payload_size ?r" for m
    using Cons.prems(1) by (intro record_validate_Inr_iff assms(1)) simp_all
  show ?case
  proof (cases "record_fine ?r \<and> rec_payload_offset ?r = e \<and> unat e + unat (rec_payload_size ?r) \<le> ?n")
    case True
    then have sum: "unat (e + rec_payload_size ?r) = unat e + unat (rec_payload_size ?r)"
      using unat_u32_add by blast
    show ?thesis
      using True step [of "e + rec_payload_size ?r"] Cons.IH [of "e + rec_payload_size ?r"] Cons.prems(1) sum by simp
  next
    case False
    then have "\<not> packed (unat e) (map ((!) (js_records js)) (i # rest)) (unat e') \<or> \<not> unat e' \<le> ?n"
      by (auto simp: word_unat_eq_iff dest: packed_le)
    then show ?thesis using False step by (auto simp: then_ok_Inr_iff)
  qed
qed

lemma map_nth_upt: "n \<le> length xs \<Longrightarrow> map ((!) xs) [0..<n] = take n xs"
  by (rule nth_equalityI) simp_all

lemma shape_facts:
  assumes "journal_shape_validate a j = Inr ()"
  shows "a \<noteq> 0" and "jr_generation j \<noteq> 0" and "jr_record_count j \<le> jr_record_capacity j"
    and "jr_byte_count j \<le> jr_byte_capacity j"
    and "\<exists>r1 r2 r3. journal_regions a j Out Out Out = Inr (r1, r2, r3)"
  using assms by (auto simp: journal_shape_validate_def not_less then_ok_Inr_iff split: if_splits)

lemma validate_OK_iff:
  assumes "arrays_ok js"
  shows "arbor_ddd_event_journal_validate js = Inr () \<longleftrightarrow> journal_ok js"
proof (cases "journal_shape_validate (js_at js) (js_journal js) = Inr ()")
  case True
  let ?n = "unat (jr_record_count (js_journal js))"
  note shape = shape_facts [OF True]
  have n: "?n \<le> length (js_records js)"
    using shape(3) assms by (simp add: arrays_ok_def word_le_nat_alt)
  have loop: "journal_records_validate js [0..<?n] 0 = Inr e \<longleftrightarrow>
      packed 0 (retained js) (unat e) \<and> unat e \<le> unat (jr_byte_count (js_journal js))" for e
    using records_validate_Inr_iff [OF shape(1), of "[0..<?n]" 0 e] n by (simp add: map_nth_upt retained_def)
  show ?thesis
    using True assms by (auto simp: arbor_ddd_event_journal_validate_def journal_ok_def then_ok_Inr_iff loop)
next
  case False
  then show ?thesis by (simp add: arbor_ddd_event_journal_validate_def journal_ok_def then_ok_Inr_iff)
qed

lemma journal_ok_arrays: "journal_ok js \<Longrightarrow> arrays_ok js"
  by (simp add: journal_ok_def)

lemma journal_ok_validate: "journal_ok js \<Longrightarrow> arbor_ddd_event_journal_validate js = Inr ()"
  using validate_OK_iff journal_ok_arrays by blast

lemma retained_length:
  assumes "journal_ok js"
  shows "length (retained js) = unat (jr_record_count (js_journal js))"
proof -
  have "unat (jr_record_count (js_journal js)) \<le> length (js_records js)"
    using assms shape_facts(3) [of "js_at js" "js_journal js"]
    by (simp add: journal_ok_def arrays_ok_def word_le_nat_alt)
  then show ?thesis by (simp add: retained_def)
qed

section \<open>The journal as a list of events\<close>

record ddd_event =
  ev_type_id :: arbor_capability_id
  ev_abi_version :: u32
  ev_payload :: "u8 list"

definition event_of :: "u8 list \<Rightarrow> arbor_ddd_event_record \<Rightarrow> ddd_event" where
  "event_of payload r =
     \<lparr>ev_type_id = rec_type_id r, ev_abi_version = rec_abi_version r,
      ev_payload = take (unat (rec_payload_size r)) (drop (unat (rec_payload_offset r)) payload)\<rparr>"

definition journal_events :: "journal_state \<Rightarrow> ddd_event list" where
  "journal_events js = map (event_of (js_payload js)) (retained js)"

definition call_event :: "append_call \<Rightarrow> ddd_event" where
  "call_event call =
     \<lparr>ev_type_id = call_type_id call, ev_abi_version = call_abi_version call,
      ev_payload = take (unat (call_payload_size call)) (call_bytes call)\<rparr>"

lemma journal_regions_counts [simp]:
  "journal_regions a (j\<lparr>jr_byte_count := b, jr_record_count := n\<rparr>) = journal_regions a j"
  "journal_regions a (j\<lparr>jr_record_count := n, jr_byte_count := b, jr_generation := g\<rparr>) = journal_regions a j"
  by (intro ext; simp add: journal_regions_def Let_def)+

lemma shape_counts:
  assumes "journal_shape_validate a j = Inr ()" and "n \<le> jr_record_capacity j" and "b \<le> jr_byte_capacity j"
  shows "journal_shape_validate a (j\<lparr>jr_byte_count := b, jr_record_count := n\<rparr>) = Inr ()"
    and "g \<noteq> 0 \<Longrightarrow> journal_shape_validate a (j\<lparr>jr_record_count := n, jr_byte_count := b, jr_generation := g\<rparr>) = Inr ()"
  using assms by (auto simp: journal_shape_validate_def not_less split: if_splits)

lemma arrays_counts [simp]:
  "arrays_ok (js\<lparr>js_journal := (js_journal js)\<lparr>jr_byte_count := b, jr_record_count := n\<rparr>\<rparr>) = arrays_ok js"
  "arrays_ok (js\<lparr>js_journal := (js_journal js)\<lparr>jr_record_count := n, jr_byte_count := b, jr_generation := g\<rparr>\<rparr>) =
     arrays_ok js"
  by (simp_all add: arrays_ok_def)

lemma update_order:
  "j\<lparr>jr_record_count := n, jr_byte_count := b\<rparr> = j\<lparr>jr_byte_count := b, jr_record_count := n\<rparr>"
  by simp

lemma event_of_prefix:
  assumes "packed k rs e" and "take e payload = take e payload'"
  shows "map (event_of payload) rs = map (event_of payload') rs"
proof (rule map_cong [OF refl])
  fix r assume "r \<in> set rs"
  then obtain i where i: "i < length rs" "r = rs ! i" by (auto simp: in_set_conv_nth)
  let ?o = "unat (rec_payload_offset r)" and ?n = "unat (rec_payload_size r)"
  have le: "?o + ?n \<le> e" using packed_record(3) [OF assms(1) i(1)] i(2) by simp
  have "take ?n (drop ?o p) = take ?n (drop ?o (take e p))" for p :: "u8 list"
    using le by (simp add: drop_take min_def)
  then have "take ?n (drop ?o payload) = take ?n (drop ?o payload')" using assms(2) by metis
  then show "event_of payload r = event_of payload' r" by (simp add: event_of_def)
qed

text \<open>What an append that returns OK did.\<close>

lemma append_facts:
  assumes "arbor_ddd_event_journal_append call js = Inr (js', sequence)"
  defines "journal \<equiv> js_journal js"
  defines "r \<equiv> \<lparr>rec_type_id = call_type_id call, rec_abi_version = call_abi_version call, rec_flags = call_flags call,
    rec_payload_offset = jr_byte_count journal, rec_payload_size = call_payload_size call\<rparr>"
  shows "journal_shape_validate (js_at js) journal = Inr ()"
    and "record_fine r"
    and "jr_record_count journal < jr_record_capacity journal"
    and "unat (jr_byte_count journal) + unat (call_payload_size call) \<le> unat (jr_byte_capacity journal)"
    and "copy_payload (js_payload js) (unat (jr_byte_count journal)) (call_bytes call) (unat (call_payload_size call)) =
      Inr (js_payload js')"
    and "js_records js' = (js_records js)[unat (jr_record_count journal) := r]"
    and "js_journal js' = journal\<lparr>jr_byte_count := jr_byte_count journal + call_payload_size call,
      jr_record_count := jr_record_count journal + 1\<rparr>"
    and "js_at js' = js_at js" and "sequence = jr_record_count journal"
proof -
  note conditions = assms(1) [unfolded arbor_ddd_event_journal_append_def Let_def journal_def [symmetric]]
  show shape: "journal_shape_validate (js_at js) journal = Inr ()"
    using conditions by (auto simp: then_ok_Inr_iff)
  note counts = shape_facts(3,4) [OF shape]
  show "record_fine r"
    using conditions by (auto simp: then_ok_Inr_iff record_fine_def r_def split: if_splits)
  have "jr_record_count journal \<noteq> jr_record_capacity journal"
    using conditions by (auto simp: then_ok_Inr_iff split: if_splits)
  then show "jr_record_count journal < jr_record_capacity journal" using counts(1) by simp
  have "\<not> call_payload_size call > jr_byte_capacity journal - jr_byte_count journal"
    using conditions by (auto simp: then_ok_Inr_iff split: if_splits)
  then show "unat (jr_byte_count journal) + unat (call_payload_size call) \<le> unat (jr_byte_capacity journal)"
    using counts(2) by (simp add: not_less word_le_nat_alt unat_u32_diff)
  show "copy_payload (js_payload js) (unat (jr_byte_count journal)) (call_bytes call) (unat (call_payload_size call)) =
      Inr (js_payload js')"
    and "js_records js' = (js_records js)[unat (jr_record_count journal) := r]"
    and "js_journal js' = journal\<lparr>jr_byte_count := jr_byte_count journal + call_payload_size call,
      jr_record_count := jr_record_count journal + 1\<rparr>"
    and "js_at js' = js_at js" and "sequence = jr_record_count journal"
    using conditions by (auto simp: then_ok_Inr_iff store_record_def r_def split: if_splits)
qed

lemma copy_payload_facts:
  assumes "copy_payload dst off src n = Inr dst'" and "off \<le> length dst"
  shows "length dst' = length dst" and "take off dst' = take off dst" and "take n (drop off dst') = take n src"
  using assms by (auto simp: copy_payload_def min_def split: if_splits)

lemma take_Suc_update: "i < length xs \<Longrightarrow> take (Suc i) (xs[i := x]) = take i xs @ [x]"
  by (simp add: take_Suc_conv_app_nth)

lemma append_appends:
  assumes ok: "journal_ok js" and append: "arbor_ddd_event_journal_append call js = Inr (js', sequence)"
  shows "journal_ok js'" and "journal_events js' = journal_events js @ [call_event call]"
    and "unat sequence = length (journal_events js)"
    and "retained js' = retained js @ [js_records js' ! unat sequence]"
    and "js_at js' = js_at js" and "jr_generation (js_journal js') = jr_generation (js_journal js)"
    and "take (unat (jr_byte_count (js_journal js))) (js_payload js') =
      take (unat (jr_byte_count (js_journal js))) (js_payload js)"
    and "\<exists>b n. js_journal js' = (js_journal js)\<lparr>jr_byte_count := b, jr_record_count := n\<rparr>"
proof -
  let ?j = "js_journal js" and ?n = "unat (jr_record_count (js_journal js))" and ?b = "unat (jr_byte_count (js_journal js))"
  note facts = append_facts [OF append]
  define r where "r = \<lparr>rec_type_id = call_type_id call, rec_abi_version = call_abi_version call,
    rec_flags = call_flags call, rec_payload_offset = jr_byte_count ?j, rec_payload_size = call_payload_size call\<rparr>"
  note facts = facts [folded r_def]
  have arrays: "arrays_ok js" by (rule journal_ok_arrays [OF ok])
  have n: "?n < unat (jr_record_capacity ?j)" using facts(3) by (simp add: word_less_nat_alt)
  then have len: "?n < length (js_records js)" using arrays by (simp add: arrays_ok_def)
  have "?b \<le> length (js_payload js)"
    using facts(4) arrays by (simp add: arrays_ok_def)
  note copy = copy_payload_facts [OF facts(5) this]
  have count: "unat (jr_record_count ?j + 1) = Suc ?n"
    using unat_u32_add [of "jr_record_count ?j" 1 "jr_record_capacity ?j"] n by simp
  have bytes: "unat (jr_byte_count ?j + call_payload_size call) = ?b + unat (call_payload_size call)"
    using facts(4) by (rule unat_u32_add)
  have retained: "retained js' = retained js @ [r]"
    unfolding retained_def facts(6,7) using len by (simp add: count take_Suc_update)
  show "js_at js' = js_at js" and gen: "jr_generation (js_journal js') = jr_generation ?j"
    and "\<exists>b n. js_journal js' = ?j\<lparr>jr_byte_count := b, jr_record_count := n\<rparr>"
    using facts(7,8) by auto
  show prefix: "take ?b (js_payload js') = take ?b (js_payload js)" by (rule copy(2))
  have packed: "packed 0 (retained js) ?b" using ok by (simp add: journal_ok_def)
  have len_retained: "length (retained js) = ?n" by (rule retained_length [OF ok])
  show "unat sequence = length (journal_events js)"
    using facts(9) len_retained by (simp add: journal_events_def)
  show "retained js' = retained js @ [js_records js' ! unat sequence]"
    using retained facts(6,9) len by simp
  have "packed 0 (retained js') (unat (jr_byte_count (js_journal js')))"
    unfolding retained packed_append using packed facts(2,7) bytes by (auto simp: r_def)
  moreover have "arrays_ok js'"
    using arrays facts(6,7) copy(1) by (simp add: arrays_ok_def)
  moreover have "journal_shape_validate (js_at js') (js_journal js') = Inr ()"
    unfolding facts(7,8)
  proof (rule shape_counts(1) [OF facts(1)])
    show "jr_record_count ?j + 1 \<le> jr_record_capacity ?j" using n by (simp add: word_le_nat_alt count)
    show "jr_byte_count ?j + call_payload_size call \<le> jr_byte_capacity ?j"
      using facts(4) by (simp add: word_le_nat_alt bytes)
  qed
  ultimately show "journal_ok js'" by (simp add: journal_ok_def)
  have "event_of (js_payload js') r = call_event call"
    using copy(3) by (simp add: event_of_def call_event_def r_def)
  then show "journal_events js' = journal_events js @ [call_event call]"
    using event_of_prefix [OF packed prefix [symmetric]] by (simp add: journal_events_def retained)
qed

section \<open>Checkpoints\<close>

definition current_checkpoint :: "journal_state \<Rightarrow> arbor_ddd_event_checkpoint" where
  "current_checkpoint js = \<lparr>cp_record_count = jr_record_count (js_journal js),
     cp_byte_count = jr_byte_count (js_journal js), cp_generation = jr_generation (js_journal js)\<rparr>"

text \<open>A checkpoint is usable when it is of this generation and an event boundary of the journal.\<close>

definition valid_checkpoint :: "arbor_ddd_event_checkpoint \<Rightarrow> journal_state \<Rightarrow> bool" where
  "valid_checkpoint cp js \<longleftrightarrow> cp_generation cp = jr_generation (js_journal js) \<and>
     unat (cp_record_count cp) \<le> length (retained js) \<and>
     packed 0 (take (unat (cp_record_count cp)) (retained js)) (unat (cp_byte_count cp))"

text \<open>An object of \<open>n\<close> bytes at an address that overlaps nothing of the journal.\<close>

definition object_apart :: "addr \<Rightarrow> nat \<Rightarrow> journal_state \<Rightarrow> bool" where
  "object_apart at n js \<longleftrightarrow> at \<noteq> 0 \<and>
     (case region_make at (of_nat n) Out of
        Inl _ \<Rightarrow> False
      | Inr r \<Rightarrow>
          (case journal_regions (js_at js) (js_journal js) Out Out Out of
             Inl _ \<Rightarrow> False
           | Inr (journal_region, records_region, payload_region) \<Rightarrow>
               \<not> regions_overlap r journal_region \<and> \<not> regions_overlap r records_region \<and>
               \<not> regions_overlap r payload_region))"

lemma object_apartE:
  assumes "object_apart at n js"
  obtains r a b c where "at \<noteq> 0" and "region_make at (of_nat n) Out = Inr r"
    and "journal_regions (js_at js) (js_journal js) Out Out Out = Inr (a, b, c)"
    and "\<not> regions_overlap r a" and "\<not> regions_overlap r b" and "\<not> regions_overlap r c"
  using assms by (auto simp: object_apart_def split: sum.splits prod.splits)

text \<open>The same in numbers: the object exists, and it shares no byte with the journal, its records and its payload.\<close>

definition journal_bytes :: "journal_state \<Rightarrow> nat set" where
  "journal_bytes js = bytes_from (js_at js) SIZEOF_JOURNAL \<union>
     bytes_from (jr_records (js_journal js)) (unat (jr_record_capacity (js_journal js)) * SIZEOF_EVENT_RECORD) \<union>
     bytes_from (jr_payload_bytes (js_journal js)) (unat (jr_byte_capacity (js_journal js)))"

lemma region_make_iff:
  "region_make pointer len Out = Inr r \<longleftrightarrow>
     r = \<lparr>region_pointer = pointer, region_length = len\<rparr> \<and>
     (len = 0 \<or> (pointer \<noteq> 0 \<and> unat pointer + unat len < 18446744073709551616))"
  unfolding object_span_valid_iff [symmetric] by (auto simp: region_make_def object_span_valid_def not_less)

lemma regions_disjoint_iff:
  assumes "region_make p n Out = Inr r" and "region_make q k Out = Inr t"
  shows "\<not> regions_overlap r t \<longleftrightarrow> bytes_from p (unat n) \<inter> bytes_from q (unat k) = {}"
proof -
  have "regions_overlap r t \<longleftrightarrow> spans_overlap p n q k"
    using assms
    by (auto simp: region_make_iff regions_overlap_def spans_overlap_def object_span_valid_iff Let_def)
  then show ?thesis unfolding bytes_from_disjoint using assms by (auto simp: spans_disjoint_iff region_make_iff object_span_valid_iff unat_eq_zero)
qed

lemma object_apart_iff:
  assumes "journal_ok js" and "0 < n" and "n < 18446744073709551616"
  shows "object_apart at n js \<longleftrightarrow>
    at \<noteq> 0 \<and> unat at + n < 18446744073709551616 \<and> bytes_from at n \<inter> journal_bytes js = {}"
proof -
  let ?j = "js_journal js"
  let ?record_bytes = "ucast (jr_record_capacity ?j) * of_nat SIZEOF_EVENT_RECORD :: u64"
  have "journal_shape_validate (js_at js) ?j = Inr ()" using assms(1) by (simp add: journal_ok_def)
  then obtain a b c where regions: "journal_regions (js_at js) ?j Out Out Out = Inr (a, b, c)"
    using shape_facts(5) by blast
  then have made: "region_make (js_at js) (of_nat SIZEOF_JOURNAL) Out = Inr a" "region_make (jr_records ?j) ?record_bytes Out = Inr b"
    "region_make (jr_payload_bytes ?j) (ucast (jr_byte_capacity ?j)) Out = Inr c"
    by (auto simp: journal_regions_def Let_def then_ok_Inr_iff split: if_splits)
  have "unat (jr_record_capacity ?j) < 4294967296" using unsigned_less [of "jr_record_capacity ?j"] by simp
  then have records: "unat ?record_bytes = unat (jr_record_capacity ?j) * SIZEOF_EVENT_RECORD"
    by (simp add: unat_word_ariths unsigned_ucast_eq take_bit_nat_eq_self)
  have "unat (jr_byte_capacity ?j) < 4294967296" using unsigned_less [of "jr_byte_capacity ?j"] by simp
  then have payload: "unat (ucast (jr_byte_capacity ?j) :: u64) = unat (jr_byte_capacity ?j)" by (simp add: unsigned_ucast_eq take_bit_nat_eq_self)
  have len: "unat (of_nat n :: u64) = n" using assms(3) by (simp add: unat_of_nat_u64)
  show ?thesis
  proof (cases "region_make at (of_nat n) Out")
    case (Inl s)
    then have "\<not> (at \<noteq> 0 \<and> unat at + n < 18446744073709551616)"
      using region_make_iff [of at "of_nat n"] len assms(2) by (metis Inl_Inr_False)
    then show ?thesis using Inl by (auto simp: object_apart_def)
  next
    case (Inr r)
    have "at \<noteq> 0 \<and> unat at + n < 18446744073709551616"
      using region_make_iff [of at "of_nat n" r] Inr len assms(2) by (auto simp: unat_eq_zero [symmetric])
    moreover have "object_apart at n js \<longleftrightarrow> at \<noteq> 0 \<and> bytes_from at n \<inter> journal_bytes js = {}"
      using regions_disjoint_iff [OF Inr made(1)] regions_disjoint_iff [OF Inr made(2), unfolded records]
        regions_disjoint_iff [OF Inr made(3), unfolded payload]
      by (simp add: object_apart_def Inr regions journal_bytes_def Int_Un_distrib len)
    ultimately show ?thesis by blast
  qed
qed

lemma object_apart_counts [simp]:
  "object_apart at k (js\<lparr>js_journal := (js_journal js)\<lparr>jr_byte_count := b, jr_record_count := n\<rparr>\<rparr>) =
     object_apart at k js"
  by (simp add: object_apart_def cong: sum.case_cong)

lemma take_retained:
  assumes "i < length (retained js)"
  shows "take (Suc i) (retained js) = take i (retained js) @ [js_records js ! i]"
  using assms by (simp add: take_Suc_conv_app_nth retained_def)

lemma retained_records: "i < length (retained js) \<Longrightarrow> i < length (js_records js) \<and> retained js ! i = js_records js ! i"
  by (simp add: retained_def)

lemma packed_boundary:
  assumes "packed 0 rs e" and "i < length rs"
  shows "packed 0 (take i rs @ [rs ! i]) b \<longleftrightarrow>
    unat (rec_payload_offset (rs ! i)) + unat (rec_payload_size (rs ! i)) = b"
  using packed_record [OF assms] packed_unique by (auto simp: packed_append)

lemma checkpoint_validate_OK_iff:
  assumes ok: "journal_ok js" and "at \<noteq> 0"
  shows "journal_checkpoint_validate js at cp = Inr () \<longleftrightarrow> valid_checkpoint cp js"
proof -
  let ?j = "js_journal js" and ?n = "unat (cp_record_count cp)"
  have packed: "packed 0 (retained js) (unat (jr_byte_count ?j))" using ok by (simp add: journal_ok_def)
  note length = retained_length [OF ok]
  have bytes: "unat (cp_byte_count cp) \<le> unat (jr_byte_count ?j)"
    if "packed 0 (take ?n (retained js)) (unat (cp_byte_count cp))"
    using packed_take [OF packed, of ?n] packed_unique [OF that] by blast
  show ?thesis
  proof (cases "cp_record_count cp = 0 \<or> ?n > length (retained js)")
    case True
    have "0 = unat (cp_byte_count cp) \<longleftrightarrow> cp_byte_count cp = 0" by (metis unat_eq_zero)
    then show ?thesis
      using True assms(2) length
      by (auto simp: journal_checkpoint_validate_def Let_def journal_ok_validate [OF ok] valid_checkpoint_def
        word_less_nat_alt not_less)
  next
    case False
    define i where "i = unat (cp_record_count cp - 1)"
    have i: "?n = Suc i" "unat (cp_record_count cp - 1) = i" "i < length (retained js)"
      using False unat_minus_one [of "cp_record_count cp"] unat_gt_0 [of "cp_record_count cp"]
      unfolding i_def by auto
    let ?r = "js_records js ! i"
    note recs = retained_records [OF i(3)]
    have nth: "retained js ! i = js_records js ! i" using recs by blast
    note entry = packed_record [OF packed i(3), unfolded nth]
    have sum: "unat (rec_payload_offset ?r + rec_payload_size ?r) =
        unat (rec_payload_offset ?r) + unat (rec_payload_size ?r)"
      using entry(3) by (rule unat_u32_add)
    have fine: "\<not> id_is_zero (rec_type_id ?r)" "rec_abi_version ?r \<noteq> 0" "rec_flags ?r = 0"
      "\<not> record_rejected ?r ?j"
      using entry(1,3) by (simp_all add: record_fine_def record_rejected_iff not_less)
    have boundary: "packed 0 (take ?n (retained js)) b \<longleftrightarrow>
        unat (rec_payload_offset ?r) + unat (rec_payload_size ?r) = b" for b
      using packed_boundary [OF packed i(3)] recs take_retained [OF i(3)] i(1) by simp
    have count: "\<not> jr_record_count ?j < cp_record_count cp" "cp_record_count cp \<noteq> 0"
      using False length by (auto simp: word_less_nat_alt)
    have "?n \<le> length (retained js)" using False by simp
    then show ?thesis
      using assms(2) fine count i(2) recs bytes
      by (auto simp: journal_checkpoint_validate_def Let_def journal_ok_validate [OF ok] valid_checkpoint_def
        record_at_def boundary word_unat_eq_iff [of "rec_payload_offset ?r + rec_payload_size ?r"] sum word_less_nat_alt)
  qed
qed

lemma journal_events_take: "take n (journal_events js) = map (event_of (js_payload js)) (take n (retained js))"
  by (simp add: journal_events_def take_map)

lemma rewound_ok:
  assumes ok: "journal_ok js" and cp: "valid_checkpoint cp js"
  defines "js' \<equiv> js\<lparr>js_journal := (js_journal js)\<lparr>jr_byte_count := cp_byte_count cp,
    jr_record_count := cp_record_count cp\<rparr>\<rparr>"
  shows "journal_ok js'" and "journal_events js' = take (unat (cp_record_count cp)) (journal_events js)"
proof -
  let ?j = "js_journal js" and ?n = "unat (cp_record_count cp)"
  have shape: "journal_shape_validate (js_at js) ?j = Inr ()" using ok by (simp add: journal_ok_def)
  note counts = shape_facts(3,4) [OF shape]
  have n: "?n \<le> unat (jr_record_count ?j)" using cp retained_length [OF ok] by (simp add: valid_checkpoint_def)
  have retained: "retained js' = take ?n (retained js)"
    using n by (simp add: js'_def retained_def min_def)
  have "unat (cp_byte_count cp) \<le> unat (jr_byte_count ?j)"
    using packed_take [of 0 "retained js" "unat (jr_byte_count ?j)" ?n] cp packed_unique ok
    unfolding valid_checkpoint_def journal_ok_def by blast
  then have "journal_shape_validate (js_at js') (js_journal js') = Inr ()"
    using shape_counts(1) [OF shape] n counts by (simp add: js'_def word_le_nat_alt)
  moreover have "arrays_ok js'" using journal_ok_arrays [OF ok] by (simp add: js'_def)
  moreover have "packed 0 (retained js') (unat (jr_byte_count (js_journal js')))"
    unfolding retained using cp by (simp add: valid_checkpoint_def js'_def)
  ultimately show "journal_ok js'" by (simp add: journal_ok_def)
  have "journal_events js' = map (event_of (js_payload js)) (retained js')"
    by (simp add: journal_events_def js'_def)
  then show "journal_events js' = take ?n (journal_events js)"
    by (simp only: retained journal_events_take)
qed

lemma rewind_Inr_iff:
  assumes "journal_ok js" and "at \<noteq> 0"
  shows "arbor_ddd_event_journal_rewind at cp js = Inr js' \<longleftrightarrow>
    valid_checkpoint cp js \<and> object_apart at SIZEOF_CHECKPOINT js \<and>
    js' = js\<lparr>js_journal := (js_journal js)\<lparr>jr_byte_count := cp_byte_count cp, jr_record_count := cp_record_count cp\<rparr>\<rparr>"
  using assms checkpoint_validate_OK_iff [OF assms]
  by (cases "region_make at (of_nat SIZEOF_CHECKPOINT) Out"; cases "journal_regions (js_at js) (js_journal js) Out Out Out")
    (auto simp: arbor_ddd_event_journal_rewind_def then_ok_Inr_iff object_apart_def split: if_splits)

lemma rewind_at_null: "\<exists>e. arbor_ddd_event_journal_rewind 0 cp js = Inl e"
  by (cases "arbor_ddd_event_journal_validate js")
    (simp_all add: arbor_ddd_event_journal_rewind_def journal_checkpoint_validate_def fail_def)

lemma checkpoint_Inr:
  assumes "journal_ok js" and "arbor_ddd_event_journal_checkpoint js out = Inr cp"
  shows "cp = current_checkpoint js"
  using assms by (auto simp: arbor_ddd_event_journal_checkpoint_def current_checkpoint_def then_ok_Inr_iff
    split: if_splits)

lemma checkpoint_total:
  assumes "journal_ok js" and "object_apart out SIZEOF_CHECKPOINT js"
  shows "arbor_ddd_event_journal_checkpoint js out = Inr (current_checkpoint js)"
  using assms(2)
  by (rule object_apartE) (simp add: arbor_ddd_event_journal_checkpoint_def journal_ok_validate [OF assms(1)]
    current_checkpoint_def)

lemma current_checkpoint_valid: "journal_ok js \<Longrightarrow> valid_checkpoint (current_checkpoint js) js"
  using retained_length [of js]
  by (simp add: valid_checkpoint_def current_checkpoint_def journal_ok_def)

lemma append_keeps_checkpoint:
  assumes "journal_ok js" and "arbor_ddd_event_journal_append call js = Inr (js', sequence)" and "valid_checkpoint cp js"
  shows "valid_checkpoint cp js'"
  using assms(3) append_appends(4,6) [OF assms(1,2)] by (simp add: valid_checkpoint_def)

lemma append_keeps_apart:
  assumes "journal_ok js" and "arbor_ddd_event_journal_append call js = Inr (js', sequence)"
  shows "object_apart at k js' = object_apart at k js"
proof -
  obtain b n where "js_journal js' = (js_journal js)\<lparr>jr_byte_count := b, jr_record_count := n\<rparr>"
    using append_appends(8) [OF assms] by blast
  then show ?thesis
    using append_appends(5) [OF assms] by (simp add: object_apart_def cong: sum.case_cong)
qed

section \<open>The log interface\<close>

text \<open>
  What the unit of work relies on: a log of events that only grows by appends, with marks that stay
  valid while it grows and to which it can always be rewound.
\<close>

locale event_log =
  fixes ok :: "'s \<Rightarrow> bool" and events :: "'s \<Rightarrow> 'e list"
    and append_event :: "'a \<Rightarrow> 's \<Rightarrow> 's option" and content :: "'a \<Rightarrow> 'e"
    and mark :: "'s \<Rightarrow> 'm" and marks :: "'m \<Rightarrow> 's \<Rightarrow> bool" and marked :: "'m \<Rightarrow> nat"
    and rewind :: "'m \<Rightarrow> 's \<Rightarrow> 's option"
  assumes append_law: "ok s \<Longrightarrow> append_event a s = Some s' \<Longrightarrow> ok s' \<and> events s' = events s @ [content a]"
    and append_marks: "ok s \<Longrightarrow> append_event a s = Some s' \<Longrightarrow> marks m s \<Longrightarrow> marks m s'"
    and mark_law: "ok s \<Longrightarrow> marks (mark s) s \<and> marked (mark s) = length (events s)"
    and rewind_law: "ok s \<Longrightarrow> marks m s \<Longrightarrow>
      \<exists>s'. rewind m s = Some s' \<and> ok s' \<and> events s' = take (marked m) (events s)"
begin

primrec append_all :: "'a list \<Rightarrow> 's \<Rightarrow> 's option" where
  "append_all [] s = Some s"
| "append_all (a # as) s = Option.bind (append_event a s) (append_all as)"

lemma append_all_law:
  "ok s \<Longrightarrow> append_all as s = Some s' \<Longrightarrow>
   ok s' \<and> events s' = events s @ map content as \<and> (\<forall>m. marks m s \<longrightarrow> marks m s')"
proof (induction as arbitrary: s)
  case (Cons a as)
  then obtain t where t: "append_event a s = Some t" "append_all as t = Some s'"
    by (auto simp: bind_eq_Some_conv)
  show ?case
    using Cons.IH [OF _ t(2)] append_law [OF Cons.prems(1) t(1)] append_marks [OF Cons.prems(1) t(1)] by auto
qed simp

lemma rewind_undoes_appends:
  assumes "ok s" and "append_all as s = Some s'"
  shows "\<exists>t. rewind (mark s) s' = Some t \<and> ok t \<and> events t = events s"
proof -
  note grown = append_all_law [OF assms]
  have "marks (mark s) s'" using grown mark_law [OF assms(1)] by blast
  then obtain t where "rewind (mark s) s' = Some t" "ok t" "events t = take (marked (mark s)) (events s')"
    using rewind_law grown by blast
  then show ?thesis using grown mark_law [OF assms(1)] by auto
qed

end

definition returned :: "stop + 'a \<Rightarrow> 'a option" where
  "returned m = (case m of Inl _ \<Rightarrow> None | Inr v \<Rightarrow> Some v)"

lemma returned_simps [simp]: "returned (Inr v) = Some v" "returned (Inl s) = None"
  by (simp_all add: returned_def)

lemma returned_Some [simp]: "returned m = Some v \<longleftrightarrow> m = Inr v"
  by (cases m) (simp_all add: returned_def)

interpretation journal_log: event_log
  "\<lambda>js. journal_ok js \<and> object_apart checkpoint_at SIZEOF_CHECKPOINT js" journal_events
  "\<lambda>call js. map_option fst (returned (arbor_ddd_event_journal_append call js))" call_event
  current_checkpoint valid_checkpoint "\<lambda>cp. unat (cp_record_count cp)"
  "\<lambda>cp js. returned (arbor_ddd_event_journal_rewind checkpoint_at cp js)" for checkpoint_at
proof
  fix js js' :: journal_state and call :: append_call and cp :: arbor_ddd_event_checkpoint
  assume ok: "journal_ok js \<and> object_apart checkpoint_at SIZEOF_CHECKPOINT js"
  show "valid_checkpoint (current_checkpoint js) js \<and>
      unat (cp_record_count (current_checkpoint js)) = length (journal_events js)"
    using ok current_checkpoint_valid retained_length [of js]
    by (simp add: journal_events_def) (simp add: current_checkpoint_def)
  show "\<exists>js'. returned (arbor_ddd_event_journal_rewind checkpoint_at cp js) = Some js' \<and>
      (journal_ok js' \<and> object_apart checkpoint_at SIZEOF_CHECKPOINT js') \<and>
      journal_events js' = take (unat (cp_record_count cp)) (journal_events js)" if "valid_checkpoint cp js"
    using ok that rewound_ok [OF _ that] by (auto simp: rewind_Inr_iff [of js checkpoint_at] object_apart_def [of checkpoint_at _ js])
  assume "map_option fst (returned (arbor_ddd_event_journal_append call js)) = Some js'"
  then obtain sequence where append: "arbor_ddd_event_journal_append call js = Inr (js', sequence)" by auto
  show "(journal_ok js' \<and> object_apart checkpoint_at SIZEOF_CHECKPOINT js') \<and>
      journal_events js' = journal_events js @ [call_event call]"
    using ok append_appends(1,2) [OF _ append] append_keeps_apart [OF _ append] by blast
  show "valid_checkpoint cp js'" if "valid_checkpoint cp js"
    using append_keeps_checkpoint [OF _ append that] ok by blast
qed

section \<open>Reading and clearing\<close>

lemma view_reads_event:
  assumes ok: "journal_ok js" and "arbor_ddd_event_journal_view js sequence out = Inr v"
  shows "unat sequence < length (journal_events js)"
    and "journal_events js ! unat sequence =
      \<lparr>ev_type_id = view_type_id v, ev_abi_version = view_abi_version v,
       ev_payload = take (unat (view_payload_size v))
         (drop (unat (view_payload v - jr_payload_bytes (js_journal js))) (js_payload js))\<rparr>"
proof -
  let ?j = "js_journal js"
  have n: "unat sequence < length (retained js)"
    using assms(2) retained_length [OF ok]
    by (auto simp: arbor_ddd_event_journal_view_def Let_def then_ok_Inr_iff word_less_nat_alt not_le split: if_splits)
  then show "unat sequence < length (journal_events js)" by (simp add: journal_events_def)
  let ?r = "js_records js ! unat sequence"
  have v: "v = \<lparr>view_type_id = rec_type_id ?r, view_abi_version = rec_abi_version ?r, view_flags = rec_flags ?r,
      view_payload = (if rec_payload_size ?r = 0 then 0 else jr_payload_bytes ?j + ucast (rec_payload_offset ?r)),
      view_payload_size = rec_payload_size ?r, view_sequence = sequence\<rparr>"
    using assms(2) by (auto simp: arbor_ddd_event_journal_view_def Let_def then_ok_Inr_iff record_at_def split: if_splits)
  have offset: "unat (ucast (rec_payload_offset ?r) :: u64) = unat (rec_payload_offset ?r)"
    by (simp add: unsigned_ucast_eq take_bit_nat_eq_self unat_u32_upper less_trans [OF unat_u32_upper])
  show "journal_events js ! unat sequence =
      \<lparr>ev_type_id = view_type_id v, ev_abi_version = view_abi_version v,
       ev_payload = take (unat (view_payload_size v))
         (drop (unat (view_payload v - jr_payload_bytes ?j)) (js_payload js))\<rparr>"
    using n retained_records [OF n] offset by (simp add: journal_events_def event_of_def v)
qed

lemma clear_facts:
  assumes ok: "journal_ok js" and clear: "arbor_ddd_event_journal_clear js = Inr js'"
  shows "journal_ok js'" and "journal_events js' = []"
    and "unat (jr_generation (js_journal js')) = unat (jr_generation (js_journal js)) + 1"
proof -
  let ?j = "js_journal js"
  have shape: "journal_shape_validate (js_at js) ?j = Inr ()" and max: "unat (jr_generation ?j) \<noteq> UINT64_MAX"
    and js': "js' = js\<lparr>js_journal := ?j\<lparr>jr_record_count := 0, jr_byte_count := 0, jr_generation := jr_generation ?j + 1\<rparr>\<rparr>"
    using clear by (auto simp: arbor_ddd_event_journal_clear_def Let_def then_ok_Inr_iff split: if_splits)
  have gen: "unat (jr_generation ?j + 1) = unat (jr_generation ?j) + 1"
    using max unat_u64_upper [of "jr_generation ?j"] by (simp add: unat_word_ariths)
  then show "unat (jr_generation (js_journal js')) = unat (jr_generation ?j) + 1" by (simp add: js')
  have "jr_generation ?j + 1 \<noteq> 0" using gen by (metis add_is_0 one_neq_zero unat_0)
  then show "journal_ok js'"
    using shape_counts(2) [OF shape, of 0 0] journal_ok_arrays [OF ok]
    by (simp add: journal_ok_def js' retained_def)
  show "journal_events js' = []" by (simp add: js' journal_events_def retained_def)
qed

lemma cleared_checkpoint_stale:
  assumes "journal_ok js" and "arbor_ddd_event_journal_clear js = Inr js'" and "valid_checkpoint cp js" and "at \<noteq> 0"
  shows "arbor_ddd_event_journal_rewind at cp js' = fail ESTALE"
proof -
  have "cp_generation cp \<noteq> jr_generation (js_journal js')"
    using assms(3) clear_facts(3) [OF assms(1,2)] by (auto simp: valid_checkpoint_def)
  then show ?thesis
    using journal_ok_validate [OF clear_facts(1) [OF assms(1,2)]] assms(4)
    by (simp add: arbor_ddd_event_journal_rewind_def journal_checkpoint_validate_def Let_def)
qed

lemma journal_regions_move:
  assumes "journal_regions a j Out Out Out = Inr (x, records_region, payload_region)" and "out \<noteq> 0"
    and "region_make out (of_nat SIZEOF_JOURNAL) Out = Inr r"
    and "\<not> regions_overlap r records_region" and "\<not> regions_overlap r payload_region"
  shows "journal_regions out j Out Out Out = Inr (r, records_region, payload_region)"
  using assms by (auto simp: journal_regions_def Let_def then_ok_Inr_iff split: if_splits)

lemma shape_move:
  assumes "journal_shape_validate a j = Inr ()" and "out \<noteq> 0" and "journal_regions out j Out Out Out = Inr x"
  shows "journal_shape_validate out j = Inr ()"
  using assms unfolding journal_shape_validate_def by (auto split: if_split_asm)

lemma init_facts:
  assumes "arbor_ddd_event_journal_init candidate_at records capacity payload bytes out = Inr j"
  shows "j = \<lparr>jr_records = records, jr_record_capacity = capacity, jr_record_count = 0, jr_payload_bytes = payload,
      jr_byte_capacity = bytes, jr_byte_count = 0, jr_generation = 1\<rparr>"
    and "journal_shape_validate out j = Inr ()"
proof -
  let ?j = "\<lparr>jr_records = records, jr_record_capacity = capacity, jr_record_count = 0, jr_payload_bytes = payload,
      jr_byte_capacity = bytes, jr_byte_count = 0, jr_generation = 1\<rparr>"
  note conditions = assms [unfolded arbor_ddd_event_journal_init_def Let_def]
  show j: "j = ?j" using conditions by (auto simp: then_ok_Inr_iff split: if_splits)
  have out: "out \<noteq> 0" and shape: "journal_shape_validate candidate_at ?j = Inr ()"
    using conditions by (auto simp: then_ok_Inr_iff split: if_splits)
  obtain r x a b where "region_make out (of_nat SIZEOF_JOURNAL) Out = Inr r"
    and "journal_regions candidate_at ?j Out Out Out = Inr (x, a, b)"
    and "\<not> regions_overlap r a" and "\<not> regions_overlap r b"
    using conditions by (auto simp: then_ok_Inr_iff split: if_splits)
  then show "journal_shape_validate out j = Inr ()"
    using journal_regions_move shape_move [OF shape out] out unfolding j by blast
qed

lemma init_ok:
  assumes "arbor_ddd_event_journal_init candidate_at records capacity payload bytes out = Inr j"
    and "unat capacity \<le> length rs" and "unat bytes \<le> length ps"
  shows "journal_ok \<lparr>js_at = out, js_journal = j, js_records = rs, js_payload = ps\<rparr>"
    and "journal_events \<lparr>js_at = out, js_journal = j, js_records = rs, js_payload = ps\<rparr> = []"
  using init_facts [OF assms(1)] assms(2,3)
  by (simp_all add: journal_ok_def arrays_ok_def retained_def journal_events_def)

end
