(* ===== verification/Unit_Of_Work.thy ===== *)
theory Unit_Of_Work
  imports Journal
begin

text \<open>
  The transaction interface and the unit of work of \<open>src/c/ddd_support.c\<close>. A published interface table is
  \<open>tables a\<close> for its address \<open>a\<close>; its callbacks are parameters of the model, functions on the world they can
  reach: the provider's own state, the bytes of the transaction state and the journal. The unit of work is
  shown to keep its promise for all callbacks that, as the documentation requires, only append
  to the journal: whatever they return, a transaction that does not commit leaves no event behind.
\<close>

unbundle bit_operations_syntax

section \<open>Data\<close>

record 'p uow_world =
  w_provider :: 'p
  w_state_bytes :: "u8 list"
  w_journal :: journal_state

type_synonym 'p begin_fn = "addr \<Rightarrow> addr \<Rightarrow> u64 \<Rightarrow> 'p uow_world \<Rightarrow> i64 \<times> 'p uow_world"
type_synonym 'p end_fn = "addr \<Rightarrow> addr \<Rightarrow> 'p uow_world \<Rightarrow> i64 \<times> 'p uow_world"

record 'p arbor_ddd_transaction_interface =
  ti_abi_version :: u32
  ti_struct_size :: u32
  ti_flags :: u64
  ti_authority_id :: arbor_capability_id
  ti_state_size :: u64
  ti_state_alignment :: u64
  ti_begin :: "'p begin_fn option"
  ti_commit :: "'p end_fn option"
  ti_rollback :: "'p end_fn option"

record arbor_ddd_transaction_view =
  tv_interface_table :: addr
  tv_provider_context :: addr
  tv_transaction_state :: addr
  tv_transaction_state_size :: u64

record arbor_ddd_unit_of_work =
  uow_transaction_view :: arbor_ddd_transaction_view
  uow_event_journal :: addr
  uow_event_checkpoint :: arbor_ddd_event_checkpoint
  uow_state :: u32
  uow_flags :: u32

abbreviation ARBOR_DDD_UNIT_OF_WORK_ZERO :: u32 where "ARBOR_DDD_UNIT_OF_WORK_ZERO \<equiv> 0"
abbreviation ARBOR_DDD_UNIT_OF_WORK_ACTIVE :: u32 where "ARBOR_DDD_UNIT_OF_WORK_ACTIVE \<equiv> 1"
abbreviation ARBOR_DDD_UNIT_OF_WORK_COMMITTED :: u32 where "ARBOR_DDD_UNIT_OF_WORK_COMMITTED \<equiv> 2"
abbreviation ARBOR_DDD_UNIT_OF_WORK_ROLLED_BACK :: u32 where "ARBOR_DDD_UNIT_OF_WORK_ROLLED_BACK \<equiv> 3"
abbreviation ARBOR_DDD_UNIT_OF_WORK_FAULTED :: u32 where "ARBOR_DDD_UNIT_OF_WORK_FAULTED \<equiv> 4"

abbreviation SIZEOF_TRANSACTION_INTERFACE :: u32 where "SIZEOF_TRANSACTION_INTERFACE \<equiv> 72"
abbreviation ALIGNOF_TRANSACTION_INTERFACE :: addr where "ALIGNOF_TRANSACTION_INTERFACE \<equiv> 8"
abbreviation SIZEOF_BINDING :: u64 where "SIZEOF_BINDING \<equiv> 64"
abbreviation SIZEOF_VIEW :: u64 where "SIZEOF_VIEW \<equiv> 32"
abbreviation SIZEOF_UNIT_OF_WORK :: u64 where "SIZEOF_UNIT_OF_WORK \<equiv> 64"
abbreviation OFFSETOF_CHECKPOINT :: addr where "OFFSETOF_CHECKPOINT \<equiv> 40"
abbreviation ARBOR_DDD_TRANSACTION_MAX_STATE_ALIGNMENT :: u64 where
  "ARBOR_DDD_TRANSACTION_MAX_STATE_ALIGNMENT \<equiv> 4096"

definition zero_unit_of_work :: arbor_ddd_unit_of_work where
  "zero_unit_of_work =
     \<lparr>uow_transaction_view = \<lparr>tv_interface_table = 0, tv_provider_context = 0, tv_transaction_state = 0,
        tv_transaction_state_size = 0\<rparr>,
      uow_event_journal = 0,
      uow_event_checkpoint = \<lparr>cp_record_count = 0, cp_byte_count = 0, cp_generation = 0\<rparr>,
      uow_state = ARBOR_DDD_UNIT_OF_WORK_ZERO, uow_flags = 0\<rparr>"

section \<open>Validation\<close>

definition power_of_two_u64 :: "u64 \<Rightarrow> bool" where
  "power_of_two_u64 v \<longleftrightarrow> v \<noteq> 0 \<and> v AND (v - 1) = 0"

definition transaction_interface_shape_validate ::
    "(addr \<Rightarrow> 'p arbor_ddd_transaction_interface) \<Rightarrow> addr \<Rightarrow> stop + unit" where
  "transaction_interface_shape_validate tables table_at =
     (let table = tables table_at in
      if table_at = 0 \<or> table_at mod ALIGNOF_TRANSACTION_INTERFACE \<noteq> 0 then fail EINVAL
      else if ti_abi_version table \<noteq> 1 then fail EPROTONOSUPPORT
      else if ti_struct_size table < SIZEOF_TRANSACTION_INTERFACE \<or> ti_flags table \<noteq> 0 \<or>
         id_is_zero (ti_authority_id table) \<or> \<not> power_of_two_u64 (ti_state_alignment table) \<or>
         ti_state_alignment table > ARBOR_DDD_TRANSACTION_MAX_STATE_ALIGNMENT \<or>
         ti_begin table = None \<or> ti_commit table = None \<or> ti_rollback table = None
      then fail EINVAL
      else Inr ())"

definition transaction_state_validate ::
    "(addr \<Rightarrow> 'p arbor_ddd_transaction_interface) \<Rightarrow> addr \<Rightarrow> addr \<Rightarrow> u64 \<Rightarrow> stop + unit" where
  "transaction_state_validate tables table_at transaction_state transaction_state_size =
     (let table = tables table_at in
      if transaction_state_size \<noteq> ti_state_size table then fail EINVAL
      else if transaction_state_size = 0 then require (transaction_state = 0) EINVAL
      else if transaction_state = 0 \<or> transaction_state mod ti_state_alignment table \<noteq> 0 then fail EINVAL
      else
        then_ok (region_make transaction_state transaction_state_size Out) (\<lambda>state_region.
        then_ok (region_make table_at (ucast (ti_struct_size table)) Out) (\<lambda>interface_region.
        require (\<not> regions_overlap state_region interface_region) EINVAL)))"

definition callback_status :: "i64 \<Rightarrow> arbor_status" where
  "callback_status native =
     (if sint native > 0 then native_status (- EINVAL) else arbor_status_from_native native)"

definition arbor_ddd_transaction_interface_validate ::
    "(addr \<Rightarrow> 'p arbor_ddd_transaction_interface) \<Rightarrow> addr \<Rightarrow> arbor_capability_binding \<Rightarrow> stop + unit" where
  "arbor_ddd_transaction_interface_validate tables binding_at binding =
     (if binding_at = 0 \<or> id_is_zero (bind_id binding) \<or> ver_major (bind_version binding) = 0 \<or>
         bind_reserved0 binding \<noteq> 0 \<or> bind_flags binding \<noteq> 0 \<or> bind_interface_table binding = 0 \<or>
         bind_interface_size binding < SIZEOF_TRANSACTION_INTERFACE
      then fail EINVAL
      else
        let table_at = bind_interface_table binding in
        then_ok (transaction_interface_shape_validate tables table_at) (\<lambda>_.
        if ti_struct_size (tables table_at) \<noteq> bind_interface_size binding then fail EINVAL
        else
          then_ok (region_make binding_at SIZEOF_BINDING Out) (\<lambda>binding_region.
          then_ok (region_make table_at (ucast (ti_struct_size (tables table_at))) Out) (\<lambda>interface_region.
          then_ok (provider_context_anchor_region (bind_provider_context binding) Out) (\<lambda>provider_anchor.
          require (\<not> (regions_overlap provider_anchor binding_region \<or>
                     regions_overlap provider_anchor interface_region)) EINVAL)))))"

definition arbor_ddd_transaction_view_validate ::
    "(addr \<Rightarrow> 'p arbor_ddd_transaction_interface) \<Rightarrow> addr \<Rightarrow> arbor_ddd_transaction_view \<Rightarrow> stop + unit" where
  "arbor_ddd_transaction_view_validate tables view_at view =
     (if view_at = 0 then fail EINVAL
      else
        let table_at = tv_interface_table view in
        then_ok (transaction_interface_shape_validate tables table_at) (\<lambda>_.
        then_ok (transaction_state_validate tables table_at (tv_transaction_state view)
                  (tv_transaction_state_size view)) (\<lambda>_.
        then_ok (region_make view_at SIZEOF_VIEW Out) (\<lambda>view_region.
        then_ok (region_make table_at (ucast (ti_struct_size (tables table_at))) Out) (\<lambda>interface_region.
        then_ok (region_make (tv_transaction_state view) (tv_transaction_state_size view) Out) (\<lambda>state_region.
        then_ok (provider_context_anchor_region (tv_provider_context view) Out) (\<lambda>provider_anchor.
        require (\<not> (regions_overlap provider_anchor view_region \<or>
                   regions_overlap provider_anchor interface_region \<or>
                   regions_overlap provider_anchor state_region \<or>
                   regions_overlap view_region interface_region \<or>
                   regions_overlap view_region state_region)) EINVAL)))))))"

definition unit_of_work_is_zero :: "addr \<Rightarrow> arbor_ddd_unit_of_work \<Rightarrow> bool" where
  "unit_of_work_is_zero at u \<longleftrightarrow> at \<noteq> 0 \<and>
     tv_interface_table (uow_transaction_view u) = 0 \<and> tv_provider_context (uow_transaction_view u) = 0 \<and>
     tv_transaction_state (uow_transaction_view u) = 0 \<and> tv_transaction_state_size (uow_transaction_view u) = 0 \<and>
     uow_event_journal u = 0 \<and> cp_record_count (uow_event_checkpoint u) = 0 \<and>
     cp_byte_count (uow_event_checkpoint u) = 0 \<and> cp_generation (uow_event_checkpoint u) = 0 \<and>
     uow_state u = ARBOR_DDD_UNIT_OF_WORK_ZERO \<and> uow_flags u = 0"

text \<open>The journal behind a pointer; an address the world holds no journal at is a fault.\<close>

definition journal_object :: "'p uow_world \<Rightarrow> addr \<Rightarrow> stop + journal_state" where
  "journal_object w p = (if p = js_at (w_journal w) then Inr (w_journal w) else Inl Fault)"

definition unit_of_work_common_validate ::
    "(addr \<Rightarrow> 'p arbor_ddd_transaction_interface) \<Rightarrow> addr \<Rightarrow> arbor_ddd_unit_of_work \<Rightarrow> 'p uow_world \<Rightarrow>
     stop + journal_state" where
  "unit_of_work_common_validate tables at u w =
     (if at = 0 \<or> uow_flags u \<noteq> 0 \<or> uow_state u < ARBOR_DDD_UNIT_OF_WORK_ACTIVE \<or>
         uow_state u > ARBOR_DDD_UNIT_OF_WORK_FAULTED \<or> uow_event_journal u = 0
      then fail EINVAL
      else
        then_ok (arbor_ddd_transaction_view_validate tables at (uow_transaction_view u)) (\<lambda>_.
        then_ok (journal_object w (uow_event_journal u)) (\<lambda>js.
        then_ok (journal_shape_validate (js_at js) (js_journal js)) (\<lambda>_. Inr js))))"

definition unit_of_work_active_validate ::
    "(addr \<Rightarrow> 'p arbor_ddd_transaction_interface) \<Rightarrow> addr \<Rightarrow> arbor_ddd_unit_of_work \<Rightarrow> 'p uow_world \<Rightarrow>
     stop + journal_state" where
  "unit_of_work_active_validate tables at u w =
     then_ok (unit_of_work_common_validate tables at u w) (\<lambda>js.
     if uow_state u \<noteq> ARBOR_DDD_UNIT_OF_WORK_ACTIVE then fail EALREADY
     else then_ok (journal_checkpoint_validate js (at + OFFSETOF_CHECKPOINT) (uow_event_checkpoint u)) (\<lambda>_. Inr js))"

section \<open>Lifecycle\<close>

text \<open>Everything \<open>begin\<close> checks before it touches the transaction state.\<close>

definition unit_of_work_begin_checks ::
    "(addr \<Rightarrow> 'p arbor_ddd_transaction_interface) \<Rightarrow> addr \<Rightarrow> arbor_capability_binding \<Rightarrow> addr \<Rightarrow> u64 \<Rightarrow> addr \<Rightarrow>
     addr \<Rightarrow> arbor_ddd_unit_of_work \<Rightarrow> 'p uow_world \<Rightarrow> stop + arbor_ddd_event_checkpoint" where
  "unit_of_work_begin_checks tables binding_at binding transaction_state transaction_state_size event_journal
      out_at out w =
     (if out_at = 0 \<or> \<not> unit_of_work_is_zero out_at out then fail EINVAL
      else
        let table_at = bind_interface_table binding in
        then_ok (arbor_ddd_transaction_interface_validate tables binding_at binding) (\<lambda>_.
        then_ok (transaction_state_validate tables table_at transaction_state transaction_state_size) (\<lambda>_.
        then_ok (if event_journal = 0 then fail EINVAL else journal_object w event_journal) (\<lambda>js.
        then_ok (arbor_ddd_event_journal_validate js) (\<lambda>_.
        let checkpoint = \<lparr>cp_record_count = jr_record_count (js_journal js),
              cp_byte_count = jr_byte_count (js_journal js), cp_generation = jr_generation (js_journal js)\<rparr> in
        then_ok (region_make out_at SIZEOF_UNIT_OF_WORK Out) (\<lambda>out_region.
        then_ok (region_make binding_at SIZEOF_BINDING Out) (\<lambda>binding_region.
        then_ok (region_make table_at (ucast (ti_struct_size (tables table_at))) Out) (\<lambda>interface_region.
        then_ok (region_make transaction_state transaction_state_size Out) (\<lambda>state_region.
        then_ok (journal_regions (js_at js) (js_journal js) Out Out Out)
          (\<lambda>(journal_region, records_region, payload_region).
        then_ok (provider_context_anchor_region (bind_provider_context binding) Out) (\<lambda>provider_anchor.
        if regions_overlap provider_anchor out_region \<or> regions_overlap provider_anchor binding_region \<or>
           regions_overlap provider_anchor interface_region \<or> regions_overlap provider_anchor state_region \<or>
           regions_overlap provider_anchor journal_region \<or> regions_overlap provider_anchor records_region \<or>
           regions_overlap provider_anchor payload_region \<or>
           regions_overlap out_region binding_region \<or> regions_overlap out_region interface_region \<or>
           regions_overlap out_region state_region \<or> regions_overlap out_region journal_region \<or>
           regions_overlap out_region records_region \<or> regions_overlap out_region payload_region \<or>
           regions_overlap state_region binding_region \<or> regions_overlap state_region interface_region \<or>
           regions_overlap state_region journal_region \<or> regions_overlap state_region records_region \<or>
           regions_overlap state_region payload_region \<or>
           regions_overlap journal_region binding_region \<or> regions_overlap journal_region interface_region \<or>
           regions_overlap records_region binding_region \<or> regions_overlap records_region interface_region \<or>
           regions_overlap payload_region binding_region \<or> regions_overlap payload_region interface_region
        then fail EINVAL
        else Inr checkpoint)))))))))))"

definition arbor_ddd_unit_of_work_begin ::
    "(addr \<Rightarrow> 'p arbor_ddd_transaction_interface) \<Rightarrow> addr \<Rightarrow> arbor_capability_binding \<Rightarrow> addr \<Rightarrow> u64 \<Rightarrow> addr \<Rightarrow>
     addr \<Rightarrow> arbor_ddd_unit_of_work \<Rightarrow> 'p uow_world \<Rightarrow> (stop + arbor_ddd_unit_of_work) \<times> 'p uow_world" where
  "arbor_ddd_unit_of_work_begin tables binding_at binding transaction_state transaction_state_size event_journal
      out_at out w =
     (case unit_of_work_begin_checks tables binding_at binding transaction_state transaction_state_size
             event_journal out_at out w of
        Inl s \<Rightarrow> (Inl s, w)
      | Inr checkpoint \<Rightarrow>
          let w = (if transaction_state_size \<noteq> 0
                   then w\<lparr>w_state_bytes := replicate (unat transaction_state_size) 0\<rparr> else w)
          in case ti_begin (tables (bind_interface_table binding)) of
               None \<Rightarrow> (Inl Fault, w)
             | Some begin_callback \<Rightarrow>
                 let (begin_native, w) =
                       begin_callback (bind_provider_context binding) transaction_state transaction_state_size w;
                     status = callback_status begin_native
                 in if st_native status \<noteq> 0 then (Inl (Return status), w)
                    else (Inr \<lparr>uow_transaction_view =
                                 \<lparr>tv_interface_table = bind_interface_table binding,
                                  tv_provider_context = bind_provider_context binding,
                                  tv_transaction_state = transaction_state,
                                  tv_transaction_state_size = transaction_state_size\<rparr>,
                               uow_event_journal = event_journal, uow_event_checkpoint = checkpoint,
                               uow_state = ARBOR_DDD_UNIT_OF_WORK_ACTIVE, uow_flags = 0\<rparr>, w))"

text \<open>The rewind both failure paths make: its status and the world after it.\<close>

definition unit_of_work_rewind ::
    "addr \<Rightarrow> arbor_ddd_unit_of_work \<Rightarrow> 'p uow_world \<Rightarrow> stop \<times> 'p uow_world" where
  "unit_of_work_rewind at u w =
     (case then_ok (journal_object w (uow_event_journal u))
             (arbor_ddd_event_journal_rewind (at + OFFSETOF_CHECKPOINT) (uow_event_checkpoint u)) of
        Inl s \<Rightarrow> (s, w)
      | Inr js \<Rightarrow> (Return ok_status, w\<lparr>w_journal := js\<rparr>))"

definition arbor_ddd_unit_of_work_commit ::
    "(addr \<Rightarrow> 'p arbor_ddd_transaction_interface) \<Rightarrow> addr \<Rightarrow> arbor_ddd_unit_of_work \<Rightarrow> 'p uow_world \<Rightarrow>
     stop \<times> arbor_ddd_unit_of_work \<times> 'p uow_world" where
  "arbor_ddd_unit_of_work_commit tables at u w =
     (case unit_of_work_active_validate tables at u w of
        Inl s \<Rightarrow> (s, u, w)
      | Inr _ \<Rightarrow>
          let view = uow_transaction_view u in
          (case ti_commit (tables (tv_interface_table view)) of
             None \<Rightarrow> (Fault, u, w)
           | Some commit_callback \<Rightarrow>
               let (commit_native, w) = commit_callback (tv_provider_context view) (tv_transaction_state view) w;
                   commit_status = callback_status commit_native
               in if st_native commit_status = 0
                  then (Return commit_status, u\<lparr>uow_state := ARBOR_DDD_UNIT_OF_WORK_COMMITTED\<rparr>, w)
                  else
                    let (rewind_stop, w) = unit_of_work_rewind at u w
                    in (if rewind_stop = Fault then Fault else Return commit_status,
                        u\<lparr>uow_state := ARBOR_DDD_UNIT_OF_WORK_FAULTED\<rparr>, w)))"

definition arbor_ddd_unit_of_work_rollback ::
    "(addr \<Rightarrow> 'p arbor_ddd_transaction_interface) \<Rightarrow> addr \<Rightarrow> arbor_ddd_unit_of_work \<Rightarrow> 'p uow_world \<Rightarrow>
     stop \<times> arbor_ddd_unit_of_work \<times> 'p uow_world" where
  "arbor_ddd_unit_of_work_rollback tables at u w =
     (case unit_of_work_active_validate tables at u w of
        Inl s \<Rightarrow> (s, u, w)
      | Inr _ \<Rightarrow>
          let view = uow_transaction_view u in
          (case ti_rollback (tables (tv_interface_table view)) of
             None \<Rightarrow> (Fault, u, w)
           | Some rollback_callback \<Rightarrow>
               let (rollback_native, w) = rollback_callback (tv_provider_context view) (tv_transaction_state view) w;
                   rollback_status = callback_status rollback_native;
                   (rewind_stop, w) = unit_of_work_rewind at u w
               in case rewind_stop of
                    Fault \<Rightarrow> (Fault, u, w)
                  | Return rewind_status \<Rightarrow>
                      if st_native rollback_status = 0 \<and> st_native rewind_status = 0
                      then (Return rollback_status, u\<lparr>uow_state := ARBOR_DDD_UNIT_OF_WORK_ROLLED_BACK\<rparr>, w)
                      else (Return (if st_native rollback_status \<noteq> 0 then rollback_status else rewind_status),
                            u\<lparr>uow_state := ARBOR_DDD_UNIT_OF_WORK_FAULTED\<rparr>, w)))"

definition arbor_ddd_unit_of_work_active_transaction ::
    "(addr \<Rightarrow> 'p arbor_ddd_transaction_interface) \<Rightarrow> addr \<Rightarrow> arbor_ddd_unit_of_work \<Rightarrow> addr \<Rightarrow> 'p uow_world \<Rightarrow>
     stop + arbor_ddd_transaction_view" where
  "arbor_ddd_unit_of_work_active_transaction tables at u out w =
     then_ok (unit_of_work_active_validate tables at u w) (\<lambda>js.
     if out = 0 then fail EINVAL
     else
       let view = uow_transaction_view u; table_at = tv_interface_table view in
       then_ok (region_make out SIZEOF_VIEW Out) (\<lambda>out_region.
       then_ok (region_make at SIZEOF_UNIT_OF_WORK Out) (\<lambda>unit_region.
       then_ok (region_make table_at (ucast (ti_struct_size (tables table_at))) Out) (\<lambda>interface_region.
       then_ok (region_make (tv_transaction_state view) (tv_transaction_state_size view) Out) (\<lambda>state_region.
       then_ok (journal_regions (js_at js) (js_journal js) Out Out Out)
         (\<lambda>(journal_region, records_region, payload_region).
       then_ok (provider_context_anchor_region (tv_provider_context view) Out) (\<lambda>provider_anchor.
       if regions_overlap out_region provider_anchor \<or> regions_overlap out_region unit_region \<or>
          regions_overlap out_region interface_region \<or> regions_overlap out_region state_region \<or>
          regions_overlap out_region journal_region \<or> regions_overlap out_region records_region \<or>
          regions_overlap out_region payload_region
       then fail EINVAL
       else Inr view)))))))"

definition arbor_ddd_unit_of_work_reset :: "addr \<Rightarrow> arbor_ddd_unit_of_work \<Rightarrow> stop + arbor_ddd_unit_of_work" where
  "arbor_ddd_unit_of_work_reset at u =
     (if at = 0 \<or> uow_flags u \<noteq> 0 then fail EINVAL
      else if uow_state u = ARBOR_DDD_UNIT_OF_WORK_ACTIVE then fail EBUSY
      else if uow_state u \<noteq> ARBOR_DDD_UNIT_OF_WORK_COMMITTED \<and>
         uow_state u \<noteq> ARBOR_DDD_UNIT_OF_WORK_ROLLED_BACK \<and> uow_state u \<noteq> ARBOR_DDD_UNIT_OF_WORK_FAULTED
      then fail EINVAL
      else Inr zero_unit_of_work)"

section \<open>Regions as intervals\<close>

definition region_good :: "af4_region \<Rightarrow> bool" where
  "region_good r \<longleftrightarrow> (region_length r \<noteq> 0 \<longrightarrow> unat (region_pointer r) + unat (region_length r) \<le> UINT64_MAX)"

lemma unat_UINTPTR_diff: "unat (UINTPTR_MAX - p) = UINT64_MAX - unat p"
proof -
  have "unat UINTPTR_MAX = UINT64_MAX" by (simp add: unat_eq_nat_uint uint_word_ariths)
  then show ?thesis using unat_sub [of p UINTPTR_MAX] by simp
qed

lemma region_make_Inr:
  assumes "region_make p n Out = Inr r"
  shows "r = \<lparr>region_pointer = p, region_length = n\<rparr>" and "region_good r" and "n \<noteq> 0 \<Longrightarrow> p \<noteq> 0"
proof -
  show r: "r = \<lparr>region_pointer = p, region_length = n\<rparr>" and "n \<noteq> 0 \<Longrightarrow> p \<noteq> 0"
    using assms by (auto simp: region_make_def split: if_splits)
  have "n \<noteq> 0 \<Longrightarrow> \<not> n > UINTPTR_MAX - p" using assms by (auto simp: region_make_def split: if_splits)
  then show "region_good r"
    using unat_u64_upper [of p] by (auto simp: region_good_def r word_less_nat_alt unat_UINTPTR_diff)
qed

lemma regions_overlap_iff:
  assumes "region_good a" and "region_good b"
  shows "regions_overlap a b \<longleftrightarrow> region_length a \<noteq> 0 \<and> region_length b \<noteq> 0 \<and>
    unat (region_pointer a) < unat (region_pointer b) + unat (region_length b) \<and>
    unat (region_pointer b) < unat (region_pointer a) + unat (region_length a)"
proof -
  have "unat (region_pointer r + region_length r) = unat (region_pointer r) + unat (region_length r)"
    if "region_good r" "region_length r \<noteq> 0" for r
    using that by (simp add: region_good_def unat_word_ariths)
  then show ?thesis
    using assms by (auto simp: regions_overlap_def Let_def word_less_nat_alt)
qed

lemma overlap_within:
  assumes "region_good a" and "region_good b" and "region_good c" and "\<not> regions_overlap a b"
    and "region_length a \<noteq> 0"
    and "unat (region_pointer a) \<le> unat (region_pointer c)"
    and "unat (region_pointer c) + unat (region_length c) \<le> unat (region_pointer a) + unat (region_length a)"
  shows "\<not> regions_overlap c b"
  using assms(4-7) by (auto simp: regions_overlap_iff [OF assms(1,2)] regions_overlap_iff [OF assms(3,2)])

lemma overlap_commute: "regions_overlap a b \<longleftrightarrow> regions_overlap b a"
  by (auto simp: regions_overlap_def Let_def)

lemma journal_regions_good:
  assumes "journal_regions a j Out Out Out = Inr (r1, r2, r3)"
  shows "region_good r1" and "region_good r2" and "region_good r3"
  using assms region_make_Inr(2) by (auto simp: journal_regions_def Let_def then_ok_Inr_iff split: if_splits)

section \<open>Growing journals\<close>

text \<open>\<open>grown js js'\<close>: the second journal is the first after some successful appends.\<close>

definition grown :: "journal_state \<Rightarrow> journal_state \<Rightarrow> bool" where
  "grown js js' \<longleftrightarrow> (\<exists>calls. journal_log.append_all calls js = Some js')"

text \<open>
  What the documentation requires of a provider: while a unit of work is active the journal
  changes by appends only.
\<close>

definition callbacks_append_only :: "(addr \<Rightarrow> 'p arbor_ddd_transaction_interface) \<Rightarrow> bool" where
  "callbacks_append_only tables \<longleftrightarrow> (\<forall>a.
     (\<forall>f c s n w. ti_begin (tables a) = Some f \<longrightarrow> grown (w_journal w) (w_journal (snd (f c s n w)))) \<and>
     (\<forall>f c s w. ti_commit (tables a) = Some f \<longrightarrow> grown (w_journal w) (w_journal (snd (f c s w)))) \<and>
     (\<forall>f c s w. ti_rollback (tables a) = Some f \<longrightarrow> grown (w_journal w) (w_journal (snd (f c s w)))))"

lemma grown_refl: "grown js js"
  unfolding grown_def by (intro exI [of _ "[]"]) simp

lemma append_grown:
  assumes "arbor_ddd_event_journal_append call js = Inr (js', sequence)"
  shows "grown js js'"
  unfolding grown_def using assms by (intro exI [of _ "[call]"]) simp

lemma grown_at:
  assumes "journal_ok js" and "grown js js'"
  shows "js_at js' = js_at js"
proof -
  have "journal_log.append_all calls js = Some js' \<Longrightarrow> js_at js' = js_at js" if "journal_ok js" for calls js
    using that
  proof (induction calls arbitrary: js)
    case (Cons call calls)
    then obtain t n where t: "arbor_ddd_event_journal_append call js = Inr (t, n)"
      "journal_log.append_all calls t = Some js'"
      by (auto simp: bind_eq_Some_conv)
    then show ?case
      using Cons.IH [OF t(2) append_appends(1) [OF Cons.prems(2) t(1)]] append_appends(5) [OF Cons.prems(2) t(1)] by simp
  qed simp
  then show ?thesis using assms unfolding grown_def by blast
qed

text \<open>An open unit of work: active, valid, and its checkpoint marks the events of \<open>base\<close>.\<close>

definition uow_open ::
    "(addr \<Rightarrow> 'p arbor_ddd_transaction_interface) \<Rightarrow> addr \<Rightarrow> arbor_ddd_unit_of_work \<Rightarrow> 'p uow_world \<Rightarrow>
     ddd_event list \<Rightarrow> bool" where
  "uow_open tables at u w base \<longleftrightarrow>
     uow_state u = ARBOR_DDD_UNIT_OF_WORK_ACTIVE \<and> uow_flags u = 0 \<and> at \<noteq> 0 \<and>
     arbor_ddd_transaction_view_validate tables at (uow_transaction_view u) = Inr () \<and>
     uow_event_journal u \<noteq> 0 \<and> uow_event_journal u = js_at (w_journal w) \<and>
     journal_ok (w_journal w) \<and> object_apart (at + OFFSETOF_CHECKPOINT) SIZEOF_CHECKPOINT (w_journal w) \<and>
     valid_checkpoint (uow_event_checkpoint u) (w_journal w) \<and>
     take (unat (cp_record_count (uow_event_checkpoint u))) (journal_events (w_journal w)) = base"

lemma open_validates:
  assumes "uow_open tables at u w base"
  shows "unit_of_work_active_validate tables at u w = Inr (w_journal w)"
proof -
  have "at + OFFSETOF_CHECKPOINT \<noteq> 0" using assms by (auto simp: uow_open_def object_apart_def)
  then have "journal_checkpoint_validate (w_journal w) (at + OFFSETOF_CHECKPOINT) (uow_event_checkpoint u) = Inr ()"
    using assms checkpoint_validate_OK_iff [of "w_journal w"] by (simp add: uow_open_def)
  then show ?thesis
    using assms
    by (auto simp: unit_of_work_active_validate_def unit_of_work_common_validate_def uow_open_def journal_object_def
      journal_ok_def)
qed

lemma grown_log:
  assumes "journal_ok js" and "object_apart at SIZEOF_CHECKPOINT js" and "grown js js'"
  shows "journal_ok js'" and "object_apart at SIZEOF_CHECKPOINT js'"
    and "valid_checkpoint cp js \<Longrightarrow> valid_checkpoint cp js'"
    and "\<exists>es. journal_events js' = journal_events js @ es"
proof -
  obtain calls where "journal_log.append_all calls js = Some js'" using assms(3) unfolding grown_def by blast
  note log = journal_log.append_all_law [OF conjI [OF assms(1,2)] this]
  then show "journal_ok js'" and "object_apart at SIZEOF_CHECKPOINT js'"
    and "valid_checkpoint cp js \<Longrightarrow> valid_checkpoint cp js'"
    and "\<exists>es. journal_events js' = journal_events js @ es" by blast+
qed

lemma checkpoint_events_length:
  "journal_ok js \<Longrightarrow> valid_checkpoint cp js \<Longrightarrow> unat (cp_record_count cp) \<le> length (journal_events js)"
  by (simp add: valid_checkpoint_def journal_events_def)

lemma grown_open:
  assumes "uow_open tables at u w base" and "grown (w_journal w) (w_journal w')"
  shows "uow_open tables at u w' base"
proof -
  have ok: "journal_ok (w_journal w)" and apart: "object_apart (at + OFFSETOF_CHECKPOINT) SIZEOF_CHECKPOINT (w_journal w)"
    and cp: "valid_checkpoint (uow_event_checkpoint u) (w_journal w)"
    using assms(1) by (simp_all add: uow_open_def)
  note log = grown_log [OF ok apart assms(2)]
  obtain es where "journal_events (w_journal w') = journal_events (w_journal w) @ es" using log(4) by blast
  then show ?thesis
    using assms(1) log(1,2) log(3) [OF cp] grown_at [OF ok assms(2)] checkpoint_events_length [OF ok cp]
    by (auto simp: uow_open_def)
qed

lemma rewind_restores:
  assumes "uow_open tables at u w base"
  obtains js where "unit_of_work_rewind at u w = (Return ok_status, w\<lparr>w_journal := js\<rparr>)"
    and "journal_ok js" and "journal_events js = base" and "js_at js = js_at (w_journal w)"
proof -
  let ?js = "w_journal w" and ?cp = "uow_event_checkpoint u"
  define js where "js = ?js\<lparr>js_journal := (js_journal ?js)\<lparr>jr_byte_count := cp_byte_count ?cp,
    jr_record_count := cp_record_count ?cp\<rparr>\<rparr>"
  have ok: "journal_ok ?js" and cp: "valid_checkpoint ?cp ?js" using assms by (simp_all add: uow_open_def)
  have "arbor_ddd_event_journal_rewind (at + OFFSETOF_CHECKPOINT) ?cp ?js = Inr js"
    using assms rewind_Inr_iff [OF ok, of "at + OFFSETOF_CHECKPOINT" ?cp js]
    by (auto simp: uow_open_def js_def object_apart_def)
  then have "unit_of_work_rewind at u w = (Return ok_status, w\<lparr>w_journal := js\<rparr>)"
    using assms by (simp add: unit_of_work_rewind_def journal_object_def uow_open_def)
  moreover have "journal_ok js" "journal_events js = base" "js_at js = js_at ?js"
    using rewound_ok [OF ok cp] assms by (simp_all add: js_def uow_open_def)
  ultimately show ?thesis using that by blast
qed

section \<open>Opening\<close>

text \<open>What the checks of \<open>begin\<close> establish.\<close>

lemma begin_checks_facts:
  assumes "unit_of_work_begin_checks tables b binding st n jp out_at out w = Inr cp"
  defines "table_at \<equiv> bind_interface_table binding"
  obtains out_region interface_region state_region anchor jr rr pr where
    "out_at \<noteq> 0" and "jp \<noteq> 0" and "jp = js_at (w_journal w)"
    and "arbor_ddd_event_journal_validate (w_journal w) = Inr ()" and "cp = current_checkpoint (w_journal w)"
    and "transaction_interface_shape_validate tables table_at = Inr ()"
    and "transaction_state_validate tables table_at st n = Inr ()"
    and "region_make out_at SIZEOF_UNIT_OF_WORK Out = Inr out_region"
    and "region_make table_at (ucast (ti_struct_size (tables table_at))) Out = Inr interface_region"
    and "region_make st n Out = Inr state_region"
    and "provider_context_anchor_region (bind_provider_context binding) Out = Inr anchor"
    and "journal_regions (js_at (w_journal w)) (js_journal (w_journal w)) Out Out Out = Inr (jr, rr, pr)"
    and "\<not> regions_overlap anchor out_region" and "\<not> regions_overlap anchor interface_region"
    and "\<not> regions_overlap anchor state_region"
    and "\<not> regions_overlap out_region interface_region" and "\<not> regions_overlap out_region state_region"
    and "\<not> regions_overlap out_region jr" and "\<not> regions_overlap out_region rr"
    and "\<not> regions_overlap out_region pr"
proof -
  have "transaction_interface_shape_validate tables table_at = Inr ()"
    using assms(1)
    by (auto simp: unit_of_work_begin_checks_def Let_def then_ok_Inr_iff arbor_ddd_transaction_interface_validate_def
      table_at_def split: if_splits)
  then show ?thesis
    using assms(1) that unfolding unit_of_work_begin_checks_def Let_def table_at_def
    by (simp add: then_ok_Inr_iff journal_object_def current_checkpoint_def split: if_splits prod.splits) blast
qed

lemma sub_region:
  assumes out: "region_make at SIZEOF_UNIT_OF_WORK Out = Inr r" and "k + n \<le> 64" and "0 < n"
  obtains c where "region_make (at + of_nat k) (of_nat n) Out = Inr c" and "at + of_nat k \<noteq> 0"
    and "\<And>b. region_good b \<Longrightarrow> \<not> regions_overlap r b \<Longrightarrow> \<not> regions_overlap c b"
proof -
  note r = region_make_Inr [OF out]
  have le: "unat at + 64 \<le> UINT64_MAX" using r(1,2) by (simp add: region_good_def)
  have at: "at \<noteq> 0" using r(3) by simp
  have kn: "unat (of_nat k :: u64) = k" "unat (of_nat n :: u64) = n"
    using assms(2) by (simp_all add: unat_of_nat_u64)
  have start: "unat (at + of_nat k) = unat at + k"
    using le assms(2) by (simp add: unat_word_ariths kn)
  then have nonzero: "at + of_nat k \<noteq> 0" using at by (metis add_is_0 unat_0 unat_eq_zero)
  have "of_nat n \<noteq> (0 :: u64)" using kn(2) assms(3) by (metis less_irrefl unat_0)
  have "\<not> of_nat n > UINTPTR_MAX - (at + of_nat k)"
    using le assms(2) by (simp add: word_less_nat_alt unat_UINTPTR_diff start kn)
  then obtain c where c: "region_make (at + of_nat k) (of_nat n) Out = Inr c"
    using nonzero by (auto simp: region_make_def)
  note c' = region_make_Inr [OF c]
  show ?thesis
  proof (rule that [OF c nonzero])
    fix b assume "region_good b" "\<not> regions_overlap r b"
    then show "\<not> regions_overlap c b"
      using overlap_within [OF r(2) _ c'(2)] r(1) c'(1) start kn assms(2) by simp
  qed
qed

lemma checks_view_valid:
  assumes "unit_of_work_begin_checks tables b binding st n jp out_at out w = Inr cp"
  shows "arbor_ddd_transaction_view_validate tables out_at
    \<lparr>tv_interface_table = bind_interface_table binding, tv_provider_context = bind_provider_context binding,
     tv_transaction_state = st, tv_transaction_state_size = n\<rparr> = Inr ()"
proof (rule begin_checks_facts [OF assms])
  let ?t = "bind_interface_table binding"
  fix out_region interface_region state_region anchor jr rr pr
  assume facts: "out_at \<noteq> 0" "transaction_interface_shape_validate tables ?t = Inr ()"
    "transaction_state_validate tables ?t st n = Inr ()"
    "region_make out_at SIZEOF_UNIT_OF_WORK Out = Inr out_region"
    "region_make ?t (ucast (ti_struct_size (tables ?t))) Out = Inr interface_region"
    "region_make st n Out = Inr state_region"
    "provider_context_anchor_region (bind_provider_context binding) Out = Inr anchor"
    and apart: "\<not> regions_overlap anchor out_region" "\<not> regions_overlap anchor interface_region"
    "\<not> regions_overlap anchor state_region" "\<not> regions_overlap out_region interface_region"
    "\<not> regions_overlap out_region state_region"
  obtain c where c: "region_make (out_at + of_nat 0) (of_nat 32) Out = Inr c"
    and within: "\<And>b. region_good b \<Longrightarrow> \<not> regions_overlap out_region b \<Longrightarrow> \<not> regions_overlap c b"
    by (rule sub_region [OF facts(4), of 0 32]) simp_all
  have "region_good interface_region" "region_good state_region" "region_good anchor"
    using region_make_Inr(2) facts(5-7) by (auto simp: provider_context_anchor_region_def)
  then have "\<not> regions_overlap c interface_region" "\<not> regions_overlap c state_region" "\<not> regions_overlap anchor c"
    using within apart overlap_commute by blast+
  then show ?thesis
    using facts apart c by (simp add: arbor_ddd_transaction_view_validate_def Let_def)
qed

lemma checks_apart:
  assumes "unit_of_work_begin_checks tables b binding st n jp out_at out w = Inr cp"
  shows "object_apart (out_at + OFFSETOF_CHECKPOINT) SIZEOF_CHECKPOINT (w_journal w)"
proof (rule begin_checks_facts [OF assms])
  fix out_region jr rr pr
  assume out: "region_make out_at SIZEOF_UNIT_OF_WORK Out = Inr out_region"
    and regions: "journal_regions (js_at (w_journal w)) (js_journal (w_journal w)) Out Out Out = Inr (jr, rr, pr)"
    and apart: "\<not> regions_overlap out_region jr" "\<not> regions_overlap out_region rr" "\<not> regions_overlap out_region pr"
  obtain c where "region_make (out_at + of_nat 40) (of_nat 16) Out = Inr c" "out_at + of_nat 40 \<noteq> 0"
    and "\<And>b. region_good b \<Longrightarrow> \<not> regions_overlap out_region b \<Longrightarrow> \<not> regions_overlap c b"
    by (rule sub_region [OF out, of 40 16]) simp_all
  then show ?thesis
    using regions apart journal_regions_good [OF regions] by (simp add: object_apart_def)
qed

lemma begin_opens:
  assumes opened: "arbor_ddd_unit_of_work_begin tables b binding st n jp out_at out w = (Inr u, w')"
    and arrays: "arrays_ok (w_journal w)" and append_only: "callbacks_append_only tables"
  shows "uow_open tables out_at u w' (journal_events (w_journal w))"
proof -
  obtain cp where checks: "unit_of_work_begin_checks tables b binding st n jp out_at out w = Inr cp"
    using opened by (auto simp: arbor_ddd_unit_of_work_begin_def split: sum.splits)
  define w0 where "w0 = (if n \<noteq> 0 then w\<lparr>w_state_bytes := replicate (unat n) 0\<rparr> else w)"
  obtain f native where f: "ti_begin (tables (bind_interface_table binding)) = Some f"
    and call: "f (bind_provider_context binding) st n w0 = (native, w')"
    and u: "u = \<lparr>uow_transaction_view = \<lparr>tv_interface_table = bind_interface_table binding,
        tv_provider_context = bind_provider_context binding, tv_transaction_state = st, tv_transaction_state_size = n\<rparr>,
      uow_event_journal = jp, uow_event_checkpoint = cp, uow_state = ARBOR_DDD_UNIT_OF_WORK_ACTIVE, uow_flags = 0\<rparr>"
    using opened checks
    by (auto simp: arbor_ddd_unit_of_work_begin_def w0_def [symmetric] Let_def split: option.splits prod.splits if_splits)
  have w0: "w_journal w0 = w_journal w" by (simp add: w0_def)
  have grown: "grown (w_journal w) (w_journal w')"
    using append_only f call w0 unfolding callbacks_append_only_def by (metis snd_conv)
  have facts: "out_at \<noteq> 0" "jp \<noteq> 0" "jp = js_at (w_journal w)" "journal_ok (w_journal w)"
    "cp = current_checkpoint (w_journal w)"
    using begin_checks_facts [OF checks] validate_OK_iff [OF arrays] by metis+
  have "uow_open tables out_at u w (journal_events (w_journal w))"
    using facts current_checkpoint_valid [OF facts(4)] checks_view_valid [OF checks] checks_apart [OF checks]
      retained_length [OF facts(4)]
    by (simp add: uow_open_def u) (simp add: current_checkpoint_def journal_events_def)
  then show ?thesis using grown by (rule grown_open)
qed

section \<open>Closing\<close>

lemma callback_status_zero_iff: "st_native (callback_status n) = 0 \<longleftrightarrow> n = 0"
  by (auto simp: callback_status_def)

lemma not_active_unchanged:
  assumes "uow_state u \<noteq> ARBOR_DDD_UNIT_OF_WORK_ACTIVE"
  shows "\<exists>s. unit_of_work_active_validate tables at u w = Inl s"
    and "\<exists>s. arbor_ddd_unit_of_work_commit tables at u w = (s, u, w)"
    and "\<exists>s. arbor_ddd_unit_of_work_rollback tables at u w = (s, u, w)"
proof -
  show "\<exists>s. unit_of_work_active_validate tables at u w = Inl s"
    using assms by (cases "unit_of_work_common_validate tables at u w")
      (auto simp: unit_of_work_active_validate_def fail_def)
  then show "\<exists>s. arbor_ddd_unit_of_work_commit tables at u w = (s, u, w)"
    and "\<exists>s. arbor_ddd_unit_of_work_rollback tables at u w = (s, u, w)"
    by (auto simp: arbor_ddd_unit_of_work_commit_def arbor_ddd_unit_of_work_rollback_def)
qed

lemma open_callbacks:
  assumes "uow_open tables at u w base"
  obtains c r where "ti_commit (tables (tv_interface_table (uow_transaction_view u))) = Some c"
    and "ti_rollback (tables (tv_interface_table (uow_transaction_view u))) = Some r"
  using assms
  by (auto simp: uow_open_def arbor_ddd_transaction_view_validate_def Let_def then_ok_Inr_iff
    transaction_interface_shape_validate_def split: if_splits)

lemma commit_outcome:
  assumes opened: "uow_open tables at u w base" and append_only: "callbacks_append_only tables"
    and f: "ti_commit (tables (tv_interface_table (uow_transaction_view u))) = Some f"
    and call: "f (tv_provider_context (uow_transaction_view u)) (tv_transaction_state (uow_transaction_view u)) w = (n, w1)"
  shows "n = 0 \<Longrightarrow> arbor_ddd_unit_of_work_commit tables at u w =
      (Return ok_status, u\<lparr>uow_state := ARBOR_DDD_UNIT_OF_WORK_COMMITTED\<rparr>, w1)"
    and "n \<noteq> 0 \<Longrightarrow> \<exists>js. arbor_ddd_unit_of_work_commit tables at u w =
      (Return (callback_status n), u\<lparr>uow_state := ARBOR_DDD_UNIT_OF_WORK_FAULTED\<rparr>, w1\<lparr>w_journal := js\<rparr>) \<and>
      journal_ok js \<and> journal_events js = base"
    and "uow_open tables at u w1 base"
proof -
  have "grown (w_journal w) (w_journal w1)"
    using append_only f call unfolding callbacks_append_only_def by (metis snd_conv)
  then show opened1: "uow_open tables at u w1 base" by (rule grown_open [OF opened])
  obtain js where rewind: "unit_of_work_rewind at u w1 = (Return ok_status, w1\<lparr>w_journal := js\<rparr>)"
    and js: "journal_ok js" "journal_events js = base"
    by (rule rewind_restores [OF opened1])
  show "n = 0 \<Longrightarrow> arbor_ddd_unit_of_work_commit tables at u w =
      (Return ok_status, u\<lparr>uow_state := ARBOR_DDD_UNIT_OF_WORK_COMMITTED\<rparr>, w1)"
    using f call by (simp add: arbor_ddd_unit_of_work_commit_def open_validates [OF opened] callback_status_def
      ok_status_def native_status_def)
  show "n \<noteq> 0 \<Longrightarrow> \<exists>js. arbor_ddd_unit_of_work_commit tables at u w =
      (Return (callback_status n), u\<lparr>uow_state := ARBOR_DDD_UNIT_OF_WORK_FAULTED\<rparr>, w1\<lparr>w_journal := js\<rparr>) \<and>
      journal_ok js \<and> journal_events js = base"
    using f call rewind js
    by (intro exI [of _ js]) (simp add: arbor_ddd_unit_of_work_commit_def open_validates [OF opened]
      callback_status_zero_iff)
qed

lemma rollback_outcome:
  assumes opened: "uow_open tables at u w base" and append_only: "callbacks_append_only tables"
    and f: "ti_rollback (tables (tv_interface_table (uow_transaction_view u))) = Some f"
    and call: "f (tv_provider_context (uow_transaction_view u)) (tv_transaction_state (uow_transaction_view u)) w = (n, w1)"
  shows "\<exists>js. arbor_ddd_unit_of_work_rollback tables at u w =
      (Return (callback_status n),
       u\<lparr>uow_state := if n = 0 then ARBOR_DDD_UNIT_OF_WORK_ROLLED_BACK else ARBOR_DDD_UNIT_OF_WORK_FAULTED\<rparr>,
       w1\<lparr>w_journal := js\<rparr>) \<and>
      journal_ok js \<and> journal_events js = base"
proof -
  have "grown (w_journal w) (w_journal w1)"
    using append_only f call unfolding callbacks_append_only_def by (metis snd_conv)
  then have "uow_open tables at u w1 base" by (rule grown_open [OF opened])
  then obtain js where "unit_of_work_rewind at u w1 = (Return ok_status, w1\<lparr>w_journal := js\<rparr>)"
    and "journal_ok js" "journal_events js = base"
    by (rule rewind_restores)
  then show ?thesis
    using f call by (intro exI [of _ js]) (simp add: arbor_ddd_unit_of_work_rollback_def open_validates [OF opened]
      callback_status_zero_iff)
qed

section \<open>The life of a unit of work\<close>

text \<open>
  One unit-of-work object, the world and, as ghosts, the events the journal held when the object was
  opened and those that were appended after the transaction ended. Appends are taken in every state of the object;
  while it is zero anybody may also change the journal in other ways.
\<close>

record 'p uow_system =
  sys_unit :: arbor_ddd_unit_of_work
  sys_world :: "'p uow_world"
  sys_base :: "ddd_event list"
  sys_late :: "ddd_event list"

inductive uow_step ::
    "(addr \<Rightarrow> 'p arbor_ddd_transaction_interface) \<Rightarrow> addr \<Rightarrow> 'p uow_system \<Rightarrow> 'p uow_system \<Rightarrow> bool"
  for tables at where
  begin_ok: "arbor_ddd_unit_of_work_begin tables b binding st n jp at u w = (Inr u', w') \<Longrightarrow>
    uow_step tables at \<lparr>sys_unit = u, sys_world = w, sys_base = base, sys_late = late\<rparr>
      \<lparr>sys_unit = u', sys_world = w', sys_base = journal_events (w_journal w), sys_late = []\<rparr>"
| begin_failed: "arbor_ddd_unit_of_work_begin tables b binding st n jp at u w = (Inl s, w') \<Longrightarrow>
    uow_step tables at \<lparr>sys_unit = u, sys_world = w, sys_base = base, sys_late = late\<rparr>
      \<lparr>sys_unit = u, sys_world = w', sys_base = base, sys_late = late\<rparr>"
| append_ok: "arbor_ddd_event_journal_append call (w_journal w) = Inr (js, sequence) \<Longrightarrow>
    uow_step tables at \<lparr>sys_unit = u, sys_world = w, sys_base = base, sys_late = late\<rparr>
      \<lparr>sys_unit = u, sys_world = w\<lparr>w_journal := js\<rparr>, sys_base = base,
        sys_late = (if uow_state u = ARBOR_DDD_UNIT_OF_WORK_ACTIVE then late else late @ [call_event call])\<rparr>"
| commit: "arbor_ddd_unit_of_work_commit tables at u w = (s, u', w') \<Longrightarrow>
    uow_step tables at \<lparr>sys_unit = u, sys_world = w, sys_base = base, sys_late = late\<rparr>
      \<lparr>sys_unit = u', sys_world = w', sys_base = base, sys_late = late\<rparr>"
| rollback: "arbor_ddd_unit_of_work_rollback tables at u w = (s, u', w') \<Longrightarrow>
    uow_step tables at \<lparr>sys_unit = u, sys_world = w, sys_base = base, sys_late = late\<rparr>
      \<lparr>sys_unit = u', sys_world = w', sys_base = base, sys_late = late\<rparr>"
| reset: "arbor_ddd_unit_of_work_reset at u = Inr u' \<Longrightarrow>
    uow_step tables at \<lparr>sys_unit = u, sys_world = w, sys_base = base, sys_late = late\<rparr>
      \<lparr>sys_unit = u', sys_world = w, sys_base = base, sys_late = late\<rparr>"
| outside: "uow_state u = ARBOR_DDD_UNIT_OF_WORK_ZERO \<Longrightarrow> journal_ok js \<Longrightarrow>
    uow_step tables at \<lparr>sys_unit = u, sys_world = w, sys_base = base, sys_late = late\<rparr>
      \<lparr>sys_unit = u, sys_world = w\<lparr>w_journal := js\<rparr>, sys_base = base, sys_late = late\<rparr>"

inductive_cases uow_stepE: "uow_step tables at s s'"

definition uow_inv :: "(addr \<Rightarrow> 'p arbor_ddd_transaction_interface) \<Rightarrow> addr \<Rightarrow> 'p uow_system \<Rightarrow> bool" where
  "uow_inv tables at s \<longleftrightarrow>
     (let u = sys_unit s; w = sys_world s; base = sys_base s; late = sys_late s; events = journal_events (w_journal w) in
      journal_ok (w_journal w) \<and>
      (uow_state u = ARBOR_DDD_UNIT_OF_WORK_ACTIVE \<longrightarrow> uow_open tables at u w base \<and> late = []) \<and>
      (uow_state u = ARBOR_DDD_UNIT_OF_WORK_COMMITTED \<longrightarrow> (\<exists>own. events = base @ own @ late)) \<and>
      (uow_state u = ARBOR_DDD_UNIT_OF_WORK_ROLLED_BACK \<or> uow_state u = ARBOR_DDD_UNIT_OF_WORK_FAULTED \<longrightarrow>
        events = base @ late))"

lemma open_prefix:
  assumes "uow_open tables at u w base"
  shows "\<exists>own. journal_events (w_journal w) = base @ own"
proof -
  let ?n = "unat (cp_record_count (uow_event_checkpoint u))"
  have "?n \<le> length (journal_events (w_journal w))"
    using assms checkpoint_events_length by (simp add: uow_open_def)
  moreover have "base = take ?n (journal_events (w_journal w))" using assms by (simp add: uow_open_def)
  ultimately show ?thesis by (metis append_take_drop_id)
qed

lemma commit_keeps_inv:
  assumes inv: "uow_inv tables at \<lparr>sys_unit = u, sys_world = w, sys_base = base, sys_late = late\<rparr>"
    and append_only: "callbacks_append_only tables" and "arbor_ddd_unit_of_work_commit tables at u w = (s, u', w')"
  shows "uow_inv tables at \<lparr>sys_unit = u', sys_world = w', sys_base = base, sys_late = late\<rparr>"
proof (cases "uow_state u = ARBOR_DDD_UNIT_OF_WORK_ACTIVE")
  case True
  then have opened: "uow_open tables at u w base" and late: "late = []" using inv by (simp_all add: uow_inv_def Let_def)
  obtain f where f: "ti_commit (tables (tv_interface_table (uow_transaction_view u))) = Some f"
    by (rule open_callbacks [OF opened])
  obtain n w1 where call:
    "f (tv_provider_context (uow_transaction_view u)) (tv_transaction_state (uow_transaction_view u)) w = (n, w1)"
    by fastforce
  note outcome = commit_outcome [OF opened append_only f call]
  show ?thesis
    using outcome(1,2) assms(3) open_prefix [OF outcome(3)] outcome(3) late
    by (cases "n = 0") (auto simp: uow_inv_def Let_def uow_open_def)
next
  case False
  then show ?thesis using not_active_unchanged(2) [OF False, of tables at w] assms by auto
qed

lemma rollback_keeps_inv:
  assumes inv: "uow_inv tables at \<lparr>sys_unit = u, sys_world = w, sys_base = base, sys_late = late\<rparr>"
    and append_only: "callbacks_append_only tables" and "arbor_ddd_unit_of_work_rollback tables at u w = (s, u', w')"
  shows "uow_inv tables at \<lparr>sys_unit = u', sys_world = w', sys_base = base, sys_late = late\<rparr>"
proof (cases "uow_state u = ARBOR_DDD_UNIT_OF_WORK_ACTIVE")
  case True
  then have opened: "uow_open tables at u w base" and late: "late = []" using inv by (simp_all add: uow_inv_def Let_def)
  obtain f where f: "ti_rollback (tables (tv_interface_table (uow_transaction_view u))) = Some f"
    by (rule open_callbacks [OF opened])
  obtain n w1 where call:
    "f (tv_provider_context (uow_transaction_view u)) (tv_transaction_state (uow_transaction_view u)) w = (n, w1)"
    by fastforce
  show ?thesis
    using rollback_outcome [OF opened append_only f call] assms(3) late by (auto simp: uow_inv_def Let_def)
next
  case False
  then show ?thesis using not_active_unchanged(3) [OF False, of tables at w] assms by auto
qed

lemma begin_zero: "unit_of_work_begin_checks tables b binding st n jp at u w = Inr cp \<Longrightarrow>
    uow_state u = ARBOR_DDD_UNIT_OF_WORK_ZERO"
  by (auto simp: unit_of_work_begin_checks_def unit_of_work_is_zero_def split: if_splits)

lemma begin_failed_keeps:
  assumes "journal_ok (w_journal w)" and "callbacks_append_only tables"
    and "arbor_ddd_unit_of_work_begin tables b binding st n jp at u w = (Inl s, w')"
  shows "w' = w \<or> (uow_state u = ARBOR_DDD_UNIT_OF_WORK_ZERO \<and> journal_ok (w_journal w'))"
proof (cases "unit_of_work_begin_checks tables b binding st n jp at u w")
  case (Inl x)
  then show ?thesis using assms(3) by (simp add: arbor_ddd_unit_of_work_begin_def)
next
  case (Inr cp)
  define w0 where "w0 = (if n \<noteq> 0 then w\<lparr>w_state_bytes := replicate (unat n) 0\<rparr> else w)"
  have w0: "w_journal w0 = w_journal w" by (simp add: w0_def)
  have "w' = w0 \<or> (\<exists>f. ti_begin (tables (bind_interface_table binding)) = Some f \<and>
      w' = snd (f (bind_provider_context binding) st n w0))"
    using assms(3) Inr
    by (auto simp: arbor_ddd_unit_of_work_begin_def w0_def [symmetric] Let_def split: option.splits prod.splits if_splits)
  then have "grown (w_journal w) (w_journal w')"
    using assms(2) w0 grown_refl unfolding callbacks_append_only_def by metis
  then have "journal_ok (w_journal w')"
    using grown_log(1) [OF assms(1) checks_apart [OF Inr]] by blast
  then show ?thesis using begin_zero [OF Inr] by blast
qed

lemma uow_step_inv:
  assumes "uow_step tables at s s'" and "callbacks_append_only tables" and "uow_inv tables at s"
  shows "uow_inv tables at s'"
  using assms(1,3)
proof cases
  case (begin_ok b binding st n jp u w u' w' base late)
  then have "arrays_ok (w_journal w)" using assms(3) by (simp add: uow_inv_def Let_def journal_ok_def)
  then have opened: "uow_open tables at u' w' (journal_events (w_journal w))"
    by (rule begin_opens [OF begin_ok(3) _ assms(2)])
  then show ?thesis using begin_ok by (simp add: uow_inv_def Let_def) (simp add: uow_open_def)
next
  case (begin_failed b binding st n jp u w x w' base late)
  then have "journal_ok (w_journal w)" using assms(3) by (simp add: uow_inv_def Let_def)
  then show ?thesis
    using begin_failed_keeps [OF _ assms(2) begin_failed(3)] begin_failed assms(3) by (auto simp: uow_inv_def Let_def)
next
  case (append_ok call w js sequence u base late)
  have ok: "journal_ok (w_journal w)" using append_ok(1) assms(3) by (simp add: uow_inv_def Let_def)
  note added = append_appends(1,2) [OF ok append_ok(3)]
  show ?thesis
  proof (cases "uow_state u = ARBOR_DDD_UNIT_OF_WORK_ACTIVE")
    case True
    then have opened: "uow_open tables at u w base" and late: "late = []"
      using append_ok(1) assms(3) by (simp_all add: uow_inv_def Let_def)
    have "uow_open tables at u (w\<lparr>w_journal := js\<rparr>) base"
      using append_grown [OF append_ok(3)] by (intro grown_open [OF opened]) simp
    then show ?thesis using append_ok(2) True late added(1) by (simp add: uow_inv_def Let_def)
  next
    case False
    then show ?thesis using append_ok(1,2) assms(3) added by (auto simp: uow_inv_def Let_def)
  qed
next
  case commit
  then show ?thesis using commit_keeps_inv assms(2,3) by blast
next
  case rollback
  then show ?thesis using rollback_keeps_inv assms(2,3) by blast
next
  case reset
  then show ?thesis using assms(3)
    by (auto simp: uow_inv_def Let_def arbor_ddd_unit_of_work_reset_def zero_unit_of_work_def split: if_splits)
next
  case outside
  then show ?thesis by (simp add: uow_inv_def Let_def)
qed

lemma uow_reachable_inv:
  assumes "(uow_step tables at)\<^sup>*\<^sup>* s s'" and "callbacks_append_only tables" and "uow_inv tables at s"
  shows "uow_inv tables at s'"
  using assms by (induction rule: rtranclp_induct) (auto intro: uow_step_inv)

text \<open>The edges of the documented state machine.\<close>

definition uow_edge :: "u32 \<Rightarrow> u32 \<Rightarrow> bool" where
  "uow_edge a b \<longleftrightarrow> a = b \<or>
     (a = ARBOR_DDD_UNIT_OF_WORK_ZERO \<and> b = ARBOR_DDD_UNIT_OF_WORK_ACTIVE) \<or>
     (a = ARBOR_DDD_UNIT_OF_WORK_ACTIVE \<and>
       b \<in> {ARBOR_DDD_UNIT_OF_WORK_COMMITTED, ARBOR_DDD_UNIT_OF_WORK_ROLLED_BACK, ARBOR_DDD_UNIT_OF_WORK_FAULTED}) \<or>
     (a \<in> {ARBOR_DDD_UNIT_OF_WORK_COMMITTED, ARBOR_DDD_UNIT_OF_WORK_ROLLED_BACK, ARBOR_DDD_UNIT_OF_WORK_FAULTED} \<and>
       b = ARBOR_DDD_UNIT_OF_WORK_ZERO)"

lemma commit_edge:
  "arbor_ddd_unit_of_work_commit tables at u w = (s, u', w') \<Longrightarrow> uow_edge (uow_state u) (uow_state u')"
  using not_active_unchanged(2) [of u tables at w]
  by (cases "uow_state u = ARBOR_DDD_UNIT_OF_WORK_ACTIVE")
    (auto simp: uow_edge_def arbor_ddd_unit_of_work_commit_def Let_def split: sum.splits option.splits prod.splits if_splits)

lemma rollback_edge:
  "arbor_ddd_unit_of_work_rollback tables at u w = (s, u', w') \<Longrightarrow> uow_edge (uow_state u) (uow_state u')"
  using not_active_unchanged(3) [of u tables at w]
  by (cases "uow_state u = ARBOR_DDD_UNIT_OF_WORK_ACTIVE")
    (auto simp: uow_edge_def arbor_ddd_unit_of_work_rollback_def Let_def
      split: sum.splits option.splits prod.splits if_splits stop.splits)

lemma begin_edge:
  assumes "arbor_ddd_unit_of_work_begin tables b binding st n jp at u w = (Inr u', w')"
  shows "uow_edge (uow_state u) (uow_state u')"
proof -
  obtain cp where "unit_of_work_begin_checks tables b binding st n jp at u w = Inr cp"
    using assms by (auto simp: arbor_ddd_unit_of_work_begin_def split: sum.splits)
  then have "uow_state u = ARBOR_DDD_UNIT_OF_WORK_ZERO" by (rule begin_zero)
  moreover have "uow_state u' = ARBOR_DDD_UNIT_OF_WORK_ACTIVE"
    using assms by (auto simp: arbor_ddd_unit_of_work_begin_def Let_def split: sum.splits option.splits prod.splits if_splits)
  ultimately show ?thesis by (simp add: uow_edge_def)
qed

lemma uow_step_edge:
  "uow_step tables at s s' \<Longrightarrow> uow_edge (uow_state (sys_unit s)) (uow_state (sys_unit s'))"
  by (induction rule: uow_step.induct)
    (auto simp: commit_edge rollback_edge begin_edge,
     auto simp: uow_edge_def arbor_ddd_unit_of_work_reset_def zero_unit_of_work_def split: if_splits)

end
