(* ===== verification/Ddd_Properties.thy ===== *)
theory Ddd_Properties
  imports Unit_Of_Work
begin

text \<open>
  The properties of the event journal and the unit of work, with a small journal and a transaction
  interface on which every hypothesis is met.
\<close>

section \<open>Concrete objects\<close>

definition small_journal :: arbor_ddd_event_journal where
  "small_journal = \<lparr>jr_records = 8192, jr_record_capacity = 2, jr_record_count = 0, jr_payload_bytes = 12288,
     jr_byte_capacity = 4, jr_byte_count = 0, jr_generation = 1\<rparr>"

definition blank_record :: arbor_ddd_event_record where
  "blank_record = \<lparr>rec_type_id = \<lparr>id_high = 0, id_low = 0\<rparr>, rec_abi_version = 0, rec_flags = 0,
     rec_payload_offset = 0, rec_payload_size = 0\<rparr>"

definition empty_state :: journal_state where
  "empty_state = \<lparr>js_at = 4096, js_journal = small_journal, js_records = [blank_record, blank_record],
     js_payload = [0, 0, 0, 0]\<rparr>"

definition first_call :: append_call where
  "first_call = \<lparr>call_type_id = \<lparr>id_high = 0, id_low = 7\<rparr>, call_abi_version = 1, call_flags = 0,
     call_payload = 28672, call_bytes = [10, 20], call_payload_size = 2, call_sequence_out = 32768\<rparr>"

definition one_event_state :: journal_state where
  "one_event_state = \<lparr>js_at = 4096, js_journal = small_journal\<lparr>jr_byte_count := 2, jr_record_count := 1\<rparr>,
     js_records = [\<lparr>rec_type_id = \<lparr>id_high = 0, id_low = 7\<rparr>, rec_abi_version = 1, rec_flags = 0,
       rec_payload_offset = 0, rec_payload_size = 2\<rparr>, blank_record],
     js_payload = [10, 20, 0, 0]\<rparr>"

definition cleared_state :: journal_state where
  "cleared_state = one_event_state\<lparr>js_journal := small_journal\<lparr>jr_generation := 2\<rparr>\<rparr>"

definition provider_table :: "unit arbor_ddd_transaction_interface" where
  "provider_table = \<lparr>ti_abi_version = 1, ti_struct_size = 72, ti_flags = 0,
     ti_authority_id = \<lparr>id_high = 0, id_low = 9\<rparr>, ti_state_size = 0, ti_state_alignment = 8,
     ti_begin = Some (\<lambda>_ _ _ w. (0, w)), ti_commit = Some (\<lambda>_ _ w. (- 5, w)), ti_rollback = Some (\<lambda>_ _ w. (0, w))\<rparr>"

definition provider_binding :: arbor_capability_binding where
  "provider_binding = \<lparr>bind_id = \<lparr>id_high = 0, id_low = 3\<rparr>, bind_version = \<lparr>ver_major = 1, ver_minor = 0\<rparr>,
     bind_interface_size = 72, bind_reserved0 = 0, bind_flags = 0, bind_interface_table = 16384,
     bind_provider_context = 0, bind_provider_module_index = 0\<rparr>"

definition empty_world :: "unit uow_world" where
  "empty_world = \<lparr>w_provider = (), w_state_bytes = [], w_journal = empty_state\<rparr>"

definition opened_unit :: arbor_ddd_unit_of_work where
  "opened_unit = \<lparr>uow_transaction_view = \<lparr>tv_interface_table = 16384, tv_provider_context = 0,
       tv_transaction_state = 0, tv_transaction_state_size = 0\<rparr>,
     uow_event_journal = 4096, uow_event_checkpoint = \<lparr>cp_record_count = 0, cp_byte_count = 0, cp_generation = 1\<rparr>,
     uow_state = ARBOR_DDD_UNIT_OF_WORK_ACTIVE, uow_flags = 0\<rparr>"

abbreviation provider_tables :: "addr \<Rightarrow> unit arbor_ddd_transaction_interface" where
  "provider_tables \<equiv> (\<lambda>_. provider_table)"

lemmas journal_eval = journal_shape_validate_def journal_regions_def region_make_def regions_overlap_def Let_def
  small_journal_def

lemma empty_state_ok: "journal_ok empty_state"
  by (simp add: journal_ok_def arrays_ok_def empty_state_def retained_def journal_eval)

lemma empty_state_apart: "object_apart 20520 SIZEOF_CHECKPOINT empty_state" "object_apart 36864 SIZEOF_CHECKPOINT empty_state"
  by (simp_all add: object_apart_def empty_state_def journal_eval)

lemma first_append: "arbor_ddd_event_journal_append first_call empty_state = Inr (one_event_state, 0)"
  by (simp add: arbor_ddd_event_journal_append_def empty_state_def first_call_def one_event_state_def journal_eval
    id_is_zero_def copy_payload_def store_record_def)

lemma one_event_ok: "journal_ok one_event_state"
  by (rule append_appends(1) [OF empty_state_ok first_append])

lemma opened_begin:
  "arbor_ddd_unit_of_work_begin provider_tables 24576 provider_binding 0 0 4096 20480 zero_unit_of_work empty_world =
     (Inr opened_unit, empty_world)"
  by (simp add: arbor_ddd_unit_of_work_begin_def unit_of_work_begin_checks_def unit_of_work_is_zero_def
    zero_unit_of_work_def provider_binding_def provider_table_def empty_world_def opened_unit_def
    arbor_ddd_transaction_interface_validate_def transaction_interface_shape_validate_def id_is_zero_def
    power_of_two_u64_def provider_context_anchor_region_def transaction_state_validate_def journal_object_def
    journal_ok_validate [OF empty_state_ok] callback_status_zero_iff)
    (simp add: empty_state_def journal_eval callback_status_zero_iff)

lemma provider_append_only: "callbacks_append_only provider_tables"
  by (simp add: callbacks_append_only_def provider_table_def grown_refl)

section \<open>The journal\<close>

text \<open>C18: An append that returns OK adds exactly one event, a copy of the caller's bytes, at the end of the journal, reports its
  index as the sequence number and keeps the packed-prefix invariant, so the code's own validation still accepts the journal.\<close>

theorem append_adds_one_event:
  assumes "journal_ok js" and "arbor_ddd_event_journal_append call js = Inr (js', sequence)"
  shows "journal_events js' = journal_events js @ [\<lparr>ev_type_id = call_type_id call,
      ev_abi_version = call_abi_version call, ev_payload = take (unat (call_payload_size call)) (call_bytes call)\<rparr>] \<and>
    unat sequence = length (journal_events js) \<and> arbor_ddd_event_journal_validate js' = Inr ()"
  using append_appends(1-3) [OF assms] journal_ok_validate by (simp add: call_event_def)

theorem append_adds_one_event_witness:
  "journal_events one_event_state = journal_events empty_state @
     [\<lparr>ev_type_id = \<lparr>id_high = 0, id_low = 7\<rparr>, ev_abi_version = 1, ev_payload = [10, 20]\<rparr>]"
  using append_adds_one_event [OF empty_state_ok first_append] by (simp add: first_call_def)

text \<open>C20: The validation of the code accepts a journal exactly when its shape is right and its records describe adjacent payloads
  from offset zero up to the byte count; a 32-bit wrap-around cannot make a corrupt journal pass.\<close>

theorem validation_is_packed_prefix:
  assumes "arrays_ok js"
  shows "arbor_ddd_event_journal_validate js = Inr () \<longleftrightarrow>
    journal_shape_validate (js_at js) (js_journal js) = Inr () \<and>
    packed 0 (take (unat (jr_record_count (js_journal js))) (js_records js)) (unat (jr_byte_count (js_journal js)))"
  using validate_OK_iff [OF assms] assms by (simp add: journal_ok_def retained_def)

theorem validation_is_packed_prefix_witness: "arbor_ddd_event_journal_validate one_event_state = Inr ()"
  using validation_is_packed_prefix [OF journal_ok_arrays [OF one_event_ok]] one_event_ok
  by (simp add: journal_ok_def retained_def)

text \<open>A checkpoint taken now can be rewound to after any number of appends, and the journal then holds exactly the events it
  held when the checkpoint was taken.\<close>

theorem checkpoint_append_rewind:
  assumes "journal_ok js" and "object_apart at SIZEOF_CHECKPOINT js"
    and "arbor_ddd_event_journal_checkpoint js out = Inr cp" and "grown js js'"
  shows "\<exists>t. arbor_ddd_event_journal_rewind at cp js' = Inr t \<and> journal_ok t \<and> journal_events t = journal_events js"
proof -
  obtain calls where "journal_log.append_all calls js = Some js'" using assms(4) unfolding grown_def by blast
  then show ?thesis
    using journal_log.rewind_undoes_appends [OF conjI [OF assms(1,2)]] checkpoint_Inr [OF assms(1,3)] by auto
qed

theorem checkpoint_append_rewind_witness:
  "\<exists>t. arbor_ddd_event_journal_rewind 36864 (current_checkpoint empty_state) one_event_state = Inr t \<and>
     journal_events t = journal_events empty_state"
  using checkpoint_append_rewind [OF empty_state_ok empty_state_apart(2)
      checkpoint_total [OF empty_state_ok empty_state_apart(2)] append_grown [OF first_append]] by blast

text \<open>C19: Rewind accepts a checkpoint object exactly when the object exists, shares no byte with the journal, its records and
  its payload, and holds the current generation and an event boundary of the journal; it then keeps exactly that many
  events.\<close>

theorem rewind_accepts_boundaries:
  assumes "journal_ok js"
  shows "case arbor_ddd_event_journal_rewind at cp js of
      Inr t \<Rightarrow> at \<noteq> 0 \<and> unat at + SIZEOF_CHECKPOINT < 18446744073709551616 \<and> bytes_from at SIZEOF_CHECKPOINT \<inter> journal_bytes js = {} \<and>
        valid_checkpoint cp js \<and> journal_ok t \<and> journal_events t = take (unat (cp_record_count cp)) (journal_events js)
    | Inl _ \<Rightarrow> \<not> (at \<noteq> 0 \<and> unat at + SIZEOF_CHECKPOINT < 18446744073709551616 \<and> bytes_from at SIZEOF_CHECKPOINT \<inter> journal_bytes js = {} \<and>
        valid_checkpoint cp js)"
proof (cases "at = 0")
  case True
  then show ?thesis
    using rewind_at_null [of cp js] by (auto split: sum.splits)
next
  case False
  have apart: "object_apart at SIZEOF_CHECKPOINT js \<longleftrightarrow>
      at \<noteq> 0 \<and> unat at + SIZEOF_CHECKPOINT < 18446744073709551616 \<and> bytes_from at SIZEOF_CHECKPOINT \<inter> journal_bytes js = {}"
    by (rule object_apart_iff [OF assms]) simp_all
  note iff = rewind_Inr_iff [OF assms False]
  show ?thesis
  proof (cases "valid_checkpoint cp js \<and> object_apart at SIZEOF_CHECKPOINT js")
    case True
    then obtain t where t: "arbor_ddd_event_journal_rewind at cp js = Inr t" using iff [of cp] by blast
    moreover from this have "t = js\<lparr>js_journal := (js_journal js)\<lparr>jr_byte_count := cp_byte_count cp,
        jr_record_count := cp_record_count cp\<rparr>\<rparr>"
      using iff [of cp] by blast
    ultimately show ?thesis using rewound_ok [OF assms, of cp] True apart by simp
  next
    case False
    then have "\<exists>e. arbor_ddd_event_journal_rewind at cp js = Inl e" using iff [of cp] by (cases "arbor_ddd_event_journal_rewind at cp js") auto
    then show ?thesis using False apart by auto
  qed
qed

theorem rewind_accepts_boundaries_witness:
  "\<exists>t. arbor_ddd_event_journal_rewind 36864 (current_checkpoint empty_state) empty_state = Inr t \<and> journal_ok t"
  using rewind_accepts_boundaries [OF empty_state_ok, of 36864 "current_checkpoint empty_state"]
    current_checkpoint_valid [OF empty_state_ok] object_apart_iff [OF empty_state_ok, of SIZEOF_CHECKPOINT 36864] empty_state_apart(2)
  by (cases "arbor_ddd_event_journal_rewind 36864 (current_checkpoint empty_state) empty_state") auto

text \<open>A view of sequence number \<open>n\<close> describes the \<open>n\<close>-th event of the journal: its type, version and, at the address
  it returns, its payload bytes.\<close>

theorem view_reads_nth_event:
  assumes "journal_ok js" and "arbor_ddd_event_journal_view js sequence out = Inr v"
  shows "unat sequence < length (journal_events js) \<and>
    journal_events js ! unat sequence = \<lparr>ev_type_id = view_type_id v, ev_abi_version = view_abi_version v,
      ev_payload = take (unat (view_payload_size v))
        (drop (unat (view_payload v - jr_payload_bytes (js_journal js))) (js_payload js))\<rparr>"
  using view_reads_event [OF assms] by blast

theorem view_reads_nth_event_witness: "length (journal_events one_event_state) > 0"
proof -
  have "arbor_ddd_event_journal_view one_event_state 0 40960 =
      Inr \<lparr>view_type_id = \<lparr>id_high = 0, id_low = 7\<rparr>, view_abi_version = 1, view_flags = 0, view_payload = 12288,
        view_payload_size = 2, view_sequence = 0\<rparr>"
    by (simp add: arbor_ddd_event_journal_view_def one_event_state_def journal_eval record_at_def id_is_zero_def
      record_rejected_def)
  then show ?thesis using view_reads_nth_event [OF one_event_ok] by (metis length_0_conv list.size(3) not_gr0 not_less0)
qed

text \<open>Clearing empties the journal and makes every checkpoint taken before it stale: rewinding to one is refused with
  \<open>ESTALE\<close>.\<close>

theorem clear_invalidates_checkpoints:
  assumes "journal_ok js" and "arbor_ddd_event_journal_clear js = Inr js'" and "valid_checkpoint cp js" and "at \<noteq> 0"
  shows "journal_events js' = [] \<and> arbor_ddd_event_journal_validate js' = Inr () \<and>
    arbor_ddd_event_journal_rewind at cp js' = Inl (Return (native_status (- ESTALE)))"
  using clear_facts(1,2) [OF assms(1,2)] journal_ok_validate cleared_checkpoint_stale [OF assms]
  by (simp add: fail_def)

theorem clear_invalidates_checkpoints_witness:
  "arbor_ddd_event_journal_rewind 36864 (current_checkpoint one_event_state) cleared_state =
     Inl (Return (native_status (- ESTALE)))"
proof -
  have "arbor_ddd_event_journal_clear one_event_state = Inr cleared_state"
    by (simp add: arbor_ddd_event_journal_clear_def one_event_state_def cleared_state_def journal_eval)
  then show ?thesis
    using clear_invalidates_checkpoints [OF one_event_ok _ current_checkpoint_valid [OF one_event_ok], of cleared_state 36864]
    by simp
qed

section \<open>The unit of work\<close>

text \<open>C16: A transaction that does not commit leaves no event behind. Over every sequence of lifecycle calls and appends, also
  of appends after a transaction has ended, for all callbacks that only append to the journal whatever they return: a
  unit that is rolled back or faulted has a journal with exactly the events it had when the unit was opened, followed by
  those appended after the end of the transaction; a committed one has kept the events it was opened with.\<close>

theorem no_event_without_commit:
  assumes "(uow_step tables at)\<^sup>*\<^sup>* \<lparr>sys_unit = zero_unit_of_work, sys_world = w0, sys_base = b0, sys_late = l0\<rparr>
      \<lparr>sys_unit = u, sys_world = w, sys_base = base, sys_late = late\<rparr>"
    and "callbacks_append_only tables" and "journal_ok (w_journal w0)"
  shows "journal_ok (w_journal w) \<and>
    (uow_state u \<in> {ARBOR_DDD_UNIT_OF_WORK_ROLLED_BACK, ARBOR_DDD_UNIT_OF_WORK_FAULTED} \<longrightarrow>
      journal_events (w_journal w) = base @ late) \<and>
    (uow_state u = ARBOR_DDD_UNIT_OF_WORK_COMMITTED \<longrightarrow> (\<exists>own. journal_events (w_journal w) = base @ own @ late))"
proof -
  have "uow_inv tables at \<lparr>sys_unit = zero_unit_of_work, sys_world = w0, sys_base = b0, sys_late = l0\<rparr>"
    using assms(3) by (simp add: uow_inv_def zero_unit_of_work_def)
  from uow_reachable_inv [OF assms(1,2) this] show ?thesis by (simp add: uow_inv_def Let_def)
qed

lemma step_one:
  "uow_step provider_tables 20480 \<lparr>sys_unit = zero_unit_of_work, sys_world = empty_world, sys_base = [], sys_late = []\<rparr>
     \<lparr>sys_unit = opened_unit, sys_world = empty_world, sys_base = journal_events empty_state, sys_late = []\<rparr>"
  using uow_step.begin_ok [OF opened_begin, of "[]" "[]"] by (simp add: empty_world_def)

lemma step_two:
  "uow_step provider_tables 20480
     \<lparr>sys_unit = opened_unit, sys_world = empty_world, sys_base = journal_events empty_state, sys_late = []\<rparr>
     \<lparr>sys_unit = opened_unit, sys_world = empty_world\<lparr>w_journal := one_event_state\<rparr>,
      sys_base = journal_events empty_state, sys_late = []\<rparr>"
  using uow_step.append_ok [of first_call empty_world one_event_state _ provider_tables 20480 opened_unit "journal_events empty_state" "[]"]
  by (simp add: opened_unit_def empty_world_def first_append)

lemma opened_two: "uow_open provider_tables 20480 opened_unit (empty_world\<lparr>w_journal := one_event_state\<rparr>) []"
proof -
  have "arrays_ok (w_journal empty_world)" using empty_state_ok by (simp add: empty_world_def journal_ok_def)
  then have "uow_open provider_tables 20480 opened_unit empty_world []"
    using begin_opens [OF opened_begin _ provider_append_only]
    by (simp add: empty_world_def journal_events_def retained_def empty_state_def small_journal_def)
  moreover have "grown (w_journal empty_world) (w_journal (empty_world\<lparr>w_journal := one_event_state\<rparr>))"
    using append_grown [OF first_append] by (simp add: empty_world_def)
  ultimately show ?thesis by (rule grown_open)
qed

theorem no_event_without_commit_witness:
  "\<exists>u w. arbor_ddd_unit_of_work_commit provider_tables 20480 opened_unit (empty_world\<lparr>w_journal := one_event_state\<rparr>) =
      (Return (native_status (- EIO)), u, w) \<and> journal_events (w_journal w) = journal_events empty_state"
proof -
  let ?w = "empty_world\<lparr>w_journal := one_event_state\<rparr>"
  have call: "ti_commit (provider_tables (tv_interface_table (uow_transaction_view opened_unit))) = Some (\<lambda>_ _ w. (- 5, w))"
    by (simp add: provider_table_def)
  obtain js where finished: "arbor_ddd_unit_of_work_commit provider_tables 20480 opened_unit ?w =
      (Return (callback_status (- 5)), opened_unit\<lparr>uow_state := ARBOR_DDD_UNIT_OF_WORK_FAULTED\<rparr>, ?w\<lparr>w_journal := js\<rparr>)"
    using commit_outcome(2) [OF opened_two provider_append_only call refl] by auto
  have "(uow_step provider_tables 20480)\<^sup>*\<^sup>* \<lparr>sys_unit = zero_unit_of_work, sys_world = empty_world, sys_base = [], sys_late = []\<rparr>
      \<lparr>sys_unit = opened_unit\<lparr>uow_state := ARBOR_DDD_UNIT_OF_WORK_FAULTED\<rparr>, sys_world = ?w\<lparr>w_journal := js\<rparr>,
       sys_base = journal_events empty_state, sys_late = []\<rparr>"
    using step_one step_two uow_step.commit [OF finished]
    by (meson rtranclp.rtrancl_into_rtrancl rtranclp.rtrancl_refl)
  from no_event_without_commit [OF this provider_append_only]
  have "journal_events (w_journal (?w\<lparr>w_journal := js\<rparr>)) = journal_events empty_state"
    using empty_state_ok by (simp add: empty_world_def)
  moreover have "callback_status (- 5) = native_status (- EIO)" by (simp add: callback_status_def native_status_def)
  ultimately show ?thesis using finished by auto
qed

text \<open>The state field only moves along the documented edges, zero to active, active to committed, rolled back or faulted, and from
  these by reset to zero, whatever the callbacks do.\<close>

theorem lifecycle_edges:
  assumes "uow_step tables at s s'"
  shows "uow_edge (uow_state (sys_unit s)) (uow_state (sys_unit s'))"
  by (rule uow_step_edge [OF assms])

theorem lifecycle_edges_witness:
  "uow_edge ARBOR_DDD_UNIT_OF_WORK_ZERO (uow_state opened_unit)"
  using lifecycle_edges [OF step_one] by (simp add: zero_unit_of_work_def)

text \<open>C17: After a successful begin the unit of work cannot get stuck, if the provider keeps the documented contract that its
  callbacks, begin among them, change the journal by appends only: whatever is appended, commit and rollback are never
  refused, each calls its callback and returns the callback's status, and the unit leaves the active state.\<close>

theorem opened_unit_can_finish:
  assumes "arbor_ddd_unit_of_work_begin tables b binding st n jp at zero_unit_of_work w0 = (Inr u, w1)"
    and "arrays_ok (w_journal w0)" and "callbacks_append_only tables" and "grown (w_journal w1) (w_journal w)"
  shows "\<exists>c r. ti_commit (tables (bind_interface_table binding)) = Some c \<and>
    ti_rollback (tables (bind_interface_table binding)) = Some r \<and>
    fst (arbor_ddd_unit_of_work_commit tables at u w) =
      Return (callback_status (fst (c (bind_provider_context binding) st w))) \<and>
    fst (arbor_ddd_unit_of_work_rollback tables at u w) =
      Return (callback_status (fst (r (bind_provider_context binding) st w))) \<and>
    uow_state (fst (snd (arbor_ddd_unit_of_work_commit tables at u w))) \<noteq> ARBOR_DDD_UNIT_OF_WORK_ACTIVE \<and>
    uow_state (fst (snd (arbor_ddd_unit_of_work_rollback tables at u w))) \<noteq> ARBOR_DDD_UNIT_OF_WORK_ACTIVE"
proof -
  have opened: "uow_open tables at u w (journal_events (w_journal w0))"
    by (rule grown_open [OF begin_opens [OF assms(1-3)] assms(4)])
  have view: "uow_transaction_view u = \<lparr>tv_interface_table = bind_interface_table binding,
      tv_provider_context = bind_provider_context binding, tv_transaction_state = st, tv_transaction_state_size = n\<rparr>"
    using assms(1) by (auto simp: arbor_ddd_unit_of_work_begin_def Let_def split: sum.splits option.splits prod.splits if_splits)
  obtain c r where c: "ti_commit (tables (bind_interface_table binding)) = Some c"
    and r: "ti_rollback (tables (bind_interface_table binding)) = Some r"
    by (rule open_callbacks [OF opened]) (simp add: view)
  note commit = commit_outcome [OF opened assms(3), unfolded view, simplified, OF c prod.collapse [symmetric]]
  note rollback = rollback_outcome [OF opened assms(3), unfolded view, simplified, OF r prod.collapse [symmetric]]
  have "callback_status 0 = ok_status" by (simp add: callback_status_def ok_status_def native_status_def)
  then show ?thesis
    using c r commit(1,2) rollback
    by (cases "fst (c (bind_provider_context binding) st w) = 0"; intro exI [of _ c] exI [of _ r]) (auto split: if_splits)
qed

theorem opened_unit_can_finish_witness:
  "fst (arbor_ddd_unit_of_work_commit provider_tables 20480 opened_unit empty_world) = Return (callback_status (- 5))"
proof -
  have "arrays_ok (w_journal empty_world)" using empty_state_ok by (simp add: empty_world_def journal_ok_def)
  from opened_unit_can_finish [OF opened_begin this provider_append_only grown_refl] show ?thesis
    by (auto simp: provider_table_def)
qed

text \<open>Commit and rollback of a unit that is not active return without calling the provider and change nothing, and reset refuses
  an active unit with \<open>EBUSY\<close>.\<close>

theorem lifecycle_refusals:
  assumes "uow_state u \<noteq> ARBOR_DDD_UNIT_OF_WORK_ACTIVE" and "uow_state v = ARBOR_DDD_UNIT_OF_WORK_ACTIVE"
    and "uow_flags v = 0" and "at \<noteq> 0"
  shows "(\<exists>s. arbor_ddd_unit_of_work_commit tables at u w = (s, u, w)) \<and>
    (\<exists>s. arbor_ddd_unit_of_work_rollback tables at u w = (s, u, w)) \<and>
    arbor_ddd_unit_of_work_reset at v = Inl (Return (native_status (- EBUSY)))"
  using not_active_unchanged(2,3) [OF assms(1), of tables at w] assms(2-4)
  by (simp add: arbor_ddd_unit_of_work_reset_def fail_def)

theorem lifecycle_refusals_witness:
  "\<exists>s. arbor_ddd_unit_of_work_commit provider_tables 20480 zero_unit_of_work empty_world = (s, zero_unit_of_work, empty_world)"
  using lifecycle_refusals [of zero_unit_of_work opened_unit 20480 provider_tables empty_world]
  by (simp add: zero_unit_of_work_def opened_unit_def)

end
