(* ===== verification/Http_Grammar.thy ===== *)
theory Http_Grammar
  imports Byte_Memory
begin

text \<open>
  The byte grammars of \<open>src/c/http.c\<close>: tokens, field values, and the \<open>Host\<close> value with its registered
  names and IP literals. Each recogniser runs on the bytes of a span, an index loop being the recursion on
  the bytes from the index on. The address recognisers are shown to accept exactly the IPv4 and IPv6
  syntax of RFC 3986, compression included.
\<close>

abbreviation colon :: u8 where "colon \<equiv> 58"
abbreviation dot :: u8 where "dot \<equiv> 46"
abbreviation comma :: u8 where "comma \<equiv> 44"
abbreviation percent :: u8 where "percent \<equiv> 37"
abbreviation open_bracket :: u8 where "open_bracket \<equiv> 91"
abbreviation close_bracket :: u8 where "close_bracket \<equiv> 93"

section \<open>The code: characters\<close>

definition digit_char :: "u8 \<Rightarrow> bool" where
  "digit_char v \<longleftrightarrow> ascii CHR ''0'' \<le> v \<and> v \<le> ascii CHR ''9''"

definition alnum_char :: "u8 \<Rightarrow> bool" where
  "alnum_char v \<longleftrightarrow> digit_char v \<or> (ascii CHR ''A'' \<le> v \<and> v \<le> ascii CHR ''Z'') \<or>
     (ascii CHR ''a'' \<le> v \<and> v \<le> ascii CHR ''z'')"

definition token_char :: "u8 \<Rightarrow> bool" where
  "token_char v \<longleftrightarrow> alnum_char v \<or> v \<in> set (ascii_bytes (''!#$%&'' @ [CHR 0x27] @ ''*+-.^_`|~''))"

definition ascii_lower :: "u8 \<Rightarrow> u8" where
  "ascii_lower a = (if ascii CHR ''A'' \<le> a \<and> a \<le> ascii CHR ''Z'' then a + (ascii CHR ''a'' - ascii CHR ''A'') else a)"

definition field_value_byte :: "u8 \<Rightarrow> bool" where
  "field_value_byte byte \<longleftrightarrow> byte = 0x09 \<or> \<not> (byte < 0x20 \<or> byte = 0x7f)"

definition ows_byte :: "u8 \<Rightarrow> bool" where
  "ows_byte v \<longleftrightarrow> v = 0x20 \<or> v = 0x09"

definition uri_unreserved_char :: "u8 \<Rightarrow> bool" where
  "uri_unreserved_char v \<longleftrightarrow> alnum_char v \<or> v = ascii CHR ''-'' \<or> v = ascii CHR ''.'' \<or> v = ascii CHR ''_'' \<or>
     v = ascii CHR ''~''"

definition uri_sub_delim_char :: "u8 \<Rightarrow> bool" where
  "uri_sub_delim_char v \<longleftrightarrow> v \<in> set (ascii_bytes (''!$&'' @ [CHR 0x27] @ ''()*+,;=''))"

definition hex_digit :: "u8 \<Rightarrow> bool" where
  "hex_digit v \<longleftrightarrow> digit_char v \<or> (ascii CHR ''A'' \<le> v \<and> v \<le> ascii CHR ''F'') \<or>
     (ascii CHR ''a'' \<le> v \<and> v \<le> ascii CHR ''f'')"

section \<open>The code: host values\<close>

definition uri_pct_encoded_at :: "u8 list \<Rightarrow> bool" where
  "uri_pct_encoded_at rest \<longleftrightarrow> length rest > 2 \<and> rest ! 0 = percent \<and> hex_digit (rest ! 1) \<and> hex_digit (rest ! 2)"

fun reg_name_loop :: "u8 list \<Rightarrow> bool" where
  "reg_name_loop [] = True"
| "reg_name_loop (byte # rest) =
     (if uri_unreserved_char byte \<or> uri_sub_delim_char byte then reg_name_loop rest
      else if byte = percent \<and> uri_pct_encoded_at (byte # rest) then reg_name_loop (drop 2 rest)
      else False)"

definition reg_name_valid :: "u8 list \<Rightarrow> bool" where
  "reg_name_valid bytes \<longleftrightarrow> bytes \<noteq> [] \<and> reg_name_loop bytes"

fun octet_number :: "nat \<Rightarrow> u8 list \<Rightarrow> nat option" where
  "octet_number number [] = Some number"
| "octet_number number (byte # rest) =
     (if digit_char byte then octet_number (number * 10 + unat (byte - ascii CHR ''0'')) rest else None)"

definition ipv4_octet_valid :: "u8 list \<Rightarrow> bool" where
  "ipv4_octet_valid bytes =
     (if bytes = [] \<or> length bytes > 3 then False
      else if length bytes > 1 \<and> hd bytes = ascii CHR ''0'' then False
      else (case octet_number 0 bytes of None \<Rightarrow> False | Some number \<Rightarrow> number \<le> 255))"

text \<open>\<open>part\<close> holds the bytes from \<open>start\<close> to the current index.\<close>

fun ipv4_loop :: "u8 list \<Rightarrow> u8 list \<Rightarrow> nat \<Rightarrow> bool" where
  "ipv4_loop [] part parts =
     (if parts \<ge> 4 \<or> \<not> ipv4_octet_valid part then False else parts + 1 = 4)"
| "ipv4_loop (byte # rest) part parts =
     (if byte \<noteq> dot then ipv4_loop rest (part @ [byte]) parts
      else if parts \<ge> 4 \<or> \<not> ipv4_octet_valid part then False
      else ipv4_loop rest [] (parts + 1))"

definition ipv4_address_valid :: "u8 list \<Rightarrow> bool" where
  "ipv4_address_valid bytes \<longleftrightarrow> bytes \<noteq> [] \<and> ipv4_loop bytes [] 0"

definition h16_valid :: "u8 list \<Rightarrow> bool" where
  "h16_valid bytes \<longleftrightarrow> bytes \<noteq> [] \<and> length bytes \<le> 4 \<and> list_all hex_digit bytes"

definition ipv6_final :: "nat \<Rightarrow> bool \<Rightarrow> bool" where
  "ipv6_final groups compressed \<longleftrightarrow> (if compressed then groups < 8 else groups = 8)"

function ipv6_loop :: "u8 list \<Rightarrow> nat \<Rightarrow> bool \<Rightarrow> bool" where
  "ipv6_loop rest groups compressed =
     (if rest = [] then ipv6_final groups compressed
      else
        let segment = takeWhile (\<lambda>b. b \<noteq> colon) rest; after = dropWhile (\<lambda>b. b \<noteq> colon) rest
        in if segment = [] then False
           else if dot \<in> set segment
             then (if after \<noteq> [] \<or> \<not> ipv4_address_valid segment \<or> groups > 6 then False
                   else ipv6_final (groups + 2) compressed)
           else if \<not> h16_valid segment \<or> groups \<ge> 8 then False
           else if after = [] then ipv6_final (groups + 1) compressed
           else if tl after = [] then False
           else if hd (tl after) = colon
             then (if compressed then False
                   else if tl (tl after) = [] then ipv6_final (groups + 1) True
                   else ipv6_loop (tl (tl after)) (groups + 1) True)
           else ipv6_loop (tl after) (groups + 1) compressed)"
  by pat_completeness auto

lemma length_tl_dropWhile: "xs \<noteq> [] \<Longrightarrow> length (tl (dropWhile P xs)) < length xs"
  using length_dropWhile_le [of P xs] by (cases xs) (auto simp: less_Suc_eq_le)

termination ipv6_loop
proof (relation "measure (\<lambda>(rest, _, _). length rest)")
  fix rest segment after :: "u8 list" and groups and compressed
  assume rest: "rest \<noteq> []" and after: "after = dropWhile (\<lambda>b. b \<noteq> colon) rest"
  show "((tl (tl after), groups + 1, True), rest, groups, compressed) \<in> measure (\<lambda>(rest, _, _). length rest)"
    and "((tl after, groups + 1, compressed), rest, groups, compressed) \<in> measure (\<lambda>(rest, _, _). length rest)"
    using length_tl_dropWhile [OF rest, of "\<lambda>b. b \<noteq> colon"] unfolding after by (auto intro: le_less_trans)
qed simp

declare ipv6_loop.simps [simp del]

definition ipv6_address_valid :: "u8 list \<Rightarrow> bool" where
  "ipv6_address_valid bytes =
     (if bytes = [] then False
      else if length bytes \<ge> 2 \<and> bytes ! 0 = colon \<and> bytes ! 1 = colon
        then (if length bytes = 2 then True else ipv6_loop (drop 2 bytes) 0 True)
      else if bytes ! 0 = colon then False
      else ipv6_loop bytes 0 False)"

definition ipvfuture_valid :: "u8 list \<Rightarrow> bool" where
  "ipvfuture_valid bytes =
     (if length bytes < 4 \<or> (hd bytes \<noteq> ascii CHR ''v'' \<and> hd bytes \<noteq> ascii CHR ''V'') then False
      else
        let version = takeWhile hex_digit (tl bytes); after = dropWhile hex_digit (tl bytes)
        in if version = [] \<or> after = [] \<or> hd after \<noteq> dot then False
           else if tl after = [] then False
           else list_all (\<lambda>b. uri_unreserved_char b \<or> uri_sub_delim_char b \<or> b = colon) (tl after))"

definition ip_literal_valid :: "u8 list \<Rightarrow> bool" where
  "ip_literal_valid bytes \<longleftrightarrow> bytes \<noteq> [] \<and> (ipvfuture_valid bytes \<or> ipv6_address_valid bytes)"

definition host_port_valid :: "u8 list \<Rightarrow> bool" where
  "host_port_valid rest =
     (if rest = [] then True else if hd rest \<noteq> colon then False else list_all digit_char (tl rest))"

definition host_bytes_valid :: "u8 list \<Rightarrow> bool" where
  "host_bytes_valid bytes =
     (if bytes = [] then False
      else if hd bytes = open_bracket
        then
          let literal = takeWhile (\<lambda>b. b \<noteq> close_bracket) (tl bytes);
              after = dropWhile (\<lambda>b. b \<noteq> close_bracket) (tl bytes)
          in if after = [] \<or> literal = [] \<or> \<not> ip_literal_valid literal then False
             else host_port_valid (tl after)
      else
        let name = takeWhile (\<lambda>b. b \<noteq> colon) bytes
        in if \<not> reg_name_valid name then False else host_port_valid (dropWhile (\<lambda>b. b \<noteq> colon) bytes))"

section \<open>The addresses of RFC 3986\<close>

definition digit_byte :: "nat \<Rightarrow> u8" where
  "digit_byte d = of_nat (48 + d)"

fun decimal :: "nat \<Rightarrow> u8 list" where
  "decimal n = (if n < 10 then [digit_byte n] else decimal (n div 10) @ [digit_byte (n mod 10)])"

declare decimal.simps [simp del]

text \<open>\<open>IPv4address\<close>: four decimal numbers up to 255, written without leading zeros.\<close>

definition rfc_ipv4 :: "u8 list \<Rightarrow> bool" where
  "rfc_ipv4 bytes \<longleftrightarrow> (\<exists>a b c d. a \<le> 255 \<and> b \<le> 255 \<and> c \<le> 255 \<and> d \<le> 255 \<and>
     bytes = decimal a @ dot # decimal b @ dot # decimal c @ dot # decimal d)"

fun joined :: "u8 \<Rightarrow> u8 list list \<Rightarrow> u8 list" where
  "joined sep [] = []"
| "joined sep (g # gs) = (if gs = [] then g else g @ sep # joined sep gs)"

text \<open>\<open>h16\<close>: one to four of the characters of \<open>HEXDIG\<close>, in either case.\<close>

definition rfc_hexdig :: "u8 list" where
  "rfc_hexdig = ascii_bytes ''0123456789ABCDEFabcdef''"

definition rfc_h16 :: "u8 list \<Rightarrow> bool" where
  "rfc_h16 bytes \<longleftrightarrow> length bytes \<in> {1, 2, 3, 4} \<and> set bytes \<subseteq> set rfc_hexdig"

text \<open>A list of groups that stands for \<open>n\<close> 16-bit pieces: only the last may be an IPv4 address, of two pieces.\<close>

fun ipv6_pieces :: "u8 list list \<Rightarrow> nat \<Rightarrow> bool" where
  "ipv6_pieces [] n \<longleftrightarrow> n = 0"
| "ipv6_pieces (g # gs) n \<longleftrightarrow>
     (rfc_h16 g \<and> 0 < n \<and> ipv6_pieces gs (n - 1)) \<or> (gs = [] \<and> rfc_ipv4 g \<and> n = 2)"

text \<open>\<open>IPv6address\<close>: eight pieces, or \<open>::\<close> for at least one missing piece between two lists of pieces.\<close>

definition rfc_ipv6 :: "u8 list \<Rightarrow> bool" where
  "rfc_ipv6 bytes \<longleftrightarrow>
     (\<exists>gs. bytes = joined colon gs \<and> ipv6_pieces gs 8) \<or>
     (\<exists>ls rs n. bytes = joined colon ls @ colon # colon # joined colon rs \<and> list_all rfc_h16 ls \<and>
       ipv6_pieces rs n \<and> length ls + n \<le> 7)"

section \<open>IPv4\<close>

lemma ascii_digits [simp]: "ascii CHR ''0'' = 48" "ascii CHR ''9'' = 57"
  by (simp_all add: ascii_def)

lemma unat_digit_byte: "d < 10 \<Longrightarrow> unat (digit_byte d) = 48 + d"
  unfolding digit_byte_def by (rule unat_of_nat_u8) simp

lemma digit_char_iff: "digit_char v \<longleftrightarrow> (\<exists>d < 10. v = digit_byte d)"
proof
  assume "digit_char v"
  then have "48 \<le> unat v" "unat v \<le> 57" by (simp_all add: digit_char_def word_le_nat_alt)
  then show "\<exists>d < 10. v = digit_byte d" by (intro exI [of _ "unat v - 48"]) (simp add: digit_byte_def)
next
  assume "\<exists>d < 10. v = digit_byte d"
  then obtain d where "d < 10" "v = digit_byte d" by blast
  then have "unat v = 48 + d" by (simp add: unat_digit_byte)
  then show "digit_char v" using \<open>d < 10\<close> by (simp add: digit_char_def word_le_nat_alt)
qed

lemma digit_value: "d < 10 \<Longrightarrow> unat (digit_byte d - 48) = d"
  by (simp add: digit_byte_def unat_of_nat)

lemma octet_number_digits:
  "octet_number k (map digit_byte ds) = Some (fold (\<lambda>d n. n * 10 + d) ds k)" if "list_all (\<lambda>d. d < 10) ds"
  using that
proof (induction ds arbitrary: k)
  case (Cons d ds)
  have "digit_char (digit_byte d)" using Cons.prems digit_char_iff by auto
  then show ?case using Cons digit_value [of d] by simp
qed simp

lemma octet_number_Some:
  "octet_number k bytes = Some n \<Longrightarrow>
   \<exists>ds. list_all (\<lambda>d. d < 10) ds \<and> bytes = map digit_byte ds \<and> n = fold (\<lambda>d n. n * 10 + d) ds k"
proof (induction k bytes rule: octet_number.induct)
  case (2 k byte rest)
  then have "digit_char byte" by (auto split: if_splits)
  then obtain d where d: "d < 10" "byte = digit_byte d" using digit_char_iff by blast
  have "octet_number (k * 10 + unat (byte - ascii CHR ''0'')) rest = Some n" using 2 by (auto split: if_splits)
  then obtain ds where "list_all (\<lambda>d. d < 10) ds" "rest = map digit_byte ds"
    "n = fold (\<lambda>d n. n * 10 + d) ds (k * 10 + d)"
    using 2(1) \<open>digit_char byte\<close> d digit_value [of d] by auto
  then show ?case using d by (intro exI [of _ "d # ds"]) simp
qed (auto intro: exI [of _ "[]"])

lemma decimal_small:
  "n < 10 \<Longrightarrow> decimal n = map digit_byte [n]"
  "10 \<le> n \<Longrightarrow> n < 100 \<Longrightarrow> decimal n = map digit_byte [n div 10, n mod 10]"
  "100 \<le> n \<Longrightarrow> n < 1000 \<Longrightarrow> decimal n = map digit_byte [n div 100, n div 10 mod 10, n mod 10]"
  using decimal.simps [of n] decimal.simps [of "n div 10"] decimal.simps [of "n div 100"] div_mult2_eq [of n 10 10]
  by auto

lemma of_nat_digit_eq: "d < 10 \<Longrightarrow> digit_byte d = 48 \<longleftrightarrow> d = 0"
  by (simp add: word_unat_eq_iff unat_digit_byte)

lemma short_list:
  "xs \<noteq> [] \<Longrightarrow> length xs \<le> 3 \<Longrightarrow> (\<exists>a. xs = [a]) \<or> (\<exists>a b. xs = [a, b]) \<or> (\<exists>a b c. xs = [a, b, c])"
  by (auto simp: le_Suc_eq numeral_3_eq_3 length_Suc_conv)

lemma three_digits:
  fixes a b c :: nat
  assumes "b < 10" and "c < 10" and n: "n = a * 100 + b * 10 + c"
  shows "n div 100 = a" and "n div 10 mod 10 = b" and "n mod 10 = c"
proof -
  have n': "n = c + (b + a * 10) * 10" using n by simp
  have digit: "(c + k * 10) div 10 = k \<and> (c + k * 10) mod 10 = c" for k using assms(2) by simp
  have tens: "n div 10 = b + a * 10" and "n mod 10 = c"
    unfolding n' using digit [of "b + a * 10"] by blast+
  then show "n div 10 mod 10 = b" and "n mod 10 = c" using assms(1) by simp_all
  have "n div 100 = n div 10 div 10" by (simp add: div_mult2_eq [symmetric])
  then show "n div 100 = a" using tens assms(1) by simp
qed

text \<open>An octet is a decimal numeral of a number up to 255.\<close>

lemma ipv4_octet_valid_iff: "ipv4_octet_valid bytes \<longleftrightarrow> (\<exists>n \<le> 255. bytes = decimal n)"
proof
  assume valid: "ipv4_octet_valid bytes"
  then obtain n where "octet_number 0 bytes = Some n" "n \<le> 255"
    by (auto simp: ipv4_octet_valid_def split: if_splits option.splits)
  then obtain ds where ds: "list_all (\<lambda>d. d < 10) ds" "bytes = map digit_byte ds"
    and n: "n = fold (\<lambda>d n. n * 10 + d) ds 0" "n \<le> 255"
    using octet_number_Some by blast
  have "ds \<noteq> []" "length ds \<le> 3" and lead: "1 < length ds \<Longrightarrow> hd bytes \<noteq> 48"
    using valid ds(2) by (auto simp: ipv4_octet_valid_def split: if_splits)
  then consider a where "ds = [a]" | a b where "ds = [a, b]" | a b c where "ds = [a, b, c]"
    using short_list by blast
  then have "bytes = decimal n"
  proof cases
    case 1
    then show ?thesis using ds n by (simp add: decimal_small(1))
  next
    case (2 a b)
    then have "a \<noteq> 0" "a < 10" "b < 10" using ds lead of_nat_digit_eq [of a] by auto
    then show ?thesis using 2 ds n decimal_small(2) [of n] by simp
  next
    case (3 a b c)
    then have "a \<noteq> 0" "a < 10" "b < 10" "c < 10" using ds lead of_nat_digit_eq [of a] by auto
    moreover have "n = a * 100 + b * 10 + c" using 3 n by simp
    ultimately have "n div 100 = a" "n div 10 mod 10 = b" "n mod 10 = c"
      using three_digits [of b c n a] by blast+
    with \<open>a \<noteq> 0\<close> \<open>a < 10\<close> show ?thesis using 3 ds n decimal_small(3) [of n] by simp
  qed
  then show "\<exists>n \<le> 255. bytes = decimal n" using n by blast
next
  assume "\<exists>n \<le> 255. bytes = decimal n"
  then obtain n where n: "n \<le> 255" "bytes = decimal n" by blast
  consider "n < 10" | "10 \<le> n" "n < 100" | "100 \<le> n" "n < 1000" using n by linarith
  then show "ipv4_octet_valid bytes"
  proof cases
    case 1
    then show ?thesis using n octet_number_digits [of "[n]" 0] by (simp add: ipv4_octet_valid_def decimal_small(1))
  next
    case 2
    then have "digit_byte (n div 10) \<noteq> 48" by (subst of_nat_digit_eq) auto
    then show ?thesis using 2 n octet_number_digits [of "[n div 10, n mod 10]" 0]
      by (simp add: ipv4_octet_valid_def decimal_small(2))
  next
    case 3
    then have "digit_byte (n div 100) \<noteq> 48" by (subst of_nat_digit_eq) auto
    moreover have "(n div 100 * 10 + n div 10 mod 10) * 10 + n mod 10 = n"
      using div_mod_decomp [of n 10] div_mod_decomp [of "n div 10" 10] div_mult2_eq [of n 10 10] by simp
    ultimately show ?thesis using 3 n octet_number_digits [of "[n div 100, n div 10 mod 10, n mod 10]" 0]
      by (simp add: ipv4_octet_valid_def decimal_small(3))
  qed
qed

lemma octet_digits: "ipv4_octet_valid bytes \<Longrightarrow> bytes \<noteq> [] \<and> list_all digit_char bytes"
proof -
  assume valid: "ipv4_octet_valid bytes"
  then obtain n where "octet_number 0 bytes = Some n"
    by (auto simp: ipv4_octet_valid_def split: if_splits option.splits)
  then show ?thesis
    using octet_number_Some [of 0 bytes n] digit_char_iff valid
    by (auto simp: ipv4_octet_valid_def list_all_iff split: if_splits)
qed

lemma joined_free:
  assumes "sep \<notin> set x" and "gs \<noteq> []"
  shows "x = joined sep gs \<longleftrightarrow> gs = [x]"
  using assms by (cases gs) auto

lemma joined_single:
  assumes "sep \<notin> set x"
  shows "(\<exists>gs. gs \<noteq> [] \<and> x = joined sep gs \<and> P gs) \<longleftrightarrow> P [x]"
proof
  assume "\<exists>gs. gs \<noteq> [] \<and> x = joined sep gs \<and> P gs"
  then obtain gs where "gs \<noteq> []" "x = joined sep gs" "P gs" by blast
  moreover from this have "gs = [x]" using joined_free [OF assms, of gs] by blast
  ultimately show "P [x]" by metis
next
  assume "P [x]"
  then show "\<exists>gs. gs \<noteq> [] \<and> x = joined sep gs \<and> P gs" by (intro exI [of _ "[x]"]) simp
qed

lemma split_at_sep:
  "sep \<notin> set x \<Longrightarrow> sep \<notin> set g \<Longrightarrow> x @ sep # rest = g @ sep # ys \<longleftrightarrow> x = g \<and> rest = ys"
proof (induction x arbitrary: g)
  case Nil
  then show ?case by (cases g) auto
next
  case (Cons a x)
  then show ?case by (cases g) auto
qed

lemma joined_sep:
  assumes "sep \<notin> set x" and "\<forall>g\<in>set gs. sep \<notin> set g" and "gs \<noteq> []"
  shows "x @ sep # rest = joined sep gs \<longleftrightarrow> (\<exists>gs'. gs = x # gs' \<and> gs' \<noteq> [] \<and> rest = joined sep gs')"
proof (cases gs)
  case (Cons g gs')
  have g: "sep \<notin> set g" using assms(2) Cons by simp
  have last: "x @ sep # rest \<noteq> g" using g by auto
  have more: "x @ sep # rest = g @ sep # ys \<longleftrightarrow> x = g \<and> rest = ys" for ys
    using split_at_sep [OF assms(1) g] .
  show ?thesis using Cons last more by (cases gs') auto
qed (use assms(3) in simp)

text \<open>The separators are neither digits nor hexadecimal digits.\<close>

lemma separator_chars [simp]:
  "\<not> digit_char dot" "\<not> digit_char colon" "\<not> hex_digit dot" "\<not> hex_digit colon"
  by (simp_all add: digit_char_def hex_digit_def ascii_def)

lemma list_all_free: "list_all P xs \<Longrightarrow> \<not> P x \<Longrightarrow> x \<notin> set xs"
  by (auto simp: list_all_iff)

lemma octet_free: "ipv4_octet_valid g \<Longrightarrow> dot \<notin> set g" "ipv4_octet_valid g \<Longrightarrow> colon \<notin> set g"
  using octet_digits [of g] list_all_free [of digit_char g dot] list_all_free [of digit_char g colon]
  by simp_all

lemma ipv4_loop_iff:
  assumes "dot \<notin> set part" and "parts \<le> 4"
  shows "ipv4_loop rest part parts \<longleftrightarrow>
    (\<exists>gs. gs \<noteq> [] \<and> part @ rest = joined dot gs \<and> list_all ipv4_octet_valid gs \<and> parts + length gs = 4)"
  using assms
proof (induction rest part parts rule: ipv4_loop.induct)
  case (1 part parts)
  have "(\<exists>gs. gs \<noteq> [] \<and> part @ [] = joined dot gs \<and> list_all ipv4_octet_valid gs \<and> parts + length gs = 4) \<longleftrightarrow>
      ipv4_octet_valid part \<and> parts + 1 = 4"
    using joined_single [OF "1.prems"(1), of "\<lambda>gs. list_all ipv4_octet_valid gs \<and> parts + length gs = 4"] by simp
  then show ?case by auto
next
  case (2 byte rest part parts)
  show ?case
  proof (cases "byte = dot")
    case False
    then show ?thesis using 2 by simp
  next
    case True
    have "(\<exists>gs. gs \<noteq> [] \<and> part @ dot # rest = joined dot gs \<and> list_all ipv4_octet_valid gs \<and> parts + length gs = 4) \<longleftrightarrow>
        ipv4_octet_valid part \<and>
        (\<exists>gs. gs \<noteq> [] \<and> rest = joined dot gs \<and> list_all ipv4_octet_valid gs \<and> parts + 1 + length gs = 4)" (is "?L = ?R")
    proof
      assume ?L
      then obtain gs where gs: "gs \<noteq> []" "part @ dot # rest = joined dot gs" "list_all ipv4_octet_valid gs"
        "parts + length gs = 4" by blast
      then have "\<forall>g\<in>set gs. dot \<notin> set g" using octet_free(1) by (auto simp: list_all_iff)
      then show ?R using gs joined_sep [OF "2.prems"(1) _ gs(1)] by auto
    next
      assume ?R
      then obtain gs where "gs \<noteq> []" "rest = joined dot gs" "list_all ipv4_octet_valid gs" "parts + 1 + length gs = 4"
        "ipv4_octet_valid part" by blast
      then show ?L by (intro exI [of _ "part # gs"]) simp
    qed
    moreover have "gs \<noteq> [] \<Longrightarrow> parts + 1 + length gs = 4 \<Longrightarrow> parts < 4" for gs :: "u8 list list" by simp
    ultimately show ?thesis using True 2 by (cases "parts \<ge> 4 \<or> \<not> ipv4_octet_valid part") auto
  qed
qed

lemma length_4: "length gs = 4 \<Longrightarrow> \<exists>a b c d. gs = [a, b, c, d]"
  by (auto simp: numeral_eq_Suc length_Suc_conv)

theorem ipv4_address_valid_iff: "ipv4_address_valid bytes \<longleftrightarrow> rfc_ipv4 bytes"
proof -
  have "ipv4_address_valid bytes \<longleftrightarrow>
      (\<exists>gs. bytes = joined dot gs \<and> list_all ipv4_octet_valid gs \<and> length gs = 4)"
    (is "_ = ?R")
  proof (cases "bytes = []")
    case True
    have "length gs = 4 \<Longrightarrow> [] \<noteq> joined dot gs" for gs using length_4 [of gs] by auto
    then show ?thesis using True by (auto simp: ipv4_address_valid_def)
  next
    case False
    then have "ipv4_address_valid bytes \<longleftrightarrow>
        (\<exists>gs. gs \<noteq> [] \<and> bytes = joined dot gs \<and> list_all ipv4_octet_valid gs \<and> length gs = 4)"
      using ipv4_loop_iff [of "[]" 0 bytes] by (simp add: ipv4_address_valid_def)
    then show ?thesis by (metis list.size(3) zero_neq_numeral)
  qed
  also have "\<dots> \<longleftrightarrow> rfc_ipv4 bytes"
  proof
    assume "\<exists>gs. bytes = joined dot gs \<and> list_all ipv4_octet_valid gs \<and> length gs = 4"
    then obtain a b c d where "bytes = joined dot [a, b, c, d]" "list_all ipv4_octet_valid [a, b, c, d]"
      using length_4 by blast
    then show "rfc_ipv4 bytes" by (auto simp: rfc_ipv4_def ipv4_octet_valid_iff)
  next
    assume "rfc_ipv4 bytes"
    then obtain a b c d where "a \<le> 255" "b \<le> 255" "c \<le> 255" "d \<le> 255"
      "bytes = joined dot [decimal a, decimal b, decimal c, decimal d]" by (auto simp: rfc_ipv4_def)
    then show "\<exists>gs. bytes = joined dot gs \<and> list_all ipv4_octet_valid gs \<and> length gs = 4"
      by (intro exI [of _ "[decimal a, decimal b, decimal c, decimal d]"]) (auto simp: ipv4_octet_valid_iff)
  qed
  finally show ?thesis .
qed

section \<open>IPv6\<close>

text \<open>The ranges of the code are the characters of the grammar.\<close>

lemma between_iff: "(lo :: u8) \<le> v \<and> v \<le> hi \<longleftrightarrow> unat v \<in> set [unat lo..<Suc (unat hi)]"
  by (auto simp: word_le_nat_alt)

lemma member_unat: "(v :: u8) \<in> set xs \<longleftrightarrow> unat v \<in> set (map unat xs)"
  by (auto simp: word_unat_eq_iff) (metis word_unat_eq_iff)

lemma hex_digit_iff: "hex_digit v \<longleftrightarrow> v \<in> set rfc_hexdig"
  unfolding hex_digit_def digit_char_def rfc_hexdig_def between_iff member_unat
  by (simp add: ascii_def)

lemma h16_valid_iff [simp]: "h16_valid bytes \<longleftrightarrow> rfc_h16 bytes"
proof -
  have "bytes \<noteq> [] \<and> length bytes \<le> 4 \<longleftrightarrow> length bytes \<in> {1, 2, 3, 4}"
    unfolding length_greater_0_conv [symmetric] insert_iff empty_iff by presburger
  then show ?thesis by (auto simp: h16_valid_def rfc_h16_def hex_digit_iff list_all_iff)
qed

lemma rfc_ipv4_chars:
  assumes "rfc_ipv4 g"
  shows "dot \<in> set g" and "colon \<notin> set g" and "g \<noteq> []"
proof -
  have "colon \<notin> set (decimal n)" if "n \<le> 255" for n
    using octet_free(2) [of "decimal n"] that ipv4_octet_valid_iff [of "decimal n"] by (metis)
  then show "dot \<in> set g" and "colon \<notin> set g" and "g \<noteq> []"
    using assms by (auto simp: rfc_ipv4_def)
qed

lemma h16_chars:
  assumes "rfc_h16 g"
  shows "dot \<notin> set g" and "colon \<notin> set g" and "g \<noteq> []"
  using assms list_all_free [of hex_digit g dot] list_all_free [of hex_digit g colon]
  unfolding h16_valid_iff [symmetric] by (simp_all add: h16_valid_def del: h16_valid_iff)

lemma ipv6_pieces_free: "ipv6_pieces gs n \<Longrightarrow> \<forall>g\<in>set gs. colon \<notin> set g \<and> g \<noteq> []"
proof (induction gs arbitrary: n)
  case (Cons g gs)
  then consider "rfc_h16 g" "ipv6_pieces gs (n - 1)" | "rfc_ipv4 g" "gs = []" by auto
  then show ?case using Cons.IH h16_chars [of g] rfc_ipv4_chars [of g] by cases simp_all
qed simp

lemma joined_first:
  assumes "gs \<noteq> []" and "\<forall>g\<in>set gs. colon \<notin> set g \<and> g \<noteq> []"
  shows "joined colon gs \<noteq> []" and "hd (joined colon gs) \<noteq> colon"
proof -
  obtain g gs' where gs: "gs = g # gs'" using assms(1) by (cases gs) auto
  then have g: "g \<noteq> []" "colon \<notin> set g" using assms(2) by simp_all
  then have "hd g \<noteq> colon" using hd_in_set [of g] by metis
  then show "joined colon gs \<noteq> []" and "hd (joined colon gs) \<noteq> colon"
    using gs g(1) by (simp_all add: hd_append)
qed

lemma take_drop_segment:
  assumes "takeWhile (\<lambda>b. b \<noteq> colon) rest = segment" and "dropWhile (\<lambda>b. b \<noteq> colon) rest = after"
  shows "rest = segment @ after" and "colon \<notin> set segment" and "after \<noteq> [] \<Longrightarrow> after = colon # tl after"
proof -
  show "rest = segment @ after" using takeWhile_dropWhile_id [of "\<lambda>b. b \<noteq> colon" rest] assms by simp
  show "colon \<notin> set segment" unfolding assms(1) [symmetric] by (auto dest: set_takeWhileD)
  show "after = colon # tl after" if "after \<noteq> []"
  proof -
    have "hd after = colon" using hd_dropWhile [of "\<lambda>b. b \<noteq> colon" rest] that assms(2) by blast
    then show ?thesis using that list.collapse [of after] by simp
  qed
qed

definition pieces_of :: "u8 list \<Rightarrow> nat \<Rightarrow> bool" where
  "pieces_of rest n \<longleftrightarrow> (\<exists>gs. gs \<noteq> [] \<and> rest = joined colon gs \<and> ipv6_pieces gs n)"

text \<open>The last segment, and a segment followed by a colon.\<close>

lemma pieces_of_last:
  assumes "colon \<notin> set segment"
  shows "pieces_of segment n \<longleftrightarrow> (rfc_h16 segment \<and> n = 1) \<or> (rfc_ipv4 segment \<and> n = 2)"
  unfolding pieces_of_def joined_single [OF assms] by auto

lemma pieces_of_more:
  assumes "colon \<notin> set segment"
  shows "pieces_of (segment @ colon # rest) n \<longleftrightarrow> rfc_h16 segment \<and> 0 < n \<and> pieces_of rest (n - 1)"
proof
  assume "pieces_of (segment @ colon # rest) n"
  then obtain gs where gs: "gs \<noteq> []" "segment @ colon # rest = joined colon gs" "ipv6_pieces gs n"
    by (auto simp: pieces_of_def)
  then obtain gs' where "gs = segment # gs'" "gs' \<noteq> []" "rest = joined colon gs'"
    using joined_sep [OF assms _ gs(1), of rest] ipv6_pieces_free [OF gs(3)] by auto
  then show "rfc_h16 segment \<and> 0 < n \<and> pieces_of rest (n - 1)" using gs(3) by (auto simp: pieces_of_def)
next
  assume *: "rfc_h16 segment \<and> 0 < n \<and> pieces_of rest (n - 1)"
  then obtain gs where "gs \<noteq> []" "rest = joined colon gs" "ipv6_pieces gs (n - 1)" by (auto simp: pieces_of_def)
  then show "pieces_of (segment @ colon # rest) n"
    unfolding pieces_of_def using * by (intro exI [of _ "segment # gs"]) simp
qed

lemma pieces_of_start: "pieces_of rest n \<Longrightarrow> rest \<noteq> [] \<and> hd rest \<noteq> colon \<and> 0 < n"
proof -
  assume "pieces_of rest n"
  then obtain gs where "gs \<noteq> []" "rest = joined colon gs" "ipv6_pieces gs n" by (auto simp: pieces_of_def)
  then show ?thesis using joined_first [of gs] ipv6_pieces_free [of gs n] by (cases gs) auto
qed

lemma ex_shift:
  "(\<exists>n::nat. (A \<and> 0 < n \<and> P (n - 1)) \<and> Q (k + n)) \<longleftrightarrow> A \<and> (\<exists>n. P n \<and> Q (k + 1 + n))"
proof
  assume "\<exists>n. (A \<and> 0 < n \<and> P (n - 1)) \<and> Q (k + n)"
  then obtain n where n: "A" "0 < n" "P (n - 1)" "Q (k + n)" by blast
  moreover have "k + 1 + (n - 1) = k + n" using n(2) by simp
  ultimately show "A \<and> (\<exists>n. P n \<and> Q (k + 1 + n))" by metis
next
  assume "A \<and> (\<exists>n. P n \<and> Q (k + 1 + n))"
  then obtain n where "A" "P n" "Q (k + 1 + n)" by blast
  then show "\<exists>n. (A \<and> 0 < n \<and> P (n - 1)) \<and> Q (k + n)" by (intro exI [of _ "Suc n"]) simp
qed

lemma ipv6_loop_compressed:
  "rest \<noteq> [] \<Longrightarrow> compressed \<Longrightarrow>
     ipv6_loop rest groups compressed \<longleftrightarrow> (\<exists>n. pieces_of rest n \<and> groups + n \<le> 7)"
proof (induction rest groups compressed rule: ipv6_loop.induct)
  case (1 rest groups compressed)
  define segment where "segment = takeWhile (\<lambda>b. b \<noteq> colon) rest"
  define after where "after = dropWhile (\<lambda>b. b \<noteq> colon) rest"
  note parts = take_drop_segment [OF segment_def [symmetric] after_def [symmetric]]
  have loop: "ipv6_loop rest groups compressed \<longleftrightarrow> segment \<noteq> [] \<and>
      (if dot \<in> set segment then after = [] \<and> rfc_ipv4 segment \<and> groups + 2 \<le> 7
       else rfc_h16 segment \<and> groups < 8 \<and> (if after = [] then groups + 1 \<le> 7
         else tl after \<noteq> [] \<and> hd (tl after) \<noteq> colon \<and> ipv6_loop (tl after) (groups + 1) compressed))"
    using "1.prems" by (subst ipv6_loop.simps)
      (auto simp: Let_def ipv6_final_def ipv4_address_valid_iff segment_def [symmetric] after_def [symmetric])
  show ?case
  proof (cases "after = []")
    case True
    then have "rest = segment" using parts(1) by simp
    have last: "(\<exists>n. pieces_of rest n \<and> groups + n \<le> 7) \<longleftrightarrow>
        (rfc_h16 segment \<and> groups + 1 \<le> 7) \<or> (rfc_ipv4 segment \<and> groups + 2 \<le> 7)"
      unfolding \<open>rest = segment\<close> pieces_of_last [OF parts(2)] by blast
    show ?thesis
    proof (cases "dot \<in> set segment")
      case True
      then show ?thesis unfolding loop last using \<open>after = []\<close> h16_chars(1) [of segment] by auto
    next
      case False
      then show ?thesis
        unfolding loop last using \<open>after = []\<close> h16_chars(3) [of segment] rfc_ipv4_chars(1) [of segment] by auto
    qed
  next
    case False
    let ?t = "tl after"
    have rest: "rest = segment @ colon # ?t" using parts(1,3) False by simp
    have pieces: "pieces_of rest n \<longleftrightarrow> rfc_h16 segment \<and> 0 < n \<and> pieces_of ?t (n - 1)" for n
      using pieces_of_more [OF parts(2)] rest by metis
    have shift: "(\<exists>n. pieces_of rest n \<and> groups + n \<le> 7) \<longleftrightarrow>
        rfc_h16 segment \<and> (\<exists>n. pieces_of ?t n \<and> groups + 1 + n \<le> 7)"
      unfolding pieces by (rule ex_shift)
    have IH: "segment \<noteq> [] \<Longrightarrow> dot \<notin> set segment \<Longrightarrow> rfc_h16 segment \<Longrightarrow> groups < 8 \<Longrightarrow> ?t \<noteq> [] \<Longrightarrow>
        hd ?t \<noteq> colon \<Longrightarrow>
        ipv6_loop ?t (groups + 1) compressed \<longleftrightarrow> (\<exists>n. pieces_of ?t n \<and> groups + 1 + n \<le> 7)"
      using "1.IH"(2) [OF "1.prems"(1) segment_def after_def] False "1.prems" by simp
    show ?thesis
      unfolding loop shift using False IH h16_chars [of segment] pieces_of_start [of ?t] by auto
  qed
qed

text \<open>The pieces on both sides of \<open>::\<close>, the left side not empty.\<close>

definition halves_of :: "u8 list \<Rightarrow> nat \<Rightarrow> bool" where
  "halves_of rest n \<longleftrightarrow> (\<exists>ls rs m. ls \<noteq> [] \<and> rest = joined colon ls @ colon # colon # joined colon rs \<and>
     list_all rfc_h16 ls \<and> ipv6_pieces rs m \<and> n = length ls + m)"

lemma tail_pieces: "(\<exists>rs. rest = joined colon rs \<and> ipv6_pieces rs m) \<longleftrightarrow> (rest = [] \<and> m = 0) \<or> pieces_of rest m"
proof
  assume "\<exists>rs. rest = joined colon rs \<and> ipv6_pieces rs m"
  then obtain rs where rs: "rest = joined colon rs" "ipv6_pieces rs m" by blast
  show "(rest = [] \<and> m = 0) \<or> pieces_of rest m"
  proof (cases rs)
    case (Cons r rs')
    then have "pieces_of rest m" unfolding pieces_of_def using rs by (intro exI [of _ rs]) simp
    then show ?thesis ..
  qed (use rs in simp)
next
  assume "(rest = [] \<and> m = 0) \<or> pieces_of rest m"
  then show "\<exists>rs. rest = joined colon rs \<and> ipv6_pieces rs m"
    by (auto simp: pieces_of_def intro: exI [of _ "[]"])
qed

lemma halves_of_last:
  assumes "colon \<notin> set segment"
  shows "\<not> halves_of segment n"
  using assms by (auto simp: halves_of_def)

lemma halves_of_more:
  assumes "colon \<notin> set segment"
  shows "halves_of (segment @ colon # rest) n \<longleftrightarrow> rfc_h16 segment \<and> 0 < n \<and>
    ((\<exists>t. rest = colon # t \<and> ((t = [] \<and> n - 1 = 0) \<or> pieces_of t (n - 1))) \<or> halves_of rest (n - 1))" (is "?L \<longleftrightarrow> ?R")
proof
  assume ?L
  then obtain l ls rs m where split: "segment @ colon # rest = joined colon (l # ls) @ colon # colon # joined colon rs"
    and pieces: "list_all rfc_h16 (l # ls)" "ipv6_pieces rs m" and n: "n = length (l # ls) + m"
    unfolding halves_of_def by (metis list.exhaust)
  have l: "rfc_h16 l" "colon \<notin> set l" using pieces(1) h16_chars(2) by simp_all
  show ?R
  proof (cases "ls = []")
    case True
    then have "segment = l" "rest = colon # joined colon rs" using split split_at_sep [OF assms l(2)] by simp_all
    moreover have "(joined colon rs = [] \<and> m = 0) \<or> pieces_of (joined colon rs) m"
      using tail_pieces pieces(2) by blast
    ultimately show ?thesis using l(1) n True by auto
  next
    case False
    then have "segment = l" "rest = joined colon ls @ colon # colon # joined colon rs"
      using split split_at_sep [OF assms l(2)] by simp_all
    moreover from this have "halves_of rest (n - 1)"
      unfolding halves_of_def using False pieces n by (intro exI [of _ ls] exI [of _ rs] exI [of _ m]) simp
    ultimately show ?thesis using l(1) n by simp
  qed
next
  assume r: ?R
  then consider t where "rest = colon # t" "(t = [] \<and> n - 1 = 0) \<or> pieces_of t (n - 1)"
    | "halves_of rest (n - 1)" by blast
  then show ?L
  proof cases
    case (1 t)
    then obtain rs where "t = joined colon rs" "ipv6_pieces rs (n - 1)" using tail_pieces [of t "n - 1"] by blast
    then show ?thesis unfolding halves_of_def using r 1(1)
      by (intro exI [of _ "[segment]"] exI [of _ rs] exI [of _ "n - 1"]) simp
  next
    case 2
    then obtain ls rs m where "ls \<noteq> []" "rest = joined colon ls @ colon # colon # joined colon rs"
      "list_all rfc_h16 ls" "ipv6_pieces rs m" "n - 1 = length ls + m" by (auto simp: halves_of_def)
    moreover from this have "n = length (segment # ls) + m" using r by (cases n) simp_all
    ultimately have "segment # ls \<noteq> [] \<and>
        segment @ colon # rest = joined colon (segment # ls) @ colon # colon # joined colon rs \<and>
        list_all rfc_h16 (segment # ls) \<and> ipv6_pieces rs m \<and> n = length (segment # ls) + m" using r by simp
    then show ?thesis unfolding halves_of_def by blast
  qed
qed

lemma halves_of_start: "halves_of rest n \<Longrightarrow> rest \<noteq> [] \<and> hd rest \<noteq> colon"
proof -
  assume "halves_of rest n"
  then obtain ls rs where "ls \<noteq> []" "list_all rfc_h16 ls" "rest = joined colon ls @ colon # colon # joined colon rs"
    by (auto simp: halves_of_def)
  moreover from this have "joined colon ls \<noteq> []" "hd (joined colon ls) \<noteq> colon"
    using joined_first [of ls] h16_chars by (auto simp: list_all_iff)
  ultimately show ?thesis by (simp add: hd_append)
qed

lemma ipv6_loop_plain:
  "rest \<noteq> [] \<Longrightarrow> \<not> compressed \<Longrightarrow>
     ipv6_loop rest groups compressed \<longleftrightarrow>
       (\<exists>n. pieces_of rest n \<and> groups + n = 8) \<or> (\<exists>n. halves_of rest n \<and> groups + n \<le> 7)"
proof (induction rest groups compressed rule: ipv6_loop.induct)
  case (1 rest groups compressed)
  define segment where "segment = takeWhile (\<lambda>b. b \<noteq> colon) rest"
  define after where "after = dropWhile (\<lambda>b. b \<noteq> colon) rest"
  note parts = take_drop_segment [OF segment_def [symmetric] after_def [symmetric]]
  have loop: "ipv6_loop rest groups compressed \<longleftrightarrow> segment \<noteq> [] \<and>
      (if dot \<in> set segment then after = [] \<and> rfc_ipv4 segment \<and> groups + 2 = 8
       else rfc_h16 segment \<and> groups < 8 \<and> (if after = [] then groups + 1 = 8
         else tl after \<noteq> [] \<and>
           (if hd (tl after) = colon
            then (if tl (tl after) = [] then groups + 1 \<le> 7 else ipv6_loop (tl (tl after)) (groups + 1) True)
            else ipv6_loop (tl after) (groups + 1) compressed)))"
    using "1.prems" by (subst ipv6_loop.simps)
      (auto simp: Let_def ipv6_final_def ipv4_address_valid_iff segment_def [symmetric] after_def [symmetric])
  show ?case
  proof (cases "after = []")
    case True
    then have "rest = segment" using parts(1) by simp
    have last: "(\<exists>n. pieces_of rest n \<and> groups + n = 8) \<or> (\<exists>n. halves_of rest n \<and> groups + n \<le> 7) \<longleftrightarrow>
        (rfc_h16 segment \<and> groups + 1 = 8) \<or> (rfc_ipv4 segment \<and> groups + 2 = 8)"
      unfolding \<open>rest = segment\<close> pieces_of_last [OF parts(2)] using halves_of_last [OF parts(2)] by blast
    show ?thesis
    proof (cases "dot \<in> set segment")
      case True
      then show ?thesis unfolding loop last using \<open>after = []\<close> h16_chars(1) [of segment] by auto
    next
      case False
      then show ?thesis
        unfolding loop last using \<open>after = []\<close> h16_chars(3) [of segment] rfc_ipv4_chars(1) [of segment] by auto
    qed
  next
    case False
    let ?t = "tl after"
    have rest: "rest = segment @ colon # ?t" using parts(1,3) False by simp
    have pieces: "pieces_of rest n \<longleftrightarrow> rfc_h16 segment \<and> 0 < n \<and> pieces_of ?t (n - 1)" for n
      using pieces_of_more [OF parts(2)] rest by metis
    have halves: "halves_of rest n \<longleftrightarrow> rfc_h16 segment \<and> 0 < n \<and>
        ((\<exists>t. ?t = colon # t \<and> ((t = [] \<and> n - 1 = 0) \<or> pieces_of t (n - 1))) \<or> halves_of ?t (n - 1))" for n
      using halves_of_more [OF parts(2)] rest by metis
    have shift: "(\<exists>n. pieces_of rest n \<and> groups + n = 8) \<longleftrightarrow>
        rfc_h16 segment \<and> (\<exists>n. pieces_of ?t n \<and> groups + 1 + n = 8)"
      unfolding pieces by (rule ex_shift)
    have shift2: "(\<exists>n. halves_of rest n \<and> groups + n \<le> 7) \<longleftrightarrow> rfc_h16 segment \<and>
        (\<exists>n. ((\<exists>t. ?t = colon # t \<and> ((t = [] \<and> n = 0) \<or> pieces_of t n)) \<or> halves_of ?t n) \<and> groups + 1 + n \<le> 7)"
      unfolding halves by (rule ex_shift)
    show ?thesis
    proof (cases "segment \<noteq> [] \<and> dot \<notin> set segment \<and> rfc_h16 segment \<and> groups < 8 \<and> ?t \<noteq> []")
      case True
      show ?thesis
      proof (cases "hd ?t = colon")
        case two: True
        then have t: "?t = colon # tl ?t" using True list.collapse [of ?t] by metis
        have none: "\<not> pieces_of ?t n" "\<not> halves_of ?t n" for n
          using two pieces_of_start [of ?t n] halves_of_start [of ?t n] by blast+
        have "(\<exists>t. ?t = colon # t \<and> ((t = [] \<and> n = 0) \<or> pieces_of t n)) \<longleftrightarrow>
            (tl ?t = [] \<and> n = 0) \<or> pieces_of (tl ?t) n" for n
          using t by (metis list.sel(3))
        moreover have "\<not> pieces_of [] n" for n using pieces_of_start [of "[]" n] by blast
        ultimately show ?thesis
          unfolding loop shift shift2 using True False two none ipv6_loop_compressed [of "tl ?t" True "groups + 1"]
          by (cases "tl ?t = []") auto
      next
        case one: False
        then have "\<not> (\<exists>t. ?t = colon # t)" by (metis list.sel(1))
        moreover have "ipv6_loop ?t (groups + 1) compressed \<longleftrightarrow>
            (\<exists>n. pieces_of ?t n \<and> groups + 1 + n = 8) \<or> (\<exists>n. halves_of ?t n \<and> groups + 1 + n \<le> 7)"
          using "1.IH"(2) [OF "1.prems"(1) segment_def after_def] True False one "1.prems" by simp
        ultimately show ?thesis unfolding loop shift shift2 using True False one by auto
      qed
    next
      case outside: False
      have "rfc_h16 segment \<Longrightarrow> groups < 8 \<Longrightarrow> ?t = []"
        using outside h16_chars [of segment] by blast
      moreover have "\<not> pieces_of [] n" "\<not> halves_of [] n" for n
        using pieces_of_start [of "[]" n] halves_of_start [of "[]" n] by blast+
      ultimately show ?thesis unfolding loop shift shift2 using False outside
        by (cases "rfc_h16 segment \<and> groups < 8") auto
    qed
  qed
qed

text \<open>The recogniser accepts exactly the IPv6 addresses.\<close>

lemma pieces_eight: "(\<exists>gs. bytes = joined colon gs \<and> ipv6_pieces gs 8) \<longleftrightarrow> pieces_of bytes 8"
proof -
  have "ipv6_pieces gs 8 \<Longrightarrow> gs \<noteq> []" for gs by auto
  then show ?thesis unfolding pieces_of_def by blast
qed

lemma compressed_start:
  "(\<exists>ls rs n. colon # colon # rest = joined colon ls @ colon # colon # joined colon rs \<and>
      list_all rfc_h16 ls \<and> ipv6_pieces rs n \<and> length ls + n \<le> 7) \<longleftrightarrow>
    rest = [] \<or> (\<exists>n. pieces_of rest n \<and> n \<le> 7)" (is "?L \<longleftrightarrow> ?R")
proof
  assume ?L
  then obtain ls rs n where split: "colon # colon # rest = joined colon ls @ colon # colon # joined colon rs"
    and pieces: "list_all rfc_h16 ls" "ipv6_pieces rs n" and n: "length ls + n \<le> 7" by blast
  have "ls = []"
  proof (rule ccontr)
    assume "ls \<noteq> []"
    then have "halves_of (colon # colon # rest) (length ls + n)"
      unfolding halves_of_def split using pieces by blast
    then show False using halves_of_start by fastforce
  qed
  then have "rest = joined colon rs" using split by simp
  then have "(rest = [] \<and> n = 0) \<or> pieces_of rest n" using pieces(2) tail_pieces [of rest n] by blast
  then show ?R using n by auto
next
  assume ?R
  then obtain n where "(rest = [] \<and> n = 0) \<or> pieces_of rest n" "n \<le> 7" by auto
  then obtain rs where "rest = joined colon rs" "ipv6_pieces rs n" using tail_pieces [of rest n] by blast
  then have "colon # colon # rest = joined colon [] @ colon # colon # joined colon rs \<and>
      list_all rfc_h16 [] \<and> ipv6_pieces rs n \<and> length ([] :: u8 list list) + n \<le> 7"
    using \<open>n \<le> 7\<close> by simp
  then show ?L by blast
qed

lemma two_colons: "length bytes \<ge> 2 \<and> bytes ! 0 = colon \<and> bytes ! 1 = colon \<Longrightarrow> bytes = colon # colon # drop 2 bytes"
  by (cases bytes; cases "tl bytes") auto

lemma ipv6_address_valid_iff: "ipv6_address_valid bytes \<longleftrightarrow> rfc_ipv6 bytes"
proof (cases "length bytes \<ge> 2 \<and> bytes ! 0 = colon \<and> bytes ! 1 = colon")
  case True
  let ?rest = "drop 2 bytes"
  have bytes: "bytes = colon # colon # ?rest" using two_colons [OF True] .
  have none: "\<not> pieces_of bytes 8" using bytes pieces_of_start [of bytes 8] by (metis list.sel(1))
  have "rfc_ipv6 bytes \<longleftrightarrow> ?rest = [] \<or> (\<exists>n. pieces_of ?rest n \<and> n \<le> 7)"
    unfolding rfc_ipv6_def pieces_eight using compressed_start [of ?rest] bytes none by metis
  moreover have "ipv6_address_valid bytes \<longleftrightarrow> ?rest = [] \<or> (\<exists>n. pieces_of ?rest n \<and> n \<le> 7)"
    unfolding ipv6_address_valid_def using True ipv6_loop_compressed [of ?rest True 0] by auto
  ultimately show ?thesis by blast
next
  case False
  have halves: "(\<exists>ls rs n. bytes = joined colon ls @ colon # colon # joined colon rs \<and> list_all rfc_h16 ls \<and>
       ipv6_pieces rs n \<and> length ls + n \<le> 7) \<longleftrightarrow> (\<exists>n. halves_of bytes n \<and> n \<le> 7)" (is "?L \<longleftrightarrow> ?R")
  proof
    assume ?L
    then obtain ls rs n where split: "bytes = joined colon ls @ colon # colon # joined colon rs"
      "list_all rfc_h16 ls" "ipv6_pieces rs n" "length ls + n \<le> 7" by blast
    then have "ls \<noteq> []" using False by auto
    then have "halves_of bytes (length ls + n)" unfolding halves_of_def using split by blast
    then show ?R using split(4) by blast
  next
    assume ?R
    then show ?L unfolding halves_of_def by blast
  qed
  show ?thesis
  proof (cases "bytes = [] \<or> hd bytes = colon")
    case True
    then have "\<not> pieces_of bytes n" "\<not> halves_of bytes n" for n
      using pieces_of_start [of bytes n] halves_of_start [of bytes n] by blast+
    then have "\<not> rfc_ipv6 bytes" unfolding rfc_ipv6_def pieces_eight halves by blast
    moreover have "\<not> ipv6_address_valid bytes"
      using True False by (cases bytes) (auto simp: ipv6_address_valid_def)
    ultimately show ?thesis by blast
  next
    case start: False
    then have "ipv6_address_valid bytes \<longleftrightarrow> ipv6_loop bytes 0 False"
      using False by (cases bytes) (auto simp: ipv6_address_valid_def)
    also have "\<dots> \<longleftrightarrow> rfc_ipv6 bytes"
      unfolding rfc_ipv6_def pieces_eight halves using ipv6_loop_plain [of bytes False 0] start by simp
    finally show ?thesis .
  qed
qed

end
