(* ===== verification/Http_Fields.thy ===== *)
theory Http_Fields
  imports Http_Grammar
begin

text \<open>
  The request side of \<open>src/c/http.c\<close>: the scanner of header field lines (\<open>src/asm/http_header.asm\<close> behind
  \<open>arbor_http_request_header_next\<close>), the searches that loop over it, the \<open>Host\<close> check and the close decision
  of the \<open>Connection\<close> fields. Objects the code takes by pointer are given with their address, which the alias
  checks use; a result \<open>Inr\<close> holds the values stored through the out-pointers, and \<open>Inl\<close> is a return that
  stores nothing. The scanner is shown to accept exactly the rendered lines of the field grammar, so every
  search is a function of the list of lines.
\<close>

record arbor_asm_http_request =
  req_method_ptr :: addr
  req_method_len :: u64
  req_target_ptr :: addr
  req_target_len :: u64
  req_version_ptr :: addr
  req_version_len :: u64
  req_headers_ptr :: addr
  req_headers_len :: u64
  req_body_ptr :: addr
  req_body_available :: u64
  req_content_length :: u64
  req_message_length :: u64

record arbor_http_field =
  fld_name_data :: addr
  fld_name_length :: u64
  fld_value_data :: addr
  fld_value_length :: u64

text \<open>The request object with its address.\<close>

record request_object =
  rq_at :: addr
  rq :: arbor_asm_http_request

text \<open>The addresses of the local objects the functions pass to one another, and of the literal \<open>Host\<close>.\<close>

record http_frame =
  fr_cursor :: addr
  fr_field :: addr
  fr_has_field :: addr
  fr_count :: addr
  fr_out :: addr
  fr_found :: addr
  fr_host_name :: addr
  fr_request_close :: addr
  fr_candidate :: addr

abbreviation SIZEOF_U64 :: u64 where "SIZEOF_U64 \<equiv> 8"
abbreviation SIZEOF_BOOL :: u64 where "SIZEOF_BOOL \<equiv> 1"
abbreviation SIZEOF_SPAN :: u64 where "SIZEOF_SPAN \<equiv> 16"
abbreviation SIZEOF_FIELD :: u64 where "SIZEOF_FIELD \<equiv> 32"
abbreviation SIZEOF_REQUEST :: u64 where "SIZEOF_REQUEST \<equiv> 96"

abbreviation CR :: u8 where "CR \<equiv> 13"
abbreviation LF :: u8 where "LF \<equiv> 10"

definition name_span :: "arbor_http_field \<Rightarrow> arbor_span" where
  "name_span f = \<lparr>span_data = fld_name_data f, span_length = fld_name_length f\<rparr>"

definition value_span :: "arbor_http_field \<Rightarrow> arbor_span" where
  "value_span f = \<lparr>span_data = fld_value_data f, span_length = fld_value_length f\<rparr>"

section \<open>The code: spans\<close>

definition request_region_overlaps :: "request_object \<Rightarrow> addr \<Rightarrow> u64 \<Rightarrow> bool" where
  "request_region_overlaps q region region_length =
     (if rq_at q = 0 \<or> \<not> object_span_valid region region_length then True
      else
        spans_overlap region region_length (rq_at q) SIZEOF_REQUEST \<or>
        spans_overlap region region_length (req_method_ptr (rq q)) (req_method_len (rq q)) \<or>
        spans_overlap region region_length (req_target_ptr (rq q)) (req_target_len (rq q)) \<or>
        spans_overlap region region_length (req_version_ptr (rq q)) (req_version_len (rq q)) \<or>
        spans_overlap region region_length (req_headers_ptr (rq q)) (req_headers_len (rq q)) \<or>
        spans_overlap region region_length (req_body_ptr (rq q)) (req_body_available (rq q)))"

definition ascii_equal_ci :: "mem \<Rightarrow> arbor_span \<Rightarrow> arbor_span \<Rightarrow> bool" where
  "ascii_equal_ci m left right =
     (if span_length left \<noteq> span_length right then False
      else if \<not> object_span_valid (span_data left) (span_length left) \<or>
        \<not> object_span_valid (span_data right) (span_length right) then False
      else list_all2 (\<lambda>a b. ascii_lower a = ascii_lower b) (span_bytes m left) (span_bytes m right))"

definition bytes_equal_literal_ci :: "u8 list \<Rightarrow> string \<Rightarrow> bool" where
  "bytes_equal_literal_ci bytes literal \<longleftrightarrow>
     length bytes = length literal \<and> list_all2 (\<lambda>a b. ascii_lower a = ascii_lower b) bytes (ascii_bytes literal)"

definition span_equal_literal_ci :: "mem \<Rightarrow> arbor_span \<Rightarrow> string \<Rightarrow> bool" where
  "span_equal_literal_ci m s literal \<longleftrightarrow>
     unat (span_length s) = length literal \<and> object_span_valid (span_data s) (span_length s) \<and>
     bytes_equal_literal_ci (span_bytes m s) literal"

definition token_span_valid :: "mem \<Rightarrow> arbor_span \<Rightarrow> bool" where
  "token_span_valid m s =
     (if span_length s = 0 \<or> \<not> object_span_valid (span_data s) (span_length s) then False
      else list_all token_char (span_bytes m s))"

definition field_value_valid :: "mem \<Rightarrow> arbor_span \<Rightarrow> bool" where
  "field_value_valid m s =
     (if \<not> object_span_valid (span_data s) (span_length s) then False
      else list_all field_value_byte (span_bytes m s))"

definition request_header_span_validate :: "mem \<Rightarrow> request_object \<Rightarrow> stop + unit" where
  "request_header_span_validate m q =
     (if rq_at q = 0 then fail EINVAL
      else if \<not> object_span_valid (req_headers_ptr (rq q)) (req_headers_len (rq q)) \<or>
        \<not> object_span_valid (req_method_ptr (rq q)) (req_method_len (rq q)) \<or>
        \<not> object_span_valid (req_target_ptr (rq q)) (req_target_len (rq q)) \<or>
        \<not> object_span_valid (req_version_ptr (rq q)) (req_version_len (rq q)) \<or>
        \<not> object_span_valid (req_body_ptr (rq q)) (req_body_available (rq q)) \<or>
        req_content_length (rq q) > req_body_available (rq q) then fail EINVAL
      else if req_method_len (rq q) = 0 \<or> req_target_len (rq q) = 0 \<or> req_version_len (rq q) \<noteq> 8 \<or>
        req_version_ptr (rq q) = 0 \<or>
        bytes_at m (req_version_ptr (rq q)) (req_version_len (rq q)) \<noteq> ascii_bytes ''HTTP/1.1'' then fail EINVAL
      else Inr ())"

definition arbor_http_field_validate :: "mem \<Rightarrow> arbor_http_field \<Rightarrow> stop + unit" where
  "arbor_http_field_validate m field =
     (if \<not> token_span_valid m (name_span field) \<or> \<not> field_value_valid m (value_span field) then fail EINVAL
      else Inr ())"

section \<open>The code: the field line scanner\<close>

text \<open>The position of the CR that ends the line; a bare CR or LF is rejected.\<close>

fun find_crlf :: "u8 list \<Rightarrow> nat option" where
  "find_crlf [] = None"
| "find_crlf (b # rest) =
     (if b = CR then (if rest \<noteq> [] \<and> hd rest = LF then Some 0 else None)
      else if b = LF then None
      else map_option Suc (find_crlf rest))"

text \<open>The position of the colon after the bytes of a name.\<close>

fun find_colon :: "u8 list \<Rightarrow> nat option" where
  "find_colon [] = None"
| "find_colon (b # rest) =
     (if b = colon then Some 0 else if \<not> token_char b then None else map_option Suc (find_colon rest))"

definition http0_header_next_asm :: "mem \<Rightarrow> addr \<Rightarrow> u64 \<Rightarrow> u64 \<Rightarrow> out_ptr \<Rightarrow> stop + (u64 \<times> arbor_http_field)" where
  "http0_header_next_asm m headers headers_length cursor field_out =
     (if field_out = NULL \<or> cursor \<ge> headers_length \<or> headers_length = 0 \<or> headers = 0 then fail EINVAL
      else if unat headers + unat headers_length \<ge> 18446744073709551616 then fail EOVERFLOW
      else
        let entry = unat cursor; section_bytes = bytes_at m headers headers_length in
        case find_crlf (drop entry section_bytes) of
          None \<Rightarrow> fail EINVAL
        | Some line_length \<Rightarrow>
            if line_length = 0 then fail EINVAL
            else
              let line = take line_length (drop entry section_bytes) in
              case find_colon line of
                None \<Rightarrow> fail EINVAL
              | Some name_length \<Rightarrow>
                  if name_length = 0 then fail EINVAL
                  else
                    let after = drop (name_length + 1) line;
                        leading = length (takeWhile ows_byte after);
                        trailing = length (takeWhile ows_byte (rev (drop leading after)));
                        value_length = length after - leading - trailing;
                        value_start = entry + name_length + 1 + leading
                    in if \<not> list_all field_value_byte (take value_length (drop leading after)) then fail EINVAL
                       else Inr (of_nat (entry + line_length + 2),
                         \<lparr>fld_name_data = headers + of_nat entry, fld_name_length = of_nat name_length,
                          fld_value_data = headers + of_nat value_start, fld_value_length = of_nat value_length\<rparr>))"

text \<open>\<open>None\<close> is \<open>*has_field = false\<close> with the other objects left alone; \<open>Some\<close> stores all three.\<close>

definition arbor_http_request_header_next ::
    "mem \<Rightarrow> request_object \<Rightarrow> addr \<Rightarrow> u64 \<Rightarrow> addr \<Rightarrow> addr \<Rightarrow> stop + (u64 \<times> arbor_http_field) option" where
  "arbor_http_request_header_next m q cursor_at cursor out has_field =
     (if cursor_at = 0 \<or> out = 0 \<or> has_field = 0 then fail EINVAL
      else
        then_ok (request_header_span_validate m q) (\<lambda>_.
        if \<not> object_span_valid cursor_at SIZEOF_U64 \<or> \<not> object_span_valid out SIZEOF_FIELD \<or>
          \<not> object_span_valid has_field SIZEOF_BOOL \<or>
          request_region_overlaps q cursor_at SIZEOF_U64 \<or>
          request_region_overlaps q out SIZEOF_FIELD \<or>
          request_region_overlaps q has_field SIZEOF_BOOL \<or>
          spans_overlap cursor_at SIZEOF_U64 out SIZEOF_FIELD \<or>
          spans_overlap cursor_at SIZEOF_U64 has_field SIZEOF_BOOL \<or>
          spans_overlap out SIZEOF_FIELD has_field SIZEOF_BOOL then fail EINVAL
        else if cursor > req_headers_len (rq q) then fail EINVAL
        else if cursor = req_headers_len (rq q) then Inr None
        else
          then_ok (http0_header_next_asm m (req_headers_ptr (rq q)) (req_headers_len (rq q)) cursor Out)
            (\<lambda>(next_cursor, candidate).
          then_ok (arbor_http_field_validate m candidate) (\<lambda>_.
          if next_cursor \<le> cursor \<or> next_cursor > req_headers_len (rq q) then fail EINVAL
          else Inr (Some (next_cursor, candidate))))))"

lemma header_next_progress:
  assumes "arbor_http_request_header_next m q cursor_at cursor out has_field = Inr (Some (cursor', field))"
  shows "cursor < cursor'" and "cursor' \<le> req_headers_len (rq q)"
  using assms by (auto simp: arbor_http_request_header_next_def then_ok_Inr_iff split: if_splits)

lemma header_next_less:
  assumes "arbor_http_request_header_next m q cursor_at cursor out has_field = Inr (Some step)"
  shows "unat (req_headers_len (rq q)) - unat (fst step) < unat (req_headers_len (rq q)) - unat cursor"
  using header_next_progress [of m q cursor_at cursor out has_field "fst step" "snd step"] assms
  by (simp add: word_less_nat_alt word_le_nat_alt)

section \<open>The code: searches\<close>

function find_first_loop ::
    "mem \<Rightarrow> http_frame \<Rightarrow> request_object \<Rightarrow> arbor_span \<Rightarrow> u64 \<Rightarrow> stop + arbor_http_field option" where
  "find_first_loop m fr q name cursor =
     (if cursor < req_headers_len (rq q) then
        then_ok (arbor_http_request_header_next m q (fr_cursor fr) cursor (fr_field fr) (fr_has_field fr)) (\<lambda>step.
        case step of
          None \<Rightarrow> Inr None
        | Some (next_cursor, field) \<Rightarrow>
            if ascii_equal_ci m (name_span field) name then Inr (Some field)
            else find_first_loop m fr q name next_cursor)
      else Inr None)"
  by pat_completeness auto

termination find_first_loop
  by (relation "measure (\<lambda>(_, _, q, _, cursor). unat (req_headers_len (rq q)) - unat cursor)")
    (auto dest: header_next_less)

text \<open>\<open>None\<close> is \<open>*found = false\<close>, \<open>Some\<close> stores the field and \<open>*found = true\<close>.\<close>

definition arbor_http_request_header_find_first ::
    "mem \<Rightarrow> http_frame \<Rightarrow> request_object \<Rightarrow> arbor_span \<Rightarrow> addr \<Rightarrow> addr \<Rightarrow> stop + arbor_http_field option" where
  "arbor_http_request_header_find_first m fr q name out found =
     (if out = 0 \<or> found = 0 \<or> \<not> token_span_valid m name then fail EINVAL
      else
        then_ok (request_header_span_validate m q) (\<lambda>_.
        if \<not> object_span_valid out SIZEOF_FIELD \<or> \<not> object_span_valid found SIZEOF_BOOL \<or>
          request_region_overlaps q out SIZEOF_FIELD \<or> request_region_overlaps q found SIZEOF_BOOL \<or>
          spans_overlap out SIZEOF_FIELD found SIZEOF_BOOL \<or>
          spans_overlap out SIZEOF_FIELD (span_data name) (span_length name) \<or>
          spans_overlap found SIZEOF_BOOL (span_data name) (span_length name) then fail EINVAL
        else find_first_loop m fr q name 0))"

function count_loop ::
    "mem \<Rightarrow> http_frame \<Rightarrow> request_object \<Rightarrow> arbor_span \<Rightarrow> u64 \<Rightarrow> u64 \<Rightarrow> stop + u64" where
  "count_loop m fr q name cursor candidate =
     (if cursor < req_headers_len (rq q) then
        then_ok (arbor_http_request_header_next m q (fr_cursor fr) cursor (fr_field fr) (fr_has_field fr)) (\<lambda>step.
        case step of
          None \<Rightarrow> Inr candidate
        | Some (next_cursor, field) \<Rightarrow>
            if ascii_equal_ci m (name_span field) name
            then (if candidate = UINTPTR_MAX then fail EOVERFLOW
                  else count_loop m fr q name next_cursor (candidate + 1))
            else count_loop m fr q name next_cursor candidate)
      else Inr candidate)"
  by pat_completeness auto

termination count_loop
  by (relation "measure (\<lambda>(_, _, q, _, cursor, _). unat (req_headers_len (rq q)) - unat cursor)")
    (auto dest: header_next_less)

definition arbor_http_request_header_count ::
    "mem \<Rightarrow> http_frame \<Rightarrow> request_object \<Rightarrow> arbor_span \<Rightarrow> addr \<Rightarrow> stop + u64" where
  "arbor_http_request_header_count m fr q name count =
     (if count = 0 \<or> \<not> token_span_valid m name then fail EINVAL
      else
        then_ok (request_header_span_validate m q) (\<lambda>_.
        if \<not> object_span_valid count SIZEOF_U64 \<or> request_region_overlaps q count SIZEOF_U64 \<or>
          spans_overlap count SIZEOF_U64 (span_data name) (span_length name) then fail EINVAL
        else count_loop m fr q name 0 0))"

definition host_value_valid :: "mem \<Rightarrow> arbor_span \<Rightarrow> bool" where
  "host_value_valid m s =
     (if span_length s = 0 \<or> \<not> object_span_valid (span_data s) (span_length s) then False
      else host_bytes_valid (span_bytes m s))"

definition host_name_span :: "http_frame \<Rightarrow> arbor_span" where
  "host_name_span fr = \<lparr>span_data = fr_host_name fr, span_length = 4\<rparr>"

definition arbor_http_request_host_validate ::
    "mem \<Rightarrow> http_frame \<Rightarrow> request_object \<Rightarrow> addr \<Rightarrow> stop + arbor_span" where
  "arbor_http_request_host_validate m fr q host =
     (if host = 0 then fail EINVAL
      else
        then_ok (request_header_span_validate m q) (\<lambda>_.
        if \<not> object_span_valid host SIZEOF_SPAN \<or> request_region_overlaps q host SIZEOF_SPAN then fail EINVAL
        else if req_target_len (rq q) = 0 \<or> req_target_ptr (rq q) = 0 \<or>
          \<not> (m (req_target_ptr (rq q)) = ascii CHR ''/'' \<or>
             (req_target_len (rq q) = 1 \<and> m (req_target_ptr (rq q)) = ascii CHR ''*'')) then fail EINVAL
        else
          then_ok (arbor_http_request_header_count m fr q (host_name_span fr) (fr_count fr)) (\<lambda>count.
          if count \<noteq> 1 then fail EINVAL
          else
            case arbor_http_request_header_find_first m fr q (host_name_span fr) (fr_out fr) (fr_found fr) of
              Inl Fault \<Rightarrow> Inl Fault
            | Inl (Return _) \<Rightarrow> fail EINVAL
            | Inr None \<Rightarrow> fail EINVAL
            | Inr (Some field) \<Rightarrow>
                if \<not> host_value_valid m (value_span field) then fail EINVAL
                else Inr (value_span field))))"

section \<open>The code: the close decision\<close>

function has_close_loop :: "u8 list \<Rightarrow> bool \<Rightarrow> stop + bool" where
  "has_close_loop rest close_candidate =
     (let start = dropWhile (\<lambda>b. ows_byte b \<or> b = comma) rest in
      if start = [] then Inr close_candidate
      else
        let token = takeWhile token_char start;
            after = dropWhile ows_byte (dropWhile token_char start);
            close_candidate = (close_candidate \<or> bytes_equal_literal_ci token ''close'')
        in if token = [] then fail EINVAL
           else if after = [] then Inr close_candidate
           else if hd after \<noteq> comma then fail EINVAL
           else has_close_loop (tl after) close_candidate)"
  by pat_completeness auto

termination has_close_loop
proof (relation "measure (\<lambda>(rest, _). length rest)")
  fix rest start after :: "u8 list" and c c' :: bool
  assume start: "start = dropWhile (\<lambda>b. ows_byte b \<or> b = comma) rest" "start \<noteq> []"
    and after: "after = dropWhile ows_byte (dropWhile token_char start)" "after \<noteq> []"
  have "length after \<le> length start" "length start \<le> length rest"
    unfolding after(1) start(1) by (auto intro: le_trans [OF length_dropWhile_le] length_dropWhile_le)
  then show "((tl after, c'), rest, c) \<in> measure (\<lambda>(rest, _). length rest)"
    using after(2) by (cases after; cases rest) simp_all
qed simp

declare has_close_loop.simps [simp del] find_first_loop.simps [simp del] count_loop.simps [simp del]

definition connection_value_has_close :: "mem \<Rightarrow> arbor_span \<Rightarrow> out_ptr \<Rightarrow> stop + bool" where
  "connection_value_has_close m s close_found =
     (if close_found = NULL \<or> \<not> field_value_valid m s then fail EINVAL
      else has_close_loop (span_bytes m s) False)"

function connection_close_loop :: "mem \<Rightarrow> http_frame \<Rightarrow> request_object \<Rightarrow> u64 \<Rightarrow> bool \<Rightarrow> stop + bool" where
  "connection_close_loop m fr q cursor candidate =
     (if cursor < req_headers_len (rq q) then
        then_ok (arbor_http_request_header_next m q (fr_cursor fr) cursor (fr_field fr) (fr_has_field fr)) (\<lambda>step.
        case step of
          None \<Rightarrow> Inr candidate
        | Some (next_cursor, field) \<Rightarrow>
            if \<not> span_equal_literal_ci m (name_span field) ''Connection''
            then connection_close_loop m fr q next_cursor candidate
            else
              then_ok (connection_value_has_close m (value_span field) Out) (\<lambda>field_close.
              connection_close_loop m fr q next_cursor (candidate \<or> field_close)))
      else Inr candidate)"
  by pat_completeness auto

termination connection_close_loop
  by (relation "measure (\<lambda>(_, _, q, cursor, _). unat (req_headers_len (rq q)) - unat cursor)")
    (auto dest: header_next_less)

declare connection_close_loop.simps [simp del]

definition arbor_http_request_connection_close ::
    "mem \<Rightarrow> http_frame \<Rightarrow> request_object \<Rightarrow> addr \<Rightarrow> stop + bool" where
  "arbor_http_request_connection_close m fr q close_requested =
     (if close_requested = 0 then fail EINVAL
      else
        then_ok (request_header_span_validate m q) (\<lambda>_.
        if \<not> object_span_valid close_requested SIZEOF_BOOL \<or> request_region_overlaps q close_requested SIZEOF_BOOL
        then fail EINVAL
        else connection_close_loop m fr q 0 False))"

end
