(* ===== verification/Http_Lines.thy ===== *)
theory Http_Lines
  imports Http_Fields
begin

text \<open>
  Header sections as lists of lines. A line is a name, the white space around the value, and the value;
  \<open>render\<close> writes it the way HTTP/1.1 does. The scanner accepts exactly the rendered lines, so the searches
  are characterised on the lists of lines a header section is made of.
\<close>

record header_line =
  ln_name :: "u8 list"
  ln_lead :: "u8 list"
  ln_value :: "u8 list"
  ln_trail :: "u8 list"

definition render :: "header_line \<Rightarrow> u8 list" where
  "render l = ln_name l @ colon # ln_lead l @ ln_value l @ ln_trail l @ [CR, LF]"

lemma render_not_Nil [simp]: "render l \<noteq> []"
  by (simp add: render_def)

abbreviation render_all :: "header_line list \<Rightarrow> u8 list" where
  "render_all ls \<equiv> concat (map render ls)"

definition trimmed :: "u8 list \<Rightarrow> bool" where
  "trimmed v \<longleftrightarrow> v = [] \<or> (\<not> ows_byte (hd v) \<and> \<not> ows_byte (last v))"

definition line_ok :: "header_line \<Rightarrow> bool" where
  "line_ok l \<longleftrightarrow> ln_name l \<noteq> [] \<and> list_all token_char (ln_name l) \<and> list_all ows_byte (ln_lead l) \<and>
     list_all field_value_byte (ln_value l) \<and> list_all ows_byte (ln_trail l) \<and> trimmed (ln_value l) \<and>
     (ln_value l = [] \<longrightarrow> ln_trail l = [])"

text \<open>The field the scanner reports for a line at a position of the header section.\<close>

definition field_of :: "addr \<Rightarrow> u64 \<Rightarrow> header_line \<Rightarrow> arbor_http_field" where
  "field_of headers cursor l =
     \<lparr>fld_name_data = headers + cursor, fld_name_length = of_nat (length (ln_name l)),
      fld_value_data = headers + cursor + of_nat (length (ln_name l) + 1 + length (ln_lead l)),
      fld_value_length = of_nat (length (ln_value l))\<rparr>"

section \<open>The bytes of a line\<close>

lemma separators [simp]:
  "\<not> token_char colon" "\<not> token_char CR" "\<not> token_char LF" "\<not> token_char comma"
  "\<not> ows_byte CR" "\<not> ows_byte LF" "\<not> ows_byte comma" "\<not> ows_byte colon"
  "\<not> field_value_byte CR" "\<not> field_value_byte LF"
  by (simp_all add: token_char_def alnum_char_def digit_char_def ascii_def ows_byte_def field_value_byte_def)

lemma ows_field_value: "ows_byte b \<Longrightarrow> field_value_byte b"
  by (auto simp: ows_byte_def field_value_byte_def)

lemma ows_not_token: "ows_byte b \<Longrightarrow> \<not> token_char b"
  by (auto simp: ows_byte_def token_char_def alnum_char_def digit_char_def ascii_def)

lemma find_crlf_iff:
  "find_crlf rest = Some n \<longleftrightarrow>
     (\<exists>line after. rest = line @ CR # LF # after \<and> CR \<notin> set line \<and> LF \<notin> set line \<and> n = length line)"
proof (induction rest arbitrary: n)
  case (Cons b rest)
  show ?case
  proof (cases "b = CR \<or> b = LF")
    case True
    have "(\<exists>line after. b # rest = line @ CR # LF # after \<and> CR \<notin> set line \<and> LF \<notin> set line \<and> n = length line) \<longleftrightarrow>
        b = CR \<and> (\<exists>after. rest = LF # after) \<and> n = 0"
      using True by (auto simp: Cons_eq_append_conv)
    also have "(\<exists>after. rest = LF # after) \<longleftrightarrow> rest \<noteq> [] \<and> hd rest = LF" by (cases rest) auto
    finally show ?thesis using True by auto
  next
    case False
    have "(\<exists>line after. b # rest = line @ CR # LF # after \<and> CR \<notin> set line \<and> LF \<notin> set line \<and> n = length line) \<longleftrightarrow>
        (\<exists>k. n = Suc k \<and>
          (\<exists>line after. rest = line @ CR # LF # after \<and> CR \<notin> set line \<and> LF \<notin> set line \<and> k = length line))"
      (is "?L \<longleftrightarrow> ?R")
    proof
      assume ?L
      then obtain line after where "b # rest = line @ CR # LF # after" "CR \<notin> set line" "LF \<notin> set line" "n = length line"
        by blast
      then show ?R using False by (cases line) auto
    next
      assume ?R
      then obtain k line after where "n = Suc k" "rest = line @ CR # LF # after" "CR \<notin> set line" "LF \<notin> set line"
        "k = length line" by blast
      then show ?L using False by (intro exI [of _ "b # line"] exI [of _ after]) auto
    qed
    then show ?thesis using False Cons.IH by (auto simp: map_option_eq_Some)
  qed
qed simp

lemma find_colon_iff:
  "find_colon line = Some n \<longleftrightarrow> (\<exists>name after. line = name @ colon # after \<and> list_all token_char name \<and> n = length name)"
proof (induction line arbitrary: n)
  case (Cons b line)
  have "(\<exists>name after. b # line = name @ colon # after \<and> list_all token_char name \<and> n = length name) \<longleftrightarrow>
      (b = colon \<and> n = 0) \<or> (token_char b \<and> (\<exists>k. n = Suc k \<and>
        (\<exists>name after. line = name @ colon # after \<and> list_all token_char name \<and> k = length name)))" (is "?L \<longleftrightarrow> ?R")
  proof
    assume ?L
    then obtain name after where "b # line = name @ colon # after" "list_all token_char name" "n = length name" by blast
    then show ?R by (cases name) auto
  next
    assume ?R
    then show ?L
    proof (elim disjE conjE exE)
      assume "b = colon" "n = 0"
      then show ?L by (intro exI [of _ "[]"] exI [of _ line]) simp
    next
      fix k name after
      assume "token_char b" "n = Suc k" "line = name @ colon # after" "list_all token_char name" "k = length name"
      then show ?L by (intro exI [of _ "b # name"] exI [of _ after]) simp
    qed
  qed
  then have step: "?L \<longleftrightarrow> (b = colon \<and> n = 0) \<or> (token_char b \<and> (\<exists>k. n = Suc k \<and> find_colon line = Some k))"
    unfolding Cons.IH .
  show ?case unfolding step using separators(1) by (cases "b = colon") (auto simp: map_option_eq_Some)
qed simp

text \<open>Trimming: any bytes are white space, a trimmed value, and white space.\<close>

definition trim_lead :: "u8 list \<Rightarrow> u8 list" where
  "trim_lead v = takeWhile ows_byte v"

definition trim_core :: "u8 list \<Rightarrow> u8 list" where
  "trim_core v = rev (dropWhile ows_byte (rev (dropWhile ows_byte v)))"

definition trim_trail :: "u8 list \<Rightarrow> u8 list" where
  "trim_trail v = rev (takeWhile ows_byte (rev (dropWhile ows_byte v)))"

lemma trim_parts: "v = trim_lead v @ trim_core v @ trim_trail v"
proof -
  have "dropWhile ows_byte v = trim_core v @ trim_trail v"
    unfolding trim_core_def trim_trail_def
    by (metis rev_append rev_rev_ident takeWhile_dropWhile_id)
  then show ?thesis unfolding trim_lead_def by (metis takeWhile_dropWhile_id)
qed

lemma trim_shape:
  "list_all ows_byte (trim_lead v)" "list_all ows_byte (trim_trail v)" "trimmed (trim_core v)"
  "trim_core v = [] \<Longrightarrow> trim_trail v = []"
proof -
  show "list_all ows_byte (trim_lead v)" "list_all ows_byte (trim_trail v)"
    unfolding trim_lead_def trim_trail_def by (auto simp: list_all_iff dest: set_takeWhileD)
  have first: "dropWhile ows_byte v \<noteq> [] \<Longrightarrow> \<not> ows_byte (hd (dropWhile ows_byte v))" by (rule hd_dropWhile)
  have parts: "dropWhile ows_byte v = trim_core v @ trim_trail v"
    unfolding trim_core_def trim_trail_def by (metis rev_append rev_rev_ident takeWhile_dropWhile_id)
  show "trim_core v = [] \<Longrightarrow> trim_trail v = []"
    using first parts \<open>list_all ows_byte (trim_trail v)\<close> by (cases "trim_trail v") auto
  have "trim_core v \<noteq> [] \<Longrightarrow> \<not> ows_byte (last (trim_core v))"
    unfolding trim_core_def by (simp add: last_rev hd_dropWhile)
  moreover have "trim_core v \<noteq> [] \<Longrightarrow> \<not> ows_byte (hd (trim_core v))" using first parts by simp
  ultimately show "trimmed (trim_core v)" unfolding trimmed_def by blast
qed

lemma trim_unique:
  assumes "list_all ows_byte lead" and "trimmed core" and "list_all ows_byte trail" and "core = [] \<longrightarrow> trail = []"
  shows "trim_lead (lead @ core @ trail) = lead" and "trim_core (lead @ core @ trail) = core"
    and "trim_trail (lead @ core @ trail) = trail"
proof -
  have drop_all: "list_all P xs \<Longrightarrow> dropWhile P (xs @ ys) = dropWhile P ys" for P and xs ys :: "u8 list"
    by (simp add: list_all_iff)
  have take_all: "list_all P xs \<Longrightarrow> takeWhile P (xs @ ys) = xs @ takeWhile P ys" for P and xs ys :: "u8 list"
    by (simp add: list_all_iff)
  have head: "takeWhile ows_byte (core @ trail) = []" "dropWhile ows_byte (core @ trail) = core @ trail"
    using assms(2,4) by (cases core; auto simp: trimmed_def)+
  then show "trim_lead (lead @ core @ trail) = lead"
    unfolding trim_lead_def using take_all [OF assms(1)] by simp
  have rest: "dropWhile ows_byte (lead @ core @ trail) = core @ trail" using drop_all [OF assms(1)] head(2) by simp
  have rear: "takeWhile ows_byte (rev core) = []" "dropWhile ows_byte (rev core) = rev core"
    using assms(2) by (cases core rule: rev_cases; auto simp: trimmed_def)+
  have rev_trail: "list_all ows_byte (rev trail)" using assms(3) by (simp add: list_all_iff)
  show "trim_core (lead @ core @ trail) = core" and "trim_trail (lead @ core @ trail) = trail"
    unfolding trim_core_def trim_trail_def rest rev_append
    using drop_all [OF rev_trail] take_all [OF rev_trail] rear by simp_all
qed

section \<open>The scanner reads lines\<close>

definition scan_line :: "u8 list \<Rightarrow> header_line option" where
  "scan_line rest = (case find_crlf rest of
     None \<Rightarrow> None
   | Some n \<Rightarrow> (case find_colon (take n rest) of
       None \<Rightarrow> None
     | Some k \<Rightarrow>
         let after = drop (k + 1) (take n rest) in
         if k = 0 \<or> \<not> list_all field_value_byte (trim_core after) then None
         else Some \<lparr>ln_name = take k (take n rest), ln_lead = trim_lead after, ln_value = trim_core after,
                    ln_trail = trim_trail after\<rparr>))"

lemma line_bytes_free:
  assumes "line_ok l"
  shows "CR \<notin> set (ln_name l @ colon # ln_lead l @ ln_value l @ ln_trail l)"
    and "LF \<notin> set (ln_name l @ colon # ln_lead l @ ln_value l @ ln_trail l)"
  using assms list_all_free [of token_char "ln_name l"] list_all_free [of ows_byte "ln_lead l"]
    list_all_free [of ows_byte "ln_trail l"] list_all_free [of field_value_byte "ln_value l"]
  by (simp_all add: line_ok_def)

lemma scan_line_render:
  assumes "line_ok l"
  shows "scan_line (render l @ rest) = Some l"
proof -
  let ?after = "ln_lead l @ ln_value l @ ln_trail l"
  let ?line = "ln_name l @ colon # ?after"
  have bytes: "render l @ rest = ?line @ CR # LF # rest" by (simp add: render_def)
  have crlf: "find_crlf (render l @ rest) = Some (length ?line)"
    unfolding find_crlf_iff bytes using line_bytes_free [OF assms] by blast
  have take: "take (length ?line) (render l @ rest) = ?line" unfolding bytes by simp
  have col: "find_colon ?line = Some (length (ln_name l))"
    unfolding find_colon_iff using assms by (auto simp: line_ok_def)
  have drop: "drop (length (ln_name l) + 1) ?line = ?after" by simp
  have trims: "trim_lead ?after = ln_lead l" "trim_core ?after = ln_value l" "trim_trail ?after = ln_trail l"
    using assms by (intro trim_unique; simp add: line_ok_def)+
  show ?thesis
    unfolding scan_line_def crlf option.case take col Let_def drop trims using assms by (simp add: line_ok_def)
qed

lemma scan_line_Some:
  assumes "scan_line rest = Some l"
  shows "\<exists>rest'. rest = render l @ rest'" and "line_ok l"
proof -
  obtain n where n: "find_crlf rest = Some n" using assms by (auto simp: scan_line_def split: option.splits)
  then obtain line after where line: "rest = line @ CR # LF # after" "n = length line"
    unfolding find_crlf_iff by blast
  then have take: "take n rest = line" by simp
  obtain k where k: "find_colon line = Some k"
    using assms by (auto simp: scan_line_def n take split: option.splits)
  then obtain name v where name: "line = name @ colon # v" "list_all token_char name" "k = length name"
    unfolding find_colon_iff by blast
  then have v: "drop (k + 1) line = v" "take k line = name" by simp_all
  have l: "l = \<lparr>ln_name = name, ln_lead = trim_lead v, ln_value = trim_core v, ln_trail = trim_trail v\<rparr>"
    and ok: "name \<noteq> []" "list_all field_value_byte (trim_core v)"
    using assms unfolding scan_line_def n option.case take k Let_def v by (auto simp: name(3) split: if_splits)
  have "rest = render l @ after" unfolding line(1) name(1) using trim_parts [of v] by (simp add: render_def l)
  then show "\<exists>rest'. rest = render l @ rest'" ..
  show "line_ok l" using ok name(2) trim_shape [of v] by (simp add: line_ok_def l)
qed

lemma scan_line_iff: "scan_line rest = Some l \<longleftrightarrow> (\<exists>rest'. rest = render l @ rest') \<and> line_ok l"
  using scan_line_Some scan_line_render by blast

lemma trim_lengths:
  "length (takeWhile ows_byte v) = length (trim_lead v)"
  "length (takeWhile ows_byte (rev (drop (length (trim_lead v)) v))) = length (trim_trail v)"
  "length v - length (trim_lead v) - length (trim_trail v) = length (trim_core v)"
  "take (length (trim_core v)) (drop (length (trim_lead v)) v) = trim_core v"
proof -
  show "length (takeWhile ows_byte v) = length (trim_lead v)" by (simp add: trim_lead_def)
  show "length (takeWhile ows_byte (rev (drop (length (trim_lead v)) v))) = length (trim_trail v)"
    by (simp add: trim_trail_def trim_lead_def dropWhile_eq_drop [symmetric])
  have len: "length v = length (trim_lead v) + length (trim_core v) + length (trim_trail v)"
    using arg_cong [OF trim_parts [of v], of length] by simp
  then show "length v - length (trim_lead v) - length (trim_trail v) = length (trim_core v)" by simp
  have "drop (length (trim_lead v)) v = trim_core v @ trim_trail v"
    using trim_parts [of v] by (metis append_eq_conv_conj)
  then show "take (length (trim_core v)) (drop (length (trim_lead v)) v) = trim_core v" by simp
qed

lemma asm_is_scan_line:
  assumes "headers \<noteq> 0" and "unat headers + unat len < 18446744073709551616" and "cursor < len"
  shows "http0_header_next_asm m headers len cursor Out =
    (case scan_line (drop (unat cursor) (bytes_at m headers len)) of
       None \<Rightarrow> fail EINVAL
     | Some l \<Rightarrow> Inr (cursor + of_nat (length (render l)), field_of headers cursor l))"
proof -
  let ?rest = "drop (unat cursor) (bytes_at m headers len)"
  have guards: "\<not> (Out = NULL \<or> cursor \<ge> len \<or> len = 0 \<or> headers = 0)"
    using assms by (auto simp: word_less_nat_alt word_le_nat_alt)
  show ?thesis
  proof (cases "find_crlf ?rest")
    case (Some n)
    then obtain line after where line: "?rest = line @ CR # LF # after" "n = length line"
      unfolding find_crlf_iff by blast
    then have take: "take n ?rest = line" by simp
    show ?thesis
    proof (cases "find_colon line")
      case None
      then show ?thesis
        using guards assms(2) Some \<open>find_crlf ?rest = Some n\<close>
        by (simp add: http0_header_next_asm_def scan_line_def take Let_def)
    next
      case (Some k)
      then obtain name v where name: "line = name @ colon # v" "k = length name"
        unfolding find_colon_iff by blast
      then have v: "drop (k + 1) line = v" "drop (Suc k) line = v" by simp_all
      have nonzero: "n \<noteq> 0" using line(2) name by simp
      have len: "length v = length (trim_lead v) + length (trim_core v) + length (trim_trail v)"
        using arg_cong [OF trim_parts [of v], of length] by simp
      then have n: "n = length name + 1 + length (trim_lead v) + length (trim_core v) + length (trim_trail v)"
        using line(2) name by simp
      have name': "take k line = name" "k \<noteq> 0 \<longleftrightarrow> name \<noteq> []" using name by simp_all
      let ?l = "\<lparr>ln_name = name, ln_lead = trim_lead v, ln_value = trim_core v, ln_trail = trim_trail v\<rparr>"
      have scan: "scan_line ?rest =
          (if k = 0 \<or> \<not> list_all field_value_byte (trim_core v) then None else Some ?l)"
        unfolding scan_line_def \<open>find_crlf ?rest = Some n\<close> option.case take Some Let_def v name'(1) ..
      let ?f = "\<lparr>fld_name_data = headers + of_nat (unat cursor), fld_name_length = of_nat k,
        fld_value_data = headers + of_nat (unat cursor + k + 1 + length (trim_lead v)),
        fld_value_length = of_nat (length (trim_core v))\<rparr>"
      have asm: "http0_header_next_asm m headers len cursor Out =
          (if k = 0 \<or> \<not> list_all field_value_byte (trim_core v) then fail EINVAL
           else Inr (of_nat (unat cursor + n + 2), ?f))"
        unfolding http0_header_next_asm_def Let_def \<open>find_crlf ?rest = Some n\<close> option.case take Some v trim_lengths [of v]
        using guards assms(2) nonzero by simp
      have "?f = field_of headers cursor ?l"
        by (simp add: field_of_def name(2) add.assoc)
      moreover have "of_nat (unat cursor + n + 2) = cursor + of_nat (length (render ?l))"
        by (simp add: render_def n add.assoc)
      ultimately show ?thesis unfolding asm scan by simp
    qed
  qed (use guards assms(2) in \<open>simp add: http0_header_next_asm_def scan_line_def Let_def\<close>)
qed

section \<open>A line of the section as a field\<close>

lemma part_of_section:
  assumes valid: "object_span_valid headers len" and at: "drop i (bytes_at m headers len) = part @ rest"
  shows "object_span_valid (headers + of_nat i) (of_nat (length part))"
    and "bytes_at m (headers + of_nat i) (of_nat (length part)) = part" and "i + length part \<le> unat len \<or> part = []"
    and "unat (of_nat (length part) :: u64) = length part"
proof -
  have le: "length part + length rest = unat len - i" using arg_cong [OF at, of length] by simp
  then show fits: "i + length part \<le> unat len \<or> part = []" by (cases part) auto
  have "length part < 18446744073709551616" using le unat_u64_upper [of len] by linarith
  then show n: "unat (of_nat (length part) :: u64) = length part" by (rule unat_of_nat_u64)
  show "object_span_valid (headers + of_nat i) (of_nat (length part))"
    using fits object_span_part [OF valid, of i "of_nat (length part)"] n by (cases "part = []") auto
  show "bytes_at m (headers + of_nat i) (of_nat (length part)) = part"
  proof (cases "part = []")
    case False
    then have "bytes_at m (headers + of_nat i) (of_nat (length part)) = take (length part) (part @ rest)"
      using fits bytes_at_part [of i "of_nat (length part)" len m headers] n at by simp
    then show ?thesis by simp
  qed simp
qed

definition line_at :: "mem \<Rightarrow> addr \<Rightarrow> u64 \<Rightarrow> u64 \<Rightarrow> header_line \<Rightarrow> u8 list \<Rightarrow> bool" where
  "line_at m headers len cursor l rest \<longleftrightarrow> object_span_valid headers len \<and> line_ok l \<and>
     drop (unat cursor) (bytes_at m headers len) = render l @ rest"

lemma line_at_valid: "line_at m headers len cursor l rest \<Longrightarrow> object_span_valid headers len"
  and line_at_ok: "line_at m headers len cursor l rest \<Longrightarrow> line_ok l"
  and line_at_bytes:
    "line_at m headers len cursor l rest \<Longrightarrow> drop (unat cursor) (bytes_at m headers len) = render l @ rest"
  by (simp_all add: line_at_def)

lemma name_part:
  assumes line: "line_at m headers len cursor l rest"
  shows "object_span_valid (headers + cursor) (of_nat (length (ln_name l)))"
    and "bytes_at m (headers + cursor) (of_nat (length (ln_name l))) = ln_name l"
    and "unat (of_nat (length (ln_name l)) :: u64) = length (ln_name l)"
  using part_of_section [OF line_at_valid [OF line], of "unat cursor" m "ln_name l"] line_at_bytes [OF line]
  by (simp_all add: render_def)

lemma value_part:
  assumes line: "line_at m headers len cursor l rest"
  shows "object_span_valid (fld_value_data (field_of headers cursor l)) (fld_value_length (field_of headers cursor l))"
    and "bytes_at m (fld_value_data (field_of headers cursor l)) (fld_value_length (field_of headers cursor l)) = ln_value l"
    and "unat (of_nat (length (ln_value l)) :: u64) = length (ln_value l)"
proof -
  let ?i = "unat cursor + (length (ln_name l) + 1 + length (ln_lead l))"
  have "drop ?i (bytes_at m headers len) =
      drop (length (ln_name l) + 1 + length (ln_lead l)) (drop (unat cursor) (bytes_at m headers len))"
    by (simp add: add.commute)
  also have "\<dots> = ln_value l @ (ln_trail l @ [CR, LF] @ rest)" unfolding line_at_bytes [OF line] by (simp add: render_def)
  finally have at: "drop ?i (bytes_at m headers len) = ln_value l @ (ln_trail l @ [CR, LF] @ rest)" .
  have pos: "headers + of_nat ?i = fld_value_data (field_of headers cursor l)"
    by (simp add: field_of_def add.assoc)
  show "object_span_valid (fld_value_data (field_of headers cursor l)) (fld_value_length (field_of headers cursor l))"
    "bytes_at m (fld_value_data (field_of headers cursor l)) (fld_value_length (field_of headers cursor l)) = ln_value l"
    "unat (of_nat (length (ln_value l)) :: u64) = length (ln_value l)"
    using part_of_section [OF line_at_valid [OF line] at] unfolding pos by (simp_all add: field_of_def)
qed

lemma spans_read:
  assumes line: "line_at m headers len cursor l rest"
  shows "span_bytes m (name_span (field_of headers cursor l)) = ln_name l"
    and "span_bytes m (value_span (field_of headers cursor l)) = ln_value l"
  using name_part [OF line] value_part [OF line] by (simp_all add: name_span_def value_span_def field_of_def)

lemma spans_valid:
  assumes line: "line_at m headers len cursor l rest"
  shows "object_span_valid (span_data (name_span (field_of headers cursor l))) (span_length (name_span (field_of headers cursor l)))"
    and "object_span_valid (span_data (value_span (field_of headers cursor l))) (span_length (value_span (field_of headers cursor l)))"
  using name_part [OF line] value_part [OF line] by (simp_all add: name_span_def value_span_def field_of_def)

lemma name_length:
  assumes line: "line_at m headers len cursor l rest"
  shows "unat (span_length (name_span (field_of headers cursor l))) = length (ln_name l)"
  using name_part [OF line] by (simp add: name_span_def field_of_def)

lemma field_valid:
  assumes line: "line_at m headers len cursor l rest"
  shows "arbor_http_field_validate m (field_of headers cursor l) = Inr ()"
proof -
  have "span_length (name_span (field_of headers cursor l)) \<noteq> 0"
    using name_length [OF line] line_at_ok [OF line] by (metis length_0_conv line_ok_def unat_0)
  then show ?thesis
    using spans_read [OF line] spans_valid [OF line] line_at_ok [OF line]
    by (simp add: arbor_http_field_validate_def token_span_valid_def field_value_valid_def line_ok_def)
qed

lemma next_cursor:
  assumes line: "line_at m headers len cursor l rest"
  shows "unat (cursor + of_nat (length (render l))) = unat cursor + length (render l)"
    and "unat cursor + length (render l) \<le> unat len"
    and "length (render l) \<ge> 4"
proof -
  have "ln_name l \<noteq> []" using line_at_ok [OF line] by (simp add: line_ok_def)
  then show four: "length (render l) \<ge> 4" by (cases "ln_name l") (simp_all add: render_def)
  then have "render l \<noteq> []" by auto
  then show fits: "unat cursor + length (render l) \<le> unat len"
    using part_of_section(3) [OF line_at_valid [OF line] line_at_bytes [OF line]] by simp
  then show "unat (cursor + of_nat (length (render l))) = unat cursor + length (render l)"
    using unat_u64_upper [of len] by (intro unat_add_nat) simp
qed

lemma after_line:
  assumes line: "line_at m headers len cursor l rest"
  shows "drop (unat (cursor + of_nat (length (render l)))) (bytes_at m headers len) = rest"
proof -
  have "drop (unat cursor + length (render l)) (bytes_at m headers len) =
      drop (length (render l)) (drop (unat cursor) (bytes_at m headers len))" by (simp add: add.commute)
  then show ?thesis unfolding next_cursor(1) [OF line] line_at_bytes [OF line] by simp
qed

section \<open>One step of a search\<close>

text \<open>A request the checks accept, with the three objects a step stores to beside it.\<close>

definition scanner_ready :: "mem \<Rightarrow> request_object \<Rightarrow> addr \<Rightarrow> addr \<Rightarrow> addr \<Rightarrow> bool" where
  "scanner_ready m q cursor_at out has_field \<longleftrightarrow>
     request_header_span_validate m q = Inr () \<and> cursor_at \<noteq> 0 \<and> out \<noteq> 0 \<and> has_field \<noteq> 0 \<and>
     object_span_valid cursor_at SIZEOF_U64 \<and> object_span_valid out SIZEOF_FIELD \<and>
     object_span_valid has_field SIZEOF_BOOL \<and>
     \<not> request_region_overlaps q cursor_at SIZEOF_U64 \<and> \<not> request_region_overlaps q out SIZEOF_FIELD \<and>
     \<not> request_region_overlaps q has_field SIZEOF_BOOL \<and> \<not> spans_overlap cursor_at SIZEOF_U64 out SIZEOF_FIELD \<and>
     \<not> spans_overlap cursor_at SIZEOF_U64 has_field SIZEOF_BOOL \<and> \<not> spans_overlap out SIZEOF_FIELD has_field SIZEOF_BOOL"

abbreviation header_bytes :: "mem \<Rightarrow> request_object \<Rightarrow> u8 list" where
  "header_bytes m q \<equiv> bytes_at m (req_headers_ptr (rq q)) (req_headers_len (rq q))"

abbreviation field_at :: "request_object \<Rightarrow> u64 \<Rightarrow> header_line \<Rightarrow> arbor_http_field" where
  "field_at q cursor l \<equiv> field_of (req_headers_ptr (rq q)) cursor l"

abbreviation request_line_at :: "mem \<Rightarrow> request_object \<Rightarrow> u64 \<Rightarrow> header_line \<Rightarrow> u8 list \<Rightarrow> bool" where
  "request_line_at m q \<equiv> line_at m (req_headers_ptr (rq q)) (req_headers_len (rq q))"

lemma validated_headers:
  assumes "request_header_span_validate m q = Inr ()"
  shows "object_span_valid (req_headers_ptr (rq q)) (req_headers_len (rq q))"
  using assms by (auto simp: request_header_span_validate_def split: if_splits)

lemma header_next_line:
  assumes ready: "scanner_ready m q cursor_at out has_field" and more: "cursor < req_headers_len (rq q)"
  shows "arbor_http_request_header_next m q cursor_at cursor out has_field =
    (case scan_line (drop (unat cursor) (header_bytes m q)) of
       None \<Rightarrow> fail EINVAL
     | Some l \<Rightarrow> Inr (Some (cursor + of_nat (length (render l)), field_at q cursor l)))"
proof -
  let ?rest = "drop (unat cursor) (header_bytes m q)"
  have valid: "object_span_valid (req_headers_ptr (rq q)) (req_headers_len (rq q))"
    using ready validated_headers [of m q] by (simp add: scanner_ready_def)
  have nonzero: "req_headers_len (rq q) \<noteq> 0" using more by auto
  have asm: "http0_header_next_asm m (req_headers_ptr (rq q)) (req_headers_len (rq q)) cursor Out =
    (case scan_line ?rest of
       None \<Rightarrow> fail EINVAL
     | Some l \<Rightarrow> Inr (cursor + of_nat (length (render l)), field_at q cursor l))"
    using valid nonzero more by (intro asm_is_scan_line) (auto simp: object_span_valid_iff)
  have guards: "\<not> cursor > req_headers_len (rq q)" "cursor \<noteq> req_headers_len (rq q)" using more by auto
  show ?thesis
  proof (cases "scan_line ?rest")
    case None
    then show ?thesis
      using ready guards asm by (simp add: arbor_http_request_header_next_def scanner_ready_def)
  next
    case (Some l)
    then obtain rest' where "?rest = render l @ rest'" "line_ok l" using scan_line_iff by blast
    then have line: "request_line_at m q cursor l rest'" using valid by (simp add: line_at_def)
    have "\<not> (cursor + of_nat (length (render l)) \<le> cursor \<or> cursor + of_nat (length (render l)) > req_headers_len (rq q))"
      using next_cursor [OF line] by (simp add: word_le_nat_alt word_less_nat_alt)
    then show ?thesis
      using ready guards asm Some field_valid [OF line]
      by (simp add: arbor_http_request_header_next_def scanner_ready_def)
  qed
qed

lemma header_step:
  assumes ready: "scanner_ready m q cursor_at out has_field" and more: "cursor < req_headers_len (rq q)"
  shows "arbor_http_request_header_next m q cursor_at cursor out has_field = Inr step \<longleftrightarrow>
    (\<exists>l rest. request_line_at m q cursor l rest \<and>
       step = Some (cursor + of_nat (length (render l)), field_at q cursor l))"
proof -
  have valid: "object_span_valid (req_headers_ptr (rq q)) (req_headers_len (rq q))"
    using ready validated_headers [of m q] by (simp add: scanner_ready_def)
  have scan: "scan_line (drop (unat cursor) (header_bytes m q)) = Some l \<longleftrightarrow> (\<exists>rest. request_line_at m q cursor l rest)" for l
    unfolding scan_line_iff line_at_def using valid by blast
  have "arbor_http_request_header_next m q cursor_at cursor out has_field = Inr step \<longleftrightarrow>
    (\<exists>l. scan_line (drop (unat cursor) (header_bytes m q)) = Some l \<and>
       step = Some (cursor + of_nat (length (render l)), field_at q cursor l))"
    unfolding header_next_line [OF ready more]
    by (cases "scan_line (drop (unat cursor) (header_bytes m q))") auto
  then show ?thesis unfolding scan by blast
qed

text \<open>What is left of the section, as lines.\<close>

definition lines_from :: "mem \<Rightarrow> request_object \<Rightarrow> u64 \<Rightarrow> header_line list \<Rightarrow> bool" where
  "lines_from m q cursor ls \<longleftrightarrow> drop (unat cursor) (header_bytes m q) = render_all ls \<and> list_all line_ok ls"

lemma lines_from_end: "\<not> cursor < req_headers_len (rq q) \<Longrightarrow> lines_from m q cursor ls \<longleftrightarrow> ls = []"
  by (cases ls) (auto simp: lines_from_def word_less_nat_alt render_def)

lemma lines_from_start: "cursor < req_headers_len (rq q) \<Longrightarrow> lines_from m q cursor ls \<Longrightarrow> ls \<noteq> []"
  by (auto simp: lines_from_def word_less_nat_alt)

lemma lines_from_line:
  assumes line: "request_line_at m q cursor l rest"
  shows "lines_from m q (cursor + of_nat (length (render l))) ls \<longleftrightarrow> lines_from m q cursor (l # ls)"
  using after_line [OF line] line_at_bytes [OF line] line_at_ok [OF line] by (simp add: lines_from_def)

lemma lines_from_Cons:
  assumes "request_header_span_validate m q = Inr ()" and "lines_from m q cursor (l # ls)"
  shows "request_line_at m q cursor l (render_all ls)"
  using assms validated_headers by (simp add: lines_from_def line_at_def)

text \<open>The next line is the same line every time.\<close>

lemma line_unique:
  assumes "line_at m headers len cursor l rest" and "line_at m headers len cursor l' rest'"
  shows "l = l'"
  using scan_line_render [OF line_at_ok [OF assms(1)], of rest] scan_line_render [OF line_at_ok [OF assms(2)], of rest']
    line_at_bytes [OF assms(1)] line_at_bytes [OF assms(2)] by simp

section \<open>The searches on lines\<close>

abbreviation loop_ready :: "mem \<Rightarrow> http_frame \<Rightarrow> request_object \<Rightarrow> bool" where
  "loop_ready m fr q \<equiv> scanner_ready m q (fr_cursor fr) (fr_field fr) (fr_has_field fr)"

definition same_name :: "u8 list \<Rightarrow> u8 list \<Rightarrow> bool" where
  "same_name a b \<longleftrightarrow> map ascii_lower a = map ascii_lower b"

abbreviation named :: "mem \<Rightarrow> arbor_span \<Rightarrow> header_line \<Rightarrow> bool" where
  "named m name l \<equiv> same_name (ln_name l) (span_bytes m name)"

lemma list_all2_same_name: "list_all2 (\<lambda>a b. ascii_lower a = ascii_lower b) xs ys \<longleftrightarrow> same_name xs ys"
proof (induction xs arbitrary: ys)
  case Nil
  then show ?case by (simp add: same_name_def eq_commute)
next
  case (Cons a xs)
  then show ?case by (cases ys) (simp_all add: same_name_def)
qed

lemma same_name_length: "same_name a b \<Longrightarrow> length a = length b"
  unfolding same_name_def using map_eq_imp_length_eq by blast

lemma line_named:
  assumes line: "request_line_at m q cursor l rest" and "object_span_valid (span_data name) (span_length name)"
  shows "ascii_equal_ci m (name_span (field_at q cursor l)) name \<longleftrightarrow> named m name l"
proof -
  have "same_name (ln_name l) (span_bytes m name) \<Longrightarrow> span_length (name_span (field_at q cursor l)) = span_length name"
    using same_name_length [of "ln_name l" "span_bytes m name"] name_length [OF line] by (simp add: word_unat_eq_iff)
  then show ?thesis
    using assms(2) spans_read(1) [OF line] spans_valid(1) [OF line]
    by (auto simp: ascii_equal_ci_def list_all2_same_name)
qed

lemma line_named_literal:
  assumes line: "request_line_at m q cursor l rest"
  shows "span_equal_literal_ci m (name_span (field_at q cursor l)) literal \<longleftrightarrow>
    same_name (ln_name l) (ascii_bytes literal)"
  using spans_read(1) [OF line] spans_valid(1) [OF line] name_length [OF line]
    same_name_length [of "ln_name l" "ascii_bytes literal"]
  by (auto simp: span_equal_literal_ci_def bytes_equal_literal_ci_def list_all2_same_name)

text \<open>A step of a search either meets bytes that are no line, or takes the first line off.\<close>

lemma search_step:
  assumes ready: "scanner_ready m q cursor_at out has_field" and more: "cursor < req_headers_len (rq q)"
  obtains (bad) "\<And>step. arbor_http_request_header_next m q cursor_at cursor out has_field \<noteq> Inr step"
      and "\<And>ls. \<not> lines_from m q cursor ls"
    | (line) l rest where "request_line_at m q cursor l rest"
      and "arbor_http_request_header_next m q cursor_at cursor out has_field =
        Inr (Some (cursor + of_nat (length (render l)), field_at q cursor l))"
      and "\<And>P. (\<exists>ls. lines_from m q cursor ls \<and> P ls) \<longleftrightarrow>
        (\<exists>ls. lines_from m q (cursor + of_nat (length (render l))) ls \<and> P (l # ls))"
proof -
  note step = header_step [OF ready more]
  have valid: "request_header_span_validate m q = Inr ()" using ready by (simp add: scanner_ready_def)
  show thesis
  proof (cases "\<exists>l rest. request_line_at m q cursor l rest")
    case False
    then have "\<not> lines_from m q cursor ls" for ls
      using lines_from_start [OF more, of m ls] lines_from_Cons [OF valid] by (cases ls) blast+
    moreover have "arbor_http_request_header_next m q cursor_at cursor out has_field \<noteq> Inr step" for step
      using step False by blast
    ultimately show thesis by (rule bad [rotated])
  next
    case True
    then obtain l rest where at: "request_line_at m q cursor l rest" by blast
    have "(\<exists>ls. lines_from m q cursor ls \<and> P ls) \<longleftrightarrow>
        (\<exists>ls. lines_from m q (cursor + of_nat (length (render l))) ls \<and> P (l # ls))" for P
    proof
      assume "\<exists>ls. lines_from m q cursor ls \<and> P ls"
      then obtain ls where ls: "lines_from m q cursor ls" "P ls" by blast
      then obtain l' ls' where "ls = l' # ls'" using lines_from_start [OF more] by (cases ls) auto
      moreover from this have "l' = l" using ls lines_from_Cons [OF valid] line_unique at by blast
      ultimately show "\<exists>ls. lines_from m q (cursor + of_nat (length (render l))) ls \<and> P (l # ls)"
        using ls lines_from_line [OF at] by blast
    qed (use lines_from_line [OF at] in blast)
    moreover have "arbor_http_request_header_next m q cursor_at cursor out has_field =
        Inr (Some (cursor + of_nat (length (render l)), field_at q cursor l))" using step at by blast
    ultimately show thesis using line [OF at] by blast
  qed
qed

lemma remaining_less:
  assumes line: "request_line_at m q cursor l rest"
  shows "unat (req_headers_len (rq q)) - unat (cursor + of_nat (length (render l))) + 1
    \<le> unat (req_headers_len (rq q)) - unat cursor"
  using next_cursor [OF line] by simp

lemma count_loop_lines:
  assumes "object_span_valid (span_data name) (span_length name)" and "loop_ready m fr q"
    and "unat candidate + (unat (req_headers_len (rq q)) - unat cursor) < 18446744073709551616"
  shows "count_loop m fr q name cursor candidate = Inr n \<longleftrightarrow>
    (\<exists>ls. lines_from m q cursor ls \<and> n = candidate + of_nat (length (filter (named m name) ls)))"
  using assms
proof (induction m fr q name cursor candidate rule: count_loop.induct)
  case (1 m fr q name cursor candidate)
  show ?case
  proof (cases "cursor < req_headers_len (rq q)")
    case False
    then show ?thesis by (subst count_loop.simps) (auto simp: lines_from_end)
  next
    case more: True
    from "1.prems"(2) more show ?thesis
    proof (cases rule: search_step)
      case bad
      then show ?thesis using more
        by (subst count_loop.simps)
          (cases "arbor_http_request_header_next m q (fr_cursor fr) cursor (fr_field fr) (fr_has_field fr)"; auto)
    next
      case (line l rest)
      let ?c = "cursor + of_nat (length (render l))"
      note left = remaining_less [OF line(1)] "1.prems"(3)
      show ?thesis
      proof (cases "named m name l")
        case True
        have fits: "unat candidate + 1 < 18446744073709551616" using left by linarith
        then have next_count: "unat (candidate + 1) = unat candidate + 1" using unat_add_nat [of candidate 1] by simp
        then have max: "candidate \<noteq> UINTPTR_MAX" by auto
        then have loop: "count_loop m fr q name cursor candidate = count_loop m fr q name ?c (candidate + 1)"
          using more line(2) True line_named [OF line(1) "1.prems"(1)] by (subst count_loop.simps) simp
        have "count_loop m fr q name ?c (candidate + 1) = Inr n \<longleftrightarrow>
            (\<exists>ls. lines_from m q ?c ls \<and> n = candidate + 1 + of_nat (length (filter (named m name) ls)))"
          using "1.IH"(1) [OF more line(2)] True line_named [OF line(1) "1.prems"(1)] max "1.prems" left next_count
          by simp
        then show ?thesis unfolding loop line(3) using True by (simp add: add.assoc)
      next
        case False
        have loop: "count_loop m fr q name cursor candidate = count_loop m fr q name ?c candidate"
          using more line(2) False line_named [OF line(1) "1.prems"(1)] by (subst count_loop.simps) simp
        have "count_loop m fr q name ?c candidate = Inr n \<longleftrightarrow>
            (\<exists>ls. lines_from m q ?c ls \<and> n = candidate + of_nat (length (filter (named m name) ls)))"
          using "1.IH"(2) [OF more line(2)] False line_named [OF line(1) "1.prems"(1)] "1.prems" left by simp
        then show ?thesis unfolding loop line(3) using False by simp
      qed
    qed
  qed
qed

text \<open>A line after some other lines of the section.\<close>

definition line_after :: "mem \<Rightarrow> request_object \<Rightarrow> u64 \<Rightarrow> header_line list \<Rightarrow> header_line \<Rightarrow> bool" where
  "line_after m q cursor before l \<longleftrightarrow> list_all line_ok before \<and> line_ok l \<and>
     (\<exists>rest. drop (unat cursor) (header_bytes m q) = render_all before @ render l @ rest)"

lemma line_after_Nil:
  assumes line: "request_line_at m q cursor l rest"
  shows "line_after m q cursor [] l' \<longleftrightarrow> l' = l"
proof
  assume "line_after m q cursor [] l'"
  then obtain rest' where "request_line_at m q cursor l' rest'"
    using line_at_valid [OF line] by (auto simp: line_after_def line_at_def)
  then show "l' = l" using line_unique line by blast
next
  assume "l' = l"
  then show "line_after m q cursor [] l'"
    using line_at_ok [OF line] line_at_bytes [OF line] by (simp add: line_after_def)
qed

lemma line_after_Cons:
  assumes line: "request_line_at m q cursor l rest"
  shows "line_after m q cursor (k # before) l' \<longleftrightarrow>
    k = l \<and> line_after m q (cursor + of_nat (length (render l))) before l'"
proof
  assume *: "line_after m q cursor (k # before) l'"
  then have "\<exists>rest'. request_line_at m q cursor k rest'"
    using line_at_valid [OF line] by (auto simp: line_after_def line_at_def)
  then have "k = l" using line_unique line by blast
  then show "k = l \<and> line_after m q (cursor + of_nat (length (render l))) before l'"
    using * after_line [OF line] line_at_bytes [OF line] by (auto simp: line_after_def)
next
  assume "k = l \<and> line_after m q (cursor + of_nat (length (render l))) before l'"
  then show "line_after m q cursor (k # before) l'"
    using after_line [OF line] line_at_bytes [OF line] line_at_ok [OF line] by (auto simp: line_after_def)
qed

definition first_named ::
    "mem \<Rightarrow> request_object \<Rightarrow> arbor_span \<Rightarrow> u64 \<Rightarrow> arbor_http_field \<Rightarrow> bool" where
  "first_named m q name cursor field \<longleftrightarrow>
     (\<exists>before l. line_after m q cursor before l \<and> (\<forall>k\<in>set before. \<not> named m name k) \<and> named m name l \<and>
        field = field_at q (cursor + of_nat (length (render_all before))) l)"

lemma first_named_step:
  assumes line: "request_line_at m q cursor l rest"
  shows "first_named m q name cursor field \<longleftrightarrow>
    (if named m name l then field = field_at q cursor l
     else first_named m q name (cursor + of_nat (length (render l))) field)"
proof -
  have split: "first_named m q name cursor field \<longleftrightarrow>
      (\<exists>l'. line_after m q cursor [] l' \<and> named m name l' \<and> field = field_at q cursor l') \<or>
      (\<exists>k before l'. line_after m q cursor (k # before) l' \<and> \<not> named m name k \<and> (\<forall>k\<in>set before. \<not> named m name k) \<and>
        named m name l' \<and> field = field_at q (cursor + of_nat (length (render_all (k # before)))) l')" (is "_ \<longleftrightarrow> ?R")
  proof
    assume "first_named m q name cursor field"
    then obtain before l' where b: "line_after m q cursor before l'" "\<forall>k\<in>set before. \<not> named m name k"
      "named m name l'" "field = field_at q (cursor + of_nat (length (render_all before))) l'"
      by (auto simp: first_named_def)
    show ?R
    proof (cases before)
      case Nil
      then show ?thesis using b by auto
    next
      case (Cons k ks)
      then show ?thesis using b by (intro disjI2 exI [of _ k] exI [of _ ks] exI [of _ l']) simp
    qed
  next
    assume ?R
    then show "first_named m q name cursor field"
    proof (elim disjE exE conjE)
      fix l' assume "line_after m q cursor [] l'" "named m name l'" "field = field_at q cursor l'"
      then show ?thesis unfolding first_named_def by (intro exI [of _ "[]"] exI [of _ l']) simp
    next
      fix k before l'
      assume "line_after m q cursor (k # before) l'" "\<not> named m name k" "\<forall>k\<in>set before. \<not> named m name k"
        "named m name l'" "field = field_at q (cursor + of_nat (length (render_all (k # before)))) l'"
      then show ?thesis unfolding first_named_def by (intro exI [of _ "k # before"] exI [of _ l']) simp
    qed
  qed
  have pos: "cursor + of_nat (length (render_all (l # before))) =
      cursor + of_nat (length (render l)) + of_nat (length (render_all before))" for before
    by (simp add: add.assoc)
  have next_one: "first_named m q name (cursor + of_nat (length (render l))) field \<longleftrightarrow>
      (\<exists>before l'. line_after m q (cursor + of_nat (length (render l))) before l' \<and>
        (\<forall>k\<in>set before. \<not> named m name k) \<and> named m name l' \<and>
        field = field_at q (cursor + of_nat (length (render_all (l # before)))) l')"
    unfolding first_named_def pos ..
  show ?thesis
    unfolding split line_after_Nil [OF line] line_after_Cons [OF line] next_one
    by (cases "named m name l") simp_all
qed

lemma find_first_loop_lines:
  assumes "object_span_valid (span_data name) (span_length name)" and "loop_ready m fr q"
  shows "find_first_loop m fr q name cursor = Inr (Some field) \<longleftrightarrow> first_named m q name cursor field"
    and "find_first_loop m fr q name cursor = Inr None \<longleftrightarrow>
      (\<exists>ls. lines_from m q cursor ls \<and> (\<forall>l\<in>set ls. \<not> named m name l))"
proof -
  have "(find_first_loop m fr q name cursor = Inr (Some field) \<longleftrightarrow> first_named m q name cursor field) \<and>
    (find_first_loop m fr q name cursor = Inr None \<longleftrightarrow>
      (\<exists>ls. lines_from m q cursor ls \<and> (\<forall>l\<in>set ls. \<not> named m name l)))"
    using assms
  proof (induction m fr q name cursor rule: find_first_loop.induct)
    case (1 m fr q name cursor)
    show ?case
    proof (cases "cursor < req_headers_len (rq q)")
      case False
      then have "\<not> first_named m q name cursor field"
        by (auto simp: first_named_def line_after_def word_less_nat_alt)
      then show ?thesis using False by (subst (1 2) find_first_loop.simps) (auto simp: lines_from_end)
    next
      case more: True
      from "1.prems"(2) more show ?thesis
      proof (cases rule: search_step)
        case bad
        have "\<not> line_after m q cursor before l" for before l
        proof
          assume "line_after m q cursor before l"
          then obtain k rest where "request_line_at m q cursor k rest"
            using "1.prems"(2) validated_headers [of m q]
            by (cases before) (auto simp: line_after_def line_at_def scanner_ready_def)
          then show False using header_step [OF "1.prems"(2) more] bad(1) by blast
        qed
        then have "\<not> first_named m q name cursor field" by (simp add: first_named_def)
        then show ?thesis using more bad
          by (subst (1 2) find_first_loop.simps)
            (cases "arbor_http_request_header_next m q (fr_cursor fr) cursor (fr_field fr) (fr_has_field fr)"; auto)
      next
        case (line l rest)
        let ?c = "cursor + of_nat (length (render l))"
        have loop: "find_first_loop m fr q name cursor =
            (if named m name l then Inr (Some (field_at q cursor l)) else find_first_loop m fr q name ?c)"
          using more line(2) line_named [OF line(1) "1.prems"(1)] by (subst find_first_loop.simps) simp
        show ?thesis
        proof (cases "named m name l")
          case True
          then show ?thesis unfolding loop first_named_step [OF line(1)] line(3) by auto
        next
          case False
          then have "(find_first_loop m fr q name ?c = Inr (Some field) \<longleftrightarrow> first_named m q name ?c field) \<and>
            (find_first_loop m fr q name ?c = Inr None \<longleftrightarrow>
              (\<exists>ls. lines_from m q ?c ls \<and> (\<forall>l\<in>set ls. \<not> named m name l)))"
            using "1.IH" [OF more line(2)] "1.prems" line_named [OF line(1) "1.prems"(1)] by simp
          then show ?thesis unfolding loop first_named_step [OF line(1)] line(3) using False by simp
        qed
      qed
    qed
  qed
  then show "find_first_loop m fr q name cursor = Inr (Some field) \<longleftrightarrow> first_named m q name cursor field"
    and "find_first_loop m fr q name cursor = Inr None \<longleftrightarrow>
      (\<exists>ls. lines_from m q cursor ls \<and> (\<forall>l\<in>set ls. \<not> named m name l))"
    by blast+
qed

end
