(* ===== verification/Http_Connection.thy ===== *)
theory Http_Connection
  imports Http_Lines
begin

text \<open>
  The \<open>Connection\<close> value as a comma separated list. The loop of \<open>connection_value_has_close\<close> is shown to accept
  exactly the lists whose elements are empty or tokens once trimmed, and to report whether one of them is
  \<open>close\<close> in any case; the walk over all \<open>Connection\<close> lines of a request follows.
\<close>

fun elements :: "u8 list \<Rightarrow> u8 list list" where
  "elements [] = [[]]"
| "elements (b # bs) =
     (if b = comma then [] # elements bs else (b # hd (elements bs)) # tl (elements bs))"

definition element_ok :: "u8 list \<Rightarrow> bool" where
  "element_ok e \<longleftrightarrow> list_all token_char (trim_core e)"

definition close_listed :: "u8 list \<Rightarrow> bool" where
  "close_listed bytes \<longleftrightarrow> (\<exists>e \<in> set (elements bytes). same_name (trim_core e) (ascii_bytes ''close''))"

section \<open>Splitting at commas\<close>

lemma elements_not_Nil [simp]: "elements bs \<noteq> []"
  by (induction bs) simp_all

lemma elements_single: "comma \<notin> set x \<Longrightarrow> elements x = [x]"
  by (induction x) auto

lemma elements_append: "comma \<notin> set x \<Longrightarrow> elements (x @ comma # rest) = x # elements rest"
  by (induction x) auto

lemma elements_prefix: "comma \<notin> set x \<Longrightarrow> elements (x @ rest) = (x @ hd (elements rest)) # tl (elements rest)"
  by (induction x) auto

lemma elements_head: "c \<noteq> comma \<Longrightarrow> \<exists>e. hd (elements (c # rest)) = c # e"
  by simp

lemma first_element_bad: "\<not> P (hd (elements bs)) \<Longrightarrow> \<not> list_all P (elements bs)"
  using hd_in_set [OF elements_not_Nil, of bs] by (auto simp: list_all_iff)

section \<open>Trimming\<close>

lemma trim_core_ows: "ows_byte b \<Longrightarrow> trim_core (b # e) = trim_core e"
  by (simp add: trim_core_def)

lemma trim_core_Nil [simp]: "trim_core [] = []"
  by (simp add: trim_core_def)

lemma trim_core_keeps:
  assumes "\<not> ows_byte c" and "a = [] \<or> \<not> ows_byte (hd a)"
  shows "\<exists>b'. trim_core (a @ c # b) = a @ c # b'"
proof -
  have "dropWhile ows_byte (a @ c # b) = a @ c # b" using assms by (cases a) auto
  moreover have "rev (dropWhile ows_byte (rev b @ c # rev a)) = a @ c # rev (dropWhile ows_byte (rev b))"
    using assms(1) by (simp add: dropWhile_append3 dropWhile_append)
  ultimately show ?thesis by (simp add: trim_core_def)
qed

lemma trim_core_token:
  assumes "list_all token_char t" and "t \<noteq> []" and "list_all ows_byte w"
  shows "trim_core (t @ w) = t"
proof -
  have "\<not> ows_byte b" if "b \<in> set t" for b using that assms(1) ows_not_token by (auto simp: list_all_iff)
  then have "trimmed t" using assms(2) by (simp add: trimmed_def)
  then show ?thesis using trim_unique(2) [of "[]" t w] assms by simp
qed

section \<open>The loop\<close>

lemma skipped_elements:
  assumes "ows_byte b \<or> b = comma"
  shows "list_all element_ok (elements (b # rest)) \<longleftrightarrow> list_all element_ok (elements rest)"
    and "close_listed (b # rest) \<longleftrightarrow> close_listed rest"
proof -
  obtain e es where es: "elements rest = e # es" by (cases "elements rest") auto
  have empty: "element_ok []" "\<not> same_name [] (ascii_bytes ''close'')" by (simp_all add: element_ok_def same_name_def)
  show "list_all element_ok (elements (b # rest)) \<longleftrightarrow> list_all element_ok (elements rest)"
    using assms empty es by (cases "b = comma") (simp_all add: element_ok_def trim_core_ows)
  show "close_listed (b # rest) \<longleftrightarrow> close_listed rest"
    using assms empty es by (cases "b = comma") (simp_all add: close_listed_def trim_core_ows)
qed

lemma skipped_all:
  "list_all element_ok (elements (dropWhile (\<lambda>b. ows_byte b \<or> b = comma) rest)) \<longleftrightarrow> list_all element_ok (elements rest)"
  "close_listed (dropWhile (\<lambda>b. ows_byte b \<or> b = comma) rest) \<longleftrightarrow> close_listed rest"
  by (induction rest) (auto simp: skipped_elements simp del: elements.simps(2))

lemma bytes_equal_literal_same_name: "bytes_equal_literal_ci bytes literal \<longleftrightarrow> same_name bytes (ascii_bytes literal)"
  using same_name_length [of bytes "ascii_bytes literal"]
  by (auto simp: bytes_equal_literal_ci_def list_all2_same_name)

lemma has_close_loop_spec:
  "has_close_loop rest c =
     (if list_all element_ok (elements rest) then Inr (c \<or> close_listed rest) else fail EINVAL)"
proof (induction rest c rule: has_close_loop.induct)
  case (1 rest c)
  define start where "start = dropWhile (\<lambda>b. ows_byte b \<or> b = comma) rest"
  define tok where "tok = takeWhile token_char start"
  define white where "white = takeWhile ows_byte (dropWhile token_char start)"
  define after where "after = dropWhile ows_byte (dropWhile token_char start)"
  have skip: "list_all element_ok (elements rest) \<longleftrightarrow> list_all element_ok (elements start)"
    "close_listed rest \<longleftrightarrow> close_listed start"
    unfolding start_def using skipped_all by blast+
  have parts: "start = tok @ white @ after"
    unfolding tok_def white_def after_def by (simp add: takeWhile_dropWhile_id)
  have tokens: "list_all token_char tok" and whites: "list_all ows_byte white"
    unfolding tok_def white_def by (auto simp: list_all_iff dest: set_takeWhileD)
  have free: "comma \<notin> set (tok @ white)"
    using list_all_free [OF tokens] list_all_free [OF whites] by simp
  have first: "start \<noteq> [] \<Longrightarrow> \<not> (ows_byte (hd start) \<or> hd start = comma)"
    unfolding start_def by (rule hd_dropWhile)
  have step: "has_close_loop rest c =
      (if start = [] then Inr c
       else if tok = [] then fail EINVAL
       else if after = [] then Inr (c \<or> same_name tok (ascii_bytes ''close''))
       else if hd after \<noteq> comma then fail EINVAL
       else has_close_loop (tl after) (c \<or> same_name tok (ascii_bytes ''close'')))"
    by (subst has_close_loop.simps)
      (simp add: Let_def start_def [symmetric] tok_def [symmetric] after_def [symmetric] bytes_equal_literal_same_name)
  consider "start = []" | "start \<noteq> []" "tok = []" | "start \<noteq> []" "tok \<noteq> []" "after = []"
    | "start \<noteq> []" "tok \<noteq> []" "after \<noteq> []" "hd after \<noteq> comma"
    | "start \<noteq> []" "tok \<noteq> []" "after \<noteq> []" "hd after = comma" by blast
  then show ?case
  proof cases
    case 1
    then show ?thesis unfolding step skip by (simp add: element_ok_def close_listed_def same_name_def)
  next
    case 2
    then obtain b bs where start: "start = b # bs" by (cases start) auto
    then have b: "\<not> ows_byte b" "b \<noteq> comma" "\<not> token_char b"
      using first 2 tok_def by (auto split: if_splits)
    obtain e where "hd (elements start) = b # e" using elements_head [OF b(2)] start by blast
    moreover obtain e' where "trim_core (b # e) = b # e'" using trim_core_keeps [OF b(1), of "[]" e] by auto
    ultimately have "\<not> element_ok (hd (elements start))" using b(3) by (simp add: element_ok_def)
    then have "\<not> list_all element_ok (elements start)" by (rule first_element_bad)
    then show ?thesis using 2 unfolding step skip by simp
  next
    case 3
    then have "elements start = [tok @ white]" using parts free elements_single by simp
    then show ?thesis
      using 3 tokens trim_core_token [OF tokens _ whites] unfolding step skip
      by (simp add: element_ok_def close_listed_def)
  next
    case 4
    then obtain a as where after: "after = a # as" by (cases after) auto
    have a: "a \<noteq> comma" "\<not> ows_byte a" using 4 after hd_dropWhile [of ows_byte "dropWhile token_char start"] after_def by auto
    obtain e where "hd (elements after) = a # e" using elements_head [OF a(1)] after by blast
    then have e: "hd (elements start) = (tok @ white) @ a # e"
      using elements_prefix [OF free, of after] parts by simp
    obtain t ts where tok: "tok = t # ts" using 4 by (cases tok) auto
    then have "\<not> ows_byte t" using tokens ows_not_token by auto
    then obtain e' where core: "trim_core ((tok @ white) @ a # e) = (tok @ white) @ a # e'"
      using trim_core_keeps [OF a(2), of "tok @ white" e] tok by auto
    have "\<not> list_all token_char (white @ [a])"
    proof (cases white)
      case Nil
      then have "dropWhile token_char start = a # as" using after parts tok_def
        by (metis append_Nil append_eq_append_conv takeWhile_dropWhile_id)
      then show ?thesis using hd_dropWhile [of token_char start] Nil by auto
    next
      case (Cons w ws)
      then show ?thesis using whites ows_not_token by auto
    qed
    then have "\<not> element_ok (hd (elements start))" unfolding element_ok_def e core by auto
    then have "\<not> list_all element_ok (elements start)" by (rule first_element_bad)
    then show ?thesis using 4 unfolding step skip by simp
  next
    case 5
    then have "start = (tok @ white) @ comma # tl after" using parts by (cases after) auto
    then have es: "elements start = (tok @ white) # elements (tl after)" using elements_append [OF free] by simp
    have core: "trim_core (tok @ white) = tok" using trim_core_token [OF tokens 5(2) whites] .
    have IH: "has_close_loop (tl after) (c \<or> same_name tok (ascii_bytes ''close'')) =
        (if list_all element_ok (elements (tl after))
         then Inr ((c \<or> same_name tok (ascii_bytes ''close'')) \<or> close_listed (tl after)) else fail EINVAL)"
      using "1.IH" [OF start_def 5(1) tok_def after_def] 5 bytes_equal_literal_same_name by simp
    have "close_listed start \<longleftrightarrow> same_name tok (ascii_bytes ''close'') \<or> close_listed (tl after)"
      by (simp add: close_listed_def es core)
    moreover have "list_all element_ok (elements start) \<longleftrightarrow> list_all element_ok (elements (tl after))"
      using tokens by (simp add: es core element_ok_def)
    ultimately show ?thesis unfolding step skip IH using 5 by auto
  qed
qed

section \<open>All Connection lines\<close>

abbreviation connection_line :: "header_line \<Rightarrow> bool" where
  "connection_line l \<equiv> same_name (ln_name l) (ascii_bytes ''Connection'')"

lemma connection_value:
  assumes line: "request_line_at m q cursor l rest"
  shows "connection_value_has_close m (value_span (field_at q cursor l)) Out =
    (if list_all element_ok (elements (ln_value l)) then Inr (close_listed (ln_value l)) else fail EINVAL)"
proof -
  have "field_value_valid m (value_span (field_at q cursor l))"
    using field_valid [OF line] by (simp add: arbor_http_field_validate_def split: if_splits)
  then show ?thesis
    using spans_read(2) [OF line] by (simp add: connection_value_has_close_def has_close_loop_spec)
qed

lemma connection_close_loop_lines:
  assumes "loop_ready m fr q"
  shows "connection_close_loop m fr q cursor candidate = Inr b \<longleftrightarrow>
    (\<exists>ls. lines_from m q cursor ls \<and>
       (\<forall>l\<in>set ls. connection_line l \<longrightarrow> list_all element_ok (elements (ln_value l))) \<and>
       b = (candidate \<or> (\<exists>l\<in>set ls. connection_line l \<and> close_listed (ln_value l))))"
  using assms
proof (induction m fr q cursor candidate rule: connection_close_loop.induct)
  case (1 m fr q cursor candidate)
  show ?case
  proof (cases "cursor < req_headers_len (rq q)")
    case False
    then show ?thesis by (subst connection_close_loop.simps) (auto simp: lines_from_end)
  next
    case more: True
    from "1.prems" more show ?thesis
    proof (cases rule: search_step)
      case bad
      then show ?thesis using more
        by (subst connection_close_loop.simps)
          (cases "arbor_http_request_header_next m q (fr_cursor fr) cursor (fr_field fr) (fr_has_field fr)"; auto)
    next
      case (line l rest)
      let ?c = "cursor + of_nat (length (render l))"
      have loop: "connection_close_loop m fr q cursor candidate =
          (if \<not> connection_line l then connection_close_loop m fr q ?c candidate
           else if list_all element_ok (elements (ln_value l))
             then connection_close_loop m fr q ?c (candidate \<or> close_listed (ln_value l))
           else fail EINVAL)"
        using more line(2) line_named_literal [OF line(1)] connection_value [OF line(1)]
        by (subst connection_close_loop.simps) simp
      show ?thesis
      proof (cases "connection_line l")
        case False
        have "connection_close_loop m fr q ?c candidate = Inr b \<longleftrightarrow>
            (\<exists>ls. lines_from m q ?c ls \<and>
              (\<forall>l\<in>set ls. connection_line l \<longrightarrow> list_all element_ok (elements (ln_value l))) \<and>
              b = (candidate \<or> (\<exists>l\<in>set ls. connection_line l \<and> close_listed (ln_value l))))"
          using "1.IH"(1) [OF more line(2)] False "1.prems" line_named_literal [OF line(1)] by simp
        then show ?thesis unfolding loop line(3) using False by simp
      next
        case True
        show ?thesis
        proof (cases "list_all element_ok (elements (ln_value l))")
          case ok: True
          have "connection_close_loop m fr q ?c (candidate \<or> close_listed (ln_value l)) = Inr b \<longleftrightarrow>
              (\<exists>ls. lines_from m q ?c ls \<and>
                (\<forall>l\<in>set ls. connection_line l \<longrightarrow> list_all element_ok (elements (ln_value l))) \<and>
                b = ((candidate \<or> close_listed (ln_value l)) \<or>
                  (\<exists>l\<in>set ls. connection_line l \<and> close_listed (ln_value l))))"
            using "1.IH"(2) [OF more line(2)] True ok "1.prems" line_named_literal [OF line(1)]
              connection_value [OF line(1)] by simp
          then show ?thesis unfolding loop line(3) using True ok by simp
        next
          case False
          then show ?thesis unfolding loop line(3) using True by simp
        qed
      qed
    qed
  qed
qed

section \<open>The public searches\<close>

text \<open>An out-pointer the checks accept, beside the request and the bytes of the name.\<close>

definition out_ready :: "request_object \<Rightarrow> arbor_span \<Rightarrow> addr \<Rightarrow> u64 \<Rightarrow> bool" where
  "out_ready q name at bytes \<longleftrightarrow> at \<noteq> 0 \<and> object_span_valid at bytes \<and> \<not> request_region_overlaps q at bytes \<and>
     \<not> spans_overlap at bytes (span_data name) (span_length name)"

abbreviation no_span :: arbor_span where
  "no_span \<equiv> \<lparr>span_data = 0, span_length = 0\<rparr>"

lemma token_span_object: "token_span_valid m name \<Longrightarrow> object_span_valid (span_data name) (span_length name)"
  by (auto simp: token_span_valid_def split: if_splits)

lemma render_all_filter: "length (filter P ls) \<le> length (render_all ls)"
proof (induction ls)
  case (Cons l ls)
  have "1 \<le> length (render l)" by (simp add: render_def)
  then show ?case using Cons by simp
qed simp

lemma header_count_lines:
  assumes ready: "loop_ready m fr q" and name: "token_span_valid m name" and count: "out_ready q name count SIZEOF_U64"
  shows "arbor_http_request_header_count m fr q name count = Inr n \<longleftrightarrow>
    (\<exists>ls. lines_from m q 0 ls \<and> unat n = length (filter (named m name) ls))"
proof -
  have "arbor_http_request_header_count m fr q name count = count_loop m fr q name 0 0"
    using assms by (simp add: arbor_http_request_header_count_def out_ready_def scanner_ready_def)
  moreover have "unat (0 :: u64) + (unat (req_headers_len (rq q)) - unat (0 :: u64)) < 18446744073709551616"
    using unat_u64_upper by simp
  moreover have "lines_from m q 0 ls \<Longrightarrow> n = of_nat (length (filter (named m name) ls)) \<longleftrightarrow>
      unat n = length (filter (named m name) ls)" for ls
  proof -
    assume "lines_from m q 0 ls"
    then have "unat (req_headers_len (rq q)) = length (render_all ls)"
      by (metis drop0 length_bytes_at lines_from_def unat_0)
    then have "length (filter (named m name) ls) < 18446744073709551616"
      using render_all_filter [of "named m name" ls] unat_u64_upper [of "req_headers_len (rq q)"] by linarith
    then have "unat (of_nat (length (filter (named m name) ls)) :: u64) = length (filter (named m name) ls)"
      by (rule unat_of_nat_u64)
    then show ?thesis by (metis word_unat_eq_iff)
  qed
  ultimately show ?thesis
    using count_loop_lines [OF token_span_object [OF name] ready, of 0 0 n] by auto
qed

lemma header_find_first_lines:
  assumes ready: "loop_ready m fr q" and name: "token_span_valid m name" and "out_ready q name out SIZEOF_FIELD"
    and "out_ready q name found SIZEOF_BOOL" and "\<not> spans_overlap out SIZEOF_FIELD found SIZEOF_BOOL"
  shows "arbor_http_request_header_find_first m fr q name out found = Inr (Some field) \<longleftrightarrow> first_named m q name 0 field"
    and "arbor_http_request_header_find_first m fr q name out found = Inr None \<longleftrightarrow>
      (\<exists>ls. lines_from m q 0 ls \<and> (\<forall>l\<in>set ls. \<not> named m name l))"
proof -
  have "arbor_http_request_header_find_first m fr q name out found = find_first_loop m fr q name 0"
    using assms by (simp add: arbor_http_request_header_find_first_def out_ready_def scanner_ready_def)
  then show "arbor_http_request_header_find_first m fr q name out found = Inr (Some field) \<longleftrightarrow> first_named m q name 0 field"
    and "arbor_http_request_header_find_first m fr q name out found = Inr None \<longleftrightarrow>
      (\<exists>ls. lines_from m q 0 ls \<and> (\<forall>l\<in>set ls. \<not> named m name l))"
    using find_first_loop_lines [OF token_span_object [OF name] ready] by simp_all
qed

lemma line_inside:
  assumes valid: "request_header_span_validate m q = Inr ()" and "lines_from m q cursor (before @ l # after)"
  shows "\<exists>rest. request_line_at m q (cursor + of_nat (length (render_all before))) l rest"
  using assms(2)
proof (induction before arbitrary: cursor)
  case Nil
  then show ?case using lines_from_Cons [OF valid] by auto
next
  case (Cons k before)
  then have line: "request_line_at m q cursor k (render_all (before @ l # after))"
    using lines_from_Cons [OF valid, of cursor k "before @ l # after"] Cons.prems by simp
  then have "lines_from m q (cursor + of_nat (length (render k))) (before @ l # after)"
    using lines_from_line [OF line] Cons.prems by simp
  then show ?case using Cons.IH [of "cursor + of_nat (length (render k))"] by (simp add: add.assoc)
qed

lemma first_named_lines:
  assumes valid: "request_header_span_validate m q = Inr ()" and "lines_from m q cursor (before @ l # after)"
    and "\<forall>k\<in>set before. \<not> named m name k" and "named m name l"
  shows "first_named m q name cursor field \<longleftrightarrow> field = field_at q (cursor + of_nat (length (render_all before))) l"
  using assms(2,3)
proof (induction before arbitrary: cursor)
  case Nil
  then have "request_line_at m q cursor l (render_all after)" using lines_from_Cons [OF valid] by simp
  then show ?case using first_named_step assms(4) by simp
next
  case (Cons k before)
  then have line: "request_line_at m q cursor k (render_all (before @ l # after))"
    using lines_from_Cons [OF valid, of cursor k "before @ l # after"] Cons.prems by simp
  then have "lines_from m q (cursor + of_nat (length (render k))) (before @ l # after)"
    using lines_from_line [OF line] Cons.prems by simp
  then show ?case using Cons first_named_step [OF line] by (simp add: add.assoc)
qed

lemma filter_one:
  "length (filter P ls) = 1 \<longleftrightarrow> (\<exists>before l after. ls = before @ l # after \<and> P l \<and> (\<forall>k\<in>set (before @ after). \<not> P k))"
proof
  assume one: "length (filter P ls) = 1"
  then obtain l where "filter P ls = [l]" by (metis One_nat_def length_0_conv length_Suc_conv)
  then obtain before after where "ls = before @ l # after" "\<forall>k\<in>set before. \<not> P k" "P l" "[] = filter P after"
    using filter_eq_Cons_iff [of P ls l "[]"] by metis
  then show "\<exists>before l after. ls = before @ l # after \<and> P l \<and> (\<forall>k\<in>set (before @ after). \<not> P k)"
    using filter_empty_conv [of P after] by (intro exI [of _ before] exI [of _ l] exI [of _ after]) auto
qed auto

text \<open>The pointers of \<open>arbor_http_request_host_validate\<close>, its literal and its local objects.\<close>

definition host_frame_ready :: "mem \<Rightarrow> http_frame \<Rightarrow> request_object \<Rightarrow> addr \<Rightarrow> bool" where
  "host_frame_ready m fr q host \<longleftrightarrow>
     loop_ready m fr q \<and> out_ready q no_span host SIZEOF_SPAN \<and> out_ready q (host_name_span fr) (fr_count fr) SIZEOF_U64 \<and>
     out_ready q (host_name_span fr) (fr_out fr) SIZEOF_FIELD \<and> out_ready q (host_name_span fr) (fr_found fr) SIZEOF_BOOL \<and>
     \<not> spans_overlap (fr_out fr) SIZEOF_FIELD (fr_found fr) SIZEOF_BOOL \<and>
     object_span_valid (fr_host_name fr) 4 \<and> bytes_at m (fr_host_name fr) 4 = ascii_bytes ''Host''"

definition target_accepted :: "mem \<Rightarrow> request_object \<Rightarrow> bool" where
  "target_accepted m q \<longleftrightarrow> (\<exists>t ts. bytes_at m (req_target_ptr (rq q)) (req_target_len (rq q)) = t # ts \<and>
     (t = ascii CHR ''/'' \<or> (t = ascii CHR ''*'' \<and> ts = [])))"

abbreviation host_line :: "header_line \<Rightarrow> bool" where
  "host_line l \<equiv> same_name (ln_name l) (ascii_bytes ''Host'')"

lemma target_check:
  assumes "request_header_span_validate m q = Inr ()"
  shows "\<not> (req_target_len (rq q) = 0 \<or> req_target_ptr (rq q) = 0 \<or>
      \<not> (m (req_target_ptr (rq q)) = ascii CHR ''/'' \<or>
         (req_target_len (rq q) = 1 \<and> m (req_target_ptr (rq q)) = ascii CHR ''*''))) \<longleftrightarrow> target_accepted m q"
proof -
  have target: "object_span_valid (req_target_ptr (rq q)) (req_target_len (rq q))" "req_target_len (rq q) \<noteq> 0"
    using assms by (auto simp: request_header_span_validate_def split: if_splits)
  then obtain n where n: "unat (req_target_len (rq q)) = Suc n" by (metis not0_implies_Suc unat_eq_zero)
  have bytes: "bytes_at m (req_target_ptr (rq q)) (req_target_len (rq q)) =
      m (req_target_ptr (rq q)) # map (\<lambda>i. m (req_target_ptr (rq q) + of_nat i)) [1..<Suc n]"
    unfolding bytes_at_def n by (subst upt_conv_Cons) simp_all
  have "req_target_len (rq q) = 1 \<longleftrightarrow> n = 0" using n by (auto simp: word_unat_eq_iff)
  then show ?thesis
    using target by (auto simp: target_accepted_def bytes object_span_valid_iff)
qed

lemma host_validate_lines:
  assumes ready: "host_frame_ready m fr q host"
  shows "arbor_http_request_host_validate m fr q host = Inr s \<longleftrightarrow>
    target_accepted m q \<and> (\<exists>before l after. lines_from m q 0 (before @ l # after) \<and> host_line l \<and>
      (\<forall>k\<in>set (before @ after). \<not> host_line k) \<and> host_bytes_valid (ln_value l) \<and>
      s = value_span (field_at q (of_nat (length (render_all before))) l))" (is "_ \<longleftrightarrow> ?R")
proof -
  let ?name = "host_name_span fr"
  have loop: "loop_ready m fr q" using ready by (simp add: host_frame_ready_def)
  then have valid: "request_header_span_validate m q = Inr ()" by (simp add: scanner_ready_def)
  have name_bytes: "span_bytes m ?name = ascii_bytes ''Host''" using ready by (simp add: host_frame_ready_def host_name_span_def)
  have token: "token_span_valid m ?name"
    using ready name_bytes
    by (simp add: token_span_valid_def host_frame_ready_def)
      (simp add: host_name_span_def token_char_def alnum_char_def digit_char_def ascii_def)
  let ?count = "arbor_http_request_header_count m fr q ?name (fr_count fr)"
  let ?find = "arbor_http_request_header_find_first m fr q ?name (fr_out fr) (fr_found fr)"
  have count: "?count = Inr 1 \<longleftrightarrow> (\<exists>ls. lines_from m q 0 ls \<and> length (filter host_line ls) = 1)"
    using header_count_lines [OF loop token, of "fr_count fr" 1] ready
    by (auto simp: host_frame_ready_def name_bytes)
  have find: "?find = Inr (Some f) \<longleftrightarrow> first_named m q ?name 0 f" for f
    using header_find_first_lines(1) [OF loop token, of "fr_out fr" "fr_found fr" f] ready
    by (simp add: host_frame_ready_def)
  have code: "arbor_http_request_host_validate m fr q host = Inr s \<longleftrightarrow>
      target_accepted m q \<and> ?count = Inr 1 \<and> (\<exists>f. ?find = Inr (Some f) \<and> host_value_valid m (value_span f) \<and> s = value_span f)"
    unfolding target_check [OF valid, symmetric]
    using ready valid
    by (auto simp: arbor_http_request_host_validate_def host_frame_ready_def out_ready_def then_ok_Inr_iff
      split: sum.splits option.splits stop.splits if_splits)
  have one: "?find = Inr (Some f) \<longleftrightarrow> f = field_at q (of_nat (length (render_all before))) l"
    and val: "host_value_valid m (value_span (field_at q (of_nat (length (render_all before))) l)) \<longleftrightarrow>
      host_bytes_valid (ln_value l)"
    if "lines_from m q 0 (before @ l # after)" "host_line l" "\<forall>k\<in>set (before @ after). \<not> host_line k" for f before l after
  proof -
    show "?find = Inr (Some f) \<longleftrightarrow> f = field_at q (of_nat (length (render_all before))) l"
      unfolding find using first_named_lines [OF valid that(1), of ?name f] that by (simp add: name_bytes)
    note lines = that(1)
    obtain rest where line: "request_line_at m q (of_nat (length (render_all before))) l rest"
      using line_inside [OF valid lines] by auto
    have "span_length (value_span (field_at q (of_nat (length (render_all before))) l)) = 0 \<longleftrightarrow> ln_value l = []"
      using spans_read(2) [OF line] by (metis bytes_at_Nil)
    then show "host_value_valid m (value_span (field_at q (of_nat (length (render_all before))) l)) \<longleftrightarrow>
        host_bytes_valid (ln_value l)"
      using spans_read(2) [OF line] spans_valid(2) [OF line]
      by (auto simp: host_value_valid_def host_bytes_valid_def)
  qed
  show ?thesis
  proof
    assume "arbor_http_request_host_validate m fr q host = Inr s"
    then obtain ls f where found: "target_accepted m q" "lines_from m q 0 ls" "length (filter host_line ls) = 1"
      "?find = Inr (Some f)" "host_value_valid m (value_span f)" "s = value_span f"
      unfolding code count by blast
    then obtain before l after where ls: "ls = before @ l # after" "host_line l" "\<forall>k\<in>set (before @ after). \<not> host_line k"
      unfolding filter_one by blast
    note lines = found(2) [unfolded ls(1)]
    have f: "f = field_at q (of_nat (length (render_all before))) l"
      using one [OF lines ls(2,3), of f] found(4) by simp
    have "host_bytes_valid (ln_value l)" using val [OF lines ls(2,3)] found(5) unfolding f by simp
    then show ?R using found(1,6) lines ls(2,3) f by blast
  next
    assume ?R
    then obtain before l after where r: "target_accepted m q" "lines_from m q 0 (before @ l # after)" "host_line l"
      "\<forall>k\<in>set (before @ after). \<not> host_line k" "host_bytes_valid (ln_value l)"
      "s = value_span (field_at q (of_nat (length (render_all before))) l)" by blast
    then have "length (filter host_line (before @ l # after)) = 1" unfolding filter_one by blast
    then have "?count = Inr 1" unfolding count using r(2) by blast
    then show "arbor_http_request_host_validate m fr q host = Inr s"
      unfolding code using r one [OF r(2-4)] val [OF r(2-4)] by blast
  qed
qed

lemma connection_close_lines:
  assumes "loop_ready m fr q" and "out_ready q no_span close_requested SIZEOF_BOOL"
  shows "arbor_http_request_connection_close m fr q close_requested = Inr b \<longleftrightarrow>
    (\<exists>ls. lines_from m q 0 ls \<and>
       (\<forall>l\<in>set ls. connection_line l \<longrightarrow> list_all element_ok (elements (ln_value l))) \<and>
       b = (\<exists>l\<in>set ls. connection_line l \<and> close_listed (ln_value l)))"
  using assms connection_close_loop_lines [OF assms(1), of 0 False b]
  by (simp add: arbor_http_request_connection_close_def out_ready_def scanner_ready_def)

end
