(* ===== verification/Http_Response.thy ===== *)
theory Http_Response
  imports Http_Connection
begin

text \<open>
  The response side of \<open>src/c/http.c\<close> with the serializer of \<open>src/asm/http_response_v2.asm\<close>, which appends the
  parts of the message to a caller's buffer through \<open>buffer_append\<close> of \<open>src/asm/buffer.asm\<close>. Memory is
  explicit, so that the alias checks matter: the parts are read while the buffer is being written. The
  array of fields is a typed store, and the static texts are byte lists.
\<close>

unbundle bit_operations_syntax

record arbor_http_response =
  rsp_abi_version :: u32
  rsp_struct_size :: u32
  rsp_flags :: u64
  rsp_status :: u64
  rsp_fields :: addr
  rsp_field_count :: u64
  rsp_body_data :: addr
  rsp_body_length :: u64

record response_object =
  rs_at :: addr
  rs :: arbor_http_response

record arbor_asm_buffer =
  buf_data :: addr
  buf_length :: u64
  buf_capacity :: u64

type_synonym field_store = "addr \<Rightarrow> arbor_http_field"

abbreviation ARBOR_HTTP_RESPONSE_ABI_VERSION :: u32 where "ARBOR_HTTP_RESPONSE_ABI_VERSION \<equiv> 1"
abbreviation ARBOR_HTTP_RESPONSE_FLAG_CLOSE :: u64 where "ARBOR_HTTP_RESPONSE_FLAG_CLOSE \<equiv> 1"
abbreviation ARBOR_HTTP_RESPONSE_KNOWN_FLAGS :: u64 where "ARBOR_HTTP_RESPONSE_KNOWN_FLAGS \<equiv> 1"
abbreviation SIZEOF_RESPONSE :: nat where "SIZEOF_RESPONSE \<equiv> 56"
abbreviation SIZEOF_BUFFER :: u64 where "SIZEOF_BUFFER \<equiv> 24"

section \<open>The code: validation\<close>

definition response_reserved_field_name :: "mem \<Rightarrow> arbor_span \<Rightarrow> bool" where
  "response_reserved_field_name m name \<longleftrightarrow>
     list_ex (span_equal_literal_ci m name)
       [''Content-Length'', ''Connection'', ''Transfer-Encoding'', ''Trailer'', ''Upgrade'']"

definition fields_of :: "field_store \<Rightarrow> addr \<Rightarrow> u64 \<Rightarrow> arbor_http_field list" where
  "fields_of store array field_count = map (\<lambda>i. store (array + of_nat i * SIZEOF_FIELD)) [0..<unat field_count]"

fun response_fields_validate :: "mem \<Rightarrow> arbor_http_field list \<Rightarrow> stop + unit" where
  "response_fields_validate m [] = Inr ()"
| "response_fields_validate m (field # rest) =
     then_ok (arbor_http_field_validate m field) (\<lambda>_.
     if response_reserved_field_name m (name_span field) then fail EINVAL
     else response_fields_validate m rest)"

definition arbor_http_response_validate :: "mem \<Rightarrow> field_store \<Rightarrow> response_object \<Rightarrow> stop + unit" where
  "arbor_http_response_validate m store r =
     (if rs_at r = 0 \<or> rsp_abi_version (rs r) \<noteq> ARBOR_HTTP_RESPONSE_ABI_VERSION \<or>
        rsp_struct_size (rs r) < of_nat SIZEOF_RESPONSE \<or>
        rsp_flags (rs r) AND NOT ARBOR_HTTP_RESPONSE_KNOWN_FLAGS \<noteq> 0 \<or>
        rsp_status (rs r) < 200 \<or> rsp_status (rs r) > 599 then fail EINVAL
      else if \<not> object_span_valid (rs_at r) (ucast (rsp_struct_size (rs r))) then fail EINVAL
      else if \<not> object_span_valid (rsp_body_data (rs r)) (rsp_body_length (rs r)) then fail EINVAL
      else if (rsp_status (rs r) = 204 \<or> rsp_status (rs r) = 205 \<or> rsp_status (rs r) = 304) \<and>
        rsp_body_length (rs r) \<noteq> 0 then fail EINVAL
      else if rsp_field_count (rs r) > UINTPTR_MAX div SIZEOF_FIELD then fail EOVERFLOW
      else if \<not> object_span_valid (rsp_fields (rs r)) (rsp_field_count (rs r) * SIZEOF_FIELD) then fail EINVAL
      else response_fields_validate m (fields_of store (rsp_fields (rs r)) (rsp_field_count (rs r))))"

definition response_sources_overlap_region :: "field_store \<Rightarrow> response_object \<Rightarrow> addr \<Rightarrow> u64 \<Rightarrow> bool" where
  "response_sources_overlap_region store r region region_length =
     (if rs_at r = 0 \<or> \<not> object_span_valid region region_length then True
      else if spans_overlap region region_length (rs_at r) (ucast (rsp_struct_size (rs r))) \<or>
        spans_overlap region region_length (rsp_fields (rs r)) (rsp_field_count (rs r) * SIZEOF_FIELD) \<or>
        spans_overlap region region_length (rsp_body_data (rs r)) (rsp_body_length (rs r)) then True
      else
        list_ex (\<lambda>field. spans_overlap region region_length (fld_name_data field) (fld_name_length field) \<or>
            spans_overlap region region_length (fld_value_data field) (fld_value_length field))
          (fields_of store (rsp_fields (rs r)) (rsp_field_count (rs r))))"

definition arbor_http_response_make ::
    "mem \<Rightarrow> field_store \<Rightarrow> http_frame \<Rightarrow> u64 \<Rightarrow> addr \<Rightarrow> u64 \<Rightarrow> arbor_span \<Rightarrow> u64 \<Rightarrow> addr \<Rightarrow>
     stop + arbor_http_response" where
  "arbor_http_response_make m store fr status array field_count body flags out =
     (if out = 0 then fail EINVAL
      else
        let candidate = \<lparr>rsp_abi_version = ARBOR_HTTP_RESPONSE_ABI_VERSION, rsp_struct_size = of_nat SIZEOF_RESPONSE,
              rsp_flags = flags, rsp_status = status, rsp_fields = array, rsp_field_count = field_count,
              rsp_body_data = span_data body, rsp_body_length = span_length body\<rparr>;
            r = \<lparr>rs_at = fr_candidate fr, rs = candidate\<rparr>
        in then_ok (arbor_http_response_validate m store r) (\<lambda>_.
           if \<not> object_span_valid out (of_nat SIZEOF_RESPONSE) \<or>
             response_sources_overlap_region store r out (of_nat SIZEOF_RESPONSE) then fail EINVAL
           else Inr candidate))"

definition method_is :: "mem \<Rightarrow> request_object \<Rightarrow> string \<Rightarrow> bool" where
  "method_is m q method \<longleftrightarrow>
     rq_at q \<noteq> 0 \<and> unat (req_method_len (rq q)) = length method \<and>
     object_span_valid (req_method_ptr (rq q)) (req_method_len (rq q)) \<and>
     bytes_at m (req_method_ptr (rq q)) (req_method_len (rq q)) = ascii_bytes method"

definition reason_phrase :: "u64 \<Rightarrow> u8 list" where
  "reason_phrase status = ascii_bytes
     (if status = 200 then ''OK''
      else if status = 201 then ''Created''
      else if status = 202 then ''Accepted''
      else if status = 204 then ''No Content''
      else if status = 205 then ''Reset Content''
      else if status = 206 then ''Partial Content''
      else if status = 301 then ''Moved Permanently''
      else if status = 302 then ''Found''
      else if status = 303 then ''See Other''
      else if status = 304 then ''Not Modified''
      else if status = 307 then ''Temporary Redirect''
      else if status = 308 then ''Permanent Redirect''
      else if status = 400 then ''Bad Request''
      else if status = 401 then ''Unauthorized''
      else if status = 403 then ''Forbidden''
      else if status = 404 then ''Not Found''
      else if status = 405 then ''Method Not Allowed''
      else if status = 409 then ''Conflict''
      else if status = 410 then ''Gone''
      else if status = 412 then ''Precondition Failed''
      else if status = 415 then ''Unsupported Media Type''
      else if status = 422 then ''Unprocessable Content''
      else if status = 429 then ''Too Many Requests''
      else if status = 500 then ''Internal Server Error''
      else if status = 501 then ''Not Implemented''
      else if status = 503 then ''Service Unavailable''
      else '''')"

text \<open>\<open>bytes_written\<close> and \<open>close_after_response\<close> may be NULL, that is 0.\<close>

definition output_overlaps :: "request_object \<Rightarrow> field_store \<Rightarrow> response_object \<Rightarrow> addr \<Rightarrow> arbor_asm_buffer \<Rightarrow> addr \<Rightarrow> u64 \<Rightarrow> bool" where
  "output_overlaps q store r buffer_at buffer out out_size \<longleftrightarrow>
     \<not> object_span_valid out out_size \<or> spans_overlap out out_size buffer_at SIZEOF_BUFFER \<or>
     spans_overlap out out_size (buf_data buffer) (buf_capacity buffer) \<or>
     request_region_overlaps q out out_size \<or> response_sources_overlap_region store r out out_size"

definition response_output_alias_validate ::
    "addr \<Rightarrow> arbor_asm_buffer \<Rightarrow> request_object \<Rightarrow> field_store \<Rightarrow> response_object \<Rightarrow> addr \<Rightarrow> addr \<Rightarrow> stop + unit" where
  "response_output_alias_validate buffer_at buffer q store r bytes_written close_after_response =
     (if buffer_at = 0 \<or> rq_at q = 0 \<or> rs_at r = 0 \<or> buf_length buffer > buf_capacity buffer \<or>
        \<not> object_span_valid (buf_data buffer) (buf_capacity buffer) \<or> \<not> object_span_valid buffer_at SIZEOF_BUFFER
      then fail EINVAL
      else if spans_overlap buffer_at SIZEOF_BUFFER (buf_data buffer) (buf_capacity buffer) \<or>
        request_region_overlaps q buffer_at SIZEOF_BUFFER \<or>
        response_sources_overlap_region store r buffer_at SIZEOF_BUFFER \<or>
        request_region_overlaps q (buf_data buffer) (buf_capacity buffer) \<or>
        response_sources_overlap_region store r (buf_data buffer) (buf_capacity buffer) then fail EINVAL
      else if bytes_written \<noteq> 0 \<and> output_overlaps q store r buffer_at buffer bytes_written SIZEOF_U64 then fail EINVAL
      else if close_after_response \<noteq> 0 \<and> output_overlaps q store r buffer_at buffer close_after_response SIZEOF_BOOL
      then fail EINVAL
      else if bytes_written \<noteq> 0 \<and> close_after_response \<noteq> 0 \<and>
        spans_overlap bytes_written SIZEOF_U64 close_after_response SIZEOF_BOOL then fail EINVAL
      else Inr ())"

section \<open>The code: numbers\<close>

text \<open>\<open>u64_decimal_length\<close> and \<open>u64_format_decimal\<close>: the digit count, and the digits written backward.\<close>

fun decimal_length_loop :: "nat \<Rightarrow> nat \<Rightarrow> nat" where
  "decimal_length_loop rax ecx = (if rax < 10 then ecx else decimal_length_loop (rax div 10) (ecx + 1))"

declare decimal_length_loop.simps [simp del]

definition u64_decimal_length :: "u64 \<Rightarrow> nat" where
  "u64_decimal_length v = decimal_length_loop (unat v) 1"

function write_digit :: "nat \<Rightarrow> u8 list \<Rightarrow> u8 list" where
  "write_digit rax written =
     (if rax div 10 = 0 then digit_byte (rax mod 10) # written
      else write_digit (rax div 10) (digit_byte (rax mod 10) # written))"
  by pat_completeness auto

termination write_digit
  by (relation "measure fst") (auto simp: div_less_dividend)

declare write_digit.simps [simp del]

definition u64_format_decimal :: "u64 \<Rightarrow> nat \<Rightarrow> stop + u8 list" where
  "u64_format_decimal v capacity =
     (if capacity < u64_decimal_length v then fail ENOSPC else Inr (write_digit (unat v) []))"

section \<open>The code: appending\<close>

text \<open>What is appended: static bytes, or a span of memory.\<close>

datatype source = Static "u8 list" | Span addr u64

fun source_null :: "source \<Rightarrow> bool" where
  "source_null (Static bytes) = False"
| "source_null (Span data n) = (data = 0)"

fun source_length :: "source \<Rightarrow> nat" where
  "source_length (Static bytes) = length bytes"
| "source_length (Span data n) = unat n"

fun source_bytes :: "mem \<Rightarrow> source \<Rightarrow> u8 list" where
  "source_bytes m (Static bytes) = bytes"
| "source_bytes m (Span data n) = bytes_at m data n"

definition buffer_append :: "mem \<Rightarrow> arbor_asm_buffer \<Rightarrow> source \<Rightarrow> stop + (mem \<times> arbor_asm_buffer)" where
  "buffer_append m b source =
     (if buf_length b > buf_capacity b then fail EINVAL
      else if source_length source = 0 then Inr (m, b)
      else if source_null source then fail EINVAL
      else if unat (buf_length b) + source_length source \<ge> 18446744073709551616 then fail EOVERFLOW
      else if unat (buf_length b) + source_length source > unat (buf_capacity b) then fail ENOSPC
      else if buf_data b = 0 then fail EINVAL
      else if unat (buf_data b) + unat (buf_length b) \<ge> 18446744073709551616 then fail EOVERFLOW
      else Inr (store_bytes m (buf_data b + buf_length b) (source_bytes m source),
                b\<lparr>buf_length := buf_length b + of_nat (source_length source)\<rparr>))"

text \<open>A sequence of appends, each followed by the jump to \<open>rollback\<close> when it fails.\<close>

fun append_all :: "mem \<Rightarrow> arbor_asm_buffer \<Rightarrow> source list \<Rightarrow> (stop + unit) \<times> mem \<times> arbor_asm_buffer" where
  "append_all m b [] = (Inr (), m, b)"
| "append_all m b (source # rest) =
     (case buffer_append m b source of
        Inl e \<Rightarrow> (Inl e, m, b)
      | Inr (m', b') \<Rightarrow> append_all m' b' rest)"

section \<open>The code: the serializer\<close>

record http0_asm_response_args =
  arg_status :: u64
  arg_reason :: "u8 list"
  arg_fields :: addr
  arg_field_count :: u64
  arg_body_data :: addr
  arg_body_length :: u64
  arg_send_body :: u64
  arg_emit_content_length :: u64
  arg_close_after_response :: u64

abbreviation crlf :: "u8 list" where "crlf \<equiv> [CR, LF]"
abbreviation colon_space :: "u8 list" where "colon_space \<equiv> [colon, 0x20]"
abbreviation http11_prefix :: "u8 list" where "http11_prefix \<equiv> ascii_bytes ''HTTP/1.1 ''"
abbreviation content_length_prefix :: "u8 list" where "content_length_prefix \<equiv> ascii_bytes ''Content-Length: ''"
abbreviation connection_close :: "u8 list" where "connection_close \<equiv> ascii_bytes ''Connection: close'' @ crlf"

text \<open>An addition to the required length, with the jump on carry.\<close>

definition add_required :: "nat \<Rightarrow> nat \<Rightarrow> stop + nat" where
  "add_required required n = (if required + n \<ge> 18446744073709551616 then fail EOVERFLOW else Inr (required + n))"

definition range_wraps :: "addr \<Rightarrow> u64 \<Rightarrow> bool" where
  "range_wraps data n \<longleftrightarrow> unat data + unat n \<ge> 18446744073709551616"

fun preflight_fields :: "nat \<Rightarrow> arbor_http_field list \<Rightarrow> stop + nat" where
  "preflight_fields required [] = Inr required"
| "preflight_fields required (field # rest) =
     (if fld_name_length field = 0 \<or> fld_name_data field = 0 then fail EINVAL
      else if range_wraps (fld_name_data field) (fld_name_length field) then fail EOVERFLOW
      else
        then_ok (add_required required (unat (fld_name_length field))) (\<lambda>required.
        then_ok (add_required required (length colon_space)) (\<lambda>required.
        if fld_value_length field \<noteq> 0 \<and> fld_value_data field = 0 then fail EINVAL
        else if fld_value_length field \<noteq> 0 \<and> range_wraps (fld_value_data field) (fld_value_length field)
        then fail EOVERFLOW
        else
          then_ok (add_required required (unat (fld_value_length field))) (\<lambda>required.
          then_ok (add_required required (length crlf)) (\<lambda>required.
          preflight_fields required rest)))))"

definition preflight :: "field_store \<Rightarrow> arbor_asm_buffer \<Rightarrow> http0_asm_response_args \<Rightarrow> stop + nat" where
  "preflight store b args =
     (if arg_status args < 200 \<or> arg_status args > 599 \<or> arg_send_body args > 1 \<or>
        arg_emit_content_length args > 1 \<or> arg_close_after_response args > 1 then fail EINVAL
      else if arg_field_count args \<noteq> 0 \<and> arg_fields args = 0 then fail EINVAL
      else if arg_field_count args \<noteq> 0 \<and> unat (arg_field_count args) div 2 ^ 59 \<noteq> 0 then fail EOVERFLOW
      else if arg_field_count args \<noteq> 0 \<and> range_wraps (arg_fields args) (arg_field_count args * SIZEOF_FIELD)
      then fail EOVERFLOW
      else if arg_body_length args \<noteq> 0 \<and> arg_body_data args = 0 then fail EINVAL
      else if arg_body_length args \<noteq> 0 \<and> range_wraps (arg_body_data args) (arg_body_length args)
      then fail EOVERFLOW
      else if buf_length b > buf_capacity b then fail EINVAL
      else if buf_capacity b \<noteq> 0 \<and> buf_data b = 0 then fail EINVAL
      else if buf_capacity b \<noteq> 0 \<and> range_wraps (buf_data b) (buf_capacity b) then fail EOVERFLOW
      else
        then_ok (add_required (length http11_prefix + 3 + 1 + length crlf) (length (arg_reason args))) (\<lambda>required.
        then_ok (preflight_fields required (fields_of store (arg_fields args) (arg_field_count args))) (\<lambda>required.
        then_ok
          (if arg_emit_content_length args = 0 then Inr required
           else
             then_ok (add_required required (length content_length_prefix)) (\<lambda>required.
             then_ok (add_required required (u64_decimal_length (arg_body_length args))) (\<lambda>required.
             add_required required (length crlf)))) (\<lambda>required.
        then_ok
          (if arg_close_after_response args = 0 then Inr required
           else add_required required (length connection_close)) (\<lambda>required.
        then_ok (add_required required (length crlf)) (\<lambda>required.
        then_ok
          (if arg_send_body args = 0 then Inr required
           else add_required required (unat (arg_body_length args))) (\<lambda>required.
        then_ok (add_required (unat (buf_length b)) required) (\<lambda>total.
        if total > unat (buf_capacity b) then fail ENOSPC else Inr required))))))))"

definition field_sources :: "arbor_http_field \<Rightarrow> source list" where
  "field_sources field =
     [Span (fld_name_data field) (fld_name_length field), Static colon_space] @
     (if fld_value_length field = 0 then [] else [Span (fld_value_data field) (fld_value_length field)]) @
     [Static crlf]"

definition message_sources :: "field_store \<Rightarrow> http0_asm_response_args \<Rightarrow> u8 list \<Rightarrow> u8 list \<Rightarrow> source list" where
  "message_sources store args status_digits length_digits =
     [Static http11_prefix, Static status_digits, Static [0x20]] @
     (if arg_reason args = [] then [] else [Static (arg_reason args)]) @ [Static crlf] @
     concat (map field_sources (fields_of store (arg_fields args) (arg_field_count args))) @
     (if arg_emit_content_length args = 0 then []
      else [Static content_length_prefix, Static length_digits, Static crlf]) @
     (if arg_close_after_response args = 0 then [] else [Static connection_close]) @ [Static crlf] @
     (if arg_send_body args = 0 \<or> arg_body_length args = 0 then []
      else [Span (arg_body_data args) (arg_body_length args)])"

definition http0_response_serialize_asm ::
    "mem \<Rightarrow> field_store \<Rightarrow> arbor_asm_buffer \<Rightarrow> http0_asm_response_args \<Rightarrow>
     (stop + u64) \<times> mem \<times> arbor_asm_buffer" where
  "http0_response_serialize_asm m store b args =
     (case preflight store b args of
        Inl e \<Rightarrow> (Inl e, m, b)
      | Inr required \<Rightarrow>
          (case u64_format_decimal (arg_status args) 20 of
             Inl e \<Rightarrow> (fail EINVAL, m, b)
           | Inr status_digits \<Rightarrow>
               if length status_digits \<noteq> 3 then (fail EINVAL, m, b)
               else
                 (case (if arg_emit_content_length args = 0 then Inr []
                        else u64_format_decimal (arg_body_length args) 20) of
                    Inl e \<Rightarrow> (fail EINVAL, m, b)
                  | Inr length_digits \<Rightarrow>
                      if arg_emit_content_length args \<noteq> 0 \<and>
                        length length_digits \<noteq> u64_decimal_length (arg_body_length args)
                      then (fail EINVAL, m, b)
                      else
                        (case append_all m b (message_sources store args status_digits length_digits) of
                           (Inl e, m', b') \<Rightarrow> (Inl e, m', b'\<lparr>buf_length := buf_length b\<rparr>)
                         | (Inr _, m', b') \<Rightarrow> (Inr (of_nat required), m', b')))))"

text \<open>What the caller sees after \<open>arbor_http_response_serialize\<close>.\<close>

record serialize_state =
  ss_mem :: mem
  ss_buffer :: arbor_asm_buffer
  ss_bytes_written :: u64
  ss_close :: bool

definition store_outputs :: "addr \<Rightarrow> addr \<Rightarrow> u64 \<Rightarrow> bool \<Rightarrow> serialize_state \<Rightarrow> serialize_state" where
  "store_outputs bytes_written close_after_response written close_flag s =
     s\<lparr>ss_bytes_written := if bytes_written \<noteq> 0 then written else ss_bytes_written s,
       ss_close := if close_after_response \<noteq> 0 then close_flag else ss_close s\<rparr>"

definition serialize_args :: "mem \<Rightarrow> request_object \<Rightarrow> arbor_http_response \<Rightarrow> bool \<Rightarrow> http0_asm_response_args" where
  "serialize_args m q r close_flag =
     (let head = method_is m q ''HEAD'';
          no_content = (rsp_status r = 204 \<or> rsp_status r = 205 \<or> rsp_status r = 304);
          send_body = (\<not> head \<and> \<not> no_content \<and> rsp_body_length r \<noteq> 0);
          emit_content_length = (rsp_status r \<noteq> 204 \<and> rsp_status r \<noteq> 304)
      in \<lparr>arg_status = rsp_status r, arg_reason = reason_phrase (rsp_status r), arg_fields = rsp_fields r,
          arg_field_count = rsp_field_count r, arg_body_data = rsp_body_data r, arg_body_length = rsp_body_length r,
          arg_send_body = of_bool send_body, arg_emit_content_length = of_bool emit_content_length,
          arg_close_after_response = of_bool close_flag\<rparr>)"

definition serialize_checks ::
    "field_store \<Rightarrow> addr \<Rightarrow> request_object \<Rightarrow> response_object \<Rightarrow> addr \<Rightarrow> addr \<Rightarrow> serialize_state \<Rightarrow> stop + unit" where
  "serialize_checks store buffer_at q r bytes_written close_after_response s =
     then_ok (request_header_span_validate (ss_mem s) q) (\<lambda>_.
     then_ok (arbor_http_response_validate (ss_mem s) store r) (\<lambda>_.
     then_ok (response_output_alias_validate buffer_at (ss_buffer s) q store r bytes_written close_after_response) (\<lambda>_.
     if method_is (ss_mem s) q ''CONNECT'' \<and> 200 \<le> rsp_status (rs r) \<and> rsp_status (rs r) \<le> 299 then fail EINVAL
     else Inr ())))"

definition arbor_http_response_serialize ::
    "field_store \<Rightarrow> http_frame \<Rightarrow> addr \<Rightarrow> request_object \<Rightarrow> response_object \<Rightarrow> addr \<Rightarrow> addr \<Rightarrow> serialize_state \<Rightarrow>
     (stop + unit) \<times> serialize_state" where
  "arbor_http_response_serialize store fr buffer_at q r bytes_written close_after_response s =
     (case serialize_checks store buffer_at q r bytes_written close_after_response s of
        Inl e \<Rightarrow> (Inl e, s)
      | Inr _ \<Rightarrow>
          let s0 = store_outputs bytes_written close_after_response 0 False s;
              request_close = (case arbor_http_request_connection_close (ss_mem s) fr q (fr_request_close fr) of
                Inl _ \<Rightarrow> True | Inr c \<Rightarrow> c);
              close_flag = (request_close \<or> rsp_flags (rs r) AND ARBOR_HTTP_RESPONSE_FLAG_CLOSE \<noteq> 0)
          in (case http0_response_serialize_asm (ss_mem s) store (ss_buffer s) (serialize_args (ss_mem s) q (rs r) close_flag) of
                (Inl e, m', b') \<Rightarrow> (Inl e, s0\<lparr>ss_mem := m', ss_buffer := b'\<rparr>)
              | (Inr written, m', b') \<Rightarrow>
                  (Inr (), store_outputs bytes_written close_after_response written close_flag
                     (s0\<lparr>ss_mem := m', ss_buffer := b'\<rparr>))))"

end
