(* ===== verification/Http_Message.thy ===== *)
theory Http_Message
  imports Http_Response
begin

text \<open>
  What the serializer writes. The digits are decimal numerals, the preflight computes the length of the
  message, the appends store the parts one after the other without disturbing the parts still to be read,
  and the head of the message is again a sequence of header lines.
\<close>

section \<open>Numbers\<close>

lemma write_digit_decimal: "write_digit n written = decimal n @ written"
proof (induction n written rule: write_digit.induct)
  case (1 n written)
  show ?case
  proof (cases "n div 10 = 0")
    case True
    then show ?thesis by (subst write_digit.simps, subst decimal.simps) (simp add: div_eq_0_iff)
  next
    case False
    then have "\<not> n < 10" by simp
    then have "decimal n = decimal (n div 10) @ [digit_byte (n mod 10)]" by (subst decimal.simps) simp
    then show ?thesis using False "1.IH" by (subst write_digit.simps) simp
  qed
qed

lemma decimal_length_loop_decimal: "decimal_length_loop n k + 1 = k + length (decimal n)"
proof (induction n k rule: decimal_length_loop.induct)
  case (1 n k)
  show ?case
  proof (cases "n < 10")
    case True
    then show ?thesis by (subst decimal_length_loop.simps, subst decimal.simps) simp
  next
    case False
    then have "decimal n = decimal (n div 10) @ [digit_byte (n mod 10)]" by (subst decimal.simps) simp
    then show ?thesis using False "1.IH" by (subst decimal_length_loop.simps) simp
  qed
qed

lemma u64_decimal_length_decimal: "u64_decimal_length v = length (decimal (unat v))"
  using decimal_length_loop_decimal [of "unat v" 1] by (simp add: u64_decimal_length_def)

lemma decimal_length_bound: "n < 10 ^ k \<Longrightarrow> 0 < k \<Longrightarrow> length (decimal n) \<le> k"
proof (induction n arbitrary: k rule: decimal.induct)
  case (1 n)
  show ?case
  proof (cases "n < 10")
    case True
    then show ?thesis using "1.prems" by (subst decimal.simps) simp
  next
    case False
    then obtain j where j: "k = Suc j" "0 < j"
      using "1.prems" by (cases k; cases "k - 1") auto
    then have "n div 10 < 10 ^ j" using "1.prems"(1) by (simp add: less_mult_imp_div_less mult.commute)
    then show ?thesis using "1.IH" [OF False] False j by (subst decimal.simps) simp
  qed
qed

lemma format_decimal: "u64_format_decimal v 20 = Inr (decimal (unat v))"
  using decimal_length_bound [of "unat v" 20] unat_u64_upper [of v]
  by (simp add: u64_format_decimal_def u64_decimal_length_decimal write_digit_decimal)

lemma status_digits: "200 \<le> s \<Longrightarrow> s \<le> 599 \<Longrightarrow> length (decimal (unat (s :: u64))) = 3"
  using decimal_small(3) [of "unat s"] by (simp add: word_le_nat_alt)

section \<open>Appends\<close>

definition readable :: "arbor_asm_buffer \<Rightarrow> source \<Rightarrow> bool" where
  "readable b source = (case source of
     Static bytes \<Rightarrow> True
   | Span data n \<Rightarrow> data \<noteq> 0 \<and> \<not> spans_overlap (buf_data b) (buf_capacity b) data n)"

lemma length_source_bytes [simp]: "length (source_bytes m s) = source_length s"
  by (cases s) simp_all

lemma length_sources: "length (concat (map (source_bytes m) ss)) = sum_list (map source_length ss)"
  by (induction ss) simp_all

text \<open>All the parts land in order, and are read as they were before the first one was written.\<close>

lemma append_all_ok:
  assumes "object_span_valid (buf_data b) (buf_capacity b)" and "list_all (readable b) sources"
    and "unat (buf_length b) + sum_list (map source_length sources) \<le> unat (buf_capacity b)"
  shows "append_all m b sources =
    (Inr (), store_bytes m (buf_data b + buf_length b) (concat (map (source_bytes m) sources)),
     b\<lparr>buf_length := buf_length b + of_nat (sum_list (map source_length sources))\<rparr>)"
  using assms
proof (induction sources arbitrary: m b)
  case Nil
  then show ?case by simp
next
  case (Cons s ss)
  let ?n = "source_length s" and ?rest = "sum_list (map source_length ss)"
  let ?m = "store_bytes m (buf_data b + buf_length b) (source_bytes m s)"
  let ?b = "b\<lparr>buf_length := buf_length b + of_nat ?n\<rparr>"
  have fits: "unat (buf_length b) + ?n + ?rest \<le> unat (buf_capacity b)" using Cons.prems(3) by simp
  have len: "unat (buf_length b + of_nat ?n) = unat (buf_length b) + ?n"
    using fits unat_u64_upper [of "buf_capacity b"] by (intro unat_add_nat) simp
  have append: "buffer_append m b s = Inr (?m, ?b)"
  proof (cases "?n = 0")
    case True
    then have "source_bytes m s = []" using length_source_bytes [of m s] by (metis length_0_conv)
    then show ?thesis using True fits by (simp add: buffer_append_def word_le_nat_alt word_less_nat_alt)
  next
    case False
    then have "buf_capacity b \<noteq> 0" using fits by auto
    then have "buf_data b \<noteq> 0" "unat (buf_data b) + unat (buf_capacity b) < 18446744073709551616"
      using Cons.prems(1) by (auto simp: object_span_valid_iff)
    moreover have "\<not> source_null s" using Cons.prems(2) by (cases s) (simp_all add: readable_def)
    ultimately show ?thesis
      using False fits unat_u64_upper [of "buf_capacity b"]
      by (simp add: buffer_append_def word_less_nat_alt)
  qed
  have same: "source_bytes ?m s' = source_bytes m s'" if "readable b s'" for s'
  proof (cases s')
    case (Span data n)
    have "bytes_at (store_bytes m (buf_data b + of_nat (unat (buf_length b))) (source_bytes m s)) data n = bytes_at m data n"
      using that Span fits by (intro store_inside_span [OF Cons.prems(1)]) (simp_all add: readable_def)
    then show ?thesis using Span by simp
  qed simp
  have ready: "list_all (readable ?b) ss" using Cons.prems(2) by (simp add: readable_def [abs_def])
  have bytes: "map (source_bytes ?m) ss = map (source_bytes m) ss"
    using same Cons.prems(2) by (simp add: list_all_iff)
  have "append_all m b (s # ss) = append_all ?m ?b ss" by (simp add: append)
  also have "\<dots> = (Inr (), store_bytes ?m (buf_data b + (buf_length b + of_nat ?n)) (concat (map (source_bytes m) ss)),
      b\<lparr>buf_length := buf_length b + of_nat ?n + of_nat ?rest\<rparr>)"
    using Cons.IH [of ?b ?m] Cons.prems(1) ready fits len by (simp add: bytes)
  also have "store_bytes ?m (buf_data b + (buf_length b + of_nat ?n)) (concat (map (source_bytes m) ss)) =
      store_bytes m (buf_data b + buf_length b) (source_bytes m s @ concat (map (source_bytes m) ss))"
  proof -
    have "?n + ?rest < 18446744073709551616" using fits unat_u64_upper [of "buf_capacity b"] by linarith
    then show ?thesis
      using store_bytes_append [of "source_bytes m s" "concat (map (source_bytes m) ss)" m "buf_data b + buf_length b"]
      by (simp add: length_sources add.assoc)
  qed
  finally show ?case by (simp add: add.assoc)
qed

section \<open>The preflight computes the length\<close>

lemma add_required_zero: "r < 18446744073709551616 \<Longrightarrow> add_required r 0 = Inr r"
  by (simp add: add_required_def)

lemma then_add_required:
  "then_ok (add_required r a) (\<lambda>r. then_ok (add_required r b) f) = then_ok (add_required r (a + b)) f"
  "then_ok (add_required r a) (\<lambda>r. add_required r b) = add_required r (a + b)"
  by (auto simp: add_required_def add.assoc)

lemma add_required_less: "add_required r n = Inr k \<Longrightarrow> k < 18446744073709551616"
  by (auto simp: add_required_def split: if_splits)

abbreviation sources_length :: "source list \<Rightarrow> nat" where
  "sources_length ss \<equiv> sum_list (map source_length ss)"

lemma preflight_fields_length:
  assumes "response_fields_validate m fs = Inr ()" and "r < 18446744073709551616"
  shows "preflight_fields r fs = add_required r (sources_length (concat (map field_sources fs)))"
  using assms
proof (induction fs arbitrary: r)
  case Nil
  then show ?case by (simp add: add_required_zero)
next
  case (Cons f fs)
  have valid: "arbor_http_field_validate m f = Inr ()" and rest: "response_fields_validate m fs = Inr ()"
    using Cons.prems(1) by (auto simp: then_ok_Inr_iff split: if_splits)
  have name: "fld_name_length f \<noteq> 0" "fld_name_data f \<noteq> 0" "\<not> range_wraps (fld_name_data f) (fld_name_length f)"
    and val: "fld_value_length f \<noteq> 0 \<Longrightarrow> fld_value_data f \<noteq> 0 \<and> \<not> range_wraps (fld_value_data f) (fld_value_length f)"
    using valid by (auto simp: arbor_http_field_validate_def token_span_valid_def field_value_valid_def name_span_def
      value_span_def object_span_valid_iff range_wraps_def split: if_splits)
  have size: "sources_length (field_sources f) = unat (fld_name_length f) + 2 + unat (fld_value_length f) + 2"
    by (simp add: field_sources_def)
  have "preflight_fields r (f # fs) =
      then_ok (add_required r (sources_length (field_sources f))) (\<lambda>r. preflight_fields r fs)"
  proof -
    have "\<not> (fld_name_length f = 0 \<or> fld_name_data f = 0)" "\<not> (fld_value_length f \<noteq> 0 \<and> fld_value_data f = 0)"
      "\<not> (fld_value_length f \<noteq> 0 \<and> range_wraps (fld_value_data f) (fld_value_length f))"
      using name val by blast+
    then show ?thesis
      unfolding size preflight_fields.simps using name(3)
      by (simp only: if_False then_add_required) (simp add: add.assoc)
  qed
  also have "\<dots> = then_ok (add_required r (sources_length (field_sources f)))
      (\<lambda>r. add_required r (sources_length (concat (map field_sources fs))))"
    by (rule then_ok_cong) (auto dest: add_required_less intro: Cons.IH [OF rest])
  also have "\<dots> = add_required r (sources_length (concat (map field_sources (f # fs))))"
    by (simp add: then_add_required)
  finally show ?case .
qed

text \<open>The arguments the C code passes after its checks.\<close>

definition args_ready :: "mem \<Rightarrow> field_store \<Rightarrow> arbor_asm_buffer \<Rightarrow> http0_asm_response_args \<Rightarrow> bool" where
  "args_ready m store b args \<longleftrightarrow>
     200 \<le> arg_status args \<and> arg_status args \<le> 599 \<and> arg_send_body args \<le> 1 \<and> arg_emit_content_length args \<le> 1 \<and>
     arg_close_after_response args \<le> 1 \<and> unat (arg_field_count args) \<le> 576460752303423487 \<and>
     object_span_valid (arg_fields args) (arg_field_count args * SIZEOF_FIELD) \<and>
     object_span_valid (arg_body_data args) (arg_body_length args) \<and> buf_length b \<le> buf_capacity b \<and>
     object_span_valid (buf_data b) (buf_capacity b) \<and> length (arg_reason args) \<le> 30 \<and>
     response_fields_validate m (fields_of store (arg_fields args) (arg_field_count args)) = Inr ()"

abbreviation message :: "field_store \<Rightarrow> http0_asm_response_args \<Rightarrow> source list" where
  "message store args \<equiv> message_sources store args (decimal (unat (arg_status args)))
     (if arg_emit_content_length args = 0 then [] else decimal (unat (arg_body_length args)))"

definition fits_buffer :: "arbor_asm_buffer \<Rightarrow> nat \<Rightarrow> stop + nat" where
  "fits_buffer b n =
     (if unat (buf_length b) + n \<ge> 18446744073709551616 then fail EOVERFLOW
      else if unat (buf_length b) + n > unat (buf_capacity b) then fail ENOSPC else Inr n)"

lemma count_times_size:
  "unat (n :: u64) \<le> 576460752303423487 \<Longrightarrow> unat (n * SIZEOF_FIELD) = unat n * 32"
  by (subst unat_mult_lem [THEN iffD1]) simp_all

text \<open>A chain of additions is one addition.\<close>

lemma chain_end: "r < 18446744073709551616 \<Longrightarrow> f r = then_ok (add_required r 0) f"
  by (simp add: add_required_zero)

lemma chain_add:
  assumes "\<And>r. r < 18446744073709551616 \<Longrightarrow> g r = then_ok (add_required r k) f"
  shows "then_ok (add_required r n) g = then_ok (add_required r (n + k)) f"
proof -
  have "then_ok (add_required r n) g = then_ok (add_required r n) (\<lambda>r. then_ok (add_required r k) f)"
    by (rule then_ok_cong) (auto dest: add_required_less intro: assms)
  then show ?thesis by (simp add: then_add_required)
qed

lemma chain_optional:
  assumes "\<And>r. r < 18446744073709551616 \<Longrightarrow> g r = then_ok (add_required r k) f" and "r < 18446744073709551616"
  shows "then_ok (if c then Inr r else add_required r n) g = then_ok (add_required r ((if c then 0 else n) + k)) f"
  using chain_add [of g k f r n] assms by simp

lemma chain_fields:
  assumes "\<And>r. r < 18446744073709551616 \<Longrightarrow> g r = then_ok (add_required r k) f" and "r < 18446744073709551616"
    and "response_fields_validate m fs = Inr ()"
  shows "then_ok (preflight_fields r fs) g =
    then_ok (add_required r (sources_length (concat (map field_sources fs)) + k)) f"
  unfolding preflight_fields_length [OF assms(3,2)] by (rule chain_add) (rule assms(1))

lemma fits_chain:
  "then_ok (add_required r n) (\<lambda>r. then_ok (add_required (unat (buf_length b)) r) (\<lambda>t.
     if t > unat (buf_capacity b) then fail ENOSPC else Inr r)) = fits_buffer b (r + n)"
  by (auto simp: add_required_def fits_buffer_def)

lemma preflight_length:
  assumes ready: "args_ready m store b args"
  shows "preflight store b args = fits_buffer b (sources_length (message store args))"
proof -
  let ?fields = "sources_length (concat (map field_sources (fields_of store (arg_fields args) (arg_field_count args))))"
  let ?cl = "if arg_emit_content_length args = 0 then 0
    else length content_length_prefix + (u64_decimal_length (arg_body_length args) + length crlf)"
  let ?close = "if arg_close_after_response args = 0 then 0 else length connection_close"
  let ?body = "if arg_send_body args = 0 then 0 else unat (arg_body_length args)"
  have guards: "\<not> (arg_status args < 200 \<or> arg_status args > 599 \<or> arg_send_body args > 1 \<or>
      arg_emit_content_length args > 1 \<or> arg_close_after_response args > 1)" "\<not> buf_length b > buf_capacity b"
    using ready by (auto simp: args_ready_def)
  have null: "n \<noteq> 0 \<Longrightarrow> object_span_valid d n \<Longrightarrow> d \<noteq> 0 \<and> \<not> range_wraps d n" for d n
    by (simp add: object_span_valid_iff range_wraps_def)
  have "unat (arg_field_count args) div 2 ^ 59 = 0" using ready by (simp add: args_ready_def)
  moreover have "arg_field_count args \<noteq> 0 \<Longrightarrow> arg_field_count args * SIZEOF_FIELD \<noteq> 0"
    using ready count_times_size [of "arg_field_count args"] by (auto simp: args_ready_def word_unat_eq_iff)
  ultimately have pointers:
    "\<not> (arg_field_count args \<noteq> 0 \<and> arg_fields args = 0)"
    "\<not> (arg_field_count args \<noteq> 0 \<and> unat (arg_field_count args) div 2 ^ 59 \<noteq> 0)"
    "\<not> (arg_field_count args \<noteq> 0 \<and> range_wraps (arg_fields args) (arg_field_count args * SIZEOF_FIELD))"
    "\<not> (arg_body_length args \<noteq> 0 \<and> arg_body_data args = 0)"
    "\<not> (arg_body_length args \<noteq> 0 \<and> range_wraps (arg_body_data args) (arg_body_length args))"
    "\<not> (buf_capacity b \<noteq> 0 \<and> buf_data b = 0)" "\<not> (buf_capacity b \<noteq> 0 \<and> range_wraps (buf_data b) (buf_capacity b))"
    using ready null unfolding args_ready_def by blast+
  have total: "sources_length (message store args) =
      length http11_prefix + 3 + 1 + length crlf + length (arg_reason args) + ?fields + ?cl + ?close + length crlf + ?body"
    using ready status_digits [of "arg_status args"]
    by (simp add: message_sources_def args_ready_def u64_decimal_length_decimal ascii_def)
  let ?start = "length http11_prefix + 3 + 1 + length crlf"
  have "preflight store b args =
    then_ok (add_required ?start (length (arg_reason args))) (\<lambda>r.
    then_ok (preflight_fields r (fields_of store (arg_fields args) (arg_field_count args))) (\<lambda>r.
    then_ok (if arg_emit_content_length args = 0 then Inr r
       else add_required r (length content_length_prefix + (u64_decimal_length (arg_body_length args) + length crlf))) (\<lambda>r.
    then_ok (if arg_close_after_response args = 0 then Inr r else add_required r (length connection_close)) (\<lambda>r.
    then_ok (add_required r (length crlf)) (\<lambda>r.
    then_ok (if arg_send_body args = 0 then Inr r else add_required r (unat (arg_body_length args))) (\<lambda>r.
    then_ok (add_required (unat (buf_length b)) r) (\<lambda>t.
      if t > unat (buf_capacity b) then fail ENOSPC else Inr r)))))))"
    unfolding preflight_def then_add_required using guards pointers by (simp only: if_False simp_thms)
  also have "\<dots> = then_ok (add_required ?start (length (arg_reason args) + (?fields + (?cl + (?close + (length crlf + (?body + 0)))))))
      (\<lambda>r. then_ok (add_required (unat (buf_length b)) r) (\<lambda>t.
        if t > unat (buf_capacity b) then fail ENOSPC else Inr r))"
    using ready unfolding args_ready_def
    by (intro chain_add chain_fields [where m = m] chain_optional chain_end; simp)
  also have "\<dots> = fits_buffer b (?start + (length (arg_reason args) + (?fields + (?cl + (?close + (length crlf + (?body + 0)))))))"
    by (rule fits_chain)
  finally have "preflight store b args =
      fits_buffer b (?start + (length (arg_reason args) + (?fields + (?cl + (?close + (length crlf + (?body + 0)))))))" .
  moreover have "?start + (length (arg_reason args) + (?fields + (?cl + (?close + (length crlf + (?body + 0)))))) =
      sources_length (message store args)" unfolding total by linarith
  ultimately show ?thesis by simp
qed

section \<open>The serializer\<close>

abbreviation message_bytes :: "mem \<Rightarrow> field_store \<Rightarrow> http0_asm_response_args \<Rightarrow> u8 list" where
  "message_bytes m store args \<equiv> concat (map (source_bytes m) (message store args))"

lemma asm_result:
  assumes ready: "args_ready m store b args" and readable: "list_all (readable b) (message store args)"
  shows "http0_response_serialize_asm m store b args =
    (case fits_buffer b (length (message_bytes m store args)) of
       Inl e \<Rightarrow> (Inl e, m, b)
     | Inr n \<Rightarrow> (Inr (of_nat n), store_bytes m (buf_data b + buf_length b) (message_bytes m store args),
         b\<lparr>buf_length := buf_length b + of_nat n\<rparr>))"
proof (cases "fits_buffer b (length (message_bytes m store args))")
  case (Inl e)
  then show ?thesis
    using preflight_length [OF ready] by (simp add: http0_response_serialize_asm_def length_sources)
next
  case (Inr n)
  then have n: "n = sources_length (message store args)"
    and fits: "unat (buf_length b) + sources_length (message store args) \<le> unat (buf_capacity b)"
    by (auto simp: fits_buffer_def length_sources split: if_splits)
  have three: "length (decimal (unat (arg_status args))) = 3"
    using ready by (intro status_digits) (simp_all add: args_ready_def)
  define cl where "cl = (if arg_emit_content_length args = 0 then [] else decimal (unat (arg_body_length args)))"
  have digits: "(if arg_emit_content_length args = 0 then Inr [] else Inr (decimal (unat (arg_body_length args)))) =
      (Inr cl :: stop + u8 list)"
    by (simp add: cl_def)
  have cl: "\<not> (arg_emit_content_length args \<noteq> 0 \<and> length cl \<noteq> u64_decimal_length (arg_body_length args))"
    by (simp add: cl_def u64_decimal_length_decimal)
  have appended: "append_all m b (message store args) = (Inr (),
      store_bytes m (buf_data b + buf_length b) (message_bytes m store args),
      b\<lparr>buf_length := buf_length b + of_nat (sources_length (message store args))\<rparr>)"
    using ready by (intro append_all_ok readable fits) (simp add: args_ready_def)
  have pre: "preflight store b args = Inr n"
    using preflight_length [OF ready] Inr by (simp add: length_sources)
  have three': "\<not> length (decimal (unat (arg_status args))) \<noteq> 3" using three by simp
  have asm: "http0_response_serialize_asm m store b args =
      (Inr (of_nat n), store_bytes m (buf_data b + buf_length b) (message_bytes m store args),
       b\<lparr>buf_length := buf_length b + of_nat n\<rparr>)"
    unfolding http0_response_serialize_asm_def pre format_decimal digits sum.case if_not_P [OF cl] if_not_P [OF three']
      appended [folded cl_def] prod.case cl_def [symmetric] n [folded cl_def] ..
  show ?thesis unfolding Inr sum.case asm ..
qed

lemma serialize_checks_E:
  assumes "serialize_checks store buffer_at q r bytes_written close_at s = Inr ()"
  shows "request_header_span_validate (ss_mem s) q = Inr ()"
    and "arbor_http_response_validate (ss_mem s) store r = Inr ()"
    and "response_output_alias_validate buffer_at (ss_buffer s) q store r bytes_written close_at = Inr ()"
    and "\<not> (method_is (ss_mem s) q ''CONNECT'' \<and> 200 \<le> rsp_status (rs r) \<and> rsp_status (rs r) \<le> 299)"
  using assms by (auto simp: serialize_checks_def then_ok_Inr_iff split: if_splits)

lemma response_validate_E:
  assumes "arbor_http_response_validate m store r = Inr ()"
  shows "200 \<le> rsp_status (rs r)" and "rsp_status (rs r) \<le> 599"
    and "object_span_valid (rsp_body_data (rs r)) (rsp_body_length (rs r))"
    and "unat (rsp_field_count (rs r)) \<le> 576460752303423487"
    and "object_span_valid (rsp_fields (rs r)) (rsp_field_count (rs r) * SIZEOF_FIELD)"
    and "response_fields_validate m (fields_of store (rsp_fields (rs r)) (rsp_field_count (rs r))) = Inr ()"
    and "rsp_status (rs r) \<in> {204, 205, 304} \<Longrightarrow> rsp_body_length (rs r) = 0"
proof -
  have max: "unat (UINTPTR_MAX div SIZEOF_FIELD) = 576460752303423487"
    by (simp add: unat_div unsigned_minus_1_eq_mask mask_eq_exp_minus_1)
  show "200 \<le> rsp_status (rs r)" and "rsp_status (rs r) \<le> 599"
    and "object_span_valid (rsp_body_data (rs r)) (rsp_body_length (rs r))"
    and "object_span_valid (rsp_fields (rs r)) (rsp_field_count (rs r) * SIZEOF_FIELD)"
    and "response_fields_validate m (fields_of store (rsp_fields (rs r)) (rsp_field_count (rs r))) = Inr ()"
    and "rsp_status (rs r) \<in> {204, 205, 304} \<Longrightarrow> rsp_body_length (rs r) = 0"
    using assms by (auto simp: arbor_http_response_validate_def split: if_splits)
  have "\<not> rsp_field_count (rs r) > UINTPTR_MAX div SIZEOF_FIELD"
    using assms by (auto simp: arbor_http_response_validate_def split: if_splits)
  then show "unat (rsp_field_count (rs r)) \<le> 576460752303423487"
    unfolding word_less_nat_alt max by simp
qed

lemma validated_fields:
  "response_fields_validate m fs = Inr () \<longleftrightarrow>
     (\<forall>f\<in>set fs. arbor_http_field_validate m f = Inr () \<and> \<not> response_reserved_field_name m (name_span f))"
  by (induction fs) (auto simp: then_ok_Inr_iff)

lemma reason_length: "length (reason_phrase s) \<le> 30"
  by (simp add: reason_phrase_def)

lemma serialize_ready:
  assumes "serialize_checks store buffer_at q r bytes_written close_at s = Inr ()"
  shows "args_ready (ss_mem s) store (ss_buffer s) (serialize_args (ss_mem s) q (rs r) c)"
    and "list_all (readable (ss_buffer s)) (message store (serialize_args (ss_mem s) q (rs r) c))"
proof -
  let ?b = "ss_buffer s" and ?args = "serialize_args (ss_mem s) q (rs r) c"
  note checks = serialize_checks_E [OF assms]
  note valid = response_validate_E [OF checks(2)]
  have buffer: "buf_length ?b \<le> buf_capacity ?b" "object_span_valid (buf_data ?b) (buf_capacity ?b)"
    "\<not> response_sources_overlap_region store r (buf_data ?b) (buf_capacity ?b)"
    using checks(3) by (auto simp: response_output_alias_validate_def split: if_splits)
  show "args_ready (ss_mem s) store ?b ?args"
    using valid buffer reason_length [of "rsp_status (rs r)"]
    by (simp add: args_ready_def serialize_args_def Let_def)
  have apart: "\<not> spans_overlap (buf_data ?b) (buf_capacity ?b) (rsp_body_data (rs r)) (rsp_body_length (rs r))"
    "f \<in> set (fields_of store (rsp_fields (rs r)) (rsp_field_count (rs r))) \<Longrightarrow>
      \<not> spans_overlap (buf_data ?b) (buf_capacity ?b) (fld_name_data f) (fld_name_length f) \<and>
      \<not> spans_overlap (buf_data ?b) (buf_capacity ?b) (fld_value_data f) (fld_value_length f)" for f
    using buffer(3) by (auto simp: response_sources_overlap_region_def list_ex_iff split: if_splits)
  have field: "list_all (readable ?b) (field_sources f)"
    if "f \<in> set (fields_of store (rsp_fields (rs r)) (rsp_field_count (rs r)))" for f
  proof -
    have "arbor_http_field_validate (ss_mem s) f = Inr ()" using valid(6) that validated_fields by blast
    then have "fld_name_data f \<noteq> 0" "fld_value_length f \<noteq> 0 \<Longrightarrow> fld_value_data f \<noteq> 0"
      by (auto simp: arbor_http_field_validate_def token_span_valid_def field_value_valid_def name_span_def
        value_span_def object_span_valid_iff split: if_splits)
    then show ?thesis using apart(2) [OF that] by (simp add: field_sources_def readable_def)
  qed
  have "list_all (readable ?b) (concat (map field_sources (fields_of store (rsp_fields (rs r)) (rsp_field_count (rs r)))))"
    using field by (auto simp: list_all_iff)
  moreover have "rsp_body_length (rs r) \<noteq> 0 \<Longrightarrow> rsp_body_data (rs r) \<noteq> 0"
    using valid(3) by (simp add: object_span_valid_iff)
  ultimately show "list_all (readable ?b) (message store ?args)"
    using apart(1) by (simp add: message_sources_def serialize_args_def Let_def readable_def)
qed

lemma serialize_buffer:
  assumes "serialize_checks store buffer_at q r bytes_written close_at s = Inr ()"
  shows "object_span_valid (buf_data (ss_buffer s)) (buf_capacity (ss_buffer s))"
  using serialize_checks_E(3) [OF assms] by (auto simp: response_output_alias_validate_def split: if_splits)

text \<open>The outcome of a call whose checks pass.\<close>

definition response_close :: "mem \<Rightarrow> http_frame \<Rightarrow> request_object \<Rightarrow> response_object \<Rightarrow> bool" where
  "response_close m fr q r \<longleftrightarrow>
     arbor_http_request_connection_close m fr q (fr_request_close fr) \<noteq> Inr False \<or>
     rsp_flags (rs r) AND ARBOR_HTTP_RESPONSE_FLAG_CLOSE \<noteq> 0"

abbreviation response_message :: "mem \<Rightarrow> field_store \<Rightarrow> http_frame \<Rightarrow> request_object \<Rightarrow> response_object \<Rightarrow> u8 list" where
  "response_message m store fr q r \<equiv>
     message_bytes m store (serialize_args m q (rs r) (response_close m fr q r))"

lemma serialize_result:
  assumes checks: "serialize_checks store buffer_at q r bytes_written close_at s = Inr ()"
  shows "arbor_http_response_serialize store fr buffer_at q r bytes_written close_at s =
    (case fits_buffer (ss_buffer s) (length (response_message (ss_mem s) store fr q r)) of
       Inl e \<Rightarrow> (Inl e, store_outputs bytes_written close_at 0 False s)
     | Inr n \<Rightarrow> (Inr (), store_outputs bytes_written close_at (of_nat n) (response_close (ss_mem s) fr q r)
         (s\<lparr>ss_mem := store_bytes (ss_mem s) (buf_data (ss_buffer s) + buf_length (ss_buffer s))
              (response_message (ss_mem s) store fr q r),
            ss_buffer := (ss_buffer s)\<lparr>buf_length := buf_length (ss_buffer s) + of_nat n\<rparr>\<rparr>)))"
proof -
  have flag: "((case arbor_http_request_connection_close (ss_mem s) fr q (fr_request_close fr) of
      Inl _ \<Rightarrow> True | Inr c \<Rightarrow> c) \<or> rsp_flags (rs r) AND ARBOR_HTTP_RESPONSE_FLAG_CLOSE \<noteq> 0) =
      response_close (ss_mem s) fr q r"
    by (auto simp: response_close_def split: sum.splits)
  show ?thesis
    unfolding arbor_http_response_serialize_def checks sum.case Let_def flag
      asm_result [OF serialize_ready [OF checks]]
    by (simp add: store_outputs_def split: sum.split)
qed

section \<open>The head of the message\<close>

definition status_line :: "u64 \<Rightarrow> u8 list" where
  "status_line status = http11_prefix @ decimal (unat status) @ [0x20] @ reason_phrase status @ crlf"

definition field_line :: "mem \<Rightarrow> arbor_http_field \<Rightarrow> header_line" where
  "field_line m f = (let v = span_bytes m (value_span f) in
     \<lparr>ln_name = span_bytes m (name_span f), ln_lead = 0x20 # trim_lead v, ln_value = trim_core v, ln_trail = trim_trail v\<rparr>)"

definition content_length_line :: "u64 \<Rightarrow> header_line" where
  "content_length_line n =
     \<lparr>ln_name = ascii_bytes ''Content-Length'', ln_lead = [0x20], ln_value = decimal (unat n), ln_trail = []\<rparr>"

definition connection_close_line :: header_line where
  "connection_close_line =
     \<lparr>ln_name = ascii_bytes ''Connection'', ln_lead = [0x20], ln_value = ascii_bytes ''close'', ln_trail = []\<rparr>"

definition response_lines :: "mem \<Rightarrow> field_store \<Rightarrow> arbor_http_response \<Rightarrow> bool \<Rightarrow> header_line list" where
  "response_lines m store r c =
     map (field_line m) (fields_of store (rsp_fields r) (rsp_field_count r)) @
     (if rsp_status r = 204 \<or> rsp_status r = 304 then [] else [content_length_line (rsp_body_length r)]) @
     (if c then [connection_close_line] else [])"

definition sent_body :: "mem \<Rightarrow> request_object \<Rightarrow> arbor_http_response \<Rightarrow> u8 list" where
  "sent_body m q r =
     (if method_is m q ''HEAD'' \<or> rsp_status r = 204 \<or> rsp_status r = 205 \<or> rsp_status r = 304 then []
      else bytes_at m (rsp_body_data r) (rsp_body_length r))"

lemma field_sources_render: "concat (map (source_bytes m) (field_sources f)) = render (field_line m f)"
proof -
  let ?v = "span_bytes m (value_span f)"
  have "(if fld_value_length f = 0 then [] else bytes_at m (fld_value_data f) (fld_value_length f)) = ?v"
    by (simp add: value_span_def)
  then have "concat (map (source_bytes m) (field_sources f)) =
      bytes_at m (fld_name_data f) (fld_name_length f) @ colon_space @ ?v @ crlf"
    by (simp add: field_sources_def value_span_def)
  then show ?thesis
    using trim_parts [of ?v] by (simp add: render_def field_line_def Let_def name_span_def)
qed

lemma concat_sources:
  "concat (map (source_bytes m) (concat (map field_sources fs))) = render_all (map (field_line m) fs)"
  by (induction fs) (simp_all add: field_sources_render)

lemma message_parts:
  "message_bytes m store (serialize_args m q r c) =
     status_line (rsp_status r) @ render_all (response_lines m store r c) @ crlf @ sent_body m q r"
proof -
  have cl: "render (content_length_line n) = content_length_prefix @ decimal (unat n) @ crlf" for n
    by (simp add: render_def content_length_line_def ascii_def)
  have close: "render connection_close_line = Http_Response.connection_close"
    by (simp add: render_def connection_close_line_def ascii_def)
  show ?thesis
    by (simp add: message_sources_def serialize_args_def Let_def status_line_def response_lines_def sent_body_def
      concat_sources cl close)
qed

lemma decimal_digits: "decimal n \<noteq> [] \<and> list_all digit_char (decimal n)"
proof (induction n rule: decimal.induct)
  case (1 n)
  have digit: "d < 10 \<Longrightarrow> digit_char (digit_byte d)" for d using digit_char_iff by blast
  show ?case using "1.IH" digit by (cases "n < 10"; subst (1 2) decimal.simps) simp_all
qed

lemma digit_facts: "digit_char b \<Longrightarrow> field_value_byte b \<and> \<not> ows_byte b"
  by (auto simp: digit_char_def field_value_byte_def ows_byte_def word_le_nat_alt word_less_nat_alt)

lemma content_length_ok: "line_ok (content_length_line n)"
proof -
  have "list_all token_char (ascii_bytes ''Content-Length'')"
    by (simp add: token_char_def alnum_char_def digit_char_def ascii_def)
  moreover have "list_all field_value_byte (decimal (unat n))" "trimmed (decimal (unat n))"
    using decimal_digits [of "unat n"] digit_facts by (auto simp: list_all_iff trimmed_def)
  ultimately show ?thesis
    using decimal_digits [of "unat n"] by (simp add: line_ok_def content_length_line_def ows_byte_def)
qed

lemma connection_close_ok: "line_ok connection_close_line"
  by (simp add: line_ok_def connection_close_line_def token_char_def alnum_char_def digit_char_def ascii_def
    ows_byte_def field_value_byte_def trimmed_def)

lemma field_line_ok:
  assumes "arbor_http_field_validate m f = Inr ()"
  shows "line_ok (field_line m f)"
proof -
  let ?v = "span_bytes m (value_span f)"
  have valid: "fld_name_length f \<noteq> 0" "list_all token_char (span_bytes m (name_span f))" "list_all field_value_byte ?v"
    using assms by (auto simp: arbor_http_field_validate_def token_span_valid_def field_value_valid_def name_span_def
      split: if_splits)
  have "set (trim_core ?v) \<subseteq> set ?v" using trim_parts [of ?v] by (metis set_append sup_ge1 sup_ge2 order_trans)
  then have "list_all field_value_byte (trim_core ?v)" using valid(3) by (auto simp: list_all_iff)
  then show ?thesis
    using valid trim_shape [of ?v]
    by (simp add: line_ok_def field_line_def Let_def ows_byte_def) (simp add: name_span_def)
qed

lemma response_lines_ok:
  assumes "arbor_http_response_validate m store r = Inr ()"
  shows "list_all line_ok (response_lines m store (rs r) c)"
proof -
  have "\<forall>f\<in>set (fields_of store (rsp_fields (rs r)) (rsp_field_count (rs r))). line_ok (field_line m f)"
    using response_validate_E(6) [OF assms] validated_fields field_line_ok by blast
  then show ?thesis
    by (auto simp: response_lines_def content_length_ok connection_close_ok list_all_iff)
qed

text \<open>The lines a receiver takes off the front, up to the first bytes that are no line.\<close>

function scan_lines :: "u8 list \<Rightarrow> header_line list" where
  "scan_lines bytes = (case scan_line bytes of
     None \<Rightarrow> []
   | Some l \<Rightarrow> l # scan_lines (drop (length (render l)) bytes))"
  by pat_completeness auto

termination scan_lines
proof (relation "measure length")
  fix bytes l assume "scan_line bytes = Some l"
  then obtain rest where "bytes = render l @ rest" using scan_line_iff by blast
  then show "(drop (length (render l)) bytes, bytes) \<in> measure length" by simp
qed simp

declare scan_lines.simps [simp del]

lemma scan_lines_render: "list_all line_ok ls \<Longrightarrow> scan_lines (render_all ls @ crlf @ rest) = ls"
proof (induction ls)
  case Nil
  have "scan_line (crlf @ rest) = None"
    by (simp add: scan_line_def)
  then show ?case by (subst scan_lines.simps) simp
next
  case (Cons l ls)
  then show ?case
    using scan_line_render [of l "render_all ls @ crlf @ rest"] by (subst scan_lines.simps) simp
qed

end
