(* ===== verification/Http_Host_Grammar.thy ===== *)
theory Http_Host_Grammar
  imports Http_Grammar
begin

text \<open>
  The \<open>Host\<close> value of RFC 9110 over the URI grammar of RFC 3986, written from the documents and not from
  \<open>src/c/http.c\<close>, and the proof that the recogniser of the code accepts exactly its non-empty words.
\<close>

section \<open>The grammar of the documents\<close>

definition rfc_alpha :: "u8 list" where
  "rfc_alpha = ascii_bytes ''ABCDEFGHIJKLMNOPQRSTUVWXYZabcdefghijklmnopqrstuvwxyz''"

definition rfc_digit :: "u8 list" where
  "rfc_digit = ascii_bytes ''0123456789''"

definition rfc_unreserved :: "u8 list" where
  "rfc_unreserved = rfc_alpha @ rfc_digit @ ascii_bytes ''-._~''"

definition rfc_sub_delims :: "u8 list" where
  "rfc_sub_delims = ascii_bytes (''!$&'' @ [CHR 0x27] @ ''()*+,;='')"

text \<open>\<open>reg-name = *( unreserved / pct-encoded / sub-delims )\<close>\<close>

inductive rfc_reg_name :: "u8 list \<Rightarrow> bool" where
  reg_empty: "rfc_reg_name []"
| reg_char: "c \<in> set (rfc_unreserved @ rfc_sub_delims) \<Longrightarrow> rfc_reg_name rest \<Longrightarrow> rfc_reg_name (c # rest)"
| reg_pct: "a \<in> set rfc_hexdig \<Longrightarrow> b \<in> set rfc_hexdig \<Longrightarrow> rfc_reg_name rest \<Longrightarrow> rfc_reg_name (percent # a # b # rest)"

text \<open>\<open>IPvFuture = "v" 1*HEXDIG "." 1*( unreserved / sub-delims / ":" )\<close>, the letter in either case\<close>

definition rfc_ipvfuture :: "u8 list \<Rightarrow> bool" where
  "rfc_ipvfuture bytes \<longleftrightarrow> (\<exists>v version address. bytes = v # version @ dot # address \<and> v \<in> set (ascii_bytes ''vV'') \<and>
     version \<noteq> [] \<and> set version \<subseteq> set rfc_hexdig \<and>
     address \<noteq> [] \<and> set address \<subseteq> set (rfc_unreserved @ rfc_sub_delims @ [colon]))"

text \<open>\<open>host = IP-literal / IPv4address / reg-name\<close>, a registered name not being empty in \<open>http\<close>, and
  \<open>Host = uri-host [ ":" port ]\<close> with \<open>port = *DIGIT\<close>\<close>

definition rfc_uri_host :: "u8 list \<Rightarrow> bool" where
  "rfc_uri_host bytes \<longleftrightarrow>
     (\<exists>literal. bytes = open_bracket # literal @ [close_bracket] \<and> (rfc_ipv6 literal \<or> rfc_ipvfuture literal)) \<or>
     rfc_ipv4 bytes \<or> (bytes \<noteq> [] \<and> rfc_reg_name bytes)"

definition rfc_port :: "u8 list \<Rightarrow> bool" where
  "rfc_port bytes \<longleftrightarrow> bytes = [] \<or> (\<exists>digits. bytes = colon # digits \<and> set digits \<subseteq> set rfc_digit)"

definition rfc_host :: "u8 list \<Rightarrow> bool" where
  "rfc_host bytes \<longleftrightarrow> (\<exists>host port. bytes = host @ port \<and> rfc_uri_host host \<and> rfc_port port)"

section \<open>Characters\<close>

lemma digit_char_rfc: "digit_char v \<longleftrightarrow> v \<in> set rfc_digit"
  unfolding digit_char_def rfc_digit_def between_iff member_unat by (simp add: ascii_def)

lemma alnum_char_rfc: "alnum_char v \<longleftrightarrow> v \<in> set (rfc_alpha @ rfc_digit)"
  unfolding alnum_char_def digit_char_def rfc_digit_def rfc_alpha_def between_iff member_unat
  by (simp add: ascii_def) blast

lemma unreserved_rfc: "uri_unreserved_char v \<longleftrightarrow> v \<in> set rfc_unreserved"
  unfolding uri_unreserved_char_def alnum_char_rfc rfc_unreserved_def by auto

lemma sub_delim_rfc: "uri_sub_delim_char v \<longleftrightarrow> v \<in> set rfc_sub_delims"
  by (simp add: uri_sub_delim_char_def rfc_sub_delims_def)

text \<open>The characters that separate the parts are in none of the classes.\<close>

lemma class_chars:
  "close_bracket \<notin> set rfc_hexdig" "dot \<notin> set rfc_hexdig" "colon \<notin> set rfc_hexdig"
  "open_bracket \<notin> set (rfc_unreserved @ rfc_sub_delims)" "colon \<notin> set (rfc_unreserved @ rfc_sub_delims)"
  "percent \<notin> set (rfc_unreserved @ rfc_sub_delims)"
  "close_bracket \<notin> set (rfc_unreserved @ rfc_sub_delims @ [colon])"
  "close_bracket \<notin> set (ascii_bytes ''vV'')" "dot \<in> set rfc_unreserved" "set rfc_digit \<subseteq> set rfc_unreserved"
  by (simp_all add: rfc_hexdig_def rfc_unreserved_def rfc_sub_delims_def rfc_alpha_def rfc_digit_def ascii_def)

section \<open>Registered names, literals and ports\<close>

lemma reg_name_loop_rfc: "reg_name_loop bytes \<longleftrightarrow> rfc_reg_name bytes"
proof
  show "reg_name_loop bytes \<Longrightarrow> rfc_reg_name bytes"
  proof (induction bytes rule: reg_name_loop.induct)
    case (2 byte rest)
    show ?case
    proof (cases "uri_unreserved_char byte \<or> uri_sub_delim_char byte")
      case True
      then show ?thesis using 2 by (auto simp: unreserved_rfc sub_delim_rfc intro: reg_char)
    next
      case False
      then have pct: "byte = percent" "uri_pct_encoded_at (byte # rest)" "reg_name_loop (drop 2 rest)"
        using "2.prems" by (auto split: if_splits)
      then obtain a b rest' where rest: "rest = a # b # rest'"
        by (cases rest; cases "tl rest") (auto simp: uri_pct_encoded_at_def)
      then show ?thesis using pct 2(2) [OF False] by (auto simp: uri_pct_encoded_at_def hex_digit_iff intro: reg_pct)
    qed
  qed (rule reg_empty)
next
  show "rfc_reg_name bytes \<Longrightarrow> reg_name_loop bytes"
  proof (induction rule: rfc_reg_name.induct)
    case (reg_pct a b rest)
    have "\<not> (uri_unreserved_char percent \<or> uri_sub_delim_char percent)"
      using class_chars(6) by (simp add: unreserved_rfc sub_delim_rfc)
    then show ?case using reg_pct by (simp add: uri_pct_encoded_at_def hex_digit_iff)
  qed (simp_all add: unreserved_rfc sub_delim_rfc)
qed

lemma reg_name_chars: "rfc_reg_name bytes \<Longrightarrow> colon \<notin> set bytes"
  by (induction rule: rfc_reg_name.induct) (use class_chars in auto)

lemma reg_name_first: "rfc_reg_name bytes \<Longrightarrow> bytes \<noteq> [] \<Longrightarrow> hd bytes \<noteq> open_bracket"
  by (erule rfc_reg_name.cases) (use class_chars in auto)

lemma reg_name_plain: "set bytes \<subseteq> set (rfc_unreserved @ rfc_sub_delims) \<Longrightarrow> rfc_reg_name bytes"
  by (induction bytes) (auto intro: rfc_reg_name.intros)

lemma ipv4_chars:
  assumes "rfc_ipv4 bytes"
  shows "set bytes \<subseteq> insert dot (set rfc_digit)"
proof -
  have digits: "set (decimal n) \<subseteq> set rfc_digit" if "n \<le> 255" for n
  proof -
    have "ipv4_octet_valid (decimal n)" unfolding ipv4_octet_valid_iff using that by blast
    then show ?thesis using octet_digits by (auto simp: list_all_iff digit_char_rfc)
  qed
  obtain a b c d where "a \<le> 255" "b \<le> 255" "c \<le> 255" "d \<le> 255"
    "bytes = decimal a @ dot # decimal b @ dot # decimal c @ dot # decimal d" using assms by (auto simp: rfc_ipv4_def)
  then show ?thesis using digits [of a] digits [of b] digits [of c] digits [of d] by (simp add: le_supI subset_insertI2)
qed

lemma ipv4_reg_name: "rfc_ipv4 bytes \<Longrightarrow> rfc_reg_name bytes"
  using ipv4_chars [of bytes] class_chars(9,10) by (intro reg_name_plain) auto

lemma port_rfc: "host_port_valid rest \<longleftrightarrow> rfc_port rest"
  by (cases rest) (auto simp: host_port_valid_def rfc_port_def list_all_iff digit_char_rfc)

lemma ipvfuture_rfc: "ipvfuture_valid bytes \<longleftrightarrow> rfc_ipvfuture bytes"
proof (cases "length bytes < 4 \<or> hd bytes \<notin> set (ascii_bytes ''vV'')")
  case True
  then show ?thesis
    by (auto simp: ipvfuture_valid_def rfc_ipvfuture_def neq_Nil_conv)
next
  case False
  then obtain v rest where bytes: "bytes = v # rest" "v \<in> set (ascii_bytes ''vV'')" by (cases bytes) auto
  define version where "version = takeWhile hex_digit rest"
  define after where "after = dropWhile hex_digit rest"
  have rest: "rest = version @ after" "set version \<subseteq> set rfc_hexdig"
    by (auto simp: version_def after_def hex_digit_iff dest: set_takeWhileD)
  have "ipvfuture_valid bytes \<longleftrightarrow> version \<noteq> [] \<and> after \<noteq> [] \<and> hd after = dot \<and> tl after \<noteq> [] \<and>
      set (tl after) \<subseteq> set (rfc_unreserved @ rfc_sub_delims @ [colon])"
    using False
    by (auto simp: ipvfuture_valid_def bytes(1) version_def after_def Let_def list_all_iff unreserved_rfc sub_delim_rfc)
  also have "\<dots> \<longleftrightarrow> rfc_ipvfuture bytes"
  proof
    assume "version \<noteq> [] \<and> after \<noteq> [] \<and> hd after = dot \<and> tl after \<noteq> [] \<and>
      set (tl after) \<subseteq> set (rfc_unreserved @ rfc_sub_delims @ [colon])"
    moreover from this have "after = dot # tl after" using list.collapse [of after] by simp
    ultimately show "rfc_ipvfuture bytes"
      unfolding rfc_ipvfuture_def using bytes rest
      by (intro exI [of _ v] exI [of _ version] exI [of _ "tl after"]) simp
  next
    assume "rfc_ipvfuture bytes"
    then obtain ver address where a: "rest = ver @ dot # address" "ver \<noteq> []" "set ver \<subseteq> set rfc_hexdig" "address \<noteq> []"
      "set address \<subseteq> set (rfc_unreserved @ rfc_sub_delims @ [colon])" by (auto simp: rfc_ipvfuture_def bytes(1))
    have hex: "\<forall>x\<in>set ver. hex_digit x" using a(3) by (auto simp: hex_digit_iff)
    then have "version = ver" "after = dot # address" unfolding version_def after_def a(1) by simp_all
    then show "version \<noteq> [] \<and> after \<noteq> [] \<and> hd after = dot \<and> tl after \<noteq> [] \<and>
      set (tl after) \<subseteq> set (rfc_unreserved @ rfc_sub_delims @ [colon])" using a by simp
  qed
  finally show ?thesis .
qed

lemma joined_chars: "set (joined sep gs) \<subseteq> insert sep (\<Union>g\<in>set gs. set g)"
  by (induction gs) auto

lemma literal_chars:
  assumes "rfc_ipv6 literal \<or> rfc_ipvfuture literal"
  shows "close_bracket \<notin> set literal" and "literal \<noteq> []"
proof -
  have h16: "close_bracket \<notin> set g" if "rfc_h16 g" for g using that class_chars(1) by (auto simp: rfc_h16_def)
  have ipv4: "close_bracket \<notin> set g" if "rfc_ipv4 g" for g
    using ipv4_chars [OF that] class_chars(10) class_chars(7) by auto
  have pieces: "\<forall>g\<in>set gs. close_bracket \<notin> set g" if "ipv6_pieces gs n" for gs n
    using that by (induction gs n rule: ipv6_pieces.induct) (auto dest: h16 ipv4)
  have join: "close_bracket \<notin> set (joined colon gs)" if "\<forall>g\<in>set gs. close_bracket \<notin> set g" for gs
    using that joined_chars [of colon gs] by auto
  have "close_bracket \<notin> set literal" if "rfc_ipv6 literal"
    using that pieces join h16 unfolding rfc_ipv6_def list_all_iff by fastforce
  moreover have "close_bracket \<notin> set literal" if "rfc_ipvfuture literal"
    using that class_chars(1,7,8) unfolding rfc_ipvfuture_def by fastforce
  ultimately show "close_bracket \<notin> set literal" using assms by blast
  show "literal \<noteq> []"
    using assms ipv6_address_valid_iff [of literal] by (auto simp: rfc_ipvfuture_def ipv6_address_valid_def)
qed

lemma literal_rfc: "literal \<noteq> [] \<Longrightarrow> ip_literal_valid literal \<longleftrightarrow> rfc_ipv6 literal \<or> rfc_ipvfuture literal"
  by (auto simp: ip_literal_valid_def ipvfuture_rfc ipv6_address_valid_iff)

section \<open>The recogniser\<close>

lemma host_name_part:
  assumes "colon \<notin> set name" and "rfc_port port"
  shows "takeWhile (\<lambda>b. b \<noteq> colon) (name @ port) = name" and "dropWhile (\<lambda>b. b \<noteq> colon) (name @ port) = port"
proof -
  have "\<forall>b\<in>set name. b \<noteq> colon" using assms(1) by auto
  then show "takeWhile (\<lambda>b. b \<noteq> colon) (name @ port) = name" and "dropWhile (\<lambda>b. b \<noteq> colon) (name @ port) = port"
    using assms(2) by (auto simp: rfc_port_def)
qed

theorem host_bytes_valid_iff: "host_bytes_valid bytes \<longleftrightarrow> rfc_host bytes"
proof
  assume valid: "host_bytes_valid bytes"
  then obtain b rest where bytes: "bytes = b # rest" by (cases bytes) (auto simp: host_bytes_valid_def)
  show "rfc_host bytes"
  proof (cases "b = open_bracket")
    case True
    define literal where "literal = takeWhile (\<lambda>b. b \<noteq> close_bracket) rest"
    define after where "after = dropWhile (\<lambda>b. b \<noteq> close_bracket) rest"
    have ok: "after \<noteq> []" "literal \<noteq> []" "ip_literal_valid literal" "rfc_port (tl after)"
      using valid True by (auto simp: host_bytes_valid_def bytes Let_def literal_def after_def port_rfc split: if_splits)
    have "hd after = close_bracket" using ok(1) hd_dropWhile [of "\<lambda>b. b \<noteq> close_bracket" rest] by (auto simp: after_def)
    then have "after = close_bracket # tl after" using ok(1) list.collapse [of after] by simp
    moreover have "rest = literal @ after" by (simp add: literal_def after_def)
    ultimately have "bytes = (open_bracket # literal @ [close_bracket]) @ tl after" using bytes True by simp
    then show ?thesis
      unfolding rfc_host_def rfc_uri_host_def using ok literal_rfc [OF ok(2)] by blast
  next
    case False
    let ?name = "takeWhile (\<lambda>b. b \<noteq> colon) bytes"
    have "reg_name_valid ?name" "rfc_port (dropWhile (\<lambda>b. b \<noteq> colon) bytes)"
      using valid False by (auto simp: host_bytes_valid_def bytes Let_def port_rfc simp del: takeWhile.simps dropWhile.simps split: if_splits)
    then show ?thesis
      unfolding rfc_host_def rfc_uri_host_def
      by (intro exI [of _ ?name] exI [of _ "dropWhile (\<lambda>b. b \<noteq> colon) bytes"]) (simp add: reg_name_valid_def reg_name_loop_rfc)
  qed
next
  assume "rfc_host bytes"
  then obtain host port where bytes: "bytes = host @ port" and host: "rfc_uri_host host" and port: "rfc_port port"
    by (auto simp: rfc_host_def)
  consider literal where "host = open_bracket # literal @ [close_bracket]" "rfc_ipv6 literal \<or> rfc_ipvfuture literal"
    | "host \<noteq> []" "rfc_reg_name host"
    using host ipv4_reg_name rfc_ipv4_chars(3) unfolding rfc_uri_host_def by blast
  then show "host_bytes_valid bytes"
  proof cases
    case (1 literal)
    have "\<forall>b\<in>set literal. b \<noteq> close_bracket" using literal_chars(1) [OF 1(2)] by auto
    then have "takeWhile (\<lambda>b. b \<noteq> close_bracket) (tl bytes) = literal" "dropWhile (\<lambda>b. b \<noteq> close_bracket) (tl bytes) = close_bracket # port"
      by (simp_all add: bytes 1(1))
    then show ?thesis
      using port 1 literal_chars(2) [OF 1(2)] literal_rfc [of literal] by (simp add: host_bytes_valid_def bytes port_rfc)
  next
    case 2
    note part = host_name_part [OF reg_name_chars [OF 2(2)] port]
    show ?thesis
      using 2 part reg_name_first [OF 2(2,1)] port
      by (simp add: host_bytes_valid_def bytes Let_def reg_name_valid_def reg_name_loop_rfc port_rfc)
  qed
qed

end
