(* ===== verification/Http_Properties.thy ===== *)
theory Http_Properties
  imports Http_Message Http_Host_Grammar
begin

text \<open>
  The properties of the HTTP layer, with a small request and a response on which every hypothesis is met.
\<close>

section \<open>Concrete objects\<close>

text \<open>The bytes of \<open>GET / HTTP/1.1\<close> and of the lines \<open>Host: a.b\<close> and \<open>Connection: x, Close\<close>.\<close>

definition demo_text :: "u8 list" where
  "demo_text =
    [71, 69, 84, 32, 47, 32, 72, 84, 84, 80, 47, 49, 46, 49, 72, 111, 115, 116, 58, 32, 97, 46, 98, 13, 10, 67,
     111, 110, 110, 101, 99, 116, 105, 111, 110, 58, 32, 120, 44, 32, 67, 108, 111, 115, 101, 13, 10]"

definition demo_mem :: mem where
  "demo_mem = (\<lambda>a.
     if 4096 \<le> a \<and> unat (a - 4096) < length demo_text then demo_text ! unat (a - 4096)
     else if 16384 \<le> a \<and> unat (a - 16384) < 4 then [72, 111, 115, 116] ! unat (a - 16384)
     else if 20480 \<le> a \<and> unat (a - 20480) < 6 then [88, 118, 97, 108, 32, 111] ! unat (a - 20480)
     else 0)"

definition demo_request :: request_object where
  "demo_request = \<lparr>rq_at = 8192, rq = \<lparr>req_method_ptr = 4096, req_method_len = 3, req_target_ptr = 4100, req_target_len = 1,
     req_version_ptr = 4102, req_version_len = 8, req_headers_ptr = 4110, req_headers_len = 33, req_body_ptr = 0,
     req_body_available = 0, req_content_length = 0, req_message_length = 47\<rparr>\<rparr>"

definition demo_frame :: http_frame where
  "demo_frame = \<lparr>fr_cursor = 12288, fr_field = 12304, fr_has_field = 12352, fr_count = 12360, fr_out = 12368,
     fr_found = 12400, fr_host_name = 16384, fr_request_close = 12408, fr_candidate = 12416\<rparr>"

definition demo_lines :: "header_line list" where
  "demo_lines =
     [\<lparr>ln_name = ascii_bytes ''Host'', ln_lead = [0x20], ln_value = ascii_bytes ''a.b'', ln_trail = []\<rparr>,
      \<lparr>ln_name = ascii_bytes ''Connection'', ln_lead = [0x20], ln_value = ascii_bytes ''x, Close'', ln_trail = []\<rparr>]"

definition demo_store :: field_store where
  "demo_store = (\<lambda>_. \<lparr>fld_name_data = 20480, fld_name_length = 1, fld_value_data = 20481, fld_value_length = 5\<rparr>)"

definition demo_response :: response_object where
  "demo_response = \<lparr>rs_at = 24576, rs = \<lparr>rsp_abi_version = 1, rsp_struct_size = 56, rsp_flags = 1, rsp_status = 200,
     rsp_fields = 24640, rsp_field_count = 1, rsp_body_data = 20481, rsp_body_length = 3\<rparr>\<rparr>"

definition demo_state :: serialize_state where
  "demo_state = \<lparr>ss_mem = demo_mem, ss_buffer = \<lparr>buf_data = 32768, buf_length = 0, buf_capacity = 128\<rparr>,
     ss_bytes_written = 7, ss_close = False\<rparr>"

text \<open>How the demo objects are evaluated: bytes of memory, spans as intervals, and the character classes.\<close>

lemmas demo_bytes = bytes_at_def demo_mem_def demo_text_def upt_rec ascii_def
lemmas demo_spans = request_region_overlaps_def spans_disjoint_iff object_span_valid_iff demo_request_def demo_frame_def
lemmas demo_chars = token_char_def alnum_char_def digit_char_def ows_byte_def field_value_byte_def trimmed_def ascii_def

lemma demo_validated: "request_header_span_validate demo_mem demo_request = Inr ()"
proof -
  have "bytes_at demo_mem 4102 8 = ascii_bytes ''HTTP/1.1''" by (simp add: demo_bytes)
  then show ?thesis by (simp add: request_header_span_validate_def demo_spans)
qed

lemma demo_ready: "loop_ready demo_mem demo_frame demo_request"
  unfolding scanner_ready_def using demo_validated by (simp add: demo_spans)

lemma demo_lines_from: "lines_from demo_mem demo_request 0 demo_lines"
proof -
  have "header_bytes demo_mem demo_request = drop 14 demo_text" by (simp add: demo_bytes demo_request_def)
  then show ?thesis
    by (simp add: lines_from_def demo_text_def demo_lines_def render_def line_ok_def demo_chars)
qed

lemma demo_host_name:
  "span_bytes demo_mem (host_name_span demo_frame) = ascii_bytes ''Host''"
  "token_span_valid demo_mem (host_name_span demo_frame)"
proof -
  show name: "span_bytes demo_mem (host_name_span demo_frame) = ascii_bytes ''Host''"
    by (simp add: demo_bytes host_name_span_def demo_frame_def)
  show "token_span_valid demo_mem (host_name_span demo_frame)"
    unfolding token_span_valid_def name
    by (simp add: host_name_span_def demo_frame_def object_span_valid_iff demo_chars)
qed

lemma demo_out_ready:
  "out_ready demo_request (host_name_span demo_frame) 12360 SIZEOF_U64"
  "out_ready demo_request (host_name_span demo_frame) 12368 SIZEOF_FIELD"
  "out_ready demo_request (host_name_span demo_frame) 12400 SIZEOF_BOOL"
  "out_ready demo_request no_span 12408 SIZEOF_BOOL"
  "out_ready demo_request no_span 12424 SIZEOF_SPAN"
  "\<not> spans_overlap 12368 SIZEOF_FIELD 12400 SIZEOF_BOOL"
  by (simp_all add: out_ready_def host_name_span_def demo_spans)

lemma demo_field:
  "arbor_http_field_validate demo_mem (demo_store a) = Inr ()" "\<not> response_reserved_field_name demo_mem (name_span (demo_store a))"
  "field_line demo_mem (demo_store a) =
     \<lparr>ln_name = ascii_bytes ''X'', ln_lead = [0x20], ln_value = ascii_bytes ''val o'', ln_trail = []\<rparr>"
proof -
  have bytes: "bytes_at demo_mem 20480 1 = ascii_bytes ''X''" "bytes_at demo_mem 20481 5 = ascii_bytes ''val o''"
    by (simp_all add: demo_bytes)
  show "arbor_http_field_validate demo_mem (demo_store a) = Inr ()"
    by (simp add: arbor_http_field_validate_def token_span_valid_def field_value_valid_def name_span_def value_span_def
      demo_store_def bytes object_span_valid_iff) (simp add: demo_chars)
  show "\<not> response_reserved_field_name demo_mem (name_span (demo_store a))"
    by (simp add: response_reserved_field_name_def span_equal_literal_ci_def name_span_def demo_store_def)
  show "field_line demo_mem (demo_store a) =
      \<lparr>ln_name = ascii_bytes ''X'', ln_lead = [0x20], ln_value = ascii_bytes ''val o'', ln_trail = []\<rparr>"
    by (simp add: field_line_def name_span_def value_span_def demo_store_def bytes trim_lead_def trim_core_def trim_trail_def
      Let_def) (simp add: demo_chars)
qed

lemma demo_fields_of: "fields_of demo_store 24640 1 = [demo_store 24640]"
  by (simp add: fields_of_def)

lemma demo_method: "\<not> method_is demo_mem demo_request ''HEAD''" "\<not> method_is demo_mem demo_request ''CONNECT''"
  by (simp_all add: method_is_def demo_request_def)

lemma demo_checks: "serialize_checks demo_store 28672 demo_request demo_response 28704 28712 demo_state = Inr ()"
proof -
  have "arbor_http_response_validate demo_mem demo_store demo_response = Inr ()"
    by (simp add: arbor_http_response_validate_def demo_response_def demo_fields_of demo_field object_span_valid_iff)
  moreover have "response_output_alias_validate 28672 (ss_buffer demo_state) demo_request demo_store demo_response 28704 28712
      = Inr ()"
  proof -
    have request: "\<not> request_region_overlaps demo_request 28672 24" "\<not> request_region_overlaps demo_request 32768 128"
      "\<not> request_region_overlaps demo_request 28704 8" "\<not> request_region_overlaps demo_request 28712 1"
      by (simp_all add: demo_spans)
    have field: "fld_name_data (demo_store a) = 20480" "fld_name_length (demo_store a) = 1"
      "fld_value_data (demo_store a) = 20481" "fld_value_length (demo_store a) = 5" for a
      by (simp_all add: demo_store_def)
    have response: "\<not> response_sources_overlap_region demo_store demo_response 28672 24"
      "\<not> response_sources_overlap_region demo_store demo_response 32768 128"
      "\<not> response_sources_overlap_region demo_store demo_response 28704 8"
      "\<not> response_sources_overlap_region demo_store demo_response 28712 1"
      by (simp_all add: response_sources_overlap_region_def demo_response_def demo_fields_of field spans_disjoint_iff
        object_span_valid_iff)
    have own: "\<not> spans_overlap 28672 24 32768 128" "\<not> spans_overlap 28704 8 28672 24" "\<not> spans_overlap 28704 8 32768 128"
      "\<not> spans_overlap 28712 1 28672 24" "\<not> spans_overlap 28712 1 32768 128" "\<not> spans_overlap 28704 8 28712 1"
      by (simp_all add: spans_disjoint_iff object_span_valid_iff)
    have objects: "rq_at demo_request \<noteq> 0" "rs_at demo_response \<noteq> 0"
      "ss_buffer demo_state = \<lparr>buf_data = 32768, buf_length = 0, buf_capacity = 128\<rparr>"
      by (simp_all add: demo_request_def demo_response_def demo_state_def)
    show ?thesis
      by (simp add: response_output_alias_validate_def output_overlaps_def objects request response own object_span_valid_iff)
  qed
  ultimately show ?thesis
    by (simp add: serialize_checks_def demo_validated demo_method demo_state_def)
qed

lemma demo_close: "response_close (ss_mem demo_state) demo_frame demo_request demo_response = True"
  by (simp add: response_close_def demo_response_def)

lemma demo_response_lines:
  "map ln_name (response_lines (ss_mem demo_state) demo_store (rs demo_response) True) =
     [ascii_bytes ''X'', ascii_bytes ''Content-Length'', ascii_bytes ''Connection'']"
  "length (render_all (response_lines (ss_mem demo_state) demo_store (rs demo_response) True)) = 48"
  "length (status_line (rsp_status (rs demo_response))) = 17"
  "length (sent_body (ss_mem demo_state) demo_request (rs demo_response)) = 3"
proof -
  have lines: "response_lines (ss_mem demo_state) demo_store (rs demo_response) True =
      [field_line demo_mem (demo_store 24640), content_length_line 3, connection_close_line]"
    by (simp add: response_lines_def demo_response_def demo_state_def demo_fields_of)
  show "map ln_name (response_lines (ss_mem demo_state) demo_store (rs demo_response) True) =
      [ascii_bytes ''X'', ascii_bytes ''Content-Length'', ascii_bytes ''Connection'']"
    by (simp add: lines demo_field content_length_line_def connection_close_line_def)
  show "length (render_all (response_lines (ss_mem demo_state) demo_store (rs demo_response) True)) = 48"
    by (simp add: lines demo_field render_def content_length_line_def connection_close_line_def decimal_small(1))
  show "length (status_line (rsp_status (rs demo_response))) = 17"
    by (simp add: status_line_def demo_response_def reason_phrase_def decimal_small(3))
  show "length (sent_body (ss_mem demo_state) demo_request (rs demo_response)) = 3"
    by (simp add: sent_body_def demo_response_def demo_state_def demo_method)
qed

section \<open>Requests\<close>

text \<open>C21: The recognisers of IP addresses accept exactly the syntax of RFC 3986: an \<open>IPv4address\<close> is four decimal
  numbers up to 255 without leading zeros, and an \<open>IPv6address\<close> is eight 16-bit pieces, the last two possibly
  an IPv4 address, or two shorter lists of pieces around \<open>::\<close> that leave at least one piece out.\<close>

theorem ip_addresses_match_rfc:
  "(ipv4_address_valid bytes \<longleftrightarrow> rfc_ipv4 bytes) \<and> (ipv6_address_valid bytes \<longleftrightarrow> rfc_ipv6 bytes)"
  using ipv4_address_valid_iff ipv6_address_valid_iff by blast

text \<open>The header searches are exact. When the pointers pass the alias checks, \<open>header_count\<close> returns a number
  if and only if the header section is a sequence of well-formed lines, and it is the number of lines whose
  name equals the given one in any case; \<open>header_find_first\<close> finds a field if and only if some line carries
  the name after well-formed lines that do not, it is that line's field, and it reports none exactly when
  the whole section is well-formed and no line has the name.\<close>

theorem header_searches_exact:
  assumes "loop_ready m fr q" and "token_span_valid m name"
    and "out_ready q name count SIZEOF_U64" and "out_ready q name out SIZEOF_FIELD"
    and "out_ready q name found SIZEOF_BOOL" and "\<not> spans_overlap out SIZEOF_FIELD found SIZEOF_BOOL"
  shows "(arbor_http_request_header_count m fr q name count = Inr n \<longleftrightarrow>
      (\<exists>ls. lines_from m q 0 ls \<and> unat n = length (filter (named m name) ls))) \<and>
    (arbor_http_request_header_find_first m fr q name out found = Inr (Some field) \<longleftrightarrow>
      (\<exists>before l. line_after m q 0 before l \<and> (\<forall>k\<in>set before. \<not> named m name k) \<and> named m name l \<and>
        field = field_at q (of_nat (length (render_all before))) l)) \<and>
    (arbor_http_request_header_find_first m fr q name out found = Inr None \<longleftrightarrow>
      (\<exists>ls. lines_from m q 0 ls \<and> (\<forall>l\<in>set ls. \<not> named m name l)))"
  using header_count_lines [OF assms(1-3)] header_find_first_lines [OF assms(1,2,4-6)]
  by (simp add: first_named_def)

theorem header_searches_exact_witness:
  "arbor_http_request_header_count demo_mem demo_frame demo_request (host_name_span demo_frame) 12360 = Inr 1"
proof -
  have "unat (1 :: u64) = length (filter (named demo_mem (host_name_span demo_frame)) demo_lines)"
    unfolding demo_host_name by (simp add: demo_lines_def same_name_def ascii_lower_def ascii_def)
  then show ?thesis
    using header_searches_exact [OF demo_ready demo_host_name(2) demo_out_ready(1-3,6), of 1] demo_lines_from by blast
qed

text \<open>
  What a request object must be: all five spans exist, the announced length is at most the bytes available, and the
  method, the target and the version are there.
\<close>

definition request_wellformed :: "mem \<Rightarrow> request_object \<Rightarrow> bool" where
  "request_wellformed m q \<longleftrightarrow> rq_at q \<noteq> 0 \<and>
     object_span_valid (req_method_ptr (rq q)) (req_method_len (rq q)) \<and>
     object_span_valid (req_target_ptr (rq q)) (req_target_len (rq q)) \<and>
     object_span_valid (req_version_ptr (rq q)) (req_version_len (rq q)) \<and>
     object_span_valid (req_headers_ptr (rq q)) (req_headers_len (rq q)) \<and>
     object_span_valid (req_body_ptr (rq q)) (req_body_available (rq q)) \<and>
     req_content_length (rq q) \<le> req_body_available (rq q) \<and> req_method_len (rq q) \<noteq> 0 \<and> req_target_len (rq q) \<noteq> 0 \<and>
     bytes_at m (req_version_ptr (rq q)) (req_version_len (rq q)) = ascii_bytes ''HTTP/1.1''"

lemma version_span:
  assumes "bytes_at m ptr len = ascii_bytes ''HTTP/1.1''" and "object_span_valid ptr len"
  shows "len = 8" and "ptr \<noteq> 0"
proof -
  have "unat len = length (ascii_bytes ''HTTP/1.1'')" unfolding assms(1) [symmetric] by (rule length_bytes_at [symmetric])
  then have "unat len = unat (8 :: u64)" by simp
  then show "len = 8" by (simp only: word_unat_eq_iff)
  then show "ptr \<noteq> 0" using assms(2) by (simp add: object_span_valid_iff)
qed

lemma request_wellformed_iff: "request_header_span_validate m q = Inr () \<longleftrightarrow> request_wellformed m q"
proof -
  define version where "version \<longleftrightarrow> bytes_at m (req_version_ptr (rq q)) (req_version_len (rq q)) = ascii_bytes ''HTTP/1.1''"
  have span: "req_version_len (rq q) = 8" "req_version_ptr (rq q) \<noteq> 0"
    if version "object_span_valid (req_version_ptr (rq q)) (req_version_len (rq q))"
    using version_span that unfolding version_def by blast+
  show ?thesis
    unfolding request_header_span_validate_def request_wellformed_def version_def [symmetric] using span by (auto simp: fail_def not_less)
qed

text \<open>
  The local objects of \<open>arbor_http_request_host_validate\<close> and of the functions it calls, and its literal: they are
  objects of their own, so they lie apart from each other and from the memory of a request.
\<close>

definition host_locals_apart :: "mem \<Rightarrow> http_frame \<Rightarrow> request_object \<Rightarrow> bool" where
  "host_locals_apart m fr q \<longleftrightarrow>
     object_span_valid (fr_host_name fr) 4 \<and> bytes_at m (fr_host_name fr) 4 = ascii_bytes ''Host'' \<and>
     (request_wellformed m q \<longrightarrow>
       out_ready q no_span (fr_cursor fr) SIZEOF_U64 \<and> out_ready q no_span (fr_field fr) SIZEOF_FIELD \<and>
       out_ready q no_span (fr_has_field fr) SIZEOF_BOOL \<and>
       out_ready q (host_name_span fr) (fr_count fr) SIZEOF_U64 \<and>
       out_ready q (host_name_span fr) (fr_out fr) SIZEOF_FIELD \<and> out_ready q (host_name_span fr) (fr_found fr) SIZEOF_BOOL \<and>
       \<not> spans_overlap (fr_cursor fr) SIZEOF_U64 (fr_field fr) SIZEOF_FIELD \<and>
       \<not> spans_overlap (fr_cursor fr) SIZEOF_U64 (fr_has_field fr) SIZEOF_BOOL \<and>
       \<not> spans_overlap (fr_field fr) SIZEOF_FIELD (fr_has_field fr) SIZEOF_BOOL \<and>
       \<not> spans_overlap (fr_out fr) SIZEOF_FIELD (fr_found fr) SIZEOF_BOOL)"

lemma host_frame_ready_iff:
  assumes "host_locals_apart m fr q"
  shows "host_frame_ready m fr q host \<longleftrightarrow> request_wellformed m q \<and> out_ready q no_span host SIZEOF_SPAN"
  using assms
  by (auto simp: host_frame_ready_def host_locals_apart_def scanner_ready_def request_wellformed_iff) (simp_all add: out_ready_def)

lemma no_span_apart: "\<not> spans_overlap at n 0 0"
  by (simp add: spans_disjoint_iff)

lemma host_validate_requires:
  assumes "arbor_http_request_host_validate m fr q host = Inr s"
  shows "request_wellformed m q \<and> host \<noteq> 0 \<and> object_span_valid host SIZEOF_SPAN \<and> \<not> request_region_overlaps q host SIZEOF_SPAN"
  using assms unfolding request_wellformed_iff [symmetric]
  by (auto simp: arbor_http_request_host_validate_def then_ok_Inr_iff split: if_splits)

text \<open>C22: \<open>arbor_http_request_host_validate\<close> accepts exactly the well-formed requests with an origin-form or asterisk
  target whose header section is a sequence of well-formed lines, one of them a \<open>Host\<close> line and its value a word of
  the \<open>Host\<close> grammar of RFC 9110 and RFC 3986, provided that the result can be written outside the request; it returns
  the span of that value. A missing, repeated or malformed host is refused. The local objects of the function are taken
  to lie apart from the request.\<close>

theorem host_validate_exact:
  assumes "host_locals_apart m fr q"
  shows "arbor_http_request_host_validate m fr q host = Inr s \<longleftrightarrow>
    request_wellformed m q \<and> host \<noteq> 0 \<and> object_span_valid host SIZEOF_SPAN \<and> \<not> request_region_overlaps q host SIZEOF_SPAN \<and>
    target_accepted m q \<and> (\<exists>before l after. lines_from m q 0 (before @ l # after) \<and> host_line l \<and>
      (\<forall>k\<in>set (before @ after). \<not> host_line k) \<and> rfc_host (ln_value l) \<and>
      s = value_span (field_at q (of_nat (length (render_all before))) l))"
proof (cases "request_wellformed m q \<and> host \<noteq> 0 \<and> object_span_valid host SIZEOF_SPAN \<and> \<not> request_region_overlaps q host SIZEOF_SPAN")
  case True
  then have "host_frame_ready m fr q host"
    unfolding host_frame_ready_iff [OF assms] by (simp add: out_ready_def no_span_apart)
  from host_validate_lines [OF this] show ?thesis using True unfolding host_bytes_valid_iff by blast
next
  case False
  then show ?thesis using host_validate_requires by blast
qed

theorem host_validate_exact_witness:
  "arbor_http_request_host_validate demo_mem demo_frame demo_request 12424 = Inr \<lparr>span_data = 4116, span_length = 3\<rparr>"
proof -
  have frame: "fr_count demo_frame = 12360" "fr_out demo_frame = 12368" "fr_found demo_frame = 12400"
    "fr_host_name demo_frame = 16384" by (simp_all add: demo_frame_def)
  have well: "request_wellformed demo_mem demo_request" using demo_ready by (simp add: scanner_ready_def request_wellformed_iff)
  have result: "object_span_valid 12424 SIZEOF_SPAN" "\<not> request_region_overlaps demo_request 12424 SIZEOF_SPAN"
    using demo_out_ready(5) by (simp_all add: out_ready_def)
  have name: "object_span_valid (fr_host_name demo_frame) 4" "bytes_at demo_mem (fr_host_name demo_frame) 4 = ascii_bytes ''Host''"
    using demo_host_name(1) by (simp_all add: host_name_span_def frame object_span_valid_iff del: list.map)
  have apart: "host_locals_apart demo_mem demo_frame demo_request"
    unfolding host_locals_apart_def using name
    by (intro conjI impI) (simp_all add: out_ready_def host_name_span_def demo_spans)
  let ?l = "demo_lines ! 0"
  have lines: "lines_from demo_mem demo_request 0 ([] @ ?l # [demo_lines ! 1])"
    using demo_lines_from by (simp add: demo_lines_def)
  have "bytes_at demo_mem 4100 1 = [47]" by (simp add: demo_bytes)
  then have target: "target_accepted demo_mem demo_request"
    unfolding target_accepted_def by (intro exI [of _ 47] exI [of _ "[]"]) (simp add: demo_request_def ascii_def)
  have facts: "host_line ?l" "\<not> host_line (demo_lines ! 1)"
    "\<lparr>span_data = 4116, span_length = 3\<rparr> = value_span (field_at demo_request (of_nat (length (render_all []))) ?l)"
    by (simp_all add: demo_lines_def same_name_def ascii_lower_def ascii_def value_span_def field_of_def demo_request_def)
  have "host_bytes_valid (ln_value ?l)"
    by (simp add: demo_lines_def host_bytes_valid_def reg_name_valid_def host_port_valid_def uri_unreserved_char_def Let_def
      demo_chars)
  then have host: "rfc_host (ln_value ?l)" unfolding host_bytes_valid_iff .
  have others: "\<forall>k\<in>set ([] @ [demo_lines ! 1]). \<not> host_line k" using facts by simp
  have written: "(12424 :: addr) \<noteq> 0" by simp
  show ?thesis
    unfolding host_validate_exact [OF apart]
    by (rule conjI [OF well conjI [OF written conjI [OF result(1) conjI [OF result(2) conjI [OF target]]]]],
        intro exI conjI, rule lines, rule facts(1), rule others, rule host, rule facts(3))
qed

text \<open>\<open>arbor_http_request_connection_close\<close> decides as RFC 9112 asks: it returns a value exactly when the header
  section is well-formed and every \<open>Connection\<close> value is a comma separated list of tokens, with empty elements
  and white space around elements allowed, and the value is whether some element is \<open>close\<close> in any case.\<close>

theorem connection_close_exact:
  assumes "loop_ready m fr q" and "out_ready q no_span close_requested SIZEOF_BOOL"
  shows "arbor_http_request_connection_close m fr q close_requested = Inr b \<longleftrightarrow>
    (\<exists>ls. lines_from m q 0 ls \<and>
       (\<forall>l\<in>set ls. connection_line l \<longrightarrow> list_all element_ok (elements (ln_value l))) \<and>
       b = (\<exists>l\<in>set ls. connection_line l \<and> close_listed (ln_value l)))"
  by (rule connection_close_lines [OF assms])

theorem connection_close_exact_witness:
  "arbor_http_request_connection_close demo_mem demo_frame demo_request 12408 = Inr True"
proof -
  have "list_all (\<lambda>l. list_all element_ok (elements (ln_value l))) demo_lines"
    by (simp add: demo_lines_def element_ok_def trim_core_def demo_chars)
  then have ok: "list_all element_ok (elements (ln_value l))" if "l \<in> set demo_lines" for l
    using that by (simp add: list_all_iff)
  have "connection_line (demo_lines ! 1) \<and> close_listed (ln_value (demo_lines ! 1))"
    by (simp add: demo_lines_def close_listed_def trim_core_def same_name_def ascii_lower_def demo_chars)
  moreover have "demo_lines ! 1 \<in> set demo_lines" by (simp add: demo_lines_def)
  ultimately have close: "\<exists>l\<in>set demo_lines. connection_line l \<and> close_listed (ln_value l)" by blast
  show ?thesis
    unfolding connection_close_exact [OF demo_ready demo_out_ready(4)] using demo_lines_from ok close by blast
qed

section \<open>Responses\<close>

text \<open>C23: \<open>arbor_http_response_serialize\<close> is all or nothing. When its checks pass and the message fits, the call
  succeeds, the buffer holds its old contents followed by the status line, the lines of the fields, the
  \<open>Content-Length\<close> and \<open>Connection: close\<close> lines, the empty line and the body, all read as they were before
  the call, no byte outside the buffer changes, and the two outputs are the length and the close decision.
  When it does not fit, the call fails, the memory and the buffer are as before, and the outputs are zero.\<close>

theorem serialize_all_or_nothing:
  assumes "serialize_checks store buffer_at q r bytes_written close_at s = Inr ()"
  shows "let m = ss_mem s; b = ss_buffer s; c = response_close m fr q r;
      wire = status_line (rsp_status (rs r)) @ render_all (response_lines m store (rs r) c) @ crlf @ sent_body m q (rs r);
      (result, s') = arbor_http_response_serialize store fr buffer_at q r bytes_written close_at s
    in if unat (buf_length b) + length wire \<le> unat (buf_capacity b)
       then result = Inr () \<and>
         unat (buf_length (ss_buffer s')) = unat (buf_length b) + length wire \<and>
         bytes_at (ss_mem s') (buf_data b) (buf_length (ss_buffer s')) = bytes_at m (buf_data b) (buf_length b) @ wire \<and>
         (\<forall>d n. spans_overlap (buf_data b) (buf_capacity b) d n \<or> bytes_at (ss_mem s') d n = bytes_at m d n) \<and>
         ss_bytes_written s' = (if bytes_written \<noteq> 0 then of_nat (length wire) else ss_bytes_written s) \<and>
         ss_close s' = (if close_at \<noteq> 0 then c else ss_close s)
       else result \<in> {fail ENOSPC, fail EOVERFLOW} \<and> ss_mem s' = m \<and> ss_buffer s' = b \<and>
         ss_bytes_written s' = (if bytes_written \<noteq> 0 then 0 else ss_bytes_written s) \<and>
         ss_close s' = (if close_at \<noteq> 0 then False else ss_close s)"
proof -
  let ?m = "ss_mem s" and ?b = "ss_buffer s" and ?c = "response_close (ss_mem s) fr q r"
  let ?wire = "status_line (rsp_status (rs r)) @ render_all (response_lines ?m store (rs r) ?c) @ crlf @ sent_body ?m q (rs r)"
  have valid: "object_span_valid (buf_data ?b) (buf_capacity ?b)" using serialize_buffer [OF assms] .
  show ?thesis
  proof (cases "unat (buf_length ?b) + length ?wire \<le> unat (buf_capacity ?b)")
    case True
    then have "fits_buffer ?b (length ?wire) = Inr (length ?wire)"
      using unat_u64_upper [of "buf_capacity ?b"] by (simp add: fits_buffer_def)
    moreover have "spans_overlap (buf_data ?b) (buf_capacity ?b) d n \<or>
        bytes_at (store_bytes ?m (buf_data ?b + buf_length ?b) ?wire) d n = bytes_at ?m d n" for d n
      using store_inside_span [OF valid True, of d n ?m] by auto
    ultimately show ?thesis
      using True bytes_at_extend(1) [OF valid True] bytes_at_extend(2) [OF valid True, of ?m]
      unfolding serialize_result [OF assms] message_parts Let_def by (simp add: store_outputs_def)
  next
    case False
    then have "\<exists>e. fits_buffer ?b (length ?wire) = e \<and> e \<in> {fail ENOSPC, fail EOVERFLOW}"
      by (auto simp: fits_buffer_def)
    then show ?thesis
      using False unfolding serialize_result [OF assms] message_parts Let_def
      by (auto simp: store_outputs_def fail_def)
  qed
qed

theorem serialize_all_or_nothing_witness:
  "fst (arbor_http_response_serialize demo_store demo_frame 28672 demo_request demo_response 28704 28712 demo_state) = Inr ()"
proof -
  have fits: "unat (buf_length (ss_buffer demo_state)) + length (status_line (rsp_status (rs demo_response)) @
      render_all (response_lines (ss_mem demo_state) demo_store (rs demo_response)
        (response_close (ss_mem demo_state) demo_frame demo_request demo_response)) @ crlf @
      sent_body (ss_mem demo_state) demo_request (rs demo_response)) \<le> unat (buf_capacity (ss_buffer demo_state))"
    unfolding demo_close length_append demo_response_lines by (simp add: demo_state_def)
  show ?thesis
    using serialize_all_or_nothing [OF demo_checks, of demo_frame]
    unfolding Let_def if_P [OF fits] by (simp only: case_prod_beta)
qed

text \<open>C24: No field can split the head of a response. Scanned with the request scanner, the bytes after the status
  line are one line per field with the field's name and its trimmed value, then the content length (absent
  for 204 and 304) and the close line, and then the empty line and the body, which is empty for \<open>HEAD\<close>, 204,
  205 and 304.\<close>

theorem serialized_head_scans_back:
  assumes "serialize_checks store buffer_at q r bytes_written close_at s = Inr ()"
  shows "let m = ss_mem s; c = response_close m fr q r; wire = response_message m store fr q r;
      after = drop (length (status_line (rsp_status (rs r)))) wire
    in take (length (status_line (rsp_status (rs r)))) wire = status_line (rsp_status (rs r)) \<and>
       scan_lines after = response_lines m store (rs r) c \<and>
       drop (length (render_all (scan_lines after))) after = crlf @ sent_body m q (rs r)"
proof -
  have "list_all line_ok (response_lines (ss_mem s) store (rs r) c)" for c
    using response_lines_ok [OF serialize_checks_E(2) [OF assms]] .
  then show ?thesis
    unfolding Let_def message_parts by (simp add: scan_lines_render [simplified])
qed

theorem serialized_head_scans_back_witness:
  "map ln_name (scan_lines (drop 17 (response_message demo_mem demo_store demo_frame demo_request demo_response))) =
     [ascii_bytes ''X'', ascii_bytes ''Content-Length'', ascii_bytes ''Connection'']"
proof -
  let ?wire = "response_message (ss_mem demo_state) demo_store demo_frame demo_request demo_response"
  note len = demo_response_lines(3)
  have names: "map ln_name (response_lines (ss_mem demo_state) demo_store (rs demo_response)
      (response_close (ss_mem demo_state) demo_frame demo_request demo_response)) =
      [ascii_bytes ''X'', ascii_bytes ''Content-Length'', ascii_bytes ''Connection'']"
    unfolding demo_close demo_response_lines ..
  have "scan_lines (drop 17 ?wire) = response_lines (ss_mem demo_state) demo_store (rs demo_response)
      (response_close (ss_mem demo_state) demo_frame demo_request demo_response)"
    using serialized_head_scans_back [OF demo_checks, of demo_frame] unfolding Let_def len by (elim conjE)
  moreover have "ss_mem demo_state = demo_mem" by (simp add: demo_state_def)
  ultimately show ?thesis using names by (simp only:)
qed

end
