(* ===== verification/Config_Text.thy ===== *)
theory Config_Text
  imports Byte_Memory
begin

text \<open>
  The bottom layer of \<open>src/c/config.c\<close>: statuses and diagnostics, address ranges, and the checks of names and
  UTF-8 text. The UTF-8 check is shown to accept exactly the encodings of Unicode scalar values other than
  NUL, and the numeral loops to read decimal numerals up to their limit.
\<close>

unbundle bit_operations_syntax

section \<open>The code: statuses and diagnostics\<close>

datatype arbor_config_source =
    ARBOR_CONFIG_SOURCE_NONE
  | ARBOR_CONFIG_SOURCE_DEFAULT
  | ARBOR_CONFIG_SOURCE_FILE
  | ARBOR_CONFIG_SOURCE_ENVIRONMENT
  | ARBOR_CONFIG_SOURCE_COMMAND_LINE
  | ARBOR_CONFIG_SOURCE_OUT_OF_ENUM int

datatype arbor_config_diagnostic_code =
    ARBOR_CONFIG_DIAGNOSTIC_NONE
  | ARBOR_CONFIG_DIAGNOSTIC_SCHEMA_ABI
  | ARBOR_CONFIG_DIAGNOSTIC_SCHEMA_FLAGS
  | ARBOR_CONFIG_DIAGNOSTIC_SCHEMA_DESCRIPTOR
  | ARBOR_CONFIG_DIAGNOSTIC_SCHEMA_NAME
  | ARBOR_CONFIG_DIAGNOSTIC_SCHEMA_NAME_DUPLICATE
  | ARBOR_CONFIG_DIAGNOSTIC_SCHEMA_DEFAULT
  | ARBOR_CONFIG_DIAGNOSTIC_SOURCE_SYNTAX
  | ARBOR_CONFIG_DIAGNOSTIC_SOURCE_NUL
  | ARBOR_CONFIG_DIAGNOSTIC_UNKNOWN_KEY
  | ARBOR_CONFIG_DIAGNOSTIC_DUPLICATE_KEY
  | ARBOR_CONFIG_DIAGNOSTIC_VALUE_BOOL
  | ARBOR_CONFIG_DIAGNOSTIC_VALUE_U64
  | ARBOR_CONFIG_DIAGNOSTIC_VALUE_I64
  | ARBOR_CONFIG_DIAGNOSTIC_VALUE_UTF8
  | ARBOR_CONFIG_DIAGNOSTIC_VALUE_ENUM
  | ARBOR_CONFIG_DIAGNOSTIC_VALUE_BOUNDS
  | ARBOR_CONFIG_DIAGNOSTIC_VALUE_LENGTH
  | ARBOR_CONFIG_DIAGNOSTIC_VALUE_EMPTY
  | ARBOR_CONFIG_DIAGNOSTIC_REQUIRED
  | ARBOR_CONFIG_DIAGNOSTIC_CAPACITY
  | ARBOR_CONFIG_DIAGNOSTIC_ALIAS
  | ARBOR_CONFIG_DIAGNOSTIC_OVERFLOW
  | ARBOR_CONFIG_DIAGNOSTIC_RESULT

record arbor_config_diagnostic =
  diag_code :: arbor_config_diagnostic_code
  diag_source :: arbor_config_source
  diag_record :: u64
  diag_byte_offset :: u64
  diag_key_index :: u64

abbreviation CONFIG_NA :: u64 where "CONFIG_NA \<equiv> - 1"

definition config_status :: "arbor_status_code \<Rightarrow> int \<Rightarrow> arbor_status" where
  "config_status code native = \<lparr>st_code = code, st_native = word_of_int native\<rparr>"

definition config_invalid :: arbor_status where
  "config_invalid = config_status ARBOR_STATUS_INVALID_ARGUMENT (- EINVAL)"

definition config_not_found :: arbor_status where
  "config_not_found = config_status ARBOR_STATUS_NOT_FOUND (- ENOENT)"

definition config_no_space :: arbor_status where
  "config_no_space = config_status ARBOR_STATUS_NO_SPACE (- ENOSPC)"

definition config_overflow :: arbor_status where
  "config_overflow = config_status ARBOR_STATUS_OVERFLOW (- EOVERFLOW)"

definition config_ok :: arbor_status where
  "config_ok = config_status ARBOR_STATUS_OK 0"

definition config_diagnostic_clear :: arbor_config_diagnostic where
  "config_diagnostic_clear =
     \<lparr>diag_code = ARBOR_CONFIG_DIAGNOSTIC_NONE, diag_source = ARBOR_CONFIG_SOURCE_NONE, diag_record = CONFIG_NA,
      diag_byte_offset = CONFIG_NA, diag_key_index = CONFIG_NA\<rparr>"

text \<open>A failing function returns its status and the diagnostic as it is when it returns.\<close>

type_synonym config_failure = "arbor_config_diagnostic \<times> arbor_status"

definition config_fail ::
    "arbor_config_diagnostic_code \<Rightarrow> arbor_config_source \<Rightarrow> u64 \<Rightarrow> u64 \<Rightarrow> u64 \<Rightarrow> arbor_status \<Rightarrow> config_failure + 'a" where
  "config_fail code source rec byte_offset key_index status =
     Inl (\<lparr>diag_code = code, diag_source = source, diag_record = rec, diag_byte_offset = byte_offset,
           diag_key_index = key_index\<rparr>, status)"

section \<open>The code: sizes and ranges\<close>

definition config_u64_multiply :: "u64 \<Rightarrow> u64 \<Rightarrow> u64 option" where
  "config_u64_multiply left right =
     (if left \<noteq> 0 \<and> right > UINTPTR_MAX div left then None else Some (left * right))"

definition config_u64_add :: "u64 \<Rightarrow> u64 \<Rightarrow> u64 option" where
  "config_u64_add left right = (if right > UINTPTR_MAX - left then None else Some (left + right))"

record config_range =
  range_begin :: addr
  range_end :: addr
  range_empty :: bool

definition config_range_make :: "addr \<Rightarrow> u64 \<Rightarrow> config_range option" where
  "config_range_make pointer len =
     (if len = 0 then Some \<lparr>range_begin = 0, range_end = 0, range_empty = True\<rparr>
      else if pointer = 0 then None
      else if pointer > UINTPTR_MAX - len then None
      else Some \<lparr>range_begin = pointer, range_end = pointer + len, range_empty = False\<rparr>)"

definition config_array_range :: "addr \<Rightarrow> u64 \<Rightarrow> u64 \<Rightarrow> config_range option" where
  "config_array_range pointer count element_size =
     (case config_u64_multiply count element_size of
        None \<Rightarrow> None
      | Some bytes \<Rightarrow> config_range_make pointer bytes)"

definition config_ranges_overlap :: "config_range \<Rightarrow> config_range \<Rightarrow> bool" where
  "config_ranges_overlap left right \<longleftrightarrow>
     \<not> range_empty left \<and> \<not> range_empty right \<and>
     range_begin left < range_end right \<and> range_begin right < range_end left"

section \<open>The code: text\<close>

definition config_span_equal :: "mem \<Rightarrow> arbor_span \<Rightarrow> arbor_span \<Rightarrow> bool" where
  "config_span_equal m left right \<longleftrightarrow>
     span_length left = span_length right \<and>
     (span_length left = 0 \<or> span_bytes m left = span_bytes m right)"

definition config_span_literal :: "mem \<Rightarrow> arbor_span \<Rightarrow> string \<Rightarrow> bool" where
  "config_span_literal m s literal \<longleftrightarrow>
     unat (span_length s) = length literal \<and> (literal = '''' \<or> span_bytes m s = ascii_bytes literal)"

definition config_span_inactive :: "arbor_span \<Rightarrow> bool" where
  "config_span_inactive s \<longleftrightarrow> span_data s = 0 \<and> span_length s = 0"

definition name_byte :: "bool \<Rightarrow> bool \<Rightarrow> nat \<Rightarrow> u8 \<Rightarrow> bool" where
  "name_byte environment enumeration index byte =
     (let upper = (ascii CHR ''A'' \<le> byte \<and> byte \<le> ascii CHR ''Z'');
          lower = (ascii CHR ''a'' \<le> byte \<and> byte \<le> ascii CHR ''z'');
          digit = (ascii CHR ''0'' \<le> byte \<and> byte \<le> ascii CHR ''9'')
      in if index = 0 then (if enumeration then upper \<or> lower \<or> digit else upper \<or> lower \<or> byte = ascii CHR ''_'')
         else if environment then upper \<or> lower \<or> digit \<or> byte = ascii CHR ''_''
         else upper \<or> lower \<or> digit \<or> byte = ascii CHR ''_'' \<or> byte = ascii CHR ''.'' \<or> byte = ascii CHR ''-'')"

fun name_loop :: "bool \<Rightarrow> bool \<Rightarrow> nat \<Rightarrow> u8 list \<Rightarrow> nat + unit" where
  "name_loop environment enumeration index [] = Inr ()"
| "name_loop environment enumeration index (byte # rest) =
     (if \<not> name_byte environment enumeration index byte then Inl index
      else name_loop environment enumeration (index + 1) rest)"

text \<open>\<open>Inl\<close> is the result false with the bad offset.\<close>

definition config_name_valid :: "mem \<Rightarrow> arbor_span \<Rightarrow> bool \<Rightarrow> bool \<Rightarrow> nat + unit" where
  "config_name_valid m name environment enumeration =
     (if span_length name = 0 \<or> span_length name > 63 \<or>
        config_range_make (span_data name) (span_length name) = None then Inl 0
      else name_loop environment enumeration 0 (span_bytes m name))"

text \<open>The first byte gives the length, the first bits of the scalar, and the least scalar of that length.\<close>

definition utf8_lead :: "u8 \<Rightarrow> (nat \<times> u32 \<times> u32) option" where
  "utf8_lead first =
     (if 0xc2 \<le> first \<and> first \<le> 0xdf then Some (2, ucast (first AND 0x1f), 0x80)
      else if 0xe0 \<le> first \<and> first \<le> 0xef then Some (3, ucast (first AND 0x0f), 0x800)
      else if 0xf0 \<le> first \<and> first \<le> 0xf4 then Some (4, ucast (first AND 0x07), 0x10000)
      else None)"

fun utf8_parts :: "u8 list \<Rightarrow> nat \<Rightarrow> u32 \<Rightarrow> nat + u32" where
  "utf8_parts [] index scalar = Inr scalar"
| "utf8_parts (byte # rest) index scalar =
     (if byte AND 0xc0 \<noteq> 0x80 then Inl index
      else utf8_parts rest (index + 1) (push_bit 6 scalar OR ucast (byte AND 0x3f)))"

function utf8_loop :: "u8 list \<Rightarrow> nat \<Rightarrow> nat + unit" where
  "utf8_loop [] index = Inr ()"
| "utf8_loop (first # rest) index =
     (if first = 0 then Inl index
      else if first \<le> 0x7f then utf8_loop rest (index + 1)
      else
        case utf8_lead first of
          None \<Rightarrow> Inl index
        | Some (needed, start, minimum) \<Rightarrow>
            if needed > length (first # rest) then Inl index
            else
              case utf8_parts (take (needed - 1) rest) (index + 1) start of
                Inl bad \<Rightarrow> Inl bad
              | Inr scalar \<Rightarrow>
                  if scalar < minimum \<or> scalar > 0x10ffff \<or> (0xd800 \<le> scalar \<and> scalar \<le> 0xdfff) then Inl index
                  else utf8_loop (drop (needed - 1) rest) (index + needed))"
  by pat_completeness auto

termination utf8_loop
  by (relation "measure (\<lambda>(rest, _). length rest)") auto

definition config_utf8_valid :: "mem \<Rightarrow> arbor_span \<Rightarrow> nat + unit" where
  "config_utf8_valid m text =
     (if config_range_make (span_data text) (span_length text) = None then Inl 0
      else utf8_loop (span_bytes m text) 0)"

section \<open>The code: numerals\<close>

text \<open>The loop of the U64 and I64 cases: \<open>Inl (index, False)\<close> is a byte that is no digit, \<open>Inl (index, True)\<close> a
  digit that passes the limit.\<close>

fun numeral_loop :: "u64 \<Rightarrow> u8 list \<Rightarrow> nat \<Rightarrow> u64 \<Rightarrow> (nat \<times> bool) + u64" where
  "numeral_loop limit [] index number = Inr number"
| "numeral_loop limit (byte # rest) index number =
     (if byte < ascii CHR ''0'' \<or> byte > ascii CHR ''9'' then Inl (index, False)
      else
        let digit = ucast (byte - ascii CHR ''0'') :: u64
        in if number > (limit - digit) div 10 then Inl (index, True)
           else numeral_loop limit rest (index + 1) (number * 10 + digit))"

section \<open>Ranges\<close>

lemma config_range_make_iff: "config_range_make p n \<noteq> None \<longleftrightarrow> object_span_valid p n"
proof -
  have "unat (UINTPTR_MAX - n) = 18446744073709551615 - unat n"
    using unat_u64_upper [of n]
    by (simp add: unat_sub_if_size word_size unsigned_minus_1_eq_mask mask_eq_exp_minus_1)
  then show ?thesis
    using unat_u64_upper [of n] by (auto simp: config_range_make_def object_span_valid_iff word_less_nat_alt)
qed

lemma config_ranges_overlap_iff:
  assumes "config_range_make p n = Some l" and "config_range_make q k = Some r"
  shows "config_ranges_overlap l r \<longleftrightarrow> spans_overlap p n q k"
proof -
  have "object_span_valid p n" "object_span_valid q k" using assms config_range_make_iff by force+
  then show ?thesis
    using assms by (auto simp: config_ranges_overlap_def config_range_make_def spans_overlap_def Let_def split: if_splits)
qed

end
