(* ===== verification/Config_Schema.thy ===== *)
theory Config_Schema
  imports Config_Text
begin

text \<open>
  The objects of \<open>include/arborcore/config.h\<close>, the heap that holds them, and the schema half of
  \<open>src/c/config.c\<close>. A pointer is its address. The heap has one store for each type of object and one for bytes, as the
  code reads and writes whole objects and copies bytes between spans; two objects of an array are the size of one apart.
\<close>

section \<open>The code: objects\<close>

datatype arbor_config_kind =
    ARBOR_CONFIG_KIND_BOOL
  | ARBOR_CONFIG_KIND_U64
  | ARBOR_CONFIG_KIND_I64
  | ARBOR_CONFIG_KIND_UTF8
  | ARBOR_CONFIG_KIND_ENUM
  | ARBOR_CONFIG_KIND_OUT_OF_ENUM int

abbreviation ARBOR_CONFIG_ABI_VERSION :: u32 where "ARBOR_CONFIG_ABI_VERSION \<equiv> 1"
abbreviation ARBOR_CONFIG_SCHEMA_KNOWN_FLAGS :: u64 where "ARBOR_CONFIG_SCHEMA_KNOWN_FLAGS \<equiv> 0"
abbreviation ARBOR_CONFIG_DESCRIPTOR_REQUIRED :: u64 where "ARBOR_CONFIG_DESCRIPTOR_REQUIRED \<equiv> 1"
abbreviation ARBOR_CONFIG_DESCRIPTOR_HAS_DEFAULT :: u64 where "ARBOR_CONFIG_DESCRIPTOR_HAS_DEFAULT \<equiv> 2"
abbreviation ARBOR_CONFIG_DESCRIPTOR_ALLOW_EMPTY :: u64 where "ARBOR_CONFIG_DESCRIPTOR_ALLOW_EMPTY \<equiv> 4"
abbreviation ARBOR_CONFIG_DESCRIPTOR_KNOWN_FLAGS :: u64 where "ARBOR_CONFIG_DESCRIPTOR_KNOWN_FLAGS \<equiv> 7"

record arbor_config_enum_choice =
  choice_name :: arbor_span
  choice_value :: i64

record arbor_config_value =
  value_u64 :: u64
  value_i64 :: i64
  value_utf8 :: arbor_span
  value_enum :: i64
  value_kind :: arbor_config_kind
  value_bool :: bool
  value_reserved0 :: "u8 \<times> u8 \<times> u8"

record arbor_config_names =
  names_key :: arbor_span
  names_file :: arbor_span
  names_environment :: arbor_span
  names_command_line :: arbor_span

record arbor_config_descriptor =
  desc_names :: arbor_config_names
  desc_kind :: arbor_config_kind
  desc_reserved0 :: u32
  desc_flags :: u64
  desc_default_value :: arbor_config_value
  desc_u64_min :: u64
  desc_u64_max :: u64
  desc_i64_min :: i64
  desc_i64_max :: i64
  desc_utf8_max_length :: u64
  desc_enum_choices :: addr
  desc_enum_choice_count :: u64

record arbor_config_schema =
  schema_abi_version :: u32
  schema_struct_size :: u32
  schema_flags :: u64
  schema_descriptors :: addr
  schema_descriptor_count :: u64

record arbor_config_sources =
  file_document :: arbor_span
  environment_entries :: addr
  environment_count :: u64
  command_line_entries :: addr
  command_line_count :: u64

record arbor_config_requirements =
  req_descriptor_count :: u64
  req_descriptor_bytes :: u64
  req_value_bytes :: u64
  req_provenance_bytes :: u64
  req_scratch_bytes :: u64
  req_persistent_bytes :: u64
  req_result_bytes :: u64

record arbor_config_provenance =
  prov_source :: arbor_config_source
  prov_reserved0 :: u32
  prov_ordinal :: u64
  prov_byte_offset :: u64

record arbor_config_storage =
  storage_values :: addr
  value_capacity :: u64
  storage_provenance :: addr
  provenance_capacity :: u64
  storage_scratch :: arbor_span
  storage_persistent :: arbor_span

record arbor_config_result =
  result_values :: addr
  result_provenance :: addr
  result_persistent :: arbor_span
  result_value_count :: u64
  result_prepared_guard :: u64

text \<open>The sizes of the objects under the ABI the sources fix (64-bit, little-endian).\<close>

abbreviation SIZEOF_SPAN :: u64 where "SIZEOF_SPAN \<equiv> 16"
abbreviation SIZEOF_CHOICE :: u64 where "SIZEOF_CHOICE \<equiv> 24"
abbreviation SIZEOF_VALUE :: u64 where "SIZEOF_VALUE \<equiv> 48"
abbreviation SIZEOF_DESCRIPTOR :: u64 where "SIZEOF_DESCRIPTOR \<equiv> 184"
abbreviation SIZEOF_SCHEMA :: u64 where "SIZEOF_SCHEMA \<equiv> 32"
abbreviation SIZEOF_SOURCES :: u64 where "SIZEOF_SOURCES \<equiv> 48"
abbreviation SIZEOF_REQUIREMENTS :: u64 where "SIZEOF_REQUIREMENTS \<equiv> 56"
abbreviation SIZEOF_PROVENANCE :: u64 where "SIZEOF_PROVENANCE \<equiv> 24"
abbreviation SIZEOF_DIAGNOSTIC :: u64 where "SIZEOF_DIAGNOSTIC \<equiv> 32"
abbreviation SIZEOF_STORAGE :: u64 where "SIZEOF_STORAGE \<equiv> 64"
abbreviation SIZEOF_RESULT :: u64 where "SIZEOF_RESULT \<equiv> 48"

record config_heap =
  heap_bytes :: mem
  heap_span :: "addr \<Rightarrow> arbor_span"
  heap_choice :: "addr \<Rightarrow> arbor_config_enum_choice"
  heap_descriptor :: "addr \<Rightarrow> arbor_config_descriptor"
  heap_schema :: "addr \<Rightarrow> arbor_config_schema"
  heap_sources :: "addr \<Rightarrow> arbor_config_sources"
  heap_storage :: "addr \<Rightarrow> arbor_config_storage"
  heap_value :: "addr \<Rightarrow> arbor_config_value"
  heap_provenance :: "addr \<Rightarrow> arbor_config_provenance"
  heap_requirements :: "addr \<Rightarrow> arbor_config_requirements"
  heap_result :: "addr \<Rightarrow> arbor_config_result"
  heap_diagnostic :: "addr \<Rightarrow> arbor_config_diagnostic"

definition descriptor_at :: "config_heap \<Rightarrow> arbor_config_schema \<Rightarrow> nat \<Rightarrow> arbor_config_descriptor" where
  "descriptor_at h schema index = heap_descriptor h (schema_descriptors schema + of_nat index * SIZEOF_DESCRIPTOR)"

definition choice_at :: "config_heap \<Rightarrow> arbor_config_descriptor \<Rightarrow> nat \<Rightarrow> arbor_config_enum_choice" where
  "choice_at h descriptor index = heap_choice h (desc_enum_choices descriptor + of_nat index * SIZEOF_CHOICE)"

definition entry_at :: "config_heap \<Rightarrow> addr \<Rightarrow> nat \<Rightarrow> arbor_span" where
  "entry_at h entries index = heap_span h (entries + of_nat index * SIZEOF_SPAN)"

abbreviation text_of :: "config_heap \<Rightarrow> arbor_span \<Rightarrow> u8 list" where
  "text_of h s \<equiv> span_bytes (heap_bytes h) s"

section \<open>The code: names and values\<close>

datatype config_namespace =
    CONFIG_NAMESPACE_KEY
  | CONFIG_NAMESPACE_FILE
  | CONFIG_NAMESPACE_ENVIRONMENT
  | CONFIG_NAMESPACE_COMMAND_LINE

definition config_descriptor_name :: "arbor_config_descriptor \<Rightarrow> config_namespace \<Rightarrow> arbor_span" where
  "config_descriptor_name descriptor name_space =
     (case name_space of
        CONFIG_NAMESPACE_KEY \<Rightarrow> names_key (desc_names descriptor)
      | CONFIG_NAMESPACE_FILE \<Rightarrow> names_file (desc_names descriptor)
      | CONFIG_NAMESPACE_ENVIRONMENT \<Rightarrow> names_environment (desc_names descriptor)
      | CONFIG_NAMESPACE_COMMAND_LINE \<Rightarrow> names_command_line (desc_names descriptor))"

text \<open>The loop over the descriptors; \<open>None\<close> is the result \<open>CONFIG_NA\<close>.\<close>

definition config_find_descriptor ::
    "config_heap \<Rightarrow> arbor_config_schema \<Rightarrow> config_namespace \<Rightarrow> arbor_span \<Rightarrow> nat option" where
  "config_find_descriptor h schema name_space name =
     find (\<lambda>index. config_span_equal (heap_bytes h) (config_descriptor_name (descriptor_at h schema index) name_space) name)
       [0..<unat (schema_descriptor_count schema)]"

definition config_value_zero :: "arbor_config_value \<Rightarrow> bool" where
  "config_value_zero v \<longleftrightarrow>
     v = \<lparr>value_u64 = 0, value_i64 = 0, value_utf8 = \<lparr>span_data = 0, span_length = 0\<rparr>, value_enum = 0,
          value_kind = ARBOR_CONFIG_KIND_OUT_OF_ENUM 0, value_bool = False, value_reserved0 = (0, 0, 0)\<rparr>"

definition config_reserved_zero :: "u8 \<times> u8 \<times> u8 \<Rightarrow> bool" where
  "config_reserved_zero reserved \<longleftrightarrow> (case reserved of (a, b, c) \<Rightarrow> a = 0 \<and> b = 0 \<and> c = 0)"

definition config_value_canonical ::
    "config_heap \<Rightarrow> arbor_config_descriptor \<Rightarrow> arbor_config_value \<Rightarrow> bool \<Rightarrow>
     (arbor_config_diagnostic_code \<times> nat) + unit" where
  "config_value_canonical h descriptor v validate_utf8 =
     (if value_kind v \<noteq> desc_kind descriptor \<or> \<not> config_reserved_zero (value_reserved0 v)
      then Inl (ARBOR_CONFIG_DIAGNOSTIC_SCHEMA_DEFAULT, 0)
      else
        case desc_kind descriptor of
          ARBOR_CONFIG_KIND_BOOL \<Rightarrow>
            if value_u64 v \<noteq> 0 \<or> value_i64 v \<noteq> 0 \<or> \<not> config_span_inactive (value_utf8 v) \<or> value_enum v \<noteq> 0
            then Inl (ARBOR_CONFIG_DIAGNOSTIC_SCHEMA_DEFAULT, 0) else Inr ()
        | ARBOR_CONFIG_KIND_U64 \<Rightarrow>
            if value_i64 v \<noteq> 0 \<or> \<not> config_span_inactive (value_utf8 v) \<or> value_enum v \<noteq> 0 \<or> value_bool v
            then Inl (ARBOR_CONFIG_DIAGNOSTIC_SCHEMA_DEFAULT, 0)
            else if value_u64 v < desc_u64_min descriptor \<or> value_u64 v > desc_u64_max descriptor
            then Inl (ARBOR_CONFIG_DIAGNOSTIC_VALUE_BOUNDS, 0) else Inr ()
        | ARBOR_CONFIG_KIND_I64 \<Rightarrow>
            if value_u64 v \<noteq> 0 \<or> \<not> config_span_inactive (value_utf8 v) \<or> value_enum v \<noteq> 0 \<or> value_bool v
            then Inl (ARBOR_CONFIG_DIAGNOSTIC_SCHEMA_DEFAULT, 0)
            else if sint (value_i64 v) < sint (desc_i64_min descriptor) \<or> sint (value_i64 v) > sint (desc_i64_max descriptor)
            then Inl (ARBOR_CONFIG_DIAGNOSTIC_VALUE_BOUNDS, 0) else Inr ()
        | ARBOR_CONFIG_KIND_UTF8 \<Rightarrow>
            if value_u64 v \<noteq> 0 \<or> value_i64 v \<noteq> 0 \<or> value_enum v \<noteq> 0 \<or> value_bool v
            then Inl (ARBOR_CONFIG_DIAGNOSTIC_SCHEMA_DEFAULT, 0)
            else if span_length (value_utf8 v) = 0 \<and> desc_flags descriptor AND ARBOR_CONFIG_DESCRIPTOR_ALLOW_EMPTY = 0
            then Inl (ARBOR_CONFIG_DIAGNOSTIC_VALUE_EMPTY, 0)
            else if span_length (value_utf8 v) > desc_utf8_max_length descriptor
            then Inl (ARBOR_CONFIG_DIAGNOSTIC_VALUE_LENGTH, 0)
            else if validate_utf8 then
              (case config_utf8_valid (heap_bytes h) (value_utf8 v) of
                 Inl bad_offset \<Rightarrow> Inl (ARBOR_CONFIG_DIAGNOSTIC_VALUE_UTF8, bad_offset)
               | Inr _ \<Rightarrow> Inr ())
            else Inr ()
        | ARBOR_CONFIG_KIND_ENUM \<Rightarrow>
            if value_u64 v \<noteq> 0 \<or> value_i64 v \<noteq> 0 \<or> \<not> config_span_inactive (value_utf8 v) \<or> value_bool v
            then Inl (ARBOR_CONFIG_DIAGNOSTIC_SCHEMA_DEFAULT, 0)
            else if \<exists>index \<in> set [0..<unat (desc_enum_choice_count descriptor)].
                      choice_value (choice_at h descriptor index) = value_enum v
            then Inr ()
            else Inl (ARBOR_CONFIG_DIAGNOSTIC_VALUE_ENUM, 0)
        | ARBOR_CONFIG_KIND_OUT_OF_ENUM _ \<Rightarrow> Inl (ARBOR_CONFIG_DIAGNOSTIC_SCHEMA_DEFAULT, 0))"

section \<open>The code: schemas\<close>

definition descriptor_requirement :: "arbor_config_descriptor \<Rightarrow> u64" where
  "descriptor_requirement descriptor =
     desc_flags descriptor AND (ARBOR_CONFIG_DESCRIPTOR_REQUIRED OR ARBOR_CONFIG_DESCRIPTOR_HAS_DEFAULT)"

definition descriptor_flags_bad :: "arbor_config_descriptor \<Rightarrow> bool" where
  "descriptor_flags_bad descriptor \<longleftrightarrow>
     desc_flags descriptor AND NOT ARBOR_CONFIG_DESCRIPTOR_KNOWN_FLAGS \<noteq> 0 \<or>
     (descriptor_requirement descriptor \<noteq> ARBOR_CONFIG_DESCRIPTOR_REQUIRED \<and>
      descriptor_requirement descriptor \<noteq> ARBOR_CONFIG_DESCRIPTOR_HAS_DEFAULT) \<or>
     (desc_flags descriptor AND ARBOR_CONFIG_DESCRIPTOR_ALLOW_EMPTY \<noteq> 0 \<and> desc_kind descriptor \<noteq> ARBOR_CONFIG_KIND_UTF8)"

definition kind_known :: "arbor_config_kind \<Rightarrow> bool" where
  "kind_known kind = (case kind of ARBOR_CONFIG_KIND_OUT_OF_ENUM _ \<Rightarrow> False | _ \<Rightarrow> True)"

definition config_namespaces :: "config_namespace list" where
  "config_namespaces =
     [CONFIG_NAMESPACE_KEY, CONFIG_NAMESPACE_FILE, CONFIG_NAMESPACE_ENVIRONMENT, CONFIG_NAMESPACE_COMMAND_LINE]"

text \<open>A loop that stops at the first failure.\<close>

fun for_each :: "('b \<Rightarrow> 'e + unit) \<Rightarrow> 'b list \<Rightarrow> 'e + unit" where
  "for_each step [] = Inr ()"
| "for_each step (x # xs) = (case step x of Inl failure \<Rightarrow> Inl failure | Inr _ \<Rightarrow> for_each step xs)"

definition validate_name ::
    "config_heap \<Rightarrow> arbor_config_schema \<Rightarrow> nat \<Rightarrow> config_namespace \<Rightarrow> config_failure + unit" where
  "validate_name h schema index name_space =
     (let name = config_descriptor_name (descriptor_at h schema index) name_space
      in case config_name_valid (heap_bytes h) name (name_space = CONFIG_NAMESPACE_ENVIRONMENT) False of
           Inl bad_offset \<Rightarrow>
             config_fail ARBOR_CONFIG_DIAGNOSTIC_SCHEMA_NAME ARBOR_CONFIG_SOURCE_NONE CONFIG_NA (of_nat bad_offset)
               (of_nat index) config_invalid
         | Inr _ \<Rightarrow>
             if \<exists>earlier \<in> set [0..<index].
                  config_span_equal (heap_bytes h) name (config_descriptor_name (descriptor_at h schema earlier) name_space)
             then config_fail ARBOR_CONFIG_DIAGNOSTIC_SCHEMA_NAME_DUPLICATE ARBOR_CONFIG_SOURCE_NONE CONFIG_NA 0
                    (of_nat index) config_invalid
             else Inr ())"

definition validate_choice ::
    "config_heap \<Rightarrow> nat \<Rightarrow> arbor_config_descriptor \<Rightarrow> nat \<Rightarrow> config_failure + unit" where
  "validate_choice h index descriptor choice =
     (case config_name_valid (heap_bytes h) (choice_name (choice_at h descriptor choice)) False True of
        Inl bad_offset \<Rightarrow>
          config_fail ARBOR_CONFIG_DIAGNOSTIC_SCHEMA_NAME ARBOR_CONFIG_SOURCE_NONE CONFIG_NA (of_nat bad_offset)
            (of_nat index) config_invalid
      | Inr _ \<Rightarrow>
          if \<exists>earlier \<in> set [0..<choice].
               config_span_equal (heap_bytes h) (choice_name (choice_at h descriptor choice))
                 (choice_name (choice_at h descriptor earlier)) \<or>
               choice_value (choice_at h descriptor choice) = choice_value (choice_at h descriptor earlier)
          then config_fail ARBOR_CONFIG_DIAGNOSTIC_SCHEMA_DESCRIPTOR ARBOR_CONFIG_SOURCE_NONE CONFIG_NA CONFIG_NA
                 (of_nat index) config_invalid
          else Inr ())"

text \<open>The switch on the kind: \<open>Inr\<close> is the flag \<open>constraints_valid\<close>.\<close>

definition validate_constraints ::
    "config_heap \<Rightarrow> nat \<Rightarrow> arbor_config_descriptor \<Rightarrow> config_failure + bool" where
  "validate_constraints h index descriptor =
     (let no_u64 = (desc_u64_min descriptor = 0 \<and> desc_u64_max descriptor = 0);
          no_i64 = (desc_i64_min descriptor = 0 \<and> desc_i64_max descriptor = 0);
          no_utf8 = (desc_utf8_max_length descriptor = 0);
          no_enum = (desc_enum_choices descriptor = 0 \<and> desc_enum_choice_count descriptor = 0)
      in case desc_kind descriptor of
           ARBOR_CONFIG_KIND_BOOL \<Rightarrow> Inr (no_u64 \<and> no_i64 \<and> no_utf8 \<and> no_enum)
         | ARBOR_CONFIG_KIND_U64 \<Rightarrow>
             Inr (desc_u64_min descriptor \<le> desc_u64_max descriptor \<and> no_i64 \<and> no_utf8 \<and> no_enum)
         | ARBOR_CONFIG_KIND_I64 \<Rightarrow>
             Inr (no_u64 \<and> sint (desc_i64_min descriptor) \<le> sint (desc_i64_max descriptor) \<and> no_utf8 \<and> no_enum)
         | ARBOR_CONFIG_KIND_UTF8 \<Rightarrow> Inr (no_u64 \<and> no_i64 \<and> no_enum)
         | ARBOR_CONFIG_KIND_ENUM \<Rightarrow>
             if no_u64 \<and> no_i64 \<and> no_utf8 \<and> desc_enum_choice_count descriptor \<noteq> 0 \<and>
                config_array_range (desc_enum_choices descriptor) (desc_enum_choice_count descriptor) SIZEOF_CHOICE \<noteq> None
             then (case for_each (validate_choice h index descriptor) [0..<unat (desc_enum_choice_count descriptor)] of
                     Inl failure \<Rightarrow> Inl failure
                   | Inr _ \<Rightarrow> Inr True)
             else Inr False
         | ARBOR_CONFIG_KIND_OUT_OF_ENUM _ \<Rightarrow> Inr False)"

definition validate_default ::
    "config_heap \<Rightarrow> nat \<Rightarrow> arbor_config_descriptor \<Rightarrow> config_failure + unit" where
  "validate_default h index descriptor =
     (if descriptor_requirement descriptor = ARBOR_CONFIG_DESCRIPTOR_REQUIRED then
        (if \<not> config_value_zero (desc_default_value descriptor)
         then config_fail ARBOR_CONFIG_DIAGNOSTIC_SCHEMA_DEFAULT ARBOR_CONFIG_SOURCE_DEFAULT (of_nat index) 0
                (of_nat index) config_invalid
         else Inr ())
      else
        case config_value_canonical h descriptor (desc_default_value descriptor) True of
          Inl (_, bad_offset) \<Rightarrow>
            config_fail ARBOR_CONFIG_DIAGNOSTIC_SCHEMA_DEFAULT ARBOR_CONFIG_SOURCE_DEFAULT (of_nat index)
              (of_nat bad_offset) (of_nat index) config_invalid
        | Inr _ \<Rightarrow> Inr ())"

definition validate_descriptor :: "config_heap \<Rightarrow> arbor_config_schema \<Rightarrow> nat \<Rightarrow> config_failure + unit" where
  "validate_descriptor h schema index =
     (let descriptor = descriptor_at h schema index
      in if descriptor_flags_bad descriptor then
           config_fail ARBOR_CONFIG_DIAGNOSTIC_SCHEMA_FLAGS ARBOR_CONFIG_SOURCE_NONE CONFIG_NA 72 (of_nat index) config_invalid
         else if desc_reserved0 descriptor \<noteq> 0 \<or> \<not> kind_known (desc_kind descriptor) then
           config_fail ARBOR_CONFIG_DIAGNOSTIC_SCHEMA_DESCRIPTOR ARBOR_CONFIG_SOURCE_NONE CONFIG_NA CONFIG_NA
             (of_nat index) config_invalid
         else
           case for_each (validate_name h schema index) config_namespaces of
             Inl failure \<Rightarrow> Inl failure
           | Inr _ \<Rightarrow>
               (case validate_constraints h index descriptor of
                  Inl failure \<Rightarrow> Inl failure
                | Inr False \<Rightarrow>
                    config_fail ARBOR_CONFIG_DIAGNOSTIC_SCHEMA_DESCRIPTOR ARBOR_CONFIG_SOURCE_NONE CONFIG_NA CONFIG_NA
                      (of_nat index) config_invalid
                | Inr True \<Rightarrow> validate_default h index descriptor))"

definition config_validate_schema :: "config_heap \<Rightarrow> addr \<Rightarrow> config_failure + unit" where
  "config_validate_schema h schema =
     (if config_range_make schema SIZEOF_SCHEMA = None then
        config_fail ARBOR_CONFIG_DIAGNOSTIC_SCHEMA_ABI ARBOR_CONFIG_SOURCE_NONE CONFIG_NA 0 CONFIG_NA config_invalid
      else
        let s = heap_schema h schema
        in if schema_abi_version s \<noteq> ARBOR_CONFIG_ABI_VERSION \<or> schema_struct_size s \<noteq> ucast SIZEOF_SCHEMA then
             config_fail ARBOR_CONFIG_DIAGNOSTIC_SCHEMA_ABI ARBOR_CONFIG_SOURCE_NONE CONFIG_NA 0 CONFIG_NA config_invalid
           else if schema_flags s \<noteq> ARBOR_CONFIG_SCHEMA_KNOWN_FLAGS then
             config_fail ARBOR_CONFIG_DIAGNOSTIC_SCHEMA_FLAGS ARBOR_CONFIG_SOURCE_NONE CONFIG_NA 8 CONFIG_NA config_invalid
           else if config_array_range (schema_descriptors s) (schema_descriptor_count s) SIZEOF_DESCRIPTOR = None then
             config_fail ARBOR_CONFIG_DIAGNOSTIC_OVERFLOW ARBOR_CONFIG_SOURCE_NONE CONFIG_NA CONFIG_NA CONFIG_NA
               config_overflow
           else for_each (validate_descriptor h s) [0..<unat (schema_descriptor_count s)])"

end
