(* ===== verification/Config_Sources.thy ===== *)
theory Config_Sources
  imports Config_Schema
begin

text \<open>
  The source half of \<open>src/c/config.c\<close>: the records of a file and of the argument vectors, the values they
  assign, their validation, and the resolution of a descriptor. An offset or ordinal is a number; a loop that the code
  leaves only by \<open>return\<close> or by its guard is a partial function into \<open>option\<close>, where \<open>None\<close> is a loop that does not end.
\<close>

section \<open>The code: values from text\<close>

record config_record =
  rec_name :: arbor_span
  rec_value :: arbor_span
  rec_ordinal :: nat
  rec_name_offset :: nat
  rec_value_offset :: nat

record config_resolution =
  res_value :: arbor_config_value
  res_provenance :: arbor_config_provenance
  res_utf8_source :: addr
  res_utf8_length :: u64
  res_present :: bool

definition zero_span :: arbor_span where
  "zero_span = \<lparr>span_data = 0, span_length = 0\<rparr>"

definition kind_value :: "arbor_config_kind \<Rightarrow> arbor_config_value" where
  "kind_value kind =
     \<lparr>value_u64 = 0, value_i64 = 0, value_utf8 = zero_span, value_enum = 0, value_kind = kind, value_bool = False,
      value_reserved0 = (0, 0, 0)\<rparr>"

definition config_resolution_zero :: config_resolution where
  "config_resolution_zero =
     \<lparr>res_value = kind_value (ARBOR_CONFIG_KIND_OUT_OF_ENUM 0),
      res_provenance = \<lparr>prov_source = ARBOR_CONFIG_SOURCE_NONE, prov_reserved0 = 0, prov_ordinal = 0, prov_byte_offset = 0\<rparr>,
      res_utf8_source = 0, res_utf8_length = 0, res_present = False\<rparr>"

definition parse_bool :: "config_heap \<Rightarrow> arbor_span \<Rightarrow> bool option" where
  "parse_bool h text =
     (if config_span_literal (heap_bytes h) text ''true'' then Some True
      else if \<not> config_span_literal (heap_bytes h) text ''false'' then None else Some False)"

text \<open>A numeral: \<open>Inl\<close> is the diagnostic, the offset in the text and the status.\<close>

definition parse_u64 ::
    "arbor_config_descriptor \<Rightarrow> u8 list \<Rightarrow> (arbor_config_diagnostic_code \<times> nat \<times> arbor_status) + u64" where
  "parse_u64 descriptor bytes =
     (if bytes = [] then Inl (ARBOR_CONFIG_DIAGNOSTIC_VALUE_U64, 0, config_invalid)
      else
        case numeral_loop UINTPTR_MAX bytes 0 0 of
          Inl (index, False) \<Rightarrow> Inl (ARBOR_CONFIG_DIAGNOSTIC_VALUE_U64, index, config_invalid)
        | Inl (index, True) \<Rightarrow> Inl (ARBOR_CONFIG_DIAGNOSTIC_VALUE_U64, index, config_overflow)
        | Inr number \<Rightarrow>
            if number < desc_u64_min descriptor \<or> number > desc_u64_max descriptor
            then Inl (ARBOR_CONFIG_DIAGNOSTIC_VALUE_BOUNDS, 0, config_invalid)
            else Inr number)"

definition parse_i64 ::
    "arbor_config_descriptor \<Rightarrow> u8 list \<Rightarrow> (arbor_config_diagnostic_code \<times> nat \<times> arbor_status) + i64" where
  "parse_i64 descriptor bytes =
     (if bytes = [] then Inl (ARBOR_CONFIG_DIAGNOSTIC_VALUE_I64, 0, config_invalid)
      else
        let negative = (hd bytes = ascii CHR ''-'');
            index = (if negative then 1 else 0)
        in if index = length bytes then Inl (ARBOR_CONFIG_DIAGNOSTIC_VALUE_I64, index, config_invalid)
           else
             case numeral_loop (if negative then 9223372036854775808 else 9223372036854775807) (drop index bytes) index 0 of
               Inl (bad, False) \<Rightarrow> Inl (ARBOR_CONFIG_DIAGNOSTIC_VALUE_I64, bad, config_invalid)
             | Inl (bad, True) \<Rightarrow> Inl (ARBOR_CONFIG_DIAGNOSTIC_VALUE_I64, bad, config_overflow)
             | Inr magnitude \<Rightarrow>
                 let number = (if negative \<and> magnitude = 9223372036854775808 then word_of_int INT64_MIN
                               else if negative then word_of_int (- sint magnitude) else magnitude)
                 in if sint number < sint (desc_i64_min descriptor) \<or> sint number > sint (desc_i64_max descriptor)
                    then Inl (ARBOR_CONFIG_DIAGNOSTIC_VALUE_BOUNDS, 0, config_invalid)
                    else Inr number)"

definition parse_utf8 ::
    "config_heap \<Rightarrow> arbor_config_descriptor \<Rightarrow> arbor_span \<Rightarrow> (arbor_config_diagnostic_code \<times> nat) + unit" where
  "parse_utf8 h descriptor text =
     (if span_length text = 0 \<and> desc_flags descriptor AND ARBOR_CONFIG_DESCRIPTOR_ALLOW_EMPTY = 0
      then Inl (ARBOR_CONFIG_DIAGNOSTIC_VALUE_EMPTY, 0)
      else if span_length text > desc_utf8_max_length descriptor then Inl (ARBOR_CONFIG_DIAGNOSTIC_VALUE_LENGTH, 0)
      else
        case config_utf8_valid (heap_bytes h) text of
          Inl bad_offset \<Rightarrow> Inl (ARBOR_CONFIG_DIAGNOSTIC_VALUE_UTF8, bad_offset)
        | Inr _ \<Rightarrow> Inr ())"

definition parse_enum :: "config_heap \<Rightarrow> arbor_config_descriptor \<Rightarrow> arbor_span \<Rightarrow> i64 option" where
  "parse_enum h descriptor text =
     map_option (\<lambda>index. choice_value (choice_at h descriptor index))
       (find (\<lambda>index. config_span_equal (heap_bytes h) text (choice_name (choice_at h descriptor index)))
          [0..<unat (desc_enum_choice_count descriptor)])"

definition config_parse_text_value ::
    "config_heap \<Rightarrow> arbor_config_descriptor \<Rightarrow> arbor_span \<Rightarrow> arbor_config_source \<Rightarrow> nat \<Rightarrow> nat \<Rightarrow> nat \<Rightarrow>
     config_failure + config_resolution" where
  "config_parse_text_value h descriptor text source ordinal value_offset key_index =
     (let failed = (\<lambda>code offset status.
            config_fail code source (of_nat ordinal) (of_nat (value_offset + offset)) (of_nat key_index) status);
          value = kind_value (desc_kind descriptor);
          utf8 = (desc_kind descriptor = ARBOR_CONFIG_KIND_UTF8);
          resolved = (\<lambda>v.
            Inr \<lparr>res_value = v,
                 res_provenance = \<lparr>prov_source = source, prov_reserved0 = 0, prov_ordinal = of_nat ordinal,
                                   prov_byte_offset = of_nat value_offset\<rparr>,
                 res_utf8_source = (if utf8 then span_data text else 0),
                 res_utf8_length = (if utf8 then span_length text else 0), res_present = True\<rparr>)
      in case desc_kind descriptor of
           ARBOR_CONFIG_KIND_BOOL \<Rightarrow>
             (case parse_bool h text of
                None \<Rightarrow> failed ARBOR_CONFIG_DIAGNOSTIC_VALUE_BOOL 0 config_invalid
              | Some b \<Rightarrow> resolved (value\<lparr>value_bool := b\<rparr>))
         | ARBOR_CONFIG_KIND_U64 \<Rightarrow>
             (case parse_u64 descriptor (text_of h text) of
                Inl (code, offset, status) \<Rightarrow> failed code offset status
              | Inr number \<Rightarrow> resolved (value\<lparr>value_u64 := number\<rparr>))
         | ARBOR_CONFIG_KIND_I64 \<Rightarrow>
             (case parse_i64 descriptor (text_of h text) of
                Inl (code, offset, status) \<Rightarrow> failed code offset status
              | Inr number \<Rightarrow> resolved (value\<lparr>value_i64 := number\<rparr>))
         | ARBOR_CONFIG_KIND_UTF8 \<Rightarrow>
             (case parse_utf8 h descriptor text of
                Inl (code, offset) \<Rightarrow> failed code offset config_invalid
              | Inr _ \<Rightarrow> resolved (value\<lparr>value_utf8 := text\<rparr>))
         | ARBOR_CONFIG_KIND_ENUM \<Rightarrow>
             (case parse_enum h descriptor text of
                None \<Rightarrow> failed ARBOR_CONFIG_DIAGNOSTIC_VALUE_ENUM 0 config_invalid
              | Some number \<Rightarrow> resolved (value\<lparr>value_enum := number\<rparr>))
         | ARBOR_CONFIG_KIND_OUT_OF_ENUM _ \<Rightarrow> resolved value)"

section \<open>The code: records\<close>

abbreviation LF :: u8 where "LF \<equiv> 10"
abbreviation CR :: u8 where "CR \<equiv> 13"
abbreviation equals_sign :: u8 where "equals_sign \<equiv> 61"
abbreviation hash_sign :: u8 where "hash_sign \<equiv> 35"
abbreviation minus_sign :: u8 where "minus_sign \<equiv> 45"

text \<open>The bytes from the cursor to the end of the line; \<open>Inl\<close> is the offset of a NUL byte.\<close>

fun line_end_loop :: "u8 list \<Rightarrow> nat \<Rightarrow> nat + nat" where
  "line_end_loop [] end_at = Inr end_at"
| "line_end_loop (byte # rest) end_at =
     (if byte = LF \<or> byte = CR then Inr end_at
      else if byte = 0 then Inl end_at
      else line_end_loop rest (end_at + 1))"

text \<open>\<open>Inr None\<close> is a record that is not available; otherwise the next cursor, the next ordinal and the record.\<close>

definition config_file_record_next ::
    "mem \<Rightarrow> arbor_span \<Rightarrow> nat \<Rightarrow> nat \<Rightarrow> config_failure + (nat \<times> nat \<times> config_record) option" where
  "config_file_record_next m document cursor ordinal =
     (let bytes = span_bytes m document
      in if cursor \<ge> length bytes then Inr None
         else
           case line_end_loop (drop cursor bytes) cursor of
             Inl end_at \<Rightarrow>
               config_fail ARBOR_CONFIG_DIAGNOSTIC_SOURCE_NUL ARBOR_CONFIG_SOURCE_FILE (of_nat ordinal) (of_nat end_at)
                 CONFIG_NA config_invalid
           | Inr end_at \<Rightarrow>
               let line = \<lparr>span_data = span_data document + of_nat cursor, span_length = of_nat (end_at - cursor)\<rparr>;
                   found = (\<lambda>next_cursor. Inr (Some (next_cursor, ordinal + 1,
                     \<lparr>rec_name = line, rec_value = zero_span, rec_ordinal = ordinal, rec_name_offset = cursor,
                      rec_value_offset = cursor\<rparr>)))
               in if end_at < length bytes then
                    (if bytes ! end_at = CR then
                       (if end_at + 1 \<ge> length bytes \<or> bytes ! (end_at + 1) \<noteq> LF
                        then config_fail ARBOR_CONFIG_DIAGNOSTIC_SOURCE_SYNTAX ARBOR_CONFIG_SOURCE_FILE (of_nat ordinal)
                               (of_nat end_at) CONFIG_NA config_invalid
                        else found (end_at + 2))
                     else found (end_at + 1))
                  else found end_at)"

text \<open>\<open>Inr None\<close> is the flag \<open>assignment\<close> false; otherwise the record with its name and value set.\<close>

definition config_assignment_from_file :: "mem \<Rightarrow> config_record \<Rightarrow> config_failure + config_record option" where
  "config_assignment_from_file m rec =
     (let line = rec_name rec; bytes = span_bytes m line
      in if span_length line = 0 \<or> hd bytes = hash_sign then Inr None
         else
           let equals = length (takeWhile (\<lambda>b. b \<noteq> equals_sign) bytes)
           in if equals = 0 \<or> equals = length bytes then
                config_fail ARBOR_CONFIG_DIAGNOSTIC_SOURCE_SYNTAX ARBOR_CONFIG_SOURCE_FILE (of_nat (rec_ordinal rec))
                  (of_nat (rec_name_offset rec)) CONFIG_NA config_invalid
              else
                Inr (Some (rec
                  \<lparr>rec_name := \<lparr>span_data = span_data line, span_length = of_nat equals\<rparr>,
                   rec_value := \<lparr>span_data = span_data line + of_nat equals + 1,
                                 span_length = span_length line - of_nat equals - 1\<rparr>,
                   rec_value_offset := rec_name_offset rec + equals + 1\<rparr>)))"

fun vector_byte_loop :: "u8 list \<Rightarrow> nat \<Rightarrow> nat + unit" where
  "vector_byte_loop [] index = Inr ()"
| "vector_byte_loop (byte # rest) index =
     (if byte = 0 \<or> byte = CR \<or> byte = LF then Inl index else vector_byte_loop rest (index + 1))"

definition vector_name_start :: "arbor_config_source \<Rightarrow> nat" where
  "vector_name_start source = (if source = ARBOR_CONFIG_SOURCE_COMMAND_LINE then 2 else 0)"

definition config_vector_record ::
    "mem \<Rightarrow> arbor_span \<Rightarrow> nat \<Rightarrow> arbor_config_source \<Rightarrow> config_failure + config_record" where
  "config_vector_record m entry ordinal source =
     (if config_range_make (span_data entry) (span_length entry) = None then
        config_fail ARBOR_CONFIG_DIAGNOSTIC_OVERFLOW source (of_nat ordinal) CONFIG_NA CONFIG_NA config_overflow
      else
        let bytes = span_bytes m entry; name_start = vector_name_start source
        in case vector_byte_loop bytes 0 of
             Inl index \<Rightarrow>
               config_fail ARBOR_CONFIG_DIAGNOSTIC_SOURCE_NUL source (of_nat ordinal) (of_nat index) CONFIG_NA config_invalid
           | Inr _ \<Rightarrow>
               if (source = ARBOR_CONFIG_SOURCE_COMMAND_LINE \<and>
                   (length bytes < 3 \<or> bytes ! 0 \<noteq> minus_sign \<or> bytes ! 1 \<noteq> minus_sign)) \<or> bytes = [] then
                 config_fail ARBOR_CONFIG_DIAGNOSTIC_SOURCE_SYNTAX source (of_nat ordinal) 0 CONFIG_NA config_invalid
               else
                 let equals = name_start + length (takeWhile (\<lambda>b. b \<noteq> equals_sign) (drop name_start bytes))
                 in if equals = name_start \<or> equals = length bytes then
                      config_fail ARBOR_CONFIG_DIAGNOSTIC_SOURCE_SYNTAX source (of_nat ordinal) (of_nat name_start) CONFIG_NA
                        config_invalid
                    else
                      Inr \<lparr>rec_name = \<lparr>span_data = span_data entry + of_nat name_start,
                                       span_length = of_nat (equals - name_start)\<rparr>,
                           rec_value = \<lparr>span_data = span_data entry + of_nat equals + 1,
                                        span_length = span_length entry - of_nat equals - 1\<rparr>,
                           rec_ordinal = ordinal, rec_name_offset = name_start, rec_value_offset = equals + 1\<rparr>)"

section \<open>The code: validation\<close>

text \<open>The loop of \<open>config_file_seen_before\<close>.\<close>

partial_function (option) seen_before_loop ::
    "config_heap \<Rightarrow> arbor_config_schema \<Rightarrow> arbor_span \<Rightarrow> nat \<Rightarrow> nat \<Rightarrow> nat \<Rightarrow> bool option" where
  "seen_before_loop h schema document stop_offset key_index cursor =
     (if \<not> cursor < stop_offset then Some False
      else
        let bytes = text_of h document;
            end_at = cursor + length (takeWhile (\<lambda>b. b \<noteq> LF \<and> b \<noteq> CR) (drop cursor bytes));
            next_cursor = (if end_at < length bytes then end_at + (if bytes ! end_at = CR then 2 else 1) else end_at)
        in if end_at = cursor \<or> bytes ! cursor = hash_sign
           then seen_before_loop h schema document stop_offset key_index next_cursor
           else
             let equals = cursor + length (takeWhile (\<lambda>b. b \<noteq> equals_sign) (take (end_at - cursor) (drop cursor bytes)))
             in if equals > cursor \<and> equals < end_at \<and>
                  config_find_descriptor h schema CONFIG_NAMESPACE_FILE
                    \<lparr>span_data = span_data document + of_nat cursor, span_length = of_nat (equals - cursor)\<rparr> =
                  Some key_index
                then Some True
                else seen_before_loop h schema document stop_offset key_index next_cursor)"

definition config_file_seen_before ::
    "config_heap \<Rightarrow> arbor_config_schema \<Rightarrow> arbor_span \<Rightarrow> nat \<Rightarrow> nat \<Rightarrow> bool option" where
  "config_file_seen_before h schema document stop_offset key_index =
     seen_before_loop h schema document stop_offset key_index 0"

definition vector_namespace :: "arbor_config_source \<Rightarrow> config_namespace" where
  "vector_namespace source =
     (if source = ARBOR_CONFIG_SOURCE_ENVIRONMENT then CONFIG_NAMESPACE_ENVIRONMENT else CONFIG_NAMESPACE_COMMAND_LINE)"

definition config_vector_seen_before ::
    "config_heap \<Rightarrow> arbor_config_schema \<Rightarrow> addr \<Rightarrow> nat \<Rightarrow> arbor_config_source \<Rightarrow> nat \<Rightarrow> bool" where
  "config_vector_seen_before h schema entries stop source key_index \<longleftrightarrow>
     (\<exists>index \<in> set [0..<stop].
        let entry = entry_at h entries index;
            start = vector_name_start source;
            equals = start + length (takeWhile (\<lambda>b. b \<noteq> equals_sign) (drop start (text_of h entry)))
        in config_find_descriptor h schema (vector_namespace source)
             \<lparr>span_data = span_data entry + of_nat start, span_length = of_nat (equals - start)\<rparr> = Some key_index)"

text \<open>One turn of the loop of \<open>config_validate_file\<close>: \<open>Inl\<close> is its result, \<open>Inr\<close> the next cursor and ordinal.\<close>

definition validate_file_turn ::
    "config_heap \<Rightarrow> arbor_config_schema \<Rightarrow> arbor_span \<Rightarrow> nat \<Rightarrow> nat \<Rightarrow> ((config_failure + unit) + nat \<times> nat) option" where
  "validate_file_turn h schema document cursor ordinal =
     (case config_file_record_next (heap_bytes h) document cursor ordinal of
        Inl failure \<Rightarrow> Some (Inl (Inl failure))
      | Inr None \<Rightarrow> Some (Inl (Inr ()))
      | Inr (Some (next_cursor, next_ordinal, line)) \<Rightarrow>
          (case config_assignment_from_file (heap_bytes h) line of
             Inl failure \<Rightarrow> Some (Inl (Inl failure))
           | Inr None \<Rightarrow> Some (Inr (next_cursor, next_ordinal))
           | Inr (Some rec) \<Rightarrow>
               (case config_find_descriptor h schema CONFIG_NAMESPACE_FILE (rec_name rec) of
                  None \<Rightarrow>
                    Some (Inl (config_fail ARBOR_CONFIG_DIAGNOSTIC_UNKNOWN_KEY ARBOR_CONFIG_SOURCE_FILE
                      (of_nat (rec_ordinal rec)) (of_nat (rec_name_offset rec)) CONFIG_NA config_not_found))
                | Some key_index \<Rightarrow>
                    (case config_file_seen_before h schema document (rec_name_offset rec) key_index of
                       None \<Rightarrow> None
                     | Some seen \<Rightarrow>
                         if seen then
                           Some (Inl (config_fail ARBOR_CONFIG_DIAGNOSTIC_DUPLICATE_KEY ARBOR_CONFIG_SOURCE_FILE
                             (of_nat (rec_ordinal rec)) (of_nat (rec_name_offset rec)) (of_nat key_index) config_invalid))
                         else
                           (case config_parse_text_value h (descriptor_at h schema key_index) (rec_value rec)
                                   ARBOR_CONFIG_SOURCE_FILE (rec_ordinal rec) (rec_value_offset rec) key_index of
                              Inl failure \<Rightarrow> Some (Inl (Inl failure))
                            | Inr _ \<Rightarrow> Some (Inr (next_cursor, next_ordinal)))))))"

partial_function (option) validate_file_loop ::
    "config_heap \<Rightarrow> arbor_config_schema \<Rightarrow> arbor_span \<Rightarrow> nat \<Rightarrow> nat \<Rightarrow> (config_failure + unit) option" where
  "validate_file_loop h schema document cursor ordinal =
     Option.bind (validate_file_turn h schema document cursor ordinal)
       (\<lambda>turn. case turn of
          Inl returned \<Rightarrow> Some returned
        | Inr after \<Rightarrow> validate_file_loop h schema document (fst after) (snd after))"

definition config_validate_file ::
    "config_heap \<Rightarrow> arbor_config_schema \<Rightarrow> arbor_span \<Rightarrow> (config_failure + unit) option" where
  "config_validate_file h schema document =
     (if config_range_make (span_data document) (span_length document) = None then
        Some (config_fail ARBOR_CONFIG_DIAGNOSTIC_OVERFLOW ARBOR_CONFIG_SOURCE_FILE CONFIG_NA CONFIG_NA CONFIG_NA
          config_overflow)
      else validate_file_loop h schema document 0 0)"

definition validate_vector_entry ::
    "config_heap \<Rightarrow> arbor_config_schema \<Rightarrow> addr \<Rightarrow> arbor_config_source \<Rightarrow> nat \<Rightarrow> config_failure + unit" where
  "validate_vector_entry h schema entries source ordinal =
     (case config_vector_record (heap_bytes h) (entry_at h entries ordinal) ordinal source of
        Inl failure \<Rightarrow> Inl failure
      | Inr rec \<Rightarrow>
          (case config_find_descriptor h schema (vector_namespace source) (rec_name rec) of
             None \<Rightarrow>
               config_fail ARBOR_CONFIG_DIAGNOSTIC_UNKNOWN_KEY source (of_nat ordinal) (of_nat (rec_name_offset rec))
                 CONFIG_NA config_not_found
           | Some key_index \<Rightarrow>
               if config_vector_seen_before h schema entries ordinal source key_index then
                 config_fail ARBOR_CONFIG_DIAGNOSTIC_DUPLICATE_KEY source (of_nat ordinal) (of_nat (rec_name_offset rec))
                   (of_nat key_index) config_invalid
               else
                 case config_parse_text_value h (descriptor_at h schema key_index) (rec_value rec) source ordinal
                        (rec_value_offset rec) key_index of
                   Inl failure \<Rightarrow> Inl failure
                 | Inr _ \<Rightarrow> Inr ()))"

definition config_validate_vector ::
    "config_heap \<Rightarrow> arbor_config_schema \<Rightarrow> addr \<Rightarrow> u64 \<Rightarrow> arbor_config_source \<Rightarrow> config_failure + unit" where
  "config_validate_vector h schema entries count source =
     (if config_array_range entries count SIZEOF_SPAN = None then
        config_fail ARBOR_CONFIG_DIAGNOSTIC_OVERFLOW source CONFIG_NA CONFIG_NA CONFIG_NA config_overflow
      else for_each (validate_vector_entry h schema entries source) [0..<unat count])"

definition config_validate_sources ::
    "config_heap \<Rightarrow> arbor_config_schema \<Rightarrow> addr \<Rightarrow> (config_failure + unit) option" where
  "config_validate_sources h schema sources =
     (if config_range_make sources SIZEOF_SOURCES = None then
        Some (config_fail ARBOR_CONFIG_DIAGNOSTIC_SOURCE_SYNTAX ARBOR_CONFIG_SOURCE_NONE CONFIG_NA CONFIG_NA CONFIG_NA
          config_invalid)
      else
        let s = heap_sources h sources
        in case config_validate_file h schema (file_document s) of
             None \<Rightarrow> None
           | Some (Inl failure) \<Rightarrow> Some (Inl failure)
           | Some (Inr _) \<Rightarrow>
               (case config_validate_vector h schema (environment_entries s) (environment_count s)
                       ARBOR_CONFIG_SOURCE_ENVIRONMENT of
                  Inl failure \<Rightarrow> Some (Inl failure)
                | Inr _ \<Rightarrow>
                    Some (config_validate_vector h schema (command_line_entries s) (command_line_count s)
                      ARBOR_CONFIG_SOURCE_COMMAND_LINE)))"

section \<open>The code: resolution\<close>

definition default_resolution :: "arbor_config_descriptor \<Rightarrow> nat \<Rightarrow> config_resolution" where
  "default_resolution descriptor key_index =
     (if desc_flags descriptor AND ARBOR_CONFIG_DESCRIPTOR_HAS_DEFAULT \<noteq> 0 then
        (let utf8 = (desc_kind descriptor = ARBOR_CONFIG_KIND_UTF8)
         in \<lparr>res_value = desc_default_value descriptor,
             res_provenance = \<lparr>prov_source = ARBOR_CONFIG_SOURCE_DEFAULT, prov_reserved0 = 0, prov_ordinal = of_nat key_index,
                               prov_byte_offset = 0\<rparr>,
             res_utf8_source = (if utf8 then span_data (value_utf8 (desc_default_value descriptor)) else 0),
             res_utf8_length = (if utf8 then span_length (value_utf8 (desc_default_value descriptor)) else 0),
             res_present = True\<rparr>)
      else config_resolution_zero)"

text \<open>One turn of the file loop of \<open>config_resolve_descriptor\<close>.\<close>

definition resolve_file_turn ::
    "config_heap \<Rightarrow> arbor_config_schema \<Rightarrow> arbor_span \<Rightarrow> nat \<Rightarrow> nat \<Rightarrow> nat \<Rightarrow> config_resolution \<Rightarrow>
     (config_failure + config_resolution) + (nat \<times> nat \<times> config_resolution)" where
  "resolve_file_turn h schema document key_index cursor ordinal resolution =
     (case config_file_record_next (heap_bytes h) document cursor ordinal of
        Inl failure \<Rightarrow> Inl (Inl failure)
      | Inr None \<Rightarrow> Inl (Inr resolution)
      | Inr (Some (next_cursor, next_ordinal, line)) \<Rightarrow>
          (case config_assignment_from_file (heap_bytes h) line of
             Inl failure \<Rightarrow> Inl (Inl failure)
           | Inr None \<Rightarrow> Inr (next_cursor, next_ordinal, resolution)
           | Inr (Some rec) \<Rightarrow>
               if config_find_descriptor h schema CONFIG_NAMESPACE_FILE (rec_name rec) = Some key_index then
                 (case config_parse_text_value h (descriptor_at h schema key_index) (rec_value rec)
                         ARBOR_CONFIG_SOURCE_FILE (rec_ordinal rec) (rec_value_offset rec) key_index of
                    Inl failure \<Rightarrow> Inl (Inl failure)
                  | Inr parsed \<Rightarrow> Inr (next_cursor, next_ordinal, parsed))
               else Inr (next_cursor, next_ordinal, resolution)))"

partial_function (option) resolve_file_loop ::
    "config_heap \<Rightarrow> arbor_config_schema \<Rightarrow> arbor_span \<Rightarrow> nat \<Rightarrow> nat \<Rightarrow> nat \<Rightarrow> config_resolution \<Rightarrow>
     (config_failure + config_resolution) option" where
  "resolve_file_loop h schema document key_index cursor ordinal resolution =
     (case resolve_file_turn h schema document key_index cursor ordinal resolution of
        Inl returned \<Rightarrow> Some returned
      | Inr after \<Rightarrow>
          resolve_file_loop h schema document key_index (fst after) (fst (snd after)) (snd (snd after)))"

fun resolve_vector_loop ::
    "config_heap \<Rightarrow> arbor_config_schema \<Rightarrow> addr \<Rightarrow> arbor_config_source \<Rightarrow> nat \<Rightarrow> nat list \<Rightarrow> config_resolution \<Rightarrow>
     config_failure + config_resolution" where
  "resolve_vector_loop h schema entries source key_index [] resolution = Inr resolution"
| "resolve_vector_loop h schema entries source key_index (item # items) resolution =
     (case config_vector_record (heap_bytes h) (entry_at h entries item) item source of
        Inl failure \<Rightarrow> Inl failure
      | Inr rec \<Rightarrow>
          if config_find_descriptor h schema (vector_namespace source) (rec_name rec) = Some key_index then
            (case config_parse_text_value h (descriptor_at h schema key_index) (rec_value rec) source item
                    (rec_value_offset rec) key_index of
               Inl failure \<Rightarrow> Inl failure
             | Inr parsed \<Rightarrow> resolve_vector_loop h schema entries source key_index items parsed)
          else resolve_vector_loop h schema entries source key_index items resolution)"

definition config_resolve_descriptor ::
    "config_heap \<Rightarrow> arbor_config_schema \<Rightarrow> arbor_config_sources \<Rightarrow> nat \<Rightarrow> (config_failure + config_resolution) option" where
  "config_resolve_descriptor h schema s key_index =
     (case resolve_file_loop h schema (file_document s) key_index 0 0
             (default_resolution (descriptor_at h schema key_index) key_index) of
        None \<Rightarrow> None
      | Some (Inl failure) \<Rightarrow> Some (Inl failure)
      | Some (Inr resolution) \<Rightarrow>
          (case resolve_vector_loop h schema (environment_entries s) ARBOR_CONFIG_SOURCE_ENVIRONMENT key_index
                  [0..<unat (environment_count s)] resolution of
             Inl failure \<Rightarrow> Some (Inl failure)
           | Inr resolution' \<Rightarrow>
               (case resolve_vector_loop h schema (command_line_entries s) ARBOR_CONFIG_SOURCE_COMMAND_LINE key_index
                       [0..<unat (command_line_count s)] resolution' of
                  Inl failure \<Rightarrow> Some (Inl failure)
                | Inr resolution'' \<Rightarrow>
                    if \<not> res_present resolution'' then
                      Some (config_fail ARBOR_CONFIG_DIAGNOSTIC_REQUIRED ARBOR_CONFIG_SOURCE_NONE CONFIG_NA CONFIG_NA
                        (of_nat key_index) config_not_found)
                    else Some (Inr resolution''))))"

end
