(* ===== verification/Config_Prepare.thy ===== *)
theory Config_Prepare
  imports Config_Sources
begin

text \<open>
  The entry points of \<open>src/c/config.c\<close>: what a configuration needs, the address checks of everything that is
  written, and \<open>arbor_config_measure\<close>, \<open>arbor_config_prepare\<close> and \<open>arbor_config_validate\<close>. An entry point takes the heap
  and gives the heap it leaves with its status; \<open>None\<close> is a call that does not return.
\<close>

section \<open>The code: requirements\<close>

text \<open>The loop of \<open>config_analyze\<close> that sums the bytes of the resolved texts.\<close>

fun analyze_loop ::
    "config_heap \<Rightarrow> arbor_config_schema \<Rightarrow> arbor_config_sources \<Rightarrow> nat list \<Rightarrow> u64 \<Rightarrow> (config_failure + u64) option" where
  "analyze_loop h s src [] persistent_bytes = Some (Inr persistent_bytes)"
| "analyze_loop h s src (index # indexes) persistent_bytes =
     (case config_resolve_descriptor h s src index of
        None \<Rightarrow> None
      | Some (Inl failure) \<Rightarrow> Some (Inl failure)
      | Some (Inr resolution) \<Rightarrow>
          (case config_u64_add persistent_bytes (res_utf8_length resolution) of
             None \<Rightarrow>
               Some (config_fail ARBOR_CONFIG_DIAGNOSTIC_OVERFLOW (prov_source (res_provenance resolution))
                 (prov_ordinal (res_provenance resolution)) (prov_byte_offset (res_provenance resolution)) (of_nat index)
                 config_overflow)
           | Some sum_bytes \<Rightarrow> analyze_loop h s src indexes sum_bytes))"

definition config_analyze ::
    "config_heap \<Rightarrow> addr \<Rightarrow> addr \<Rightarrow> (config_failure + arbor_config_requirements) option" where
  "config_analyze h schema sources =
     (case config_validate_schema h schema of
        Inl failure \<Rightarrow> Some (Inl failure)
      | Inr _ \<Rightarrow>
          (let s = heap_schema h schema; count = schema_descriptor_count s
           in case config_validate_sources h s sources of
                None \<Rightarrow> None
              | Some (Inl failure) \<Rightarrow> Some (Inl failure)
              | Some (Inr _) \<Rightarrow>
                  (case analyze_loop h s (heap_sources h sources) [0..<unat count] 0 of
                     None \<Rightarrow> None
                   | Some (Inl failure) \<Rightarrow> Some (Inl failure)
                   | Some (Inr persistent_bytes) \<Rightarrow>
                       (case (config_u64_multiply count SIZEOF_DESCRIPTOR, config_u64_multiply count SIZEOF_VALUE,
                              config_u64_multiply count SIZEOF_PROVENANCE) of
                          (Some descriptor_bytes, Some value_bytes, Some provenance_bytes) \<Rightarrow>
                            Some (Inr \<lparr>req_descriptor_count = count, req_descriptor_bytes = descriptor_bytes,
                              req_value_bytes = value_bytes, req_provenance_bytes = provenance_bytes,
                              req_scratch_bytes = count, req_persistent_bytes = persistent_bytes,
                              req_result_bytes = SIZEOF_RESULT\<rparr>)
                        | _ \<Rightarrow>
                            Some (config_fail ARBOR_CONFIG_DIAGNOSTIC_OVERFLOW ARBOR_CONFIG_SOURCE_NONE CONFIG_NA CONFIG_NA
                              CONFIG_NA config_overflow)))))"

section \<open>The code: address checks\<close>

text \<open>\<open>config_range_make(\<dots>, &input) && config_ranges_overlap(writable, input)\<close>.\<close>

definition overlaps_input :: "config_range \<Rightarrow> config_range option \<Rightarrow> bool" where
  "overlaps_input writable input = (case input of None \<Rightarrow> False | Some r \<Rightarrow> config_ranges_overlap writable r)"

definition span_range :: "arbor_span \<Rightarrow> config_range option" where
  "span_range s = config_range_make (span_data s) (span_length s)"

text \<open>The ranges the code looks at in one descriptor, in its order; the two loops below it go over the same ones.\<close>

definition descriptor_ranges :: "config_heap \<Rightarrow> arbor_config_descriptor \<Rightarrow> config_range option list" where
  "descriptor_ranges h descriptor =
     map (\<lambda>name_space. span_range (config_descriptor_name descriptor name_space)) config_namespaces @
     (if desc_kind descriptor = ARBOR_CONFIG_KIND_UTF8 \<and>
         desc_flags descriptor AND ARBOR_CONFIG_DESCRIPTOR_HAS_DEFAULT \<noteq> 0
      then [span_range (value_utf8 (desc_default_value descriptor))] else []) @
     (if desc_kind descriptor = ARBOR_CONFIG_KIND_ENUM
      then config_array_range (desc_enum_choices descriptor) (desc_enum_choice_count descriptor) SIZEOF_CHOICE #
        map (\<lambda>choice. span_range (choice_name (choice_at h descriptor choice))) [0..<unat (desc_enum_choice_count descriptor)]
      else [])"

definition entry_ranges :: "config_heap \<Rightarrow> addr \<Rightarrow> u64 \<Rightarrow> config_range option list" where
  "entry_ranges h entries count = map (\<lambda>index. span_range (entry_at h entries index)) [0..<unat count]"

definition config_range_overlaps_schema :: "config_heap \<Rightarrow> config_range \<Rightarrow> addr \<Rightarrow> bool" where
  "config_range_overlaps_schema h writable schema \<longleftrightarrow>
     (let s = heap_schema h schema
      in overlaps_input writable (config_range_make schema SIZEOF_SCHEMA) \<or>
         overlaps_input writable (config_array_range (schema_descriptors s) (schema_descriptor_count s) SIZEOF_DESCRIPTOR) \<or>
         (\<exists>index \<in> set [0..<unat (schema_descriptor_count s)].
            list_ex (overlaps_input writable) (descriptor_ranges h (descriptor_at h s index))))"

definition config_range_overlaps_sources :: "config_heap \<Rightarrow> config_range \<Rightarrow> addr \<Rightarrow> bool" where
  "config_range_overlaps_sources h writable sources \<longleftrightarrow>
     (let s = heap_sources h sources
      in overlaps_input writable (config_range_make sources SIZEOF_SOURCES) \<or>
         overlaps_input writable (span_range (file_document s)) \<or>
         overlaps_input writable (config_array_range (environment_entries s) (environment_count s) SIZEOF_SPAN) \<or>
         list_ex (overlaps_input writable) (entry_ranges h (environment_entries s) (environment_count s)) \<or>
         overlaps_input writable (config_array_range (command_line_entries s) (command_line_count s) SIZEOF_SPAN) \<or>
         list_ex (overlaps_input writable) (entry_ranges h (command_line_entries s) (command_line_count s)))"

definition config_writable_against_inputs :: "config_heap \<Rightarrow> config_range \<Rightarrow> addr \<Rightarrow> addr \<Rightarrow> bool" where
  "config_writable_against_inputs h writable schema sources \<longleftrightarrow>
     config_range_overlaps_schema h writable schema \<or> config_range_overlaps_sources h writable sources"

definition config_input_ranges_representable :: "config_heap \<Rightarrow> addr \<Rightarrow> addr \<Rightarrow> bool" where
  "config_input_ranges_representable h schema sources \<longleftrightarrow>
     config_range_make schema SIZEOF_SCHEMA \<noteq> None \<and> config_range_make sources SIZEOF_SOURCES \<noteq> None \<and>
     (let s = heap_schema h schema; src = heap_sources h sources
      in config_array_range (schema_descriptors s) (schema_descriptor_count s) SIZEOF_DESCRIPTOR \<noteq> None \<and>
         span_range (file_document src) \<noteq> None \<and>
         config_array_range (environment_entries src) (environment_count src) SIZEOF_SPAN \<noteq> None \<and>
         config_array_range (command_line_entries src) (command_line_count src) SIZEOF_SPAN \<noteq> None \<and>
         (\<forall>index \<in> set [0..<unat (schema_descriptor_count s)].
            list_all (\<lambda>r. r \<noteq> None) (descriptor_ranges h (descriptor_at h s index))) \<and>
         list_all (\<lambda>r. r \<noteq> None) (entry_ranges h (environment_entries src) (environment_count src)) \<and>
         list_all (\<lambda>r. r \<noteq> None) (entry_ranges h (command_line_entries src) (command_line_count src)))"

definition config_diagnostic_writable_for_measure_failure ::
    "config_heap \<Rightarrow> addr \<Rightarrow> addr \<Rightarrow> addr \<Rightarrow> addr \<Rightarrow> bool" where
  "config_diagnostic_writable_for_measure_failure h schema sources requirements_out diagnostic_out \<longleftrightarrow>
     diagnostic_out \<noteq> 0 \<and> config_input_ranges_representable h schema sources \<and>
     (case (config_range_make diagnostic_out SIZEOF_DIAGNOSTIC, config_range_make requirements_out SIZEOF_REQUIREMENTS) of
        (Some diagnostic_range, Some requirements_range) \<Rightarrow>
          \<not> config_writable_against_inputs h diagnostic_range schema sources \<and>
          \<not> config_ranges_overlap diagnostic_range requirements_range
      | _ \<Rightarrow> False)"

text \<open>The objects and buffers a call of \<open>arbor_config_prepare\<close> writes, in the order of \<open>writable\<close>.\<close>

definition output_ranges :: "config_heap \<Rightarrow> addr \<Rightarrow> addr \<Rightarrow> config_range option list" where
  "output_ranges h storage result_out =
     (let s = heap_storage h storage
      in [config_range_make result_out SIZEOF_RESULT,
          config_array_range (storage_values s) (value_capacity s) SIZEOF_VALUE,
          config_array_range (storage_provenance s) (provenance_capacity s) SIZEOF_PROVENANCE,
          span_range (storage_scratch s),
          span_range (storage_persistent s)])"

definition config_diagnostic_writable_for_prepare_failure ::
    "config_heap \<Rightarrow> addr \<Rightarrow> addr \<Rightarrow> addr \<Rightarrow> addr \<Rightarrow> addr \<Rightarrow> bool" where
  "config_diagnostic_writable_for_prepare_failure h schema sources storage result_out diagnostic_out \<longleftrightarrow>
     diagnostic_out \<noteq> 0 \<and> config_input_ranges_representable h schema sources \<and>
     (case config_range_make diagnostic_out SIZEOF_DIAGNOSTIC of
        None \<Rightarrow> False
      | Some diagnostic_range \<Rightarrow>
          (case config_range_make storage SIZEOF_STORAGE of
             None \<Rightarrow> False
           | Some output \<Rightarrow> \<not> config_ranges_overlap diagnostic_range output) \<and>
          \<not> config_writable_against_inputs h diagnostic_range schema sources \<and>
          list_all (\<lambda>r. case r of None \<Rightarrow> False | Some output \<Rightarrow> \<not> config_ranges_overlap diagnostic_range output)
            (output_ranges h storage result_out))"

text \<open>The flag \<open>diagnostic_writable\<close> and whether the check passes; a failed check has status \<open>config_invalid\<close>.\<close>

definition config_measure_alias_check ::
    "config_heap \<Rightarrow> addr \<Rightarrow> addr \<Rightarrow> addr \<Rightarrow> addr \<Rightarrow> bool \<times> bool" where
  "config_measure_alias_check h schema sources requirements_out diagnostic_out =
     (case config_range_make requirements_out SIZEOF_REQUIREMENTS of
        None \<Rightarrow> (False, False)
      | Some requirements_range \<Rightarrow>
          if diagnostic_out \<noteq> 0 then
            (case config_range_make diagnostic_out SIZEOF_DIAGNOSTIC of
               None \<Rightarrow> (False, False)
             | Some diagnostic_range \<Rightarrow>
                 let writable = (\<not> config_ranges_overlap requirements_range diagnostic_range \<and>
                                 \<not> config_writable_against_inputs h diagnostic_range schema sources)
                 in (writable, \<not> (config_writable_against_inputs h requirements_range schema sources \<or>
                                   config_ranges_overlap requirements_range diagnostic_range \<or> \<not> writable)))
          else (False, \<not> config_writable_against_inputs h requirements_range schema sources))"

fun outputs_apart :: "config_heap \<Rightarrow> addr \<Rightarrow> addr \<Rightarrow> config_range \<Rightarrow> config_range list \<Rightarrow> config_range list \<Rightarrow> bool" where
  "outputs_apart h schema sources storage_range earlier [] \<longleftrightarrow> True"
| "outputs_apart h schema sources storage_range earlier (left # rest) \<longleftrightarrow>
     \<not> config_writable_against_inputs h left schema sources \<and> \<not> config_ranges_overlap left storage_range \<and>
     list_all (\<lambda>right. \<not> config_ranges_overlap left right) earlier \<and>
     outputs_apart h schema sources storage_range (earlier @ [left]) rest"

definition alias_failure :: "config_failure + unit" where
  "alias_failure =
     config_fail ARBOR_CONFIG_DIAGNOSTIC_ALIAS ARBOR_CONFIG_SOURCE_NONE CONFIG_NA CONFIG_NA CONFIG_NA config_invalid"

text \<open>The flag \<open>diagnostic_writable\<close> and the result.\<close>

definition config_prepare_ranges ::
    "config_heap \<Rightarrow> addr \<Rightarrow> addr \<Rightarrow> addr \<Rightarrow> addr \<Rightarrow> addr \<Rightarrow> bool \<times> (config_failure + unit)" where
  "config_prepare_ranges h schema sources storage result_out diagnostic_out =
     (let writable = output_ranges h storage result_out
      in if config_range_make storage SIZEOF_STORAGE = None \<or> \<not> list_all (\<lambda>r. r \<noteq> None) writable then
           (False, config_fail ARBOR_CONFIG_DIAGNOSTIC_OVERFLOW ARBOR_CONFIG_SOURCE_NONE CONFIG_NA CONFIG_NA CONFIG_NA
              config_overflow)
         else if diagnostic_out \<noteq> 0 \<and> config_range_make diagnostic_out SIZEOF_DIAGNOSTIC = None then
           (False, Inl (config_diagnostic_clear, config_invalid))
         else
           let storage_range = the (config_range_make storage SIZEOF_STORAGE);
               writable_ranges = map the writable;
               diagnostic_range = the (config_range_make diagnostic_out SIZEOF_DIAGNOSTIC);
               diagnostic_writable =
                 (diagnostic_out \<noteq> 0 \<and>
                  \<not> config_writable_against_inputs h diagnostic_range schema sources \<and>
                  \<not> config_ranges_overlap diagnostic_range storage_range \<and>
                  list_all (\<lambda>output. \<not> config_ranges_overlap diagnostic_range output) writable_ranges)
           in (diagnostic_writable,
               if \<not> outputs_apart h schema sources storage_range [] writable_ranges then alias_failure
               else if diagnostic_out \<noteq> 0 \<and> \<not> diagnostic_writable then alias_failure
               else Inr ()))"

section \<open>The code: the entry points\<close>

definition config_publish_diagnostic ::
    "config_heap \<Rightarrow> addr \<Rightarrow> bool \<Rightarrow> arbor_config_diagnostic \<Rightarrow> config_heap" where
  "config_publish_diagnostic h destination writable diagnostic =
     (if destination \<noteq> 0 \<and> writable \<and> diag_code diagnostic \<noteq> ARBOR_CONFIG_DIAGNOSTIC_NONE
      then h\<lparr>heap_diagnostic := (heap_diagnostic h)(destination := diagnostic)\<rparr> else h)"

definition arbor_config_measure ::
    "config_heap \<Rightarrow> addr \<Rightarrow> addr \<Rightarrow> addr \<Rightarrow> addr \<Rightarrow> (config_heap \<times> arbor_status) option" where
  "arbor_config_measure h schema sources requirements_out diagnostic_out =
     (case config_analyze h schema sources of
        None \<Rightarrow> None
      | Some (Inl (diagnostic, status)) \<Rightarrow>
          Some (config_publish_diagnostic h diagnostic_out
                  (config_diagnostic_writable_for_measure_failure h schema sources requirements_out diagnostic_out) diagnostic,
                status)
      | Some (Inr requirements) \<Rightarrow>
          (case config_measure_alias_check h schema sources requirements_out diagnostic_out of
             (diagnostic_writable, apart) \<Rightarrow>
               if \<not> apart then
                 Some (config_publish_diagnostic h diagnostic_out diagnostic_writable
                         \<lparr>diag_code = ARBOR_CONFIG_DIAGNOSTIC_ALIAS, diag_source = ARBOR_CONFIG_SOURCE_NONE,
                          diag_record = CONFIG_NA, diag_byte_offset = CONFIG_NA, diag_key_index = CONFIG_NA\<rparr>,
                       config_invalid)
               else
                 Some (h\<lparr>heap_requirements := (heap_requirements h)(requirements_out := requirements)\<rparr>, config_ok)))"

abbreviation CONFIG_PREPARED_GUARD :: u64 where "CONFIG_PREPARED_GUARD \<equiv> 0x434f4e4649473052"

text \<open>One turn of the loop of \<open>arbor_config_prepare\<close>: the heap and \<open>persistent_offset\<close> after it.\<close>

definition store_resolution ::
    "config_heap \<Rightarrow> arbor_config_storage \<Rightarrow> nat \<Rightarrow> u64 \<Rightarrow> config_resolution \<Rightarrow> config_heap \<times> u64" where
  "store_resolution h storage index persistent_offset resolution =
     (let v = res_value resolution;
          target = span_data (storage_persistent storage) + persistent_offset;
          len = res_utf8_length resolution;
          utf8 = (value_kind v = ARBOR_CONFIG_KIND_UTF8);
          copied = (if utf8 \<and> len \<noteq> 0
                    then store_bytes (heap_bytes h) target (bytes_at (heap_bytes h) (res_utf8_source resolution) len)
                    else heap_bytes h);
          stored = (if utf8 then (if len \<noteq> 0 then v\<lparr>value_utf8 := \<lparr>span_data = target, span_length = len\<rparr>\<rparr>
                                  else v\<lparr>value_utf8 := zero_span\<rparr>)
                    else v);
          value_slot = storage_values storage + of_nat index * SIZEOF_VALUE;
          provenance_slot = storage_provenance storage + of_nat index * SIZEOF_PROVENANCE;
          scratch_slot = span_data (storage_scratch storage) + of_nat index
      in (h\<lparr>heap_bytes := store_bytes copied scratch_slot [1],
            heap_value := (heap_value h)(value_slot := stored),
            heap_provenance := (heap_provenance h)(provenance_slot := res_provenance resolution)\<rparr>,
          if utf8 then persistent_offset + len else persistent_offset))"

text \<open>The loop: \<open>Inl\<close> is the early return, with the heap it leaves.\<close>

fun prepare_loop ::
    "config_heap \<Rightarrow> addr \<Rightarrow> addr \<Rightarrow> addr \<Rightarrow> nat list \<Rightarrow> u64 \<Rightarrow> ((config_heap \<times> config_failure) + config_heap) option" where
  "prepare_loop h schema sources storage [] persistent_offset = Some (Inr h)"
| "prepare_loop h schema sources storage (index # indexes) persistent_offset =
     (case config_resolve_descriptor h (heap_schema h schema) (heap_sources h sources) index of
        None \<Rightarrow> None
      | Some (Inl failure) \<Rightarrow> Some (Inl (h, failure))
      | Some (Inr resolution) \<Rightarrow>
          (case store_resolution h (heap_storage h storage) index persistent_offset resolution of
             (h', persistent_offset') \<Rightarrow> prepare_loop h' schema sources storage indexes persistent_offset'))"

definition arbor_config_prepare ::
    "config_heap \<Rightarrow> addr \<Rightarrow> addr \<Rightarrow> addr \<Rightarrow> addr \<Rightarrow> addr \<Rightarrow> (config_heap \<times> arbor_status) option" where
  "arbor_config_prepare h schema sources storage result_out diagnostic_out =
     (case config_analyze h schema sources of
        None \<Rightarrow> None
      | Some (Inl (diagnostic, status)) \<Rightarrow>
          Some (config_publish_diagnostic h diagnostic_out
                  (config_diagnostic_writable_for_prepare_failure h schema sources storage result_out diagnostic_out)
                  diagnostic,
                status)
      | Some (Inr requirements) \<Rightarrow>
          (case config_prepare_ranges h schema sources storage result_out diagnostic_out of
             (diagnostic_writable, Inl (diagnostic, status)) \<Rightarrow>
               Some (config_publish_diagnostic h diagnostic_out diagnostic_writable diagnostic, status)
           | (diagnostic_writable, Inr _) \<Rightarrow>
               (let st = heap_storage h storage
                in if value_capacity st < req_descriptor_count requirements \<or>
                      provenance_capacity st < req_descriptor_count requirements \<or>
                      span_length (storage_scratch st) < req_scratch_bytes requirements \<or>
                      span_length (storage_persistent st) < req_persistent_bytes requirements
                   then
                     Some (config_publish_diagnostic h diagnostic_out diagnostic_writable
                             \<lparr>diag_code = ARBOR_CONFIG_DIAGNOSTIC_CAPACITY, diag_source = ARBOR_CONFIG_SOURCE_NONE,
                              diag_record = CONFIG_NA, diag_byte_offset = req_persistent_bytes requirements,
                              diag_key_index = CONFIG_NA\<rparr>,
                           config_no_space)
                   else
                     case prepare_loop h schema sources storage
                            [0..<unat (schema_descriptor_count (heap_schema h schema))] 0 of
                       None \<Rightarrow> None
                     | Some (Inl (h', diagnostic, status)) \<Rightarrow>
                         Some (config_publish_diagnostic h' diagnostic_out diagnostic_writable diagnostic, status)
                     | Some (Inr h') \<Rightarrow>
                         Some (h'\<lparr>heap_result := (heap_result h')(result_out :=
                                   \<lparr>result_values = storage_values st, result_provenance = storage_provenance st,
                                    result_persistent = \<lparr>span_data = span_data (storage_persistent st),
                                                         span_length = req_persistent_bytes requirements\<rparr>,
                                    result_value_count = req_descriptor_count requirements,
                                    result_prepared_guard = CONFIG_PREPARED_GUARD\<rparr>)\<rparr>,
                               config_ok))))"

section \<open>The code: validation of a result\<close>

definition config_span_contained :: "arbor_span \<Rightarrow> arbor_span \<Rightarrow> bool" where
  "config_span_contained outer inner =
     (if span_length inner = 0 then span_data inner = 0
      else
        case (span_range outer, span_range inner) of
          (Some outer_range, Some inner_range) \<Rightarrow>
            range_begin inner_range \<ge> range_begin outer_range \<and> range_end inner_range \<le> range_end outer_range
        | _ \<Rightarrow> False)"

definition provenance_bad :: "arbor_config_provenance \<Rightarrow> nat \<Rightarrow> bool" where
  "provenance_bad p index \<longleftrightarrow>
     prov_reserved0 p \<noteq> 0 \<or>
     \<not> (case prov_source p of
          ARBOR_CONFIG_SOURCE_NONE \<Rightarrow> False
        | ARBOR_CONFIG_SOURCE_OUT_OF_ENUM _ \<Rightarrow> False
        | _ \<Rightarrow> True) \<or>
     (prov_source p = ARBOR_CONFIG_SOURCE_DEFAULT \<and> (prov_ordinal p \<noteq> of_nat index \<or> prov_byte_offset p \<noteq> 0))"

text \<open>One turn of the loop of \<open>arbor_config_validate\<close>, with the next \<open>persistent_offset\<close>.\<close>

definition validate_result_turn ::
    "config_heap \<Rightarrow> arbor_config_schema \<Rightarrow> arbor_config_result \<Rightarrow> nat \<Rightarrow> u64 \<Rightarrow> arbor_status + u64" where
  "validate_result_turn h s r index persistent_offset =
     (let v = heap_value h (result_values r + of_nat index * SIZEOF_VALUE);
          text = value_utf8 v
      in if config_value_canonical h (descriptor_at h s index) v True \<noteq> Inr () then Inl config_invalid
         else if provenance_bad (heap_provenance h (result_provenance r + of_nat index * SIZEOF_PROVENANCE)) index
         then Inl config_invalid
         else if value_kind v = ARBOR_CONFIG_KIND_UTF8 then
           (if \<not> config_span_contained (result_persistent r) text then Inl config_invalid
            else if span_length text \<noteq> 0 \<and> span_data text \<noteq> span_data (result_persistent r) + persistent_offset
            then Inl config_invalid
            else
              case config_u64_add persistent_offset (span_length text) of
                None \<Rightarrow> Inl config_overflow
              | Some sum_bytes \<Rightarrow> Inr sum_bytes)
         else Inr persistent_offset)"

fun validate_result_loop ::
    "config_heap \<Rightarrow> arbor_config_schema \<Rightarrow> arbor_config_result \<Rightarrow> nat list \<Rightarrow> u64 \<Rightarrow> arbor_status + u64" where
  "validate_result_loop h s r [] persistent_offset = Inr persistent_offset"
| "validate_result_loop h s r (index # indexes) persistent_offset =
     (case validate_result_turn h s r index persistent_offset of
        Inl status \<Rightarrow> Inl status
      | Inr sum_bytes \<Rightarrow> validate_result_loop h s r indexes sum_bytes)"

definition arbor_config_validate :: "config_heap \<Rightarrow> addr \<Rightarrow> addr \<Rightarrow> arbor_status" where
  "arbor_config_validate h schema result =
     (case config_validate_schema h schema of
        Inl (_, status) \<Rightarrow> status
      | Inr _ \<Rightarrow>
          (let s = heap_schema h schema; r = heap_result h result
           in if config_range_make result SIZEOF_RESULT = None \<or>
                 result_prepared_guard r \<noteq> CONFIG_PREPARED_GUARD \<or>
                 result_value_count r \<noteq> schema_descriptor_count s \<or>
                 config_array_range (result_values r) (result_value_count r) SIZEOF_VALUE = None \<or>
                 config_array_range (result_provenance r) (result_value_count r) SIZEOF_PROVENANCE = None \<or>
                 span_range (result_persistent r) = None
              then config_invalid
              else
                case validate_result_loop h s r [0..<unat (result_value_count r)] 0 of
                  Inl status \<Rightarrow> status
                | Inr persistent_offset \<Rightarrow>
                    if persistent_offset \<noteq> span_length (result_persistent r) then config_invalid else config_ok))"

end
