(* ===== verification/Config_Lines.thy ===== *)
theory Config_Lines
  imports Config_Sources
begin

text \<open>
  The file format of \<open>src/c/config.c\<close>. A document is split into lines and its settings without any cursor; the
  cursor loops are shown to end and to see exactly those lines, so that a file is accepted exactly when its bytes, its
  lines and its settings are well formed, and a descriptor is resolved to the one setting that names it.
\<close>

section \<open>Lines and settings\<close>

definition in_line :: "u8 \<Rightarrow> bool" where
  "in_line b \<longleftrightarrow> b \<noteq> LF \<and> b \<noteq> CR"

function doc_lines :: "nat \<Rightarrow> u8 list \<Rightarrow> (nat \<times> u8 list) list" where
  "doc_lines offset bytes =
     (case dropWhile in_line bytes of
        [] \<Rightarrow> if bytes = [] then [] else [(offset, bytes)]
      | b # rest \<Rightarrow>
          let line = takeWhile in_line bytes
          in (offset, line) #
             (if b = CR then doc_lines (offset + length line + 2) (drop 1 rest)
              else doc_lines (offset + length line + 1) rest))"
  by auto

termination doc_lines
proof (relation "measure (\<lambda>(_, bytes). length bytes)", goal_cases)
  case (2 offset bytes b rest line)
  then show ?case using length_dropWhile_le [of in_line bytes] by simp
next
  case (3 offset bytes b rest line)
  then show ?case using length_dropWhile_le [of in_line bytes] by simp
qed simp

declare doc_lines.simps [simp del] dropWhile_eq_Nil_conv [simp del]

definition is_setting :: "u8 list \<Rightarrow> bool" where
  "is_setting line \<longleftrightarrow> line \<noteq> [] \<and> hd line \<noteq> hash_sign"

abbreviation name_length :: "u8 list \<Rightarrow> nat" where
  "name_length line \<equiv> length (takeWhile (\<lambda>b. b \<noteq> equals_sign) line)"

definition setting :: "arbor_span \<Rightarrow> nat \<Rightarrow> nat \<Rightarrow> u8 list \<Rightarrow> config_record" where
  "setting document ordinal offset line =
     \<lparr>rec_name = \<lparr>span_data = span_data document + of_nat offset, span_length = of_nat (name_length line)\<rparr>,
      rec_value = \<lparr>span_data = span_data document + of_nat (offset + name_length line + 1),
                   span_length = of_nat (length line - name_length line - 1)\<rparr>,
      rec_ordinal = ordinal, rec_name_offset = offset, rec_value_offset = offset + name_length line + 1\<rparr>"

text \<open>No NUL byte, and every CR is followed by LF.\<close>

fun text_ok :: "u8 list \<Rightarrow> bool" where
  "text_ok [] \<longleftrightarrow> True"
| "text_ok (b # rest) \<longleftrightarrow> b \<noteq> 0 \<and> (b = CR \<longrightarrow> rest \<noteq> [] \<and> hd rest = LF) \<and> text_ok rest"

lemma doc_lines_Nil [simp]: "doc_lines offset [] = []"
  by (simp add: doc_lines.simps)

section \<open>Termination\<close>

lemma line_end_loop_eq:
  "line_end_loop bytes i =
     (if 0 \<in> set (takeWhile in_line bytes) then Inl (i + length (takeWhile (\<lambda>b. b \<noteq> 0) bytes))
      else Inr (i + length (takeWhile in_line bytes)))"
  by (induction bytes arbitrary: i) (auto simp: in_line_def)

text \<open>The lines of a document from a cursor on, one turn at a time.\<close>

abbreviation lines_at :: "u8 list \<Rightarrow> nat \<Rightarrow> (nat \<times> u8 list) list" where
  "lines_at bytes cursor \<equiv> doc_lines cursor (drop cursor bytes)"

abbreviation line_at :: "u8 list \<Rightarrow> nat \<Rightarrow> u8 list" where
  "line_at bytes cursor \<equiv> takeWhile in_line (drop cursor bytes)"

definition next_line :: "u8 list \<Rightarrow> nat \<Rightarrow> nat" where
  "next_line bytes cursor =
     cursor + length (line_at bytes cursor) +
     (case dropWhile in_line (drop cursor bytes) of [] \<Rightarrow> 0 | b # _ \<Rightarrow> if b = CR then 2 else 1)"

lemma lines_at_step:
  assumes "cursor < length bytes"
  shows "lines_at bytes cursor = (cursor, line_at bytes cursor) # lines_at bytes (next_line bytes cursor)"
    and "cursor < next_line bytes cursor"
proof -
  define line where "line = line_at bytes cursor"
  define pre where "pre = take cursor bytes"
  have pre: "length pre = cursor" using assms by (simp add: pre_def)
  have split: "bytes = pre @ line @ dropWhile in_line (drop cursor bytes)"
    unfolding line_def pre_def by (simp only: takeWhile_dropWhile_id append_take_drop_id)
  show "lines_at bytes cursor = (cursor, line_at bytes cursor) # lines_at bytes (next_line bytes cursor)"
  proof (cases "dropWhile in_line (drop cursor bytes)")
    case Nil
    then have "line = drop cursor bytes" using takeWhile_dropWhile_id [of in_line "drop cursor bytes"] by (simp add: line_def)
    then have "length bytes = cursor + length line" "lines_at bytes cursor = [(cursor, line)]"
      using assms by simp (use Nil assms \<open>line = drop cursor bytes\<close> in \<open>subst doc_lines.simps, simp\<close>)
    then show ?thesis using Nil by (simp add: next_line_def line_def [symmetric])
  next
    case (Cons b rest)
    then have all: "bytes = pre @ line @ b # rest" using split by simp
    have "drop (cursor + length line + 2) bytes = drop 1 rest" "drop (cursor + length line + 1) bytes = rest"
      unfolding all using pre by simp_all
    then show ?thesis using Cons
      by (subst doc_lines.simps) (simp add: next_line_def line_def [symmetric] Let_def)
  qed
  have "line \<noteq> [] \<or> dropWhile in_line (drop cursor bytes) \<noteq> []"
    using assms by (metis append_Nil drop_eq_Nil not_le takeWhile_dropWhile_id line_def)
  then show "cursor < next_line bytes cursor"
    by (auto simp: next_line_def line_def [symmetric] split: list.splits)
qed

lemma lines_at_end [simp]: "length bytes \<le> cursor \<Longrightarrow> lines_at bytes cursor = []"
  by (simp add: doc_lines.simps)

lemma lines_at_offsets: "(offset, line) \<in> set (lines_at bytes cursor) \<Longrightarrow> cursor \<le> offset"
proof (induction "length bytes - cursor" arbitrary: cursor rule: less_induct)
  case less
  show ?case
  proof (cases "cursor < length bytes")
    case True
    then have "offset = cursor \<or> (offset, line) \<in> set (lines_at bytes (next_line bytes cursor))"
      using less.prems lines_at_step(1) by auto
    moreover have "length bytes - next_line bytes cursor < length bytes - cursor" using True lines_at_step(2) [OF True] by simp
    ultimately show ?thesis using less.hyps lines_at_step(2) [OF True] by fastforce
  qed (use less.prems in simp)
qed

text \<open>\<open>config_file_seen_before\<close> returns, and tells whether an earlier line names the key.\<close>

definition line_names :: "config_heap \<Rightarrow> arbor_config_schema \<Rightarrow> arbor_span \<Rightarrow> nat \<Rightarrow> nat \<times> u8 list \<Rightarrow> bool" where
  "line_names h s document key entry \<longleftrightarrow>
     (case entry of (offset, line) \<Rightarrow>
        is_setting line \<and> 0 < name_length line \<and> name_length line < length line \<and>
        config_find_descriptor h s CONFIG_NAMESPACE_FILE (rec_name (setting document 0 offset line)) = Some key)"

lemma next_line_index:
  assumes "cursor < length bytes"
  shows "next_line bytes cursor =
    (let end_at = cursor + length (line_at bytes cursor)
     in if end_at < length bytes then end_at + (if bytes ! end_at = CR then 2 else 1) else end_at)"
    and "line_at bytes cursor \<noteq> [] \<Longrightarrow> hd (line_at bytes cursor) = bytes ! cursor"
    and "take (length (line_at bytes cursor)) (drop cursor bytes) = line_at bytes cursor"
proof -
  define line where "line = line_at bytes cursor"
  define pre where "pre = take cursor bytes"
  have pre: "length pre = cursor" using assms by (simp add: pre_def)
  have split: "bytes = pre @ line @ dropWhile in_line (drop cursor bytes)"
    unfolding line_def pre_def by (simp only: takeWhile_dropWhile_id append_take_drop_id)
  show "next_line bytes cursor =
    (let end_at = cursor + length (line_at bytes cursor)
     in if end_at < length bytes then end_at + (if bytes ! end_at = CR then 2 else 1) else end_at)"
  proof (cases "dropWhile in_line (drop cursor bytes)")
    case Nil
    then have "length bytes = cursor + length line" using split pre by (metis append_Nil2 length_append)
    then show ?thesis using Nil by (simp add: next_line_def line_def [symmetric])
  next
    case (Cons b rest)
    then have all: "bytes = pre @ line @ b # rest" using split by simp
    have "length bytes = cursor + length line + 1 + length rest" "bytes ! (cursor + length line) = b"
      unfolding all using pre by (simp_all add: nth_append)
    then show ?thesis using Cons by (simp add: next_line_def line_def [symmetric])
  qed
  show "hd (line_at bytes cursor) = bytes ! cursor" if "line_at bytes cursor \<noteq> []"
    using that assms by (metis hd_drop_conv_nth hd_append takeWhile_dropWhile_id)
  show "take (length (line_at bytes cursor)) (drop cursor bytes) = line_at bytes cursor"
    by (metis append_eq_conv_conj takeWhile_dropWhile_id)
qed

lemma in_line_eq: "(\<lambda>b. b \<noteq> LF \<and> b \<noteq> CR) = in_line"
  by (simp add: in_line_def fun_eq_iff)

text \<open>One record of the file loop.\<close>

definition lone_cr :: "u8 list \<Rightarrow> nat \<Rightarrow> bool" where
  "lone_cr bytes cursor \<longleftrightarrow>
     (case dropWhile in_line (drop cursor bytes) of [] \<Rightarrow> False | b # rest \<Rightarrow> b = CR \<and> (rest = [] \<or> hd rest \<noteq> LF))"

lemma lone_cr_index:
  assumes "cursor < length bytes"
  shows "lone_cr bytes cursor \<longleftrightarrow>
    (let end_at = cursor + length (line_at bytes cursor)
     in end_at < length bytes \<and> bytes ! end_at = CR \<and> (end_at + 1 \<ge> length bytes \<or> bytes ! (end_at + 1) \<noteq> LF))"
proof -
  define line where "line = line_at bytes cursor"
  define pre where "pre = take cursor bytes"
  have pre: "length pre = cursor" using assms by (simp add: pre_def)
  have split: "bytes = pre @ line @ dropWhile in_line (drop cursor bytes)"
    unfolding line_def pre_def by (simp only: takeWhile_dropWhile_id append_take_drop_id)
  show ?thesis
  proof (cases "dropWhile in_line (drop cursor bytes)")
    case Nil
    then have "length bytes = cursor + length line" using split pre by (metis append_Nil2 length_append)
    then show ?thesis using Nil by (simp add: lone_cr_def line_def [symmetric])
  next
    case (Cons b rest)
    then have all: "bytes = pre @ line @ b # rest" using split by simp
    have "length bytes = cursor + length line + 1 + length rest" "bytes ! (cursor + length line) = b"
      "rest \<noteq> [] \<Longrightarrow> bytes ! (cursor + length line + 1) = hd rest"
      unfolding all using pre by (simp_all add: nth_append hd_conv_nth)
    then show ?thesis using Cons by (cases rest) (simp_all add: lone_cr_def line_def [symmetric])
  qed
qed

lemma record_next_at:
  assumes "cursor < length (span_bytes m document)"
  shows "config_file_record_next m document cursor ordinal =
    (let bytes = span_bytes m document;
         line = line_at bytes cursor
     in if 0 \<in> set line then
          config_fail ARBOR_CONFIG_DIAGNOSTIC_SOURCE_NUL ARBOR_CONFIG_SOURCE_FILE (of_nat ordinal)
            (of_nat (cursor + length (takeWhile (\<lambda>b. b \<noteq> 0) (drop cursor bytes)))) CONFIG_NA config_invalid
        else if lone_cr bytes cursor then
          config_fail ARBOR_CONFIG_DIAGNOSTIC_SOURCE_SYNTAX ARBOR_CONFIG_SOURCE_FILE (of_nat ordinal)
            (of_nat (cursor + length line)) CONFIG_NA config_invalid
        else
          Inr (Some (next_line bytes cursor, ordinal + 1,
            \<lparr>rec_name = \<lparr>span_data = span_data document + of_nat cursor, span_length = of_nat (length line)\<rparr>,
             rec_value = zero_span, rec_ordinal = ordinal, rec_name_offset = cursor, rec_value_offset = cursor\<rparr>)))"
  using assms next_line_index(1) [OF assms] lone_cr_index [OF assms]
  by (simp add: config_file_record_next_def line_end_loop_eq Let_def)

lemma record_next_end: "length (span_bytes m document) \<le> cursor \<Longrightarrow> config_file_record_next m document cursor ordinal = Inr None"
  by (simp add: config_file_record_next_def)

lemma seen_before_turn:
  assumes "cursor < stop" and "cursor < length (text_of h document)"
  shows "seen_before_loop h s document stop key cursor =
    (if line_names h s document key (cursor, line_at (text_of h document) cursor) then Some True
     else seen_before_loop h s document stop key (next_line (text_of h document) cursor))"
  using assms(1) next_line_index [OF assms(2)]
  by (subst seen_before_loop.simps)
    (auto simp: in_line_eq line_names_def is_setting_def setting_def Let_def add.commute)

lemma seen_before_loop_eq:
  "stop \<le> length (text_of h document) \<Longrightarrow>
     seen_before_loop h s document stop key cursor =
       Some (\<exists>entry \<in> set (lines_at (text_of h document) cursor). fst entry < stop \<and> line_names h s document key entry)"
proof (induction "stop - cursor" arbitrary: cursor rule: less_induct)
  case less
  let ?bytes = "text_of h document"
  show ?case
  proof (cases "cursor < stop")
    case True
    then have cursor: "cursor < length ?bytes" using less.prems by simp
    have "stop - next_line ?bytes cursor < stop - cursor" using True lines_at_step(2) [OF cursor] by simp
    then show ?thesis
      using less.hyps [of "next_line ?bytes cursor"] less.prems True
      unfolding seen_before_turn [OF True cursor] lines_at_step(1) [OF cursor] by simp
  next
    case False
    then have "\<not> (\<exists>entry \<in> set (lines_at ?bytes cursor). fst entry < stop)"
      using lines_at_offsets [of _ _ cursor ?bytes] by fastforce
    then show ?thesis using False by (subst seen_before_loop.simps) auto
  qed
qed

section \<open>What a file must be\<close>

lemma text_ok_append: "text_ok (xs @ ys) \<longleftrightarrow> (0 \<notin> set xs \<and> text_ok ys)" if "list_all in_line xs" for xs ys
  using that by (induction xs) (auto simp: in_line_def)

lemma text_ok_step:
  assumes "cursor < length bytes"
  shows "text_ok (drop cursor bytes) \<longleftrightarrow>
    0 \<notin> set (line_at bytes cursor) \<and> \<not> lone_cr bytes cursor \<and> text_ok (drop (next_line bytes cursor) bytes)"
proof -
  define line where "line = line_at bytes cursor"
  define rest where "rest = dropWhile in_line (drop cursor bytes)"
  have split: "drop cursor bytes = line @ rest" by (simp add: line_def rest_def)
  have in_line: "list_all in_line line" by (auto simp: line_def list_all_iff dest: set_takeWhileD)
  have "drop (length line) (drop cursor bytes) = rest" using split by simp
  then have "drop (cursor + length line + k) bytes = drop k rest" for k by (metis add.commute drop_drop)
  then have after: "drop (next_line bytes cursor) bytes = drop (case rest of [] \<Rightarrow> 0 | b # _ \<Rightarrow> if b = CR then 2 else 1) rest"
    by (simp add: next_line_def line_def [symmetric] rest_def [symmetric])
  have whole: "text_ok (drop cursor bytes) \<longleftrightarrow> 0 \<notin> set line \<and> text_ok rest"
    unfolding split by (rule text_ok_append [OF in_line])
  show ?thesis
  proof (cases rest)
    case Nil
    then show ?thesis unfolding whole after line_def [symmetric] by (simp add: lone_cr_def rest_def [symmetric])
  next
    case (Cons b rest')
    then have "b = LF \<or> b = CR" using hd_dropWhile [of in_line "drop cursor bytes"] by (simp add: rest_def in_line_def)
    then show ?thesis unfolding whole after line_def [symmetric]
      by (cases rest') (auto simp: Cons lone_cr_def rest_def [symmetric])
  qed
qed

lemma line_at_length: "cursor < length bytes \<Longrightarrow> cursor + length (line_at bytes cursor) \<le> length bytes"
  using length_takeWhile_le [of in_line "drop cursor bytes"] by simp

lemma line_span_bytes:
  assumes "cursor < length (span_bytes m document)"
  shows "bytes_at m (span_data document + of_nat cursor) (of_nat (length (line_at (span_bytes m document) cursor))) =
    line_at (span_bytes m document) cursor"
    and "unat (of_nat (length (line_at (span_bytes m document) cursor)) :: u64) = length (line_at (span_bytes m document) cursor)"
proof -
  let ?line = "line_at (span_bytes m document) cursor"
  have fits: "cursor + length ?line \<le> unat (span_length document)" using line_at_length [OF assms] by simp
  then show n: "unat (of_nat (length ?line) :: u64) = length ?line"
    using unat_u64_upper [of "span_length document"] by (intro unat_of_nat_u64) linarith
  show "bytes_at m (span_data document + of_nat cursor) (of_nat (length ?line)) = ?line"
    using bytes_at_part [of cursor "of_nat (length ?line)" "span_length document" m "span_data document"]
      next_line_index(3) [OF assms] fits n by simp
qed

lemma value_length: "n < k \<Longrightarrow> of_nat k - of_nat n - (1 :: u64) = of_nat (k - n - 1)"
  by (simp add: of_nat_diff)

lemma assignment_at:
  assumes "cursor < length (span_bytes m document)"
  shows "config_assignment_from_file m
      \<lparr>rec_name = \<lparr>span_data = span_data document + of_nat cursor,
                   span_length = of_nat (length (line_at (span_bytes m document) cursor))\<rparr>,
       rec_value = zero_span, rec_ordinal = ordinal, rec_name_offset = cursor, rec_value_offset = cursor\<rparr> =
    (let line = line_at (span_bytes m document) cursor
     in if \<not> is_setting line then Inr None
        else if name_length line = 0 \<or> name_length line = length line then
          config_fail ARBOR_CONFIG_DIAGNOSTIC_SOURCE_SYNTAX ARBOR_CONFIG_SOURCE_FILE (of_nat ordinal) (of_nat cursor)
            CONFIG_NA config_invalid
        else Inr (Some (setting document ordinal cursor line)))"
proof -
  define line where "line = line_at (span_bytes m document) cursor"
  note bytes = line_span_bytes [OF assms, folded line_def]
  have empty: "(of_nat (length line) :: u64) = 0 \<longleftrightarrow> length line = 0" 
    using unat_eq_zero [of "of_nat (length line) :: u64"] unfolding bytes(2) by blast
  show ?thesis
  proof (cases "is_setting line \<and> name_length line \<noteq> 0 \<and> name_length line \<noteq> length line")
    case True
    have "name_length line \<le> length line" by (rule length_takeWhile_le)
    then have "name_length line < length line" using True by linarith
    then have "of_nat (length line) - of_nat (name_length line) - (1 :: u64) = of_nat (length line - name_length line - 1)"
      by (rule value_length)
    then show ?thesis using True empty
      by (simp add: config_assignment_from_file_def line_def [symmetric] Let_def bytes is_setting_def setting_def)
  next
    case False
    then show ?thesis using empty
      by (auto simp: config_assignment_from_file_def line_def [symmetric] Let_def bytes is_setting_def)
  qed
qed

text \<open>A line that is no setting, or sets a known key to a value of its kind.\<close>

definition setting_ok :: "config_heap \<Rightarrow> arbor_config_schema \<Rightarrow> arbor_span \<Rightarrow> nat \<Rightarrow> nat \<times> u8 list \<Rightarrow> bool" where
  "setting_ok h s document ordinal entry \<longleftrightarrow>
     (case entry of (offset, line) \<Rightarrow>
        is_setting line \<longrightarrow>
          0 < name_length line \<and> name_length line < length line \<and>
          (\<exists>key res. line_names h s document key entry \<and>
             config_parse_text_value h (descriptor_at h s key) (rec_value (setting document ordinal offset line))
               ARBOR_CONFIG_SOURCE_FILE ordinal (offset + name_length line + 1) key = Inr res))"

lemma line_names_unique: "line_names h s document key entry \<Longrightarrow> line_names h s document key' entry \<Longrightarrow> key = key'"
  by (auto simp: line_names_def split: prod.splits)

definition accepted_turn :: "config_heap \<Rightarrow> arbor_config_schema \<Rightarrow> arbor_span \<Rightarrow> (nat \<times> u8 list) list \<Rightarrow> nat \<Rightarrow> nat \<Rightarrow> bool" where
  "accepted_turn h s document pre ordinal cursor \<longleftrightarrow>
     (let bytes = text_of h document; entry = (cursor, line_at bytes cursor)
      in 0 \<notin> set (snd entry) \<and> \<not> lone_cr bytes cursor \<and> setting_ok h s document ordinal entry \<and>
         (\<forall>key. line_names h s document key entry \<longrightarrow> \<not> list_ex (line_names h s document key) pre))"

lemma validate_file_turn_eq:
  assumes cursor: "cursor < length (text_of h document)"
    and pre: "lines_at (text_of h document) 0 = pre @ lines_at (text_of h document) cursor" "\<And>entry. entry \<in> set pre \<Longrightarrow> fst entry < cursor"
  shows "\<exists>turn. validate_file_turn h s document cursor ordinal = Some turn \<and>
    (if accepted_turn h s document pre ordinal cursor then turn = Inr (next_line (text_of h document) cursor, ordinal + 1)
     else \<exists>failure. turn = Inl (Inl failure))"
proof -
  define line where "line = line_at (text_of h document) cursor"
  have seen: "config_file_seen_before h s document cursor key = Some (list_ex (line_names h s document key) pre)" for key
    unfolding config_file_seen_before_def seen_before_loop_eq [OF less_imp_le [OF cursor]] pre(1)
    using pre(2) lines_at_offsets [of _ _ cursor "text_of h document"] by (auto simp: list_ex_iff) fastforce
  note turn = record_next_at [OF cursor, of ordinal, unfolded Let_def, folded line_def]
    assignment_at [OF cursor, of ordinal, unfolded Let_def, folded line_def]
  have fst_snd: "rec_name_offset (setting document ordinal cursor line) = cursor"
    "rec_ordinal (setting document ordinal cursor line) = ordinal"
    "rec_value_offset (setting document ordinal cursor line) = cursor + name_length line + 1"
    "rec_name (setting document ordinal cursor line) = rec_name (setting document 0 cursor line)"
    by (simp_all add: setting_def)
  have names: "line_names h s document key (cursor, line) \<longleftrightarrow>
      is_setting line \<and> 0 < name_length line \<and> name_length line < length line \<and>
      config_find_descriptor h s CONFIG_NAMESPACE_FILE (rec_name (setting document 0 cursor line)) = Some key" for key
    by (simp add: line_names_def)
  have short: "name_length line \<noteq> length line \<longleftrightarrow> name_length line < length line"
    using length_takeWhile_le [of "\<lambda>b. b \<noteq> equals_sign" line] by linarith
  show ?thesis
  proof (cases "0 \<notin> set line \<and> \<not> lone_cr (text_of h document) cursor \<and> is_setting line \<and>
      name_length line \<noteq> 0 \<and> name_length line \<noteq> length line")
    case True
    then have turn_eq: "validate_file_turn h s document cursor ordinal =
        (case config_find_descriptor h s CONFIG_NAMESPACE_FILE (rec_name (setting document 0 cursor line)) of
           None \<Rightarrow> Some (Inl (config_fail ARBOR_CONFIG_DIAGNOSTIC_UNKNOWN_KEY ARBOR_CONFIG_SOURCE_FILE
                      (of_nat ordinal) (of_nat cursor) CONFIG_NA config_not_found))
         | Some key \<Rightarrow>
             if list_ex (line_names h s document key) pre then
               Some (Inl (config_fail ARBOR_CONFIG_DIAGNOSTIC_DUPLICATE_KEY ARBOR_CONFIG_SOURCE_FILE
                 (of_nat ordinal) (of_nat cursor) (of_nat key) config_invalid))
             else
               (case config_parse_text_value h (descriptor_at h s key) (rec_value (setting document ordinal cursor line))
                       ARBOR_CONFIG_SOURCE_FILE ordinal (cursor + name_length line + 1) key of
                  Inl failure \<Rightarrow> Some (Inl (Inl failure))
                | Inr _ \<Rightarrow> Some (Inr (next_line (text_of h document) cursor, ordinal + 1))))"
      by (simp add: validate_file_turn_def turn seen fst_snd split: option.split sum.split)
    show ?thesis
      using True short
      by (auto simp: turn_eq accepted_turn_def setting_ok_def Let_def line_def [symmetric] names config_fail_def
          split: option.splits sum.splits)
  next
    case False
    then show ?thesis
      by (auto simp: validate_file_turn_def turn accepted_turn_def setting_ok_def Let_def line_def [symmetric] names config_fail_def)
  qed
qed

text \<open>The loop accepts the lines from the cursor on when every turn does.\<close>

fun accepted_lines :: "config_heap \<Rightarrow> arbor_config_schema \<Rightarrow> arbor_span \<Rightarrow> (nat \<times> u8 list) list \<Rightarrow> nat \<Rightarrow> (nat \<times> u8 list) list \<Rightarrow> bool" where
  "accepted_lines h s document pre ordinal [] \<longleftrightarrow> True"
| "accepted_lines h s document pre ordinal (entry # entries) \<longleftrightarrow>
     setting_ok h s document ordinal entry \<and>
     (\<forall>key. line_names h s document key entry \<longrightarrow> \<not> list_ex (line_names h s document key) pre) \<and>
     accepted_lines h s document (pre @ [entry]) (ordinal + 1) entries"

lemma validate_file_loop_eq:
  assumes "lines_at (text_of h document) 0 = pre @ lines_at (text_of h document) cursor" "\<And>entry. entry \<in> set pre \<Longrightarrow> fst entry < cursor"
  shows "\<exists>result. validate_file_loop h s document cursor ordinal = Some result \<and>
    (result = Inr () \<longleftrightarrow>
       text_ok (drop cursor (text_of h document)) \<and>
       accepted_lines h s document pre ordinal (lines_at (text_of h document) cursor))"
  using assms
proof (induction "length (text_of h document) - cursor" arbitrary: cursor pre ordinal rule: less_induct)
  case less
  let ?bytes = "text_of h document"
  show ?case
  proof (cases "cursor < length ?bytes")
    case True
    let ?next = "next_line ?bytes cursor" and ?entry = "(cursor, line_at ?bytes cursor)"
    obtain turn where turn: "validate_file_turn h s document cursor ordinal = Some turn"
      "if accepted_turn h s document pre ordinal cursor then turn = Inr (?next, ordinal + 1) else \<exists>failure. turn = Inl (Inl failure)"
      using validate_file_turn_eq [OF True less.prems] by blast
    have accepted: "text_ok (drop cursor ?bytes) \<and> accepted_lines h s document pre ordinal (lines_at ?bytes cursor) \<longleftrightarrow>
        accepted_turn h s document pre ordinal cursor \<and> text_ok (drop ?next ?bytes) \<and>
        accepted_lines h s document (pre @ [?entry]) (ordinal + 1) (lines_at ?bytes ?next)"
      unfolding text_ok_step [OF True] lines_at_step(1) [OF True] by (auto simp: accepted_turn_def Let_def)
    show ?thesis
    proof (cases "accepted_turn h s document pre ordinal cursor")
      case ok: True
      then have "validate_file_loop h s document cursor ordinal = validate_file_loop h s document ?next (ordinal + 1)"
        using turn by (subst validate_file_loop.simps) simp
      moreover have "lines_at ?bytes 0 = (pre @ [?entry]) @ lines_at ?bytes ?next"
        using less.prems(1) lines_at_step(1) [OF True] by simp
      moreover have "fst entry < ?next" if "entry \<in> set (pre @ [?entry])" for entry
        using that less.prems(2) [of entry] lines_at_step(2) [OF True] by auto
      moreover have "length ?bytes - ?next < length ?bytes - cursor" using True lines_at_step(2) [OF True] by simp
      ultimately show ?thesis
        using less.hyps [of ?next "pre @ [?entry]" "ordinal + 1"] ok unfolding accepted by simp
    next
      case False
      then obtain failure where "turn = Inl (Inl failure)" using turn(2) by auto
      then have "validate_file_loop h s document cursor ordinal = Some (Inl failure)"
        using turn(1) by (subst validate_file_loop.simps) simp
      then show ?thesis unfolding accepted using False by simp
    qed
  next
    case False
    then show ?thesis
      by (subst validate_file_loop.simps) (simp add: validate_file_turn_def record_next_end)
  qed
qed

text \<open>Every line is well formed, and no key is set twice.\<close>

definition settings_ok :: "config_heap \<Rightarrow> arbor_config_schema \<Rightarrow> arbor_span \<Rightarrow> (nat \<times> u8 list) list \<Rightarrow> bool" where
  "settings_ok h s document entries \<longleftrightarrow>
     (\<forall>i < length entries. setting_ok h s document i (entries ! i)) \<and>
     (\<forall>key. \<forall>j < length entries. \<forall>i < j. \<not> (line_names h s document key (entries ! i) \<and> line_names h s document key (entries ! j)))"

lemma accepted_lines_iff:
  "accepted_lines h s document pre ordinal entries \<longleftrightarrow>
     (\<forall>i < length entries. setting_ok h s document (ordinal + i) (entries ! i)) \<and>
     (\<forall>key. \<forall>j < length entries. line_names h s document key (entries ! j) \<longrightarrow>
        \<not> list_ex (line_names h s document key) (pre @ take j entries))"
proof (induction entries arbitrary: pre ordinal)
  case (Cons entry entries)
  show ?case unfolding accepted_lines.simps Cons.IH by (auto simp: All_less_Suc2)
qed simp

lemma config_validate_file_iff:
  "\<exists>result. config_validate_file h s document = Some result \<and>
     (result = Inr () \<longleftrightarrow>
        object_span_valid (span_data document) (span_length document) \<and> text_ok (text_of h document) \<and>
        settings_ok h s document (doc_lines 0 (text_of h document)))"
proof (cases "config_range_make (span_data document) (span_length document) = None")
  case False
  have "list_ex (line_names h s document key) (take j entries) \<longleftrightarrow> (\<exists>i < j. line_names h s document key (entries ! i))"
    if "j < length entries" for key j entries
    using that by (auto simp: list_ex_length)
  then have "accepted_lines h s document [] 0 entries \<longleftrightarrow> settings_ok h s document entries" for entries
    unfolding accepted_lines_iff settings_ok_def by auto
  moreover obtain result where "validate_file_loop h s document 0 0 = Some result"
    "result = Inr () \<longleftrightarrow> text_ok (text_of h document) \<and> accepted_lines h s document [] 0 (doc_lines 0 (text_of h document))"
    using validate_file_loop_eq [of h document "[]" 0 s 0] by auto
  moreover obtain r where "config_range_make (span_data document) (span_length document) = Some r" using False by auto
  ultimately show ?thesis
    by (intro exI [of _ result]) (simp add: config_validate_file_def config_range_make_iff [symmetric])
next
  case True
  then show ?thesis
    unfolding config_range_make_iff [symmetric] by (simp add: config_validate_file_def config_fail_def)
qed

lemma config_validate_file_accepts:
  "config_validate_file h s document = Some (Inr ()) \<longleftrightarrow>
     object_span_valid (span_data document) (span_length document) \<and> text_ok (text_of h document) \<and>
     settings_ok h s document (doc_lines 0 (text_of h document))"
proof -
  obtain result where r: "config_validate_file h s document = Some result"
    "result = Inr () \<longleftrightarrow> object_span_valid (span_data document) (span_length document) \<and>
      text_ok (text_of h document) \<and> settings_ok h s document (doc_lines 0 (text_of h document))"
    using config_validate_file_iff [of h s document] by blast
  show ?thesis unfolding r(1) option.inject by (rule r(2))
qed

section \<open>Resolution from a file\<close>

text \<open>The line that sets a key.\<close>

definition file_setting :: "config_heap \<Rightarrow> arbor_config_schema \<Rightarrow> arbor_span \<Rightarrow> nat \<Rightarrow> config_record option" where
  "file_setting h s document key =
     (let entries = doc_lines 0 (text_of h document)
      in map_option (\<lambda>i. setting document i (fst (entries ! i)) (snd (entries ! i)))
           (find (\<lambda>i. line_names h s document key (entries ! i)) [0..<length entries]))"

lemma resolve_file_turn_eq:
  assumes cursor: "cursor < length (text_of h document)"
    and "text_ok (drop cursor (text_of h document))"
    and ok: "setting_ok h s document ordinal (cursor, line_at (text_of h document) cursor)"
  shows "resolve_file_turn h s document key cursor ordinal resolution =
    (let line = line_at (text_of h document) cursor; rec = setting document ordinal cursor line
     in if line_names h s document key (cursor, line) then
          (case config_parse_text_value h (descriptor_at h s key) (rec_value rec) ARBOR_CONFIG_SOURCE_FILE ordinal
                  (rec_value_offset rec) key of
             Inl failure \<Rightarrow> Inl (Inl failure)
           | Inr parsed \<Rightarrow> Inr (next_line (text_of h document) cursor, ordinal + 1, parsed))
        else Inr (next_line (text_of h document) cursor, ordinal + 1, resolution))"
proof -
  define line where "line = line_at (text_of h document) cursor"
  note turn = record_next_at [OF cursor, of ordinal, unfolded Let_def, folded line_def]
    assignment_at [OF cursor, of ordinal, unfolded Let_def, folded line_def]
  have plain: "0 \<notin> set line" "\<not> lone_cr (text_of h document) cursor"
    using assms(2) text_ok_step [OF cursor] by (simp_all add: line_def)
  have names: "line_names h s document k (cursor, line) \<longleftrightarrow>
      is_setting line \<and> 0 < name_length line \<and> name_length line < length line \<and>
      config_find_descriptor h s CONFIG_NAMESPACE_FILE (rec_name (setting document ordinal cursor line)) = Some k" for k
    by (simp add: line_names_def setting_def)
  have ok': "is_setting line \<Longrightarrow> name_length line \<noteq> 0 \<and> name_length line < length line"
    using ok by (auto simp: setting_ok_def line_def)
  have "rec_ordinal (setting document ordinal cursor line) = ordinal" by (simp add: setting_def)
  then show ?thesis
    using plain ok' by (cases "is_setting line")
      (auto simp: resolve_file_turn_def turn names line_def [symmetric] Let_def split: sum.split)
qed

fun setting_from :: "config_heap \<Rightarrow> arbor_config_schema \<Rightarrow> arbor_span \<Rightarrow> nat \<Rightarrow> nat \<Rightarrow> (nat \<times> u8 list) list \<Rightarrow> config_record option" where
  "setting_from h s document key ordinal [] = None"
| "setting_from h s document key ordinal (entry # entries) =
     (if line_names h s document key entry then Some (setting document ordinal (fst entry) (snd entry))
      else setting_from h s document key (ordinal + 1) entries)"

lemma setting_from_find:
  "setting_from h s document key ordinal entries =
     map_option (\<lambda>i. setting document (ordinal + i) (fst (entries ! i)) (snd (entries ! i)))
       (find (\<lambda>i. line_names h s document key (entries ! i)) [0..<length entries])"
proof (induction entries arbitrary: ordinal)
  case (Cons entry entries)
  have shift: "find P (map Suc is) = map_option Suc (find (\<lambda>i. P (Suc i)) is)" for P "is"
    by (induction "is") auto
  have "[0..<length (entry # entries)] = 0 # map Suc [0..<length entries]" by (simp add: map_Suc_upt upt_conv_Cons del: upt_Suc)
  then show ?case using Cons.IH [of "ordinal + 1"] by (simp add: shift option.map_comp comp_def del: upt_Suc)
qed simp

fun settings_from :: "config_heap \<Rightarrow> arbor_config_schema \<Rightarrow> arbor_span \<Rightarrow> nat \<Rightarrow> (nat \<times> u8 list) list \<Rightarrow> bool" where
  "settings_from h s document ordinal [] \<longleftrightarrow> True"
| "settings_from h s document ordinal (entry # entries) \<longleftrightarrow>
     setting_ok h s document ordinal entry \<and>
     (\<forall>key. line_names h s document key entry \<longrightarrow> \<not> list_ex (line_names h s document key) entries) \<and>
     settings_from h s document (ordinal + 1) entries"

lemma pairs_Suc:
  "(\<forall>j < Suc n. \<forall>i < j. R i j) \<longleftrightarrow> (\<forall>j < n. R 0 (Suc j)) \<and> (\<forall>j < n. \<forall>i < j. R (Suc i) (Suc j))"
  by (auto simp: All_less_Suc2)

lemma settings_from_iff:
  "settings_from h s document ordinal entries \<longleftrightarrow>
     (\<forall>i < length entries. setting_ok h s document (ordinal + i) (entries ! i)) \<and>
     (\<forall>key. \<forall>j < length entries. \<forall>i < j. \<not> (line_names h s document key (entries ! i) \<and> line_names h s document key (entries ! j)))"
proof (induction entries arbitrary: ordinal)
  case (Cons entry entries)
  have "(\<forall>j < length (entry # entries). \<forall>i < j. \<not> (P ((entry # entries) ! i) \<and> P ((entry # entries) ! j))) \<longleftrightarrow>
      (P entry \<longrightarrow> \<not> list_ex P entries) \<and> (\<forall>j < length entries. \<forall>i < j. \<not> (P (entries ! i) \<and> P (entries ! j)))" for P
    unfolding length_Cons pairs_Suc nth_Cons_0 nth_Cons_Suc list_ex_length by blast
  note pairs = this
  have "(\<forall>i < length (entry # entries). setting_ok h s document (ordinal + i) ((entry # entries) ! i)) \<longleftrightarrow>
      setting_ok h s document ordinal entry \<and> (\<forall>i < length entries. setting_ok h s document (ordinal + 1 + i) (entries ! i))"
    by (simp add: All_less_Suc2)
  then show ?case unfolding settings_from.simps Cons.IH pairs by blast
qed simp

lemma setting_from_none: "\<not> list_ex (line_names h s document key) entries \<Longrightarrow> setting_from h s document key ordinal entries = None"
  by (induction entries arbitrary: ordinal) auto

lemma setting_ok_named:
  assumes "setting_ok h s document ordinal (offset, line)" and "line_names h s document key (offset, line)"
  shows "\<exists>res. config_parse_text_value h (descriptor_at h s key) (rec_value (setting document ordinal offset line))
    ARBOR_CONFIG_SOURCE_FILE ordinal (offset + name_length line + 1) key = Inr res"
proof -
  have "is_setting line" using assms(2) by (simp add: line_names_def)
  then show ?thesis using assms line_names_unique [OF assms(2)] unfolding setting_ok_def prod.case by blast
qed

lemma resolve_file_loop_eq:
  assumes "text_ok (drop cursor (text_of h document))" and "settings_from h s document ordinal (lines_at (text_of h document) cursor)"
  shows "resolve_file_loop h s document key cursor ordinal resolution =
    Some (case setting_from h s document key ordinal (lines_at (text_of h document) cursor) of
            None \<Rightarrow> Inr resolution
          | Some rec \<Rightarrow>
              config_parse_text_value h (descriptor_at h s key) (rec_value rec) ARBOR_CONFIG_SOURCE_FILE (rec_ordinal rec)
                (rec_value_offset rec) key)"
  using assms
proof (induction "length (text_of h document) - cursor" arbitrary: cursor ordinal resolution rule: less_induct)
  case less
  let ?bytes = "text_of h document"
  show ?case
  proof (cases "cursor < length ?bytes")
    case True
    let ?next = "next_line ?bytes cursor" and ?entry = "(cursor, line_at ?bytes cursor)"
    let ?rec = "setting document ordinal cursor (line_at ?bytes cursor)"
    have "length ?bytes - ?next < length ?bytes - cursor" using True lines_at_step(2) [OF True] by simp
    moreover have "text_ok (drop ?next ?bytes)" using less.prems(1) text_ok_step [OF True] by simp
    moreover have rest: "settings_from h s document (ordinal + 1) (lines_at ?bytes ?next)"
      and ok: "setting_ok h s document ordinal ?entry"
      using less.prems(2) unfolding lines_at_step(1) [OF True] by simp_all
    ultimately have IH: "resolve_file_loop h s document key ?next (ordinal + 1) res =
        Some (case setting_from h s document key (ordinal + 1) (lines_at ?bytes ?next) of
            None \<Rightarrow> Inr res
          | Some rec \<Rightarrow> config_parse_text_value h (descriptor_at h s key) (rec_value rec) ARBOR_CONFIG_SOURCE_FILE (rec_ordinal rec)
                (rec_value_offset rec) key)" for res
      using less.hyps by blast
    note turn = resolve_file_turn_eq [OF True less.prems(1) ok, of key resolution]
    show ?thesis
    proof (cases "line_names h s document key ?entry")
      case named: True
      then obtain res where "config_parse_text_value h (descriptor_at h s key) (rec_value ?rec) ARBOR_CONFIG_SOURCE_FILE ordinal
          (cursor + name_length (line_at ?bytes cursor) + 1) key = Inr res"
        using setting_ok_named [OF ok named] by blast
      then have parsed: "config_parse_text_value h (descriptor_at h s key) (rec_value ?rec) ARBOR_CONFIG_SOURCE_FILE ordinal
          (rec_value_offset ?rec) key = Inr res" by (simp add: setting_def)
      have none: "setting_from h s document key (ordinal + 1) (lines_at ?bytes ?next) = None"
        using less.prems(2) named unfolding lines_at_step(1) [OF True] by (intro setting_from_none) simp
      have "resolve_file_loop h s document key cursor ordinal resolution = Some (Inr res)"
        using turn named parsed IH [of res] none by (subst resolve_file_loop.simps) (simp add: Let_def)
      moreover have "rec_ordinal ?rec = ordinal" by (simp add: setting_def)
      ultimately show ?thesis unfolding lines_at_step(1) [OF True] using named parsed by simp
    next
      case False
      then show ?thesis unfolding lines_at_step(1) [OF True]
        using turn IH [of resolution] by (subst resolve_file_loop.simps) (simp add: Let_def)
    qed
  next
    case False
    then show ?thesis by (subst resolve_file_loop.simps) (simp add: resolve_file_turn_def record_next_end)
  qed
qed

text \<open>In an accepted file a descriptor is resolved to the one setting that names it.\<close>

lemma resolve_file:
  assumes "config_validate_file h s document = Some (Inr ())"
  shows "resolve_file_loop h s document key 0 0 resolution =
    Some (case file_setting h s document key of
            None \<Rightarrow> Inr resolution
          | Some rec \<Rightarrow>
              config_parse_text_value h (descriptor_at h s key) (rec_value rec) ARBOR_CONFIG_SOURCE_FILE (rec_ordinal rec)
                (rec_value_offset rec) key)"
proof -
  have ok: "text_ok (text_of h document)" "settings_ok h s document (doc_lines 0 (text_of h document))"
    using assms unfolding config_validate_file_accepts by blast+
  have "settings_from h s document 0 (doc_lines 0 (text_of h document))"
    using ok(2) by (simp add: settings_from_iff settings_ok_def)
  then show ?thesis
    using resolve_file_loop_eq [of 0 h document s 0 key resolution] ok(1)
    by (simp add: file_setting_def Let_def setting_from_find [of h s document key 0])
qed

end
