(* ===== verification/Config_Precedence.thy ===== *)
theory Config_Precedence
  imports Config_Lines
begin

text \<open>
  The argument vectors of \<open>src/c/config.c\<close> and the order of the four sources: once the sources are accepted, a
  descriptor takes its value from the command line, else from the environment, else from the file, else from its default.
\<close>

section \<open>Argument vectors\<close>

definition vector_record :: "config_heap \<Rightarrow> addr \<Rightarrow> arbor_config_source \<Rightarrow> nat \<Rightarrow> config_failure + config_record" where
  "vector_record h entries source i = config_vector_record (heap_bytes h) (entry_at h entries i) i source"

definition entry_names :: "config_heap \<Rightarrow> arbor_config_schema \<Rightarrow> addr \<Rightarrow> arbor_config_source \<Rightarrow> nat \<Rightarrow> nat \<Rightarrow> bool" where
  "entry_names h s entries source key i \<longleftrightarrow>
     (case vector_record h entries source i of
        Inl _ \<Rightarrow> False
      | Inr rec \<Rightarrow> config_find_descriptor h s (vector_namespace source) (rec_name rec) = Some key)"

definition entry_ok :: "config_heap \<Rightarrow> arbor_config_schema \<Rightarrow> addr \<Rightarrow> arbor_config_source \<Rightarrow> nat \<Rightarrow> bool" where
  "entry_ok h s entries source i \<longleftrightarrow>
     (\<exists>rec key res. vector_record h entries source i = Inr rec \<and>
        config_find_descriptor h s (vector_namespace source) (rec_name rec) = Some key \<and>
        config_parse_text_value h (descriptor_at h s key) (rec_value rec) source i (rec_value_offset rec) key = Inr res)"

lemma vector_record_name:
  assumes "vector_record h entries source i = Inr rec"
  shows "rec_name rec =
      (let entry = entry_at h entries i; start = vector_name_start source
       in \<lparr>span_data = span_data entry + of_nat start,
           span_length = of_nat (start + length (takeWhile (\<lambda>b. b \<noteq> equals_sign) (drop start (text_of h entry))) - start)\<rparr>)"
    and "rec_ordinal rec = i"
  using assms by (auto simp: vector_record_def config_vector_record_def config_fail_def Let_def split: if_splits sum.splits)

lemma vector_seen_before_iff:
  assumes "\<forall>i < stop. entry_ok h s entries source i"
  shows "config_vector_seen_before h s entries stop source key \<longleftrightarrow> (\<exists>i < stop. entry_names h s entries source key i)"
proof -
  have "entry_names h s entries source key i \<longleftrightarrow>
      (let entry = entry_at h entries i; start = vector_name_start source;
           equals = start + length (takeWhile (\<lambda>b. b \<noteq> equals_sign) (drop start (text_of h entry)))
       in config_find_descriptor h s (vector_namespace source)
            \<lparr>span_data = span_data entry + of_nat start, span_length = of_nat (equals - start)\<rparr> = Some key)" if i: "i < stop" for i
  proof -
    obtain rec where "vector_record h entries source i = Inr rec" using assms i by (auto simp: entry_ok_def)
    then show ?thesis using vector_record_name(1) by (simp add: entry_names_def Let_def)
  qed
  then show ?thesis by (auto simp: config_vector_seen_before_def)
qed

lemma for_each_iff: "for_each step xs = Inr () \<longleftrightarrow> (\<forall>x \<in> set xs. step x = Inr ())"
  by (induction xs) (auto split: sum.splits)

lemma validate_vector_entry_iff:
  "validate_vector_entry h s entries source i = Inr () \<longleftrightarrow>
     entry_ok h s entries source i \<and>
     (\<forall>key. entry_names h s entries source key i \<longrightarrow> \<not> config_vector_seen_before h s entries i source key)"
  by (auto simp: validate_vector_entry_def entry_ok_def entry_names_def vector_record_def [symmetric] config_fail_def
      split: sum.splits option.splits)

text \<open>Every entry is well formed, and no key is set twice.\<close>

definition entries_ok :: "config_heap \<Rightarrow> arbor_config_schema \<Rightarrow> addr \<Rightarrow> u64 \<Rightarrow> arbor_config_source \<Rightarrow> bool" where
  "entries_ok h s entries count source \<longleftrightarrow>
     (\<forall>i < unat count. entry_ok h s entries source i) \<and>
     (\<forall>key. \<forall>j < unat count. \<forall>i < j. \<not> (entry_names h s entries source key i \<and> entry_names h s entries source key j))"

lemma config_validate_vector_accepts:
  "config_validate_vector h s entries count source = Inr () \<longleftrightarrow>
     config_array_range entries count SIZEOF_SPAN \<noteq> None \<and> entries_ok h s entries count source"
proof -
  have "(\<forall>i < n. validate_vector_entry h s entries source i = Inr ()) \<longleftrightarrow>
      (\<forall>i < n. entry_ok h s entries source i) \<and>
      (\<forall>key. \<forall>j < n. \<forall>i < j. \<not> (entry_names h s entries source key i \<and> entry_names h s entries source key j))" for n
  proof (cases "\<forall>i < n. entry_ok h s entries source i")
    case True
    then have "config_vector_seen_before h s entries j source key \<longleftrightarrow> (\<exists>i < j. entry_names h s entries source key i)"
      if "j < n" for j key
      using that by (intro vector_seen_before_iff) auto
    then show ?thesis unfolding validate_vector_entry_iff using True by blast
  next
    case False
    then show ?thesis unfolding validate_vector_entry_iff by blast
  qed
  from this [of "unat count"]
  have "(\<forall>i < unat count. validate_vector_entry h s entries source i = Inr ()) \<longleftrightarrow> entries_ok h s entries count source"
    unfolding entries_ok_def .
  moreover have "for_each (validate_vector_entry h s entries source) [0..<unat count] = Inr () \<longleftrightarrow>
      (\<forall>i < unat count. validate_vector_entry h s entries source i = Inr ())"
    unfolding for_each_iff by auto
  ultimately show ?thesis
    by (cases "config_array_range entries count SIZEOF_SPAN") (simp_all add: config_validate_vector_def config_fail_def)
qed

definition vector_setting ::
    "config_heap \<Rightarrow> arbor_config_schema \<Rightarrow> addr \<Rightarrow> u64 \<Rightarrow> arbor_config_source \<Rightarrow> nat \<Rightarrow> config_record option" where
  "vector_setting h s entries count source key =
     (case find (entry_names h s entries source key) [0..<unat count] of
        None \<Rightarrow> None
      | Some i \<Rightarrow> (case vector_record h entries source i of Inl _ \<Rightarrow> None | Inr rec \<Rightarrow> Some rec))"

lemma resolve_vector_loop_eq:
  assumes "\<forall>i \<in> set items. entry_ok h s entries source i" and "distinct items"
    and "\<forall>i \<in> set items. \<forall>j \<in> set items. entry_names h s entries source key i \<longrightarrow> entry_names h s entries source key j \<longrightarrow> i = j"
  shows "resolve_vector_loop h s entries source key items resolution =
    (case find (entry_names h s entries source key) items of
       None \<Rightarrow> Inr resolution
     | Some i \<Rightarrow>
         (case vector_record h entries source i of
            Inl failure \<Rightarrow> Inl failure
          | Inr rec \<Rightarrow>
              config_parse_text_value h (descriptor_at h s key) (rec_value rec) source i (rec_value_offset rec) key))"
  using assms
proof (induction items arbitrary: resolution)
  case (Cons item items)
  obtain rec key' res where item: "vector_record h entries source item = Inr rec"
      "config_find_descriptor h s (vector_namespace source) (rec_name rec) = Some key'"
      "config_parse_text_value h (descriptor_at h s key') (rec_value rec) source item (rec_value_offset rec) key' = Inr res"
    using Cons.prems(1) by (auto simp: entry_ok_def)
  have IH: "resolve_vector_loop h s entries source key items r =
    (case find (entry_names h s entries source key) items of
       None \<Rightarrow> Inr r
     | Some i \<Rightarrow>
         (case vector_record h entries source i of
            Inl failure \<Rightarrow> Inl failure
          | Inr rec \<Rightarrow>
              config_parse_text_value h (descriptor_at h s key) (rec_value rec) source i (rec_value_offset rec) key))" for r
    using Cons by auto
  show ?case
  proof (cases "key' = key")
    case True
    then have named: "entry_names h s entries source key item" using item by (simp add: entry_names_def)
    then have "find (entry_names h s entries source key) items = None"
      using Cons.prems(2,3) by (auto simp: find_None_iff)
    then show ?thesis using item True named IH [of res] by (simp add: vector_record_def [symmetric])
  next
    case False
    then have "\<not> entry_names h s entries source key item" using item by (simp add: entry_names_def)
    then show ?thesis using item False IH by (simp add: vector_record_def [symmetric])
  qed
qed simp

lemma resolve_vector:
  assumes "config_validate_vector h s entries count source = Inr ()"
  shows "resolve_vector_loop h s entries source key [0..<unat count] resolution =
    (case vector_setting h s entries count source key of
       None \<Rightarrow> Inr resolution
     | Some rec \<Rightarrow>
         config_parse_text_value h (descriptor_at h s key) (rec_value rec) source (rec_ordinal rec) (rec_value_offset rec) key)"
proof -
  have ok: "entries_ok h s entries count source" using assms by (simp add: config_validate_vector_accepts)
  then have "entry_names h s entries source key i \<Longrightarrow> entry_names h s entries source key j \<Longrightarrow> i = j"
    if "i < unat count" "j < unat count" for i j
    using that unfolding entries_ok_def by (metis linorder_neqE_nat)
  then have "resolve_vector_loop h s entries source key [0..<unat count] resolution =
    (case find (entry_names h s entries source key) [0..<unat count] of
       None \<Rightarrow> Inr resolution
     | Some i \<Rightarrow>
         (case vector_record h entries source i of
            Inl failure \<Rightarrow> Inl failure
          | Inr rec \<Rightarrow>
              config_parse_text_value h (descriptor_at h s key) (rec_value rec) source i (rec_value_offset rec) key))"
    using ok by (intro resolve_vector_loop_eq) (auto simp: entries_ok_def)
  moreover have "\<exists>rec. vector_record h entries source i = Inr rec \<and> rec_ordinal rec = i"
    if "find (entry_names h s entries source key) [0..<unat count] = Some i" for i
  proof -
    have "i < unat count" using that by (auto simp: find_Some_iff)
    then obtain rec where "vector_record h entries source i = Inr rec" using ok by (auto simp: entries_ok_def entry_ok_def)
    then show ?thesis using vector_record_name(2) by blast
  qed
  ultimately show ?thesis by (auto simp: vector_setting_def split: option.split)
qed

section \<open>The four sources\<close>

lemma config_validate_sources_accepts:
  "config_validate_sources h s sources = Some (Inr ()) \<longleftrightarrow>
     (let src = heap_sources h sources
      in object_span_valid sources SIZEOF_SOURCES \<and> config_validate_file h s (file_document src) = Some (Inr ()) \<and>
         config_validate_vector h s (environment_entries src) (environment_count src) ARBOR_CONFIG_SOURCE_ENVIRONMENT = Inr () \<and>
         config_validate_vector h s (command_line_entries src) (command_line_count src) ARBOR_CONFIG_SOURCE_COMMAND_LINE = Inr ())"
  unfolding config_range_make_iff [symmetric]
  by (simp add: config_validate_sources_def config_fail_def Let_def split: option.split sum.split)

text \<open>The setting of a key in a source.\<close>

definition source_setting ::
    "config_heap \<Rightarrow> arbor_config_schema \<Rightarrow> arbor_config_sources \<Rightarrow> arbor_config_source \<Rightarrow> nat \<Rightarrow> config_record option" where
  "source_setting h s src source key =
     (case source of
        ARBOR_CONFIG_SOURCE_FILE \<Rightarrow> file_setting h s (file_document src) key
      | ARBOR_CONFIG_SOURCE_ENVIRONMENT \<Rightarrow> vector_setting h s (environment_entries src) (environment_count src) source key
      | ARBOR_CONFIG_SOURCE_COMMAND_LINE \<Rightarrow> vector_setting h s (command_line_entries src) (command_line_count src) source key
      | _ \<Rightarrow> None)"

text \<open>The value from the first source of a list that sets the key.\<close>

fun resolved_from ::
    "config_heap \<Rightarrow> arbor_config_schema \<Rightarrow> arbor_config_sources \<Rightarrow> nat \<Rightarrow> arbor_config_source list \<Rightarrow> config_failure + config_resolution" where
  "resolved_from h s src key [] =
     (if desc_flags (descriptor_at h s key) AND ARBOR_CONFIG_DESCRIPTOR_HAS_DEFAULT \<noteq> 0
      then Inr (default_resolution (descriptor_at h s key) key)
      else config_fail ARBOR_CONFIG_DIAGNOSTIC_REQUIRED ARBOR_CONFIG_SOURCE_NONE CONFIG_NA CONFIG_NA (of_nat key) config_not_found)"
| "resolved_from h s src key (source # rest) =
     (case source_setting h s src source key of
        Some rec \<Rightarrow>
          config_parse_text_value h (descriptor_at h s key) (rec_value rec) source (rec_ordinal rec) (rec_value_offset rec) key
      | None \<Rightarrow> resolved_from h s src key rest)"

lemma parsed_present: "config_parse_text_value h d text source ordinal offset key = Inr res \<Longrightarrow> res_present res"
  by (auto simp: config_parse_text_value_def config_fail_def Let_def split: arbor_config_kind.splits option.splits sum.splits)

lemma file_setting_parses:
  assumes "config_validate_file h s document = Some (Inr ())" and "file_setting h s document key = Some rec"
  shows "\<exists>res. config_parse_text_value h (descriptor_at h s key) (rec_value rec) ARBOR_CONFIG_SOURCE_FILE (rec_ordinal rec)
    (rec_value_offset rec) key = Inr res"
proof -
  let ?entries = "doc_lines 0 (text_of h document)"
  obtain i where i: "i < length ?entries" "line_names h s document key (?entries ! i)"
    "rec = setting document i (fst (?entries ! i)) (snd (?entries ! i))"
    using assms(2) by (auto simp: file_setting_def Let_def find_Some_iff)
  have "setting_ok h s document i (fst (?entries ! i), snd (?entries ! i))"
    using assms(1) i(1) by (simp add: config_validate_file_accepts settings_ok_def)
  then show ?thesis using setting_ok_named [of h s document i "fst (?entries ! i)" "snd (?entries ! i)" key] i(2,3)
    by (simp add: setting_def)
qed

lemma vector_setting_parses:
  assumes "config_validate_vector h s entries count source = Inr ()" and "vector_setting h s entries count source key = Some rec"
  shows "\<exists>res. config_parse_text_value h (descriptor_at h s key) (rec_value rec) source (rec_ordinal rec)
    (rec_value_offset rec) key = Inr res"
proof -
  obtain i where i: "find (entry_names h s entries source key) [0..<unat count] = Some i" "vector_record h entries source i = Inr rec"
    using assms(2) by (auto simp: vector_setting_def split: option.splits sum.splits)
  then have "i < unat count" "entry_names h s entries source key i" by (auto simp: find_Some_iff)
  moreover from this have "entry_ok h s entries source i" using assms(1) by (simp add: config_validate_vector_accepts entries_ok_def)
  ultimately show ?thesis using i(2) vector_record_name(2) [OF i(2)] by (auto simp: entry_ok_def entry_names_def)
qed

lemma resolve_descriptor_order:
  assumes "config_validate_sources h s sources = Some (Inr ())"
  shows "config_resolve_descriptor h s (heap_sources h sources) key =
    Some (resolved_from h s (heap_sources h sources) key
      [ARBOR_CONFIG_SOURCE_COMMAND_LINE, ARBOR_CONFIG_SOURCE_ENVIRONMENT, ARBOR_CONFIG_SOURCE_FILE])"
proof -
  define src where "src = heap_sources h sources"
  let ?d = "descriptor_at h s key"
  let ?parse = "\<lambda>source rec. config_parse_text_value h ?d (rec_value rec) source (rec_ordinal rec) (rec_value_offset rec) key"
  have ok: "config_validate_file h s (file_document src) = Some (Inr ())"
      "config_validate_vector h s (environment_entries src) (environment_count src) ARBOR_CONFIG_SOURCE_ENVIRONMENT = Inr ()"
      "config_validate_vector h s (command_line_entries src) (command_line_count src) ARBOR_CONFIG_SOURCE_COMMAND_LINE = Inr ()"
    using assms by (simp_all add: config_validate_sources_accepts src_def Let_def)
  have parses: "\<exists>res. ?parse source rec = Inr res \<and> res_present res" if "source_setting h s src source key = Some rec" for source rec
  proof -
    have "\<exists>res. ?parse source rec = Inr res"
      using that file_setting_parses [OF ok(1)] vector_setting_parses [OF ok(2)] vector_setting_parses [OF ok(3)]
      by (auto simp: source_setting_def split: arbor_config_source.splits)
    then show ?thesis using parsed_present by blast
  qed
  have default: "res_present (default_resolution ?d key) \<longleftrightarrow> desc_flags ?d AND ARBOR_CONFIG_DESCRIPTOR_HAS_DEFAULT \<noteq> 0"
    by (simp add: default_resolution_def config_resolution_zero_def Let_def)
  show ?thesis
    unfolding src_def [symmetric]
    using parses [of ARBOR_CONFIG_SOURCE_FILE] parses [of ARBOR_CONFIG_SOURCE_ENVIRONMENT] parses [of ARBOR_CONFIG_SOURCE_COMMAND_LINE]
    by (auto simp: config_resolve_descriptor_def resolve_file [OF ok(1)] resolve_vector [OF ok(2)] resolve_vector [OF ok(3)]
        source_setting_def default config_fail_def split: option.splits sum.splits)
qed

end
