(* ===== verification/Config_Frame.thy ===== *)
theory Config_Frame
  imports Config_Prepare Config_Precedence
begin

text \<open>
  What the configuration functions of \<open>src/c/config.c\<close> read: the objects of the schema and of the sources, and the
  bytes of their texts. Two heaps that agree on these give the same schema check and the same resolution.
\<close>

unbundle bit_operations_syntax

section \<open>The texts of the inputs\<close>

definition descriptor_texts :: "config_heap \<Rightarrow> arbor_config_descriptor \<Rightarrow> arbor_span list" where
  "descriptor_texts h d =
     map (config_descriptor_name d) config_namespaces @
     (if desc_kind d = ARBOR_CONFIG_KIND_UTF8 \<and> desc_flags d AND ARBOR_CONFIG_DESCRIPTOR_HAS_DEFAULT \<noteq> 0
      then [value_utf8 (desc_default_value d)] else []) @
     (if desc_kind d = ARBOR_CONFIG_KIND_ENUM
      then map (\<lambda>i. choice_name (choice_at h d i)) [0..<unat (desc_enum_choice_count d)] else [])"

definition input_texts :: "config_heap \<Rightarrow> arbor_config_schema \<Rightarrow> arbor_config_sources \<Rightarrow> arbor_span list" where
  "input_texts h s src =
     concat (map (\<lambda>i. descriptor_texts h (descriptor_at h s i)) [0..<unat (schema_descriptor_count s)]) @
     [file_document src] @
     map (entry_at h (environment_entries src)) [0..<unat (environment_count src)] @
     map (entry_at h (command_line_entries src)) [0..<unat (command_line_count src)]"

definition same_objects :: "config_heap \<Rightarrow> config_heap \<Rightarrow> bool" where
  "same_objects h h' \<longleftrightarrow>
     heap_span h' = heap_span h \<and> heap_choice h' = heap_choice h \<and> heap_descriptor h' = heap_descriptor h \<and>
     heap_schema h' = heap_schema h \<and> heap_sources h' = heap_sources h \<and> heap_storage h' = heap_storage h"

definition agree :: "config_heap \<Rightarrow> config_heap \<Rightarrow> arbor_config_schema \<Rightarrow> arbor_config_sources \<Rightarrow> bool" where
  "agree h h' s src \<longleftrightarrow> same_objects h h' \<and> (\<forall>t \<in> set (input_texts h s src). text_of h' t = text_of h t)"

lemma agree_refl: "agree h h s src"
  by (simp add: agree_def same_objects_def)

lemma same_objects_reads:
  assumes "same_objects h h'"
  shows "descriptor_at h' s i = descriptor_at h s i" "choice_at h' d i = choice_at h d i" "entry_at h' e i = entry_at h e i"
  using assms by (simp_all add: same_objects_def descriptor_at_def choice_at_def entry_at_def)

lemma agree_objects: "agree h h' s src \<Longrightarrow> same_objects h h'"
  by (simp add: agree_def)

lemma agree_texts: "agree h h' s src \<Longrightarrow> t \<in> set (input_texts h s src) \<Longrightarrow> text_of h' t = text_of h t"
  by (simp add: agree_def)

lemma in_input_texts:
  "i < unat (schema_descriptor_count s) \<Longrightarrow> t \<in> set (descriptor_texts h (descriptor_at h s i)) \<Longrightarrow> t \<in> set (input_texts h s src)"
  "file_document src \<in> set (input_texts h s src)"
  "i < unat (environment_count src) \<Longrightarrow> entry_at h (environment_entries src) i \<in> set (input_texts h s src)"
  "i < unat (command_line_count src) \<Longrightarrow> entry_at h (command_line_entries src) i \<in> set (input_texts h s src)"
  by (auto simp: input_texts_def)

lemma name_text: "config_descriptor_name d ns \<in> set (descriptor_texts h d)"
  by (cases ns) (simp_all add: descriptor_texts_def config_namespaces_def)

lemma choice_text:
  "desc_kind d = ARBOR_CONFIG_KIND_ENUM \<Longrightarrow> i < unat (desc_enum_choice_count d) \<Longrightarrow> choice_name (choice_at h d i) \<in> set (descriptor_texts h d)"
  by (auto simp: descriptor_texts_def)

lemma default_text:
  "desc_kind d = ARBOR_CONFIG_KIND_UTF8 \<Longrightarrow> desc_flags d AND ARBOR_CONFIG_DESCRIPTOR_HAS_DEFAULT \<noteq> 0 \<Longrightarrow>
     value_utf8 (desc_default_value d) \<in> set (descriptor_texts h d)"
  by (simp add: descriptor_texts_def)

section \<open>Agreeing heaps\<close>

lemma find_same: "(\<And>x. x \<in> set xs \<Longrightarrow> P x \<longleftrightarrow> Q x) \<Longrightarrow> find P xs = find Q xs"
  by (induction xs) auto

lemma find_descriptor_agree:
  assumes "agree h h' s src" and "text_of h' name = text_of h name"
  shows "config_find_descriptor h' s ns name = config_find_descriptor h s ns name"
  unfolding config_find_descriptor_def
proof (rule find_same)
  fix i assume "i \<in> set [0..<unat (schema_descriptor_count s)]"
  then have "text_of h' (config_descriptor_name (descriptor_at h s i) ns) = text_of h (config_descriptor_name (descriptor_at h s i) ns)"
    using agree_texts [OF assms(1) in_input_texts(1)] name_text by simp
  then show "config_span_equal (heap_bytes h') (config_descriptor_name (descriptor_at h' s i) ns) name \<longleftrightarrow>
      config_span_equal (heap_bytes h) (config_descriptor_name (descriptor_at h s i) ns) name"
    using assms(2) by (simp add: config_span_equal_def same_objects_reads [OF agree_objects [OF assms(1)]])
qed

lemma choice_agree:
  assumes "agree h h' s src" and "k < unat (schema_descriptor_count s)" and "desc_kind (descriptor_at h s k) = ARBOR_CONFIG_KIND_ENUM"
    and "i < unat (desc_enum_choice_count (descriptor_at h s k))"
  shows "text_of h' (choice_name (choice_at h (descriptor_at h s k) i)) = text_of h (choice_name (choice_at h (descriptor_at h s k) i))"
  using agree_texts [OF assms(1) in_input_texts(1) [OF assms(2) choice_text [OF assms(3,4)]]] .

lemma parse_agree:
  assumes "agree h h' s src" and "k < unat (schema_descriptor_count s)" and same: "text_of h' t = text_of h t"
  shows "config_parse_text_value h' (descriptor_at h s k) t source ordinal offset key =
    config_parse_text_value h (descriptor_at h s k) t source ordinal offset key"
proof -
  let ?d = "descriptor_at h s k"
  have "parse_enum h' ?d t = parse_enum h ?d t" if kind: "desc_kind ?d = ARBOR_CONFIG_KIND_ENUM"
  proof -
    have "find (\<lambda>i. config_span_equal (heap_bytes h') t (choice_name (choice_at h ?d i))) [0..<unat (desc_enum_choice_count ?d)] =
        find (\<lambda>i. config_span_equal (heap_bytes h) t (choice_name (choice_at h ?d i))) [0..<unat (desc_enum_choice_count ?d)]"
      by (rule find_same) (simp add: config_span_equal_def same choice_agree [OF assms(1,2) kind])
    then show ?thesis by (simp add: parse_enum_def same_objects_reads [OF agree_objects [OF assms(1)]])
  qed
  moreover have "parse_bool h' t = parse_bool h t" by (simp add: parse_bool_def config_span_literal_def same)
  moreover have "parse_utf8 h' ?d t = parse_utf8 h ?d t" by (simp add: parse_utf8_def config_utf8_valid_def same)
  ultimately show ?thesis
    by (simp add: config_parse_text_value_def same Let_def split: arbor_config_kind.split)
qed

lemma same_part:
  assumes "text_of h' t = text_of h t" and "i + n \<le> unat (span_length t)"
  shows "bytes_at (heap_bytes h') (span_data t + of_nat i) (of_nat n) = bytes_at (heap_bytes h) (span_data t + of_nat i) (of_nat n)"
proof -
  have "unat (of_nat n :: u64) = n" using assms(2) unat_u64_upper [of "span_length t"] by (intro unat_of_nat_u64) linarith
  then show ?thesis
    using assms bytes_at_part [of i "of_nat n" "span_length t" "heap_bytes h'" "span_data t"]
      bytes_at_part [of i "of_nat n" "span_length t" "heap_bytes h" "span_data t"] by simp
qed

lemma setting_parts:
  assumes "text_of h' document = text_of h document" and "offset + length line \<le> unat (span_length document)"
    and "name_length line < length line"
  shows "text_of h' (rec_name (setting document ordinal offset line)) = text_of h (rec_name (setting document ordinal offset line))"
    and "text_of h' (rec_value (setting document ordinal offset line)) = text_of h (rec_value (setting document ordinal offset line))"
  using same_part [OF assms(1), of offset "name_length line"]
    same_part [OF assms(1), of "offset + name_length line + 1" "length line - name_length line - 1"] assms(2,3)
  by (simp_all add: setting_def)

lemma resolve_file_turn_agree:
  assumes agree: "agree h h' s src" and key: "key < unat (schema_descriptor_count s)"
  shows "resolve_file_turn h' s (file_document src) key cursor ordinal resolution =
    resolve_file_turn h s (file_document src) key cursor ordinal resolution"
proof -
  let ?doc = "file_document src" and ?bytes = "text_of h (file_document src)"
  have same: "text_of h' ?doc = ?bytes" using agree_texts [OF agree in_input_texts(2)] .
  have next_same: "config_file_record_next (heap_bytes h') ?doc c o' = config_file_record_next (heap_bytes h) ?doc c o'" for c o'
    unfolding config_file_record_next_def same ..
  show ?thesis
  proof (cases "cursor < length ?bytes")
    case True
    then have True': "cursor < length (text_of h' ?doc)" by (simp add: same)
    let ?line = "line_at ?bytes cursor"
    let ?rec = "setting ?doc ordinal cursor ?line"
    have fits: "cursor + length ?line \<le> unat (span_length ?doc)" using line_at_length [OF True] by simp
    note assign = assignment_at [OF True, of ordinal] assignment_at [OF True', of ordinal, unfolded same]
    show ?thesis
    proof (cases "is_setting ?line \<and> name_length ?line \<noteq> 0 \<and> name_length ?line \<noteq> length ?line")
      case set: True
      then have "name_length ?line < length ?line"
        using length_takeWhile_le [of "\<lambda>b. b \<noteq> equals_sign" ?line] by linarith
      note parts = setting_parts [OF same fits this, of ordinal]
      show ?thesis
        using set assign parse_agree [OF agree key parts(2)] find_descriptor_agree [OF agree parts(1)]
        by (auto simp: resolve_file_turn_def next_same record_next_at [OF True] Let_def config_fail_def
            same_objects_reads [OF agree_objects [OF agree]])
    next
      case False
      then show ?thesis
        using assign by (auto simp: resolve_file_turn_def next_same record_next_at [OF True] Let_def config_fail_def)
    qed
  next
    case False
    then show ?thesis by (simp add: resolve_file_turn_def record_next_end same)
  qed
qed

lemma resolve_file_turn_advances:
  assumes "resolve_file_turn h s document key cursor ordinal resolution = Inr after"
  shows "cursor < length (text_of h document)" and "fst after = next_line (text_of h document) cursor"
proof -
  show cursor: "cursor < length (text_of h document)"
  proof (rule ccontr)
    assume "\<not> ?thesis"
    then show False using assms by (simp add: resolve_file_turn_def record_next_end)
  qed
  show "fst after = next_line (text_of h document) cursor"
    using assms by (auto simp: resolve_file_turn_def record_next_at [OF cursor] Let_def config_fail_def
        split: if_splits sum.splits option.splits)
qed

lemma resolve_file_loop_returns: "\<exists>result. resolve_file_loop h s document key cursor ordinal resolution = Some result"
proof (induction "length (text_of h document) - cursor" arbitrary: cursor ordinal resolution rule: less_induct)
  case less
  show ?case
  proof (cases "resolve_file_turn h s document key cursor ordinal resolution")
    case (Inl result)
    then show ?thesis by (subst resolve_file_loop.simps) simp
  next
    case (Inr after)
    note ahead = resolve_file_turn_advances [OF Inr]
    then have "length (text_of h document) - fst after < length (text_of h document) - cursor"
      using lines_at_step(2) [OF ahead(1)] by simp
    then show ?thesis using less [of "fst after"] Inr by (subst resolve_file_loop.simps) simp
  qed
qed

lemma resolve_file_loop_agree:
  assumes agree: "agree h h' s src" and key: "key < unat (schema_descriptor_count s)"
  shows "resolve_file_loop h' s (file_document src) key cursor ordinal resolution =
    resolve_file_loop h s (file_document src) key cursor ordinal resolution"
proof (induction "length (text_of h (file_document src)) - cursor" arbitrary: cursor ordinal resolution rule: less_induct)
  case less
  note turn = resolve_file_turn_agree [OF agree key]
  show ?case
  proof (cases "resolve_file_turn h s (file_document src) key cursor ordinal resolution")
    case (Inl result)
    then show ?thesis by (subst (1 2) resolve_file_loop.simps) (simp add: turn)
  next
    case (Inr after)
    note ahead = resolve_file_turn_advances [OF Inr]
    then have "length (text_of h (file_document src)) - fst after < length (text_of h (file_document src)) - cursor"
      using lines_at_step(2) [OF ahead(1)] by simp
    then show ?thesis using less [of "fst after"] Inr by (subst (1 2) resolve_file_loop.simps) (simp add: turn)
  qed
qed

lemma vector_record_agree:
  assumes "text_of h' entry = text_of h entry"
  shows "config_vector_record (heap_bytes h') entry i source = config_vector_record (heap_bytes h) entry i source"
  unfolding config_vector_record_def assms ..

text \<open>The texts of the record of an entry are parts of the entry.\<close>

lemma vector_record_parts:
  assumes "text_of h' entry = text_of h entry" and "config_vector_record (heap_bytes h) entry i source = Inr rec"
  shows "config_vector_record (heap_bytes h') entry i source = Inr rec"
    and "text_of h' (rec_name rec) = text_of h (rec_name rec)" and "text_of h' (rec_value rec) = text_of h (rec_value rec)"
proof -
  let ?bytes = "text_of h entry" and ?start = "vector_name_start source"
  define equals where "equals = ?start + length (takeWhile (\<lambda>b. b \<noteq> equals_sign) (drop ?start ?bytes))"
  show "config_vector_record (heap_bytes h') entry i source = Inr rec" unfolding vector_record_agree [OF assms(1)] by (rule assms(2))
  have rec: "rec_name rec = \<lparr>span_data = span_data entry + of_nat ?start, span_length = of_nat (equals - ?start)\<rparr>"
    "rec_value rec = \<lparr>span_data = span_data entry + of_nat equals + 1, span_length = span_length entry - of_nat equals - 1\<rparr>"
    "equals \<noteq> length ?bytes" "?start \<le> length ?bytes"
    using assms(2) by (auto simp: config_vector_record_def config_fail_def Let_def equals_def vector_name_start_def
        split: if_splits sum.splits)
  have "equals \<le> length ?bytes"
    unfolding equals_def using rec(4) length_takeWhile_le [of "\<lambda>b. b \<noteq> equals_sign" "drop ?start ?bytes"] by simp
  then have equals: "equals < length ?bytes" "?start \<le> equals" using rec(3) by (auto simp: equals_def)
  have "span_length entry - of_nat equals - 1 = of_nat (length ?bytes - equals - 1)"
    using value_length [OF equals(1)] by (simp del: of_nat_diff)
  then show "text_of h' (rec_name rec) = text_of h (rec_name rec)" "text_of h' (rec_value rec) = text_of h (rec_value rec)"
    using same_part [OF assms(1), of ?start "equals - ?start"] same_part [OF assms(1), of "equals + 1" "length ?bytes - equals - 1"] equals rec(1,2)
    by (simp_all add: ac_simps)
qed

lemma resolve_vector_loop_agree:
  assumes agree: "agree h h' s src" and key: "key < unat (schema_descriptor_count s)"
    and texts: "\<forall>i \<in> set items. text_of h' (entry_at h entries i) = text_of h (entry_at h entries i)"
  shows "resolve_vector_loop h' s entries source key items resolution = resolve_vector_loop h s entries source key items resolution"
  using texts
proof (induction items arbitrary: resolution)
  case (Cons i items)
  let ?entry = "entry_at h entries i"
  have same: "text_of h' ?entry = text_of h ?entry" using Cons.prems by simp
  have IH: "resolve_vector_loop h' s entries source key items r = resolve_vector_loop h s entries source key items r" for r
    using Cons by simp
  show ?case
  proof (cases "config_vector_record (heap_bytes h) ?entry i source")
    case (Inl failure)
    then show ?thesis
      by (simp add: same_objects_reads [OF agree_objects [OF agree]] vector_record_agree [OF same])
  next
    case (Inr rec)
    note parts = vector_record_parts [OF same Inr]
    show ?thesis
      by (simp add: same_objects_reads [OF agree_objects [OF agree]] parts(1) Inr find_descriptor_agree [OF agree parts(2)]
          parse_agree [OF agree key parts(3)] IH split: sum.split)
  qed
qed simp

lemma resolve_descriptor_agree:
  assumes agree: "agree h h' s src" and key: "key < unat (schema_descriptor_count s)"
  shows "config_resolve_descriptor h' s src key = config_resolve_descriptor h s src key"
proof -
  have "resolve_vector_loop h' s (environment_entries src) source key [0..<unat (environment_count src)] r =
      resolve_vector_loop h s (environment_entries src) source key [0..<unat (environment_count src)] r"
    "resolve_vector_loop h' s (command_line_entries src) source key [0..<unat (command_line_count src)] r =
      resolve_vector_loop h s (command_line_entries src) source key [0..<unat (command_line_count src)] r" for source r
    using agree_texts [OF agree] in_input_texts(3,4) by (auto intro!: resolve_vector_loop_agree [OF agree key])
  then show ?thesis
    by (simp add: config_resolve_descriptor_def resolve_file_loop_agree [OF agree key]
        same_objects_reads [OF agree_objects [OF agree]] split: option.split sum.split)
qed

section \<open>The schema check\<close>

lemma name_agree:
  assumes "agree h h' s src" and "i < unat (schema_descriptor_count s)"
  shows "text_of h' (config_descriptor_name (descriptor_at h s i) ns) = text_of h (config_descriptor_name (descriptor_at h s i) ns)"
  using agree_texts [OF assms(1) in_input_texts(1) [OF assms(2) name_text]] .

lemma name_valid_agree:
  "text_of h' t = text_of h t \<Longrightarrow> config_name_valid (heap_bytes h') t environment enumeration = config_name_valid (heap_bytes h) t environment enumeration"
  by (simp add: config_name_valid_def)

lemma span_equal_agree:
  "text_of h' a = text_of h a \<Longrightarrow> text_of h' b = text_of h b \<Longrightarrow>
     config_span_equal (heap_bytes h') a b = config_span_equal (heap_bytes h) a b"
  by (simp add: config_span_equal_def)

lemma for_each_same: "(\<And>x. x \<in> set xs \<Longrightarrow> f x = g x) \<Longrightarrow> for_each f xs = for_each g xs"
  by (induction xs) (auto split: sum.split)

lemma canonical_agree:
  assumes "text_of h' (value_utf8 v) = text_of h (value_utf8 v)" and "heap_choice h' = heap_choice h"
  shows "config_value_canonical h' d v check = config_value_canonical h d v check"
  unfolding config_value_canonical_def config_utf8_valid_def choice_at_def assms ..

lemma canonical_agree_other:
  assumes "desc_kind d \<noteq> ARBOR_CONFIG_KIND_UTF8" and "heap_choice h' = heap_choice h"
  shows "config_value_canonical h' d v check = config_value_canonical h d v check"
  using assms unfolding config_value_canonical_def choice_at_def by (cases "desc_kind d") simp_all

lemma requirement_default:
  assumes "\<not> descriptor_flags_bad d" and "descriptor_requirement d \<noteq> ARBOR_CONFIG_DESCRIPTOR_REQUIRED"
  shows "desc_flags d AND ARBOR_CONFIG_DESCRIPTOR_HAS_DEFAULT \<noteq> 0"
proof
  assume zero: "desc_flags d AND ARBOR_CONFIG_DESCRIPTOR_HAS_DEFAULT = 0"
  have "desc_flags d AND 3 = 2" using assms by (simp add: descriptor_flags_bad_def descriptor_requirement_def)
  then have "(desc_flags d AND 3) AND 2 = 2" by simp
  then show False using zero by (simp add: and.assoc)
qed

lemma validate_choice_agree:
  assumes "\<And>j. choice_at h' d j = choice_at h d j"
    and texts: "\<And>j. j \<le> c \<Longrightarrow> text_of h' (choice_name (choice_at h d j)) = text_of h (choice_name (choice_at h d j))"
  shows "validate_choice h' index d c = validate_choice h index d c"
proof -
  let ?same = "\<lambda>h j. config_span_equal (heap_bytes h) (choice_name (choice_at h d c)) (choice_name (choice_at h d j)) \<or>
    choice_value (choice_at h d c) = choice_value (choice_at h d j)"
  have "?same h' j = ?same h j" if "j \<in> set [0..<c]" for j
    using that span_equal_agree [OF texts texts, of c j] by (simp add: assms(1))
  then have "(\<exists>j \<in> set [0..<c]. ?same h' j) \<longleftrightarrow> (\<exists>j \<in> set [0..<c]. ?same h j)" by (intro bex_cong) simp_all
  then show ?thesis
    unfolding validate_choice_def assms(1) name_valid_agree [OF texts [OF order_refl]] by (simp only:)
qed

lemma validate_descriptor_agree:
  assumes agree: "agree h h' s src" and i: "i < unat (schema_descriptor_count s)"
  shows "validate_descriptor h' s i = validate_descriptor h s i"
proof -
  let ?d = "descriptor_at h s i"
  note reads = same_objects_reads [OF agree_objects [OF agree]]
  have names: "validate_name h' s i ns = validate_name h s i ns" for ns
  proof -
    have "config_span_equal (heap_bytes h') (config_descriptor_name (descriptor_at h s i) ns) (config_descriptor_name (descriptor_at h s j) ns) =
        config_span_equal (heap_bytes h) (config_descriptor_name (descriptor_at h s i) ns) (config_descriptor_name (descriptor_at h s j) ns)"
      if "j \<in> set [0..<i]" for j
      using that i by (intro span_equal_agree name_agree [OF agree]) simp_all
    then have "(\<exists>j \<in> set [0..<i]. config_span_equal (heap_bytes h') (config_descriptor_name (descriptor_at h s i) ns)
          (config_descriptor_name (descriptor_at h s j) ns)) \<longleftrightarrow>
        (\<exists>j \<in> set [0..<i]. config_span_equal (heap_bytes h) (config_descriptor_name (descriptor_at h s i) ns)
          (config_descriptor_name (descriptor_at h s j) ns))"
      by (intro bex_cong) simp_all
    then show ?thesis
      unfolding validate_name_def Let_def reads name_valid_agree [OF name_agree [OF agree i]] by (simp only:)
  qed
  have choices: "for_each (validate_choice h' i ?d) [0..<unat (desc_enum_choice_count ?d)] =
      for_each (validate_choice h i ?d) [0..<unat (desc_enum_choice_count ?d)]" if kind: "desc_kind ?d = ARBOR_CONFIG_KIND_ENUM"
  proof (rule for_each_same)
    fix c assume "c \<in> set [0..<unat (desc_enum_choice_count ?d)]"
    then show "validate_choice h' i ?d c = validate_choice h i ?d c"
      using choice_agree [OF agree i kind] by (intro validate_choice_agree reads) simp_all
  qed
  have "validate_constraints h' i ?d = validate_constraints h i ?d"
    unfolding validate_constraints_def by (cases "desc_kind ?d") (auto simp: choices)
  moreover have "validate_default h' i ?d = validate_default h i ?d" if "\<not> descriptor_flags_bad ?d"
  proof -
    have objects: "heap_choice h' = heap_choice h" using agree by (simp add: agree_def same_objects_def)
    have "config_value_canonical h' ?d (desc_default_value ?d) True = config_value_canonical h ?d (desc_default_value ?d) True"
      if "descriptor_requirement ?d \<noteq> ARBOR_CONFIG_DESCRIPTOR_REQUIRED"
    proof (cases "desc_kind ?d = ARBOR_CONFIG_KIND_UTF8")
      case True
      then show ?thesis
        using canonical_agree agree_texts [OF agree in_input_texts(1) [OF i default_text]] objects
          requirement_default [OF \<open>\<not> descriptor_flags_bad ?d\<close> that] by blast
    qed (rule canonical_agree_other [OF _ objects])
    then show ?thesis by (simp add: validate_default_def)
  qed
  moreover have "validate_name h' s i = validate_name h s i" using names by (rule ext)
  ultimately show ?thesis
    unfolding validate_descriptor_def Let_def reads
    by (cases "descriptor_flags_bad ?d") (simp_all split: sum.split bool.split)
qed

lemma validate_schema_agree:
  assumes agree: "agree h h' (heap_schema h schema) src"
  shows "config_validate_schema h' schema = config_validate_schema h schema"
proof -
  have "heap_schema h' = heap_schema h" using agree by (simp add: agree_def same_objects_def)
  moreover have "for_each (validate_descriptor h' (heap_schema h schema)) [0..<unat (schema_descriptor_count (heap_schema h schema))] =
      for_each (validate_descriptor h (heap_schema h schema)) [0..<unat (schema_descriptor_count (heap_schema h schema))]"
    by (intro for_each_same validate_descriptor_agree [OF agree]) simp
  ultimately show ?thesis by (simp add: config_validate_schema_def Let_def)
qed

end
