(* ===== verification/Config_Utf8.thy ===== *)
theory Config_Utf8
  imports Config_Text
begin

text \<open>
  The UTF-8 check of \<open>src/c/config.c\<close> against the encoding it checks. One turn of its loop takes exactly the bytes
  of one scalar value, so that a text is accepted exactly when it is a sequence of encoded scalar values.
\<close>

unbundle bit_operations_syntax

section \<open>Bits of a byte\<close>

lemma low_bits: "unat (b AND 0x3f :: u8) = unat b mod 64" "unat (b AND 0x1f :: u8) = unat b mod 32"
    "unat (b AND 0x0f :: u8) = unat b mod 16"  "unat (b AND 0x07 :: u8) = unat b mod 8"
proof -
  have "unat (b AND mask n) = unat b mod 2 ^ n" for n
    unfolding take_bit_eq_mask [symmetric] unsigned_take_bit_eq by (rule take_bit_eq_mod)
  from this [of 6] this [of 5] this [of 4] this [of 3] show
    "unat (b AND 0x3f :: u8) = unat b mod 64" "unat (b AND 0x1f :: u8) = unat b mod 32"
    "unat (b AND 0x0f :: u8) = unat b mod 16"  "unat (b AND 0x07 :: u8) = unat b mod 8"
    by (simp_all add: mask_eq_exp_minus_1)
qed

lemma and_not_63: "(b :: u8) AND NOT 0x3f = b AND 0xc0"
proof -
  have "(0xc0 :: u8) + 64 = 0" by simp
  then have "(- 64 :: u8) = 0xc0" using eq_neg_iff_add_eq_0 by metis
  moreover have "NOT (0x3f :: u8) = - 64" by simp
  ultimately show ?thesis by metis
qed

lemma multiple_of_64: "n - n mod 64 = 128 \<longleftrightarrow> 128 \<le> n \<and> n < (192 :: nat)"
proof -
  have "n - n mod 64 = 64 * (n div 64)" by (simp add: minus_mod_eq_mult_div)
  moreover have "2 \<le> n div 64 \<longleftrightarrow> 128 \<le> n" "n div 64 < 3 \<longleftrightarrow> n < 192"
    by (simp_all add: less_eq_div_iff_mult_less_eq div_less_iff_less_mult)
  ultimately show ?thesis by linarith
qed

lemma mod_near: "m * d \<le> n \<Longrightarrow> n < m * d + d \<Longrightarrow> n mod d = n - m * (d :: nat)"
  by (metis add_diff_inverse_nat less_diff_conv2 mod_less mod_mult_self2 mult.commute not_less add.commute)

lemma continuation_byte: "b AND 0xc0 = 0x80 \<longleftrightarrow> 0x80 \<le> unat (b :: u8) \<and> unat b < 0xc0"
proof -
  have "(b AND NOT 0x3f) + (b AND 0x3f) = (b AND NOT 0x3f) OR (b AND 0x3f)"
    by (rule disjunctive_add) (auto simp: bit_simps)
  also have "\<dots> = b" by (rule bit_word_eqI) (auto simp: bit_simps)
  finally have "b AND 0xc0 = b - (b AND 0x3f)" by (metis (no_types) add_diff_cancel_right' and_not_63)
  moreover have "unat (b - (b AND 0x3f)) = unat b - unat b mod 64"
    by (subst unat_sub) (simp_all add: low_bits word_le_nat_alt)
  ultimately have "b AND 0xc0 = 0x80 \<longleftrightarrow> unat b - unat b mod 64 = 0x80"
    by (simp add: word_unat_eq_iff)
  then show ?thesis using multiple_of_64 [of "unat b"] by simp
qed


lemma append_bits:
  assumes "unat (s :: u32) < 2 ^ 20" and "unat c < 64"
  shows "unat (push_bit 6 s OR c) = unat s * 64 + unat c"
proof -
  have "unat (take_bit 6 c) = unat c" using assms(2) by (simp add: unsigned_take_bit_eq take_bit_nat_eq_self)
  then have c: "take_bit 6 c = c" by (simp only: word_unat_eq_iff)
  have "push_bit 6 s OR c = push_bit 6 s + c"
    by (rule disjunctive_add [symmetric]) (metis bit_push_bit_iff bit_take_bit_iff c not_less)
  moreover have "unat (push_bit 6 s) = unat s * 64"
    unfolding unsigned_push_bit_eq using assms(1) by (simp add: push_bit_eq_mult take_bit_nat_eq_self)
  ultimately show ?thesis using assms by (simp add: unat_word_ariths)
qed

section \<open>UTF-8\<close>

definition scalar_value :: "nat \<Rightarrow> bool" where
  "scalar_value n \<longleftrightarrow> 0 < n \<and> n \<le> 0x10ffff \<and> \<not> (0xd800 \<le> n \<and> n \<le> 0xdfff)"

definition utf8_encode :: "nat \<Rightarrow> u8 list" where
  "utf8_encode n = map of_nat
     (if n < 0x80 then [n]
      else if n < 0x800 then [0xc0 + n div 64, 0x80 + n mod 64]
      else if n < 0x10000 then [0xe0 + n div 4096, 0x80 + n div 64 mod 64, 0x80 + n mod 64]
      else [0xf0 + n div 262144, 0x80 + n div 4096 mod 64, 0x80 + n div 64 mod 64, 0x80 + n mod 64])"

definition continuation :: "u8 \<Rightarrow> bool" where
  "continuation b \<longleftrightarrow> 0x80 \<le> unat b \<and> unat b < 0xc0"

lemma append_byte:
  assumes "unat (s :: u32) < 2 ^ 20" and "continuation b"
  shows "unat (push_bit 6 s OR ucast (b AND 0x3f)) = unat s * 64 + (unat b - 0x80)"
proof -
  have "unat (ucast (b AND 0x3f) :: u32) = unat b mod 64" 
    by (simp add: unsigned_ucast_eq take_bit_nat_eq_self low_bits)
  moreover have "unat b mod 64 = unat b - 0x80"
  proof -
    obtain c where "unat b = 128 + c" "c < 64" using assms(2) le_Suc_ex unfolding continuation_def by fastforce
    then show ?thesis by (simp add: mod_add_left_eq [symmetric, of 128])
  qed
  ultimately show ?thesis using append_bits [OF assms(1), of "ucast (b AND 0x3f)"] by simp
qed

lemma utf8_parts_Cons [simp]:
  "utf8_parts (b # rest) i s = (if continuation b then utf8_parts rest (i + 1) (push_bit 6 s OR ucast (b AND 0x3f)) else Inl i)"
  by (simp add: continuation_byte continuation_def)

lemmas [simp del] = utf8_parts.simps(2)

lemma utf8_parts_Inr:
  assumes "(unat s + 1) * 64 ^ length bs \<le> 2 ^ 26"
  shows "utf8_parts bs i s = Inr r \<longleftrightarrow>
    list_all continuation bs \<and> unat r = foldl (\<lambda>n b. n * 64 + (unat b - 0x80)) (unat s) bs"
  using assms
proof (induction bs arbitrary: i s)
  case Nil
  then show ?case by (auto simp: word_unat_eq_iff)
next
  case (Cons b bs)
  show ?case
  proof (cases "continuation b")
    case True
    have "(unat s + 1) * 64 \<le> (unat s + 1) * 64 ^ length (b # bs)" by (rule mult_le_mono2) simp
    then have small: "unat s + 1 \<le> 2 ^ 20" using Cons.prems by simp
    have v: "unat (push_bit 6 s OR ucast (b AND 0x3f)) = unat s * 64 + (unat b - 0x80)" (is "unat ?s = ?v")
      using True small by (intro append_byte) simp_all
    have "?v + 1 \<le> (unat s + 1) * 64" using True by (simp add: continuation_def) linarith
    then have "(?v + 1) * 64 ^ length bs \<le> (unat s + 1) * 64 * 64 ^ length bs" by (rule mult_le_mono1)
    also have "\<dots> = (unat s + 1) * 64 ^ length (b # bs)" by (simp only: length_Cons power_Suc mult.assoc)
    finally have "(?v + 1) * 64 ^ length bs \<le> 2 ^ 26" using Cons.prems by (rule order_trans)
    then show ?thesis using Cons.IH [of ?s "i + 1", unfolded v] True by simp
  qed simp
qed

lemma utf8_lead_Some:
  "utf8_lead f = Some (needed, start, minimum) \<longleftrightarrow>
     (0xc2 \<le> unat f \<and> unat f \<le> 0xdf \<and> needed = 2 \<and> unat start = unat f - 0xc0 \<and> minimum = 0x80) \<or>
     (0xe0 \<le> unat f \<and> unat f \<le> 0xef \<and> needed = 3 \<and> unat start = unat f - 0xe0 \<and> minimum = 0x800) \<or>
     (0xf0 \<le> unat f \<and> unat f \<le> 0xf4 \<and> needed = 4 \<and> unat start = unat f - 0xf0 \<and> minimum = 0x10000)"
proof -
  have up: "unat (ucast b :: u32) = unat (b :: u8)" for b
    using unat_u8_upper [of b] by (simp add: unsigned_ucast_eq take_bit_nat_eq_self)
  have low: "192 \<le> n \<and> n \<le> 223 \<Longrightarrow> n mod 32 = n - 192" "224 \<le> n \<and> n \<le> 239 \<Longrightarrow> n mod 16 = n - 224"
    "240 \<le> n \<and> n \<le> 244 \<Longrightarrow> n mod 8 = n - 240" for n :: nat
    using mod_near [of 6 32 n] mod_near [of 14 16 n] mod_near [of 30 8 n] by auto
  show ?thesis
    using low [of "unat f"]
    by (auto simp: utf8_lead_def word_le_nat_alt word_unat_eq_iff [where 'a = 32] up low_bits)
qed

text \<open>A group of bytes the loop takes in one turn, with its scalar value.\<close>

definition utf8_group :: "u8 list \<Rightarrow> nat \<Rightarrow> bool" where
  "utf8_group g n \<longleftrightarrow>
     (\<exists>f. g = [f] \<and> unat f \<le> 0x7f \<and> n = unat f) \<or>
     (\<exists>f cs. g = f # cs \<and> (\<exists>needed start minimum. utf8_lead f = Some (needed, start, minimum) \<and>
        length cs = needed - 1 \<and> list_all continuation cs \<and>
        n = foldl (\<lambda>n b. n * 64 + (unat b - 0x80)) (unat start) cs \<and> unat minimum \<le> n))"

lemma lead_cases:
  "(\<exists>needed start minimum. utf8_lead f = Some (needed, start, minimum) \<and> P needed (unat start) (unat minimum)) \<longleftrightarrow>
     (0xc2 \<le> unat f \<and> unat f \<le> 0xdf \<and> P 2 (unat f - 0xc0) 0x80) \<or>
     (0xe0 \<le> unat f \<and> unat f \<le> 0xef \<and> P 3 (unat f - 0xe0) 0x800) \<or>
     (0xf0 \<le> unat f \<and> unat f \<le> 0xf4 \<and> P 4 (unat f - 0xf0) 0x10000)" (is "?L \<longleftrightarrow> ?R")
proof
  assume ?L
  then obtain needed start minimum where "utf8_lead f = Some (needed, start, minimum)" "P needed (unat start) (unat minimum)"
    by blast
  then show ?R unfolding utf8_lead_Some by auto
next
  assume r: ?R
  have start: "unat (of_nat k :: u32) = k" if "k < 256" for k using that by (simp add: unat_of_nat)
  consider "0xc2 \<le> unat f" "unat f \<le> 0xdf" "P 2 (unat f - 0xc0) 0x80"
    | "0xe0 \<le> unat f" "unat f \<le> 0xef" "P 3 (unat f - 0xe0) 0x800"
    | "0xf0 \<le> unat f" "unat f \<le> 0xf4" "P 4 (unat f - 0xf0) 0x10000" using r by blast
  then show ?L
  proof cases
    case 1
    then have "utf8_lead f = Some (2, of_nat (unat f - 0xc0), 0x80) \<and>
        P 2 (unat (of_nat (unat f - 0xc0) :: u32)) (unat (0x80 :: u32))"
      using start [of "unat f - 0xc0"] by (simp add: utf8_lead_Some)
    then show ?thesis by blast
  next
    case 2
    then have "utf8_lead f = Some (3, of_nat (unat f - 0xe0), 0x800) \<and>
        P 3 (unat (of_nat (unat f - 0xe0) :: u32)) (unat (0x800 :: u32))"
      using start [of "unat f - 0xe0"] by (simp add: utf8_lead_Some)
    then show ?thesis by blast
  next
    case 3
    then have "utf8_lead f = Some (4, of_nat (unat f - 0xf0), 0x10000) \<and>
        P 4 (unat (of_nat (unat f - 0xf0) :: u32)) (unat (0x10000 :: u32))"
      using start [of "unat f - 0xf0"] by (simp add: utf8_lead_Some)
    then show ?thesis by blast
  qed
qed

lemma u8_eq_of_nat: "k < 256 \<Longrightarrow> b = (of_nat k :: u8) \<longleftrightarrow> unat b = k"
  using unat_u8_upper [of b] by (auto simp: word_unat_eq_iff unat_of_nat)

lemma digit_64: "r < 64 \<Longrightarrow> q * 64 + r = n \<longleftrightarrow> q = n div 64 \<and> r = n mod (64 :: nat)"
  by auto

lemma digits_64:
  assumes "s < 64" and "r < 64"
  shows "(q * 64 + r) * 64 + s = n \<longleftrightarrow> q = n div 4096 \<and> r = n div 64 mod 64 \<and> s = n mod (64 :: nat)"
  unfolding digit_64 [OF assms(1)] digit_64 [OF assms(2)] by (auto simp: div_mult2_eq [symmetric])

lemma digits_64':
  assumes "t < 64" and "s < 64" and "r < 64"
  shows "((q * 64 + r) * 64 + s) * 64 + t = n \<longleftrightarrow>
    q = n div 262144 \<and> r = n div 4096 mod 64 \<and> s = n div 64 mod 64 \<and> t = n mod (64 :: nat)"
  unfolding digit_64 [OF assms(1)] digits_64 [OF assms(2,3)] by (auto simp: div_mult2_eq [symmetric])

lemma utf8_group_sizes:
  "utf8_group [f] n \<longleftrightarrow> unat f \<le> 0x7f \<and> n = unat f"
  "utf8_group [f, b] n \<longleftrightarrow> 0xc2 \<le> unat f \<and> unat f \<le> 0xdf \<and> continuation b \<and>
     n = (unat f - 0xc0) * 64 + (unat b - 0x80) \<and> 0x80 \<le> n"
  "utf8_group [f, b, c] n \<longleftrightarrow> 0xe0 \<le> unat f \<and> unat f \<le> 0xef \<and> continuation b \<and> continuation c \<and>
     n = ((unat f - 0xe0) * 64 + (unat b - 0x80)) * 64 + (unat c - 0x80) \<and> 0x800 \<le> n"
  "utf8_group [f, b, c, d] n \<longleftrightarrow> 0xf0 \<le> unat f \<and> unat f \<le> 0xf4 \<and> continuation b \<and> continuation c \<and> continuation d \<and>
     n = (((unat f - 0xf0) * 64 + (unat b - 0x80)) * 64 + (unat c - 0x80)) * 64 + (unat d - 0x80) \<and> 0x10000 \<le> n"
  unfolding utf8_group_def lead_cases [where P = "\<lambda>needed start minimum. length cs = needed - 1 \<and> list_all continuation cs \<and>
      n = foldl (\<lambda>n b. n * 64 + (unat b - 0x80)) start cs \<and> minimum \<le> n" for cs]
  by auto

lemma utf8_group_2: "utf8_group [f, b] n \<longleftrightarrow>
    0x80 \<le> n \<and> n < 0x800 \<and> unat f = 0xc0 + n div 64 \<and> unat b = 0x80 + n mod 64" (is "_ \<longleftrightarrow> ?R")
proof
  assume "utf8_group [f, b] n"
  then have g: "0xc2 \<le> unat f" "unat f \<le> 0xdf" "0x80 \<le> unat b" "unat b - 0x80 < 64" "0x80 \<le> n"
    "(unat f - 0xc0) * 64 + (unat b - 0x80) = n"
    by (auto simp: utf8_group_sizes continuation_def)
  then have "unat f - 0xc0 = n div 64" "unat b - 0x80 = n mod 64" using digit_64 by blast+
  then show ?R using g by auto
next
  assume r: ?R
  then have "2 \<le> n div 64" "n div 64 < 32" by (auto simp: less_eq_div_iff_mult_less_eq div_less_iff_less_mult)
  then show "utf8_group [f, b] n" using r by (auto simp: utf8_group_sizes continuation_def)
qed

lemma utf8_group_3: "utf8_group [f, b, c] n \<longleftrightarrow>
    0x800 \<le> n \<and> n < 0x10000 \<and> unat f = 0xe0 + n div 4096 \<and> unat b = 0x80 + n div 64 mod 64 \<and>
    unat c = 0x80 + n mod 64" (is "_ \<longleftrightarrow> ?R")
proof
  assume group: "utf8_group [f, b, c] n"
  then have g: "0xe0 \<le> unat f" "unat f \<le> 0xef" "0x80 \<le> unat b" "unat b - 0x80 < 64" "0x80 \<le> unat c" "unat c - 0x80 < 64"
    "0x800 \<le> n"
    by (auto simp: utf8_group_sizes continuation_def)
  moreover have "((unat f - 0xe0) * 64 + (unat b - 0x80)) * 64 + (unat c - 0x80) = n"
    using group by (simp only: utf8_group_sizes)
  ultimately have "unat f - 0xe0 = n div 4096" "unat b - 0x80 = n div 64 mod 64" "unat c - 0x80 = n mod 64"
    using digits_64 by blast+
  then show ?R using g by auto
next
  assume r: ?R
  then have "n div 4096 < 16" by (auto simp: div_less_iff_less_mult)
  moreover have "((n div 4096) * 64 + n div 64 mod 64) * 64 + n mod 64 = n" using digits_64 by simp
  ultimately show "utf8_group [f, b, c] n" using r by (auto simp: utf8_group_sizes continuation_def)
qed

lemma utf8_group_4: "n \<le> 0x10ffff \<Longrightarrow> utf8_group [f, b, c, d] n \<longleftrightarrow>
    0x10000 \<le> n \<and> unat f = 0xf0 + n div 262144 \<and> unat b = 0x80 + n div 4096 mod 64 \<and>
    unat c = 0x80 + n div 64 mod 64 \<and> unat d = 0x80 + n mod 64" (is "_ \<Longrightarrow> _ \<longleftrightarrow> ?R")
proof
  assume group: "utf8_group [f, b, c, d] n"
  then have g: "0xf0 \<le> unat f" "0x80 \<le> unat b" "unat b - 0x80 < 64" "0x80 \<le> unat c" "unat c - 0x80 < 64"
    "0x80 \<le> unat d" "unat d - 0x80 < 64" "0x10000 \<le> n"
    by (auto simp: utf8_group_sizes continuation_def)
  moreover have "(((unat f - 0xf0) * 64 + (unat b - 0x80)) * 64 + (unat c - 0x80)) * 64 + (unat d - 0x80) = n"
    using group by (simp only: utf8_group_sizes)
  ultimately have "unat f - 0xf0 = n div 262144" "unat b - 0x80 = n div 4096 mod 64" "unat c - 0x80 = n div 64 mod 64"
    "unat d - 0x80 = n mod 64"
    using digits_64' by blast+
  then show ?R using g by (simp add: le_imp_diff_is_add add.commute)
next
  assume n: "n \<le> 0x10ffff" and r: ?R
  then have "n div 262144 < 5" by (auto simp: div_less_iff_less_mult)
  moreover have "(((n div 262144) * 64 + n div 4096 mod 64) * 64 + n div 64 mod 64) * 64 + n mod 64 = n"
    using digits_64' by simp
  ultimately show "utf8_group [f, b, c, d] n" using r by (auto simp: utf8_group_sizes continuation_def)
qed

lemma utf8_group_length: "utf8_group g n \<Longrightarrow> 0 < length g \<and> length g \<le> 4"
  by (auto simp: utf8_group_def utf8_lead_Some)

lemma utf8_group_iff:
  assumes "scalar_value n"
  shows "utf8_group g n \<longleftrightarrow> g = utf8_encode n"
proof -
  have n: "n \<le> 0x10ffff" using assms by (simp add: scalar_value_def)
  then have f: "n < 0x80 \<Longrightarrow> n < 256" "n < 0x800 \<Longrightarrow> 0xc0 + n div 64 < 256" "n < 0x10000 \<Longrightarrow> 0xe0 + n div 4096 < 256"
    "0xf0 + n div 262144 < 256"
    by (auto simp: less_diff_conv div_less_iff_less_mult intro: order.strict_trans2 [OF add_strict_left_mono])
  have c: "0x80 + k mod 64 < 256" for k :: nat using mod_less_divisor [of 64 k] by linarith
  show ?thesis
  proof (cases "0 < length g \<and> length g \<le> 4")
    case True
    then consider f where "g = [f]" | f b where "g = [f, b]" | f b c where "g = [f, b, c]"
      | f b c d where "g = [f, b, c, d]"
      by (cases g; cases "tl g"; cases "tl (tl g)"; cases "tl (tl (tl g))") auto
    then show ?thesis
      by cases (auto simp: utf8_group_sizes(1) utf8_group_2 utf8_group_3 utf8_group_4 [OF n] utf8_encode_def u8_eq_of_nat f c
          simp del: of_nat_add)
  next
    case False
    then have "g \<noteq> utf8_encode n" by (auto simp: utf8_encode_def)
    then show ?thesis using False utf8_group_length by blast
  qed
qed

abbreviation group_number :: "nat \<Rightarrow> u8 list \<Rightarrow> nat" where
  "group_number start cs \<equiv> foldl (\<lambda>n b. n * 64 + (unat b - 0x80)) start cs"

lemma utf8_parts_Inl: "utf8_parts bs i s = Inl bad \<Longrightarrow> \<not> list_all continuation bs"
  by (induction bs arbitrary: i s) (auto split: if_splits)

lemma utf8_long_turn:
  assumes "0x7f < unat f"
  shows "utf8_loop (f # rest) i = Inr () \<longleftrightarrow>
    (\<exists>needed start minimum. utf8_lead f = Some (needed, start, minimum) \<and> needed - 1 \<le> length rest \<and>
       list_all continuation (take (needed - 1) rest) \<and>
       unat minimum \<le> group_number (unat start) (take (needed - 1) rest) \<and>
       scalar_value (group_number (unat start) (take (needed - 1) rest)) \<and>
       utf8_loop (drop (needed - 1) rest) (i + needed) = Inr ())"
proof (cases "utf8_lead f")
  case None
  then show ?thesis using assms by (simp add: word_le_nat_alt word_unat_eq_iff [of f])
next
  case (Some lead)
  obtain needed start minimum where lead: "utf8_lead f = Some (needed, start, minimum)" using Some by (cases lead) simp
  let ?cs = "take (needed - 1) rest"
  have bounds: "2 \<le> needed" "needed - 1 \<le> length rest \<Longrightarrow> (unat start + 1) * 64 ^ length ?cs \<le> 2 ^ 26" "0x80 \<le> unat minimum"
    using lead unfolding utf8_lead_Some by auto
  show ?thesis
  proof (cases "needed - 1 \<le> length rest")
    case True
    then have fits: "\<not> Suc (length rest) < needed" using bounds(1) by simp
    note parts = utf8_parts_Inr [OF bounds(2) [OF True]]
    show ?thesis
    proof (cases "utf8_parts ?cs (i + 1) start")
      case (Inl bad)
      then have "\<not> list_all continuation ?cs" by (rule utf8_parts_Inl)
      then show ?thesis using assms lead Inl True by (simp add: word_le_nat_alt word_unat_eq_iff [of f])
    next
      case (Inr scalar)
      then have "list_all continuation ?cs" "unat scalar = group_number (unat start) ?cs" using parts by blast+
      moreover from this have "f \<noteq> 0 \<and> \<not> f \<le> 0x7f" using assms by (auto simp: word_le_nat_alt)
      moreover have "\<not> (scalar < minimum \<or> scalar > 0x10ffff \<or> (0xd800 \<le> scalar \<and> scalar \<le> 0xdfff)) \<longleftrightarrow>
          unat minimum \<le> unat scalar \<and> scalar_value (unat scalar)"
        using bounds(3) by (auto simp: word_le_nat_alt word_less_nat_alt scalar_value_def)
      moreover have "utf8_loop (f # rest) i = (if scalar < minimum \<or> scalar > 0x10ffff \<or> (0xd800 \<le> scalar \<and> scalar \<le> 0xdfff)
          then Inl i else utf8_loop (drop (needed - 1) rest) (i + needed))"
        using \<open>f \<noteq> 0 \<and> \<not> f \<le> 0x7f\<close> fits by (subst utf8_loop.simps) (simp add: lead Inr [simplified])
      ultimately show ?thesis using lead True by (auto simp del: utf8_loop.simps split: if_splits)
    qed
  next
    case False
    then have "Suc (length rest) < needed" by simp
    then show ?thesis using False assms lead bounds(1,3) by (simp add: word_le_nat_alt word_unat_eq_iff [of f])
  qed
qed

lemma utf8_short_turn:
  assumes "unat f \<le> 0x7f"
  shows "utf8_loop (f # rest) i = Inr () \<longleftrightarrow> unat f \<noteq> 0 \<and> utf8_loop rest (i + 1) = Inr ()"
proof -
  have "f \<le> 0x7f" "f = 0 \<longleftrightarrow> unat f = 0" using assms by (simp_all add: word_le_nat_alt unat_eq_zero)
  then show ?thesis by (simp only: utf8_loop.simps) simp
qed

lemma utf8_turn:
  "utf8_loop (f # rest) i = Inr () \<longleftrightarrow>
     (\<exists>g n rest'. f # rest = g @ rest' \<and> scalar_value n \<and> utf8_group g n \<and> utf8_loop rest' (i + length g) = Inr ())"
  (is "?L \<longleftrightarrow> ?R")
proof (cases "unat f \<le> 0x7f")
  case True
  show ?thesis
  proof
    assume ?L
    then have "f # rest = [f] @ rest \<and> scalar_value (unat f) \<and> utf8_group [f] (unat f) \<and> utf8_loop rest (i + length [f]) = Inr ()"
      using utf8_short_turn [OF True] True by (simp add: utf8_group_sizes scalar_value_def)
    then show ?R by blast
  next
    assume ?R
    then obtain g n rest' where g: "f # rest = g @ rest'" "scalar_value n" "utf8_group g n"
      "utf8_loop rest' (i + length g) = Inr ()" by blast
    from g(1,3) True have "g = [f]" by (cases g) (auto simp: utf8_group_def utf8_lead_Some)
    then have "unat f \<noteq> 0 \<and> utf8_loop rest (i + 1) = Inr ()" using g by (auto simp: utf8_group_sizes scalar_value_def)
    then show ?L using utf8_short_turn [OF True] by blast
  qed
next
  case False
  then have long: "0x7f < unat f" by simp
  show ?thesis
  proof
    assume ?L
    then obtain needed start minimum where lead: "utf8_lead f = Some (needed, start, minimum)" "needed - 1 \<le> length rest"
      "list_all continuation (take (needed - 1) rest)"
      "unat minimum \<le> group_number (unat start) (take (needed - 1) rest)"
      "scalar_value (group_number (unat start) (take (needed - 1) rest))"
      "utf8_loop (drop (needed - 1) rest) (i + needed) = Inr ()"
      using utf8_long_turn [OF long, of rest i] by blast
    have "0 < needed" using lead(1) by (auto simp: utf8_lead_Some)
    then have "utf8_group (f # take (needed - 1) rest) (group_number (unat start) (take (needed - 1) rest))"
      "f # rest = (f # take (needed - 1) rest) @ drop (needed - 1) rest"
      "utf8_loop (drop (needed - 1) rest) (i + length (f # take (needed - 1) rest)) = Inr ()"
      unfolding utf8_group_def using lead by (auto simp del: utf8_loop.simps)
    then show ?R using lead(5) by blast
  next
    assume ?R
    then obtain g n rest' where g: "f # rest = g @ rest'" "scalar_value n" "utf8_group g n"
      "utf8_loop rest' (i + length g) = Inr ()" by blast
    then obtain cs needed start minimum where lead: "g = f # cs" "utf8_lead f = Some (needed, start, minimum)"
        "length cs = needed - 1" "list_all continuation cs" "n = group_number (unat start) cs" "unat minimum \<le> n"
      using long unfolding utf8_group_def by auto
    have "0 < needed" using lead(2) by (auto simp: utf8_lead_Some)
    then have "rest = cs @ rest'" "i + needed = i + length g" using g(1) lead(1,3) by simp_all
    then show ?L using lead g(2,4) by (intro utf8_long_turn [OF long, THEN iffD2]) (simp del: utf8_loop.simps)
  qed
qed

text \<open>The loop accepts exactly the encodings of sequences of scalar values.\<close>

lemma utf8_loop_iff:
  "utf8_loop bs i = Inr () \<longleftrightarrow> (\<exists>ns. list_all scalar_value ns \<and> bs = concat (map utf8_encode ns))"
proof (induction "length bs" arbitrary: bs i rule: less_induct)
  case less
  show ?case
  proof (cases bs)
    case Nil
    then show ?thesis by (auto intro: exI [of _ "[]"])
  next
    case (Cons f fs)
    have step: "utf8_loop bs i = Inr () \<longleftrightarrow>
        (\<exists>n rest. bs = utf8_encode n @ rest \<and> scalar_value n \<and> utf8_loop rest (i + length (utf8_encode n)) = Inr ())"
      unfolding Cons utf8_turn using utf8_group_iff by metis
    have nonempty: "utf8_encode n \<noteq> []" for n by (simp add: utf8_encode_def)
    show ?thesis
    proof
      assume "utf8_loop bs i = Inr ()"
      then obtain n rest where n: "bs = utf8_encode n @ rest" "scalar_value n"
        "utf8_loop rest (i + length (utf8_encode n)) = Inr ()" using step by blast
      have "length rest < length bs" using n(1) nonempty [of n] by simp
      then obtain ns where "list_all scalar_value ns" "rest = concat (map utf8_encode ns)"
        using less n(3) by blast
      then have "list_all scalar_value (n # ns) \<and> bs = concat (map utf8_encode (n # ns))" using n by simp
      then show "\<exists>ns. list_all scalar_value ns \<and> bs = concat (map utf8_encode ns)" ..
    next
      assume "\<exists>ns. list_all scalar_value ns \<and> bs = concat (map utf8_encode ns)"
      then obtain ns where "list_all scalar_value ns" "bs = concat (map utf8_encode ns)" by blast
      moreover from this obtain n ns' where "ns = n # ns'" using Cons by (cases ns) auto
      ultimately have ns: "list_all scalar_value ns'" "scalar_value n" "bs = utf8_encode n @ concat (map utf8_encode ns')" by simp_all
      have "length (concat (map utf8_encode ns')) < length bs" using ns(3) nonempty [of n] by simp
      then have "utf8_loop (concat (map utf8_encode ns')) (i + length (utf8_encode n)) = Inr ()" using less ns(1) by blast
      then show "utf8_loop bs i = Inr ()" using step ns by blast
    qed
  qed
qed

lemma config_utf8_valid_iff:
  "config_utf8_valid m text = Inr () \<longleftrightarrow>
     object_span_valid (span_data text) (span_length text) \<and>
     (\<exists>ns. list_all scalar_value ns \<and> span_bytes m text = concat (map utf8_encode ns))"
  by (simp add: config_utf8_valid_def config_range_make_iff [symmetric] utf8_loop_iff)

end
