(* ===== verification/Config_Values.thy ===== *)
theory Config_Values
  imports Config_Sources Config_Utf8
begin

text \<open>
  What \<open>config_parse_text_value\<close> of \<open>src/c/config.c\<close> reads: a numeral is accepted exactly when it is
  written in decimal digits and its number is in range, and a value that is accepted is canonical for its descriptor.
\<close>

unbundle bit_operations_syntax

section \<open>Numerals\<close>

definition decimal_digit :: "u8 \<Rightarrow> bool" where
  "decimal_digit b \<longleftrightarrow> 48 \<le> unat b \<and> unat b \<le> 57"

definition numeral_value :: "nat \<Rightarrow> u8 list \<Rightarrow> nat" where
  "numeral_value start bytes = foldl (\<lambda>n b. 10 * n + (unat b - 48)) start bytes"

lemma numeral_value_simps [simp]:
  "numeral_value n [] = n"
  "numeral_value n (b # bytes) = numeral_value (10 * n + (unat b - 48)) bytes"
  by (simp_all add: numeral_value_def)

lemma numeral_value_grows: "n \<le> numeral_value n bytes"
proof (induction bytes arbitrary: n)
  case (Cons b bytes)
  have "n \<le> 10 * n + (unat b - 48)" by simp
  also have "\<dots> \<le> numeral_value n (b # bytes)" using Cons.IH by simp
  finally show ?case .
qed simp

lemma digit_step:
  assumes "decimal_digit b" and "9 \<le> unat limit" and "unat n \<le> unat limit"
  shows "n > (limit - ucast (b - ascii CHR ''0'')) div 10 \<longleftrightarrow> 10 * unat n + (unat b - 48) > unat (limit :: u64)"
    and "10 * unat n + (unat b - 48) \<le> unat limit \<Longrightarrow>
      unat (n * 10 + ucast (b - ascii CHR ''0'')) = 10 * unat n + (unat b - 48)"
proof -
  have "unat (b - ascii CHR ''0'') = unat b - 48"
    using assms(1) by (simp add: decimal_digit_def ascii_def unat_sub word_le_nat_alt)
  then have d: "unat (ucast (b - ascii CHR ''0'') :: u64) = unat b - 48"
    using unat_u8_upper [of b] by (simp add: unsigned_ucast_eq take_bit_nat_eq_self)
  moreover have "unat b - 48 \<le> 9" using assms(1) unfolding decimal_digit_def by linarith
  ultimately have "unat ((limit - ucast (b - ascii CHR ''0'')) div 10) = (unat limit - (unat b - 48)) div 10"
    using assms(2) by (simp add: unat_div unat_sub word_le_nat_alt)
  then show "n > (limit - ucast (b - ascii CHR ''0'')) div 10 \<longleftrightarrow> 10 * unat n + (unat b - 48) > unat limit"
    using \<open>unat b - 48 \<le> 9\<close> assms(2) by (simp add: word_less_nat_alt div_less_iff_less_mult) linarith
  show "unat (n * 10 + ucast (b - ascii CHR ''0'')) = 10 * unat n + (unat b - 48)" if "10 * unat n + (unat b - 48) \<le> unat limit"
    using that d unat_u64_upper [of limit] by (simp add: unat_word_ariths)
qed

lemma decimal_digit_iff: "decimal_digit b \<longleftrightarrow> \<not> (b < ascii CHR ''0'' \<or> b > ascii CHR ''9'')"
  by (auto simp: decimal_digit_def ascii_def word_less_nat_alt)

lemma numeral_loop_iff:
  assumes "9 \<le> unat limit" and "unat n \<le> unat limit"
  shows "numeral_loop limit bytes i n = Inr r \<longleftrightarrow>
    list_all decimal_digit bytes \<and> numeral_value (unat n) bytes = unat r \<and> unat r \<le> unat limit"
  using assms(2)
proof (induction bytes arbitrary: i n)
  case Nil
  then show ?case by (auto simp: word_unat_eq_iff)
next
  case (Cons b bytes)
  show ?case
  proof (cases "decimal_digit b")
    case True
    show ?thesis
    proof (cases "10 * unat n + (unat b - 48) > unat limit")
      case over: True
      then show ?thesis
        using digit_step(1) [OF True assms(1) Cons.prems] True numeral_value_grows [of "10 * unat n + (unat b - 48)" bytes]
        by (auto simp: decimal_digit_iff Let_def)
    next
      case False
      then show ?thesis
        using digit_step [OF True assms(1) Cons.prems] True Cons.IH [of "n * 10 + ucast (b - ascii CHR ''0'')" "i + 1"]
        by (simp add: decimal_digit_iff Let_def)
    qed
  qed (auto simp: decimal_digit_iff)
qed

text \<open>A numeral that is too large is an overflow, and the only one.\<close>

lemma numeral_loop_overflow:
  assumes "9 \<le> unat limit" and "unat n \<le> unat limit" and "list_all decimal_digit bytes"
  shows "(\<exists>k. numeral_loop limit bytes i n = Inl (k, True)) \<longleftrightarrow> numeral_value (unat n) bytes > unat limit"
  using assms(2,3)
proof (induction bytes arbitrary: i n)
  case (Cons b bytes)
  then have digit: "decimal_digit b" by simp
  show ?case
  proof (cases "10 * unat n + (unat b - 48) > unat limit")
    case over: True
    then show ?thesis
      using digit_step(1) [OF digit assms(1) Cons.prems(1)] digit numeral_value_grows [of "10 * unat n + (unat b - 48)" bytes]
      by (auto simp: decimal_digit_iff Let_def)
  next
    case False
    then show ?thesis
      using digit_step [OF digit assms(1) Cons.prems(1)] digit Cons.IH [of "n * 10 + ucast (b - ascii CHR ''0'')" "i + 1"] Cons.prems
      by (simp add: decimal_digit_iff Let_def)
  qed
qed simp

lemma parse_u64_iff:
  "parse_u64 descriptor bytes = Inr number \<longleftrightarrow>
     bytes \<noteq> [] \<and> list_all decimal_digit bytes \<and> numeral_value 0 bytes = unat number \<and>
     desc_u64_min descriptor \<le> number \<and> number \<le> desc_u64_max descriptor"
proof -
  have "unat UINTPTR_MAX = 18446744073709551615" by (simp add: unsigned_minus_1_eq_mask mask_eq_exp_minus_1)
  then have "numeral_loop UINTPTR_MAX bytes 0 0 = Inr number \<longleftrightarrow>
      list_all decimal_digit bytes \<and> numeral_value 0 bytes = unat number"
    using numeral_loop_iff [of UINTPTR_MAX 0 bytes 0 number] unat_u64_upper [of number] by simp
  moreover have "parse_u64 descriptor bytes = Inr number \<longleftrightarrow> bytes \<noteq> [] \<and> numeral_loop UINTPTR_MAX bytes 0 0 = Inr number \<and>
      desc_u64_min descriptor \<le> number \<and> number \<le> desc_u64_max descriptor"
    by (auto simp: parse_u64_def not_less split: sum.splits bool.splits if_splits)
  ultimately show ?thesis by blast
qed

lemma sint_small: "unat r < 9223372036854775808 \<Longrightarrow> sint (r :: i64) = int (unat r)"
proof -
  assume "unat r < 9223372036854775808"
  then have "s64 (int (unat r)) = int (unat r)" by (intro s64_id) linarith+
  then show ?thesis unfolding sint_uint uint_nat s64_def by simp
qed

lemma sint_small_iff:
  "n = unat r \<and> unat r \<le> 9223372036854775807 \<longleftrightarrow> sint (r :: i64) = int n" (is "?L \<longleftrightarrow> ?R")
proof
  assume ?L
  then show ?R using sint_small [of r] by simp
next
  assume ?R
  then have n: "n < 9223372036854775808" using sint_i64_upper [of r] by linarith
  then have "sint r = sint (of_nat n :: i64)" using \<open>?R\<close> sint_small [of "of_nat n"] by (simp add: unat_of_nat_u64)
  then have "r = of_nat n" by (rule signed_word_eqI)
  then show ?L using n by (simp add: unat_of_nat_u64)
qed

text \<open>The number an I64 text writes.\<close>

definition signed_numeral :: "u8 list \<Rightarrow> int option" where
  "signed_numeral bytes =
     (case bytes of
        [] \<Rightarrow> None
      | b # digits \<Rightarrow>
          if b = 45 then (if digits \<noteq> [] \<and> list_all decimal_digit digits then Some (- int (numeral_value 0 digits)) else None)
          else if list_all decimal_digit bytes then Some (int (numeral_value 0 bytes)) else None)"

lemma parse_i64_iff:
  "parse_i64 descriptor bytes = Inr number \<longleftrightarrow>
     signed_numeral bytes = Some (sint number) \<and>
     sint (desc_i64_min descriptor) \<le> sint number \<and> sint number \<le> sint (desc_i64_max descriptor)"
proof (cases bytes)
  case Nil
  then show ?thesis by (simp add: parse_i64_def signed_numeral_def)
next
  case (Cons b digits)
  have minus: "ascii CHR ''-'' = 45" by (simp add: ascii_def)
  show ?thesis
  proof (cases "b = 45")
    case True
    have magnitude: "numeral_loop 9223372036854775808 digits 1 0 = Inr r \<longleftrightarrow>
        list_all decimal_digit digits \<and> numeral_value 0 digits = unat r \<and> unat r \<le> 9223372036854775808" for r
      using numeral_loop_iff [of 9223372036854775808 0 digits 1 r] by simp
    define convert :: "u64 \<Rightarrow> i64" where
      "convert r = (if r = 9223372036854775808 then word_of_int INT64_MIN else word_of_int (- sint r))" for r
    have convert: "sint (convert r) = - int (unat r)" if "unat r \<le> 9223372036854775808" for r
    proof (cases "r = 9223372036854775808")
      case False
      then have "unat r < 9223372036854775808" using that by (simp add: word_unat_eq_iff)
      moreover from this have "sint (word_of_int (- int (unat r)) :: i64) = - int (unat r)"
        by (intro sint_word_of_int) linarith+
      ultimately show ?thesis using False sint_small [of r] by (simp add: convert_def)
    qed (simp add: convert_def width_simps)
    have "parse_i64 descriptor bytes = Inr number \<longleftrightarrow> digits \<noteq> [] \<and>
        (\<exists>r. numeral_loop 9223372036854775808 digits 1 0 = Inr r \<and> number = convert r) \<and>
        sint (desc_i64_min descriptor) \<le> sint number \<and> sint number \<le> sint (desc_i64_max descriptor)"
      using True Cons by (auto simp: parse_i64_def minus convert_def Let_def not_less split: sum.splits bool.splits if_splits)
    also have "\<dots> \<longleftrightarrow> digits \<noteq> [] \<and> list_all decimal_digit digits \<and> sint number = - int (numeral_value 0 digits) \<and>
        sint (desc_i64_min descriptor) \<le> sint number \<and> sint number \<le> sint (desc_i64_max descriptor)"
      (is "?A \<longleftrightarrow> ?B")
    proof
      assume ?A
      then show ?B using magnitude convert by auto
    next
      assume b: ?B
      let ?r = "of_nat (numeral_value 0 digits) :: u64"
      have "numeral_value 0 digits \<le> 9223372036854775808" using b sint_i64_lower [of number] by linarith
      then have r: "unat ?r = numeral_value 0 digits" "unat ?r \<le> 9223372036854775808" by (simp_all add: unat_of_nat_u64)
      then have "sint (convert ?r) = sint number" using b convert [of ?r] by simp
      then have "number = convert ?r" by (metis signed_word_eqI)
      then show ?A using b r magnitude [of ?r] by metis
    qed
    finally show ?thesis using True Cons by (auto simp: signed_numeral_def)
  next
    case False
    have magnitude: "numeral_loop 9223372036854775807 bytes 0 0 = Inr r \<longleftrightarrow>
        list_all decimal_digit bytes \<and> numeral_value 0 bytes = unat r \<and> unat r \<le> 9223372036854775807" for r
      using numeral_loop_iff [of 9223372036854775807 0 bytes 0 r] by simp
    have "parse_i64 descriptor bytes = Inr number \<longleftrightarrow> numeral_loop 9223372036854775807 bytes 0 0 = Inr number \<and>
        sint (desc_i64_min descriptor) \<le> sint number \<and> sint number \<le> sint (desc_i64_max descriptor)"
      using False Cons by (auto simp: parse_i64_def minus Let_def not_less split: sum.splits bool.splits if_splits)
    also have "\<dots> \<longleftrightarrow> list_all decimal_digit bytes \<and> sint number = int (numeral_value 0 bytes) \<and>
        sint (desc_i64_min descriptor) \<le> sint number \<and> sint number \<le> sint (desc_i64_max descriptor)"
      unfolding magnitude using sint_small_iff [of "numeral_value 0 bytes" number] by auto
    finally show ?thesis using False Cons by (auto simp: signed_numeral_def)
  qed
qed

end
