(* ===== verification/Config_Result.thy ===== *)
theory Config_Result
  imports Config_Frame Config_Values
begin

text \<open>
  The result of \<open>arbor_config_prepare\<close> of \<open>src/c/config.c\<close>: every call returns; a resolution is a canonical value
  of its descriptor with the source it came from; and the loop of a call that passes its checks writes the resolved
  values, and only the storage it was given.
\<close>

unbundle bit_operations_syntax

section \<open>Termination\<close>

lemma validate_file_returns: "\<exists>r. config_validate_file h s document = Some r"
  using config_validate_file_iff by blast

lemma validate_sources_returns: "\<exists>r. config_validate_sources h s sources = Some r"
proof -
  obtain r where "config_validate_file h s (file_document (heap_sources h sources)) = Some r" using validate_file_returns by blast
  then show ?thesis by (simp add: config_validate_sources_def Let_def split: sum.split)
qed

lemma resolve_descriptor_returns: "\<exists>r. config_resolve_descriptor h s src key = Some r"
proof -
  obtain r where "resolve_file_loop h s (file_document src) key 0 0 (default_resolution (descriptor_at h s key) key) = Some r"
    using resolve_file_loop_returns by blast
  then show ?thesis by (simp add: config_resolve_descriptor_def split: sum.split)
qed

lemma analyze_loop_returns: "\<exists>r. analyze_loop h s src indexes bytes = Some r"
proof (induction indexes arbitrary: bytes)
  case (Cons index indexes)
  obtain r where "config_resolve_descriptor h s src index = Some r" using resolve_descriptor_returns by blast
  then show ?case using Cons by (auto split: sum.split option.split)
qed simp

lemma analyze_returns: "\<exists>r. config_analyze h schema sources = Some r"
proof -
  let ?s = "heap_schema h schema"
  obtain r where "config_validate_sources h ?s sources = Some r" using validate_sources_returns by blast
  moreover obtain q where
    "analyze_loop h ?s (heap_sources h sources) [0..<unat (schema_descriptor_count ?s)] 0 = Some q" using analyze_loop_returns by blast
  ultimately show ?thesis by (auto simp: config_analyze_def Let_def split: sum.split option.split)
qed

lemma prepare_loop_returns: "\<exists>r. prepare_loop h schema sources storage indexes offset = Some r"
proof (induction indexes arbitrary: h offset)
  case (Cons index indexes)
  obtain r where "config_resolve_descriptor h (heap_schema h schema) (heap_sources h sources) index = Some r"
    using resolve_descriptor_returns by blast
  then show ?case using Cons by (auto split: sum.split prod.split)
qed simp

section \<open>Resolutions\<close>

text \<open>A resolution is a canonical value of its descriptor, its provenance names a source, and its text is that of the value.\<close>

definition resolution_ok :: "config_heap \<Rightarrow> arbor_config_schema \<Rightarrow> nat \<Rightarrow> config_resolution \<Rightarrow> bool" where
  "resolution_ok h s key res \<longleftrightarrow>
     (let d = descriptor_at h s key; v = res_value res
      in config_value_canonical h d v True = Inr () \<and> \<not> provenance_bad (res_provenance res) key \<and>
         value_kind v = desc_kind d \<and>
         (desc_kind d = ARBOR_CONFIG_KIND_UTF8 \<longrightarrow>
            res_utf8_source res = span_data (value_utf8 v) \<and> res_utf8_length res = span_length (value_utf8 v)) \<and>
         (desc_kind d \<noteq> ARBOR_CONFIG_KIND_UTF8 \<longrightarrow> res_utf8_length res = 0))"

lemma parse_enum_value:
  "parse_enum h d t = Some v \<Longrightarrow> \<exists>i < unat (desc_enum_choice_count d). choice_value (choice_at h d i) = v"
  by (auto simp: parse_enum_def find_Some_iff)

lemma inactive_zero [simp]: "config_span_inactive zero_span"
  by (simp add: config_span_inactive_def zero_span_def)

lemma reserved_zero [simp]: "config_reserved_zero (0, 0, 0)"
  by (simp add: config_reserved_zero_def)

lemma parse_resolution_ok:
  assumes "config_parse_text_value h (descriptor_at h s key) t source ordinal offset key = Inr res"
    and "source \<in> {ARBOR_CONFIG_SOURCE_FILE, ARBOR_CONFIG_SOURCE_ENVIRONMENT, ARBOR_CONFIG_SOURCE_COMMAND_LINE}"
    and "kind_known (desc_kind (descriptor_at h s key))"
  shows "resolution_ok h s key res"
proof -
  let ?d = "descriptor_at h s key"
  note defs = resolution_ok_def config_parse_text_value_def config_fail_def Let_def config_value_canonical_def kind_value_def
  have prov: "\<not> provenance_bad \<lparr>prov_source = source, prov_reserved0 = 0, prov_ordinal = o', prov_byte_offset = b\<rparr> key" for o' b
    using assms(2) by (auto simp: provenance_bad_def)
  show ?thesis
  proof (cases "desc_kind ?d")
    case ARBOR_CONFIG_KIND_BOOL
    then show ?thesis using assms(1) by (auto simp: defs prov split: option.splits)
  next
    case ARBOR_CONFIG_KIND_U64
    then obtain n where n: "parse_u64 ?d (text_of h t) = Inr n"
      using assms(1) by (cases "parse_u64 ?d (text_of h t)") (auto simp: defs)
    then have "\<not> n < desc_u64_min ?d \<and> \<not> n > desc_u64_max ?d" by (auto simp: parse_u64_iff)
    then show ?thesis using assms(1) ARBOR_CONFIG_KIND_U64 n by (auto simp: defs prov)
  next
    case ARBOR_CONFIG_KIND_I64
    then obtain n where n: "parse_i64 ?d (text_of h t) = Inr n"
      using assms(1) by (cases "parse_i64 ?d (text_of h t)") (auto simp: defs)
    then have "\<not> sint n < sint (desc_i64_min ?d) \<and> \<not> sint n > sint (desc_i64_max ?d)" by (auto simp: parse_i64_iff)
    then show ?thesis using assms(1) ARBOR_CONFIG_KIND_I64 n by (auto simp: defs prov)
  next
    case ARBOR_CONFIG_KIND_UTF8
    then have "parse_utf8 h ?d t = Inr ()"
      using assms(1) by (cases "parse_utf8 h ?d t") (auto simp: defs)
    moreover from this have "\<not> (span_length t = 0 \<and> desc_flags ?d AND ARBOR_CONFIG_DESCRIPTOR_ALLOW_EMPTY = 0)"
      "\<not> span_length t > desc_utf8_max_length ?d" "config_utf8_valid (heap_bytes h) t = Inr ()"
      unfolding parse_utf8_def by (simp_all split: if_splits sum.splits)
    ultimately show ?thesis using assms(1) ARBOR_CONFIG_KIND_UTF8 by (auto simp: defs prov)
  next
    case ARBOR_CONFIG_KIND_ENUM
    then obtain n where n: "parse_enum h ?d t = Some n"
      using assms(1) by (cases "parse_enum h ?d t") (auto simp: defs)
    note parse_enum_value [OF n]
    then show ?thesis using assms(1) ARBOR_CONFIG_KIND_ENUM n by (auto simp: defs prov)
  next
    case (ARBOR_CONFIG_KIND_OUT_OF_ENUM x)
    then show ?thesis using assms(3) by (simp add: kind_known_def)
  qed
qed

lemma schema_accepted:
  assumes "config_validate_schema h schema = Inr ()"
  shows "i < unat (schema_descriptor_count (heap_schema h schema)) \<Longrightarrow> validate_descriptor h (heap_schema h schema) i = Inr ()"
    and "config_array_range (schema_descriptors (heap_schema h schema)) (schema_descriptor_count (heap_schema h schema))
      SIZEOF_DESCRIPTOR \<noteq> None"
  using assms by (auto simp: config_validate_schema_def config_fail_def Let_def for_each_iff split: if_splits)

lemma descriptor_accepted:
  assumes "validate_descriptor h s i = Inr ()"
  shows "\<not> descriptor_flags_bad (descriptor_at h s i)" and "kind_known (desc_kind (descriptor_at h s i))"
    and "validate_default h i (descriptor_at h s i) = Inr ()"
  using assms by (auto simp: validate_descriptor_def config_fail_def Let_def split: if_splits sum.splits bool.splits)

lemma default_requirement:
  assumes "desc_flags d AND ARBOR_CONFIG_DESCRIPTOR_HAS_DEFAULT \<noteq> 0"
  shows "descriptor_requirement d \<noteq> ARBOR_CONFIG_DESCRIPTOR_REQUIRED"
proof
  assume "descriptor_requirement d = ARBOR_CONFIG_DESCRIPTOR_REQUIRED"
  then have "(desc_flags d AND 3) AND 2 = 1 AND 2" by (simp add: descriptor_requirement_def)
  then show False using assms by (simp add: and.assoc)
qed

lemma default_resolution_ok:
  assumes "validate_descriptor h s key = Inr ()" and "desc_flags (descriptor_at h s key) AND ARBOR_CONFIG_DESCRIPTOR_HAS_DEFAULT \<noteq> 0"
  shows "resolution_ok h s key (default_resolution (descriptor_at h s key) key)"
proof -
  let ?d = "descriptor_at h s key"
  have "config_value_canonical h ?d (desc_default_value ?d) True = Inr ()"
    using descriptor_accepted(3) [OF assms(1)] default_requirement [OF assms(2)]
    by (auto simp: validate_default_def config_fail_def split: sum.splits)
  moreover from this have "value_kind (desc_default_value ?d) = desc_kind ?d"
    by (auto simp: config_value_canonical_def split: if_splits)
  ultimately show ?thesis
    using assms(2) by (simp add: resolution_ok_def default_resolution_def Let_def provenance_bad_def)
qed

lemma source_setting_parse:
  assumes "resolved_from h s src key sources = Inr res" and "validate_descriptor h s key = Inr ()"
    and "set sources \<subseteq> {ARBOR_CONFIG_SOURCE_FILE, ARBOR_CONFIG_SOURCE_ENVIRONMENT, ARBOR_CONFIG_SOURCE_COMMAND_LINE}"
  shows "resolution_ok h s key res"
  using assms(1,3)
proof (induction sources)
  case Nil
  then show ?case using default_resolution_ok [OF assms(2)] by (auto simp: config_fail_def split: if_splits)
next
  case (Cons source sources)
  then show ?case
    using parse_resolution_ok descriptor_accepted(2) [OF assms(2)] by (cases "source_setting h s src source key") auto
qed

lemma resolve_resolution_ok:
  assumes "config_validate_schema h schema = Inr ()" and "config_validate_sources h (heap_schema h schema) sources = Some (Inr ())"
    and "key < unat (schema_descriptor_count (heap_schema h schema))"
    and "config_resolve_descriptor h (heap_schema h schema) (heap_sources h sources) key = Some (Inr res)"
  shows "resolution_ok h (heap_schema h schema) key res"
proof -
  have "resolved_from h (heap_schema h schema) (heap_sources h sources) key
      [ARBOR_CONFIG_SOURCE_COMMAND_LINE, ARBOR_CONFIG_SOURCE_ENVIRONMENT, ARBOR_CONFIG_SOURCE_FILE] = Inr res"
    using assms(4) unfolding resolve_descriptor_order [OF assms(2)] option.inject .
  then show ?thesis by (rule source_setting_parse) (use schema_accepted(1) [OF assms(1,3)] in auto)
qed

section \<open>Requirements\<close>

text \<open>What an analysis that succeeds has established.\<close>

definition resolved_length :: "config_heap \<Rightarrow> arbor_config_schema \<Rightarrow> arbor_config_sources \<Rightarrow> nat \<Rightarrow> nat" where
  "resolved_length h s src key =
     (case config_resolve_descriptor h s src key of Some (Inr res) \<Rightarrow> unat (res_utf8_length res) | _ \<Rightarrow> 0)"

lemma analyze_loop_sum:
  assumes "analyze_loop h s src indexes bytes = Some (Inr sum_bytes)"
  shows "unat sum_bytes = unat bytes + sum_list (map (resolved_length h s src) indexes)"
    and "index \<in> set indexes \<Longrightarrow> \<exists>res. config_resolve_descriptor h s src index = Some (Inr res)"
proof -
  have add: "config_u64_add a b = Some c \<Longrightarrow> unat c = unat a + unat b" for a b c
  proof -
    assume "config_u64_add a b = Some c"
    then have "b \<le> UINTPTR_MAX - a" "c = a + b" by (auto simp: config_u64_add_def split: if_splits)
    moreover have "unat (UINTPTR_MAX - a) = 18446744073709551615 - unat a"
      using unat_u64_upper [of a] by (simp add: unat_sub_if_size word_size unsigned_minus_1_eq_mask mask_eq_exp_minus_1)
    ultimately show ?thesis using unat_u64_upper [of a] by (intro trans [OF _ unat_add_u64]) (simp_all add: word_le_nat_alt)
  qed
  have "unat sum_bytes = unat bytes + sum_list (map (resolved_length h s src) indexes) \<and>
      (\<forall>index \<in> set indexes. \<exists>res. config_resolve_descriptor h s src index = Some (Inr res))"
    using assms
  proof (induction indexes arbitrary: bytes)
    case (Cons index indexes)
    obtain res where res: "config_resolve_descriptor h s src index = Some (Inr res)"
      using Cons.prems by (auto split: option.splits sum.splits)
    obtain c where c: "config_u64_add bytes (res_utf8_length res) = Some c" "analyze_loop h s src indexes c = Some (Inr sum_bytes)"
      using Cons.prems res by (auto simp: config_fail_def split: option.splits)
    show ?case using Cons.IH [OF c(2)] add [OF c(1)] res by (simp add: resolved_length_def)
  qed simp
  then show "unat sum_bytes = unat bytes + sum_list (map (resolved_length h s src) indexes)"
    "index \<in> set indexes \<Longrightarrow> \<exists>res. config_resolve_descriptor h s src index = Some (Inr res)" by auto
qed

lemma config_analyze_ok:
  assumes "config_analyze h schema sources = Some (Inr req)"
  shows "config_validate_schema h schema = Inr ()" and "config_validate_sources h (heap_schema h schema) sources = Some (Inr ())"
    and "req_descriptor_count req = schema_descriptor_count (heap_schema h schema)" and "req_scratch_bytes req = req_descriptor_count req"
    and "analyze_loop h (heap_schema h schema) (heap_sources h sources) [0..<unat (req_descriptor_count req)] 0 =
      Some (Inr (req_persistent_bytes req))"
  using assms
  by (auto simp: config_analyze_def config_fail_def Let_def split: sum.splits option.splits)

section \<open>The texts of resolutions\<close>

lemma doc_lines_at:
  "(offset, line) \<in> set (lines_at bytes cursor) \<Longrightarrow> offset < length bytes \<and> line = line_at bytes offset"
proof (induction "length bytes - cursor" arbitrary: cursor rule: less_induct)
  case less
  show ?case
  proof (cases "cursor < length bytes")
    case True
    then have "(offset, line) = (cursor, line_at bytes cursor) \<or> (offset, line) \<in> set (lines_at bytes (next_line bytes cursor))"
      using less.prems lines_at_step(1) by auto
    moreover have "length bytes - next_line bytes cursor < length bytes - cursor" using True lines_at_step(2) [OF True] by simp
    ultimately show ?thesis using less.hyps True by blast
  qed (use less.prems in simp)
qed

lemma source_setting_agree:
  assumes agree: "agree h h' s src" and "source_setting h s src source key = Some rec"
  shows "text_of h' (rec_value rec) = text_of h (rec_value rec)"
proof -
  have vector: "text_of h' (rec_value rec) = text_of h (rec_value rec)"
    if v: "vector_setting h s entries count source key = Some rec"
      and texts: "\<And>i. i < unat count \<Longrightarrow> text_of h' (entry_at h entries i) = text_of h (entry_at h entries i)" for entries count
  proof -
    obtain i where "find (entry_names h s entries source key) [0..<unat count] = Some i" "vector_record h entries source i = Inr rec"
      using v by (auto simp: vector_setting_def split: option.splits sum.splits)
    then have "i < unat count" "config_vector_record (heap_bytes h) (entry_at h entries i) i source = Inr rec"
      by (auto simp: find_Some_iff vector_record_def)
    then show ?thesis using vector_record_parts(3) [OF texts] by blast
  qed
  have from_file: "text_of h' (rec_value rec) = text_of h (rec_value rec)" if f: "file_setting h s (file_document src) key = Some rec"
  proof -
    let ?doc = "file_document src"
    let ?entries = "doc_lines 0 (text_of h ?doc)"
    obtain i where i: "i < length ?entries" "line_names h s ?doc key (?entries ! i)"
      "rec = setting ?doc i (fst (?entries ! i)) (snd (?entries ! i))"
      using f by (auto simp: file_setting_def Let_def find_Some_iff)
    have "(fst (?entries ! i), snd (?entries ! i)) \<in> set (lines_at (text_of h ?doc) 0)" using nth_mem [OF i(1)] by simp
    then have line: "fst (?entries ! i) < length (text_of h ?doc)"
      "snd (?entries ! i) = line_at (text_of h ?doc) (fst (?entries ! i))"
      using doc_lines_at by blast+
    have "fst (?entries ! i) + length (snd (?entries ! i)) \<le> unat (span_length ?doc)"
      using line_at_length [OF line(1)] unfolding line(2) by simp
    moreover have "name_length (snd (?entries ! i)) < length (snd (?entries ! i))"
      using i(2) by (simp add: line_names_def split: prod.splits)
    ultimately show ?thesis
      unfolding i(3) using setting_parts(2) agree_texts [OF agree in_input_texts(2)] by blast
  qed
  show ?thesis
  proof (cases source)
    case ARBOR_CONFIG_SOURCE_FILE
    then show ?thesis using assms(2) from_file by (simp add: source_setting_def)
  next
    case ARBOR_CONFIG_SOURCE_ENVIRONMENT
    then show ?thesis
      using assms(2) vector [of "environment_entries src" "environment_count src"] agree_texts [OF agree in_input_texts(3)]
      by (simp add: source_setting_def)
  next
    case ARBOR_CONFIG_SOURCE_COMMAND_LINE
    then show ?thesis
      using assms(2) vector [of "command_line_entries src" "command_line_count src"] agree_texts [OF agree in_input_texts(4)]
      by (simp add: source_setting_def)
  qed (use assms(2) in \<open>simp_all add: source_setting_def\<close>)
qed

lemma parse_text:
  assumes "config_parse_text_value h d t source ordinal offset key = Inr res"
  shows "desc_kind d = ARBOR_CONFIG_KIND_UTF8 \<Longrightarrow> res_utf8_source res = span_data t \<and> res_utf8_length res = span_length t"
    and "desc_kind d \<noteq> ARBOR_CONFIG_KIND_UTF8 \<Longrightarrow> res_utf8_length res = 0"
  using assms by (auto simp: config_parse_text_value_def config_fail_def Let_def split: arbor_config_kind.splits option.splits sum.splits)

abbreviation resolution_text :: "config_heap \<Rightarrow> config_resolution \<Rightarrow> u8 list" where
  "resolution_text h res \<equiv> bytes_at (heap_bytes h) (res_utf8_source res) (res_utf8_length res)"

lemma resolved_text_agree:
  assumes agree: "agree h h' s src" and key: "key < unat (schema_descriptor_count s)"
    and "resolved_from h s src key sources = Inr res"
  shows "resolution_text h' res = resolution_text h res"
  using assms(3)
proof (induction sources)
  case Nil
  let ?d = "descriptor_at h s key"
  have default: "desc_flags ?d AND ARBOR_CONFIG_DESCRIPTOR_HAS_DEFAULT \<noteq> 0" "res = default_resolution ?d key"
    using Nil by (auto simp: config_fail_def split: if_splits)
  then show ?case
    using agree_texts [OF agree in_input_texts(1) [OF key default_text]]
    by (cases "desc_kind ?d = ARBOR_CONFIG_KIND_UTF8") (auto simp: default_resolution_def Let_def)
next
  case (Cons source sources)
  show ?case
  proof (cases "source_setting h s src source key")
    case (Some rec)
    then show ?thesis
      using Cons.prems source_setting_agree [OF agree Some] parse_text
      by (cases "desc_kind (descriptor_at h s key) = ARBOR_CONFIG_KIND_UTF8") fastforce+
  qed (use Cons in simp)
qed

end
