(* ===== verification/Config_Ranges.thy ===== *)
theory Config_Ranges
  imports Config_Result
begin

text \<open>
  What the address checks of \<open>src/c/config.c\<close> give: every text of an accepted schema and accepted sources has a
  representable range, and what a call writes overlaps none of them.
\<close>

unbundle bit_operations_syntax

section \<open>Ranges of the inputs\<close>

abbreviation span_valid :: "arbor_span \<Rightarrow> bool" where
  "span_valid t \<equiv> object_span_valid (span_data t) (span_length t)"

lemma span_range_iff: "span_range t \<noteq> None \<longleftrightarrow> span_valid t"
  unfolding span_range_def by (rule config_range_make_iff)

lemma name_span_valid: "config_name_valid m name environment enumeration = Inr () \<Longrightarrow> span_valid name"
  by (auto simp: config_name_valid_def config_range_make_iff [symmetric] split: if_splits)

lemma accepted_names:
  assumes "validate_descriptor h s i = Inr ()"
  shows "span_valid (config_descriptor_name (descriptor_at h s i) ns)"
proof -
  have "for_each (validate_name h s i) config_namespaces = Inr ()"
    using assms by (auto simp: validate_descriptor_def config_fail_def Let_def split: if_splits sum.splits bool.splits)
  moreover have "ns \<in> set config_namespaces" by (cases ns) (simp_all add: config_namespaces_def)
  ultimately have "validate_name h s i ns = Inr ()" unfolding for_each_iff by blast
  then show ?thesis
    by (intro name_span_valid) (auto simp: validate_name_def config_fail_def Let_def split: if_splits sum.splits)
qed

lemma accepted_choices:
  assumes "validate_descriptor h s i = Inr ()" and "desc_kind (descriptor_at h s i) = ARBOR_CONFIG_KIND_ENUM"
    and "c < unat (desc_enum_choice_count (descriptor_at h s i))"
  shows "span_valid (choice_name (choice_at h (descriptor_at h s i) c))"
proof -
  have "validate_constraints h i (descriptor_at h s i) = Inr True"
    using assms(1) by (auto simp: validate_descriptor_def config_fail_def Let_def split: if_splits sum.splits bool.splits)
  then have "for_each (validate_choice h i (descriptor_at h s i)) [0..<unat (desc_enum_choice_count (descriptor_at h s i))] = Inr ()"
    using assms(2) by (auto simp: validate_constraints_def Let_def split: if_splits sum.splits)
  then have "validate_choice h i (descriptor_at h s i) c = Inr ()"
    using assms(3) unfolding for_each_iff by simp
  then show ?thesis
    by (intro name_span_valid) (auto simp: validate_choice_def config_fail_def split: if_splits sum.splits)
qed

lemma accepted_default:
  assumes "validate_descriptor h s i = Inr ()" and "desc_kind (descriptor_at h s i) = ARBOR_CONFIG_KIND_UTF8"
    and "desc_flags (descriptor_at h s i) AND ARBOR_CONFIG_DESCRIPTOR_HAS_DEFAULT \<noteq> 0"
  shows "span_valid (value_utf8 (desc_default_value (descriptor_at h s i)))"
proof -
  have "config_utf8_valid (heap_bytes h) (value_utf8 (desc_default_value (descriptor_at h s i))) = Inr ()"
    using descriptor_accepted(3) [OF assms(1)] default_requirement [OF assms(3)] assms(2)
    by (auto simp: validate_default_def config_value_canonical_def config_fail_def split: if_splits sum.splits)
  then show ?thesis by (auto simp: config_utf8_valid_def config_range_make_iff [symmetric] split: if_splits)
qed

lemma accepted_entry:
  assumes "config_validate_vector h s entries count source = Inr ()" and "i < unat count"
  shows "span_valid (entry_at h entries i)"
proof -
  obtain rec where "config_vector_record (heap_bytes h) (entry_at h entries i) i source = Inr rec"
    using assms by (auto simp: config_validate_vector_accepts entries_ok_def entry_ok_def vector_record_def)
  then show ?thesis
    by (auto simp: config_vector_record_def config_fail_def config_range_make_iff [symmetric] split: if_splits)
qed

lemma input_texts_valid:
  assumes "config_validate_schema h schema = Inr ()" and "config_validate_sources h (heap_schema h schema) sources = Some (Inr ())"
    and "t \<in> set (input_texts h (heap_schema h schema) (heap_sources h sources))"
  shows "span_valid t"
proof -
  let ?s = "heap_schema h schema" and ?src = "heap_sources h sources"
  note ok = assms(2) [unfolded config_validate_sources_accepts Let_def]
  have descriptor: "span_valid t" if i: "i < unat (schema_descriptor_count ?s)" and t: "t \<in> set (descriptor_texts h (descriptor_at h ?s i))" for i
    using t accepted_names [OF schema_accepted(1) [OF assms(1) i]] accepted_choices [OF schema_accepted(1) [OF assms(1) i]]
      accepted_default [OF schema_accepted(1) [OF assms(1) i]]
    by (auto simp: descriptor_texts_def split: if_splits)
  have document: "span_valid (file_document ?src)" using ok by (simp add: config_validate_file_accepts)
  show ?thesis
    using assms(3) descriptor document accepted_entry ok by (auto simp: input_texts_def)
qed

section \<open>Ranges of the outputs\<close>

lemma overlap_reported:
  assumes "t \<in> set (input_texts h (heap_schema h schema) (heap_sources h sources))" and "overlaps_input w (span_range t)"
  shows "config_writable_against_inputs h w schema sources"
  using assms
  by (fastforce simp: config_writable_against_inputs_def config_range_overlaps_schema_def config_range_overlaps_sources_def
      Let_def input_texts_def descriptor_texts_def descriptor_ranges_def entry_ranges_def list_ex_iff split: if_splits)

lemma apart_from_text:
  assumes "span_range w = Some r" and "\<not> config_writable_against_inputs h r schema sources"
    and "t \<in> set (input_texts h (heap_schema h schema) (heap_sources h sources))" and "span_valid t"
  shows "\<not> spans_overlap (span_data w) (span_length w) (span_data t) (span_length t)"
proof -
  obtain q where q: "span_range t = Some q" using assms(4) span_range_iff by blast
  then have "\<not> config_ranges_overlap r q" using overlap_reported [OF assms(3)] assms(2) by (auto simp: overlaps_input_def)
  then show ?thesis using config_ranges_overlap_iff assms(1) q unfolding span_range_def by blast
qed

text \<open>What a call of \<open>arbor_config_prepare\<close> that passes its checks knows of the storage.\<close>

lemma prepare_ranges_ok:
  assumes "config_prepare_ranges h schema sources storage result_out diagnostic_out = (writable, Inr ())"
  defines "st \<equiv> heap_storage h storage"
  shows "config_range_make result_out SIZEOF_RESULT \<noteq> None"
    and "config_array_range (storage_values st) (value_capacity st) SIZEOF_VALUE \<noteq> None"
    and "config_array_range (storage_provenance st) (provenance_capacity st) SIZEOF_PROVENANCE \<noteq> None"
    and "\<exists>r. span_range (storage_scratch st) = Some r \<and> \<not> config_writable_against_inputs h r schema sources"
    and "\<exists>r. span_range (storage_persistent st) = Some r \<and> \<not> config_writable_against_inputs h r schema sources"
    and "\<not> spans_overlap (span_data (storage_scratch st)) (span_length (storage_scratch st))
      (span_data (storage_persistent st)) (span_length (storage_persistent st))"
proof -
  have made: "list_all (\<lambda>r. r \<noteq> None) (output_ranges h storage result_out)"
    and apart: "outputs_apart h schema sources (the (config_range_make storage SIZEOF_STORAGE)) []
      (map the (output_ranges h storage result_out))"
    using assms(1) by (auto simp: config_prepare_ranges_def alias_failure_def config_fail_def Let_def split: if_splits)
  from made show "config_range_make result_out SIZEOF_RESULT \<noteq> None"
    "config_array_range (storage_values st) (value_capacity st) SIZEOF_VALUE \<noteq> None"
    "config_array_range (storage_provenance st) (provenance_capacity st) SIZEOF_PROVENANCE \<noteq> None"
    by (simp_all add: output_ranges_def Let_def st_def)
  obtain c p where cp: "span_range (storage_scratch st) = Some c" "span_range (storage_persistent st) = Some p"
    using made by (auto simp: output_ranges_def Let_def st_def)
  then show "\<exists>r. span_range (storage_scratch st) = Some r \<and> \<not> config_writable_against_inputs h r schema sources"
    "\<exists>r. span_range (storage_persistent st) = Some r \<and> \<not> config_writable_against_inputs h r schema sources"
    using apart by (auto simp: output_ranges_def Let_def st_def)
  have "\<not> config_ranges_overlap p c" using apart cp by (auto simp: output_ranges_def Let_def st_def)
  then show "\<not> spans_overlap (span_data (storage_scratch st)) (span_length (storage_scratch st))
      (span_data (storage_persistent st)) (span_length (storage_persistent st))"
    using cp config_ranges_overlap_iff spans_overlap_commute unfolding span_range_def by blast
qed

text \<open>The slots of an array that has a range are distinct.\<close>

lemma slots_distinct:
  assumes "config_array_range p count width \<noteq> None" and "width \<noteq> 0" and "j < k" and "k < unat count"
  shows "p + of_nat j * width \<noteq> p + of_nat k * width"
proof -
  have "\<not> width > UINTPTR_MAX div count"
    using assms by (auto simp: config_array_range_def config_u64_multiply_def split: if_splits)
  then have "width \<le> UINTPTR_MAX div count" by simp
  then have "unat width \<le> unat UINTPTR_MAX div unat count" unfolding word_le_nat_alt unat_div .
  then have total: "unat width * unat count \<le> 18446744073709551615"
    using assms(4) by (simp add: less_eq_div_iff_mult_less_eq unsigned_minus_1_eq_mask mask_eq_exp_minus_1)
  have slot: "unat (of_nat i * width) = i * unat width" if "i < unat count" for i
  proof -
    have i: "unat (of_nat i :: u64) = i" using that unat_u64_upper [of count] by (intro unat_of_nat_u64) simp
    have "i * unat width \<le> unat count * unat width" using that by (intro mult_right_mono) simp_all
    also have "\<dots> < 18446744073709551616" using total by (simp add: mult.commute)
    finally show ?thesis using i by (subst unat_mult_lem [THEN iffD1]) simp_all
  qed
  have "j * unat width < k * unat width" using assms(2,3) by (simp add: unat_gt_0)
  then have "unat (of_nat j * width) \<noteq> unat (of_nat k * width)" using slot assms(3,4) by simp
  then show ?thesis by auto
qed

end
