(* ===== verification/Config_Outcome.thy ===== *)
theory Config_Outcome
  imports Config_Ranges Byte_Ranges
begin

text \<open>
  The loop of \<open>arbor_config_prepare\<close> of \<open>src/c/config.c\<close>: after each turn the persistent buffer holds the texts
  resolved so far, one after the other, the slots hold their values and provenance, and nothing else has changed, so
  that every later turn resolves what the analysis has resolved.
\<close>

section \<open>What the loop writes\<close>

definition resolution_of :: "config_heap \<Rightarrow> arbor_config_schema \<Rightarrow> arbor_config_sources \<Rightarrow> nat \<Rightarrow> config_resolution" where
  "resolution_of h s src key =
     (case config_resolve_descriptor h s src key of Some (Inr res) \<Rightarrow> res | _ \<Rightarrow> config_resolution_zero)"

definition text_start :: "config_heap \<Rightarrow> arbor_config_schema \<Rightarrow> arbor_config_sources \<Rightarrow> nat \<Rightarrow> nat" where
  "text_start h s src k = sum_list (map (resolved_length h s src) [0..<k])"

text \<open>A text value points into the persistent buffer at the start of its copy, and an empty one nowhere.\<close>

definition stored_value :: "addr \<Rightarrow> nat \<Rightarrow> config_resolution \<Rightarrow> arbor_config_value" where
  "stored_value persistent start res =
     (let v = res_value res
      in if value_kind v \<noteq> ARBOR_CONFIG_KIND_UTF8 then v
         else v\<lparr>value_utf8 := if res_utf8_length res = 0 then zero_span
                              else \<lparr>span_data = persistent + of_nat start, span_length = res_utf8_length res\<rparr>\<rparr>)"

abbreviation value_slot :: "arbor_config_storage \<Rightarrow> nat \<Rightarrow> addr" where
  "value_slot st i \<equiv> storage_values st + of_nat i * SIZEOF_VALUE"

abbreviation provenance_slot :: "arbor_config_storage \<Rightarrow> nat \<Rightarrow> addr" where
  "provenance_slot st i \<equiv> storage_provenance st + of_nat i * SIZEOF_PROVENANCE"

abbreviation apart :: "arbor_span \<Rightarrow> addr \<Rightarrow> u64 \<Rightarrow> bool" where
  "apart t data len \<equiv> \<not> spans_overlap (span_data t) (span_length t) data len"

definition resolutions_stored ::
    "config_heap \<Rightarrow> config_heap \<Rightarrow> arbor_config_schema \<Rightarrow> arbor_config_sources \<Rightarrow> arbor_config_storage \<Rightarrow> nat \<Rightarrow> bool" where
  "resolutions_stored h h' s src st k \<longleftrightarrow>
     (let persistent = span_data (storage_persistent st)
      in bytes_at (heap_bytes h') persistent (of_nat (text_start h s src k)) =
           concat (map (\<lambda>i. resolution_text h (resolution_of h s src i)) [0..<k]) \<and>
         (\<forall>i < k. heap_value h' (value_slot st i) = stored_value persistent (text_start h s src i) (resolution_of h s src i)) \<and>
         (\<forall>i < k. heap_provenance h' (provenance_slot st i) = res_provenance (resolution_of h s src i)))"

definition only_storage_written :: "config_heap \<Rightarrow> config_heap \<Rightarrow> arbor_config_storage \<Rightarrow> nat \<Rightarrow> bool" where
  "only_storage_written h h' st k \<longleftrightarrow>
     same_objects h h' \<and> heap_requirements h' = heap_requirements h \<and> heap_result h' = heap_result h \<and>
     heap_diagnostic h' = heap_diagnostic h \<and>
     (\<forall>a. (\<forall>i < k. a \<noteq> value_slot st i) \<longrightarrow> heap_value h' a = heap_value h a) \<and>
     (\<forall>a. (\<forall>i < k. a \<noteq> provenance_slot st i) \<longrightarrow> heap_provenance h' a = heap_provenance h a) \<and>
     (\<forall>data len. apart (storage_scratch st) data len \<longrightarrow> apart (storage_persistent st) data len \<longrightarrow>
        bytes_at (heap_bytes h') data len = bytes_at (heap_bytes h) data len) \<and>
     (\<forall>a. heap_bytes h' a \<noteq> heap_bytes h a \<longrightarrow>
        unat a \<in> bytes_from (span_data (storage_scratch st)) (unat (span_length (storage_scratch st))) \<union>
          bytes_from (span_data (storage_persistent st)) (unat (span_length (storage_persistent st))))"

text \<open>What the checks of a call have established before the loop.\<close>

definition storage_ready :: "config_heap \<Rightarrow> addr \<Rightarrow> addr \<Rightarrow> arbor_config_storage \<Rightarrow> bool" where
  "storage_ready h schema sources st \<longleftrightarrow>
     (let s = heap_schema h schema; src = heap_sources h sources; n = unat (schema_descriptor_count s)
      in config_validate_schema h schema = Inr () \<and> config_validate_sources h s sources = Some (Inr ()) \<and>
         (\<forall>i < n. \<exists>res. config_resolve_descriptor h s src i = Some (Inr res)) \<and>
         text_start h s src n \<le> unat (span_length (storage_persistent st)) \<and>
         n \<le> unat (value_capacity st) \<and> n \<le> unat (provenance_capacity st) \<and>
         n \<le> unat (span_length (storage_scratch st)) \<and>
         config_array_range (storage_values st) (value_capacity st) SIZEOF_VALUE \<noteq> None \<and>
         config_array_range (storage_provenance st) (provenance_capacity st) SIZEOF_PROVENANCE \<noteq> None \<and>
         span_valid (storage_scratch st) \<and> span_valid (storage_persistent st) \<and>
         apart (storage_scratch st) (span_data (storage_persistent st)) (span_length (storage_persistent st)) \<and>
         (\<forall>t \<in> set (input_texts h s src). apart (storage_scratch st) (span_data t) (span_length t) \<and>
            apart (storage_persistent st) (span_data t) (span_length t)))"

lemma text_start_Suc: "text_start h s src (Suc k) = text_start h s src k + resolved_length h s src k"
  by (simp add: text_start_def)

lemma text_start_mono: "i \<le> k \<Longrightarrow> text_start h s src i \<le> text_start h s src k"
  by (induction k) (auto simp: text_start_Suc le_Suc_eq)

lemma resolution_of_eq:
  "config_resolve_descriptor h s src key = Some (Inr res) \<Longrightarrow> resolution_of h s src key = res"
  "config_resolve_descriptor h s src key = Some (Inr res) \<Longrightarrow> resolved_length h s src key = unat (res_utf8_length res)"
  by (simp_all add: resolution_of_def resolved_length_def)

lemma storage_readyI:
  assumes "config_analyze h schema sources = Some (Inr req)"
    and "config_prepare_ranges h schema sources storage result_out diagnostic_out = (writable, Inr ())"
    and "\<not> (value_capacity (heap_storage h storage) < req_descriptor_count req \<or>
      provenance_capacity (heap_storage h storage) < req_descriptor_count req \<or>
      span_length (storage_scratch (heap_storage h storage)) < req_scratch_bytes req \<or>
      span_length (storage_persistent (heap_storage h storage)) < req_persistent_bytes req)"
  shows "storage_ready h schema sources (heap_storage h storage)"
    and "unat (req_persistent_bytes req) =
      text_start h (heap_schema h schema) (heap_sources h sources) (unat (schema_descriptor_count (heap_schema h schema)))"
proof -
  note analysis = config_analyze_ok [OF assms(1)] and ranges = prepare_ranges_ok [OF assms(2)]
  note sum = analyze_loop_sum [OF analysis(5)]
  show total: "unat (req_persistent_bytes req) =
      text_start h (heap_schema h schema) (heap_sources h sources) (unat (schema_descriptor_count (heap_schema h schema)))"
    using sum(1) by (simp add: text_start_def analysis(3))
  have texts: "apart w (span_data t) (span_length t)"
    if "\<exists>r. span_range w = Some r \<and> \<not> config_writable_against_inputs h r schema sources"
      and "t \<in> set (input_texts h (heap_schema h schema) (heap_sources h sources))" for w t
    using that apart_from_text input_texts_valid [OF analysis(1,2)] by blast
  have valid: "span_valid (storage_scratch (heap_storage h storage))" "span_valid (storage_persistent (heap_storage h storage))"
    using ranges(4,5) span_range_iff by blast+
  show "storage_ready h schema sources (heap_storage h storage)"
    unfolding storage_ready_def Let_def
    using analysis(1,2) sum(2) ranges(2,3,6) texts [OF ranges(4)] texts [OF ranges(5)] valid assms(3)
    by (auto simp: analysis(3,4) total word_less_nat_alt)
qed

section \<open>One turn\<close>

lemma store_resolution_eq:
  assumes "resolution_ok g s index res" and "unat offset = start"
  shows "store_resolution h st index offset res =
    (h\<lparr>heap_bytes := store_bytes (store_bytes (heap_bytes h) (span_data (storage_persistent st) + offset) (resolution_text h res))
          (span_data (storage_scratch st) + of_nat index) [1],
       heap_value := (heap_value h)(value_slot st index := stored_value (span_data (storage_persistent st)) start res),
       heap_provenance := (heap_provenance h)(provenance_slot st index := res_provenance res)\<rparr>,
     offset + res_utf8_length res)"
proof -
  have "res_utf8_length res = 0" if "value_kind (res_value res) \<noteq> ARBOR_CONFIG_KIND_UTF8"
    using assms(1) that by (auto simp: resolution_ok_def Let_def)
  moreover have "of_nat start = offset" using assms(2) by auto
  ultimately show ?thesis by (auto simp: store_resolution_def stored_value_def Let_def)
qed

lemma apart_prefix:
  assumes "apart t data len" and "span_valid \<lparr>span_data = data, span_length = len\<rparr>" and "unat n \<le> unat len"
  shows "apart t data n"
  using assms unfolding spans_disjoint_iff object_span_valid_iff by (auto simp: unat_eq_zero)

lemma frame_agree:
  assumes "storage_ready h schema sources st" and "only_storage_written h h' st k"
  shows "agree h h' (heap_schema h schema) (heap_sources h sources)"
  using assms by (simp add: agree_def only_storage_written_def storage_ready_def Let_def)

lemma stored_step:
  assumes ready: "storage_ready h schema sources st" and k: "k < unat (schema_descriptor_count (heap_schema h schema))"
    and stored: "resolutions_stored h h' (heap_schema h schema) (heap_sources h sources) st k"
    and frame: "only_storage_written h h' st k"
    and res: "config_resolve_descriptor h (heap_schema h schema) (heap_sources h sources) k = Some (Inr res)"
    and next_heap: "h'' = h'\<lparr>heap_bytes := store_bytes (store_bytes (heap_bytes h')
        (span_data (storage_persistent st) + of_nat (text_start h (heap_schema h schema) (heap_sources h sources) k))
        (resolution_text h res)) (span_data (storage_scratch st) + of_nat k) [1],
      heap_value := (heap_value h')(value_slot st k :=
        stored_value (span_data (storage_persistent st)) (text_start h (heap_schema h schema) (heap_sources h sources) k) res),
      heap_provenance := (heap_provenance h')(provenance_slot st k := res_provenance res)\<rparr>"
  shows "resolutions_stored h h'' (heap_schema h schema) (heap_sources h sources) st (Suc k)"
    and "only_storage_written h h'' st (Suc k)"
proof -
  define s where "s = heap_schema h schema"
  define src where "src = heap_sources h sources"
  define P where "P = storage_persistent st"
  define C where "C = storage_scratch st"
  note known = ready [unfolded storage_ready_def Let_def, folded s_def src_def P_def C_def]
  note named = stored frame res k next_heap
  note named = named [folded s_def src_def P_def C_def]
  let ?text = "resolution_text h res" and ?at = "text_start h s src k"
  have len: "length ?text = resolved_length h s src k" using resolution_of_eq(2) [OF named(3)] by simp
  have fits: "?at + length ?text \<le> unat (span_length P)"
    using known text_start_mono [of "Suc k" "unat (schema_descriptor_count s)" h s src] named(4)
    unfolding len by (simp add: text_start_Suc)
  have at: "unat (of_nat ?at :: u64) = ?at" using fits unat_u64_upper [of "span_length P"] by (intro unat_of_nat_u64) linarith
  have room: "k + length [1 :: u8] \<le> unat (span_length C)" using known named(4) by simp
  have slot: "value_slot st i \<noteq> value_slot st k" "provenance_slot st i \<noteq> provenance_slot st k" if "i < k" for i
    using known named(4) that slots_distinct [of "storage_values st" "value_capacity st" SIZEOF_VALUE i k]
      slots_distinct [of "storage_provenance st" "provenance_capacity st" SIZEOF_PROVENANCE i k] by simp_all
  let ?first = "store_bytes (heap_bytes h') (span_data P + of_nat ?at) ?text"
  have outside: "bytes_at (heap_bytes h'') data m = bytes_at ?first data m" if "apart C data m" for data m
    using store_inside_span [OF _ room that] known named(5) by simp
  show "only_storage_written h h'' st (Suc k)"
  proof -
    have "bytes_at (heap_bytes h'') data m = bytes_at (heap_bytes h) data m" if "apart C data m" "apart P data m" for data m
      using outside [OF that(1)] store_inside_span [OF _ fits that(2)] known named(2) that
      by (simp add: only_storage_written_def C_def P_def)
    moreover have "unat a \<in> bytes_from (span_data C) (unat (span_length C)) \<union> bytes_from (span_data P) (unat (span_length P))"
      if changed: "heap_bytes h'' a \<noteq> heap_bytes h a" for a
    proof -
      consider "heap_bytes h'' a \<noteq> ?first a" | "?first a \<noteq> heap_bytes h' a" | "heap_bytes h' a \<noteq> heap_bytes h a"
        using changed by (cases "?first a = heap_bytes h' a"; cases "heap_bytes h' a = heap_bytes h a") auto
      then show ?thesis
      proof cases
        case 1
        then show ?thesis using store_bytes_inside [OF _ room, of "span_data C" ?first a] known named(5) by simp
      next
        case 2
        then show ?thesis using store_bytes_inside [OF _ fits, of "span_data P" "heap_bytes h'" a] known by simp
      next
        case 3
        then show ?thesis using named(2) by (auto simp: only_storage_written_def C_def P_def)
      qed
    qed
    ultimately show ?thesis
      using named(2) by (auto simp: only_storage_written_def same_objects_def named(5) C_def P_def less_Suc_eq)
  qed
  have "bytes_at (heap_bytes h'') (span_data P) (of_nat (?at + length ?text)) =
      bytes_at (heap_bytes h') (span_data P) (of_nat ?at) @ ?text"
  proof -
    have total: "unat (of_nat (?at + length ?text) :: u64) = ?at + length ?text"
      using fits unat_u64_upper [of "span_length P"] by (intro unat_of_nat_u64) linarith
    have "apart C (span_data P) (of_nat (?at + length ?text))"
      using apart_prefix [of C "span_data P" "span_length P"] known fits total by simp
    then have "bytes_at (heap_bytes h'') (span_data P) (of_nat (?at + length ?text)) =
        bytes_at ?first (span_data P) (of_nat (?at + length ?text))" by (rule outside)
    also have "\<dots> = bytes_at (heap_bytes h') (span_data P) (of_nat ?at) @ ?text"
      using bytes_at_extend(2) [of "span_data P" "span_length P" "of_nat ?at" ?text "heap_bytes h'"] known fits at by simp
    finally show ?thesis .
  qed
  then show "resolutions_stored h h'' (heap_schema h schema) (heap_sources h sources) st (Suc k)"
    using named(1) slot unfolding s_def [symmetric] src_def [symmetric]
    by (auto simp: resolutions_stored_def Let_def text_start_Suc len [symmetric] resolution_of_eq(1) [OF named(3)] named(5) P_def
        less_Suc_eq)
qed

section \<open>The loop\<close>

lemma stored_text_start:
  assumes "storage_ready h schema sources st" and "k \<le> unat (schema_descriptor_count (heap_schema h schema))"
  shows "unat (of_nat (text_start h (heap_schema h schema) (heap_sources h sources) k) :: u64) =
    text_start h (heap_schema h schema) (heap_sources h sources) k"
  using assms text_start_mono [OF assms(2), of h "heap_schema h schema" "heap_sources h sources"]
    unat_u64_upper [of "span_length (storage_persistent st)"]
  unfolding storage_ready_def Let_def by (intro unat_of_nat_u64) linarith

lemma prepare_loop_stores:
  assumes ready: "storage_ready h schema sources (heap_storage h storage)"
    and "resolutions_stored h h' (heap_schema h schema) (heap_sources h sources) (heap_storage h storage) k"
    and "only_storage_written h h' (heap_storage h storage) k" and "k \<le> unat (schema_descriptor_count (heap_schema h schema))"
  shows "\<exists>h''. prepare_loop h' schema sources storage [k..<unat (schema_descriptor_count (heap_schema h schema))]
      (of_nat (text_start h (heap_schema h schema) (heap_sources h sources) k)) = Some (Inr h'') \<and>
    resolutions_stored h h'' (heap_schema h schema) (heap_sources h sources) (heap_storage h storage)
      (unat (schema_descriptor_count (heap_schema h schema))) \<and>
    only_storage_written h h'' (heap_storage h storage) (unat (schema_descriptor_count (heap_schema h schema)))"
  using assms(2-)
proof (induction "unat (schema_descriptor_count (heap_schema h schema)) - k" arbitrary: h' k)
  case 0
  then show ?case by auto
next
  case (Suc m)
  let ?s = "heap_schema h schema" and ?src = "heap_sources h sources" and ?st = "heap_storage h storage"
  have k: "k < unat (schema_descriptor_count ?s)" using Suc.hyps(2) by simp
  note known = ready [unfolded storage_ready_def Let_def]
  obtain res where res: "config_resolve_descriptor h ?s ?src k = Some (Inr res)" using known k by blast
  note agree = frame_agree [OF ready Suc.prems(2)]
  have same: "heap_schema h' = heap_schema h" "heap_sources h' = heap_sources h" "heap_storage h' = heap_storage h"
    using agree_objects [OF agree] by (simp_all add: same_objects_def)
  have again: "config_resolve_descriptor h' ?s ?src k = Some (Inr res)" using resolve_descriptor_agree [OF agree k] res by simp
  have "resolved_from h ?s ?src k [ARBOR_CONFIG_SOURCE_COMMAND_LINE, ARBOR_CONFIG_SOURCE_ENVIRONMENT, ARBOR_CONFIG_SOURCE_FILE] = Inr res"
    using res resolve_descriptor_order known unfolding option.inject by (metis option.inject)
  then have text_same: "resolution_text h' res = resolution_text h res" by (rule resolved_text_agree [OF agree k])
  have ok: "resolution_ok h ?s k res" using resolve_resolution_ok [OF _ _ k res] known by blast
  define h'' where "h'' = h'\<lparr>heap_bytes := store_bytes (store_bytes (heap_bytes h')
        (span_data (storage_persistent ?st) + of_nat (text_start h ?s ?src k)) (resolution_text h res))
        (span_data (storage_scratch ?st) + of_nat k) [1],
      heap_value := (heap_value h')(value_slot ?st k := stored_value (span_data (storage_persistent ?st)) (text_start h ?s ?src k) res),
      heap_provenance := (heap_provenance h')(provenance_slot ?st k := res_provenance res)\<rparr>"
  have next_start: "of_nat (text_start h ?s ?src k) + res_utf8_length res = (of_nat (text_start h ?s ?src (Suc k)) :: u64)"
    by (simp add: text_start_Suc resolution_of_eq(2) [OF res])
  have turn: "store_resolution h' ?st k (of_nat (text_start h ?s ?src k)) res =
      (h'', of_nat (text_start h ?s ?src (Suc k)))"
    unfolding store_resolution_eq [OF ok stored_text_start [OF ready less_imp_le [OF k]]] h''_def text_same next_start ..
  note step = stored_step [OF ready k Suc.prems(1,2) res h''_def]
  have "prepare_loop h' schema sources storage [k..<unat (schema_descriptor_count ?s)] (of_nat (text_start h ?s ?src k)) =
      prepare_loop h'' schema sources storage [Suc k..<unat (schema_descriptor_count ?s)] (of_nat (text_start h ?s ?src (Suc k)))"
    using k again turn same by (simp add: upt_conv_Cons)
  moreover have "m = unat (schema_descriptor_count ?s) - Suc k" "Suc k \<le> unat (schema_descriptor_count ?s)"
    using Suc.hyps(2) k by simp_all
  ultimately show ?case using Suc.hyps(1) step by simp
qed

text \<open>A call that passes its checks succeeds, and stores what the descriptors resolve to.\<close>

lemma prepare_stores:
  assumes analysis: "config_analyze h schema sources = Some (Inr req)"
    and ranges: "config_prepare_ranges h schema sources storage result_out diagnostic_out = (writable, Inr ())"
    and room: "\<not> (value_capacity (heap_storage h storage) < req_descriptor_count req \<or>
      provenance_capacity (heap_storage h storage) < req_descriptor_count req \<or>
      span_length (storage_scratch (heap_storage h storage)) < req_scratch_bytes req \<or>
      span_length (storage_persistent (heap_storage h storage)) < req_persistent_bytes req)"
  shows "\<exists>h'. arbor_config_prepare h schema sources storage result_out diagnostic_out =
      Some (h'\<lparr>heap_result := (heap_result h')(result_out :=
        \<lparr>result_values = storage_values (heap_storage h storage), result_provenance = storage_provenance (heap_storage h storage),
         result_persistent = \<lparr>span_data = span_data (storage_persistent (heap_storage h storage)),
                              span_length = req_persistent_bytes req\<rparr>,
         result_value_count = req_descriptor_count req, result_prepared_guard = CONFIG_PREPARED_GUARD\<rparr>)\<rparr>, config_ok) \<and>
    resolutions_stored h h' (heap_schema h schema) (heap_sources h sources) (heap_storage h storage)
      (unat (schema_descriptor_count (heap_schema h schema))) \<and>
    only_storage_written h h' (heap_storage h storage) (unat (schema_descriptor_count (heap_schema h schema)))"
proof -
  have "resolutions_stored h h (heap_schema h schema) (heap_sources h sources) (heap_storage h storage) 0"
    "only_storage_written h h (heap_storage h storage) 0"
    by (simp_all add: resolutions_stored_def only_storage_written_def same_objects_def text_start_def)
  from prepare_loop_stores [OF storage_readyI(1) [OF analysis ranges room] this]
  obtain h' where "prepare_loop h schema sources storage [0..<unat (schema_descriptor_count (heap_schema h schema))] 0 = Some (Inr h')"
    "resolutions_stored h h' (heap_schema h schema) (heap_sources h sources) (heap_storage h storage)
      (unat (schema_descriptor_count (heap_schema h schema)))"
    "only_storage_written h h' (heap_storage h storage) (unat (schema_descriptor_count (heap_schema h schema)))"
    by (auto simp: text_start_def)
  then show ?thesis using analysis ranges room by (auto simp: arbor_config_prepare_def Let_def)
qed

end
