(* ===== verification/Config_Valid.thy ===== *)
theory Config_Valid
  imports Config_Outcome
begin

text \<open>
  The result that \<open>arbor_config_prepare\<close> of \<open>src/c/config.c\<close> builds against the check of a result,
  \<open>arbor_config_validate\<close>: the check accepts it.
\<close>

section \<open>Stored texts\<close>

lemma drop_concat_upt:
  assumes "k \<le> n"
  shows "drop (sum_list (map (\<lambda>i. length (f i)) [0..<k])) (concat (map f [0..<n])) = concat (map f [k..<n])"
proof -
  have "[0..<n] = [0..<k] @ [k..<n]" using assms upt_add_eq_append [of 0 k "n - k"] by simp
  moreover have "sum_list (map (\<lambda>i. length (f i)) [0..<k]) = length (concat (map f [0..<k]))"
    by (simp add: length_concat o_def)
  ultimately show ?thesis by simp
qed

lemma resolved_length_text: "resolved_length h s src i = length (resolution_text h (resolution_of h s src i))"
  by (simp add: resolved_length_def resolution_of_def config_resolution_zero_def split: option.split sum.split)

lemma stored_text:
  assumes "resolutions_stored h h' s src st n" and "k < n" and "unat (of_nat (text_start h s src n) :: u64) = text_start h s src n"
  shows "bytes_at (heap_bytes h') (span_data (storage_persistent st) + of_nat (text_start h s src k))
      (res_utf8_length (resolution_of h s src k)) = resolution_text h (resolution_of h s src k)"
proof -
  let ?f = "\<lambda>i. resolution_text h (resolution_of h s src i)"
  have all: "bytes_at (heap_bytes h') (span_data (storage_persistent st)) (of_nat (text_start h s src n)) = concat (map ?f [0..<n])"
    using assms(1) by (simp add: resolutions_stored_def Let_def)
  have start: "text_start h s src k = sum_list (map (\<lambda>i. length (?f i)) [0..<k])"
    unfolding text_start_def by (rule arg_cong [where f = sum_list]) (simp add: resolved_length_text)
  have "text_start h s src k + unat (res_utf8_length (resolution_of h s src k)) \<le> unat (of_nat (text_start h s src n) :: u64)"
    using text_start_mono [of "Suc k" n h s src] assms(2,3) by (simp add: text_start_Suc resolved_length_text)
  note part = bytes_at_part [OF this]
  have "drop (text_start h s src k) (concat (map ?f [0..<n])) = concat (map ?f [k..<n])"
    unfolding start by (rule drop_concat_upt) (use assms(2) in simp)
  also have "\<dots> = ?f k @ concat (map ?f [Suc k..<n])" using assms(2) by (simp add: upt_conv_Cons)
  finally show ?thesis unfolding part all by simp
qed

section \<open>Ranges\<close>

lemma array_range_iff:
  "config_array_range p count width \<noteq> None \<longleftrightarrow>
     unat count * unat width < 18446744073709551616 \<and> object_span_valid p (count * width)"
proof -
  have product: "\<not> (count \<noteq> 0 \<and> width > UINTPTR_MAX div count) \<longleftrightarrow> unat count * unat width < 18446744073709551616"
  proof (cases "count = 0")
    case False
    then have "unat count > 0" by (simp add: unat_gt_0)
    then show ?thesis
      using False less_eq_div_iff_mult_less_eq [of "unat count" "unat width" 18446744073709551615]
      by (simp add: word_less_nat_alt unat_div not_less unsigned_minus_1_eq_mask mask_eq_exp_minus_1 mult.commute) linarith
  qed simp
  show ?thesis
    unfolding config_array_range_def config_u64_multiply_def product [symmetric] config_range_make_iff [symmetric] by simp
qed

lemma array_range_less:
  assumes "config_array_range p cap width \<noteq> None" and "unat count \<le> unat cap"
  shows "config_array_range p count width \<noteq> None"
proof -
  have less: "unat count * unat width \<le> unat cap * unat width" using assms(2) by simp
  note ok = assms(1) [unfolded array_range_iff]
  have small: "unat count * unat width < 18446744073709551616" using order_le_less_trans [OF less] ok by blast
  have "unat (cap * width) = unat cap * unat width" "unat (count * width) = unat count * unat width"
    using ok small by (auto intro!: unat_mult_lem [THEN iffD1])
  then have "unat (count * width) \<le> unat (cap * width)" using less by simp
  then have "object_span_valid p (count * width)" using ok by (auto simp: object_span_valid_iff word_unat_eq_iff)
  then show ?thesis using small unfolding array_range_iff by blast
qed

lemma span_prefix: "span_valid t \<Longrightarrow> unat n \<le> unat (span_length t) \<Longrightarrow> object_span_valid (span_data t) n"
  by (auto simp: object_span_valid_iff word_unat_eq_iff)

lemma part_contained:
  assumes "object_span_valid p whole" and "start + unat len \<le> unat whole" and "len \<noteq> 0"
  shows "config_span_contained \<lparr>span_data = p, span_length = whole\<rparr> \<lparr>span_data = p + of_nat start, span_length = len\<rparr>"
proof -
  have whole: "whole \<noteq> 0" using assms(2,3) by (auto simp: word_unat_eq_iff)
  then have p: "p \<noteq> 0" "unat p + unat whole < 18446744073709551616" using assms(1) by (simp_all add: object_span_valid_iff)
  have valid: "object_span_valid (p + of_nat start) len" by (rule object_span_part [OF assms(1,2)])
  obtain a b where ab: "config_range_make p whole = Some a" "config_range_make (p + of_nat start) len = Some b"
    using assms(1) valid config_range_make_iff by blast
  have "unat (p + of_nat start) = unat p + start" using p(2) assms(2) by (intro unat_add_nat) simp
  moreover from this have "unat (p + of_nat start + len) = unat p + start + unat len"
    using p(2) assms(2) by (subst unat_add_u64) simp_all
  moreover have "unat (p + whole) = unat p + unat whole" using p(2) by (rule unat_add_u64)
  ultimately have "range_begin a \<le> range_begin b \<and> range_end b \<le> range_end a"
    using ab whole assms(2,3) by (auto simp: config_range_make_def word_le_nat_alt split: if_splits)
  then show ?thesis using assms(3) ab by (simp add: config_span_contained_def span_range_def)
qed

section \<open>The check of the result\<close>

lemma canonical_text:
  assumes "config_value_canonical h d v True = Inr ()" and "desc_kind d = ARBOR_CONFIG_KIND_UTF8"
    and "span_length t = span_length (value_utf8 v)" and "text_of h' t = text_of h (value_utf8 v)" and "span_valid t"
  shows "config_value_canonical h' d (v\<lparr>value_utf8 := t\<rparr>) True = Inr ()"
proof -
  have "config_range_make (span_data t) (span_length t) \<noteq> None" using assms(5) config_range_make_iff by blast
  then show ?thesis
    using assms(1-4) by (auto simp: config_value_canonical_def config_utf8_valid_def split: if_splits sum.splits)
qed

lemma stored_parts:
  assumes ready: "storage_ready h schema sources st" and k: "k < unat (schema_descriptor_count (heap_schema h schema))"
    and stored: "resolutions_stored h h' (heap_schema h schema) (heap_sources h sources) st
      (unat (schema_descriptor_count (heap_schema h schema)))"
    and objects: "same_objects h h'"
  defines "v \<equiv> heap_value h' (value_slot st k)"
    and "start \<equiv> text_start h (heap_schema h schema) (heap_sources h sources)"
  shows "config_value_canonical h' (descriptor_at h (heap_schema h schema) k) v True = Inr ()"
    and "\<not> provenance_bad (heap_provenance h' (provenance_slot st k)) k"
    and "value_kind v \<noteq> ARBOR_CONFIG_KIND_UTF8 \<Longrightarrow> start (Suc k) = start k"
    and "value_kind v = ARBOR_CONFIG_KIND_UTF8 \<Longrightarrow> start (Suc k) = start k + unat (span_length (value_utf8 v)) \<and>
      span_data (value_utf8 v) =
        (if span_length (value_utf8 v) = 0 then 0 else span_data (storage_persistent st) + of_nat (start k))"
proof -
  let ?s = "heap_schema h schema" and ?src = "heap_sources h sources"
  let ?n = "unat (schema_descriptor_count ?s)" and ?d = "descriptor_at h ?s k" and ?P = "storage_persistent st"
  note known = ready [unfolded storage_ready_def Let_def]
  obtain res where res: "config_resolve_descriptor h ?s ?src k = Some (Inr res)" using known k by blast
  note named = resolution_of_eq(1) [OF res]
  have ok: "resolution_ok h ?s k res" using resolve_resolution_ok [OF _ _ k res] known by blast
  note ok' = ok [unfolded resolution_ok_def Let_def]
  have v: "v = stored_value (span_data ?P) (start k) res"
    using stored k by (simp add: resolutions_stored_def Let_def v_def start_def named)
  show "\<not> provenance_bad (heap_provenance h' (provenance_slot st k)) k"
    using stored k ok' by (simp add: resolutions_stored_def Let_def named)
  have next_start: "start (Suc k) = start k + unat (res_utf8_length res)"
    by (simp add: start_def text_start_Suc resolution_of_eq(2) [OF res])
  show "start (Suc k) = start k" if "value_kind v \<noteq> ARBOR_CONFIG_KIND_UTF8"
    using that ok' by (simp add: next_start v stored_value_def Let_def split: if_splits)
  show "start (Suc k) = start k + unat (span_length (value_utf8 v)) \<and>
      span_data (value_utf8 v) =
        (if span_length (value_utf8 v) = 0 then 0 else span_data ?P + of_nat (start k))"
    if "value_kind v = ARBOR_CONFIG_KIND_UTF8"
    using that by (auto simp: next_start v stored_value_def Let_def zero_span_def split: if_splits)
  have choices: "heap_choice h' = heap_choice h" using objects by (simp add: same_objects_def)
  show "config_value_canonical h' ?d v True = Inr ()"
  proof (cases "desc_kind ?d = ARBOR_CONFIG_KIND_UTF8")
    case False
    then have "v = res_value res" using ok' by (simp add: v stored_value_def Let_def)
    then show ?thesis using canonical_agree_other [OF False choices] ok' by simp
  next
    case True
    let ?t = "if res_utf8_length res = 0 then zero_span
      else \<lparr>span_data = span_data ?P + of_nat (start k), span_length = res_utf8_length res\<rparr>"
    have eq: "v = (res_value res)\<lparr>value_utf8 := ?t\<rparr>" using ok' True by (simp add: v stored_value_def Let_def)
    have len: "span_length ?t = span_length (value_utf8 (res_value res))" using ok' True by (simp add: zero_span_def)
    have "text_of h' ?t = text_of h (value_utf8 (res_value res))"
      using stored_text [OF stored k stored_text_start [OF ready order_refl]] ok' True
      by (simp add: zero_span_def named start_def)
    moreover have "start k + unat (res_utf8_length res) \<le> unat (span_length ?P)"
      using known text_start_mono [of "Suc k" ?n h ?s ?src] k next_start by (simp add: start_def)
    from object_span_part [OF _ this] have "span_valid ?t" using known by (simp add: zero_span_def)
    ultimately show ?thesis unfolding eq using canonical_text len ok' True by blast
  qed
qed

lemma validate_loop_stored:
  assumes ready: "storage_ready h schema sources st"
    and stored: "resolutions_stored h h' (heap_schema h schema) (heap_sources h sources) st
      (unat (schema_descriptor_count (heap_schema h schema)))"
    and objects: "same_objects h h'"
    and result: "result_values r = storage_values st" "result_provenance r = storage_provenance st"
      "result_persistent r = \<lparr>span_data = span_data (storage_persistent st),
         span_length = of_nat (text_start h (heap_schema h schema) (heap_sources h sources)
           (unat (schema_descriptor_count (heap_schema h schema))))\<rparr>"
    and "k \<le> unat (schema_descriptor_count (heap_schema h schema))"
  shows "validate_result_loop h' (heap_schema h schema) r [k..<unat (schema_descriptor_count (heap_schema h schema))]
      (of_nat (text_start h (heap_schema h schema) (heap_sources h sources) k)) =
    Inr (of_nat (text_start h (heap_schema h schema) (heap_sources h sources)
      (unat (schema_descriptor_count (heap_schema h schema)))))"
  using assms(7)
proof (induction "unat (schema_descriptor_count (heap_schema h schema)) - k" arbitrary: k)
  case (Suc m)
  let ?s = "heap_schema h schema" and ?src = "heap_sources h sources"
  let ?n = "unat (schema_descriptor_count ?s)" and ?P = "span_data (storage_persistent st)"
  let ?v = "heap_value h' (value_slot st k)"
  define start where "start = text_start h ?s ?src"
  have k: "k < ?n" using Suc.hyps(2) by simp
  note parts = stored_parts [OF ready k stored objects, folded start_def]
  have reads: "descriptor_at h' ?s k = descriptor_at h ?s k"
    using objects by (rule same_objects_reads(1))
  have unats: "unat (of_nat (start i) :: u64) = start i" if "i \<le> ?n" for i
    using stored_text_start [OF ready that] by (simp add: start_def)
  have next_le: "start (Suc k) \<le> start ?n" unfolding start_def by (rule text_start_mono) (use k in simp)
  have "validate_result_turn h' ?s r k (of_nat (start k)) = Inr (of_nat (start (Suc k)))"
  proof (cases "value_kind ?v = ARBOR_CONFIG_KIND_UTF8")
    case False
    then show ?thesis using parts(1,2,3) by (simp add: validate_result_turn_def Let_def result reads)
  next
    case True
    let ?t = "value_utf8 ?v"
    have t: "start (Suc k) = start k + unat (span_length ?t)" "span_length ?t \<noteq> 0 \<Longrightarrow> span_data ?t = ?P + of_nat (start k)"
      "span_length ?t = 0 \<Longrightarrow> span_data ?t = 0"
      using parts(4) [OF True] by simp_all
    have whole: "object_span_valid ?P (of_nat (start ?n))"
      using ready span_prefix [of "storage_persistent st" "of_nat (start ?n)"] unats [of ?n]
      by (simp add: storage_ready_def Let_def start_def)
    have "config_span_contained (result_persistent r) ?t"
    proof (cases "span_length ?t = 0")
      case True
      then show ?thesis using t(3) by (simp add: config_span_contained_def)
    next
      case False
      have eq: "?t = \<lparr>span_data = ?P + of_nat (start k), span_length = span_length ?t\<rparr>"
        by (rule arbor_span.equality) (simp_all add: t(2) [OF False])
      have "start k + unat (span_length ?t) \<le> unat (of_nat (start ?n) :: u64)" using next_le t(1) unats [of ?n] by simp
      from part_contained [OF whole this False] show ?thesis
        unfolding result(3) eq [symmetric] start_def [symmetric] .
    qed
    moreover have "config_u64_add (of_nat (start k)) (span_length ?t) = Some (of_nat (start (Suc k)))"
    proof -
      have "unat (of_nat (start k) :: u64) + unat (span_length ?t) < 18446744073709551616"
        using unats [of k] unats [of "Suc k"] k t(1) unat_u64_upper [of "of_nat (start (Suc k))"] by simp
      then have "\<not> span_length ?t > UINTPTR_MAX - of_nat (start k)"
        using unat_u64_upper [of "of_nat (start k)"]
        by (simp add: word_less_nat_alt unat_sub_if_size word_size unsigned_minus_1_eq_mask mask_eq_exp_minus_1)
      then show ?thesis by (simp add: config_u64_add_def t(1))
    qed
    moreover have "span_length ?t = 0 \<or> span_data ?t = ?P + of_nat (start k)" using t(2) by blast
    ultimately show ?thesis
      using parts(1,2) True by (simp add: validate_result_turn_def Let_def result(1,2) reads) (simp add: result(3))
  qed
  then show ?case using k Suc.hyps by (simp add: upt_conv_Cons start_def)
qed simp

end
