(* ===== verification/Config_Status.thy ===== *)
theory Config_Status
  imports Config_Prepare
begin

text \<open>
  The statuses of \<open>src/c/config.c\<close>: a function that reports a failure never gives it the status of success, so that
  \<open>status.native\<close>, which the callers look at, tells the two apart.
\<close>

definition refusal :: "config_failure + 'a \<Rightarrow> bool" where
  "refusal r \<longleftrightarrow> (\<forall>diagnostic status. r = Inl (diagnostic, status) \<longrightarrow> status \<noteq> config_ok)"

named_theorems refusals

lemma statuses_differ [simp]:
  "config_invalid \<noteq> config_ok" "config_not_found \<noteq> config_ok" "config_no_space \<noteq> config_ok" "config_overflow \<noteq> config_ok"
  by (simp_all add: config_invalid_def config_not_found_def config_no_space_def config_overflow_def config_ok_def config_status_def)

lemma refusal_Inr [simp]: "refusal (Inr x)"
  by (simp add: refusal_def)

lemma refusal_fail [simp]: "refusal (config_fail code source rec offset key status) \<longleftrightarrow> status \<noteq> config_ok"
  by (simp add: refusal_def config_fail_def)

lemma refusal_bind [intro]:
  "refusal x \<Longrightarrow> (\<And>y. x = Inr y \<Longrightarrow> refusal (g y)) \<Longrightarrow> refusal (case x of Inl failure \<Rightarrow> Inl failure | Inr y \<Rightarrow> g y)"
  by (cases x) (simp_all add: refusal_def)

lemma for_each_refusal: "(\<And>x. x \<in> set xs \<Longrightarrow> refusal (step x)) \<Longrightarrow> refusal (for_each step xs)"
  by (induction xs) (auto intro!: refusal_bind)

section \<open>Schemas\<close>

lemma name_refusal [refusals]: "refusal (validate_name h s i ns)"
  by (simp add: validate_name_def Let_def split: sum.split)

lemma choice_refusal [refusals]: "refusal (validate_choice h i d c)"
  by (simp add: validate_choice_def split: sum.split)

lemma constraints_refusal [refusals]: "refusal (validate_constraints h i d)"
  unfolding validate_constraints_def Let_def
  by (cases "desc_kind d") (auto intro!: refusal_bind for_each_refusal choice_refusal)

lemma default_refusal [refusals]: "refusal (validate_default h i d)"
  by (auto simp: validate_default_def split: sum.split)

lemma descriptor_refusal [refusals]: "refusal (validate_descriptor h s i)"
  by (auto simp: validate_descriptor_def Let_def refusals intro!: refusal_bind for_each_refusal split: bool.split)

lemma schema_refusal [refusals]: "refusal (config_validate_schema h schema)"
  by (auto simp: config_validate_schema_def Let_def refusals intro!: for_each_refusal)

section \<open>Sources\<close>

lemma parse_u64_status: "parse_u64 d bytes = Inl (code, offset, status) \<Longrightarrow> status \<noteq> config_ok"
  by (auto simp: parse_u64_def split: if_splits sum.splits bool.splits)

lemma parse_i64_status: "parse_i64 d bytes = Inl (code, offset, status) \<Longrightarrow> status \<noteq> config_ok"
  by (auto simp: parse_i64_def Let_def split: if_splits sum.splits bool.splits)

lemma text_value_refusal [refusals]: "refusal (config_parse_text_value h d t source ordinal offset key)"
  using parse_u64_status parse_i64_status
  by (auto simp: config_parse_text_value_def Let_def split: arbor_config_kind.split option.split sum.split)

lemma record_refusal [refusals]: "refusal (config_file_record_next m document cursor ordinal)"
  by (auto simp: config_file_record_next_def Let_def split: sum.split)

lemma assignment_refusal [refusals]: "refusal (config_assignment_from_file m rec)"
  by (auto simp: config_assignment_from_file_def Let_def)

lemma vector_record_refusal [refusals]: "refusal (config_vector_record m entry ordinal source)"
  by (auto simp: config_vector_record_def Let_def split: sum.split)

lemma file_turn_refusal: "validate_file_turn h s document cursor ordinal = Some (Inl result) \<Longrightarrow> refusal result"
  using record_refusal [of "heap_bytes h" document cursor ordinal] assignment_refusal [of "heap_bytes h"] text_value_refusal
  by (fastforce simp: validate_file_turn_def refusal_def config_fail_def split: sum.splits option.splits if_splits)

lemma file_loop_refusal:
  assumes "validate_file_loop h s document cursor ordinal = Some result"
  shows "refusal result"
proof (rule validate_file_loop.raw_induct [where P = "\<lambda>_ _ _ _ _. refusal", OF _ assms])
  fix loop h s document cursor ordinal and result :: "config_failure + unit"
  assume IH: "\<And>h s document cursor ordinal result. loop h s document cursor ordinal = Some result \<Longrightarrow> refusal result"
    and "Option.bind (validate_file_turn h s document cursor ordinal)
      (\<lambda>turn. case turn of Inl returned \<Rightarrow> Some returned | Inr after \<Rightarrow> loop h s document (fst after) (snd after)) = Some result"
  then obtain turn where turn: "validate_file_turn h s document cursor ordinal = Some turn"
    "(case turn of Inl returned \<Rightarrow> Some returned | Inr after \<Rightarrow> loop h s document (fst after) (snd after)) = Some result"
    unfolding Option.bind_eq_Some_conv by blast
  show "refusal result"
    using turn IH file_turn_refusal by (cases turn) auto
qed

lemma file_refusal: "config_validate_file h s document = Some result \<Longrightarrow> refusal result"
  using file_loop_refusal by (auto simp: config_validate_file_def split: if_splits)

lemma vector_refusal [refusals]: "refusal (config_validate_vector h s entries count source)"
proof -
  have "refusal (validate_vector_entry h s entries source i)" for i
    by (auto simp: validate_vector_entry_def refusals intro!: refusal_bind split: option.split)
  then show ?thesis by (auto simp: config_validate_vector_def intro!: for_each_refusal)
qed

lemma sources_refusal: "config_validate_sources h s sources = Some result \<Longrightarrow> refusal result"
proof -
  assume "config_validate_sources h s sources = Some result"
  moreover have "refusal (Inl failure :: config_failure + unit)"
    if "config_validate_file h s (file_document (heap_sources h sources)) = Some (Inl failure)" for failure
    using file_refusal [OF that] .
  moreover have "refusal (Inl failure :: config_failure + unit)" if "config_validate_vector h s entries count source = Inl failure"
    for entries count source failure
    using vector_refusal [of h s entries count source] that by simp
  ultimately show ?thesis
    using vector_refusal by (auto simp: config_validate_sources_def Let_def split: if_splits option.splits sum.splits)
qed

lemma file_resolution_turn_refusal:
  "resolve_file_turn h s document key cursor ordinal resolution = Inl result \<Longrightarrow> refusal result"
  using record_refusal [of "heap_bytes h" document cursor ordinal] assignment_refusal [of "heap_bytes h"] text_value_refusal
  by (fastforce simp: resolve_file_turn_def refusal_def split: sum.splits option.splits if_splits)

lemma file_resolution_refusal:
  assumes "resolve_file_loop h s document key cursor ordinal resolution = Some result"
  shows "refusal result"
proof (rule resolve_file_loop.raw_induct [where P = "\<lambda>_ _ _ _ _ _ _. refusal", OF _ assms])
  fix loop h s document key cursor ordinal resolution and result :: "config_failure + config_resolution"
  assume IH: "\<And>h s document key cursor ordinal resolution result.
      loop h s document key cursor ordinal resolution = Some result \<Longrightarrow> refusal result"
    and "(case resolve_file_turn h s document key cursor ordinal resolution of
        Inl returned \<Rightarrow> Some returned
      | Inr after \<Rightarrow> loop h s document key (fst after) (fst (snd after)) (snd (snd after))) = Some result"
  then show "refusal result" using file_resolution_turn_refusal by (auto split: sum.splits)
qed

lemma vector_resolution_refusal [refusals]: "refusal (resolve_vector_loop h s entries source key items resolution)"
  by (induction items arbitrary: resolution) (auto intro!: refusal_bind simp: refusals)

lemma resolution_refusal: "config_resolve_descriptor h s src key = Some result \<Longrightarrow> refusal result"
  using file_resolution_refusal vector_resolution_refusal
  by (fastforce simp: config_resolve_descriptor_def refusal_def config_fail_def split: option.splits sum.splits if_splits)

section \<open>Requirements\<close>

lemma analyze_loop_refusal: "analyze_loop h s src indexes bytes = Some result \<Longrightarrow> refusal result"
proof (induction indexes arbitrary: bytes)
  case (Cons index indexes)
  then show ?case
    using resolution_refusal [of h s src index] by (fastforce simp: refusal_def config_fail_def split: option.splits sum.splits)
qed auto

lemma analyze_refusal: "config_analyze h schema sources = Some result \<Longrightarrow> refusal result"
  using schema_refusal [of h schema] sources_refusal [of h "heap_schema h schema" sources] analyze_loop_refusal
  by (fastforce simp: config_analyze_def Let_def refusal_def config_fail_def split: option.splits sum.splits)

lemma prepare_ranges_refusal [refusals]:
  "refusal (snd (config_prepare_ranges h schema sources storage result_out diagnostic_out))"
  by (auto simp: config_prepare_ranges_def alias_failure_def Let_def refusal_def config_fail_def split: if_splits)

end
