(* ===== verification/Config_Entry.thy ===== *)
theory Config_Entry
  imports Config_Valid Config_Status
begin

text \<open>
  The entry points of \<open>src/c/config.c\<close> as a whole: when a call succeeds, what it leaves in the heap, and what a
  failed call may write.
\<close>

section \<open>Success\<close>

definition storage_fits :: "arbor_config_storage \<Rightarrow> arbor_config_requirements \<Rightarrow> bool" where
  "storage_fits st req \<longleftrightarrow>
     req_descriptor_count req \<le> value_capacity st \<and> req_descriptor_count req \<le> provenance_capacity st \<and>
     req_scratch_bytes req \<le> span_length (storage_scratch st) \<and>
     req_persistent_bytes req \<le> span_length (storage_persistent st)"

definition published_result :: "arbor_config_storage \<Rightarrow> u64 \<Rightarrow> u64 \<Rightarrow> arbor_config_result" where
  "published_result st count bytes =
     \<lparr>result_values = storage_values st, result_provenance = storage_provenance st,
      result_persistent = \<lparr>span_data = span_data (storage_persistent st), span_length = bytes\<rparr>,
      result_value_count = count, result_prepared_guard = CONFIG_PREPARED_GUARD\<rparr>"

lemma prepare_ok:
  assumes "arbor_config_prepare h schema sources storage result_out diagnostic_out = Some (h', config_ok)"
  shows "\<exists>req. config_analyze h schema sources = Some (Inr req) \<and>
    snd (config_prepare_ranges h schema sources storage result_out diagnostic_out) = Inr () \<and>
    storage_fits (heap_storage h storage) req"
proof -
  obtain analysis where a: "config_analyze h schema sources = Some analysis" using analyze_returns by blast
  show ?thesis
  proof (cases analysis)
    case (Inl failure)
    obtain d status where "failure = (d, status)" by force
    moreover from this have "status \<noteq> config_ok" using analyze_refusal [OF a] Inl by (simp add: refusal_def)
    ultimately show ?thesis using assms a Inl by (simp add: arbor_config_prepare_def)
  next
    case (Inr req)
    obtain w ranges where r: "config_prepare_ranges h schema sources storage result_out diagnostic_out = (w, ranges)" by force
    have refused: "refusal ranges" using prepare_ranges_refusal [of h schema sources storage result_out diagnostic_out] r by simp
    show ?thesis
    proof (cases ranges)
      case (Inl failure)
      obtain d status where "failure = (d, status)" by force
      moreover from this have "status \<noteq> config_ok" using refused Inl by (simp add: refusal_def)
      ultimately show ?thesis using assms a Inr r Inl by (simp add: arbor_config_prepare_def)
    next
      case ranges: (Inr u)
      then have "storage_fits (heap_storage h storage) req"
        using assms a Inr r
        by (simp add: arbor_config_prepare_def Let_def storage_fits_def linorder_not_less split: if_splits)
      then show ?thesis using a Inr r ranges by simp
    qed
  qed
qed

lemma prepare_stores_fits:
  assumes "config_analyze h schema sources = Some (Inr req)"
    and "snd (config_prepare_ranges h schema sources storage result_out diagnostic_out) = Inr ()"
    and "storage_fits (heap_storage h storage) req"
  shows "\<exists>h'. arbor_config_prepare h schema sources storage result_out diagnostic_out =
      Some (h'\<lparr>heap_result := (heap_result h')(result_out :=
        published_result (heap_storage h storage) (req_descriptor_count req) (req_persistent_bytes req))\<rparr>, config_ok) \<and>
    resolutions_stored h h' (heap_schema h schema) (heap_sources h sources) (heap_storage h storage)
      (unat (schema_descriptor_count (heap_schema h schema))) \<and>
    only_storage_written h h' (heap_storage h storage) (unat (schema_descriptor_count (heap_schema h schema)))"
  unfolding published_result_def
  by (rule prepare_stores [where writable = "fst (config_prepare_ranges h schema sources storage result_out diagnostic_out)"])
    (use assms in \<open>simp_all add: storage_fits_def linorder_not_less prod_eq_iff\<close>)

lemma prepare_succeeds_iff:
  "(\<exists>h'. arbor_config_prepare h schema sources storage result_out diagnostic_out = Some (h', config_ok)) \<longleftrightarrow>
     (\<exists>req. config_analyze h schema sources = Some (Inr req) \<and>
        snd (config_prepare_ranges h schema sources storage result_out diagnostic_out) = Inr () \<and>
        storage_fits (heap_storage h storage) req)"
  using prepare_ok prepare_stores_fits by blast

text \<open>What a successful call leaves, with the heap \<open>h1\<close> before the result is published.\<close>

lemma prepare_result:
  assumes "arbor_config_prepare h schema sources storage result_out diagnostic_out = Some (h', config_ok)"
  defines "s \<equiv> heap_schema h schema" and "src \<equiv> heap_sources h sources" and "st \<equiv> heap_storage h storage"
    and "n \<equiv> unat (schema_descriptor_count (heap_schema h schema))"
  shows "\<exists>h1. h' = h1\<lparr>heap_result := (heap_result h1)(result_out :=
        published_result st (schema_descriptor_count s) (of_nat (text_start h s src n)))\<rparr> \<and>
      resolutions_stored h h1 s src st n \<and> only_storage_written h h1 st n \<and> storage_ready h schema sources st \<and>
      config_range_make result_out SIZEOF_RESULT \<noteq> None"
proof -
  obtain req where req: "config_analyze h schema sources = Some (Inr req)"
    "snd (config_prepare_ranges h schema sources storage result_out diagnostic_out) = Inr ()" "storage_fits st req"
    using prepare_ok [OF assms(1)] by (auto simp: st_def)
  then have ranges: "config_prepare_ranges h schema sources storage result_out diagnostic_out =
      (fst (config_prepare_ranges h schema sources storage result_out diagnostic_out), Inr ())" by (simp add: prod_eq_iff)
  have room: "\<not> (value_capacity st < req_descriptor_count req \<or> provenance_capacity st < req_descriptor_count req \<or>
      span_length (storage_scratch st) < req_scratch_bytes req \<or> span_length (storage_persistent st) < req_persistent_bytes req)"
    using req(3) by (simp add: storage_fits_def linorder_not_less)
  note ready = storage_readyI [OF req(1) ranges room [unfolded st_def], folded s_def src_def st_def, folded n_def]
  have bytes: "req_persistent_bytes req = of_nat (text_start h s src n)" 
    using arg_cong [OF ready(2), of "of_nat :: nat \<Rightarrow> u64"] by (simp add: n_def s_def)
  have count: "req_descriptor_count req = schema_descriptor_count s" using config_analyze_ok(3) [OF req(1)] by (simp add: s_def)
  obtain h1 where "arbor_config_prepare h schema sources storage result_out diagnostic_out =
      Some (h1\<lparr>heap_result := (heap_result h1)(result_out := published_result st (req_descriptor_count req) (req_persistent_bytes req))\<rparr>,
        config_ok)" "resolutions_stored h h1 s src st n" "only_storage_written h h1 st n"
    using prepare_stores_fits [OF req(1,2) req(3) [unfolded st_def]] unfolding s_def src_def st_def n_def by blast
  then show ?thesis using assms(1) ready(1) prepare_ranges_ok(1) [OF ranges] by (auto simp: bytes count)
qed

lemma prepare_validates:
  assumes "arbor_config_prepare h schema sources storage result_out diagnostic_out = Some (h', config_ok)"
  shows "arbor_config_validate h' schema result_out = config_ok"
proof -
  let ?s = "heap_schema h schema" and ?src = "heap_sources h sources" and ?st = "heap_storage h storage"
  let ?n = "unat (schema_descriptor_count ?s)"
  let ?r = "published_result ?st (schema_descriptor_count ?s) (of_nat (text_start h ?s ?src ?n))"
  obtain h1 where h1: "h' = h1\<lparr>heap_result := (heap_result h1)(result_out := ?r)\<rparr>"
    "resolutions_stored h h1 ?s ?src ?st ?n" "only_storage_written h h1 ?st ?n" "storage_ready h schema sources ?st"
    "config_range_make result_out SIZEOF_RESULT \<noteq> None"
    using prepare_result [OF assms] by blast
  note known = h1(4) [unfolded storage_ready_def Let_def]
  have stored: "resolutions_stored h h' ?s ?src ?st ?n" using h1(2) by (simp add: h1(1) resolutions_stored_def)
  have same: "same_objects h h'" "agree h h' ?s ?src"
    using frame_agree [OF h1(4,3)] by (simp_all add: h1(1) agree_def same_objects_def)
  have unats: "unat (of_nat (text_start h ?s ?src ?n) :: u64) = text_start h ?s ?src ?n"
    by (rule stored_text_start [OF h1(4) order_refl])
  have schema: "config_validate_schema h' schema = Inr ()" using validate_schema_agree [OF same(2)] known by simp
  have loop: "validate_result_loop h' ?s ?r [0..<?n] 0 = Inr (of_nat (text_start h ?s ?src ?n))"
    using validate_loop_stored [OF h1(4) stored same(1), of ?r 0] by (simp add: published_result_def text_start_def)
  have "config_array_range (storage_values ?st) (schema_descriptor_count ?s) SIZEOF_VALUE \<noteq> None"
    "config_array_range (storage_provenance ?st) (schema_descriptor_count ?s) SIZEOF_PROVENANCE \<noteq> None"
    using known array_range_less [of "storage_values ?st" "value_capacity ?st" SIZEOF_VALUE]
      array_range_less [of "storage_provenance ?st" "provenance_capacity ?st" SIZEOF_PROVENANCE] by blast+
  moreover have "span_range (result_persistent ?r) \<noteq> None"
    using known span_prefix [of "storage_persistent ?st" "of_nat (text_start h ?s ?src ?n)"] unats
    by (simp add: published_result_def span_range_iff del: not_None_eq)
  moreover have "heap_schema h' schema = ?s" "heap_result h' result_out = ?r"
    using same(1) by (simp_all add: h1(1) same_objects_def)
  ultimately show ?thesis
    using schema loop h1(5) by (simp add: arbor_config_validate_def Let_def) (simp add: published_result_def)
qed

section \<open>Failure\<close>

text \<open>Accepted inputs have ranges, so that the checks of a diagnostic look at all of them.\<close>

lemma accepted_representable:
  assumes "config_validate_schema h schema = Inr ()" and "config_validate_sources h (heap_schema h schema) sources = Some (Inr ())"
  shows "config_input_ranges_representable h schema sources"
proof -
  let ?s = "heap_schema h schema" and ?src = "heap_sources h sources"
  note ok = assms(2) [unfolded config_validate_sources_accepts Let_def]
  have texts: "span_range t \<noteq> None" if "t \<in> set (input_texts h ?s ?src)" for t
    unfolding span_range_iff by (rule input_texts_valid [OF assms that])
  have descriptors: "list_all (\<lambda>r. r \<noteq> None) (descriptor_ranges h (descriptor_at h ?s i))" if i: "i < unat (schema_descriptor_count ?s)" for i
  proof -
    let ?d = "descriptor_at h ?s i"
    have constraints: "validate_constraints h i ?d = Inr True"
      using schema_accepted(1) [OF assms(1) i]
      by (auto simp: validate_descriptor_def config_fail_def Let_def split: if_splits sum.splits bool.splits)
    have choices: "config_array_range (desc_enum_choices ?d) (desc_enum_choice_count ?d) SIZEOF_CHOICE \<noteq> None"
      if "desc_kind ?d = ARBOR_CONFIG_KIND_ENUM"
      using constraints that by (auto simp: validate_constraints_def Let_def split: if_splits)
    have each: "span_range t \<noteq> None" if "t \<in> set (descriptor_texts h ?d)" for t
      by (rule texts) (use i that in \<open>auto simp: input_texts_def\<close>)
    have "r \<noteq> None" if "r \<in> set (descriptor_ranges h ?d)" for r
      using that each choices by (auto simp: descriptor_ranges_def descriptor_texts_def split: if_splits)
    then show ?thesis by (simp add: list_all_iff)
  qed
  have schema: "config_range_make schema SIZEOF_SCHEMA \<noteq> None"
    using assms(1) by (auto simp: config_validate_schema_def config_fail_def split: if_splits)
  have arrays: "config_array_range (environment_entries ?src) (environment_count ?src) SIZEOF_SPAN \<noteq> None"
    "config_array_range (command_line_entries ?src) (command_line_count ?src) SIZEOF_SPAN \<noteq> None"
    using ok by (simp_all add: config_validate_vector_accepts)
  have entries: "list_all (\<lambda>r. r \<noteq> None) (entry_ranges h (environment_entries ?src) (environment_count ?src))"
    "list_all (\<lambda>r. r \<noteq> None) (entry_ranges h (command_line_entries ?src) (command_line_count ?src))"
    "span_range (file_document ?src) \<noteq> None"
    using texts by (simp_all add: entry_ranges_def list_all_iff input_texts_def del: not_None_eq)
  show ?thesis
    unfolding config_input_ranges_representable_def Let_def
    using schema schema_accepted(2) [OF assms(1)] descriptors arrays entries ok config_range_make_iff [of sources SIZEOF_SOURCES]
    by (simp del: not_None_eq)
qed

text \<open>A heap that differs at most in a diagnostic that overlaps no input.\<close>

definition only_diagnostic :: "config_heap \<Rightarrow> config_heap \<Rightarrow> addr \<Rightarrow> addr \<Rightarrow> addr \<Rightarrow> bool" where
  "only_diagnostic h h' schema sources diagnostic_out \<longleftrightarrow>
     h' = h \<or>
     (\<exists>diagnostic r. config_range_make diagnostic_out SIZEOF_DIAGNOSTIC = Some r \<and> diagnostic_out \<noteq> 0 \<and>
        config_input_ranges_representable h schema sources \<and> \<not> config_writable_against_inputs h r schema sources \<and>
        h' = h\<lparr>heap_diagnostic := (heap_diagnostic h)(diagnostic_out := diagnostic)\<rparr>)"

lemma publish_only_diagnostic:
  assumes "writable \<Longrightarrow> diagnostic_out \<noteq> 0 \<Longrightarrow> config_input_ranges_representable h schema sources \<and>
    (\<exists>r. config_range_make diagnostic_out SIZEOF_DIAGNOSTIC = Some r \<and> \<not> config_writable_against_inputs h r schema sources)"
  shows "only_diagnostic h (config_publish_diagnostic h diagnostic_out writable diagnostic) schema sources diagnostic_out"
  using assms by (auto simp: only_diagnostic_def config_publish_diagnostic_def)

lemma failure_writable:
  "config_diagnostic_writable_for_prepare_failure h schema sources storage result_out diagnostic_out \<Longrightarrow>
     config_input_ranges_representable h schema sources \<and>
     (\<exists>r. config_range_make diagnostic_out SIZEOF_DIAGNOSTIC = Some r \<and> \<not> config_writable_against_inputs h r schema sources)"
  "config_diagnostic_writable_for_measure_failure h schema sources requirements_out diagnostic_out \<Longrightarrow>
     config_input_ranges_representable h schema sources \<and>
     (\<exists>r. config_range_make diagnostic_out SIZEOF_DIAGNOSTIC = Some r \<and> \<not> config_writable_against_inputs h r schema sources)"
  "fst (config_prepare_ranges h schema sources storage result_out diagnostic_out) \<Longrightarrow>
     \<exists>r. config_range_make diagnostic_out SIZEOF_DIAGNOSTIC = Some r \<and> \<not> config_writable_against_inputs h r schema sources"
  "fst (config_measure_alias_check h schema sources requirements_out diagnostic_out) \<Longrightarrow>
     \<exists>r. config_range_make diagnostic_out SIZEOF_DIAGNOSTIC = Some r \<and> \<not> config_writable_against_inputs h r schema sources"
  by (auto simp: config_diagnostic_writable_for_prepare_failure_def config_diagnostic_writable_for_measure_failure_def
      config_prepare_ranges_def config_measure_alias_check_def Let_def split: option.splits if_splits)

lemma prepare_failure:
  assumes "arbor_config_prepare h schema sources storage result_out diagnostic_out = Some (h', status)" and "status \<noteq> config_ok"
  shows "only_diagnostic h h' schema sources diagnostic_out"
proof -
  obtain analysis where a: "config_analyze h schema sources = Some analysis" using analyze_returns by blast
  obtain w ranges where r: "config_prepare_ranges h schema sources storage result_out diagnostic_out = (w, ranges)" by force
  note publish = publish_only_diagnostic [of _ diagnostic_out h schema sources]
  note writable = failure_writable(1) [of h schema sources storage result_out diagnostic_out]
    failure_writable(3) [of h schema sources storage result_out diagnostic_out, unfolded r fst_conv]
  show ?thesis
  proof (cases analysis)
    case (Inl failure)
    then show ?thesis
      using assms(1) a publish writable(1) by (cases failure) (auto simp: arbor_config_prepare_def)
  next
    case (Inr req)
    have inputs: "config_input_ranges_representable h schema sources"
      by (rule accepted_representable [OF config_analyze_ok(1,2) [OF a [unfolded Inr]]])
    show ?thesis
    proof (cases ranges)
      case (Inl failure)
      then show ?thesis
        using assms(1) a Inr r inputs publish writable(2) by (cases failure) (auto simp: arbor_config_prepare_def)
    next
      case ranges: (Inr u)
      show ?thesis
      proof (cases "storage_fits (heap_storage h storage) req")
        case True
        have "\<exists>h1. arbor_config_prepare h schema sources storage result_out diagnostic_out = Some (h1, config_ok)"
          unfolding prepare_succeeds_iff using a Inr r ranges True by simp
        then show ?thesis using assms by simp
      next
        case False
        then show ?thesis
          using assms(1) a Inr r ranges inputs publish writable(2)
          by (auto simp: arbor_config_prepare_def Let_def storage_fits_def linorder_not_less split: if_splits)
      qed
    qed
  qed
qed

lemma measure_outcome:
  assumes "arbor_config_measure h schema sources requirements_out diagnostic_out = Some (h', status)"
  shows "if status = config_ok
    then (\<exists>req. config_analyze h schema sources = Some (Inr req) \<and>
      h' = h\<lparr>heap_requirements := (heap_requirements h)(requirements_out := req)\<rparr>)
    else only_diagnostic h h' schema sources diagnostic_out"
proof -
  obtain analysis where a: "config_analyze h schema sources = Some analysis" using analyze_returns by blast
  obtain w ok where r: "config_measure_alias_check h schema sources requirements_out diagnostic_out = (w, ok)" by force
  note publish = publish_only_diagnostic [of _ diagnostic_out h schema sources]
  note writable = failure_writable(2) [of h schema sources requirements_out diagnostic_out]
    failure_writable(4) [of h schema sources requirements_out diagnostic_out, unfolded r fst_conv]
  show ?thesis
  proof (cases analysis)
    case (Inl failure)
    obtain d st where f: "failure = (d, st)" by force
    then have "st \<noteq> config_ok" using analyze_refusal [OF a] Inl by (simp add: refusal_def)
    then show ?thesis using assms a Inl f publish writable(1) by (auto simp: arbor_config_measure_def)
  next
    case (Inr req)
    then show ?thesis
      using assms a r publish writable(2) accepted_representable [OF config_analyze_ok(1,2) [OF a [unfolded Inr]]]
      by (auto simp: arbor_config_measure_def split: if_splits)
  qed
qed

end
