(* ===== verification/Config_Memory.thy ===== *)
theory Config_Memory
  imports Config_Entry
begin

text \<open>
  The bytes that a call of \<open>arbor_config_prepare\<close> of \<open>src/c/config.c\<close> reads and writes. Objects of different types are
  in stores of their own in the model, so that the checks of the code keep the inputs whole is stated here for the
  memory the objects occupy.
\<close>

section \<open>Inputs, outputs and changes as bytes\<close>

definition choice_arrays :: "arbor_config_descriptor \<Rightarrow> (addr \<times> nat) list" where
  "choice_arrays d =
     (if desc_kind d = ARBOR_CONFIG_KIND_ENUM
      then [(desc_enum_choices d, unat (desc_enum_choice_count d) * unat SIZEOF_CHOICE)] else [])"

text \<open>The schema and the sources, the arrays they point to, and every name, choice, default, document and entry.\<close>

definition input_objects :: "config_heap \<Rightarrow> addr \<Rightarrow> addr \<Rightarrow> (addr \<times> nat) list" where
  "input_objects h schema sources =
     (let s = heap_schema h schema; src = heap_sources h sources
      in [(schema, unat SIZEOF_SCHEMA), (schema_descriptors s, unat (schema_descriptor_count s) * unat SIZEOF_DESCRIPTOR),
          (sources, unat SIZEOF_SOURCES), (environment_entries src, unat (environment_count src) * unat SIZEOF_SPAN),
          (command_line_entries src, unat (command_line_count src) * unat SIZEOF_SPAN)] @
         concat (map (\<lambda>i. choice_arrays (descriptor_at h s i)) [0..<unat (schema_descriptor_count s)]) @
         map (\<lambda>t. (span_data t, unat (span_length t))) (input_texts h s src))"

definition output_objects :: "config_heap \<Rightarrow> addr \<Rightarrow> addr \<Rightarrow> (addr \<times> nat) list" where
  "output_objects h storage result_out =
     (let st = heap_storage h storage
      in [(result_out, unat SIZEOF_RESULT), (storage_values st, unat (value_capacity st) * unat SIZEOF_VALUE),
          (storage_provenance st, unat (provenance_capacity st) * unat SIZEOF_PROVENANCE),
          (span_data (storage_scratch st), unat (span_length (storage_scratch st))),
          (span_data (storage_persistent st), unat (span_length (storage_persistent st)))])"

text \<open>The bytes of every object that differs in two heaps, whatever its type.\<close>

definition changed_bytes :: "config_heap \<Rightarrow> config_heap \<Rightarrow> nat set" where
  "changed_bytes h h' =
     changed_slots (heap_bytes h) (heap_bytes h') 1 \<union> changed_slots (heap_span h) (heap_span h') (unat SIZEOF_SPAN) \<union>
     changed_slots (heap_choice h) (heap_choice h') (unat SIZEOF_CHOICE) \<union>
     changed_slots (heap_descriptor h) (heap_descriptor h') (unat SIZEOF_DESCRIPTOR) \<union>
     changed_slots (heap_schema h) (heap_schema h') (unat SIZEOF_SCHEMA) \<union>
     changed_slots (heap_sources h) (heap_sources h') (unat SIZEOF_SOURCES) \<union>
     changed_slots (heap_storage h) (heap_storage h') (unat SIZEOF_STORAGE) \<union>
     changed_slots (heap_value h) (heap_value h') (unat SIZEOF_VALUE) \<union>
     changed_slots (heap_provenance h) (heap_provenance h') (unat SIZEOF_PROVENANCE) \<union>
     changed_slots (heap_requirements h) (heap_requirements h') (unat SIZEOF_REQUIREMENTS) \<union>
     changed_slots (heap_result h) (heap_result h') (unat SIZEOF_RESULT) \<union>
     changed_slots (heap_diagnostic h) (heap_diagnostic h') (unat SIZEOF_DIAGNOSTIC)"

section \<open>Ranges as bytes\<close>

lemma ranges_bytes:
  assumes "config_range_make p n = Some l" and "config_range_make q k = Some r" and "\<not> config_ranges_overlap l r"
  shows "bytes_from p (unat n) \<inter> bytes_from q (unat k) = {}"
  using assms by (intro bytes_from_spans) (simp add: config_ranges_overlap_iff)

lemma array_range_bytes:
  assumes "config_array_range p count width = Some r"
  shows "\<exists>n. config_range_make p n = Some r \<and> unat n = unat count * unat width"
proof -
  have n: "config_range_make p (count * width) = Some r" and fits: "count = 0 \<or> \<not> width > UINTPTR_MAX div count"
    using assms by (auto simp: config_array_range_def config_u64_multiply_def split: if_splits)
  have "unat count * unat width < 18446744073709551616"
  proof (cases "count = 0")
    case False
    then have "width \<le> UINTPTR_MAX div count" using fits by simp
    then have "unat width \<le> unat UINTPTR_MAX div unat count" unfolding word_le_nat_alt unat_div .
    then have "unat width * unat count \<le> 18446744073709551615"
      using False by (simp add: less_eq_div_iff_mult_less_eq unsigned_minus_1_eq_mask mask_eq_exp_minus_1 unat_gt_0)
    then show ?thesis by (simp add: mult.commute)
  qed simp
  then have "unat (count * width) = unat count * unat width" by (simp add: unat_mult_lem [THEN iffD1])
  then show ?thesis using n by blast
qed

lemma span_range_bytes: "span_range t = Some r \<Longrightarrow> config_range_make (span_data t) (span_length t) = Some r"
  by (simp add: span_range_def)

text \<open>A range that the check accepts shares no byte with an input.\<close>

lemma clear_of_input:
  assumes "config_range_make p n = Some w" and "\<not> config_writable_against_inputs h w schema sources"
    and "config_range_make q k = Some r" and "overlaps_input w (Some r) \<Longrightarrow> config_writable_against_inputs h w schema sources"
  shows "bytes_from p (unat n) \<inter> bytes_from q (unat k) = {}"
  using ranges_bytes [OF assms(1,3)] assms(2,4) by (auto simp: overlaps_input_def)

lemma clear_of_inputs:
  assumes "config_input_ranges_representable h schema sources" and "config_range_make p n = Some w"
    and "\<not> config_writable_against_inputs h w schema sources"
  shows "bytes_from p (unat n) \<inter> region_bytes (input_objects h schema sources) = {}"
proof -
  let ?s = "heap_schema h schema" and ?src = "heap_sources h sources"
  note known = assms(1) [unfolded config_input_ranges_representable_def Let_def]
  note reported = config_writable_against_inputs_def config_range_overlaps_schema_def config_range_overlaps_sources_def Let_def
  have array: "bytes_from p (unat n) \<inter> bytes_from q (unat count * unat width) = {}"
    if some: "config_array_range q count width \<noteq> None"
      and reach: "overlaps_input w (config_array_range q count width) \<Longrightarrow> config_writable_against_inputs h w schema sources" for q count width
  proof -
    obtain r where r: "config_array_range q count width = Some r" using some by blast
    then obtain k where "config_range_make q k = Some r" "unat k = unat count * unat width" using array_range_bytes by blast
    then show ?thesis using clear_of_input [OF assms(2,3), of q k r] reach r by simp
  qed
  have object: "bytes_from p (unat n) \<inter> bytes_from q (unat k) = {}"
    if some: "config_range_make q k \<noteq> None"
      and reach: "overlaps_input w (config_range_make q k) \<Longrightarrow> config_writable_against_inputs h w schema sources" for q k
  proof -
    obtain r where r: "config_range_make q k = Some r" using some by blast
    show ?thesis by (rule clear_of_input [OF assms(2,3) r]) (use reach r in simp)
  qed
  have descriptor: "bytes_from p (unat n) \<inter> region_bytes (choice_arrays (descriptor_at h ?s i)) = {}"
    if i: "i < unat (schema_descriptor_count ?s)" for i
  proof (cases "desc_kind (descriptor_at h ?s i) = ARBOR_CONFIG_KIND_ENUM")
    case True
    let ?choices = "config_array_range (desc_enum_choices (descriptor_at h ?s i)) (desc_enum_choice_count (descriptor_at h ?s i)) SIZEOF_CHOICE"
    have ranged: "?choices \<in> set (descriptor_ranges h (descriptor_at h ?s i))" using True by (simp add: descriptor_ranges_def)
    moreover have "list_all (\<lambda>r. r \<noteq> None) (descriptor_ranges h (descriptor_at h ?s i))" using known i by (simp del: not_None_eq)
    ultimately have "?choices \<noteq> None" unfolding list_all_iff by blast
    moreover have "config_writable_against_inputs h w schema sources" if hit: "overlaps_input w ?choices"
    proof -
      have "list_ex (overlaps_input w) (descriptor_ranges h (descriptor_at h ?s i))" using ranged hit unfolding list_ex_iff by blast
      moreover have "i \<in> set [0..<unat (schema_descriptor_count ?s)]" using i by simp
      ultimately show ?thesis unfolding reported by blast
    qed
    ultimately have "bytes_from p (unat n) \<inter>
        bytes_from (desc_enum_choices (descriptor_at h ?s i)) (unat (desc_enum_choice_count (descriptor_at h ?s i)) * unat SIZEOF_CHOICE) = {}"
      by (rule array)
    then show ?thesis using True by (simp add: region_bytes_def choice_arrays_def)
  qed (simp add: region_bytes_def choice_arrays_def)
  have texts: "bytes_from p (unat n) \<inter> bytes_from (span_data t) (unat (span_length t)) = {}"
    if t: "t \<in> set (input_texts h ?s ?src)" for t
  proof -
    have "span_range t \<noteq> None"
      using t known
      by (auto simp: input_texts_def descriptor_texts_def descriptor_ranges_def entry_ranges_def list_all_iff split: if_splits)
    then show ?thesis
      using clear_of_input [OF assms(2,3), of "span_data t" "span_length t"] overlap_reported [OF t, of w]
      by (auto simp: span_range_def)
  qed
  have records: "bytes_from p (unat n) \<inter> bytes_from schema (unat SIZEOF_SCHEMA) = {}"
    "bytes_from p (unat n) \<inter> bytes_from sources (unat SIZEOF_SOURCES) = {}"
    by (rule object; (use known in \<open>simp only: simp_thms\<close> | simp only: reported simp_thms))+
  have arrays: "bytes_from p (unat n) \<inter> bytes_from (schema_descriptors ?s) (unat (schema_descriptor_count ?s) * unat SIZEOF_DESCRIPTOR) = {}"
    "bytes_from p (unat n) \<inter> bytes_from (environment_entries ?src) (unat (environment_count ?src) * unat SIZEOF_SPAN) = {}"
    "bytes_from p (unat n) \<inter> bytes_from (command_line_entries ?src) (unat (command_line_count ?src) * unat SIZEOF_SPAN) = {}"
    by (rule array; (use known in \<open>simp only: simp_thms\<close> | simp only: reported simp_thms))+
  have "bytes_from p (unat n) \<inter> bytes_from q k = {}" if listed: "(q, k) \<in> set (input_objects h schema sources)" for q k
  proof -
    consider "(q, k) = (schema, unat SIZEOF_SCHEMA)" | "(q, k) = (sources, unat SIZEOF_SOURCES)"
      | "(q, k) = (schema_descriptors ?s, unat (schema_descriptor_count ?s) * unat SIZEOF_DESCRIPTOR)"
      | "(q, k) = (environment_entries ?src, unat (environment_count ?src) * unat SIZEOF_SPAN)"
      | "(q, k) = (command_line_entries ?src, unat (command_line_count ?src) * unat SIZEOF_SPAN)"
      | i where "i < unat (schema_descriptor_count ?s)" "(q, k) \<in> set (choice_arrays (descriptor_at h ?s i))"
      | t where "t \<in> set (input_texts h ?s ?src)" "(q, k) = (span_data t, unat (span_length t))"
      using listed by (auto simp: input_objects_def Let_def)
    then show ?thesis using records arrays descriptor [unfolded region_bytes_disjoint] texts by cases auto
  qed
  then show ?thesis by (simp only: region_bytes_disjoint) blast
qed

section \<open>A call that succeeds\<close>

lemma prepare_ranges_bytes:
  assumes "config_prepare_ranges h schema sources storage result_out diagnostic_out = (writable, Inr ())"
    and "config_input_ranges_representable h schema sources"
  shows "region_bytes (output_objects h storage result_out) \<inter> region_bytes (input_objects h schema sources) = {}"
    and "regions_apart ((storage, unat SIZEOF_STORAGE) # output_objects h storage result_out)"
proof -
  let ?st = "heap_storage h storage"
  have made: "list_all (\<lambda>r. r \<noteq> None) (output_ranges h storage result_out)"
    and apart: "outputs_apart h schema sources (the (config_range_make storage SIZEOF_STORAGE)) []
      (map the (output_ranges h storage result_out))"
    and some: "config_range_make storage SIZEOF_STORAGE \<noteq> None"
    using assms(1) by (auto simp: config_prepare_ranges_def alias_failure_def config_fail_def Let_def split: if_splits)
  obtain t where t: "config_range_make storage SIZEOF_STORAGE = Some t" using some by blast
  obtain r v q c p where ranges: "config_range_make result_out SIZEOF_RESULT = Some r"
    "config_array_range (storage_values ?st) (value_capacity ?st) SIZEOF_VALUE = Some v"
    "config_array_range (storage_provenance ?st) (provenance_capacity ?st) SIZEOF_PROVENANCE = Some q"
    "span_range (storage_scratch ?st) = Some c" "span_range (storage_persistent ?st) = Some p"
    using made by (auto simp: output_ranges_def Let_def)
  obtain m k where sizes: "config_range_make (storage_values ?st) m = Some v" "unat m = unat (value_capacity ?st) * unat SIZEOF_VALUE"
    "config_range_make (storage_provenance ?st) k = Some q" "unat k = unat (provenance_capacity ?st) * unat SIZEOF_PROVENANCE"
    using array_range_bytes [OF ranges(2)] array_range_bytes [OF ranges(3)] by blast
  note spans = ranges(4,5) [THEN span_range_bytes]
  have checked: "outputs_apart h schema sources t [] [r, v, q, c, p]"
    using apart by (simp add: output_ranges_def Let_def ranges t)
  note clear = clear_of_inputs [OF assms(2)]
  show "region_bytes (output_objects h storage result_out) \<inter> region_bytes (input_objects h schema sources) = {}"
    using checked clear [OF ranges(1)] clear [OF sizes(1)] clear [OF sizes(3)] clear [OF spans(1)] clear [OF spans(2)]
    by (simp add: output_objects_def Let_def sizes(2,4) region_bytes_def [of "_ # _"] Int_Un_distrib2)
  note pair = ranges_bytes [OF t] ranges_bytes [OF ranges(1)] ranges_bytes [OF sizes(1)] ranges_bytes [OF sizes(3)] ranges_bytes [OF spans(1)]
  have swap: "\<not> config_ranges_overlap a b \<longleftrightarrow> \<not> config_ranges_overlap b a" for a b by (auto simp: config_ranges_overlap_def)
  show "regions_apart ((storage, unat SIZEOF_STORAGE) # output_objects h storage result_out)"
    using checked ranges_bytes [OF t ranges(1)] ranges_bytes [OF t sizes(1)] ranges_bytes [OF t sizes(3)] ranges_bytes [OF t spans(1)]
      ranges_bytes [OF t spans(2)] ranges_bytes [OF ranges(1) sizes(1)] ranges_bytes [OF ranges(1) sizes(3)]
      ranges_bytes [OF ranges(1) spans(1)] ranges_bytes [OF ranges(1) spans(2)] ranges_bytes [OF sizes(1,3)]
      ranges_bytes [OF sizes(1) spans(1)] ranges_bytes [OF sizes(1) spans(2)] ranges_bytes [OF sizes(3) spans(1)]
      ranges_bytes [OF sizes(3) spans(2)] ranges_bytes [OF spans]
    by (simp add: output_objects_def Let_def sizes(2,4) swap)
qed

text \<open>The slots of an array with a range lie in its bytes.\<close>

lemma array_slot_bytes:
  assumes "config_array_range base count width \<noteq> None" and "i < unat count" and "width \<noteq> 0"
  shows "bytes_from (base + of_nat i * width) (unat width) \<subseteq> bytes_from base (unat count * unat width)"
proof (rule bytes_from_slot [OF _ assms(2)])
  obtain r where "config_array_range base count width = Some r" using assms(1) by blast
  then obtain n where n: "config_range_make base n = Some r" "unat n = unat count * unat width" using array_range_bytes by blast
  have positive: "0 < unat width" using assms(3) by (simp add: unat_gt_0)
  then have "n \<noteq> 0" using n(2) assms(2) by auto
  then have inside: "unat base + unat count * unat width < 18446744073709551616"
    using n config_range_make_iff [of base n] by (simp add: object_span_valid_iff)
  have less: "i * unat width < unat count * unat width" using assms(2) positive by simp
  have i: "unat (of_nat i :: u64) = i" using assms(2) unat_u64_upper [of count] by (intro unat_of_nat_u64) simp
  have "i * unat width < 18446744073709551616" using less inside by linarith
  then have offset: "unat (of_nat i * width) = i * unat width" using i by (subst unat_mult_lem [THEN iffD1]) simp_all
  have "unat base + unat (of_nat i * width) < 18446744073709551616" unfolding offset using less inside by linarith
  then show "unat (base + of_nat i * width) = unat base + i * unat width" by (simp only: unat_add_u64 offset)
qed

lemma storage_changes:
  assumes "storage_ready h schema sources (heap_storage h storage)"
    and "only_storage_written h h1 (heap_storage h storage) (unat (schema_descriptor_count (heap_schema h schema)))"
  shows "changed_bytes h (h1\<lparr>heap_result := (heap_result h1)(result_out := result)\<rparr>) \<subseteq> region_bytes (output_objects h storage result_out)"
proof -
  let ?st = "heap_storage h storage" and ?n = "unat (schema_descriptor_count (heap_schema h schema))"
  let ?out = "region_bytes (output_objects h storage result_out)"
  note known = assms(1) [unfolded storage_ready_def Let_def]
  note frame = assms(2) [unfolded only_storage_written_def same_objects_def]
  have vals: "changed_slots (heap_value h) (heap_value h1) (unat SIZEOF_VALUE) \<subseteq> ?out"
  proof (rule changed_slots_subset)
    fix a assume "heap_value h1 a \<noteq> heap_value h a"
    then obtain i where i: "i < ?n" "a = value_slot ?st i" using frame by blast
    then show "bytes_from a (unat SIZEOF_VALUE) \<subseteq> ?out"
      using array_slot_bytes [of "storage_values ?st" "value_capacity ?st" SIZEOF_VALUE i] known
      by (auto simp: region_bytes_def output_objects_def Let_def)
  qed
  have provenance: "changed_slots (heap_provenance h) (heap_provenance h1) (unat SIZEOF_PROVENANCE) \<subseteq> ?out"
  proof (rule changed_slots_subset)
    fix a assume "heap_provenance h1 a \<noteq> heap_provenance h a"
    then obtain i where i: "i < ?n" "a = provenance_slot ?st i" using frame by blast
    then show "bytes_from a (unat SIZEOF_PROVENANCE) \<subseteq> ?out"
      using array_slot_bytes [of "storage_provenance ?st" "provenance_capacity ?st" SIZEOF_PROVENANCE i] known
      by (auto simp: region_bytes_def output_objects_def Let_def)
  qed
  have bytes: "changed_slots (heap_bytes h) (heap_bytes h1) 1 \<subseteq> ?out"
  proof (rule changed_slots_subset)
    fix a assume "heap_bytes h1 a \<noteq> heap_bytes h a"
    then have "unat a \<in> bytes_from (span_data (storage_scratch ?st)) (unat (span_length (storage_scratch ?st))) \<union>
        bytes_from (span_data (storage_persistent ?st)) (unat (span_length (storage_persistent ?st)))"
      using frame by blast
    moreover have "bytes_from a 1 = {unat a}" by (auto simp: bytes_from_def)
    ultimately show "bytes_from a 1 \<subseteq> ?out" by (auto simp: region_bytes_def output_objects_def Let_def)
  qed
  have result: "changed_slots (heap_result h) ((heap_result h)(result_out := result)) (unat SIZEOF_RESULT) \<subseteq> ?out"
    using changed_slots_upd [of "heap_result h" result_out result "unat SIZEOF_RESULT"]
    by (auto simp: region_bytes_def output_objects_def Let_def)
  show ?thesis
    unfolding changed_bytes_def using vals provenance bytes result frame by simp
qed

section \<open>A call that fails\<close>

lemma diagnostic_changes:
  assumes "only_diagnostic h h' schema sources diagnostic_out"
  shows "changed_bytes h h' \<subseteq> bytes_from diagnostic_out (unat SIZEOF_DIAGNOSTIC)"
    and "changed_bytes h h' \<inter> region_bytes (input_objects h schema sources) = {}"
proof -
  consider "h' = h" | diagnostic r where "config_range_make diagnostic_out SIZEOF_DIAGNOSTIC = Some r"
    "config_input_ranges_representable h schema sources" "\<not> config_writable_against_inputs h r schema sources"
    "h' = h\<lparr>heap_diagnostic := (heap_diagnostic h)(diagnostic_out := diagnostic)\<rparr>"
    using assms unfolding only_diagnostic_def by blast
  then have "changed_bytes h h' = {} \<or> (changed_bytes h h' \<subseteq> bytes_from diagnostic_out (unat SIZEOF_DIAGNOSTIC) \<and>
      bytes_from diagnostic_out (unat SIZEOF_DIAGNOSTIC) \<inter> region_bytes (input_objects h schema sources) = {})"
  proof cases
    case 1
    then show ?thesis by (simp add: changed_bytes_def)
  next
    case (2 diagnostic r)
    have "changed_bytes h h' \<subseteq> bytes_from diagnostic_out (unat SIZEOF_DIAGNOSTIC)"
      using changed_slots_upd [of "heap_diagnostic h" diagnostic_out diagnostic "unat SIZEOF_DIAGNOSTIC"]
      by (simp add: changed_bytes_def 2(4))
    then show ?thesis using clear_of_inputs [OF 2(2,1,3)] by simp
  qed
  then show "changed_bytes h h' \<subseteq> bytes_from diagnostic_out (unat SIZEOF_DIAGNOSTIC)"
    and "changed_bytes h h' \<inter> region_bytes (input_objects h schema sources) = {}"
    by blast+
qed

end
