(* ===== verification/Config_Properties.thy ===== *)
theory Config_Properties
  imports Config_Memory Config_Utf8
begin

text \<open>
  The properties of the configuration component, with a small schema and sources on which every hypothesis is met.
\<close>

unbundle bit_operations_syntax

section \<open>Concrete objects\<close>

text \<open>Names, the document \<open>port=81\<close> and \<open>name=x\<close>, the environment entry \<open>PORT=82\<close> and the argument \<open>--port=83\<close>.\<close>

definition conf_bytes :: mem where
  "conf_bytes = (\<lambda>a.
     if 4096 \<le> a \<and> unat (a - 4096) < 49
     then ([112, 111, 114, 116, 80, 79, 82, 84, 110, 97, 109, 101, 78, 65, 77, 69,
            112, 111, 114, 116, 61, 56, 49, 10, 110, 97, 109, 101, 61, 120, 10, 0,
            80, 79, 82, 84, 61, 56, 50, 0, 45, 45, 112, 111, 114, 116, 61, 56, 51] :: u8 list) ! unat (a - 4096)
     else 0)"

definition conf_names :: "addr \<Rightarrow> arbor_config_names" where
  "conf_names at = \<lparr>names_key = \<lparr>span_data = at, span_length = 4\<rparr>, names_file = \<lparr>span_data = at, span_length = 4\<rparr>,
     names_environment = \<lparr>span_data = at + 4, span_length = 4\<rparr>, names_command_line = \<lparr>span_data = at, span_length = 4\<rparr>\<rparr>"

definition conf_port :: arbor_config_descriptor where
  "conf_port = \<lparr>desc_names = conf_names 4096, desc_kind = ARBOR_CONFIG_KIND_U64, desc_reserved0 = 0, desc_flags = 2,
     desc_default_value = (kind_value ARBOR_CONFIG_KIND_U64)\<lparr>value_u64 := 80\<rparr>, desc_u64_min = 1, desc_u64_max = 65535,
     desc_i64_min = 0, desc_i64_max = 0, desc_utf8_max_length = 0, desc_enum_choices = 0, desc_enum_choice_count = 0\<rparr>"

definition conf_name :: arbor_config_descriptor where
  "conf_name = \<lparr>desc_names = conf_names 4104, desc_kind = ARBOR_CONFIG_KIND_UTF8, desc_reserved0 = 0, desc_flags = 1,
     desc_default_value = kind_value (ARBOR_CONFIG_KIND_OUT_OF_ENUM 0), desc_u64_min = 0, desc_u64_max = 0,
     desc_i64_min = 0, desc_i64_max = 0, desc_utf8_max_length = 16, desc_enum_choices = 0, desc_enum_choice_count = 0\<rparr>"

definition conf_schema :: arbor_config_schema where
  "conf_schema = \<lparr>schema_abi_version = 1, schema_struct_size = 32, schema_flags = 0, schema_descriptors = 8192,
     schema_descriptor_count = 2\<rparr>"

definition conf_sources :: arbor_config_sources where
  "conf_sources = \<lparr>file_document = \<lparr>span_data = 4112, span_length = 15\<rparr>, environment_entries = 12416,
     environment_count = 1, command_line_entries = 12432, command_line_count = 1\<rparr>"

definition conf_storage :: arbor_config_storage where
  "conf_storage = \<lparr>storage_values = 16384, value_capacity = 2, storage_provenance = 16512, provenance_capacity = 2,
     storage_scratch = \<lparr>span_data = 16640, span_length = 2\<rparr>, storage_persistent = \<lparr>span_data = 16656, span_length = 8\<rparr>\<rparr>"

definition conf_heap :: config_heap where
  "conf_heap = \<lparr>heap_bytes = conf_bytes,
     heap_span = (\<lambda>a. if a = 12416 then \<lparr>span_data = 4128, span_length = 7\<rparr> else \<lparr>span_data = 4136, span_length = 9\<rparr>),
     heap_choice = (\<lambda>_. \<lparr>choice_name = zero_span, choice_value = 0\<rparr>),
     heap_descriptor = (\<lambda>a. if a = 8192 then conf_port else conf_name),
     heap_schema = (\<lambda>_. conf_schema), heap_sources = (\<lambda>_. conf_sources), heap_storage = (\<lambda>_. conf_storage),
     heap_value = (\<lambda>_. kind_value (ARBOR_CONFIG_KIND_OUT_OF_ENUM 0)),
     heap_provenance = (\<lambda>_. \<lparr>prov_source = ARBOR_CONFIG_SOURCE_NONE, prov_reserved0 = 0, prov_ordinal = 0, prov_byte_offset = 0\<rparr>),
     heap_requirements = (\<lambda>_. \<lparr>req_descriptor_count = 0, req_descriptor_bytes = 0, req_value_bytes = 0,
       req_provenance_bytes = 0, req_scratch_bytes = 0, req_persistent_bytes = 0, req_result_bytes = 0\<rparr>),
     heap_result = (\<lambda>_. \<lparr>result_values = 0, result_provenance = 0, result_persistent = zero_span, result_value_count = 0,
       result_prepared_guard = 0\<rparr>),
     heap_diagnostic = (\<lambda>_. config_diagnostic_clear)\<rparr>"

lemma conf_reads:
  "descriptor_at conf_heap conf_schema 0 = conf_port" "descriptor_at conf_heap conf_schema (Suc 0) = conf_name"
  "entry_at conf_heap 12416 0 = \<lparr>span_data = 4128, span_length = 7\<rparr>" "entry_at conf_heap 12432 0 = \<lparr>span_data = 4136, span_length = 9\<rparr>"
  "heap_schema conf_heap a = conf_schema" "heap_sources conf_heap a = conf_sources" "heap_bytes conf_heap = conf_bytes"
  "schema_descriptors conf_schema = 8192" "schema_descriptor_count conf_schema = 2"
  by (simp_all add: descriptor_at_def entry_at_def conf_heap_def conf_schema_def)

lemma conf_texts:
  "bytes_at conf_bytes 4096 4 = [112, 111, 114, 116]" "bytes_at conf_bytes 4100 4 = [80, 79, 82, 84]"
  "bytes_at conf_bytes 4104 4 = [110, 97, 109, 101]" "bytes_at conf_bytes 4108 4 = [78, 65, 77, 69]"
  "bytes_at conf_bytes 4112 15 = [112, 111, 114, 116, 61, 56, 49, 10, 110, 97, 109, 101, 61, 120, 10]"
  "bytes_at conf_bytes 4112 4 = [112, 111, 114, 116]" "bytes_at conf_bytes 4117 2 = [56, 49]"
  "bytes_at conf_bytes 4120 4 = [110, 97, 109, 101]" "bytes_at conf_bytes 4125 1 = [120]"
  "bytes_at conf_bytes 4128 7 = [80, 79, 82, 84, 61, 56, 50]" "bytes_at conf_bytes 4128 4 = [80, 79, 82, 84]"
  "bytes_at conf_bytes 4133 2 = [56, 50]"
  "bytes_at conf_bytes 4136 9 = [45, 45, 112, 111, 114, 116, 61, 56, 51]" "bytes_at conf_bytes 4138 4 = [112, 111, 114, 116]"
  "bytes_at conf_bytes 4143 2 = [56, 51]"
  by (simp_all add: bytes_at_def conf_bytes_def upt_rec)

lemma conf_lines:
  "doc_lines 0 [112, 111, 114, 116, 61, 56, 49, 10, 110, 97, 109, 101, 61, 120, 10] =
     [(0, [112, 111, 114, 116, 61, 56, 49]), (8, [110, 97, 109, 101, 61, 120])]"
  by (simp add: doc_lines.simps in_line_def)

text \<open>How the objects are evaluated: the records, the search for a name, and the values.\<close>

lemmas conf_objects = conf_port_def conf_name_def conf_names_def
lemmas conf_search = config_find_descriptor_def config_span_equal_def config_descriptor_name_def upt_rec

lemma conf_finds:
  "config_find_descriptor conf_heap conf_schema CONFIG_NAMESPACE_FILE \<lparr>span_data = 4112, span_length = 4\<rparr> = Some 0"
  "config_find_descriptor conf_heap conf_schema CONFIG_NAMESPACE_FILE \<lparr>span_data = 4120, span_length = 4\<rparr> = Some 1"
  "config_find_descriptor conf_heap conf_schema CONFIG_NAMESPACE_ENVIRONMENT \<lparr>span_data = 4128, span_length = 4\<rparr> = Some 0"
  "config_find_descriptor conf_heap conf_schema CONFIG_NAMESPACE_COMMAND_LINE \<lparr>span_data = 4138, span_length = 4\<rparr> = Some 0"
  by (simp_all add: conf_search conf_reads conf_texts conf_objects)

lemma conf_parses:
  "\<exists>res. config_parse_text_value conf_heap conf_port \<lparr>span_data = 4117, span_length = 2\<rparr> source ordinal offset key = Inr res"
  "\<exists>res. config_parse_text_value conf_heap conf_port \<lparr>span_data = 4133, span_length = 2\<rparr> source ordinal offset key = Inr res"
  "\<exists>res. config_parse_text_value conf_heap conf_port \<lparr>span_data = 4143, span_length = 2\<rparr> source ordinal offset key = Inr res"
  "\<exists>res. config_parse_text_value conf_heap conf_name \<lparr>span_data = 4125, span_length = 1\<rparr> source ordinal offset key = Inr res"
  by (simp_all add: config_parse_text_value_def conf_port_def conf_name_def conf_reads conf_texts parse_u64_def parse_utf8_def
      ascii_def config_utf8_valid_def config_range_make_def Let_def unsigned_minus_1_eq_mask mask_eq_exp_minus_1 word_less_nat_alt)

lemma conf_line_names:
  "line_names conf_heap conf_schema \<lparr>span_data = 4112, span_length = 15\<rparr> key (0, [112, 111, 114, 116, 61, 56, 49]) \<longleftrightarrow> key = 0"
  "line_names conf_heap conf_schema \<lparr>span_data = 4112, span_length = 15\<rparr> key (8, [110, 97, 109, 101, 61, 120]) \<longleftrightarrow> key = 1"
  using conf_finds(1,2) by (auto simp: line_names_def is_setting_def setting_def)

lemma conf_file: "config_validate_file conf_heap conf_schema \<lparr>span_data = 4112, span_length = 15\<rparr> = Some (Inr ())"
proof -
  let ?doc = "\<lparr>span_data = 4112, span_length = 15\<rparr> :: arbor_span"
  let ?entries = "[(0, [112, 111, 114, 116, 61, 56, 49]), (8, [110, 97, 109, 101, 61, 120])] :: (nat \<times> u8 list) list"
  have lines: "text_of conf_heap ?doc =
      [112, 111, 114, 116, 61, 56, 49, 10, 110, 97, 109, 101, 61, 120, 10]"
    by (simp add: conf_reads conf_texts)
  have "setting_ok conf_heap conf_schema ?doc 0 (?entries ! 0)"
    "setting_ok conf_heap conf_schema ?doc 1 (?entries ! 1)"
    using conf_parses(1,4)
    by (auto simp: setting_ok_def conf_line_names is_setting_def setting_def conf_reads)
  then have "settings_ok conf_heap conf_schema ?doc ?entries"
    by (simp add: settings_ok_def All_less_Suc conf_line_names numeral_2_eq_2)
  then show ?thesis
    unfolding config_validate_file_accepts lines conf_lines by (simp add: object_span_valid_iff)
qed

lemma conf_vectors:
  "config_validate_vector conf_heap conf_schema 12416 1 ARBOR_CONFIG_SOURCE_ENVIRONMENT = Inr ()"
  "config_validate_vector conf_heap conf_schema 12432 1 ARBOR_CONFIG_SOURCE_COMMAND_LINE = Inr ()"
  using conf_finds(3,4) conf_parses(2) [of ARBOR_CONFIG_SOURCE_ENVIRONMENT 0 "Suc (Suc (Suc (Suc (Suc 0))))" 0] conf_parses(3) [of ARBOR_CONFIG_SOURCE_COMMAND_LINE 0 7 0]
  by (auto simp: config_validate_vector_def config_array_range_def config_u64_multiply_def config_range_make_def
      validate_vector_entry_def config_vector_record_def vector_name_start_def vector_namespace_def conf_reads conf_texts
      config_vector_seen_before_def Let_def upt_rec split: sum.split)

lemma conf_sources_accepted: "config_validate_sources conf_heap conf_schema 12352 = Some (Inr ())"
  using conf_file conf_vectors
  by (simp add: config_validate_sources_accepts conf_reads object_span_valid_iff) (simp add: conf_sources_def)

section \<open>Texts and numerals\<close>

text \<open>C25: A text is accepted as UTF-8 exactly when its span is representable and its bytes are the encodings of a
  sequence of Unicode scalar values other than NUL, surrogates excluded.\<close>

theorem utf8_exact:
  "config_utf8_valid m text = Inr () \<longleftrightarrow>
     object_span_valid (span_data text) (span_length text) \<and>
     (\<exists>ns. list_all scalar_value ns \<and> span_bytes m text = concat (map utf8_encode ns))"
  by (rule config_utf8_valid_iff)

text \<open>C26: A numeral is accepted exactly when it is a nonempty string of decimal digits, after a minus sign for a signed
  key, whose value is within the bounds of the descriptor, and the number stored is that value.\<close>

theorem numerals_exact:
  "(parse_u64 descriptor bytes = Inr number \<longleftrightarrow>
      bytes \<noteq> [] \<and> list_all decimal_digit bytes \<and> numeral_value 0 bytes = unat number \<and>
      desc_u64_min descriptor \<le> number \<and> number \<le> desc_u64_max descriptor) \<and>
   (parse_i64 descriptor bytes = Inr integer \<longleftrightarrow>
      signed_numeral bytes = Some (sint integer) \<and>
      sint (desc_i64_min descriptor) \<le> sint integer \<and> sint integer \<le> sint (desc_i64_max descriptor))"
  by (intro conjI parse_u64_iff parse_i64_iff)

section \<open>Sources\<close>

text \<open>C27: The validation of a configuration file returns on every document, and it accepts exactly when the document is a
  representable span without NUL bytes and lone carriage returns, every line is empty, a comment or a setting of a known
  key with a value of its kind, and no key is set twice.\<close>

theorem file_acceptance_exact:
  "\<exists>result. config_validate_file h s document = Some result \<and>
     (result = Inr () \<longleftrightarrow>
        object_span_valid (span_data document) (span_length document) \<and> text_ok (text_of h document) \<and>
        settings_ok h s document (doc_lines 0 (text_of h document)))"
  by (rule config_validate_file_iff)

text \<open>C28: Once the sources are accepted, a descriptor takes its value from the command line, else from the environment,
  else from the file, else from its default, and a key with none of them is reported as missing.\<close>

theorem sources_take_precedence:
  assumes "config_validate_sources h s sources = Some (Inr ())"
  shows "config_resolve_descriptor h s (heap_sources h sources) key =
    Some (resolved_from h s (heap_sources h sources) key
      [ARBOR_CONFIG_SOURCE_COMMAND_LINE, ARBOR_CONFIG_SOURCE_ENVIRONMENT, ARBOR_CONFIG_SOURCE_FILE])"
  by (rule resolve_descriptor_order) (rule assms)

theorem sources_take_precedence_witness:
  "config_resolve_descriptor conf_heap conf_schema (heap_sources conf_heap 12352) 0 =
    Some (resolved_from conf_heap conf_schema (heap_sources conf_heap 12352) 0
      [ARBOR_CONFIG_SOURCE_COMMAND_LINE, ARBOR_CONFIG_SOURCE_ENVIRONMENT, ARBOR_CONFIG_SOURCE_FILE])"
  by (rule sources_take_precedence) (rule conf_sources_accepted)

section \<open>Entry points\<close>

text \<open>C29: Every call of \<open>arbor_config_measure\<close> and of \<open>arbor_config_prepare\<close> returns, whatever the heap holds.\<close>

theorem calls_return:
  "(\<exists>r. arbor_config_measure h schema sources requirements_out diagnostic_out = Some r) \<and>
   (\<exists>r. arbor_config_prepare h schema sources storage result_out diagnostic_out = Some r)"
proof
  obtain a where a: "config_analyze h schema sources = Some a" using analyze_returns by blast
  then show "\<exists>r. arbor_config_measure h schema sources requirements_out diagnostic_out = Some r"
    by (auto simp: arbor_config_measure_def split: sum.split prod.split)
  obtain l where "prepare_loop h schema sources storage [0..<unat (schema_descriptor_count (heap_schema h schema))] 0 = Some l"
    using prepare_loop_returns by blast
  then show "\<exists>r. arbor_config_prepare h schema sources storage result_out diagnostic_out = Some r"
    using a by (auto simp: arbor_config_prepare_def Let_def split: sum.split prod.split)
qed

section \<open>A call on the concrete objects\<close>

text \<open>The names of the objects fit in one line each.\<close>

lemma conf_schema_accepted: "config_validate_schema conf_heap 12288 = Inr ()"
proof -
  have names: "config_name_valid conf_bytes \<lparr>span_data = 4096, span_length = 4\<rparr> False False = Inr ()"
    "config_name_valid conf_bytes \<lparr>span_data = 4100, span_length = 4\<rparr> True False = Inr ()"
    "config_name_valid conf_bytes \<lparr>span_data = 4104, span_length = 4\<rparr> False False = Inr ()"
    "config_name_valid conf_bytes \<lparr>span_data = 4108, span_length = 4\<rparr> True False = Inr ()"
    by (simp_all add: config_name_valid_def conf_texts config_range_make_def name_byte_def ascii_def)
  have "for_each (validate_name conf_heap conf_schema 0) config_namespaces = Inr ()"
    "for_each (validate_name conf_heap conf_schema (Suc 0)) config_namespaces = Inr ()"
    by (simp_all add: config_namespaces_def validate_name_def conf_reads conf_objects config_descriptor_name_def names
        config_span_equal_def conf_texts)
  moreover have "validate_constraints conf_heap 0 conf_port = Inr True" "validate_constraints conf_heap 1 conf_name = Inr True"
    by (simp_all add: validate_constraints_def conf_port_def conf_name_def)
  moreover have "validate_default conf_heap 0 conf_port = Inr ()" "validate_default conf_heap 1 conf_name = Inr ()"
    by (simp_all add: validate_default_def conf_port_def conf_name_def descriptor_requirement_def config_value_canonical_def
        config_reserved_zero_def config_value_zero_def kind_value_def zero_span_def config_span_inactive_def)
  ultimately have "validate_descriptor conf_heap conf_schema 0 = Inr ()" "validate_descriptor conf_heap conf_schema (Suc 0) = Inr ()"
    by (simp_all add: validate_descriptor_def conf_reads)
      (simp_all add: conf_port_def conf_name_def descriptor_flags_bad_def descriptor_requirement_def kind_known_def)
  then show ?thesis
    by (simp add: config_validate_schema_def config_range_make_def config_array_range_def config_u64_multiply_def conf_reads
        upt_rec Let_def) (simp add: conf_schema_def)
qed

lemma conf_selectors:
  "file_document conf_sources = \<lparr>span_data = 4112, span_length = 15\<rparr>" "environment_entries conf_sources = 12416"
  "environment_count conf_sources = 1" "command_line_entries conf_sources = 12432" "command_line_count conf_sources = 1"
  "heap_storage conf_heap a = conf_storage"
  by (simp_all add: conf_sources_def conf_heap_def)

lemma conf_records:
  "vector_record conf_heap 12416 ARBOR_CONFIG_SOURCE_ENVIRONMENT 0 =
     Inr \<lparr>rec_name = \<lparr>span_data = 4128, span_length = 4\<rparr>, rec_value = \<lparr>span_data = 4133, span_length = 2\<rparr>,
          rec_ordinal = 0, rec_name_offset = 0, rec_value_offset = 5\<rparr>"
  "vector_record conf_heap 12432 ARBOR_CONFIG_SOURCE_COMMAND_LINE 0 =
     Inr \<lparr>rec_name = \<lparr>span_data = 4138, span_length = 4\<rparr>, rec_value = \<lparr>span_data = 4143, span_length = 2\<rparr>,
          rec_ordinal = 0, rec_name_offset = 2, rec_value_offset = 7\<rparr>"
  by (simp_all add: vector_record_def config_vector_record_def vector_name_start_def conf_reads conf_texts config_range_make_def)

lemma conf_settings:
  "vector_setting conf_heap conf_schema 12416 1 ARBOR_CONFIG_SOURCE_ENVIRONMENT 1 = None"
  "vector_setting conf_heap conf_schema 12432 1 ARBOR_CONFIG_SOURCE_COMMAND_LINE 1 = None"
  "\<exists>rec. vector_setting conf_heap conf_schema 12432 1 ARBOR_CONFIG_SOURCE_COMMAND_LINE 0 = Some rec \<and>
     rec_value rec = \<lparr>span_data = 4143, span_length = 2\<rparr>"
  "\<exists>rec. file_setting conf_heap conf_schema \<lparr>span_data = 4112, span_length = 15\<rparr> 1 = Some rec \<and>
     rec_value rec = \<lparr>span_data = 4125, span_length = 1\<rparr>"
  by (simp_all add: vector_setting_def entry_names_def conf_records vector_namespace_def conf_finds upt_rec)
    (simp add: file_setting_def conf_reads conf_texts conf_lines conf_line_names setting_def upt_rec)

lemma conf_parse_lengths:
  "config_parse_text_value conf_heap conf_port t source ordinal offset key = Inr res \<Longrightarrow> res_utf8_length res = 0"
  "config_parse_text_value conf_heap conf_name t source ordinal offset key = Inr res \<Longrightarrow> res_utf8_length res = span_length t"
  by (rule parse_text(2), assumption, simp add: conf_port_def)
    (rule parse_text(1) [THEN conjunct2], assumption, simp add: conf_name_def)

lemma conf_resolved:
  "\<exists>res. config_resolve_descriptor conf_heap conf_schema conf_sources 0 = Some (Inr res) \<and> res_utf8_length res = 0"
  "\<exists>res. config_resolve_descriptor conf_heap conf_schema conf_sources 1 = Some (Inr res) \<and> res_utf8_length res = 1"
proof -
  note order = resolve_descriptor_order [OF conf_sources_accepted, unfolded conf_reads]
  obtain rec where rec: "vector_setting conf_heap conf_schema 12432 1 ARBOR_CONFIG_SOURCE_COMMAND_LINE 0 = Some rec"
    "rec_value rec = \<lparr>span_data = 4143, span_length = 2\<rparr>" using conf_settings(3) by blast
  obtain res where res: "config_parse_text_value conf_heap conf_port \<lparr>span_data = 4143, span_length = 2\<rparr>
      ARBOR_CONFIG_SOURCE_COMMAND_LINE (rec_ordinal rec) (rec_value_offset rec) 0 = Inr res" using conf_parses(3) by blast
  then show "\<exists>res. config_resolve_descriptor conf_heap conf_schema conf_sources 0 = Some (Inr res) \<and> res_utf8_length res = 0"
    using rec conf_parse_lengths(1) by (simp add: order source_setting_def conf_selectors conf_reads)
  obtain rec' where rec': "file_setting conf_heap conf_schema \<lparr>span_data = 4112, span_length = 15\<rparr> 1 = Some rec'"
    "rec_value rec' = \<lparr>span_data = 4125, span_length = 1\<rparr>" using conf_settings(4) by blast
  obtain res' where res': "config_parse_text_value conf_heap conf_name \<lparr>span_data = 4125, span_length = 1\<rparr>
      ARBOR_CONFIG_SOURCE_FILE (rec_ordinal rec') (rec_value_offset rec') 1 = Inr res'" using conf_parses(4) by blast
  show "\<exists>res. config_resolve_descriptor conf_heap conf_schema conf_sources 1 = Some (Inr res) \<and> res_utf8_length res = 1"
    using rec' res' conf_parse_lengths(2) [OF res'] conf_settings(1,2)
    by (simp add: order source_setting_def conf_selectors conf_reads)
qed

definition conf_requirements :: arbor_config_requirements where
  "conf_requirements = \<lparr>req_descriptor_count = 2, req_descriptor_bytes = 368, req_value_bytes = 96, req_provenance_bytes = 48,
     req_scratch_bytes = 2, req_persistent_bytes = 1, req_result_bytes = 48\<rparr>"

lemma conf_analysis: "config_analyze conf_heap 12288 12352 = Some (Inr conf_requirements)"
proof -
  have "analyze_loop conf_heap conf_schema conf_sources [0, 1] 0 = Some (Inr 1)"
    using conf_resolved by (auto simp: config_u64_add_def)
  moreover have "[0..<unat (2 :: u64)] = [0, 1]" by (simp add: upt_rec)
  ultimately show ?thesis
    by (simp add: config_analyze_def conf_schema_accepted conf_sources_accepted conf_reads config_u64_multiply_def
        conf_requirements_def)
qed

text \<open>The inputs lie below the storage.\<close>

lemma conf_below:
  "16384 \<le> range_begin w \<Longrightarrow> e \<le> 16384 \<Longrightarrow> \<not> config_ranges_overlap w \<lparr>range_begin = b, range_end = e, range_empty = x\<rparr>"
  by (auto simp: config_ranges_overlap_def)

lemma conf_inputs_apart:
  assumes "16384 \<le> range_begin w"
  shows "\<not> config_writable_against_inputs conf_heap w 12288 12352"
proof -
  note below = conf_below [OF assms]
  have "\<not> list_ex (overlaps_input w) (descriptor_ranges conf_heap conf_port)"
    "\<not> list_ex (overlaps_input w) (descriptor_ranges conf_heap conf_name)"
    by (simp_all add: descriptor_ranges_def config_namespaces_def config_descriptor_name_def conf_objects span_range_def
        config_range_make_def overlaps_input_def below)
  moreover have "\<not> list_ex (overlaps_input w) (entry_ranges conf_heap 12416 1)"
    "\<not> list_ex (overlaps_input w) (entry_ranges conf_heap 12432 1)"
    by (simp_all add: entry_ranges_def conf_reads span_range_def config_range_make_def overlaps_input_def below)
  moreover have "set [0..<unat (2 :: u64)] = {0, Suc 0}" by (simp add: upt_rec insert_commute)
  ultimately have "\<not> config_range_overlaps_schema conf_heap w 12288" "\<not> config_range_overlaps_sources conf_heap w 12352"
    unfolding config_range_overlaps_schema_def config_range_overlaps_sources_def conf_reads conf_selectors Let_def
    by (simp_all add: conf_reads span_range_def config_array_range_def config_u64_multiply_def config_range_make_def
        overlaps_input_def below)
  then show ?thesis by (simp add: config_writable_against_inputs_def)
qed

lemma conf_ranges: "config_prepare_ranges conf_heap 12288 12352 12480 16704 16768 = (True, Inr ())"
proof -
  have "output_ranges conf_heap 12480 16704 =
      [Some \<lparr>range_begin = 16704, range_end = 16752, range_empty = False\<rparr>,
       Some \<lparr>range_begin = 16384, range_end = 16480, range_empty = False\<rparr>,
       Some \<lparr>range_begin = 16512, range_end = 16560, range_empty = False\<rparr>,
       Some \<lparr>range_begin = 16640, range_end = 16642, range_empty = False\<rparr>,
       Some \<lparr>range_begin = 16656, range_end = 16664, range_empty = False\<rparr>]"
    by (simp add: output_ranges_def conf_selectors) (simp add: conf_storage_def config_range_make_def config_array_range_def
        config_u64_multiply_def span_range_def)
  then show ?thesis
    by (simp add: config_prepare_ranges_def config_range_make_def conf_inputs_apart config_ranges_overlap_def)
qed

lemma conf_prepared: "\<exists>h'. arbor_config_prepare conf_heap 12288 12352 12480 16704 16768 = Some (h', config_ok)"
  unfolding prepare_succeeds_iff
  by (simp add: conf_analysis conf_ranges conf_selectors) (simp add: storage_fits_def conf_storage_def conf_requirements_def)

section \<open>Results\<close>

text \<open>C30: A call of \<open>arbor_config_prepare\<close> that succeeds stores, for every descriptor of the schema, the value it
  resolves to and its provenance, the texts one after the other in the persistent buffer, and publishes a result
  that describes them.\<close>

theorem prepare_stores_resolutions:
  assumes "arbor_config_prepare h schema sources storage result_out diagnostic_out = Some (h', config_ok)"
  shows "resolutions_stored h h' (heap_schema h schema) (heap_sources h sources) (heap_storage h storage)
      (unat (schema_descriptor_count (heap_schema h schema))) \<and>
    heap_result h' result_out = published_result (heap_storage h storage) (schema_descriptor_count (heap_schema h schema))
      (of_nat (text_start h (heap_schema h schema) (heap_sources h sources) (unat (schema_descriptor_count (heap_schema h schema)))))"
  using prepare_result [OF assms] by (auto simp: resolutions_stored_def)

theorem prepare_stores_resolutions_witness:
  "\<exists>h'. arbor_config_prepare conf_heap 12288 12352 12480 16704 16768 = Some (h', config_ok) \<and>
     resolutions_stored conf_heap h' (heap_schema conf_heap 12288) (heap_sources conf_heap 12352) (heap_storage conf_heap 12480)
       (unat (schema_descriptor_count (heap_schema conf_heap 12288)))"
  using conf_prepared prepare_stores_resolutions by blast

text \<open>C31: The result of a call of \<open>arbor_config_prepare\<close> that succeeds is accepted by \<open>arbor_config_validate\<close> with the
  same schema.\<close>

theorem prepared_result_validates:
  assumes "arbor_config_prepare h schema sources storage result_out diagnostic_out = Some (h', config_ok)"
  shows "arbor_config_validate h' schema result_out = config_ok"
  by (rule prepare_validates) (rule assms)

theorem prepared_result_validates_witness:
  "\<exists>h'. arbor_config_prepare conf_heap 12288 12352 12480 16704 16768 = Some (h', config_ok) \<and>
     arbor_config_validate h' 12288 16704 = config_ok"
  using conf_prepared prepared_result_validates by blast

text \<open>C32: No call of \<open>arbor_config_prepare\<close> changes a byte of its inputs: the memory of all objects and bytes it changes,
  of whatever type, is apart from the memory of the schema, of the sources and of every array, name, choice, default,
  document and entry they point to. A call that succeeds changes only the result and the arrays and buffers of the
  storage, no two of which share a byte, also not with the storage object; a call that fails changes at most the
  diagnostic object.\<close>

theorem prepare_writes_only_outputs:
  assumes "arbor_config_prepare h schema sources storage result_out diagnostic_out = Some (h', status)"
  shows "changed_bytes h h' \<inter> region_bytes (input_objects h schema sources) = {} \<and>
    (if status = config_ok
     then changed_bytes h h' \<subseteq> region_bytes (output_objects h storage result_out) \<and>
       regions_apart ((storage, unat SIZEOF_STORAGE) # output_objects h storage result_out)
     else changed_bytes h h' \<subseteq> bytes_from diagnostic_out (unat SIZEOF_DIAGNOSTIC))"
proof (cases "status = config_ok")
  case True
  obtain h1 result where h1: "h' = h1\<lparr>heap_result := (heap_result h1)(result_out := result)\<rparr>"
    "only_storage_written h h1 (heap_storage h storage) (unat (schema_descriptor_count (heap_schema h schema)))"
    "storage_ready h schema sources (heap_storage h storage)"
    using prepare_result assms True by blast
  obtain req where req: "config_analyze h schema sources = Some (Inr req)"
    "snd (config_prepare_ranges h schema sources storage result_out diagnostic_out) = Inr ()"
    using prepare_ok assms True by blast
  have ranges: "config_prepare_ranges h schema sources storage result_out diagnostic_out =
      (fst (config_prepare_ranges h schema sources storage result_out diagnostic_out), Inr ())"
    using req(2) by (simp add: prod_eq_iff)
  note bytes = prepare_ranges_bytes [OF ranges accepted_representable [OF config_analyze_ok(1,2) [OF req(1)]]]
  have changes: "changed_bytes h h' \<subseteq> region_bytes (output_objects h storage result_out)"
    unfolding h1(1) by (rule storage_changes [OF h1(3,2)])
  then show ?thesis using True bytes by auto
next
  case False
  then show ?thesis using diagnostic_changes [OF prepare_failure [OF assms False]] by simp
qed

theorem prepare_writes_only_outputs_witness:
  "\<exists>h'. arbor_config_prepare conf_heap 12288 12352 12480 16704 16768 = Some (h', config_ok) \<and>
    changed_bytes conf_heap h' \<inter> region_bytes (input_objects conf_heap 12288 12352) = {}"
  using conf_prepared prepare_writes_only_outputs by blast

text \<open>C33: When \<open>arbor_config_measure\<close> succeeds, \<open>arbor_config_prepare\<close> with the same schema and sources succeeds
  exactly when its address checks pass and its storage has the capacities that were measured, the bytes of the persistent
  buffer being those of all resolved texts.\<close>

theorem measured_storage_suffices:
  assumes "arbor_config_measure h schema sources requirements_out diagnostic_out = Some (measured, config_ok)"
  shows "((\<exists>h'. arbor_config_prepare h schema sources storage result_out prepare_diagnostic = Some (h', config_ok)) \<longleftrightarrow>
      snd (config_prepare_ranges h schema sources storage result_out prepare_diagnostic) = Inr () \<and>
      storage_fits (heap_storage h storage) (heap_requirements measured requirements_out)) \<and>
    unat (req_persistent_bytes (heap_requirements measured requirements_out)) =
      text_start h (heap_schema h schema) (heap_sources h sources) (unat (schema_descriptor_count (heap_schema h schema)))"
proof -
  obtain req where req: "config_analyze h schema sources = Some (Inr req)"
    "measured = h\<lparr>heap_requirements := (heap_requirements h)(requirements_out := req)\<rparr>"
    using measure_outcome [OF assms] by auto
  have "unat (req_persistent_bytes req) =
      text_start h (heap_schema h schema) (heap_sources h sources) (unat (schema_descriptor_count (heap_schema h schema)))"
    using analyze_loop_sum(1) [OF config_analyze_ok(5) [OF req(1)]] config_analyze_ok(3) [OF req(1)] by (simp add: text_start_def)
  then show ?thesis unfolding prepare_succeeds_iff using req by simp
qed

theorem measured_storage_suffices_witness:
  "\<exists>measured. arbor_config_measure conf_heap 12288 12352 16832 0 = Some (measured, config_ok) \<and>
     ((\<exists>h'. arbor_config_prepare conf_heap 12288 12352 12480 16704 16768 = Some (h', config_ok)) \<longleftrightarrow>
      snd (config_prepare_ranges conf_heap 12288 12352 12480 16704 16768) = Inr () \<and>
      storage_fits (heap_storage conf_heap 12480) (heap_requirements measured 16832))"
proof -
  have "config_measure_alias_check conf_heap 12288 12352 16832 0 = (False, True)"
    by (simp add: config_measure_alias_check_def config_range_make_def conf_inputs_apart)
  then have "\<exists>measured. arbor_config_measure conf_heap 12288 12352 16832 0 = Some (measured, config_ok)"
    by (simp add: arbor_config_measure_def conf_analysis)
  then show ?thesis using measured_storage_suffices by blast
qed

end
