(* ===== verification/Checked_Math.thy ===== *)
theory Checked_Math
  imports Byte_Memory
begin

text \<open>
  The checked unsigned arithmetic of \<open>src/asm/u64_checked.asm\<close> and \<open>src/asm/range.asm\<close> that the C sources
  call: a result is a native status with a value that is 0 on every error. The carry of an addition and the high half of a
  product are those of the exact sum and product.
\<close>

record arbor_asm_result_u64 =
  asm_status :: i64
  asm_value :: u64

definition asm_ok :: "u64 \<Rightarrow> arbor_asm_result_u64" where
  "asm_ok v = \<lparr>asm_status = 0, asm_value = v\<rparr>"

definition asm_error :: "int \<Rightarrow> arbor_asm_result_u64" where
  "asm_error errno = \<lparr>asm_status = word_of_int (- errno), asm_value = 0\<rparr>"

text \<open>The flag tested by \<open>jc\<close> after \<open>add\<close>.\<close>

definition carry :: "u64 \<Rightarrow> u64 \<Rightarrow> bool" where
  "carry left right \<longleftrightarrow> 18446744073709551616 \<le> unat left + unat right"

definition u64_add_checked :: "u64 \<Rightarrow> u64 \<Rightarrow> arbor_asm_result_u64" where
  "u64_add_checked left right = (if carry left right then asm_error EOVERFLOW else asm_ok (left + right))"

definition u64_sub_checked :: "u64 \<Rightarrow> u64 \<Rightarrow> arbor_asm_result_u64" where
  "u64_sub_checked left right = (if left < right then asm_error EOVERFLOW else asm_ok (left - right))"

definition u64_mul_checked :: "u64 \<Rightarrow> u64 \<Rightarrow> arbor_asm_result_u64" where
  "u64_mul_checked left right =
     (if unat left * unat right div 18446744073709551616 \<noteq> 0 then asm_error EOVERFLOW else asm_ok (left * right))"

definition range_end_checked :: "u64 \<Rightarrow> u64 \<Rightarrow> arbor_asm_result_u64" where
  "range_end_checked base len = (if carry base len then asm_error EOVERFLOW else asm_ok (base + len))"

definition range_contains_point :: "u64 \<Rightarrow> u64 \<Rightarrow> u64 \<Rightarrow> arbor_asm_result_u64" where
  "range_contains_point base len point =
     (if carry base len then asm_error EOVERFLOW
      else if point < base then asm_ok 0
      else asm_ok (if point < base + len then 1 else 0))"

definition range_contains_span :: "u64 \<Rightarrow> u64 \<Rightarrow> u64 \<Rightarrow> u64 \<Rightarrow> arbor_asm_result_u64" where
  "range_contains_span base len child child_len =
     (if carry base len then asm_error EOVERFLOW
      else if carry child child_len then asm_error EOVERFLOW
      else if child < base then asm_ok 0
      else asm_ok (if child + child_len \<le> base + len then 1 else 0))"

definition range_overlaps :: "u64 \<Rightarrow> u64 \<Rightarrow> u64 \<Rightarrow> u64 \<Rightarrow> arbor_asm_result_u64" where
  "range_overlaps left left_len right right_len =
     (if carry left left_len then asm_error EOVERFLOW
      else if carry right right_len then asm_error EOVERFLOW
      else if left_len = 0 then asm_ok 0
      else if right_len = 0 then asm_ok 0
      else if right + right_len \<le> left then asm_ok 0
      else asm_ok (if right < left + left_len then 1 else 0))"

definition range_remaining :: "u64 \<Rightarrow> u64 \<Rightarrow> u64 \<Rightarrow> arbor_asm_result_u64" where
  "range_remaining base len position =
     (if carry base len then asm_error EOVERFLOW
      else if position < base then asm_error EINVAL
      else if base + len < position then asm_error EINVAL
      else asm_ok (base + len - position))"

section \<open>Facts\<close>

lemma asm_simps [simp]:
  "asm_status (asm_ok v) = 0" "asm_value (asm_ok v) = v" "asm_value (asm_error e) = 0"
  "asm_status (asm_error e) = word_of_int (- e)"
  by (simp_all add: asm_ok_def asm_error_def)

lemma no_carry_add: "\<not> carry left right \<Longrightarrow> unat (left + right) = unat left + unat right"
  unfolding carry_def not_le by (simp add: unat_word_ariths)

section \<open>Arrays\<close>

text \<open>An array whose end has an address: its elements have addresses of their own.\<close>

definition array_ok :: "addr \<Rightarrow> u64 \<Rightarrow> u64 \<Rightarrow> bool" where
  "array_ok p count width \<longleftrightarrow> count = 0 \<or> (p \<noteq> 0 \<and> unat p + unat count * unat width < 18446744073709551616)"

lemma slot_unat:
  assumes "array_ok p count width" and "i < unat count"
  shows "unat (p + of_nat i * width) = unat p + i * unat width"
proof -
  have "count \<noteq> 0" using assms(2) by auto
  then have p: "unat p + unat count * unat width < 18446744073709551616" using assms(1) by (simp add: array_ok_def)
  have le: "i * unat width \<le> unat count * unat width" using assms(2) by (intro mult_right_mono) simp_all
  have i: "unat (of_nat i :: u64) = i" using assms(2) unat_u64_upper [of count] by (intro unat_of_nat_u64) simp
  have "i * unat width < 18446744073709551616" using p le by linarith
  then have "unat (of_nat i * width) = i * unat width" using i by (subst unat_mult_lem [THEN iffD1]) simp_all
  moreover have "unat p + i * unat width < 18446744073709551616" using p le by linarith
  ultimately show ?thesis by (subst unat_add_u64) simp_all
qed

lemma slot_inj:
  assumes "array_ok p count width" and "width \<noteq> 0" and "i < unat count" and "j < unat count"
  shows "p + of_nat i * width = p + of_nat j * width \<longleftrightarrow> i = j"
proof
  assume "p + of_nat i * width = p + of_nat j * width"
  then have "unat p + i * unat width = unat p + j * unat width"
    using slot_unat [OF assms(1,3)] slot_unat [OF assms(1,4)] by metis
  moreover have "0 < unat width" using assms(2) by (simp add: unat_gt_0)
  ultimately show "i = j" by simp
qed simp

end
