(* ===== verification/Capability_Model.thy ===== *)
theory Capability_Model
  imports Capability_Types Checked_Math
begin

text \<open>
  The data and the checks of \<open>src/c/capability_kernel.c\<close>. Pointers are addresses into a heap with one store for
  each type of object; objects of an array are the size of one apart. The functions that only read give a status or a
  value; those that write give the heap they leave as well.
\<close>

section \<open>The code: objects\<close>

record arbor_module_id =
  mid_high :: u64
  mid_low :: u64

record arbor_capability_export =
  exp_id :: arbor_capability_id
  exp_version :: arbor_capability_version
  exp_interface_size :: u32
  exp_reserved0 :: u32
  exp_flags :: u64
  exp_interface_table :: addr
  exp_provider_context :: addr

record arbor_capability_requirement =
  rqm_id :: arbor_capability_id
  rqm_minimum_version :: arbor_capability_version
  rqm_minimum_interface_size :: u32
  rqm_reserved0 :: u32
  rqm_flags :: u64

record arbor_module_descriptor =
  mod_id :: arbor_module_id
  mod_abi_version :: u32
  mod_struct_size :: u32
  mod_flags :: u64
  mod_provides :: addr
  mod_provides_count :: u64
  mod_consumes :: addr
  mod_consumes_count :: u64

record arbor_capability_resolution =
  rsl_consumer_module_index :: u64
  rsl_requirement_index :: u64
  rsl_binding_index :: u64

record arbor_capability_catalog_requirements =
  cnt_module_count :: u64
  cnt_binding_count :: u64
  cnt_resolution_count :: u64

record arbor_capability_catalog_storage =
  sto_bindings :: addr
  sto_binding_capacity :: u64
  sto_resolutions :: addr
  sto_resolution_capacity :: u64
  sto_module_order :: addr
  sto_module_order_capacity :: u64

record arbor_capability_workspace =
  wsp_resolved_provider_module_indices :: addr
  wsp_resolved_binding_indices :: addr
  wsp_resolution_capacity :: u64
  wsp_indegree :: addr
  wsp_selected :: addr
  wsp_module_order :: addr
  wsp_module_capacity :: u64

record arbor_capability_catalog =
  cat_abi_version :: u32
  cat_struct_size :: u32
  cat_flags :: u64
  cat_modules :: addr
  cat_module_count :: u64
  cat_bindings :: addr
  cat_binding_count :: u64
  cat_resolutions :: addr
  cat_resolution_count :: u64
  cat_module_order :: addr

abbreviation SIZEOF_CAP_EXPORT :: u64 where "SIZEOF_CAP_EXPORT \<equiv> 56"
abbreviation SIZEOF_CAP_REQUIREMENT :: u64 where "SIZEOF_CAP_REQUIREMENT \<equiv> 40"
abbreviation SIZEOF_CAP_MODULE :: u64 where "SIZEOF_CAP_MODULE \<equiv> 64"
abbreviation SIZEOF_CAP_BINDING :: u64 where "SIZEOF_CAP_BINDING \<equiv> 64"
abbreviation SIZEOF_CAP_RESOLUTION :: u64 where "SIZEOF_CAP_RESOLUTION \<equiv> 24"
abbreviation SIZEOF_CAP_STORAGE :: u64 where "SIZEOF_CAP_STORAGE \<equiv> 48"
abbreviation SIZEOF_CAP_WORKSPACE :: u64 where "SIZEOF_CAP_WORKSPACE \<equiv> 56"
abbreviation SIZEOF_CAP_CATALOG :: u64 where "SIZEOF_CAP_CATALOG \<equiv> 72"
abbreviation SIZEOF_CAP_INDEX :: u64 where "SIZEOF_CAP_INDEX \<equiv> 8"
abbreviation SIZEOF_CAP_FLAG :: u64 where "SIZEOF_CAP_FLAG \<equiv> 1"

abbreviation ARBOR_CAPABILITY_KERNEL_ABI_VERSION :: u32 where "ARBOR_CAPABILITY_KERNEL_ABI_VERSION \<equiv> 1"
abbreviation ARBOR_MODULE_DESCRIPTOR_ABI_VERSION :: u32 where "ARBOR_MODULE_DESCRIPTOR_ABI_VERSION \<equiv> 1"

abbreviation EEXIST :: int where "EEXIST \<equiv> 17"
abbreviation ELOOP :: int where "ELOOP \<equiv> 40"

record cap_heap =
  cap_module :: "addr \<Rightarrow> arbor_module_descriptor"
  cap_export :: "addr \<Rightarrow> arbor_capability_export"
  cap_requirement :: "addr \<Rightarrow> arbor_capability_requirement"
  cap_binding :: "addr \<Rightarrow> arbor_capability_binding"
  cap_resolution :: "addr \<Rightarrow> arbor_capability_resolution"
  cap_storage :: "addr \<Rightarrow> arbor_capability_catalog_storage"
  cap_workspace :: "addr \<Rightarrow> arbor_capability_workspace"
  cap_catalog :: "addr \<Rightarrow> arbor_capability_catalog"
  cap_index :: "addr \<Rightarrow> u64"
  cap_flag :: "addr \<Rightarrow> u8"

text \<open>The elements of the arrays.\<close>

abbreviation module_addr :: "addr \<Rightarrow> nat \<Rightarrow> addr" where
  "module_addr modules i \<equiv> modules + of_nat i * SIZEOF_CAP_MODULE"

definition module_at :: "cap_heap \<Rightarrow> addr \<Rightarrow> nat \<Rightarrow> arbor_module_descriptor" where
  "module_at h modules i = cap_module h (module_addr modules i)"

abbreviation export_addr :: "arbor_module_descriptor \<Rightarrow> nat \<Rightarrow> addr" where
  "export_addr m e \<equiv> mod_provides m + of_nat e * SIZEOF_CAP_EXPORT"

definition export_at :: "cap_heap \<Rightarrow> arbor_module_descriptor \<Rightarrow> nat \<Rightarrow> arbor_capability_export" where
  "export_at h m e = cap_export h (export_addr m e)"

abbreviation requirement_addr :: "arbor_module_descriptor \<Rightarrow> nat \<Rightarrow> addr" where
  "requirement_addr m r \<equiv> mod_consumes m + of_nat r * SIZEOF_CAP_REQUIREMENT"

definition requirement_at :: "cap_heap \<Rightarrow> arbor_module_descriptor \<Rightarrow> nat \<Rightarrow> arbor_capability_requirement" where
  "requirement_at h m r = cap_requirement h (requirement_addr m r)"

abbreviation exports :: "arbor_module_descriptor \<Rightarrow> nat list" where
  "exports m \<equiv> [0..<unat (mod_provides_count m)]"

abbreviation requirements :: "arbor_module_descriptor \<Rightarrow> nat list" where
  "requirements m \<equiv> [0..<unat (mod_consumes_count m)]"

section \<open>The code: identities and versions\<close>

text \<open>An early return with a negated \<open>errno\<close>.\<close>

definition refuse :: "int \<Rightarrow> arbor_status + 'a" where
  "refuse errno = Inl (native_status (- errno))"

definition module_id_is_zero :: "arbor_module_id \<Rightarrow> bool" where
  "module_id_is_zero i \<longleftrightarrow> mid_high i = 0 \<and> mid_low i = 0"

definition capability_id_is_zero :: "arbor_capability_id \<Rightarrow> bool" where
  "capability_id_is_zero i \<longleftrightarrow> id_high i = 0 \<and> id_low i = 0"

definition module_id_equal :: "arbor_module_id \<Rightarrow> arbor_module_id \<Rightarrow> bool" where
  "module_id_equal left right \<longleftrightarrow> mid_high left = mid_high right \<and> mid_low left = mid_low right"

definition capability_id_equal :: "arbor_capability_id \<Rightarrow> arbor_capability_id \<Rightarrow> bool" where
  "capability_id_equal left right \<longleftrightarrow> id_high left = id_high right \<and> id_low left = id_low right"

definition version_satisfies :: "arbor_capability_version \<Rightarrow> arbor_capability_version \<Rightarrow> bool" where
  "version_satisfies provider required \<longleftrightarrow>
     ver_major provider = ver_major required \<and> ver_minor provider \<ge> ver_minor required"

definition checked_add_u64 :: "u64 \<Rightarrow> u64 \<Rightarrow> arbor_status + u64" where
  "checked_add_u64 left right =
     (let result = u64_add_checked left right
      in if asm_status result \<noteq> 0 then Inl (arbor_status_from_native (asm_status result)) else Inr (asm_value result))"

section \<open>The code: descriptors\<close>

definition module_shape_validate :: "cap_heap \<Rightarrow> addr \<Rightarrow> arbor_status + unit" where
  "module_shape_validate h module_ptr =
     (let m = cap_module h module_ptr
      in if module_ptr = 0 \<or> module_id_is_zero (mod_id m) then refuse EINVAL
         else if mod_abi_version m \<noteq> ARBOR_MODULE_DESCRIPTOR_ABI_VERSION \<or> mod_struct_size m \<noteq> ucast SIZEOF_CAP_MODULE \<or>
            mod_flags m \<noteq> 0 then refuse EINVAL
         else if (mod_provides_count m \<noteq> 0 \<and> mod_provides m = 0) \<or> (mod_consumes_count m \<noteq> 0 \<and> mod_consumes m = 0)
         then refuse EINVAL
         else Inr ())"

definition export_validate :: "cap_heap \<Rightarrow> addr \<Rightarrow> arbor_status + unit" where
  "export_validate h provided_ptr =
     (let provided = cap_export h provided_ptr
      in if provided_ptr = 0 \<or> capability_id_is_zero (exp_id provided) then refuse EINVAL
         else if ver_major (exp_version provided) = 0 \<or> exp_interface_size provided = 0 \<or> exp_reserved0 provided \<noteq> 0 \<or>
            exp_flags provided \<noteq> 0 \<or> exp_interface_table provided = 0 then refuse EINVAL
         else Inr ())"

definition requirement_validate :: "cap_heap \<Rightarrow> addr \<Rightarrow> arbor_status + unit" where
  "requirement_validate h required_ptr =
     (let required = cap_requirement h required_ptr
      in if required_ptr = 0 \<or> capability_id_is_zero (rqm_id required) then refuse EINVAL
         else if ver_major (rqm_minimum_version required) = 0 \<or> rqm_minimum_interface_size required = 0 \<or>
            rqm_reserved0 required \<noteq> 0 \<or> rqm_flags required \<noteq> 0 then refuse EINVAL
         else Inr ())"

text \<open>The loop of \<open>counts_measure\<close>.\<close>

fun counts_loop :: "cap_heap \<Rightarrow> addr \<Rightarrow> nat list \<Rightarrow> u64 \<Rightarrow> u64 \<Rightarrow> arbor_status + u64 \<times> u64" where
  "counts_loop h modules [] binding_count resolution_count = Inr (binding_count, resolution_count)"
| "counts_loop h modules (i # rest) binding_count resolution_count =
     then_ok (module_shape_validate h (module_addr modules i)) (\<lambda>_.
     then_ok (checked_add_u64 binding_count (mod_provides_count (module_at h modules i))) (\<lambda>bindings.
     then_ok (checked_add_u64 resolution_count (mod_consumes_count (module_at h modules i))) (\<lambda>resolutions.
     counts_loop h modules rest bindings resolutions)))"

definition counts_measure :: "cap_heap \<Rightarrow> addr \<Rightarrow> u64 \<Rightarrow> arbor_status + arbor_capability_catalog_requirements" where
  "counts_measure h modules module_count =
     (if module_count \<noteq> 0 \<and> modules = 0 then refuse EINVAL
      else
        then_ok (counts_loop h modules [0..<unat module_count] 0 0) (\<lambda>(binding_count, resolution_count).
        Inr \<lparr>cnt_module_count = module_count, cnt_binding_count = binding_count, cnt_resolution_count = resolution_count\<rparr>))"

text \<open>\<open>Inr\<close> is what is stored in \<open>*out\<close>; nothing is stored otherwise.\<close>

definition arbor_capability_catalog_measure ::
    "cap_heap \<Rightarrow> addr \<Rightarrow> u64 \<Rightarrow> addr \<Rightarrow> arbor_status + arbor_capability_catalog_requirements" where
  "arbor_capability_catalog_measure h modules module_count out =
     (if out = 0 then refuse EINVAL else counts_measure h modules module_count)"

definition storage_validate ::
    "cap_heap \<Rightarrow> arbor_capability_catalog_requirements \<Rightarrow> addr \<Rightarrow> addr \<Rightarrow> arbor_status + unit" where
  "storage_validate h counts storage_ptr workspace_ptr =
     (let storage = cap_storage h storage_ptr; workspace = cap_workspace h workspace_ptr
      in if storage_ptr = 0 \<or> workspace_ptr = 0 then refuse EINVAL
         else if sto_binding_capacity storage < cnt_binding_count counts \<or>
            sto_resolution_capacity storage < cnt_resolution_count counts \<or>
            sto_module_order_capacity storage < cnt_module_count counts \<or>
            wsp_resolution_capacity workspace < cnt_resolution_count counts \<or>
            wsp_module_capacity workspace < cnt_module_count counts then refuse ENOSPC
         else if (cnt_binding_count counts \<noteq> 0 \<and> sto_bindings storage = 0) \<or>
            (cnt_resolution_count counts \<noteq> 0 \<and> sto_resolutions storage = 0) \<or>
            (cnt_module_count counts \<noteq> 0 \<and> sto_module_order storage = 0) \<or>
            (cnt_resolution_count counts \<noteq> 0 \<and>
             (wsp_resolved_provider_module_indices workspace = 0 \<or> wsp_resolved_binding_indices workspace = 0)) \<or>
            (cnt_module_count counts \<noteq> 0 \<and>
             (wsp_indegree workspace = 0 \<or> wsp_selected workspace = 0 \<or> wsp_module_order workspace = 0))
         then refuse EINVAL
         else Inr ())"

section \<open>The code: regions\<close>

record arbor_memory_region =
  mem_pointer :: addr
  mem_byte_length :: u64

definition array_region :: "addr \<Rightarrow> u64 \<Rightarrow> u64 \<Rightarrow> arbor_status + arbor_memory_region" where
  "array_region pointer count element_size =
     (if count = 0 then Inr \<lparr>mem_pointer = 0, mem_byte_length = 0\<rparr>
      else if pointer = 0 then refuse EINVAL
      else
        let bytes = u64_mul_checked count element_size
        in if asm_status bytes \<noteq> 0 then Inl (arbor_status_from_native (asm_status bytes))
           else
             let end_at = range_end_checked pointer (asm_value bytes)
             in if asm_status end_at \<noteq> 0 then Inl (arbor_status_from_native (asm_status end_at))
                else Inr \<lparr>mem_pointer = pointer, mem_byte_length = asm_value bytes\<rparr>)"

definition memory_regions_overlap :: "arbor_memory_region \<Rightarrow> arbor_memory_region \<Rightarrow> arbor_status + bool" where
  "memory_regions_overlap left right =
     (if mem_byte_length left = 0 \<or> mem_byte_length right = 0 then Inr False
      else
        let result = range_overlaps (mem_pointer left) (mem_byte_length left) (mem_pointer right) (mem_byte_length right)
        in if asm_status result \<noteq> 0 then Inl (arbor_status_from_native (asm_status result))
           else Inr (asm_value result \<noteq> 0))"

definition reject_overlap :: "arbor_memory_region \<Rightarrow> arbor_memory_region \<Rightarrow> arbor_status + unit" where
  "reject_overlap left right =
     then_ok (memory_regions_overlap left right) (\<lambda>overlap. if overlap then refuse EINVAL else Inr ())"

text \<open>A sequence of calls of \<open>region_make\<close>, each a pointer, a count and the size of an element.\<close>

fun array_regions :: "(addr \<times> u64 \<times> u64) list \<Rightarrow> arbor_status + arbor_memory_region list" where
  "array_regions [] = Inr []"
| "array_regions ((pointer, count, element_size) # rest) =
     then_ok (array_region pointer count element_size) (\<lambda>r.
     then_ok (array_regions rest) (\<lambda>rs. Inr (r # rs)))"

text \<open>What a call of \<open>arbor_capability_catalog_prepare\<close> may write, in the order of \<open>writes\<close>.\<close>

definition written_arrays ::
    "arbor_capability_catalog_requirements \<Rightarrow> arbor_capability_catalog_storage \<Rightarrow> arbor_capability_workspace \<Rightarrow> addr \<Rightarrow>
     (addr \<times> u64 \<times> u64) list" where
  "written_arrays counts storage workspace out =
     [(sto_bindings storage, cnt_binding_count counts, SIZEOF_CAP_BINDING),
      (sto_resolutions storage, cnt_resolution_count counts, SIZEOF_CAP_RESOLUTION),
      (sto_module_order storage, cnt_module_count counts, SIZEOF_CAP_INDEX),
      (wsp_resolved_provider_module_indices workspace, cnt_resolution_count counts, SIZEOF_CAP_INDEX),
      (wsp_resolved_binding_indices workspace, cnt_resolution_count counts, SIZEOF_CAP_INDEX),
      (wsp_indegree workspace, cnt_module_count counts, SIZEOF_CAP_INDEX),
      (wsp_selected workspace, cnt_module_count counts, SIZEOF_CAP_FLAG),
      (wsp_module_order workspace, cnt_module_count counts, SIZEOF_CAP_INDEX),
      (out, 1, SIZEOF_CAP_CATALOG)]"

definition reject_module_overlaps ::
    "cap_heap \<Rightarrow> arbor_module_descriptor \<Rightarrow> arbor_memory_region list \<Rightarrow> arbor_status + unit" where
  "reject_module_overlaps h m writes =
     then_ok (array_region (mod_provides m) (mod_provides_count m) SIZEOF_CAP_EXPORT) (\<lambda>provides.
     then_ok (array_region (mod_consumes m) (mod_consumes_count m) SIZEOF_CAP_REQUIREMENT) (\<lambda>consumes.
     then_ok (each_ok (\<lambda>write. then_ok (reject_overlap write provides) (\<lambda>_. reject_overlap write consumes)) writes) (\<lambda>_.
     each_ok (\<lambda>e.
       then_ok (array_region (exp_interface_table (export_at h m e)) (ucast (exp_interface_size (export_at h m e))) 1)
         (\<lambda>interface_region. each_ok (\<lambda>write. reject_overlap write interface_region) writes)) (exports m))))"

definition publication_regions_validate ::
    "cap_heap \<Rightarrow> addr \<Rightarrow> u64 \<Rightarrow> arbor_capability_catalog_requirements \<Rightarrow> addr \<Rightarrow> addr \<Rightarrow> addr \<Rightarrow> arbor_status + unit" where
  "publication_regions_validate h modules module_count counts storage_ptr workspace_ptr out =
     then_ok (array_regions (written_arrays counts (cap_storage h storage_ptr) (cap_workspace h workspace_ptr) out)) (\<lambda>writes.
     then_ok (each_ok (\<lambda>i. each_ok (\<lambda>j. reject_overlap (writes ! i) (writes ! j)) [0..<i]) [0..<length writes]) (\<lambda>_.
     then_ok (array_regions [(storage_ptr, 1, SIZEOF_CAP_STORAGE), (workspace_ptr, 1, SIZEOF_CAP_WORKSPACE),
         (modules, module_count, SIZEOF_CAP_MODULE)]) (\<lambda>controls.
     then_ok (each_ok (\<lambda>write. each_ok (reject_overlap write) controls) writes) (\<lambda>_.
     each_ok (\<lambda>i. reject_module_overlaps h (module_at h modules i) writes) [0..<unat module_count]))))"

section \<open>The code: the descriptor set\<close>

definition requirement_set_validate :: "cap_heap \<Rightarrow> arbor_module_descriptor \<Rightarrow> nat \<Rightarrow> arbor_status + unit" where
  "requirement_set_validate h m r =
     then_ok (requirement_validate h (requirement_addr m r)) (\<lambda>_.
     each_ok (\<lambda>previous.
       if capability_id_equal (rqm_id (requirement_at h m r)) (rqm_id (requirement_at h m previous)) then refuse EEXIST
       else Inr ()) [0..<r])"

definition descriptor_validate :: "cap_heap \<Rightarrow> addr \<Rightarrow> nat \<Rightarrow> arbor_status + unit" where
  "descriptor_validate h modules i =
     (let m = module_at h modules i
      in then_ok (module_shape_validate h (module_addr modules i)) (\<lambda>_.
         then_ok (each_ok (\<lambda>j. if module_id_equal (mod_id m) (mod_id (module_at h modules j)) then refuse EEXIST else Inr ())
           [0..<i]) (\<lambda>_.
         then_ok (each_ok (\<lambda>p. export_validate h (export_addr m p)) (exports m)) (\<lambda>_.
         each_ok (requirement_set_validate h m) (requirements m)))))"

text \<open>The exports before the export \<open>pi\<close> of the module \<open>mi\<close>, in the order of the loops.\<close>

definition export_unique :: "cap_heap \<Rightarrow> addr \<Rightarrow> nat \<Rightarrow> nat \<Rightarrow> arbor_status + unit" where
  "export_unique h modules mi pi =
     each_ok (\<lambda>mj.
       each_ok (\<lambda>pj.
         if capability_id_equal (exp_id (export_at h (module_at h modules mi) pi)) (exp_id (export_at h (module_at h modules mj) pj))
         then refuse EEXIST else Inr ())
         [0..<(if mj = mi then pi else unat (mod_provides_count (module_at h modules mj)))]) [0..<mi + 1]"

definition descriptor_set_validate :: "cap_heap \<Rightarrow> addr \<Rightarrow> u64 \<Rightarrow> arbor_status + unit" where
  "descriptor_set_validate h modules module_count =
     then_ok (each_ok (descriptor_validate h modules) [0..<unat module_count]) (\<lambda>_.
     each_ok (\<lambda>mi. each_ok (export_unique h modules mi) (exports (module_at h modules mi))) [0..<unat module_count])"

end
