(* ===== verification/Capability_Catalog.thy ===== *)
theory Capability_Catalog
  imports Capability_Model
begin

text \<open>
  The operations of \<open>src/c/capability_kernel.c\<close>: the resolution of requirements, the order of the modules, the
  publication of a catalog, its validation, and the three look-ups. A function that writes gives the heap it leaves
  with its result, also when it fails in the middle.
\<close>

section \<open>The code: resolution\<close>

text \<open>The slots of the arrays of the workspace and of the storage.\<close>

definition index_slot :: "addr \<Rightarrow> nat \<Rightarrow> addr" where
  "index_slot base i = base + of_nat i * SIZEOF_CAP_INDEX"

definition flag_slot :: "addr \<Rightarrow> nat \<Rightarrow> addr" where
  "flag_slot base i = base + of_nat i * SIZEOF_CAP_FLAG"

abbreviation set_index :: "addr \<Rightarrow> nat \<Rightarrow> u64 \<Rightarrow> cap_heap \<Rightarrow> cap_heap" where
  "set_index base i v h \<equiv> h\<lparr>cap_index := (cap_index h)(index_slot base i := v)\<rparr>"

abbreviation set_flag :: "addr \<Rightarrow> nat \<Rightarrow> u8 \<Rightarrow> cap_heap \<Rightarrow> cap_heap" where
  "set_flag base i v h \<equiv> h\<lparr>cap_flag := (cap_flag h)(flag_slot base i := v)\<rparr>"

text \<open>\<open>modules\<close> at \<open>base\<close>, in the order of the two loops.\<close>

definition export_pairs :: "cap_heap \<Rightarrow> addr \<Rightarrow> nat \<Rightarrow> (nat \<times> nat) list" where
  "export_pairs h modules n = concat (map (\<lambda>i. map (Pair i) (exports (module_at h modules i))) [0..<n])"

text \<open>\<open>found_id\<close>, \<open>found_compatible\<close>, \<open>provider_module\<close> and \<open>provider_export\<close> after a candidate.\<close>

definition provider_turn ::
    "cap_heap \<Rightarrow> addr \<Rightarrow> arbor_capability_requirement \<Rightarrow> nat \<times> nat \<Rightarrow> bool \<times> bool \<times> nat \<times> nat \<Rightarrow> bool \<times> bool \<times> nat \<times> nat" where
  "provider_turn h modules required candidate found =
     (let provided = export_at h (module_at h modules (fst candidate)) (snd candidate)
      in if \<not> capability_id_equal (exp_id provided) (rqm_id required) then found
         else if version_satisfies (exp_version provided) (rqm_minimum_version required) \<and>
            exp_interface_size provided \<ge> rqm_minimum_interface_size required
         then (True, True, fst candidate, snd candidate)
         else (True, snd found))"

definition provider_search ::
    "cap_heap \<Rightarrow> addr \<Rightarrow> nat \<Rightarrow> arbor_capability_requirement \<Rightarrow> bool \<times> bool \<times> nat \<times> nat" where
  "provider_search h modules n required =
     fold (provider_turn h modules required) (export_pairs h modules n) (False, False, 0, 0)"

fun binding_index_loop :: "cap_heap \<Rightarrow> addr \<Rightarrow> nat list \<Rightarrow> u64 \<Rightarrow> arbor_status + u64" where
  "binding_index_loop h modules [] index = Inr index"
| "binding_index_loop h modules (i # rest) index =
     then_ok (checked_add_u64 index (mod_provides_count (module_at h modules i))) (binding_index_loop h modules rest)"

definition binding_index_for_export :: "cap_heap \<Rightarrow> addr \<Rightarrow> nat \<Rightarrow> nat \<Rightarrow> arbor_status + u64" where
  "binding_index_for_export h modules provider_module_index provider_export_index =
     then_ok (binding_index_loop h modules [0..<provider_module_index] 0)
       (\<lambda>index. checked_add_u64 index (of_nat provider_export_index))"

text \<open>The provider and the binding of one requirement.\<close>

definition resolve_requirement ::
    "cap_heap \<Rightarrow> addr \<Rightarrow> nat \<Rightarrow> arbor_capability_requirement \<Rightarrow> arbor_status + nat \<times> u64" where
  "resolve_requirement h modules n required =
     (case provider_search h modules n required of
        (found_id, found_compatible, provider_module, provider_export) \<Rightarrow>
          if \<not> found_id then refuse ENOENT
          else if \<not> found_compatible then refuse EPROTONOSUPPORT
          else
            then_ok (binding_index_for_export h modules provider_module provider_export) (\<lambda>binding_index.
            Inr (provider_module, binding_index)))"

text \<open>The inner loop of \<open>requirements_resolve\<close> over the requirements of one module, from \<open>resolution_index\<close> on.\<close>

fun requirements_loop ::
    "addr \<Rightarrow> nat \<Rightarrow> arbor_capability_workspace \<Rightarrow> nat \<Rightarrow> nat list \<Rightarrow> nat \<Rightarrow> cap_heap \<Rightarrow> cap_heap \<times> (arbor_status + nat)" where
  "requirements_loop modules n workspace consumer [] resolution_index h = (h, Inr resolution_index)"
| "requirements_loop modules n workspace consumer (r # rest) resolution_index h =
     (case resolve_requirement h modules n (requirement_at h (module_at h modules consumer) r) of
        Inl status \<Rightarrow> (h, Inl status)
      | Inr (provider_module, binding_index) \<Rightarrow>
          requirements_loop modules n workspace consumer rest (resolution_index + 1)
            (set_index (wsp_resolved_binding_indices workspace) resolution_index binding_index
              (set_index (wsp_resolved_provider_module_indices workspace) resolution_index (of_nat provider_module) h)))"

fun consumers_loop ::
    "addr \<Rightarrow> nat \<Rightarrow> arbor_capability_workspace \<Rightarrow> nat list \<Rightarrow> nat \<Rightarrow> cap_heap \<Rightarrow> cap_heap \<times> (arbor_status + nat)" where
  "consumers_loop modules n workspace [] resolution_index h = (h, Inr resolution_index)"
| "consumers_loop modules n workspace (consumer # rest) resolution_index h =
     (let m = module_at h modules consumer;
          started = set_flag (wsp_selected workspace) consumer 0
            (set_index (wsp_indegree workspace) consumer (mod_consumes_count m) h)
      in case requirements_loop modules n workspace consumer (requirements m) resolution_index started of
           (h', Inl status) \<Rightarrow> (h', Inl status)
         | (h', Inr next_index) \<Rightarrow> consumers_loop modules n workspace rest next_index h')"

definition requirements_resolve ::
    "cap_heap \<Rightarrow> addr \<Rightarrow> u64 \<Rightarrow> arbor_capability_workspace \<Rightarrow> cap_heap \<times> (arbor_status + unit)" where
  "requirements_resolve h modules module_count workspace =
     (case consumers_loop modules (unat module_count) workspace [0..<unat module_count] 0 h of
        (h', Inl status) \<Rightarrow> (h', Inl status)
      | (h', Inr _) \<Rightarrow> (h', Inr ()))"

section \<open>The code: the order of the modules\<close>

text \<open>The least module that is not selected and has no provider left to wait for.\<close>

definition candidate_search :: "cap_heap \<Rightarrow> nat \<Rightarrow> arbor_capability_workspace \<Rightarrow> nat option" where
  "candidate_search h n workspace =
     find (\<lambda>candidate. cap_flag h (flag_slot (wsp_selected workspace) candidate) = 0 \<and>
       cap_index h (index_slot (wsp_indegree workspace) candidate) = 0) [0..<n]"

text \<open>The loop over all requirements after a module is selected, for those of one consumer.\<close>

fun release_loop ::
    "arbor_capability_workspace \<Rightarrow> nat \<Rightarrow> nat \<Rightarrow> nat list \<Rightarrow> nat \<Rightarrow> cap_heap \<Rightarrow> cap_heap \<times> (arbor_status + nat)" where
  "release_loop workspace selected_module consumer [] resolution_index h = (h, Inr resolution_index)"
| "release_loop workspace selected_module consumer (_ # rest) resolution_index h =
     (if cap_index h (index_slot (wsp_resolved_provider_module_indices workspace) resolution_index) = of_nat selected_module then
        (let indegree = cap_index h (index_slot (wsp_indegree workspace) consumer)
         in if indegree = 0 then (h, refuse EINVAL)
            else
              release_loop workspace selected_module consumer rest (resolution_index + 1)
                (set_index (wsp_indegree workspace) consumer (indegree - 1) h))
      else release_loop workspace selected_module consumer rest (resolution_index + 1) h)"

fun release_consumers ::
    "addr \<Rightarrow> arbor_capability_workspace \<Rightarrow> nat \<Rightarrow> nat list \<Rightarrow> nat \<Rightarrow> cap_heap \<Rightarrow> cap_heap \<times> (arbor_status + nat)" where
  "release_consumers modules workspace selected_module [] resolution_index h = (h, Inr resolution_index)"
| "release_consumers modules workspace selected_module (consumer # rest) resolution_index h =
     (case release_loop workspace selected_module consumer (requirements (module_at h modules consumer)) resolution_index h of
        (h', Inl status) \<Rightarrow> (h', Inl status)
      | (h', Inr next_index) \<Rightarrow> release_consumers modules workspace selected_module rest next_index h')"

fun order_loop ::
    "addr \<Rightarrow> nat \<Rightarrow> arbor_capability_workspace \<Rightarrow> nat list \<Rightarrow> cap_heap \<Rightarrow> cap_heap \<times> (arbor_status + unit)" where
  "order_loop modules n workspace [] h = (h, Inr ())"
| "order_loop modules n workspace (output_index # rest) h =
     (case candidate_search h n workspace of
        None \<Rightarrow> (h, refuse ELOOP)
      | Some selected_module \<Rightarrow>
          (let marked = set_index (wsp_module_order workspace) output_index (of_nat selected_module)
                 (set_flag (wsp_selected workspace) selected_module 1 h)
           in case release_consumers modules workspace selected_module [0..<n] 0 marked of
                (h', Inl status) \<Rightarrow> (h', Inl status)
              | (h', Inr _) \<Rightarrow> order_loop modules n workspace rest h'))"

definition topological_order_build ::
    "cap_heap \<Rightarrow> addr \<Rightarrow> u64 \<Rightarrow> arbor_capability_workspace \<Rightarrow> cap_heap \<times> (arbor_status + unit)" where
  "topological_order_build h modules module_count workspace =
     order_loop modules (unat module_count) workspace [0..<unat module_count] h"

section \<open>The code: publication\<close>

definition binding_of :: "arbor_capability_export \<Rightarrow> nat \<Rightarrow> arbor_capability_binding" where
  "binding_of provided module_index =
     \<lparr>bind_id = exp_id provided, bind_version = exp_version provided, bind_interface_size = exp_interface_size provided,
      bind_reserved0 = 0, bind_flags = exp_flags provided, bind_interface_table = exp_interface_table provided,
      bind_provider_context = exp_provider_context provided, bind_provider_module_index = of_nat module_index\<rparr>"

definition binding_slot :: "addr \<Rightarrow> nat \<Rightarrow> addr" where
  "binding_slot base i = base + of_nat i * SIZEOF_CAP_BINDING"

definition resolution_slot :: "addr \<Rightarrow> nat \<Rightarrow> addr" where
  "resolution_slot base i = base + of_nat i * SIZEOF_CAP_RESOLUTION"

text \<open>The three loops of \<open>publish_catalog\<close>, the first two over the exports and over the requirements of all modules.\<close>

fun publish_bindings :: "addr \<Rightarrow> addr \<Rightarrow> (nat \<times> nat) list \<Rightarrow> nat \<Rightarrow> cap_heap \<Rightarrow> cap_heap" where
  "publish_bindings modules bindings [] binding_index h = h"
| "publish_bindings modules bindings ((i, e) # rest) binding_index h =
     publish_bindings modules bindings rest (binding_index + 1)
       (h\<lparr>cap_binding := (cap_binding h)(binding_slot bindings binding_index := binding_of (export_at h (module_at h modules i) e) i)\<rparr>)"

definition requirement_pairs :: "cap_heap \<Rightarrow> addr \<Rightarrow> nat \<Rightarrow> (nat \<times> nat) list" where
  "requirement_pairs h modules n = concat (map (\<lambda>i. map (Pair i) (requirements (module_at h modules i))) [0..<n])"

fun publish_resolutions :: "addr \<Rightarrow> arbor_capability_workspace \<Rightarrow> (nat \<times> nat) list \<Rightarrow> nat \<Rightarrow> cap_heap \<Rightarrow> cap_heap" where
  "publish_resolutions resolutions workspace [] resolution_index h = h"
| "publish_resolutions resolutions workspace ((i, r) # rest) resolution_index h =
     publish_resolutions resolutions workspace rest (resolution_index + 1)
       (h\<lparr>cap_resolution := (cap_resolution h)(resolution_slot resolutions resolution_index :=
            \<lparr>rsl_consumer_module_index = of_nat i, rsl_requirement_index = of_nat r,
             rsl_binding_index = cap_index h (index_slot (wsp_resolved_binding_indices workspace) resolution_index)\<rparr>)\<rparr>)"

fun publish_order :: "addr \<Rightarrow> arbor_capability_workspace \<Rightarrow> nat list \<Rightarrow> cap_heap \<Rightarrow> cap_heap" where
  "publish_order module_order workspace [] h = h"
| "publish_order module_order workspace (i # rest) h =
     publish_order module_order workspace rest
       (set_index module_order i (cap_index h (index_slot (wsp_module_order workspace) i)) h)"

definition publish_catalog ::
    "cap_heap \<Rightarrow> addr \<Rightarrow> arbor_capability_catalog_requirements \<Rightarrow> arbor_capability_catalog_storage \<Rightarrow>
     arbor_capability_workspace \<Rightarrow> addr \<Rightarrow> cap_heap" where
  "publish_catalog h modules counts storage workspace out =
     (let n = unat (cnt_module_count counts);
          bound = publish_bindings modules (sto_bindings storage) (export_pairs h modules n) 0 h;
          resolved = publish_resolutions (sto_resolutions storage) workspace (requirement_pairs h modules n) 0 bound;
          ordered = publish_order (sto_module_order storage) workspace [0..<n] resolved
      in ordered\<lparr>cap_catalog := (cap_catalog ordered)(out :=
           \<lparr>cat_abi_version = ARBOR_CAPABILITY_KERNEL_ABI_VERSION, cat_struct_size = ucast SIZEOF_CAP_CATALOG, cat_flags = 0,
            cat_modules = modules, cat_module_count = cnt_module_count counts, cat_bindings = sto_bindings storage,
            cat_binding_count = cnt_binding_count counts, cat_resolutions = sto_resolutions storage,
            cat_resolution_count = cnt_resolution_count counts, cat_module_order = sto_module_order storage\<rparr>)\<rparr>)"

text \<open>The checks of \<open>arbor_capability_catalog_prepare\<close>, with the counts.\<close>

definition prepare_checks ::
    "cap_heap \<Rightarrow> addr \<Rightarrow> u64 \<Rightarrow> addr \<Rightarrow> addr \<Rightarrow> addr \<Rightarrow> arbor_status + arbor_capability_catalog_requirements" where
  "prepare_checks h modules module_count storage_ptr workspace_ptr out =
     (if out = 0 then refuse EINVAL
      else
        then_ok (counts_measure h modules module_count) (\<lambda>counts.
        then_ok (storage_validate h counts storage_ptr workspace_ptr) (\<lambda>_.
        then_ok (descriptor_set_validate h modules module_count) (\<lambda>_.
        then_ok (publication_regions_validate h modules module_count counts storage_ptr workspace_ptr out) (\<lambda>_.
        Inr counts)))))"

definition arbor_capability_catalog_prepare ::
    "cap_heap \<Rightarrow> addr \<Rightarrow> u64 \<Rightarrow> addr \<Rightarrow> addr \<Rightarrow> addr \<Rightarrow> cap_heap \<times> (arbor_status + unit)" where
  "arbor_capability_catalog_prepare h modules module_count storage_ptr workspace_ptr out =
     (case prepare_checks h modules module_count storage_ptr workspace_ptr out of
        Inl status \<Rightarrow> (h, Inl status)
      | Inr counts \<Rightarrow>
          (let workspace = cap_workspace h workspace_ptr
           in case requirements_resolve h modules module_count workspace of
                (h1, Inl status) \<Rightarrow> (h1, Inl status)
              | (h1, Inr _) \<Rightarrow>
                  (case topological_order_build h1 modules module_count workspace of
                     (h2, Inl status) \<Rightarrow> (h2, Inl status)
                   | (h2, Inr _) \<Rightarrow> (publish_catalog h2 modules counts (cap_storage h storage_ptr) workspace out, Inr ()))))"

section \<open>The code: validation of a catalog\<close>

definition catalog_shape_validate :: "cap_heap \<Rightarrow> addr \<Rightarrow> arbor_status + unit" where
  "catalog_shape_validate h catalog_ptr =
     (let catalog = cap_catalog h catalog_ptr
      in if catalog_ptr = 0 \<or> cat_abi_version catalog \<noteq> ARBOR_CAPABILITY_KERNEL_ABI_VERSION \<or>
            cat_struct_size catalog < ucast SIZEOF_CAP_CATALOG \<or> cat_flags catalog \<noteq> 0 then refuse EINVAL
         else if (cat_module_count catalog \<noteq> 0 \<and> (cat_modules catalog = 0 \<or> cat_module_order catalog = 0)) \<or>
            (cat_binding_count catalog \<noteq> 0 \<and> cat_bindings catalog = 0) \<or>
            (cat_resolution_count catalog \<noteq> 0 \<and> cat_resolutions catalog = 0) then refuse EINVAL
         else Inr ())"

definition order_at :: "cap_heap \<Rightarrow> arbor_capability_catalog \<Rightarrow> nat \<Rightarrow> u64" where
  "order_at h catalog i = cap_index h (index_slot (cat_module_order catalog) i)"

definition binding_at :: "cap_heap \<Rightarrow> arbor_capability_catalog \<Rightarrow> nat \<Rightarrow> arbor_capability_binding" where
  "binding_at h catalog i = cap_binding h (binding_slot (cat_bindings catalog) i)"

definition resolution_at :: "cap_heap \<Rightarrow> arbor_capability_catalog \<Rightarrow> nat \<Rightarrow> arbor_capability_resolution" where
  "resolution_at h catalog i = cap_resolution h (resolution_slot (cat_resolutions catalog) i)"

definition module_position :: "cap_heap \<Rightarrow> arbor_capability_catalog \<Rightarrow> u64 \<Rightarrow> arbor_status + nat" where
  "module_position h catalog module_index =
     (case find (\<lambda>i. order_at h catalog i = module_index) [0..<unat (cat_module_count catalog)] of
        None \<Rightarrow> refuse EINVAL
      | Some i \<Rightarrow> Inr i)"

definition module_is_in_order_prefix :: "cap_heap \<Rightarrow> arbor_capability_catalog \<Rightarrow> u64 \<Rightarrow> nat \<Rightarrow> bool" where
  "module_is_in_order_prefix h catalog module_index prefix_length \<longleftrightarrow>
     (\<exists>i \<in> set [0..<prefix_length]. order_at h catalog i = module_index)"

text \<open>The requirements loop of \<open>module_ready_at_position\<close>; the result is \<open>*ready_out\<close>.\<close>

fun ready_loop :: "cap_heap \<Rightarrow> arbor_capability_catalog \<Rightarrow> nat \<Rightarrow> nat \<Rightarrow> nat list \<Rightarrow> arbor_status + bool" where
  "ready_loop h catalog module_index position [] = Inr True"
| "ready_loop h catalog module_index position (r # rest) =
     (case find (\<lambda>i. rsl_consumer_module_index (resolution_at h catalog i) = of_nat module_index \<and>
           rsl_requirement_index (resolution_at h catalog i) = of_nat r) [0..<unat (cat_resolution_count catalog)] of
        None \<Rightarrow> refuse EINVAL
      | Some i \<Rightarrow>
          (let binding_index = rsl_binding_index (resolution_at h catalog i)
           in if binding_index \<ge> cat_binding_count catalog then refuse EINVAL
              else
                let provider_module_index = bind_provider_module_index (binding_at h catalog (unat binding_index))
                in if provider_module_index \<ge> cat_module_count catalog then refuse EINVAL
                   else if \<not> module_is_in_order_prefix h catalog provider_module_index position then Inr False
                   else ready_loop h catalog module_index position rest))"

definition module_ready_at_position :: "cap_heap \<Rightarrow> arbor_capability_catalog \<Rightarrow> nat \<Rightarrow> nat \<Rightarrow> arbor_status + bool" where
  "module_ready_at_position h catalog module_index position =
     (if module_index \<ge> unat (cat_module_count catalog) \<or> position > unat (cat_module_count catalog) then refuse EINVAL
      else ready_loop h catalog module_index position (requirements (module_at h (cat_modules catalog) module_index)))"

text \<open>The search for \<open>expected\<close>; \<open>None\<close> is \<open>UINT64_MAX\<close>.\<close>

fun expected_search :: "cap_heap \<Rightarrow> arbor_capability_catalog \<Rightarrow> nat \<Rightarrow> nat list \<Rightarrow> arbor_status + nat option" where
  "expected_search h catalog position [] = Inr None"
| "expected_search h catalog position (candidate # rest) =
     (if module_is_in_order_prefix h catalog (of_nat candidate) position then expected_search h catalog position rest
      else
        then_ok (module_ready_at_position h catalog candidate position) (\<lambda>ready.
        if ready then Inr (Some candidate) else expected_search h catalog position rest))"

definition canonical_module_order_validate :: "cap_heap \<Rightarrow> arbor_capability_catalog \<Rightarrow> arbor_status + unit" where
  "canonical_module_order_validate h catalog =
     each_ok (\<lambda>position.
       then_ok (expected_search h catalog position [0..<unat (cat_module_count catalog)]) (\<lambda>expected.
       case expected of
         None \<Rightarrow> refuse EINVAL
       | Some candidate \<Rightarrow> if order_at h catalog position \<noteq> of_nat candidate then refuse EINVAL else Inr ()))
       [0..<unat (cat_module_count catalog)]"

definition order_entry_validate :: "cap_heap \<Rightarrow> arbor_capability_catalog \<Rightarrow> nat \<Rightarrow> arbor_status + unit" where
  "order_entry_validate h catalog i =
     (if order_at h catalog i \<ge> cat_module_count catalog then refuse EINVAL
      else each_ok (\<lambda>j. if order_at h catalog i = order_at h catalog j then refuse EINVAL else Inr ()) [0..<i])"

definition binding_validate :: "cap_heap \<Rightarrow> arbor_capability_catalog \<Rightarrow> nat \<times> nat \<Rightarrow> nat \<Rightarrow> arbor_status + unit" where
  "binding_validate h catalog export_pair binding_index =
     (let m = module_at h (cat_modules catalog) (fst export_pair);
          provided = export_at h m (snd export_pair);
          binding = binding_at h catalog binding_index
      in if export_validate h (export_addr m (snd export_pair)) \<noteq> Inr () \<or>
            \<not> capability_id_equal (bind_id binding) (exp_id provided) \<or>
            ver_major (bind_version binding) \<noteq> ver_major (exp_version provided) \<or>
            ver_minor (bind_version binding) \<noteq> ver_minor (exp_version provided) \<or>
            bind_interface_size binding \<noteq> exp_interface_size provided \<or> bind_reserved0 binding \<noteq> 0 \<or>
            bind_flags binding \<noteq> exp_flags provided \<or> bind_interface_table binding \<noteq> exp_interface_table provided \<or>
            bind_provider_context binding \<noteq> exp_provider_context provided \<or>
            bind_provider_module_index binding \<noteq> of_nat (fst export_pair)
         then refuse EINVAL else Inr ())"

definition resolution_validate :: "cap_heap \<Rightarrow> arbor_capability_catalog \<Rightarrow> nat \<times> nat \<Rightarrow> nat \<Rightarrow> arbor_status + unit" where
  "resolution_validate h catalog requirement_pair resolution_index =
     (let m = module_at h (cat_modules catalog) (fst requirement_pair);
          required = requirement_at h m (snd requirement_pair);
          resolution = resolution_at h catalog resolution_index
      in if requirement_validate h (requirement_addr m (snd requirement_pair)) \<noteq> Inr () \<or>
            rsl_consumer_module_index resolution \<noteq> of_nat (fst requirement_pair) \<or>
            rsl_requirement_index resolution \<noteq> of_nat (snd requirement_pair) \<or>
            rsl_binding_index resolution \<ge> cat_binding_count catalog
         then refuse EINVAL
         else
           let binding = binding_at h catalog (unat (rsl_binding_index resolution))
           in if \<not> capability_id_equal (bind_id binding) (rqm_id required) \<or>
                 \<not> version_satisfies (bind_version binding) (rqm_minimum_version required) \<or>
                 bind_interface_size binding < rqm_minimum_interface_size required
              then refuse EINVAL
              else
                then_ok (module_position h catalog (bind_provider_module_index binding)) (\<lambda>provider_position.
                case module_position h catalog (of_nat (fst requirement_pair)) of
                  Inl _ \<Rightarrow> refuse EINVAL
                | Inr consumer_position \<Rightarrow> if provider_position \<ge> consumer_position then refuse EINVAL else Inr ()))"

text \<open>A pass over pairs with the index of the next binding or resolution.\<close>

fun each_indexed :: "(nat \<times> nat \<Rightarrow> nat \<Rightarrow> arbor_status + unit) \<Rightarrow> (nat \<times> nat) list \<Rightarrow> nat \<Rightarrow> arbor_status + unit" where
  "each_indexed step [] index = Inr ()"
| "each_indexed step (x # xs) index = then_ok (step x index) (\<lambda>_. each_indexed step xs (index + 1))"

definition arbor_capability_catalog_validate :: "cap_heap \<Rightarrow> addr \<Rightarrow> arbor_status + unit" where
  "arbor_capability_catalog_validate h catalog_ptr =
     (let catalog = cap_catalog h catalog_ptr; modules = cat_modules catalog; n = unat (cat_module_count catalog)
      in then_ok (catalog_shape_validate h catalog_ptr) (\<lambda>_.
         then_ok (counts_measure h modules (cat_module_count catalog)) (\<lambda>counts.
         then_ok (descriptor_set_validate h modules (cat_module_count catalog)) (\<lambda>_.
         if cnt_binding_count counts \<noteq> cat_binding_count catalog \<or> cnt_resolution_count counts \<noteq> cat_resolution_count catalog
         then refuse EINVAL
         else
           then_ok (each_ok (order_entry_validate h catalog) [0..<n]) (\<lambda>_.
           then_ok (each_indexed (binding_validate h catalog) (export_pairs h modules n) 0) (\<lambda>_.
           then_ok (each_indexed (resolution_validate h catalog) (requirement_pairs h modules n) 0) (\<lambda>_.
           canonical_module_order_validate h catalog)))))))"

section \<open>The code: look-ups\<close>

text \<open>\<open>Inr\<close> is what is stored through the out pointer.\<close>

definition arbor_capability_catalog_find_module :: "cap_heap \<Rightarrow> addr \<Rightarrow> arbor_module_id \<Rightarrow> addr \<Rightarrow> arbor_status + u64" where
  "arbor_capability_catalog_find_module h catalog_ptr i module_index_out =
     (if module_index_out = 0 \<or> module_id_is_zero i then refuse EINVAL
      else
        then_ok (arbor_capability_catalog_validate h catalog_ptr) (\<lambda>_.
        let catalog = cap_catalog h catalog_ptr
        in case find (\<lambda>k. module_id_equal (mod_id (module_at h (cat_modules catalog) k)) i) [0..<unat (cat_module_count catalog)] of
             None \<Rightarrow> refuse ENOENT
           | Some k \<Rightarrow> Inr (of_nat k)))"

definition arbor_capability_catalog_find ::
    "cap_heap \<Rightarrow> addr \<Rightarrow> arbor_capability_id \<Rightarrow> arbor_capability_version \<Rightarrow> u32 \<Rightarrow> addr \<Rightarrow> arbor_status + arbor_capability_binding" where
  "arbor_capability_catalog_find h catalog_ptr i minimum_version minimum_interface_size binding_out =
     (if binding_out = 0 \<or> capability_id_is_zero i \<or> ver_major minimum_version = 0 \<or> minimum_interface_size = 0
      then refuse EINVAL
      else
        then_ok (arbor_capability_catalog_validate h catalog_ptr) (\<lambda>_.
        let catalog = cap_catalog h catalog_ptr
        in case find (\<lambda>k. capability_id_equal (bind_id (binding_at h catalog k)) i) [0..<unat (cat_binding_count catalog)] of
             None \<Rightarrow> refuse ENOENT
           | Some k \<Rightarrow>
               let binding = binding_at h catalog k
               in if \<not> version_satisfies (bind_version binding) minimum_version \<or>
                     bind_interface_size binding < minimum_interface_size
                  then refuse EPROTONOSUPPORT
                  else Inr binding))"

definition arbor_capability_catalog_resolve ::
    "cap_heap \<Rightarrow> addr \<Rightarrow> u64 \<Rightarrow> u64 \<Rightarrow> addr \<Rightarrow> arbor_status + arbor_capability_binding" where
  "arbor_capability_catalog_resolve h catalog_ptr consumer_module_index requirement_index binding_out =
     (if binding_out = 0 then refuse EINVAL
      else
        then_ok (arbor_capability_catalog_validate h catalog_ptr) (\<lambda>_.
        let catalog = cap_catalog h catalog_ptr
        in if consumer_module_index \<ge> cat_module_count catalog \<or>
              requirement_index \<ge> mod_consumes_count (module_at h (cat_modules catalog) (unat consumer_module_index))
           then refuse EINVAL
           else
             case find (\<lambda>k. rsl_consumer_module_index (resolution_at h catalog k) = consumer_module_index \<and>
                 rsl_requirement_index (resolution_at h catalog k) = requirement_index) [0..<unat (cat_resolution_count catalog)] of
               None \<Rightarrow> refuse ENOENT
             | Some k \<Rightarrow>
                 let binding_index = rsl_binding_index (resolution_at h catalog k)
                 in if binding_index \<ge> cat_binding_count catalog then refuse EINVAL
                    else Inr (binding_at h catalog (unat binding_index))))"

end
