(* ===== verification/Capability_Regions.thy ===== *)
theory Capability_Regions
  imports Capability_Catalog
begin

text \<open>
  What the region checks of \<open>src/c/capability_kernel.c\<close> give: the elements of every array that is written have
  addresses of their own, so that writing one leaves all others as they were.
\<close>

section \<open>Arrays\<close>

lemma array_region_ok:
  assumes "array_region p count width = Inr r"
  shows "array_ok p count width"
    and "mem_byte_length r = count * width" and "unat (mem_byte_length r) = unat count * unat width"
    and "count \<noteq> 0 \<Longrightarrow> mem_pointer r = p"
proof -
  have cases: "if count = 0 then r = \<lparr>mem_pointer = 0, mem_byte_length = 0\<rparr>
    else p \<noteq> 0 \<and> unat count * unat width < 18446744073709551616 \<and> \<not> carry p (count * width) \<and>
      r = \<lparr>mem_pointer = p, mem_byte_length = count * width\<rparr>"
    using assms
    by (auto simp: array_region_def refuse_def u64_mul_checked_def range_end_checked_def Let_def div_eq_0_iff split: if_splits)
  have product: "unat (count * width) = unat count * unat width" if "unat count * unat width < 18446744073709551616"
    using that by (intro unat_mult_lem [THEN iffD1]) simp
  show "array_ok p count width" using cases product by (auto simp: array_ok_def carry_def split: if_splits)
  show "mem_byte_length r = count * width" "unat (mem_byte_length r) = unat count * unat width" "count \<noteq> 0 \<Longrightarrow> mem_pointer r = p"
    using cases product by (auto split: if_splits)
qed

lemma slots_apart:
  assumes "array_region p count width = Inr r" and "array_region q other_count other_width = Inr r'"
    and "reject_overlap r r' = Inr ()" and "i < unat count" and "j < unat other_count" and "width \<noteq> 0" and "other_width \<noteq> 0"
  shows "p + of_nat i * width \<noteq> q + of_nat j * other_width"
proof
  assume same: "p + of_nat i * width = q + of_nat j * other_width"
  have counts: "count \<noteq> 0" "other_count \<noteq> 0" using assms(4,5) by auto
  note r = array_region_ok [OF assms(1)] and r' = array_region_ok [OF assms(2)]
  have "unat count * unat width > 0" "unat other_count * unat other_width > 0"
    using counts assms(6,7) by (simp_all add: unat_gt_0)
  then have "unat (mem_byte_length r) > 0" "unat (mem_byte_length r') > 0" unfolding r(3) r'(3) by blast+
  then have "mem_byte_length r \<noteq> 0" "mem_byte_length r' \<noteq> 0" by auto
  then have "\<not> (p < q + mem_byte_length r' \<and> q < p + mem_byte_length r)"
    using assms(3) r(4) r'(4) counts
    by (auto simp: reject_overlap_def memory_regions_overlap_def range_overlaps_def refuse_def Let_def then_ok_Inr_iff
        split: if_splits)
  moreover have "unat (p + mem_byte_length r) = unat p + unat count * unat width"
    "unat (q + mem_byte_length r') = unat q + unat other_count * unat other_width"
    using r r' counts unfolding array_ok_def by (auto simp: unat_add_u64)
  ultimately have "unat q + unat other_count * unat other_width \<le> unat p \<or> unat p + unat count * unat width \<le> unat q"
    by (auto simp: word_less_nat_alt)
  moreover have "unat p + i * unat width = unat q + j * unat other_width"
    using same slot_unat [OF r(1) assms(4)] slot_unat [OF r'(1) assms(5)] by simp
  moreover have "i * unat width + unat width \<le> unat count * unat width"
    using mult_right_mono [of "Suc i" "unat count" "unat width"] assms(4) by simp
  moreover have "j * unat other_width + unat other_width \<le> unat other_count * unat other_width"
    using mult_right_mono [of "Suc j" "unat other_count" "unat other_width"] assms(5) by simp
  moreover have "0 < unat width" "0 < unat other_width" using assms(6,7) by (simp_all add: unat_gt_0)
  ultimately show False by linarith
qed

lemma array_regions_nth:
  assumes "array_regions xs = Inr rs"
  shows "length rs = length xs"
    and "k < length xs \<Longrightarrow> array_region (fst (xs ! k)) (fst (snd (xs ! k))) (snd (snd (xs ! k))) = Inr (rs ! k)"
proof -
  have "length rs = length xs \<and>
      (\<forall>k < length xs. array_region (fst (xs ! k)) (fst (snd (xs ! k))) (snd (snd (xs ! k))) = Inr (rs ! k))"
    using assms
  proof (induction xs arbitrary: rs)
    case (Cons x xs)
    obtain p c w where x: "x = (p, c, w)" by (cases x)
    obtain r rs' where "array_region p c w = Inr r" "array_regions xs = Inr rs'" "rs = r # rs'"
      using Cons.prems by (auto simp: x then_ok_Inr_iff)
    then show ?case using Cons.IH [of rs'] x by (auto simp: nth_Cons split: nat.split)
  qed simp
  then show "length rs = length xs"
    "k < length xs \<Longrightarrow> array_region (fst (xs ! k)) (fst (snd (xs ! k))) (snd (snd (xs ! k))) = Inr (rs ! k)" by auto
qed

section \<open>The arrays of indices\<close>

text \<open>Arrays of indices with their lengths: no two elements share an address.\<close>

fun index_arrays_apart :: "(addr \<times> nat) list \<Rightarrow> bool" where
  "index_arrays_apart [] \<longleftrightarrow> True"
| "index_arrays_apart ((a, n) # rest) \<longleftrightarrow>
     (\<forall>i < n. \<forall>j < n. index_slot a i = index_slot a j \<longleftrightarrow> i = j) \<and>
     list_all (\<lambda>(b, m). \<forall>i < n. \<forall>j < m. index_slot a i \<noteq> index_slot b j) rest \<and> index_arrays_apart rest"

definition index_arrays ::
    "nat \<Rightarrow> nat \<Rightarrow> arbor_capability_catalog_storage \<Rightarrow> arbor_capability_workspace \<Rightarrow> (addr \<times> nat) list" where
  "index_arrays modules resolutions storage workspace =
     [(sto_module_order storage, modules), (wsp_resolved_provider_module_indices workspace, resolutions),
      (wsp_resolved_binding_indices workspace, resolutions), (wsp_indegree workspace, modules),
      (wsp_module_order workspace, modules)]"

definition flags_apart :: "nat \<Rightarrow> arbor_capability_workspace \<Rightarrow> bool" where
  "flags_apart modules workspace \<longleftrightarrow>
     (\<forall>i < modules. \<forall>j < modules. flag_slot (wsp_selected workspace) i = flag_slot (wsp_selected workspace) j \<longleftrightarrow> i = j)"

definition records_apart :: "nat \<Rightarrow> nat \<Rightarrow> arbor_capability_catalog_storage \<Rightarrow> bool" where
  "records_apart bindings resolutions storage \<longleftrightarrow>
     (\<forall>i < bindings. \<forall>j < bindings. binding_slot (sto_bindings storage) i = binding_slot (sto_bindings storage) j \<longleftrightarrow> i = j) \<and>
     (\<forall>i < resolutions. \<forall>j < resolutions.
        resolution_slot (sto_resolutions storage) i = resolution_slot (sto_resolutions storage) j \<longleftrightarrow> i = j)"

lemma publication_regions_apart:
  assumes "publication_regions_validate h modules module_count counts storage_ptr workspace_ptr out = Inr ()"
  defines "storage \<equiv> cap_storage h storage_ptr" and "workspace \<equiv> cap_workspace h workspace_ptr"
  shows "index_arrays_apart (index_arrays (unat (cnt_module_count counts)) (unat (cnt_resolution_count counts)) storage workspace)"
    and "flags_apart (unat (cnt_module_count counts)) workspace"
    and "records_apart (unat (cnt_binding_count counts)) (unat (cnt_resolution_count counts)) storage"
proof -
  let ?arrays = "written_arrays counts storage workspace out"
  obtain rs where rs: "array_regions ?arrays = Inr rs"
    and pairs: "each_ok (\<lambda>i. each_ok (\<lambda>j. reject_overlap (rs ! i) (rs ! j)) [0..<i]) [0..<length rs] = Inr ()"
    using assms(1) by (auto simp: publication_regions_validate_def then_ok_Inr_iff storage_def workspace_def)
  have len: "length ?arrays = 9" by (simp add: written_arrays_def)
  have region: "array_region (fst (?arrays ! k)) (fst (snd (?arrays ! k))) (snd (snd (?arrays ! k))) = Inr (rs ! k)" if "k < 9" for k
    using array_regions_nth(2) [OF rs] that len by simp
  have apart: "fst (?arrays ! k) + of_nat i * snd (snd (?arrays ! k)) \<noteq> fst (?arrays ! l) + of_nat j * snd (snd (?arrays ! l))"
    if "l < k" "k < 9" "i < unat (fst (snd (?arrays ! k)))" "j < unat (fst (snd (?arrays ! l)))"
      "snd (snd (?arrays ! k)) \<noteq> 0" "snd (snd (?arrays ! l)) \<noteq> 0" for k l i j
  proof -
    have "reject_overlap (rs ! k) (rs ! l) = Inr ()"
      using pairs that(1,2) array_regions_nth(1) [OF rs] len by (auto simp: each_ok_iff)
    then show ?thesis using slots_apart [OF region region] that by simp
  qed
  have ok: "array_ok (fst (?arrays ! k)) (fst (snd (?arrays ! k))) (snd (snd (?arrays ! k)))" if "k < 9" for k
    using array_region_ok(1) [OF region [OF that]] .
  note inj = slot_inj [OF ok]
  show "flags_apart (unat (cnt_module_count counts)) workspace"
    using inj [of 6] by (simp add: flags_apart_def written_arrays_def flag_slot_def)
  show "records_apart (unat (cnt_binding_count counts)) (unat (cnt_resolution_count counts)) storage"
    using inj [of 0] inj [of 1] by (simp add: records_apart_def written_arrays_def binding_slot_def resolution_slot_def)
  have facts:
    "i < unat (cnt_resolution_count counts) \<Longrightarrow> j < unat (cnt_module_count counts) \<Longrightarrow>
       index_slot (wsp_resolved_provider_module_indices workspace) i \<noteq> index_slot (sto_module_order storage) j"
    "i < unat (cnt_resolution_count counts) \<Longrightarrow> j < unat (cnt_module_count counts) \<Longrightarrow>
       index_slot (wsp_resolved_binding_indices workspace) i \<noteq> index_slot (sto_module_order storage) j"
    "i < unat (cnt_module_count counts) \<Longrightarrow> j < unat (cnt_module_count counts) \<Longrightarrow>
       index_slot (wsp_indegree workspace) i \<noteq> index_slot (sto_module_order storage) j"
    "i < unat (cnt_module_count counts) \<Longrightarrow> j < unat (cnt_module_count counts) \<Longrightarrow>
       index_slot (wsp_module_order workspace) i \<noteq> index_slot (sto_module_order storage) j"
    "i < unat (cnt_resolution_count counts) \<Longrightarrow> j < unat (cnt_resolution_count counts) \<Longrightarrow>
       index_slot (wsp_resolved_binding_indices workspace) i \<noteq> index_slot (wsp_resolved_provider_module_indices workspace) j"
    "i < unat (cnt_module_count counts) \<Longrightarrow> j < unat (cnt_resolution_count counts) \<Longrightarrow>
       index_slot (wsp_indegree workspace) i \<noteq> index_slot (wsp_resolved_provider_module_indices workspace) j"
    "i < unat (cnt_module_count counts) \<Longrightarrow> j < unat (cnt_resolution_count counts) \<Longrightarrow>
       index_slot (wsp_module_order workspace) i \<noteq> index_slot (wsp_resolved_provider_module_indices workspace) j"
    "i < unat (cnt_module_count counts) \<Longrightarrow> j < unat (cnt_resolution_count counts) \<Longrightarrow>
       index_slot (wsp_indegree workspace) i \<noteq> index_slot (wsp_resolved_binding_indices workspace) j"
    "i < unat (cnt_module_count counts) \<Longrightarrow> j < unat (cnt_resolution_count counts) \<Longrightarrow>
       index_slot (wsp_module_order workspace) i \<noteq> index_slot (wsp_resolved_binding_indices workspace) j"
    "i < unat (cnt_module_count counts) \<Longrightarrow> j < unat (cnt_module_count counts) \<Longrightarrow>
       index_slot (wsp_module_order workspace) i \<noteq> index_slot (wsp_indegree workspace) j" for i j
    using apart [of 2 3 i j] apart [of 2 4 i j] apart [of 2 5 i j] apart [of 2 7 i j] apart [of 3 4 i j] apart [of 3 5 i j]
      apart [of 3 7 i j] apart [of 4 5 i j] apart [of 4 7 i j] apart [of 5 7 i j]
    by (simp_all add: written_arrays_def index_slot_def)
  show "index_arrays_apart (index_arrays (unat (cnt_module_count counts)) (unat (cnt_resolution_count counts)) storage workspace)"
    using facts [THEN not_sym] inj [of 2] inj [of 3] inj [of 4] inj [of 5] inj [of 7]
    by (simp add: index_arrays_def written_arrays_def index_slot_def)
qed

end
