(* ===== verification/Capability_Graph.thy ===== *)
theory Capability_Graph
  imports Main
begin

text \<open>
  The order of modules that \<open>src/c/capability_kernel.c\<close> promises, without its arrays: every module has a
  list of providers, and the next module is always the least one whose providers all come before it. Such an order
  exists exactly when no module provides, through others, for itself.
\<close>

section \<open>The least ready module\<close>

definition ready :: "(nat \<Rightarrow> nat list) \<Rightarrow> nat list \<Rightarrow> nat \<Rightarrow> bool" where
  "ready providers order c \<longleftrightarrow> set (providers c) \<subseteq> set order"

definition least_ready :: "nat \<Rightarrow> (nat \<Rightarrow> nat list) \<Rightarrow> nat list \<Rightarrow> nat option" where
  "least_ready n providers order = find (\<lambda>c. c \<notin> set order \<and> ready providers order c) [0..<n]"

fun extend_order :: "nat \<Rightarrow> (nat \<Rightarrow> nat list) \<Rightarrow> nat \<Rightarrow> nat list \<Rightarrow> nat list option" where
  "extend_order n providers 0 order = Some order"
| "extend_order n providers (Suc k) order =
     (case least_ready n providers order of
        None \<Rightarrow> None
      | Some c \<Rightarrow> extend_order n providers k (order @ [c]))"

text \<open>The order of all modules in which each is the least one that is ready.\<close>

definition canonical_order :: "nat \<Rightarrow> (nat \<Rightarrow> nat list) \<Rightarrow> nat list \<Rightarrow> bool" where
  "canonical_order n providers order \<longleftrightarrow>
     length order = n \<and> distinct order \<and> set order = {0..<n} \<and>
     (\<forall>k < n. least_ready n providers (take k order) = Some (order ! k))"

definition dependencies :: "nat \<Rightarrow> (nat \<Rightarrow> nat list) \<Rightarrow> (nat \<times> nat) set" where
  "dependencies n providers = {(p, c). c < n \<and> p \<in> set (providers c)}"

lemma least_ready_Some:
  assumes "least_ready n providers order = Some c"
  shows "c < n" and "c \<notin> set order" and "ready providers order c"
    and "\<And>d. d < c \<Longrightarrow> d \<notin> set order \<Longrightarrow> \<not> ready providers order d"
  using assms by (auto simp: least_ready_def find_Some_iff)

lemma least_ready_None: "least_ready n providers order = None \<longleftrightarrow> (\<forall>c < n. c \<notin> set order \<longrightarrow> \<not> ready providers order c)"
  by (auto simp: least_ready_def find_None_iff)

text \<open>An order under construction.\<close>

definition partial_order_ok :: "nat \<Rightarrow> (nat \<Rightarrow> nat list) \<Rightarrow> nat list \<Rightarrow> bool" where
  "partial_order_ok n providers order \<longleftrightarrow>
     distinct order \<and> set order \<subseteq> {0..<n} \<and>
     (\<forall>k < length order. least_ready n providers (take k order) = Some (order ! k))"

lemma partial_order_Nil [simp]: "partial_order_ok n providers []"
  by (simp add: partial_order_ok_def)

lemma partial_order_step:
  assumes "partial_order_ok n providers order" and "least_ready n providers order = Some c"
  shows "partial_order_ok n providers (order @ [c])"
  using assms least_ready_Some [OF assms(2)]
  by (auto simp: partial_order_ok_def nth_append less_Suc_eq)

lemma partial_order_length: "partial_order_ok n providers order \<Longrightarrow> length order \<le> n"
  using card_mono [of "{0..<n}" "set order"] by (auto simp: partial_order_ok_def distinct_card)

lemma canonical_order_iff: "canonical_order n providers order \<longleftrightarrow> partial_order_ok n providers order \<and> length order = n"
proof -
  have "set order = {0..<n}" if "distinct order" "set order \<subseteq> {0..<n}" "length order = n"
    using that card_subset_eq [of "{0..<n}" "set order"] by (simp add: distinct_card)
  then show ?thesis by (auto simp: canonical_order_def partial_order_ok_def)
qed

lemma extend_order_canonical:
  "partial_order_ok n providers order \<Longrightarrow> extend_order n providers k order = Some result \<Longrightarrow> length order + k = n \<Longrightarrow>
     canonical_order n providers result"
proof (induction k arbitrary: order)
  case (Suc k)
  obtain c where c: "least_ready n providers order = Some c" "extend_order n providers k (order @ [c]) = Some result"
    using Suc.prems(2) by (auto split: option.splits)
  show ?case using Suc.IH [OF partial_order_step [OF Suc.prems(1) c(1)] c(2)] Suc.prems(3) by simp
qed (simp add: canonical_order_iff)

lemma canonical_order_unique:
  assumes "canonical_order n providers xs" and "canonical_order n providers ys"
  shows "xs = ys"
proof -
  have "take k xs = take k ys" if "k \<le> n" for k
    using that
  proof (induction k)
    case (Suc k)
    then have "Some (xs ! k) = Some (ys ! k)" using assms by (metis Suc_le_lessD canonical_order_def less_imp_le)
    then show ?case using Suc assms by (simp add: take_Suc_conv_app_nth canonical_order_def)
  qed simp
  from this [of n] show ?thesis using assms by (simp add: canonical_order_def)
qed

section \<open>Orders and cycles\<close>

locale provider_graph =
  fixes n :: nat and providers :: "nat \<Rightarrow> nat list"
  assumes provider_bound: "c < n \<Longrightarrow> p \<in> set (providers c) \<Longrightarrow> p < n"
begin

lemma order_precedes:
  assumes "canonical_order n providers order" and "k < n" and "p \<in> set (providers (order ! k))"
  shows "\<exists>j < k. order ! j = p"
proof -
  have "ready providers (take k order) (order ! k)"
    using assms(1,2) least_ready_Some(3) by (auto simp: canonical_order_def)
  then have "p \<in> set (take k order)" using assms(3) by (auto simp: ready_def)
  then show ?thesis using assms(1,2) by (auto simp: in_set_conv_nth canonical_order_def)
qed

lemma order_acyclic:
  assumes "canonical_order n providers order"
  shows "acyclic (dependencies n providers)"
proof -
  define position where "position c = (THE k. k < n \<and> order ! k = c)" for c
  have position: "position (order ! k) = k" if "k < n" for k
    unfolding position_def using that assms nth_eq_iff_index_eq by (intro the_equality) (auto simp: canonical_order_def)
  have "dependencies n providers \<subseteq> measure position"
  proof
    fix x assume "x \<in> dependencies n providers"
    then obtain p c where x: "x = (p, c)" "c < n" "p \<in> set (providers c)" by (auto simp: dependencies_def)
    have "c \<in> set order" using x(2) assms by (simp add: canonical_order_def)
    then obtain k where k: "k < n" "order ! k = c" using assms by (auto simp: in_set_conv_nth canonical_order_def)
    obtain j where "j < k" "order ! j = p" using order_precedes [OF assms k(1)] x(3) k(2) by blast
    then show "x \<in> measure position" using x(1) k position [of j] position [of k] by simp
  qed
  then show ?thesis using wf_acyclic wf_measure wf_subset by blast
qed

lemma stuck_cyclic:
  assumes "least_ready n providers order = None" and "c < n" and "c \<notin> set order"
  shows "\<not> acyclic (dependencies n providers)"
proof
  assume "acyclic (dependencies n providers)"
  moreover have "finite (dependencies n providers)"
    by (rule finite_subset [of _ "{0..<n} \<times> {0..<n}"]) (auto simp: dependencies_def provider_bound)
  ultimately have "wf (dependencies n providers)" by (simp add: finite_acyclic_wf)
  moreover have "c \<in> {0..<n} - set order" using assms(2,3) by simp
  ultimately obtain d where d: "d \<in> {0..<n} - set order"
    "\<And>p. (p, d) \<in> dependencies n providers \<Longrightarrow> p \<notin> {0..<n} - set order"
    using wfE_min by metis
  then have "\<not> ready providers order d" using assms(1) by (auto simp: least_ready_None)
  then obtain p where "p \<in> set (providers d)" "p \<notin> set order" by (auto simp: ready_def)
  then show False using d provider_bound by (auto simp: dependencies_def)
qed

lemma extend_order_None:
  "partial_order_ok n providers order \<Longrightarrow> extend_order n providers k order = None \<Longrightarrow> length order + k = n \<Longrightarrow>
     \<not> acyclic (dependencies n providers)"
proof (induction k arbitrary: order)
  case (Suc k)
  show ?case
  proof (cases "least_ready n providers order")
    case None
    have "card (set order) < card {0..<n}" using Suc.prems(1,3) by (simp add: partial_order_ok_def distinct_card)
    then have "\<exists>c \<in> {0..<n}. c \<notin> set order" using card_mono [of "set order" "{0..<n}"] by fastforce
    then show ?thesis using stuck_cyclic [OF None] by auto
  next
    case (Some c)
    show ?thesis using Suc.IH [OF partial_order_step [OF Suc.prems(1) Some]] Suc.prems(2,3) Some by simp
  qed
qed simp

text \<open>The construction succeeds exactly on graphs without a cycle.\<close>

lemma construction_succeeds_iff: "extend_order n providers n [] \<noteq> None \<longleftrightarrow> acyclic (dependencies n providers)"
proof (cases "extend_order n providers n []")
  case None
  then show ?thesis using extend_order_None [of "[]" n] by simp
next
  case (Some order)
  then show ?thesis using order_acyclic extend_order_canonical [of n providers "[]" n order] by simp
qed

end

end
