(* ===== verification/Capability_Resolve.thy ===== *)
theory Capability_Resolve
  imports Capability_Regions Capability_Graph
begin

text \<open>
  The resolution of requirements in \<open>src/c/capability_kernel.c\<close>: the search for a provider finds a compatible export
  when there is one, the index of its binding is its position among all exports, and the loops fill the arrays of the
  workspace with the providers, the bindings and the number of requirements of every module.
\<close>

section \<open>Heaps with the same descriptors\<close>

definition same_inputs :: "cap_heap \<Rightarrow> cap_heap \<Rightarrow> bool" where
  "same_inputs h g \<longleftrightarrow>
     cap_module g = cap_module h \<and> cap_export g = cap_export h \<and> cap_requirement g = cap_requirement h \<and>
     cap_storage g = cap_storage h \<and> cap_workspace g = cap_workspace h"

lemma same_inputs_refl [simp]: "same_inputs h h"
  by (simp add: same_inputs_def)

lemma same_inputs_updates [simp]:
  "same_inputs h (g\<lparr>cap_index := I\<rparr>) \<longleftrightarrow> same_inputs h g" "same_inputs h (g\<lparr>cap_flag := F\<rparr>) \<longleftrightarrow> same_inputs h g"
  "same_inputs h (g\<lparr>cap_binding := B\<rparr>) \<longleftrightarrow> same_inputs h g" "same_inputs h (g\<lparr>cap_resolution := S\<rparr>) \<longleftrightarrow> same_inputs h g"
  "same_inputs h (g\<lparr>cap_catalog := C\<rparr>) \<longleftrightarrow> same_inputs h g"
  by (simp_all add: same_inputs_def)

lemma same_reads:
  assumes "same_inputs h g"
  shows "module_at g = module_at h" "export_at g = export_at h" "requirement_at g = requirement_at h"
    "export_pairs g modules n = export_pairs h modules n" "requirement_pairs g modules n = requirement_pairs h modules n"
  using assms
  by (simp_all add: fun_eq_iff same_inputs_def module_at_def export_at_def requirement_at_def export_pairs_def requirement_pairs_def)

lemma same_binding_index_loop: "same_inputs h g \<Longrightarrow> binding_index_loop g modules is b = binding_index_loop h modules is b"
  by (induction "is" arbitrary: b) (simp_all add: same_reads then_ok_def split: sum.split)

lemma same_resolve:
  assumes "same_inputs h g"
  shows "resolve_requirement g modules n required = resolve_requirement h modules n required"
proof -
  have "provider_turn g modules required = provider_turn h modules required"
    by (intro ext) (simp add: provider_turn_def same_reads [OF assms])
  then have "provider_search g modules n required = provider_search h modules n required"
    by (simp add: provider_search_def same_reads [OF assms])
  moreover have "binding_index_for_export g modules = binding_index_for_export h modules"
    by (intro ext) (simp add: binding_index_for_export_def same_binding_index_loop [OF assms])
  ultimately show ?thesis by (simp add: resolve_requirement_def split: prod.split)
qed

section \<open>Pairs and counts\<close>

lemma export_pairs_iff: "(i, e) \<in> set (export_pairs h modules n) \<longleftrightarrow> i < n \<and> e < unat (mod_provides_count (module_at h modules i))"
  by (auto simp: export_pairs_def image_iff)

lemma requirement_pairs_iff:
  "(i, r) \<in> set (requirement_pairs h modules n) \<longleftrightarrow> i < n \<and> r < unat (mod_consumes_count (module_at h modules i))"
  by (auto simp: requirement_pairs_def image_iff)

lemma upt_split: "i < n \<Longrightarrow> [0..<n] = [0..<i] @ i # [Suc i..<n]"
  using upt_add_eq_append [of 0 i "n - i"] by (simp add: upt_conv_Cons)

lemma pairs_split:
  assumes "i < n"
  shows "concat (map f [0..<n]) = concat (map f [0..<i]) @ f i @ concat (map f [Suc i..<n])"
  using upt_split [OF assms] by simp

lemma checked_add_ok: "checked_add_u64 a b = Inr c \<Longrightarrow> unat c = unat a + unat b"
  by (auto simp: checked_add_u64_def u64_add_checked_def Let_def no_carry_add split: if_splits)

lemma checked_add_fits: "unat a + unat b < 18446744073709551616 \<Longrightarrow> checked_add_u64 a b = Inr (a + b)"
  by (simp add: checked_add_u64_def u64_add_checked_def carry_def Let_def)

lemma counts_loop_ok:
  "counts_loop h modules is b r = Inr (b', r') \<Longrightarrow>
     unat b' = unat b + sum_list (map (\<lambda>i. unat (mod_provides_count (module_at h modules i))) is) \<and>
     unat r' = unat r + sum_list (map (\<lambda>i. unat (mod_consumes_count (module_at h modules i))) is)"
proof (induction "is" arbitrary: b r)
  case (Cons i "is")
  then obtain b1 r1 where "checked_add_u64 b (mod_provides_count (module_at h modules i)) = Inr b1"
    "checked_add_u64 r (mod_consumes_count (module_at h modules i)) = Inr r1" "counts_loop h modules is b1 r1 = Inr (b', r')"
    by (auto simp: then_ok_Inr_iff)
  then show ?case using Cons.IH checked_add_ok by fastforce
qed simp

lemma counts_measure_ok:
  assumes "counts_measure h modules module_count = Inr counts"
  shows "cnt_module_count counts = module_count"
    and "unat (cnt_binding_count counts) = length (export_pairs h modules (unat module_count))"
    and "unat (cnt_resolution_count counts) = length (requirement_pairs h modules (unat module_count))"
proof -
  obtain b r where loop: "counts_loop h modules [0..<unat module_count] 0 0 = Inr (b, r)"
    and counts: "counts = \<lparr>cnt_module_count = module_count, cnt_binding_count = b, cnt_resolution_count = r\<rparr>"
    using assms by (auto simp: counts_measure_def refuse_def then_ok_Inr_iff split: if_splits)
  show "cnt_module_count counts = module_count" by (simp add: counts)
  have "length (export_pairs h modules (unat module_count)) =
      sum_list (map (\<lambda>i. unat (mod_provides_count (module_at h modules i))) [0..<unat module_count])"
    "length (requirement_pairs h modules (unat module_count)) =
      sum_list (map (\<lambda>i. unat (mod_consumes_count (module_at h modules i))) [0..<unat module_count])"
    by (simp_all add: export_pairs_def requirement_pairs_def length_concat o_def)
  then show "unat (cnt_binding_count counts) = length (export_pairs h modules (unat module_count))"
    "unat (cnt_resolution_count counts) = length (requirement_pairs h modules (unat module_count))"
    using counts_loop_ok [OF loop] by (simp_all add: counts)
qed

section \<open>Providers\<close>

definition compatible :: "cap_heap \<Rightarrow> addr \<Rightarrow> arbor_capability_requirement \<Rightarrow> nat \<times> nat \<Rightarrow> bool" where
  "compatible h modules required x \<longleftrightarrow>
     (let provided = export_at h (module_at h modules (fst x)) (snd x)
      in capability_id_equal (exp_id provided) (rqm_id required) \<and>
         version_satisfies (exp_version provided) (rqm_minimum_version required) \<and>
         rqm_minimum_interface_size required \<le> exp_interface_size provided)"

lemma provider_search_ok:
  assumes "provider_search h modules n required = (found_id, found_compatible, p, e)"
  shows "found_compatible \<longleftrightarrow> (\<exists>x \<in> set (export_pairs h modules n). compatible h modules required x)"
    and "found_compatible \<Longrightarrow> (p, e) \<in> set (export_pairs h modules n) \<and> compatible h modules required (p, e) \<and> found_id"
proof -
  have turn: "provider_turn h modules required x found =
      (if compatible h modules required x then (True, True, fst x, snd x)
       else if capability_id_equal (exp_id (export_at h (module_at h modules (fst x)) (snd x))) (rqm_id required)
       then (True, snd found) else found)" for x found
    by (simp add: provider_turn_def compatible_def Let_def)
  have step: "(let (found_id', found', p', e') = fold (provider_turn h modules required) xs (i, c, q, f)
      in (found' \<longleftrightarrow> c \<or> (\<exists>x \<in> set xs. compatible h modules required x)) \<and>
         (found' \<longrightarrow> ((p', e') \<in> set xs \<and> compatible h modules required (p', e') \<and> found_id') \<or>
           (c \<and> p' = q \<and> e' = f \<and> (i \<longrightarrow> found_id'))))" for xs i c q f
  proof (induction xs arbitrary: i c q f)
    case (Cons x xs)
    obtain i1 c1 q1 f1 where next_found: "provider_turn h modules required x (i, c, q, f) = (i1, c1, q1, f1)" by (metis surj_pair)
    then have "if compatible h modules required x then i1 \<and> c1 \<and> x = (q1, f1) else c1 = c \<and> q1 = q \<and> f1 = f \<and> (i \<longrightarrow> i1)"
      using turn [of x "(i, c, q, f)"] by (auto split: if_splits)
    then show ?case using Cons.IH [of i1 c1 q1 f1] next_found by (auto split: if_splits)
  qed simp
  show "found_compatible \<longleftrightarrow> (\<exists>x \<in> set (export_pairs h modules n). compatible h modules required x)"
    "found_compatible \<Longrightarrow> (p, e) \<in> set (export_pairs h modules n) \<and> compatible h modules required (p, e) \<and> found_id"
    using step [where xs = "export_pairs h modules n" and i = False and c = False and q = 0 and f = 0] assms
    by (simp_all add: provider_search_def)
qed

definition provider_module :: "cap_heap \<Rightarrow> addr \<Rightarrow> nat \<Rightarrow> arbor_capability_requirement \<Rightarrow> nat option" where
  "provider_module h modules n required =
     (case provider_search h modules n required of (_, found_compatible, p, _) \<Rightarrow> if found_compatible then Some p else None)"

definition requirement_of :: "cap_heap \<Rightarrow> addr \<Rightarrow> nat \<times> nat \<Rightarrow> arbor_capability_requirement" where
  "requirement_of h modules x = requirement_at h (module_at h modules (fst x)) (snd x)"

definition providers :: "cap_heap \<Rightarrow> addr \<Rightarrow> nat \<Rightarrow> nat \<Rightarrow> nat list" where
  "providers h modules n c =
     List.map_filter (\<lambda>r. provider_module h modules n (requirement_of h modules (c, r))) (requirements (module_at h modules c))"

lemma provider_module_bound: "provider_module h modules n required = Some p \<Longrightarrow> p < n"
proof -
  obtain found_id found q e where search: "provider_search h modules n required = (found_id, found, q, e)" by (metis surj_pair)
  assume "provider_module h modules n required = Some p"
  then show "p < n"
    using provider_search_ok(2) [OF search] by (auto simp: provider_module_def search export_pairs_iff split: if_splits)
qed

interpretation cap: provider_graph n "providers h modules n" for h modules n
  by unfold_locales (auto simp: providers_def List.map_filter_def intro: provider_module_bound)

section \<open>Binding indices\<close>

lemma binding_index_loop_ok:
  "unat index + sum_list (map (\<lambda>i. unat (mod_provides_count (module_at h modules i))) is) < 18446744073709551616 \<Longrightarrow>
     \<exists>b. binding_index_loop h modules is index = Inr b \<and>
       unat b = unat index + sum_list (map (\<lambda>i. unat (mod_provides_count (module_at h modules i))) is)"
proof (induction "is" arbitrary: index)
  case (Cons i "is")
  have first: "unat index + unat (mod_provides_count (module_at h modules i)) < 18446744073709551616" using Cons.prems by simp
  show ?case
    using Cons.IH [of "index + mod_provides_count (module_at h modules i)"] Cons.prems unat_add_u64 [OF first]
    by (auto simp: checked_add_fits [OF first] add.assoc)
qed simp

text \<open>A compatible export is found when there is one, with the position of its binding.\<close>

lemma resolve_requirement_ok:
  assumes counts: "counts_measure h modules module_count = Inr counts"
    and "resolve_requirement h modules (unat module_count) required = Inr (p, b)"
  shows "provider_module h modules (unat module_count) required = Some p"
    and "unat b < length (export_pairs h modules (unat module_count))"
    and "fst (export_pairs h modules (unat module_count) ! unat b) = p"
    and "compatible h modules required (export_pairs h modules (unat module_count) ! unat b)"
proof -
  let ?n = "unat module_count"
  let ?count = "\<lambda>i. unat (mod_provides_count (module_at h modules i))"
  obtain found_id found p' e where search: "provider_search h modules ?n required = (found_id, found, p', e)" by (metis surj_pair)
  then have ok: "found" "p' = p" "binding_index_for_export h modules p e = Inr b"
    using assms(2) by (auto simp: resolve_requirement_def refuse_def then_ok_Inr_iff split: if_splits)
  show "provider_module h modules ?n required = Some p" using search ok by (simp add: provider_module_def)
  have pair: "p < ?n" "e < ?count p" "compatible h modules required (p, e)"
    using provider_search_ok(2) [OF search] ok by (simp_all add: export_pairs_iff)
  let ?before = "concat (map (\<lambda>i. map (Pair i) (exports (module_at h modules i))) [0..<p])"
  have split: "export_pairs h modules ?n = ?before @ map (Pair p) [0..<?count p] @
      concat (map (\<lambda>i. map (Pair i) (exports (module_at h modules i))) [Suc p..<?n])"
    unfolding export_pairs_def using pairs_split [OF pair(1), of "\<lambda>i. map (Pair i) (exports (module_at h modules i))"] by simp
  have before: "length ?before = sum_list (map ?count [0..<p])" by (simp add: length_concat o_def)
  have whole: "length ?before + ?count p \<le> unat (cnt_binding_count counts)"
    using arg_cong [OF split, of length] counts_measure_ok(2) [OF counts] by simp
  then have "sum_list (map ?count [0..<p]) < 18446744073709551616" using before unat_u64_upper [of "cnt_binding_count counts"] by linarith
  then obtain c where c: "binding_index_loop h modules [0..<p] 0 = Inr c" "unat c = length ?before"
    using binding_index_loop_ok [of 0 h modules "[0..<p]"] before by auto
  have e: "unat (of_nat e :: u64) = e" using pair(2) unat_u64_upper [of "mod_provides_count (module_at h modules p)"]
    by (intro unat_of_nat_u64) simp
  have "checked_add_u64 c (of_nat e) = Inr b" using ok(3) c(1) by (simp add: binding_index_for_export_def)
  then have b: "unat b = length ?before + e" using checked_add_ok c(2) e by simp
  have "export_pairs h modules ?n ! unat b = (p, e)" unfolding split b using pair(2) by (simp add: nth_append)
  then show "unat b < length (export_pairs h modules ?n)" "fst (export_pairs h modules ?n ! unat b) = p"
    "compatible h modules required (export_pairs h modules ?n ! unat b)"
    using pair whole b counts_measure_ok(2) [OF counts] by simp_all
qed

end
