(* ===== verification/Capability_Scratch.thy ===== *)
theory Capability_Scratch
  imports Capability_Resolve
begin

text \<open>
  What the loops of \<open>requirements_resolve\<close> of \<open>src/c/capability_kernel.c\<close> leave in the workspace: for
  every requirement its provider and the index of its binding, for every module the number of its requirements; and
  which addresses they may write.
\<close>

section \<open>Addresses of the workspace\<close>

abbreviation provider_slot :: "arbor_capability_workspace \<Rightarrow> nat \<Rightarrow> addr" where
  "provider_slot workspace \<equiv> index_slot (wsp_resolved_provider_module_indices workspace)"

abbreviation resolved_slot :: "arbor_capability_workspace \<Rightarrow> nat \<Rightarrow> addr" where
  "resolved_slot workspace \<equiv> index_slot (wsp_resolved_binding_indices workspace)"

abbreviation indegree_slot :: "arbor_capability_workspace \<Rightarrow> nat \<Rightarrow> addr" where
  "indegree_slot workspace \<equiv> index_slot (wsp_indegree workspace)"

abbreviation order_slot :: "arbor_capability_workspace \<Rightarrow> nat \<Rightarrow> addr" where
  "order_slot workspace \<equiv> index_slot (wsp_module_order workspace)"

abbreviation selected_slot :: "arbor_capability_workspace \<Rightarrow> nat \<Rightarrow> addr" where
  "selected_slot workspace \<equiv> flag_slot (wsp_selected workspace)"

definition workspace_apart :: "nat \<Rightarrow> nat \<Rightarrow> arbor_capability_workspace \<Rightarrow> bool" where
  "workspace_apart n count workspace \<longleftrightarrow>
     index_arrays_apart [(wsp_resolved_provider_module_indices workspace, count), (wsp_resolved_binding_indices workspace, count),
       (wsp_indegree workspace, n), (wsp_module_order workspace, n)] \<and> flags_apart n workspace"

lemma workspace_slots:
  assumes "workspace_apart n count workspace"
  shows "\<And>i j. i < count \<Longrightarrow> j < count \<Longrightarrow> provider_slot workspace i = provider_slot workspace j \<longleftrightarrow> i = j"
    and "\<And>i j. i < count \<Longrightarrow> j < count \<Longrightarrow> resolved_slot workspace i = resolved_slot workspace j \<longleftrightarrow> i = j"
    and "\<And>i j. i < n \<Longrightarrow> j < n \<Longrightarrow> indegree_slot workspace i = indegree_slot workspace j \<longleftrightarrow> i = j"
    and "\<And>i j. i < n \<Longrightarrow> j < n \<Longrightarrow> order_slot workspace i = order_slot workspace j \<longleftrightarrow> i = j"
    and "\<And>i j. i < n \<Longrightarrow> j < n \<Longrightarrow> selected_slot workspace i = selected_slot workspace j \<longleftrightarrow> i = j"
    and "\<And>i j. i < count \<Longrightarrow> j < count \<Longrightarrow> provider_slot workspace i \<noteq> resolved_slot workspace j"
    and "\<And>i j. i < count \<Longrightarrow> j < n \<Longrightarrow> provider_slot workspace i \<noteq> indegree_slot workspace j"
    and "\<And>i j. i < count \<Longrightarrow> j < n \<Longrightarrow> provider_slot workspace i \<noteq> order_slot workspace j"
    and "\<And>i j. i < count \<Longrightarrow> j < n \<Longrightarrow> resolved_slot workspace i \<noteq> indegree_slot workspace j"
    and "\<And>i j. i < count \<Longrightarrow> j < n \<Longrightarrow> resolved_slot workspace i \<noteq> order_slot workspace j"
    and "\<And>i j. i < n \<Longrightarrow> j < n \<Longrightarrow> indegree_slot workspace i \<noteq> order_slot workspace j"
  using assms by (simp_all add: workspace_apart_def flags_apart_def)

definition index_slots :: "addr \<Rightarrow> nat \<Rightarrow> addr set" where
  "index_slots base n = index_slot base ` {0..<n}"

lemma index_slots_mem [intro]: "i < n \<Longrightarrow> index_slot base i \<in> index_slots base n"
  by (simp add: index_slots_def)

definition scratch_slots :: "nat \<Rightarrow> nat \<Rightarrow> arbor_capability_workspace \<Rightarrow> addr set" where
  "scratch_slots n count workspace =
     index_slots (wsp_resolved_provider_module_indices workspace) count \<union>
     index_slots (wsp_resolved_binding_indices workspace) count \<union>
     index_slots (wsp_indegree workspace) n \<union> index_slots (wsp_module_order workspace) n"

text \<open>Nothing is written except flags and the indices at some addresses.\<close>

definition scratch_only :: "addr set \<Rightarrow> cap_heap \<Rightarrow> cap_heap \<Rightarrow> bool" where
  "scratch_only A g g' \<longleftrightarrow>
     same_inputs g g' \<and> cap_binding g' = cap_binding g \<and> cap_resolution g' = cap_resolution g \<and> cap_catalog g' = cap_catalog g \<and>
     (\<forall>a. a \<notin> A \<longrightarrow> cap_index g' a = cap_index g a)"

lemma scratch_only_refl [simp]: "scratch_only A g g"
  by (simp add: scratch_only_def)

lemma scratch_only_trans: "scratch_only A g g' \<Longrightarrow> scratch_only A g' g'' \<Longrightarrow> scratch_only A g g''"
  by (simp add: scratch_only_def same_inputs_def)

lemma scratch_only_mono: "scratch_only A g g' \<Longrightarrow> A \<subseteq> B \<Longrightarrow> scratch_only B g g'"
  by (auto simp: scratch_only_def)

lemma scratch_only_index: "index_slot base i \<in> A \<Longrightarrow> scratch_only A g g' \<Longrightarrow> scratch_only A g (set_index base i v g')"
  by (auto simp: scratch_only_def)

lemma scratch_only_flag: "scratch_only A g g' \<Longrightarrow> scratch_only A g (set_flag base i v g')"
  by (simp add: scratch_only_def)

lemma scratch_only_inputs: "scratch_only A g g' \<Longrightarrow> same_inputs h g \<Longrightarrow> same_inputs h g'"
  by (simp add: scratch_only_def same_inputs_def)

lemma drop_Cons_nth: "drop k xs = y # ys \<Longrightarrow> k < length xs \<and> xs ! k = y \<and> drop (Suc k) xs = ys"
  by (metis Cons_nth_drop_Suc drop_eq_Nil leI list.discI list.inject)

section \<open>The requirements of a module\<close>

definition resolved_upto ::
    "cap_heap \<Rightarrow> addr \<Rightarrow> nat \<Rightarrow> arbor_capability_workspace \<Rightarrow> nat \<Rightarrow> cap_heap \<Rightarrow> bool" where
  "resolved_upto h modules n workspace k g \<longleftrightarrow>
     (\<forall>j < k. \<exists>p b. resolve_requirement h modules n (requirement_of h modules (requirement_pairs h modules n ! j)) = Inr (p, b) \<and>
        cap_index g (provider_slot workspace j) = of_nat p \<and> cap_index g (resolved_slot workspace j) = b)"

lemma requirements_loop_ok:
  assumes "same_inputs h g" and "drop k (requirement_pairs h modules n) = map (Pair c) rs @ rest"
    and "workspace_apart n (length (requirement_pairs h modules n)) workspace"
    and "resolved_upto h modules n workspace k g" and "k \<le> length (requirement_pairs h modules n)"
    and "requirements_loop modules n workspace c rs k g = (g', result)"
  shows "scratch_only (index_slots (wsp_resolved_provider_module_indices workspace) (length (requirement_pairs h modules n)) \<union>
      index_slots (wsp_resolved_binding_indices workspace) (length (requirement_pairs h modules n))) g g' \<and> cap_flag g' = cap_flag g \<and>
     (case result of
        Inl status \<Rightarrow> \<exists>r \<in> set rs. resolve_requirement h modules n (requirement_of h modules (c, r)) = Inl status
      | Inr k' \<Rightarrow> resolved_upto h modules n workspace k' g' \<and> k' \<le> length (requirement_pairs h modules n) \<and>
          drop k' (requirement_pairs h modules n) = rest)"
  using assms
proof (induction rs arbitrary: k g)
  case (Cons r rs)
  let ?pairs = "requirement_pairs h modules n"
  let ?A = "index_slots (wsp_resolved_provider_module_indices workspace) (length ?pairs) \<union>
    index_slots (wsp_resolved_binding_indices workspace) (length ?pairs)"
  have k: "k < length ?pairs" "?pairs ! k = (c, r)" "drop (Suc k) ?pairs = map (Pair c) rs @ rest"
    using drop_Cons_nth [of k ?pairs] Cons.prems(2) by simp_all
  have required: "requirement_at g (module_at g modules c) r = requirement_of h modules (c, r)"
    by (simp add: requirement_of_def same_reads [OF Cons.prems(1)])
  show ?case
  proof (cases "resolve_requirement h modules n (requirement_of h modules (c, r))")
    case (Inl status)
    then show ?thesis using Cons.prems(6) by (auto simp: required same_resolve [OF Cons.prems(1)])
  next
    case (Inr pb)
    obtain p b where pb: "pb = (p, b)" by (cases pb)
    define g1 where "g1 = set_index (wsp_resolved_binding_indices workspace) k b
      (set_index (wsp_resolved_provider_module_indices workspace) k (of_nat p) g)"
    have step: "scratch_only ?A g g1"
      unfolding g1_def using k(1) by (intro scratch_only_index scratch_only_refl UnI1 [OF index_slots_mem] UnI2 [OF index_slots_mem])
    have "resolved_upto h modules n workspace (Suc k) g1"
      unfolding resolved_upto_def
    proof (intro allI impI)
      fix j assume j: "j < Suc k"
      note apart = workspace_slots [OF Cons.prems(3)]
      show "\<exists>p b. resolve_requirement h modules n (requirement_of h modules (?pairs ! j)) = Inr (p, b) \<and>
        cap_index g1 (provider_slot workspace j) = of_nat p \<and> cap_index g1 (resolved_slot workspace j) = b"
      proof (cases "j = k")
        case True
        then show ?thesis using Inr pb k apart(6) [OF k(1) k(1)] by (simp add: g1_def)
      next
        case False
        then have "j < k" "j < length ?pairs" using j k(1) by simp_all
        then show ?thesis
          using Cons.prems(4) False apart(1) [of j k] apart(2) [of j k] apart(6) [of j k] apart(6) [of k j, symmetric] k(1)
          by (auto simp: g1_def resolved_upto_def)
      qed
    qed
    moreover have "requirements_loop modules n workspace c rs (Suc k) g1 = (g', result)"
      using Cons.prems(6) Inr pb by (simp add: required same_resolve [OF Cons.prems(1)] g1_def)
    moreover have "cap_flag g1 = cap_flag g" by (simp add: g1_def)
    moreover have "Suc k \<le> length ?pairs" using k(1) by simp
    ultimately show ?thesis
      using Cons.IH [OF scratch_only_inputs [OF step Cons.prems(1)] k(3) Cons.prems(3)] scratch_only_trans [OF step]
      by (auto split: sum.split)
  qed
qed auto

section \<open>The requirements of all modules\<close>

definition started :: "cap_heap \<Rightarrow> addr \<Rightarrow> arbor_capability_workspace \<Rightarrow> nat set \<Rightarrow> cap_heap \<Rightarrow> bool" where
  "started h modules workspace C g \<longleftrightarrow>
     (\<forall>c \<in> C. cap_index g (indegree_slot workspace c) = mod_consumes_count (module_at h modules c) \<and>
        cap_flag g (selected_slot workspace c) = 0)"

lemma consumers_loop_ok:
  assumes "same_inputs h g"
    and "drop k (requirement_pairs h modules n) = concat (map (\<lambda>c. map (Pair c) (requirements (module_at h modules c))) cs)"
    and "workspace_apart n (length (requirement_pairs h modules n)) workspace"
    and "resolved_upto h modules n workspace k g" and "started h modules workspace C g" and "set cs \<union> C \<subseteq> {0..<n}"
    and "k \<le> length (requirement_pairs h modules n)"
    and "consumers_loop modules n workspace cs k g = (g', result)"
  shows "scratch_only (scratch_slots n (length (requirement_pairs h modules n)) workspace) g g' \<and>
     (case result of
        Inl status \<Rightarrow> \<exists>c \<in> set cs. \<exists>r \<in> set (requirements (module_at h modules c)).
          resolve_requirement h modules n (requirement_of h modules (c, r)) = Inl status
      | Inr k' \<Rightarrow> resolved_upto h modules n workspace (length (requirement_pairs h modules n)) g' \<and>
          started h modules workspace (set cs \<union> C) g')"
  using assms
proof (induction cs arbitrary: k g C)
  case Nil
  then show ?case by auto
next
  case (Cons c cs)
  let ?pairs = "requirement_pairs h modules n"
  let ?rest = "concat (map (\<lambda>c. map (Pair c) (requirements (module_at h modules c))) cs)"
  let ?S = "scratch_slots n (length ?pairs) workspace"
  note apart = workspace_slots [OF Cons.prems(3)] and reads = same_reads [OF Cons.prems(1)]
  define g1 where "g1 = set_flag (wsp_selected workspace) c 0
    (set_index (wsp_indegree workspace) c (mod_consumes_count (module_at h modules c)) g)"
  obtain g2 next_result where loop:
    "requirements_loop modules n workspace c (requirements (module_at h modules c)) k g1 = (g2, next_result)" by fastforce
  have c: "c < n" using Cons.prems(6) by simp
  have step1: "scratch_only ?S g g1"
    unfolding g1_def scratch_slots_def using c by (intro scratch_only_flag scratch_only_index scratch_only_refl) auto
  note inputs1 = scratch_only_inputs [OF step1 Cons.prems(1)]
  have resolved1: "resolved_upto h modules n workspace k g1"
    using Cons.prems(4,7) apart(7,9) c by (auto simp: resolved_upto_def g1_def)
  have started1: "started h modules workspace (insert c C) g1"
    using Cons.prems(5,6) apart(3,5) c unfolding started_def g1_def by auto
  have drop1: "drop k ?pairs = map (Pair c) (requirements (module_at h modules c)) @ ?rest" using Cons.prems(2) by simp
  have inner: "scratch_only (index_slots (wsp_resolved_provider_module_indices workspace) (length ?pairs) \<union>
      index_slots (wsp_resolved_binding_indices workspace) (length ?pairs)) g1 g2" "cap_flag g2 = cap_flag g1"
    "case next_result of
        Inl status \<Rightarrow> \<exists>r \<in> set (requirements (module_at h modules c)).
          resolve_requirement h modules n (requirement_of h modules (c, r)) = Inl status
      | Inr k' \<Rightarrow> resolved_upto h modules n workspace k' g2 \<and> k' \<le> length ?pairs \<and> drop k' ?pairs = ?rest"
    using requirements_loop_ok [OF inputs1 drop1 Cons.prems(3) resolved1 Cons.prems(7) loop] by auto
  have step2: "scratch_only ?S g g2"
    using scratch_only_trans [OF step1 scratch_only_mono [OF inner(1)]] by (auto simp: scratch_slots_def)
  have started2: "started h modules workspace (insert c C) g2"
    unfolding started_def
  proof
    fix d assume d: "d \<in> insert c C"
    then have "d < n" using Cons.prems(6) by auto
    then have "indegree_slot workspace d \<notin> index_slots (wsp_resolved_provider_module_indices workspace) (length ?pairs) \<union>
        index_slots (wsp_resolved_binding_indices workspace) (length ?pairs)"
      using apart(7,9) by (force simp: index_slots_def)
    then show "cap_index g2 (indegree_slot workspace d) = mod_consumes_count (module_at h modules d) \<and>
        cap_flag g2 (selected_slot workspace d) = 0"
      using inner(1,2) started1 d by (auto simp: scratch_only_def started_def)
  qed
  show ?case
  proof (cases next_result)
    case (Inl status)
    then have "g' = g2" "result = Inl status" using Cons.prems(8) loop by (simp_all add: Let_def reads g1_def)
    then show ?thesis using inner(3) Inl step2 by auto
  next
    case (Inr k')
    then have next_loop: "consumers_loop modules n workspace cs k' g2 = (g', result)"
      using Cons.prems(8) loop by (simp add: Let_def reads g1_def)
    have "set cs \<union> insert c C \<subseteq> {0..<n}" using Cons.prems(6) by auto
    moreover have "resolved_upto h modules n workspace k' g2" "drop k' ?pairs = ?rest" "k' \<le> length ?pairs"
      using inner(3) Inr by simp_all
    ultimately show ?thesis
      using Cons.IH [OF scratch_only_inputs [OF step2 Cons.prems(1)] _ Cons.prems(3) _ started2 _ _ next_loop]
        scratch_only_trans [OF step2]
      by (auto split: sum.split)
  qed
qed

lemma requirements_resolve_ok:
  assumes "workspace_apart (unat module_count) (length (requirement_pairs h modules (unat module_count))) workspace"
    and "requirements_resolve h modules module_count workspace = (h', result)"
  shows "scratch_only (scratch_slots (unat module_count) (length (requirement_pairs h modules (unat module_count))) workspace) h h'"
    and "result = Inr () \<Longrightarrow> resolved_upto h modules (unat module_count) workspace (length (requirement_pairs h modules (unat module_count))) h'"
    and "result = Inr () \<Longrightarrow> started h modules workspace {0..<unat module_count} h'"
    and "result = Inl status \<Longrightarrow> \<exists>x \<in> set (requirement_pairs h modules (unat module_count)).
      resolve_requirement h modules (unat module_count) (requirement_of h modules x) = Inl status"
proof -
  let ?n = "unat module_count"
  obtain r where loop: "consumers_loop modules ?n workspace [0..<?n] 0 h = (h', r)"
    and r: "result = (case r of Inl status \<Rightarrow> Inl status | Inr _ \<Rightarrow> Inr ())"
    using assms(2) by (auto simp: requirements_resolve_def split: prod.splits sum.splits)
  have start: "drop 0 (requirement_pairs h modules ?n) =
      concat (map (\<lambda>c. map (Pair c) (requirements (module_at h modules c))) [0..<?n])"
    "resolved_upto h modules ?n workspace 0 h" "started h modules workspace {} h" "set [0..<?n] \<union> {} \<subseteq> {0..<?n}"
    by (simp_all add: requirement_pairs_def resolved_upto_def started_def)
  note finished = consumers_loop_ok [OF same_inputs_refl start(1) assms(1) start(2-4) le0 loop]
  show "scratch_only (scratch_slots ?n (length (requirement_pairs h modules ?n)) workspace) h h'"
    "result = Inr () \<Longrightarrow> resolved_upto h modules ?n workspace (length (requirement_pairs h modules ?n)) h'"
    "result = Inr () \<Longrightarrow> started h modules workspace {0..<?n} h'"
    using finished r by (simp_all split: sum.splits)
  show "\<exists>x \<in> set (requirement_pairs h modules ?n). resolve_requirement h modules ?n (requirement_of h modules x) = Inl status"
    if "result = Inl status"
  proof -
    have "r = Inl status" using that r by (simp split: sum.splits)
    then obtain c k where "c < ?n" "k < unat (mod_consumes_count (module_at h modules c))"
      "resolve_requirement h modules ?n (requirement_of h modules (c, k)) = Inl status"
      using finished by auto
    then show ?thesis using requirement_pairs_iff by blast
  qed
qed

end
