(* ===== verification/Capability_Order.thy ===== *)
theory Capability_Order
  imports Capability_Scratch
begin

text \<open>
  The order that \<open>topological_order_build\<close> of \<open>src/c/capability_kernel.c\<close> leaves in the workspace: in
  every turn the counters are the numbers of requirements whose provider is not ordered yet, so the module that is
  selected is the least one that is ready.
\<close>

section \<open>Requirements that wait\<close>

text \<open>The requirements of a module, by their positions among all, that are not in a set.\<close>

definition waiting :: "(nat \<times> nat) list \<Rightarrow> nat set \<Rightarrow> nat \<Rightarrow> nat" where
  "waiting pairs D c = card {k. k < length pairs \<and> fst (pairs ! k) = c \<and> k \<notin> D}"

lemma waiting_finite [simp]: "finite {k. k < length pairs \<and> P k}"
  by (rule finite_subset [of _ "{0..<length pairs}"]) auto

lemma waiting_step:
  assumes "k < length pairs" and "k \<notin> D"
  shows "waiting pairs D c = (if fst (pairs ! k) = c then Suc (waiting pairs (insert k D) c) else waiting pairs (insert k D) c)"
proof (cases "fst (pairs ! k) = c")
  case True
  then have "{j. j < length pairs \<and> fst (pairs ! j) = c \<and> j \<notin> D} =
      insert k {j. j < length pairs \<and> fst (pairs ! j) = c \<and> j \<notin> insert k D}"
    using assms by auto
  then show ?thesis using True by (simp add: waiting_def)
next
  case False
  then have "{j. j < length pairs \<and> fst (pairs ! j) = c \<and> j \<notin> D} = {j. j < length pairs \<and> fst (pairs ! j) = c \<and> j \<notin> insert k D}"
    by auto
  then show ?thesis using False by (simp add: waiting_def)
qed

lemma waiting_0: "waiting pairs D c = 0 \<longleftrightarrow> (\<forall>k < length pairs. fst (pairs ! k) = c \<longrightarrow> k \<in> D)"
  by (auto simp: waiting_def)

definition counters :: "(nat \<times> nat) list \<Rightarrow> arbor_capability_workspace \<Rightarrow> nat \<Rightarrow> nat set \<Rightarrow> cap_heap \<Rightarrow> bool" where
  "counters pairs workspace n D g \<longleftrightarrow> (\<forall>c < n. unat (cap_index g (indegree_slot workspace c)) = waiting pairs D c)"

definition provided_by :: "(nat \<times> nat) list \<Rightarrow> (nat \<Rightarrow> nat) \<Rightarrow> arbor_capability_workspace \<Rightarrow> cap_heap \<Rightarrow> bool" where
  "provided_by pairs P workspace g \<longleftrightarrow>
     (\<forall>k < length pairs. P k < 18446744073709551616 \<and> cap_index g (provider_slot workspace k) = of_nat (P k))"

text \<open>The counters of a selection: only those at the slots of \<open>indegree\<close> change.\<close>

definition indegree_only :: "nat \<Rightarrow> arbor_capability_workspace \<Rightarrow> cap_heap \<Rightarrow> cap_heap \<Rightarrow> bool" where
  "indegree_only n workspace g g' \<longleftrightarrow>
     scratch_only (index_slots (wsp_indegree workspace) n) g g' \<and> cap_flag g' = cap_flag g"

lemma indegree_only_refl [simp]: "indegree_only n workspace g g"
  by (simp add: indegree_only_def)

lemma indegree_only_trans: "indegree_only n workspace g g' \<Longrightarrow> indegree_only n workspace g' g'' \<Longrightarrow> indegree_only n workspace g g''"
  by (auto simp: indegree_only_def intro: scratch_only_trans)

lemma indegree_only_step: "c < n \<Longrightarrow> indegree_only n workspace g (set_index (wsp_indegree workspace) c v g)"
  unfolding indegree_only_def by (simp add: scratch_only_index index_slots_mem)

lemma provided_by_indegree:
  assumes "workspace_apart n (length pairs) workspace" and "indegree_only n workspace g g'" and "provided_by pairs P workspace g"
  shows "provided_by pairs P workspace g'"
  unfolding provided_by_def
proof (intro allI impI)
  fix k assume k: "k < length pairs"
  then have "provider_slot workspace k \<notin> index_slots (wsp_indegree workspace) n"
    using workspace_slots(7) [OF assms(1)] by (force simp: index_slots_def)
  then show "P k < 18446744073709551616 \<and> cap_index g' (provider_slot workspace k) = of_nat (P k)"
    using assms(2,3) k by (simp add: indegree_only_def scratch_only_def provided_by_def)
qed

lemma release_loop_ok:
  assumes "workspace_apart n (length pairs) workspace" and "provided_by pairs P workspace g" and "counters pairs workspace n D g"
    and "s < n" and "n < 18446744073709551616" and "c < n"
    and "drop k pairs = map (Pair c) rs @ rest" and "k \<le> length pairs" and "\<And>j. k \<le> j \<Longrightarrow> P j = s \<Longrightarrow> j \<notin> D"
  shows "\<exists>g'. release_loop workspace s c rs k g = (g', Inr (k + length rs)) \<and> indegree_only n workspace g g' \<and>
     counters pairs workspace n (D \<union> {j. k \<le> j \<and> j < k + length rs \<and> P j = s}) g'"
  using assms(2,3,7-9)
proof (induction rs arbitrary: k g D)
  case Nil
  have "D \<union> {j. k \<le> j \<and> j < k \<and> P j = s} = D" by auto
  then show ?case using Nil.prems(2) by (metis add_0_right indegree_only_refl list.size(3) release_loop.simps(1))
next
  case (Cons r rs)
  have k: "k < length pairs" "pairs ! k = (c, r)" "drop (Suc k) pairs = map (Pair c) rs @ rest"
    using drop_Cons_nth [of k pairs] Cons.prems(3) by simp_all
  have small: "P k < 18446744073709551616" "s < 18446744073709551616" and read: "cap_index g (provider_slot workspace k) = of_nat (P k)"
    using Cons.prems(1) k(1) assms(4,5) by (simp_all add: provided_by_def)
  have same: "cap_index g (provider_slot workspace k) = of_nat s \<longleftrightarrow> P k = s"
    unfolding read using unat_of_nat_u64 [OF small(1)] unat_of_nat_u64 [OF small(2)] by metis
  show ?case
  proof (cases "P k = s")
    case False
    then have "{j. k \<le> j \<and> j < k + length (r # rs) \<and> P j = s} = {j. Suc k \<le> j \<and> j < Suc k + length rs \<and> P j = s}"
      by (auto simp: le_eq_less_or_eq Suc_le_eq)
    then show ?thesis
      using Cons.IH [OF Cons.prems(1,2) k(3)] Cons.prems(5) k(1) same False by (simp add: Suc_leD)
  next
    case True
    let ?v = "cap_index g (indegree_slot workspace c)"
    define g1 where "g1 = set_index (wsp_indegree workspace) c (?v - 1) g"
    have free: "k \<notin> D" using Cons.prems(5) True by simp
    have v: "unat ?v = Suc (waiting pairs (insert k D) c)"
      using Cons.prems(2) assms(6) waiting_step [OF k(1) free] k(2) by (simp add: counters_def)
    then have nonzero: "?v \<noteq> 0" by auto
    have "unat (?v - 1) = waiting pairs (insert k D) c" using v unat_minus_one [OF nonzero] by simp
    then have counters1: "counters pairs workspace n (insert k D) g1"
      using Cons.prems(2) waiting_step [OF k(1) free] k(2) workspace_slots(3) [OF assms(1)] assms(6)
      by (auto simp: counters_def g1_def)
    have step: "indegree_only n workspace g g1" unfolding g1_def using assms(6) by (rule indegree_only_step)
    have free1: "\<And>j. Suc k \<le> j \<Longrightarrow> P j = s \<Longrightarrow> j \<notin> insert k D" using Cons.prems(5) by auto
    have union: "insert k D \<union> {j. Suc k \<le> j \<and> j < Suc k + length rs \<and> P j = s} =
        D \<union> {j. k \<le> j \<and> j < k + length (r # rs) \<and> P j = s}"
      using True by (auto simp: le_eq_less_or_eq Suc_le_eq)
    obtain g' where g': "release_loop workspace s c rs (Suc k) g1 = (g', Inr (Suc k + length rs))" "indegree_only n workspace g1 g'"
      "counters pairs workspace n (insert k D \<union> {j. Suc k \<le> j \<and> j < Suc k + length rs \<and> P j = s}) g'"
      using Cons.IH [OF provided_by_indegree [OF assms(1) step Cons.prems(1)] counters1 k(3) Suc_leI [OF k(1)] free1] by blast
    show ?thesis
    proof (intro exI conjI)
      show "release_loop workspace s c (r # rs) k g = (g', Inr (k + length (r # rs)))"
        using g'(1) same True nonzero by (simp add: g1_def Let_def)
      show "indegree_only n workspace g g'" using indegree_only_trans [OF step g'(2)] .
      show "counters pairs workspace n (D \<union> {j. k \<le> j \<and> j < k + length (r # rs) \<and> P j = s}) g'"
        using g'(3) unfolding union .
    qed
  qed
qed

lemma release_consumers_ok:
  assumes "workspace_apart n (length pairs) workspace" and "provided_by pairs P workspace g" and "counters pairs workspace n D g"
    and "s < n" and "n < 18446744073709551616" and "set cs \<subseteq> {0..<n}" and "same_inputs h g"
    and "drop k pairs = concat (map (\<lambda>c. map (Pair c) (requirements (module_at h modules c))) cs)"
    and "k \<le> length pairs" and "\<And>j. k \<le> j \<Longrightarrow> P j = s \<Longrightarrow> j \<notin> D"
  shows "\<exists>g'. release_consumers modules workspace s cs k g = (g', Inr (length pairs)) \<and> indegree_only n workspace g g' \<and>
     counters pairs workspace n (D \<union> {j. k \<le> j \<and> j < length pairs \<and> P j = s}) g'"
  using assms(2,3,6-)
proof (induction cs arbitrary: k g D)
  case Nil
  then have "k = length pairs" by simp
  moreover have "D \<union> {j. length pairs \<le> j \<and> j < length pairs \<and> P j = s} = D" by auto
  ultimately show ?case using Nil.prems(2) by (metis indegree_only_refl release_consumers.simps(1))
next
  case (Cons c cs)
  let ?rs = "requirements (module_at h modules c)" and ?rest = "concat (map (\<lambda>c. map (Pair c) (requirements (module_at h modules c))) cs)"
  let ?k = "k + length ?rs"
  have drop1: "drop k pairs = map (Pair c) ?rs @ ?rest" using Cons.prems(5) by simp
  have length1: "?k \<le> length pairs" using arg_cong [OF drop1, of length] Cons.prems(6) by simp
  have drop2: "drop ?k pairs = ?rest" using arg_cong [OF drop1, of "drop (length ?rs)"] by (simp add: add.commute)
  have c: "c < n" "set cs \<subseteq> {0..<n}" using Cons.prems(3) by simp_all
  obtain g1 where g1: "release_loop workspace s c ?rs k g = (g1, Inr ?k)" "indegree_only n workspace g g1"
    "counters pairs workspace n (D \<union> {j. k \<le> j \<and> j < ?k \<and> P j = s}) g1"
    using release_loop_ok [OF assms(1) Cons.prems(1,2) assms(4,5) c(1) drop1 Cons.prems(6,7)] by auto
  have inputs1: "same_inputs h g1" using g1(2) Cons.prems(4) by (auto simp: indegree_only_def intro: scratch_only_inputs)
  have union: "D \<union> {j. k \<le> j \<and> j < ?k \<and> P j = s} \<union> {j. ?k \<le> j \<and> j < length pairs \<and> P j = s} =
      D \<union> {j. k \<le> j \<and> j < length pairs \<and> P j = s}"
    using length1 by auto
  have free1: "\<And>j. ?k \<le> j \<Longrightarrow> P j = s \<Longrightarrow> j \<notin> D \<union> {j. k \<le> j \<and> j < ?k \<and> P j = s}" using Cons.prems(7) by auto
  obtain g' where g': "release_consumers modules workspace s cs ?k g1 = (g', Inr (length pairs))" "indegree_only n workspace g1 g'"
    "counters pairs workspace n (D \<union> {j. k \<le> j \<and> j < length pairs \<and> P j = s}) g'"
    using Cons.IH [OF provided_by_indegree [OF assms(1) g1(2) Cons.prems(1)] g1(3) c(2) inputs1 drop2 length1 free1] union by auto
  show ?case
  proof (intro exI conjI)
    show "release_consumers modules workspace s (c # cs) k g = (g', Inr (length pairs))"
      using g1(1) g'(1) by (simp add: same_reads [OF Cons.prems(4)])
    show "indegree_only n workspace g g'" using indegree_only_trans [OF g1(2) g'(2)] .
    show "counters pairs workspace n (D \<union> {j. k \<le> j \<and> j < length pairs \<and> P j = s}) g'" using g'(3) .
  qed
qed

section \<open>The turns of the order\<close>

lemma counters_cong:
  assumes "\<And>k. k < length pairs \<Longrightarrow> k \<in> D \<longleftrightarrow> k \<in> E"
  shows "counters pairs workspace n D g = counters pairs workspace n E g"
proof -
  have "{k. k < length pairs \<and> fst (pairs ! k) = c \<and> k \<notin> D} = {k. k < length pairs \<and> fst (pairs ! k) = c \<and> k \<notin> E}" for c
    using assms by auto
  then show ?thesis by (simp add: counters_def waiting_def)
qed

definition order_state ::
    "cap_heap \<Rightarrow> (nat \<times> nat) list \<Rightarrow> (nat \<Rightarrow> nat) \<Rightarrow> nat \<Rightarrow> arbor_capability_workspace \<Rightarrow> nat list \<Rightarrow> cap_heap \<Rightarrow> bool" where
  "order_state h pairs P n workspace order g \<longleftrightarrow>
     same_inputs h g \<and> provided_by pairs P workspace g \<and> counters pairs workspace n {k. P k \<in> set order} g \<and>
     (\<forall>c < n. cap_flag g (selected_slot workspace c) = (if c \<in> set order then 1 else 0)) \<and>
     (\<forall>i < length order. cap_index g (order_slot workspace i) = of_nat (order ! i))"

definition graph_of :: "(nat \<times> nat) list \<Rightarrow> (nat \<Rightarrow> nat) \<Rightarrow> nat \<Rightarrow> (nat \<Rightarrow> nat list) \<Rightarrow> bool" where
  "graph_of pairs P n G \<longleftrightarrow> (\<forall>c < n. set (G c) = {P k | k. k < length pairs \<and> fst (pairs ! k) = c})"

lemma candidate_search_eq:
  assumes "order_state h pairs P n workspace order g" and "graph_of pairs P n G"
  shows "candidate_search g n workspace = least_ready n G order"
  unfolding candidate_search_def least_ready_def
proof (rule find_cong [OF refl])
  fix c assume "c \<in> set [0..<n]"
  then have c: "c < n" by simp
  have "cap_index g (indegree_slot workspace c) = 0 \<longleftrightarrow> waiting pairs {k. P k \<in> set order} c = 0"
    using assms(1) c by (simp add: order_state_def counters_def unat_eq_zero flip: unat_eq_zero)
  also have "\<dots> \<longleftrightarrow> ready G order c"
    using assms(2) c by (auto simp: waiting_0 ready_def graph_of_def)
  finally show "(cap_flag g (selected_slot workspace c) = 0 \<and> cap_index g (indegree_slot workspace c) = 0) \<longleftrightarrow>
      (c \<notin> set order \<and> ready G order c)"
    using assms(1) c by (simp add: order_state_def)
qed

lemma order_turn:
  assumes "workspace_apart n (length pairs) workspace" and "order_state h pairs P n workspace order g"
    and "s < n" and "s \<notin> set order" and "n < 18446744073709551616" and "length order < n"
    and "pairs = concat (map (\<lambda>c. map (Pair c) (requirements (module_at h modules c))) [0..<n])"
  defines "marked \<equiv> set_index (wsp_module_order workspace) (length order) (of_nat s) (set_flag (wsp_selected workspace) s 1 g)"
  shows "\<exists>g'. release_consumers modules workspace s [0..<n] 0 marked = (g', Inr (length pairs)) \<and>
     order_state h pairs P n workspace (order @ [s]) g' \<and>
     scratch_only (index_slots (wsp_indegree workspace) n \<union> index_slots (wsp_module_order workspace) n) g g'"
proof -
  let ?A = "index_slots (wsp_indegree workspace) n \<union> index_slots (wsp_module_order workspace) n"
  note apart = workspace_slots [OF assms(1)]
  have marked: "scratch_only ?A g marked"
    unfolding marked_def using assms(6) by (intro scratch_only_index scratch_only_flag scratch_only_refl) auto
  have inputs: "same_inputs h marked" using marked assms(2) by (auto simp: order_state_def intro: scratch_only_inputs)
  have provided: "provided_by pairs P workspace marked"
    using assms(2,6) apart(8) by (simp add: order_state_def provided_by_def marked_def)
  have counted: "counters pairs workspace n {k. P k \<in> set order} marked"
    using assms(2,6) apart(11) by (simp add: order_state_def counters_def marked_def)
  have "drop 0 pairs = concat (map (\<lambda>c. map (Pair c) (requirements (module_at h modules c))) [0..<n])" using assms(7) by simp
  then obtain g' where g': "release_consumers modules workspace s [0..<n] 0 marked = (g', Inr (length pairs))"
    "indegree_only n workspace marked g'"
    "counters pairs workspace n ({k. P k \<in> set order} \<union> {j. 0 \<le> j \<and> j < length pairs \<and> P j = s}) g'"
    using release_consumers_ok [OF assms(1) provided counted assms(3,5) _ inputs, of "[0..<n]" 0 modules] assms(4) by auto
  have only: "scratch_only (index_slots (wsp_indegree workspace) n) marked g'" "cap_flag g' = cap_flag marked"
    using g'(2) by (simp_all add: indegree_only_def)
  have "order_state h pairs P n workspace (order @ [s]) g'"
    unfolding order_state_def
  proof (intro conjI allI impI)
    show "same_inputs h g'" using only(1) inputs by (rule scratch_only_inputs)
    show "provided_by pairs P workspace g'" using assms(1) g'(2) provided by (rule provided_by_indegree)
    show "counters pairs workspace n {k. P k \<in> set (order @ [s])} g'"
      using g'(3) by (rule counters_cong [THEN iffD1, rotated]) auto
    show "cap_flag g' (selected_slot workspace c) = (if c \<in> set (order @ [s]) then 1 else 0)" if "c < n" for c
      using assms(2,3) apart(5) that only(2) by (auto simp: marked_def order_state_def)
    show "cap_index g' (order_slot workspace i) = of_nat ((order @ [s]) ! i)" if "i < length (order @ [s])" for i
    proof -
      have i: "i < n" "i \<le> length order" using that assms(6) by simp_all
      have "order_slot workspace i \<notin> index_slots (wsp_indegree workspace) n"
        using apart(11) i(1) by (force simp: index_slots_def)
      then have "cap_index g' (order_slot workspace i) = cap_index marked (order_slot workspace i)"
        using only(1) by (simp add: scratch_only_def)
      also have "\<dots> = of_nat ((order @ [s]) ! i)"
        using assms(2,6) apart(4) [OF i(1) assms(6)] i by (auto simp: marked_def order_state_def nth_append)
      finally show ?thesis .
    qed
  qed
  then show ?thesis using g'(1) scratch_only_trans [OF marked scratch_only_mono [OF only(1)]] by auto
qed

text \<open>The loop is the construction of the order, turn by turn.\<close>

lemma order_loop_ok:
  assumes "workspace_apart n (length pairs) workspace" and "n < 18446744073709551616" and "graph_of pairs P n G"
    and "pairs = concat (map (\<lambda>c. map (Pair c) (requirements (module_at h modules c))) [0..<n])"
    and "order_state h pairs P n workspace order g" and "length order + k = n"
  shows "\<exists>g'. scratch_only (index_slots (wsp_indegree workspace) n \<union> index_slots (wsp_module_order workspace) n) g g' \<and>
     (case extend_order n G k order of
        None \<Rightarrow> order_loop modules n workspace [length order..<n] g = (g', refuse ELOOP)
      | Some order' \<Rightarrow> order_loop modules n workspace [length order..<n] g = (g', Inr ()) \<and> order_state h pairs P n workspace order' g')"
  using assms(5,6)
proof (induction k arbitrary: order g)
  case 0
  then have "[length order..<n] = []" by simp
  then have "order_loop modules n workspace [length order..<n] g = (g, Inr ())" by (simp only: order_loop.simps)
  then show ?case using 0(1) by (intro exI [of _ g]) simp
next
  case (Suc k)
  have less: "length order < n" using Suc.prems(2) by simp
  then have upt: "[length order..<n] = length order # [length (order @ [s])..<n]" for s by (simp add: upt_conv_Cons)
  note candidate = candidate_search_eq [OF Suc.prems(1) assms(3)]
  show ?case
  proof (cases "least_ready n G order")
    case None
    then show ?thesis using candidate upt by (intro exI [of _ g]) simp
  next
    case (Some s)
    note s = least_ready_Some [OF Some]
    obtain g1 where g1: "release_consumers modules workspace s [0..<n] 0
        (set_index (wsp_module_order workspace) (length order) (of_nat s) (set_flag (wsp_selected workspace) s 1 g)) = (g1, Inr (length pairs))"
      "order_state h pairs P n workspace (order @ [s]) g1"
      "scratch_only (index_slots (wsp_indegree workspace) n \<union> index_slots (wsp_module_order workspace) n) g g1"
      using order_turn [OF assms(1) Suc.prems(1) s(1,2) assms(2) less assms(4)] by blast
    have turn: "order_loop modules n workspace [length order..<n] g = order_loop modules n workspace [length (order @ [s])..<n] g1"
      unfolding upt [of s] using g1(1) by (simp add: candidate Some)
    have extended: "extend_order n G (Suc k) order = extend_order n G k (order @ [s])" by (simp add: Some)
    have "length (order @ [s]) + k = n" using Suc.prems(2) by simp
    from Suc.IH [OF g1(2) this] show ?thesis unfolding turn extended using scratch_only_trans [OF g1(3)] by blast
  qed
qed

end
