(* ===== verification/Capability_Prepare.thy ===== *)
theory Capability_Prepare
  imports Capability_Order
begin

text \<open>
  The outcome of \<open>arbor_capability_catalog_prepare\<close> of \<open>src/c/capability_kernel.c\<close> once its checks pass:
  it depends only on whether every requirement has a compatible export and whether some module provides, through
  others, for itself. What the checks give for the addresses of the workspace and of the storage is stated once.
\<close>

section \<open>Requirements that are met\<close>

definition satisfiable :: "cap_heap \<Rightarrow> addr \<Rightarrow> nat \<Rightarrow> bool" where
  "satisfiable h modules n \<longleftrightarrow>
     (\<forall>x \<in> set (requirement_pairs h modules n). \<exists>y \<in> set (export_pairs h modules n). compatible h modules (requirement_of h modules x) y)"

lemma export_index_ok:
  assumes "counts_measure h modules module_count = Inr counts" and "(p, e) \<in> set (export_pairs h modules (unat module_count))"
  shows "\<exists>b. binding_index_for_export h modules p e = Inr b"
proof -
  let ?count = "\<lambda>i. unat (mod_provides_count (module_at h modules i))" and ?n = "unat module_count"
  have pair: "p < ?n" "e < ?count p" using assms(2) by (simp_all add: export_pairs_iff)
  have "length (export_pairs h modules ?n) = sum_list (map ?count [0..<?n])"
    by (simp add: export_pairs_def length_concat o_def)
  also have "\<dots> = sum_list (map ?count [0..<p]) + ?count p + sum_list (map ?count [Suc p..<?n])"
    by (simp add: upt_split [OF pair(1)])
  finally have bound: "sum_list (map ?count [0..<p]) + ?count p < 18446744073709551616"
    using counts_measure_ok(2) [OF assms(1)] unat_u64_upper [of "cnt_binding_count counts"] by linarith
  then obtain b where b: "binding_index_loop h modules [0..<p] 0 = Inr b" "unat b = sum_list (map ?count [0..<p])"
    using binding_index_loop_ok [of 0 h modules "[0..<p]"] by auto
  have "unat (of_nat e :: u64) = e" using pair(2) bound by (intro unat_of_nat_u64) linarith
  then have "unat b + unat (of_nat e :: u64) < 18446744073709551616" using b(2) pair(2) bound by linarith
  then show ?thesis by (simp add: binding_index_for_export_def b(1) checked_add_fits)
qed

lemma resolve_requirement_cases:
  assumes "counts_measure h modules module_count = Inr counts"
  shows "if \<exists>y \<in> set (export_pairs h modules (unat module_count)). compatible h modules required y
    then \<exists>pb. resolve_requirement h modules (unat module_count) required = Inr pb
    else resolve_requirement h modules (unat module_count) required \<in> {refuse ENOENT, refuse EPROTONOSUPPORT}"
proof -
  obtain found_id found p e where search: "provider_search h modules (unat module_count) required = (found_id, found, p, e)" by (metis surj_pair)
  show ?thesis
  proof (cases found)
    case True
    then obtain b where "binding_index_for_export h modules p e = Inr b"
      using provider_search_ok(2) [OF search] export_index_ok [OF assms] by blast
    then show ?thesis using True provider_search_ok [OF search] by (simp add: resolve_requirement_def search)
  next
    case False
    then show ?thesis using provider_search_ok(1) [OF search] by (auto simp: resolve_requirement_def search)
  qed
qed

section \<open>The graph of the modules\<close>

definition provider_index :: "cap_heap \<Rightarrow> addr \<Rightarrow> nat \<Rightarrow> nat \<Rightarrow> nat" where
  "provider_index h modules n k = the (provider_module h modules n (requirement_of h modules (requirement_pairs h modules n ! k)))"

lemma resolved_provider:
  assumes "counts_measure h modules module_count = Inr counts"
    and "resolved_upto h modules (unat module_count) workspace K g" and "k < K"
  shows "provider_module h modules (unat module_count) (requirement_of h modules (requirement_pairs h modules (unat module_count) ! k)) =
      Some (provider_index h modules (unat module_count) k)"
    and "provider_index h modules (unat module_count) k < unat module_count"
    and "cap_index g (provider_slot workspace k) = of_nat (provider_index h modules (unat module_count) k)"
    and "resolve_requirement h modules (unat module_count) (requirement_of h modules (requirement_pairs h modules (unat module_count) ! k)) =
      Inr (provider_index h modules (unat module_count) k, cap_index g (resolved_slot workspace k))"
proof -
  let ?required = "requirement_of h modules (requirement_pairs h modules (unat module_count) ! k)"
  obtain p b where pb: "resolve_requirement h modules (unat module_count) ?required = Inr (p, b)"
    "cap_index g (provider_slot workspace k) = of_nat p" "cap_index g (resolved_slot workspace k) = b"
    using assms(2,3) by (auto simp: resolved_upto_def)
  note some = resolve_requirement_ok(1) [OF assms(1) pb(1)]
  then have p: "provider_index h modules (unat module_count) k = p" by (simp add: provider_index_def)
  show "provider_module h modules (unat module_count) ?required = Some (provider_index h modules (unat module_count) k)"
    "cap_index g (provider_slot workspace k) = of_nat (provider_index h modules (unat module_count) k)"
    "resolve_requirement h modules (unat module_count) ?required =
      Inr (provider_index h modules (unat module_count) k, cap_index g (resolved_slot workspace k))"
    using some pb p by simp_all
  show "provider_index h modules (unat module_count) k < unat module_count" using some p provider_module_bound by simp
qed

lemma set_map_filter: "y \<in> set (List.map_filter f xs) \<longleftrightarrow> (\<exists>x \<in> set xs. f x = Some y)"
  by (induction xs) (auto split: option.split)

lemma resolved_graph:
  assumes "counts_measure h modules module_count = Inr counts"
    and "resolved_upto h modules (unat module_count) workspace (length (requirement_pairs h modules (unat module_count))) g"
  shows "graph_of (requirement_pairs h modules (unat module_count)) (provider_index h modules (unat module_count)) (unat module_count)
    (providers h modules (unat module_count))"
  unfolding graph_of_def
proof (intro allI impI)
  let ?n = "unat module_count"
  let ?pairs = "requirement_pairs h modules ?n"
  fix c assume c: "c < ?n"
  have ex: "(\<exists>x \<in> set ?pairs. Q x) \<longleftrightarrow> (\<exists>k < length ?pairs. Q (?pairs ! k))" for Q
    by (metis in_set_conv_nth)
  have "p \<in> set (providers h modules ?n c) \<longleftrightarrow>
      (\<exists>r < unat (mod_consumes_count (module_at h modules c)). provider_module h modules ?n (requirement_of h modules (c, r)) = Some p)" for p
    unfolding providers_def set_map_filter by auto
  also have "\<dots> p \<longleftrightarrow> (\<exists>x \<in> set ?pairs. fst x = c \<and> provider_module h modules ?n (requirement_of h modules x) = Some p)" for p
    using c by (simp add: Bex_def requirement_pairs_iff) blast
  also have "\<dots> p \<longleftrightarrow> (\<exists>k < length ?pairs. fst (?pairs ! k) = c \<and> provider_index h modules ?n k = p)" for p
    unfolding ex using resolved_provider(1) [OF assms] by auto
  finally show "set (providers h modules ?n c) = {provider_index h modules ?n k |k. k < length ?pairs \<and> fst (?pairs ! k) = c}" by auto
qed

lemma waiting_all:
  assumes "c < n"
  shows "waiting (requirement_pairs h modules n) {} c = unat (mod_consumes_count (module_at h modules c))"
proof -
  let ?f = "\<lambda>i. map (Pair i) (requirements (module_at h modules i))"
  have none: "filter (\<lambda>x. fst x = c) (concat (map ?f is)) = []" if "c \<notin> set is" for "is"
    using that by (auto simp: filter_empty_conv)
  have one: "filter (\<lambda>x. fst x = c) (?f c) = ?f c" by (simp add: filter_map o_def)
  have "waiting (requirement_pairs h modules n) {} c = length (filter (\<lambda>x. fst x = c) (requirement_pairs h modules n))"
    by (simp add: waiting_def length_filter_conv_card)
  also have "filter (\<lambda>x. fst x = c) (requirement_pairs h modules n) = ?f c"
    unfolding requirement_pairs_def pairs_split [OF assms] filter_append one by (simp add: none del: filter_concat)
  finally show ?thesis by simp
qed

lemma order_starts:
  assumes "counts_measure h modules module_count = Inr counts"
    and "scratch_only A h g" and "started h modules workspace {0..<unat module_count} g"
    and "resolved_upto h modules (unat module_count) workspace (length (requirement_pairs h modules (unat module_count))) g"
  shows "order_state h (requirement_pairs h modules (unat module_count)) (provider_index h modules (unat module_count)) (unat module_count)
    workspace [] g"
  unfolding order_state_def
proof (intro conjI)
  show "same_inputs h g" using assms(2) by (simp add: scratch_only_def)
  show "provided_by (requirement_pairs h modules (unat module_count)) (provider_index h modules (unat module_count)) workspace g"
    using resolved_provider [OF assms(1,4)] unat_u64_upper [of module_count] less_trans unfolding provided_by_def by blast
  show "counters (requirement_pairs h modules (unat module_count)) workspace (unat module_count)
      {k. provider_index h modules (unat module_count) k \<in> set []} g"
    using assms(3) by (simp add: counters_def started_def waiting_all)
qed (use assms(3) in \<open>simp_all add: started_def\<close>)

section \<open>The outcome\<close>

lemma prepare_checks_ok:
  assumes "prepare_checks h modules module_count storage_ptr workspace_ptr out = Inr counts"
  shows "out \<noteq> 0" and "counts_measure h modules module_count = Inr counts" and "storage_validate h counts storage_ptr workspace_ptr = Inr ()"
    and "descriptor_set_validate h modules module_count = Inr ()"
    and "publication_regions_validate h modules module_count counts storage_ptr workspace_ptr out = Inr ()"
  using assms by (auto simp: prepare_checks_def refuse_def then_ok_Inr_iff split: if_splits)

lemma checked_arrays:
  assumes "prepare_checks h modules module_count storage_ptr workspace_ptr out = Inr counts"
  shows "index_arrays_apart (index_arrays (unat module_count) (length (requirement_pairs h modules (unat module_count)))
      (cap_storage h storage_ptr) (cap_workspace h workspace_ptr))"
    and "workspace_apart (unat module_count) (length (requirement_pairs h modules (unat module_count))) (cap_workspace h workspace_ptr)"
    and "records_apart (length (export_pairs h modules (unat module_count))) (length (requirement_pairs h modules (unat module_count)))
      (cap_storage h storage_ptr)"
  using publication_regions_apart [OF prepare_checks_ok(5) [OF assms]] counts_measure_ok [OF prepare_checks_ok(2) [OF assms]]
  by (simp_all add: workspace_apart_def index_arrays_def)

text \<open>The heap after the requirements are resolved and ordered.\<close>

lemma order_built:
  assumes "prepare_checks h modules module_count storage_ptr workspace_ptr out = Inr counts"
  defines "workspace \<equiv> cap_workspace h workspace_ptr" and "n \<equiv> unat module_count"
  assumes "requirements_resolve h modules module_count workspace = (h1, Inr ())"
  shows "\<exists>h2. scratch_only (scratch_slots n (length (requirement_pairs h modules n)) workspace) h h2 \<and>
    (case extend_order n (providers h modules n) n [] of
       None \<Rightarrow> topological_order_build h1 modules module_count workspace = (h2, refuse ELOOP)
     | Some order \<Rightarrow> topological_order_build h1 modules module_count workspace = (h2, Inr ()) \<and>
         order_state h (requirement_pairs h modules n) (provider_index h modules n) n workspace order h2 \<and>
         resolved_upto h modules n workspace (length (requirement_pairs h modules n)) h2)"
proof -
  let ?pairs = "requirement_pairs h modules n"
  note counts = prepare_checks_ok(2) [OF assms(1)] and apart = checked_arrays(2) [OF assms(1), folded workspace_def n_def]
  note resolved = requirements_resolve_ok [OF checked_arrays(2) [OF assms(1), folded workspace_def] assms(4), folded n_def]
  have start: "order_state h ?pairs (provider_index h modules n) n workspace [] h1"
    using order_starts [OF counts resolved(1)] resolved(2,3) by (simp add: n_def)
  have graph: "graph_of ?pairs (provider_index h modules n) n (providers h modules n)"
    using resolved_graph [OF counts] resolved(2) by (simp add: n_def)
  have "n < 18446744073709551616" by (simp add: n_def unat_u64_upper)
  from order_loop_ok [OF apart this graph requirement_pairs_def start, of n, unfolded list.size(3) add_0]
  obtain h2 where only: "scratch_only (index_slots (wsp_indegree workspace) n \<union> index_slots (wsp_module_order workspace) n) h1 h2"
    and loop: "case extend_order n (providers h modules n) n [] of
        None \<Rightarrow> order_loop modules n workspace [0..<n] h1 = (h2, refuse ELOOP)
      | Some order' \<Rightarrow> order_loop modules n workspace [0..<n] h1 = (h2, Inr ()) \<and>
          order_state h ?pairs (provider_index h modules n) n workspace order' h2"
    by blast
  have "resolved_upto h modules n workspace (length ?pairs) h2"
    unfolding resolved_upto_def
  proof (intro allI impI)
    fix k assume k: "k < length ?pairs"
    then have "provider_slot workspace k \<notin> index_slots (wsp_indegree workspace) n \<union> index_slots (wsp_module_order workspace) n"
      "resolved_slot workspace k \<notin> index_slots (wsp_indegree workspace) n \<union> index_slots (wsp_module_order workspace) n"
      using workspace_slots(7-10) [OF apart k] by (force simp: index_slots_def)+
    then show "\<exists>p b. resolve_requirement h modules n (requirement_of h modules (?pairs ! k)) = Inr (p, b) \<and>
        cap_index h2 (provider_slot workspace k) = of_nat p \<and> cap_index h2 (resolved_slot workspace k) = b"
      using only resolved(2) k by (auto simp: scratch_only_def resolved_upto_def)
  qed
  moreover have "scratch_only (scratch_slots n (length ?pairs) workspace) h h2"
    using scratch_only_trans [OF resolved(1) scratch_only_mono [OF only]] by (auto simp: scratch_slots_def)
  ultimately show ?thesis
    using loop unfolding topological_order_build_def by (intro exI [of _ h2]) (simp add: n_def split: option.splits)
qed

lemma satisfiable_iff_resolved:
  assumes "prepare_checks h modules module_count storage_ptr workspace_ptr out = Inr counts"
    and "requirements_resolve h modules module_count (cap_workspace h workspace_ptr) = (h1, result)"
  shows "if satisfiable h modules (unat module_count) then result = Inr () else result \<in> {refuse ENOENT, refuse EPROTONOSUPPORT}"
proof -
  note resolved = requirements_resolve_ok [OF checked_arrays(2) [OF assms(1)] assms(2)]
  note cases = resolve_requirement_cases [OF prepare_checks_ok(2) [OF assms(1)]]
  let ?n = "unat module_count"
  show ?thesis
  proof (cases result)
    case (Inl status)
    then obtain x where x: "x \<in> set (requirement_pairs h modules ?n)"
      "resolve_requirement h modules ?n (requirement_of h modules x) = Inl status" using resolved(4) by blast
    then have "\<not> (\<exists>y \<in> set (export_pairs h modules ?n). compatible h modules (requirement_of h modules x) y)"
      "Inl status \<in> {refuse ENOENT, refuse EPROTONOSUPPORT :: arbor_status + nat \<times> u64}"
      using cases [of "requirement_of h modules x"] by (auto split: if_splits)
    then show ?thesis using x(1) Inl by (auto simp: satisfiable_def refuse_def)
  next
    case (Inr u)
    have "satisfiable h modules ?n"
      unfolding satisfiable_def
    proof
      fix x assume "x \<in> set (requirement_pairs h modules ?n)"
      then obtain k where "k < length (requirement_pairs h modules ?n)" "x = requirement_pairs h modules ?n ! k"
        by (auto simp: set_conv_nth)
      then obtain pb where "resolve_requirement h modules ?n (requirement_of h modules x) = Inr pb"
        using resolved(2) Inr by (auto simp: resolved_upto_def)
      then show "\<exists>y \<in> set (export_pairs h modules ?n). compatible h modules (requirement_of h modules x) y"
        using cases [of "requirement_of h modules x"] by (auto simp: refuse_def split: if_splits)
    qed
    then show ?thesis using Inr by simp
  qed
qed

text \<open>Success, a cycle, or a requirement that nothing meets; there is no other outcome.\<close>

lemma prepare_outcome:
  assumes "prepare_checks h modules module_count storage_ptr workspace_ptr out = Inr counts"
  defines "n \<equiv> unat module_count"
  shows "snd (arbor_capability_catalog_prepare h modules module_count storage_ptr workspace_ptr out) =
    (if satisfiable h modules n then
       if acyclic (dependencies n (providers h modules n)) then Inr () else refuse ELOOP
     else snd (requirements_resolve h modules module_count (cap_workspace h workspace_ptr)))"
    and "\<not> satisfiable h modules n \<Longrightarrow>
      snd (requirements_resolve h modules module_count (cap_workspace h workspace_ptr)) \<in> {refuse ENOENT, refuse EPROTONOSUPPORT}"
proof -
  let ?workspace = "cap_workspace h workspace_ptr"
  obtain h1 result where resolve: "requirements_resolve h modules module_count ?workspace = (h1, result)" by fastforce
  note cases = satisfiable_iff_resolved [OF assms(1) resolve, folded n_def]
  show "\<not> satisfiable h modules n \<Longrightarrow> snd (requirements_resolve h modules module_count ?workspace) \<in> {refuse ENOENT, refuse EPROTONOSUPPORT}"
    using cases resolve by simp
  show "snd (arbor_capability_catalog_prepare h modules module_count storage_ptr workspace_ptr out) =
    (if satisfiable h modules n then
       if acyclic (dependencies n (providers h modules n)) then Inr () else refuse ELOOP
     else snd (requirements_resolve h modules module_count ?workspace))"
  proof (cases "satisfiable h modules n")
    case False
    then obtain status where "result = Inl status" using cases by (auto simp: refuse_def)
    then show ?thesis using False resolve assms(1) by (simp add: arbor_capability_catalog_prepare_def Let_def)
  next
    case True
    then have resolve_ok: "requirements_resolve h modules module_count ?workspace = (h1, Inr ())" using cases resolve by simp
    obtain h2 where built: "case extend_order n (providers h modules n) n [] of
       None \<Rightarrow> topological_order_build h1 modules module_count ?workspace = (h2, refuse ELOOP)
     | Some order \<Rightarrow> topological_order_build h1 modules module_count ?workspace = (h2, Inr ()) \<and>
         order_state h (requirement_pairs h modules n) (provider_index h modules n) n ?workspace order h2 \<and>
         resolved_upto h modules n ?workspace (length (requirement_pairs h modules n)) h2"
      using order_built [OF assms(1) resolve_ok, folded n_def] by blast
    show ?thesis
      using True built resolve_ok assms(1) cap.construction_succeeds_iff [of n h modules]
      by (auto simp: arbor_capability_catalog_prepare_def Let_def refuse_def split: option.splits)
  qed
qed

text \<open>A call that fails writes in the workspace only.\<close>

lemma storage_order_untouched:
  assumes "index_arrays_apart (index_arrays n count storage workspace)" and "scratch_only (scratch_slots n count workspace) h h'" and "i < n"
  shows "cap_index h' (index_slot (sto_module_order storage) i) = cap_index h (index_slot (sto_module_order storage) i)"
proof -
  have "index_slot (sto_module_order storage) i \<notin> scratch_slots n count workspace"
    using assms(1,3) by (auto simp: scratch_slots_def index_slots_def index_arrays_def)
  then show ?thesis using assms(2) by (simp add: scratch_only_def)
qed

lemma prepare_failure_frame:
  assumes "arbor_capability_catalog_prepare h modules module_count storage_ptr workspace_ptr out = (h', Inl status)"
  shows "h' = h \<or> (\<exists>counts. prepare_checks h modules module_count storage_ptr workspace_ptr out = Inr counts \<and>
    scratch_only (scratch_slots (unat module_count) (length (requirement_pairs h modules (unat module_count))) (cap_workspace h workspace_ptr)) h h')"
proof (cases "prepare_checks h modules module_count storage_ptr workspace_ptr out")
  case (Inl s)
  then show ?thesis using assms by (simp add: arbor_capability_catalog_prepare_def)
next
  case (Inr counts)
  let ?workspace = "cap_workspace h workspace_ptr"
  obtain h1 result where resolve: "requirements_resolve h modules module_count ?workspace = (h1, result)" by fastforce
  show ?thesis
  proof (cases result)
    case (Inl s)
    then have "h' = h1" using assms Inr resolve by (simp add: arbor_capability_catalog_prepare_def Let_def)
    then show ?thesis using requirements_resolve_ok(1) [OF checked_arrays(2) [OF Inr] resolve] Inr by blast
  next
    case resolved: (Inr u)
    then have resolve_ok: "requirements_resolve h modules module_count ?workspace = (h1, Inr ())" using resolve by simp
    obtain h2 where h2: "scratch_only (scratch_slots (unat module_count) (length (requirement_pairs h modules (unat module_count))) ?workspace) h h2"
      "fst (topological_order_build h1 modules module_count ?workspace) = h2"
      using order_built [OF Inr resolve_ok] by (auto split: option.splits)
    have "h' = h2"
      using assms Inr resolve_ok h2(2) by (auto simp: arbor_capability_catalog_prepare_def Let_def split: prod.splits sum.splits)
    then show ?thesis using h2(1) Inr by blast
  qed
qed

end
