(* ===== verification/Capability_Publish.thy ===== *)
theory Capability_Publish
  imports Capability_Prepare
begin

text \<open>
  What \<open>publish_catalog\<close> of \<open>src/c/capability_kernel.c\<close> stores: every export at its place among the
  bindings, every requirement with the place of its binding, the order of the modules and the record of the catalog.
\<close>

section \<open>The three loops\<close>

definition binding_for :: "cap_heap \<Rightarrow> addr \<Rightarrow> nat \<times> nat \<Rightarrow> arbor_capability_binding" where
  "binding_for h modules x = binding_of (export_at h (module_at h modules (fst x)) (snd x)) (fst x)"

lemma publish_bindings_ok:
  assumes "\<forall>i < length all_pairs. \<forall>j < length all_pairs. binding_slot base i = binding_slot base j \<longleftrightarrow> i = j"
    and "same_inputs h g" and "drop k all_pairs = pairs" and "k \<le> length all_pairs"
    and "\<forall>j < k. cap_binding g (binding_slot base j) = binding_for h modules (all_pairs ! j)"
  shows "(\<forall>j < length all_pairs. cap_binding (publish_bindings modules base pairs k g) (binding_slot base j) =
      binding_for h modules (all_pairs ! j)) \<and>
    (\<exists>f. publish_bindings modules base pairs k g = g\<lparr>cap_binding := f\<rparr>)"
  using assms(2-)
proof (induction pairs arbitrary: k g)
  case Nil
  then show ?case by (auto intro!: exI [of _ "cap_binding g"])
next
  case (Cons x pairs)
  have k: "k < length all_pairs" "all_pairs ! k = x" "drop (Suc k) all_pairs = pairs" using drop_Cons_nth [OF Cons.prems(2)] by simp_all
  define g1 where "g1 = g\<lparr>cap_binding := (cap_binding g)(binding_slot base k := binding_for h modules x)\<rparr>"
  have step: "publish_bindings modules base (x # pairs) k g = publish_bindings modules base pairs (Suc k) g1"
    by (cases x) (simp add: g1_def binding_for_def same_reads [OF Cons.prems(1)])
  have filled: "\<forall>j < Suc k. cap_binding g1 (binding_slot base j) = binding_for h modules (all_pairs ! j)"
    using Cons.prems(4) assms(1) k by (auto simp: g1_def less_Suc_eq)
  have inputs1: "same_inputs h g1" using Cons.prems(1) by (simp add: g1_def)
  obtain f where "\<forall>j < length all_pairs. cap_binding (publish_bindings modules base pairs (Suc k) g1) (binding_slot base j) =
      binding_for h modules (all_pairs ! j)" "publish_bindings modules base pairs (Suc k) g1 = g1\<lparr>cap_binding := f\<rparr>"
    using Cons.IH [OF inputs1 k(3) Suc_leI [OF k(1)] filled] by blast
  then show ?case unfolding step by (auto simp: g1_def)
qed

definition resolution_for :: "arbor_capability_workspace \<Rightarrow> cap_heap \<Rightarrow> nat \<times> nat \<Rightarrow> nat \<Rightarrow> arbor_capability_resolution" where
  "resolution_for workspace g x k =
     \<lparr>rsl_consumer_module_index = of_nat (fst x), rsl_requirement_index = of_nat (snd x),
      rsl_binding_index = cap_index g (resolved_slot workspace k)\<rparr>"

lemma publish_resolutions_ok:
  assumes "\<forall>i < length all_pairs. \<forall>j < length all_pairs. resolution_slot base i = resolution_slot base j \<longleftrightarrow> i = j"
    and "drop k all_pairs = pairs" and "k \<le> length all_pairs"
    and "\<forall>j < k. cap_resolution g (resolution_slot base j) = resolution_for workspace g (all_pairs ! j) j"
  shows "(\<forall>j < length all_pairs. cap_resolution (publish_resolutions base workspace pairs k g) (resolution_slot base j) =
      resolution_for workspace g (all_pairs ! j) j) \<and>
    (\<exists>f. publish_resolutions base workspace pairs k g = g\<lparr>cap_resolution := f\<rparr>)"
  using assms(2-)
proof (induction pairs arbitrary: k g)
  case Nil
  then show ?case by (auto intro!: exI [of _ "cap_resolution g"])
next
  case (Cons x pairs)
  have k: "k < length all_pairs" "all_pairs ! k = x" "drop (Suc k) all_pairs = pairs" using drop_Cons_nth [OF Cons.prems(1)] by simp_all
  define g1 where "g1 = g\<lparr>cap_resolution := (cap_resolution g)(resolution_slot base k := resolution_for workspace g x k)\<rparr>"
  have step: "publish_resolutions base workspace (x # pairs) k g = publish_resolutions base workspace pairs (Suc k) g1"
    by (cases x) (simp add: g1_def resolution_for_def)
  have same: "resolution_for workspace g1 = resolution_for workspace g" by (simp add: fun_eq_iff resolution_for_def g1_def)
  have "\<forall>j < Suc k. cap_resolution g1 (resolution_slot base j) = resolution_for workspace g1 (all_pairs ! j) j"
    unfolding same using Cons.prems(3) assms(1) k by (auto simp: g1_def less_Suc_eq)
  then obtain f where "\<forall>j < length all_pairs. cap_resolution (publish_resolutions base workspace (x # pairs) k g) (resolution_slot base j) =
      resolution_for workspace g (all_pairs ! j) j" "publish_resolutions base workspace (x # pairs) k g = g1\<lparr>cap_resolution := f\<rparr>"
    using Cons.IH [OF k(3), of g1] k(1) unfolding step same by auto
  then show ?case by (auto simp: g1_def)
qed

lemma publish_order_ok:
  assumes "\<forall>i < n. \<forall>j < n. index_slot base i = index_slot base j \<longleftrightarrow> i = j"
    and "\<forall>i < n. \<forall>j < n. index_slot base i \<noteq> order_slot workspace j" and "set is \<subseteq> {0..<n}"
  shows "(\<forall>i < n. cap_index (publish_order base workspace is g) (index_slot base i) =
      (if i \<in> set is then cap_index g (order_slot workspace i) else cap_index g (index_slot base i))) \<and>
    (\<exists>f. publish_order base workspace is g = g\<lparr>cap_index := f\<rparr>)"
  using assms(3)
proof (induction "is" arbitrary: g)
  case Nil
  then show ?case by (auto intro!: exI [of _ "cap_index g"])
next
  case (Cons i "is")
  define g1 where "g1 = set_index base i (cap_index g (order_slot workspace i)) g"
  have step: "publish_order base workspace (i # is) g = publish_order base workspace is g1" by (simp add: g1_def)
  have i: "i < n" "set is \<subseteq> {0..<n}" using Cons.prems by simp_all
  have reads: "cap_index g1 (order_slot workspace j) = cap_index g (order_slot workspace j)"
    "cap_index g1 (index_slot base j) = (if j = i then cap_index g (order_slot workspace i) else cap_index g (index_slot base j))"
    if "j < n" for j
    using assms(1) [rule_format, OF i(1) that] assms(2) [rule_format, OF i(1) that] by (auto simp: g1_def)
  obtain f where "\<forall>j < n. cap_index (publish_order base workspace is g1) (index_slot base j) =
      (if j \<in> set is then cap_index g1 (order_slot workspace j) else cap_index g1 (index_slot base j))"
    "publish_order base workspace is g1 = g1\<lparr>cap_index := f\<rparr>"
    using Cons.IH [OF i(2)] by blast
  then show ?case unfolding step using reads by (auto simp: g1_def)
qed

section \<open>A published catalog\<close>

definition catalog_for ::
    "addr \<Rightarrow> arbor_capability_catalog_requirements \<Rightarrow> arbor_capability_catalog_storage \<Rightarrow> arbor_capability_catalog" where
  "catalog_for modules counts storage =
     \<lparr>cat_abi_version = ARBOR_CAPABILITY_KERNEL_ABI_VERSION, cat_struct_size = ucast SIZEOF_CAP_CATALOG, cat_flags = 0,
      cat_modules = modules, cat_module_count = cnt_module_count counts, cat_bindings = sto_bindings storage,
      cat_binding_count = cnt_binding_count counts, cat_resolutions = sto_resolutions storage,
      cat_resolution_count = cnt_resolution_count counts, cat_module_order = sto_module_order storage\<rparr>"

text \<open>
  A heap \<open>h'\<close> holds, in the arrays of a catalog, the bindings and the resolutions of the modules of
  \<open>h\<close>, with the indices \<open>B\<close> of the bindings, and an order.
\<close>

definition catalog_holds ::
    "cap_heap \<Rightarrow> addr \<Rightarrow> arbor_capability_catalog_requirements \<Rightarrow> arbor_capability_catalog \<Rightarrow> (nat \<Rightarrow> u64) \<Rightarrow> nat list \<Rightarrow>
     cap_heap \<Rightarrow> bool" where
  "catalog_holds h modules counts catalog B order h' \<longleftrightarrow>
     (let n = unat (cnt_module_count counts); exported = export_pairs h modules n; required = requirement_pairs h modules n
      in same_inputs h h' \<and> cat_modules catalog = modules \<and> cat_module_count catalog = cnt_module_count counts \<and>
         cat_binding_count catalog = cnt_binding_count counts \<and> cat_resolution_count catalog = cnt_resolution_count counts \<and>
         (\<forall>j < length exported. cap_binding h' (binding_slot (cat_bindings catalog) j) = binding_for h modules (exported ! j)) \<and>
         (\<forall>k < length required. cap_resolution h' (resolution_slot (cat_resolutions catalog) k) =
            \<lparr>rsl_consumer_module_index = of_nat (fst (required ! k)), rsl_requirement_index = of_nat (snd (required ! k)),
             rsl_binding_index = B k\<rparr>) \<and>
         (\<forall>i < n. cap_index h' (index_slot (cat_module_order catalog) i) = of_nat (order ! i)))"

lemma publish_catalog_ok:
  assumes "prepare_checks h modules module_count storage_ptr workspace_ptr out = Inr counts"
    and "order_state h pairs P (unat module_count) (cap_workspace h workspace_ptr) order g" and "length order = unat module_count"
  defines "h' \<equiv> publish_catalog g modules counts (cap_storage h storage_ptr) (cap_workspace h workspace_ptr) out"
    and "catalog \<equiv> catalog_for modules counts (cap_storage h storage_ptr)"
  shows "catalog_holds h modules counts catalog (\<lambda>k. cap_index g (resolved_slot (cap_workspace h workspace_ptr) k)) order h'"
    and "cap_catalog h' out = catalog"
proof -
  let ?n = "unat module_count" and ?storage = "cap_storage h storage_ptr" and ?workspace = "cap_workspace h workspace_ptr"
  let ?exported = "export_pairs h modules ?n" and ?required = "requirement_pairs h modules ?n"
  note counts = counts_measure_ok [OF prepare_checks_ok(2) [OF assms(1)]] and apart = checked_arrays [OF assms(1)]
  have inputs: "same_inputs h g" using assms(2) by (simp add: order_state_def)
  define g1 where "g1 = publish_bindings modules (sto_bindings ?storage) ?exported 0 g"
  obtain f1 where g1: "\<forall>j < length ?exported. cap_binding g1 (binding_slot (sto_bindings ?storage) j) = binding_for h modules (?exported ! j)"
    "g1 = g\<lparr>cap_binding := f1\<rparr>"
    using publish_bindings_ok [of ?exported "sto_bindings ?storage" h g 0 ?exported modules] apart(3) inputs
    by (auto simp: g1_def records_apart_def)
  define g2 where "g2 = publish_resolutions (sto_resolutions ?storage) ?workspace ?required 0 g1"
  obtain f2 where g2: "\<forall>k < length ?required. cap_resolution g2 (resolution_slot (sto_resolutions ?storage) k) =
      resolution_for ?workspace g1 (?required ! k) k" "g2 = g1\<lparr>cap_resolution := f2\<rparr>"
    using publish_resolutions_ok [of ?required "sto_resolutions ?storage" 0 ?required g1 ?workspace] apart(3)
    by (auto simp: g2_def records_apart_def)
  define g3 where "g3 = publish_order (sto_module_order ?storage) ?workspace [0..<?n] g2"
  obtain f3 where g3: "\<forall>i < ?n. cap_index g3 (index_slot (sto_module_order ?storage) i) = cap_index g2 (order_slot ?workspace i)"
    "g3 = g2\<lparr>cap_index := f3\<rparr>"
    using publish_order_ok [of ?n "sto_module_order ?storage" ?workspace "[0..<?n]" g2] apart(1)
    by (auto simp: g3_def index_arrays_def)
  have whole: "publish_catalog g modules counts ?storage ?workspace out =
      g3\<lparr>cap_catalog := (cap_catalog g3)(out := catalog_for modules counts ?storage)\<rparr>"
    by (simp add: publish_catalog_def g1_def g2_def g3_def counts(1) same_reads [OF inputs] catalog_for_def Let_def)
  have "cap_index g3 (index_slot (sto_module_order ?storage) i) = of_nat (order ! i)" if "i < ?n" for i
    using g3(1) that assms(2,3) by (simp add: g2(2) g1(2) order_state_def)
  moreover have "same_inputs h g3" using inputs by (simp add: g3(2) g2(2) g1(2))
  moreover have "cap_binding g3 = cap_binding g1" "cap_resolution g3 = cap_resolution g2" by (simp_all add: g3(2) g2(2))
  moreover have "resolution_for ?workspace g1 = resolution_for ?workspace g" by (simp add: fun_eq_iff resolution_for_def g1(2))
  ultimately show "catalog_holds h modules counts catalog (\<lambda>k. cap_index g (resolved_slot (cap_workspace h workspace_ptr) k)) order h'"
    unfolding h'_def whole catalog_holds_def using g1(1) g2(1)
    by (simp add: counts(1) Let_def resolution_for_def catalog_def) (simp add: catalog_for_def counts(1))
  show "cap_catalog h' out = catalog" by (simp add: h'_def whole catalog_def)
qed

text \<open>A successful call publishes the resolutions it computed and the order of the graph.\<close>

lemma prepare_published:
  assumes "arbor_capability_catalog_prepare h modules module_count storage_ptr workspace_ptr out = (h', Inr ())"
  shows "\<exists>counts B order. prepare_checks h modules module_count storage_ptr workspace_ptr out = Inr counts \<and>
    catalog_holds h modules counts (catalog_for modules counts (cap_storage h storage_ptr)) B order h' \<and>
    cap_catalog h' out = catalog_for modules counts (cap_storage h storage_ptr) \<and>
    canonical_order (unat module_count) (providers h modules (unat module_count)) order \<and>
    (\<forall>k < length (requirement_pairs h modules (unat module_count)).
       resolve_requirement h modules (unat module_count) (requirement_of h modules (requirement_pairs h modules (unat module_count) ! k)) =
         Inr (provider_index h modules (unat module_count) k, B k))"
proof -
  let ?n = "unat module_count" and ?workspace = "cap_workspace h workspace_ptr"
  obtain counts where checks: "prepare_checks h modules module_count storage_ptr workspace_ptr out = Inr counts"
    using assms by (cases "prepare_checks h modules module_count storage_ptr workspace_ptr out") (simp_all add: arbor_capability_catalog_prepare_def)
  obtain h1 where resolve: "requirements_resolve h modules module_count ?workspace = (h1, Inr ())"
    using assms checks by (auto simp: arbor_capability_catalog_prepare_def Let_def split: prod.splits sum.splits)
  obtain h2 where built: "case extend_order ?n (providers h modules ?n) ?n [] of
       None \<Rightarrow> topological_order_build h1 modules module_count ?workspace = (h2, refuse ELOOP)
     | Some order \<Rightarrow> topological_order_build h1 modules module_count ?workspace = (h2, Inr ()) \<and>
         order_state h (requirement_pairs h modules ?n) (provider_index h modules ?n) ?n ?workspace order h2 \<and>
         resolved_upto h modules ?n ?workspace (length (requirement_pairs h modules ?n)) h2"
    using order_built [OF checks resolve] by blast
  then obtain order where order: "extend_order ?n (providers h modules ?n) ?n [] = Some order"
    "topological_order_build h1 modules module_count ?workspace = (h2, Inr ())"
    "order_state h (requirement_pairs h modules ?n) (provider_index h modules ?n) ?n ?workspace order h2"
    "resolved_upto h modules ?n ?workspace (length (requirement_pairs h modules ?n)) h2"
    using assms checks resolve by (auto simp: arbor_capability_catalog_prepare_def Let_def refuse_def split: option.splits)
  have canonical: "canonical_order ?n (providers h modules ?n) order" using extend_order_canonical [OF _ order(1)] by simp
  have "h' = publish_catalog h2 modules counts (cap_storage h storage_ptr) ?workspace out"
    using assms checks resolve order(2) by (simp add: arbor_capability_catalog_prepare_def Let_def)
  then show ?thesis
    using checks canonical publish_catalog_ok [OF checks order(3)] resolved_provider(4) [OF prepare_checks_ok(2) [OF checks] order(4)]
    by (auto simp: canonical_order_def)
qed

end
