(* ===== verification/Capability_Validate.thy ===== *)
theory Capability_Validate
  imports Capability_Publish
begin

text \<open>
  A published catalog passes every check of \<open>arbor_capability_catalog_validate\<close> of
  \<open>src/c/capability_kernel.c\<close>: the checks read back the bindings, the resolutions and the order that were
  stored, and compute the least ready module again at every position.
\<close>

section \<open>Checks of the descriptors\<close>

lemma same_checks:
  assumes "same_inputs h g"
  shows "module_shape_validate g = module_shape_validate h" "export_validate g = export_validate h"
    "requirement_validate g = requirement_validate h" "counts_measure g modules count = counts_measure h modules count"
    "descriptor_set_validate g modules count = descriptor_set_validate h modules count"
proof -
  note reads = same_reads [OF assms]
  show shape: "module_shape_validate g = module_shape_validate h" and exported: "export_validate g = export_validate h"
    and required: "requirement_validate g = requirement_validate h"
    using assms
    by (simp_all add: fun_eq_iff same_inputs_def module_shape_validate_def export_validate_def requirement_validate_def)
  have "counts_loop g modules is = counts_loop h modules is" for "is"
    by (induction "is"; intro ext) (simp_all add: shape reads)
  then show "counts_measure g modules count = counts_measure h modules count" by (simp add: counts_measure_def)
  have "requirement_set_validate g = requirement_set_validate h"
    by (intro ext) (simp add: requirement_set_validate_def required reads)
  then have "descriptor_validate g modules = descriptor_validate h modules"
    by (intro ext) (simp add: descriptor_validate_def shape exported reads)
  moreover have "export_unique g modules = export_unique h modules" by (intro ext) (simp add: export_unique_def reads cong: if_cong)
  ultimately show "descriptor_set_validate g modules count = descriptor_set_validate h modules count"
    by (simp add: descriptor_set_validate_def reads)
qed

lemma descriptor_set_parts:
  assumes "descriptor_set_validate h modules count = Inr ()"
  shows "(i, e) \<in> set (export_pairs h modules (unat count)) \<Longrightarrow> export_validate h (export_addr (module_at h modules i) e) = Inr ()"
    and "(i, r) \<in> set (requirement_pairs h modules (unat count)) \<Longrightarrow>
      requirement_validate h (requirement_addr (module_at h modules i) r) = Inr ()"
proof -
  have parts: "descriptor_validate h modules i = Inr ()" if "i < unat count" for i
    using assms that by (auto simp: descriptor_set_validate_def then_ok_Inr_iff each_ok_iff)
  show "export_validate h (export_addr (module_at h modules i) e) = Inr ()"
    if "(i, e) \<in> set (export_pairs h modules (unat count))"
    using parts [of i] that by (auto simp: descriptor_validate_def Let_def then_ok_Inr_iff each_ok_iff export_pairs_iff)
  show "requirement_validate h (requirement_addr (module_at h modules i) r) = Inr ()"
    if "(i, r) \<in> set (requirement_pairs h modules (unat count))"
    using parts [of i] that
    by (auto simp: descriptor_validate_def requirement_set_validate_def Let_def then_ok_Inr_iff each_ok_iff requirement_pairs_iff)
qed

lemma each_indexed_iff: "each_indexed step xs k = Inr () \<longleftrightarrow> (\<forall>j < length xs. step (xs ! j) (k + j) = Inr ())"
proof (induction xs arbitrary: k)
  case (Cons x xs)
  have "(\<forall>j < length (x # xs). step ((x # xs) ! j) (k + j) = Inr ()) \<longleftrightarrow>
      step x k = Inr () \<and> (\<forall>j < length xs. step (xs ! j) (Suc k + j) = Inr ())"
    by (auto simp: less_Suc_eq_0_disj nth_Cons split: nat.split)
  then show ?case using Cons.IH [of "Suc k"] by (simp add: then_ok_Inr_iff)
qed simp

section \<open>The order read back\<close>

lemma holds_fields:
  assumes "catalog_holds h modules counts catalog B order h'"
  shows "cat_modules catalog = modules" "cat_module_count catalog = cnt_module_count counts"
    "cat_binding_count catalog = cnt_binding_count counts" "cat_resolution_count catalog = cnt_resolution_count counts" "same_inputs h h'"
  using assms by (simp_all add: catalog_holds_def Let_def)

text \<open>An order that lists every module once.\<close>

definition order_complete :: "nat \<Rightarrow> nat list \<Rightarrow> bool" where
  "order_complete n order \<longleftrightarrow> length order = n \<and> distinct order \<and> set order \<subseteq> {0..<n}"

lemma canonical_complete: "canonical_order n G order \<Longrightarrow> order_complete n order"
  by (simp add: order_complete_def canonical_order_def)

lemma order_nth: "order_complete n order \<Longrightarrow> i < n \<Longrightarrow> order ! i < n"
  unfolding order_complete_def by (metis atLeastLessThan_iff nth_mem subsetD)

lemma published_order:
  assumes "catalog_holds h modules counts catalog B order h'" and "i < unat (cnt_module_count counts)"
  shows "order_at h' catalog i = of_nat (order ! i)"
  using assms by (simp add: catalog_holds_def Let_def order_at_def)

lemma small_index:
  fixes count :: u64
  assumes "i < unat count"
  shows "unat (of_nat i :: u64) = i" and "(of_nat i :: u64) < count"
proof -
  show same: "unat (of_nat i :: u64) = i" using assms unat_u64_upper [of count] by (intro unat_of_nat_u64) linarith
  then show "(of_nat i :: u64) < count" using assms by (simp add: word_less_nat_alt)
qed

lemma small_index_eq:
  fixes count count' :: u64
  assumes "i < unat count" and "j < unat count'"
  shows "(of_nat i :: u64) = of_nat j \<longleftrightarrow> i = j"
  using small_index(1) [OF assms(1)] small_index(1) [OF assms(2)] by metis

lemma published_position:
  assumes "catalog_holds h modules counts catalog B order h'" and "order_complete (unat (cnt_module_count counts)) order"
    and "i < unat (cnt_module_count counts)"
  shows "module_position h' catalog (of_nat (order ! i)) = Inr i"
proof -
  let ?n = "unat (cnt_module_count counts)"
  have same: "order_at h' catalog j = of_nat (order ! i) \<longleftrightarrow> j = i" if "j < ?n" for j
  proof -
    have "order ! j < ?n" "order ! i < ?n" "order ! j = order ! i \<longleftrightarrow> j = i"
      using assms(2,3) that order_nth [OF assms(2)] by (auto simp: order_complete_def nth_eq_iff_index_eq)
    then show ?thesis using published_order [OF assms(1) that] small_index_eq [of "order ! j" "cnt_module_count counts" "order ! i" "cnt_module_count counts"] by simp
  qed
  then have "find (\<lambda>j. order_at h' catalog j = of_nat (order ! i)) [0..<?n] = Some i"
    using assms(3) by (auto simp: find_Some_iff)
  then show ?thesis by (simp add: module_position_def holds_fields [OF assms(1)])
qed

lemma published_prefix:
  assumes "catalog_holds h modules counts catalog B order h'" and "order_complete (unat (cnt_module_count counts)) order"
    and "position \<le> unat (cnt_module_count counts)" and "p < unat (cnt_module_count counts)"
  shows "module_is_in_order_prefix h' catalog (of_nat p) position \<longleftrightarrow> p \<in> set (take position order)"
proof -
  have "order_at h' catalog i = of_nat p \<longleftrightarrow> order ! i = p" if "i < position" for i
  proof -
    have "i < unat (cnt_module_count counts)" "order ! i < unat (cnt_module_count counts)"
      using assms(2,3) that order_nth [OF assms(2), of i] by simp_all
    then show ?thesis using published_order [OF assms(1)] small_index_eq [of "order ! i" "cnt_module_count counts" p "cnt_module_count counts"] assms(4) by simp
  qed
  then show ?thesis using assms(2,3) by (auto simp: module_is_in_order_prefix_def in_set_conv_nth order_complete_def)
qed

section \<open>The bindings and the resolutions read back\<close>

lemma published_resolution:
  assumes "catalog_holds h modules counts catalog B order h'" and "counts_measure h modules module_count = Inr counts"
    and "k < length (requirement_pairs h modules (unat module_count))"
  shows "resolution_at h' catalog k =
    \<lparr>rsl_consumer_module_index = of_nat (fst (requirement_pairs h modules (unat module_count) ! k)),
     rsl_requirement_index = of_nat (snd (requirement_pairs h modules (unat module_count) ! k)), rsl_binding_index = B k\<rparr>"
  using assms(1,3) counts_measure_ok(1) [OF assms(2)] by (simp add: catalog_holds_def Let_def resolution_at_def)

lemma published_binding:
  assumes "catalog_holds h modules counts catalog B order h'" and "counts_measure h modules module_count = Inr counts"
    and "j < length (export_pairs h modules (unat module_count))"
  shows "binding_at h' catalog j = binding_for h modules (export_pairs h modules (unat module_count) ! j)"
  using assms(1,3) counts_measure_ok(1) [OF assms(2)] by (simp add: catalog_holds_def Let_def binding_at_def)

text \<open>The resolution of a requirement is found, and it is the one stored for it.\<close>

lemma published_resolution_found:
  assumes "catalog_holds h modules counts catalog B order h'" and "counts_measure h modules module_count = Inr counts"
    and "(c, r) \<in> set (requirement_pairs h modules (unat module_count))"
  shows "\<exists>k < length (requirement_pairs h modules (unat module_count)). requirement_pairs h modules (unat module_count) ! k = (c, r) \<and>
    find (\<lambda>i. rsl_consumer_module_index (resolution_at h' catalog i) = of_nat c \<and>
      rsl_requirement_index (resolution_at h' catalog i) = of_nat r)
      [0..<unat (cat_resolution_count catalog)] = Some k"
proof -
  let ?pairs = "requirement_pairs h modules (unat module_count)"
  let ?Q = "\<lambda>i. rsl_consumer_module_index (resolution_at h' catalog i) = of_nat c \<and>
    rsl_requirement_index (resolution_at h' catalog i) = of_nat r"
  have count: "unat (cat_resolution_count catalog) = length ?pairs"
    using counts_measure_ok(3) [OF assms(2)] by (simp add: holds_fields [OF assms(1)])
  have same: "?Q i \<longleftrightarrow> ?pairs ! i = (c, r)" if "i < length ?pairs" for i
  proof -
    obtain c' r' where pair: "?pairs ! i = (c', r')" by fastforce
    then have "(c', r') \<in> set ?pairs" using that nth_mem [of i ?pairs] by simp
    then have "c' < unat module_count" "r' < unat (mod_consumes_count (module_at h modules c'))"
      "c < unat module_count" "r < unat (mod_consumes_count (module_at h modules c))"
      using assms(3) by (simp_all add: requirement_pairs_iff)
    then have "(of_nat c' :: u64) = of_nat c \<longleftrightarrow> c' = c" "(of_nat r' :: u64) = of_nat r \<longleftrightarrow> r' = r" 
      using small_index_eq [of c' module_count c module_count]
        small_index_eq [of r' "mod_consumes_count (module_at h modules c')" r "mod_consumes_count (module_at h modules c)"] by simp_all
    then show ?thesis using published_resolution [OF assms(1,2) that] pair by simp
  qed
  obtain k0 where k0: "k0 < length ?pairs" "?pairs ! k0 = (c, r)" using assms(3) by (meson in_set_conv_nth)
  then have "k0 \<in> set [0..<length ?pairs]" "?Q k0" using same by simp_all
  then have "find ?Q [0..<length ?pairs] \<noteq> None" unfolding find_None_iff by blast
  then obtain k where k: "find ?Q [0..<length ?pairs] = Some k" by blast
  then have "k < length ?pairs" "?Q k" by (auto simp: find_Some_iff)
  then show ?thesis unfolding count using k same by blast
qed

section \<open>The least ready module again\<close>

text \<open>What the call computed for every requirement.\<close>

definition resolved_as :: "cap_heap \<Rightarrow> addr \<Rightarrow> nat \<Rightarrow> (nat \<Rightarrow> u64) \<Rightarrow> bool" where
  "resolved_as h modules n B \<longleftrightarrow>
     (\<forall>k < length (requirement_pairs h modules n).
        resolve_requirement h modules n (requirement_of h modules (requirement_pairs h modules n ! k)) =
          Inr (provider_index h modules n k, B k))"

lemma resolved_binding:
  assumes "counts_measure h modules module_count = Inr counts" and "resolved_as h modules (unat module_count) B"
    and "k < length (requirement_pairs h modules (unat module_count))"
  defines "exported \<equiv> export_pairs h modules (unat module_count)"
  shows "unat (B k) < length exported" and "B k < cnt_binding_count counts"
    and "fst (exported ! unat (B k)) = provider_index h modules (unat module_count) k"
    and "compatible h modules (requirement_of h modules (requirement_pairs h modules (unat module_count) ! k)) (exported ! unat (B k))"
    and "provider_index h modules (unat module_count) k < unat module_count"
proof -
  have "resolve_requirement h modules (unat module_count) (requirement_of h modules (requirement_pairs h modules (unat module_count) ! k)) =
      Inr (provider_index h modules (unat module_count) k, B k)" using assms(2,3) by (simp add: resolved_as_def)
  note ok = resolve_requirement_ok [OF assms(1) this, folded exported_def]
  show "unat (B k) < length exported" "fst (exported ! unat (B k)) = provider_index h modules (unat module_count) k"
    "compatible h modules (requirement_of h modules (requirement_pairs h modules (unat module_count) ! k)) (exported ! unat (B k))"
    using ok by simp_all
  show "B k < cnt_binding_count counts"
    using ok(2) counts_measure_ok(2) [OF assms(1)] by (simp add: word_less_nat_alt exported_def)
  show "provider_index h modules (unat module_count) k < unat module_count" using ok(1) by (rule provider_module_bound)
qed

lemma resolved_providers:
  assumes "counts_measure h modules module_count = Inr counts" and "resolved_as h modules (unat module_count) B"
    and "requirement_pairs h modules (unat module_count) ! k = (c, r)" and "k < length (requirement_pairs h modules (unat module_count))"
  shows "provider_module h modules (unat module_count) (requirement_of h modules (c, r)) = Some (provider_index h modules (unat module_count) k)"
proof -
  have "resolve_requirement h modules (unat module_count) (requirement_of h modules (c, r)) =
      Inr (provider_index h modules (unat module_count) k, B k)" using assms(2-4) by (auto simp: resolved_as_def)
  from resolve_requirement_ok(1) [OF assms(1) this] show ?thesis .
qed

lemma ready_loop_ok:
  assumes published: "catalog_holds h modules counts catalog B order h'"
    and counts: "counts_measure h modules module_count = Inr counts" and resolved: "resolved_as h modules (unat module_count) B"
    and complete: "order_complete (unat module_count) order" and "position \<le> unat module_count"
    and "\<forall>r \<in> set rs. (c, r) \<in> set (requirement_pairs h modules (unat module_count))"
  shows "ready_loop h' catalog c position rs =
    Inr (\<forall>r \<in> set rs. \<forall>p. provider_module h modules (unat module_count) (requirement_of h modules (c, r)) = Some p \<longrightarrow>
      p \<in> set (take position order))"
  using assms(6)
proof (induction rs)
  case (Cons r rs)
  let ?n = "unat module_count"
  have count: "cnt_module_count counts = module_count" using counts_measure_ok(1) [OF counts] .
  obtain k where k: "k < length (requirement_pairs h modules ?n)" "requirement_pairs h modules ?n ! k = (c, r)"
    "find (\<lambda>i. rsl_consumer_module_index (resolution_at h' catalog i) = of_nat c \<and>
      rsl_requirement_index (resolution_at h' catalog i) = of_nat r) [0..<unat (cat_resolution_count catalog)] = Some k"
    using published_resolution_found [OF published counts] Cons.prems by fastforce
  note binding = resolved_binding [OF counts resolved k(1)]
  let ?p = "provider_index h modules ?n k"
  have "rsl_binding_index (resolution_at h' catalog k) = B k" using published_resolution [OF published counts k(1)] by simp
  moreover have "bind_provider_module_index (binding_at h' catalog (unat (B k))) = of_nat ?p"
    using published_binding [OF published counts binding(1)] binding(3) by (simp add: binding_for_def binding_of_def)
  moreover have "(of_nat ?p :: u64) < cat_module_count catalog" "B k < cat_binding_count catalog"
    using small_index(2) [OF binding(5)] binding(2) count by (simp_all add: holds_fields [OF published])
  moreover have "module_is_in_order_prefix h' catalog (of_nat ?p) position \<longleftrightarrow> ?p \<in> set (take position order)"
    using published_prefix [OF published] complete assms(5) binding(5) count by simp
  moreover have "provider_module h modules ?n (requirement_of h modules (c, r)) = Some ?p"
    using resolved_providers [OF counts resolved k(2,1)] .
  ultimately show ?case
    using k(3) Cons.IH Cons.prems by (simp add: Let_def not_le [symmetric])
qed simp

lemma ready_at_position:
  assumes "catalog_holds h modules counts catalog B order h'"
    and "counts_measure h modules module_count = Inr counts" and "resolved_as h modules (unat module_count) B"
    and "order_complete (unat module_count) order" and "position \<le> unat module_count"
    and "c < unat module_count"
  shows "module_ready_at_position h' catalog c position =
    Inr (ready (providers h modules (unat module_count)) (take position order) c)"
proof -
  let ?n = "unat module_count" and ?rs = "requirements (module_at h modules c)"
  have count: "cnt_module_count counts = module_count" using counts_measure_ok(1) [OF assms(2)] .
  have inputs: "same_inputs h h'" using assms(1) by (simp add: catalog_holds_def Let_def)
  have "\<forall>r \<in> set ?rs. (c, r) \<in> set (requirement_pairs h modules ?n)" using assms(6) by (simp add: requirement_pairs_iff)
  from ready_loop_ok [OF assms(1-5) this]
  have "ready_loop h' catalog c position ?rs = Inr (ready (providers h modules ?n) (take position order) c)"
    unfolding ready_def providers_def subset_eq Ball_def set_map_filter by (simp del: set_upt) blast
  then show ?thesis
    using assms(5,6) count by (simp add: module_ready_at_position_def holds_fields [OF assms(1)] same_reads [OF inputs])
qed

lemma expected_search_ok:
  assumes "catalog_holds h modules counts catalog B order h'"
    and "counts_measure h modules module_count = Inr counts" and "resolved_as h modules (unat module_count) B"
    and "order_complete (unat module_count) order" and "position \<le> unat module_count"
    and "set cs \<subseteq> {0..<unat module_count}"
  shows "expected_search h' catalog position cs =
    Inr (find (\<lambda>c. c \<notin> set (take position order) \<and> ready (providers h modules (unat module_count)) (take position order) c) cs)"
  using assms(6)
proof (induction cs)
  case (Cons c cs)
  have count: "cnt_module_count counts = module_count" using counts_measure_ok(1) [OF assms(2)] .
  have c: "c < unat module_count" using Cons.prems by simp
  have "module_is_in_order_prefix h' catalog (of_nat c) position \<longleftrightarrow> c \<in> set (take position order)"
    using published_prefix [OF assms(1)] assms(4,5) c count by simp
  then show ?case using Cons.IH Cons.prems ready_at_position [OF assms(1-5) c] by simp
qed simp

section \<open>Every check passes\<close>

lemma storage_pointers:
  assumes "storage_validate h counts storage_ptr workspace_ptr = Inr ()"
  shows "cnt_module_count counts \<noteq> 0 \<Longrightarrow> sto_module_order (cap_storage h storage_ptr) \<noteq> 0"
    and "cnt_binding_count counts \<noteq> 0 \<Longrightarrow> sto_bindings (cap_storage h storage_ptr) \<noteq> 0"
    and "cnt_resolution_count counts \<noteq> 0 \<Longrightarrow> sto_resolutions (cap_storage h storage_ptr) \<noteq> 0"
  using assms by (auto simp: storage_validate_def refuse_def Let_def split: if_splits)

lemma holding_entries:
  assumes "catalog_holds h modules counts catalog B order h'" and "order_complete (unat (cnt_module_count counts)) order"
    and "i < unat (cnt_module_count counts)"
  shows "order_entry_validate h' catalog i = Inr ()"
proof -
  note at = published_order [OF assms(1)] and bound = order_nth [OF assms(2)]
  have "order_at h' catalog i \<noteq> order_at h' catalog j" if "j < i" for j
    using at [of i] at [of j] bound [of i] bound [of j] assms(2,3) that
      small_index_eq [of "order ! i" "cnt_module_count counts" "order ! j" "cnt_module_count counts"]
    by (auto simp: order_complete_def nth_eq_iff_index_eq)
  moreover have "order_at h' catalog i < cnt_module_count counts"
    using at [OF assms(3)] small_index(2) [OF bound [OF assms(3)]] by simp
  ultimately show ?thesis by (auto simp: order_entry_validate_def each_ok_iff holds_fields [OF assms(1)])
qed

lemma holding_binding:
  assumes "catalog_holds h modules counts catalog B order h'" and "counts_measure h modules module_count = Inr counts"
    and "descriptor_set_validate h modules module_count = Inr ()" and "j < length (export_pairs h modules (unat module_count))"
  shows "binding_validate h' catalog (export_pairs h modules (unat module_count) ! j) j = Inr ()"
proof -
  let ?x = "export_pairs h modules (unat module_count) ! j"
  note inputs = holds_fields(5) [OF assms(1)]
  have "export_validate h (export_addr (module_at h modules (fst ?x)) (snd ?x)) = Inr ()"
    using descriptor_set_parts(1) [OF assms(3), of "fst ?x" "snd ?x"] nth_mem [OF assms(4)] by simp
  then show ?thesis
    using published_binding [OF assms(1,2,4)]
    by (auto simp: binding_validate_def Let_def holds_fields [OF assms(1)] same_reads [OF inputs] same_checks [OF inputs]
        binding_for_def binding_of_def export_validate_def refuse_def capability_id_equal_def split: if_splits)
qed

lemma holding_resolution:
  assumes published: "catalog_holds h modules counts catalog B order h'" and counts: "counts_measure h modules module_count = Inr counts"
    and descriptors: "descriptor_set_validate h modules module_count = Inr ()"
    and resolved: "resolved_as h modules (unat module_count) B"
    and canonical: "canonical_order (unat module_count) (providers h modules (unat module_count)) order"
    and k: "k < length (requirement_pairs h modules (unat module_count))"
  shows "resolution_validate h' catalog (requirement_pairs h modules (unat module_count) ! k) k = Inr ()"
proof -
  let ?n = "unat module_count"
  let ?p = "provider_index h modules ?n k"
  note inputs = holds_fields(5) [OF published] and binding = resolved_binding [OF counts resolved k]
  obtain c r where pair: "requirement_pairs h modules ?n ! k = (c, r)" by fastforce
  have mem: "(c, r) \<in> set (requirement_pairs h modules ?n)" using nth_mem [OF k] pair by simp
  have "c \<in> set order" using mem canonical by (simp add: canonical_order_def requirement_pairs_iff)
  then obtain j where j: "j < ?n" "order ! j = c" using canonical by (auto simp: in_set_conv_nth canonical_order_def)
  have "?p \<in> set (providers h modules ?n c)"
    unfolding providers_def set_map_filter using resolved_providers [OF counts resolved pair k] mem
    by (auto simp: requirement_pairs_iff)
  then obtain i where i: "i < j" "order ! i = ?p" using cap.order_precedes [OF canonical j(1)] j(2) by blast
  have positions: "module_position h' catalog (of_nat ?p) = Inr i" "module_position h' catalog (of_nat c) = Inr j"
    using published_position [OF published, of j] published_position [OF published, of i] canonical_complete [OF canonical] i j
      counts_measure_ok(1) [OF counts] by auto
  have at: "binding_at h' catalog (unat (B k)) = binding_for h modules (export_pairs h modules ?n ! unat (B k))"
    using published_binding [OF published counts binding(1)] .
  show ?thesis
    using published_resolution [OF published counts k] descriptor_set_parts(2) [OF descriptors mem] positions i(1) at binding(2-4) pair
    by (auto simp: resolution_validate_def Let_def holds_fields [OF published] same_reads [OF inputs] same_checks [OF inputs]
        binding_for_def binding_of_def compatible_def requirement_of_def)
qed

lemma holding_order:
  assumes published: "catalog_holds h modules counts catalog B order h'" and counts: "counts_measure h modules module_count = Inr counts"
    and resolved: "resolved_as h modules (unat module_count) B"
    and canonical: "canonical_order (unat module_count) (providers h modules (unat module_count)) order"
  shows "canonical_module_order_validate h' catalog = Inr ()"
proof -
  let ?n = "unat module_count"
  note count = counts_measure_ok(1) [OF counts]
  have "expected_search h' catalog position [0..<?n] = Inr (Some (order ! position))"
    "order_at h' catalog position = of_nat (order ! position)" if "position < ?n" for position
    using expected_search_ok [OF published counts resolved canonical_complete [OF canonical], of position "[0..<?n]"] canonical that
      published_order [OF published] count
    by (simp_all add: canonical_order_def least_ready_def)
  then show ?thesis by (simp add: canonical_module_order_validate_def each_ok_iff holds_fields [OF published] count)
qed

lemma holding_catalog_validates:
  assumes "catalog_shape_validate h' out = Inr ()" and "counts_measure h modules module_count = Inr counts"
    and "descriptor_set_validate h modules module_count = Inr ()" and "catalog_holds h modules counts (cap_catalog h' out) B order h'"
    and "resolved_as h modules (unat module_count) B"
    and "canonical_order (unat module_count) (providers h modules (unat module_count)) order"
  shows "arbor_capability_catalog_validate h' out = Inr ()"
proof -
  note inputs = holds_fields(5) [OF assms(4)] and count = counts_measure_ok(1) [OF assms(2)]
  have "each_ok (order_entry_validate h' (cap_catalog h' out)) [0..<unat module_count] = Inr ()"
    using holding_entries [OF assms(4)] canonical_complete [OF assms(6)] by (simp add: each_ok_iff count)
  moreover have "each_indexed (binding_validate h' (cap_catalog h' out)) (export_pairs h modules (unat module_count)) 0 = Inr ()"
    using holding_binding [OF assms(4,2,3)] by (simp add: each_indexed_iff)
  moreover have "each_indexed (resolution_validate h' (cap_catalog h' out)) (requirement_pairs h modules (unat module_count)) 0 = Inr ()"
    using holding_resolution [OF assms(4,2,3,5,6)] by (simp add: each_indexed_iff)
  ultimately show ?thesis
    using assms(1-3) holding_order [OF assms(4,2,5,6)]
    by (simp add: arbor_capability_catalog_validate_def Let_def holds_fields [OF assms(4)] same_reads [OF inputs] same_checks [OF inputs] count)
qed

lemma prepared_catalog_validates:
  assumes "arbor_capability_catalog_prepare h modules module_count storage_ptr workspace_ptr out = (h', Inr ())"
  shows "arbor_capability_catalog_validate h' out = Inr ()"
proof -
  let ?n = "unat module_count" and ?storage = "cap_storage h storage_ptr"
  obtain counts B order where checks: "prepare_checks h modules module_count storage_ptr workspace_ptr out = Inr counts"
    and published: "catalog_holds h modules counts (catalog_for modules counts ?storage) B order h'"
    and catalog: "cap_catalog h' out = catalog_for modules counts ?storage"
    and canonical: "canonical_order ?n (providers h modules ?n) order" and resolved: "resolved_as h modules ?n B"
    using prepare_published [OF assms] by (auto simp: resolved_as_def)
  note ok = prepare_checks_ok [OF checks]
  have "modules \<noteq> 0" if "module_count \<noteq> 0" using ok(2) that by (auto simp: counts_measure_def refuse_def)
  then have "catalog_shape_validate h' out = Inr ()"
    using ok(1) storage_pointers [OF ok(3)] counts_measure_ok(1) [OF ok(2)]
    by (auto simp: catalog_shape_validate_def catalog catalog_for_def Let_def)
  then show ?thesis
    using holding_catalog_validates [OF _ ok(2,4) published [folded catalog] resolved canonical] by simp
qed

end
