(* ===== verification/Capability_Canonical.thy ===== *)
theory Capability_Canonical
  imports Capability_Validate
begin

text \<open>
  What the checks of \<open>arbor_capability_catalog_validate\<close> of \<open>src/c/capability_kernel.c\<close> give, for any
  catalog: identities of exports are unique, so the stored bindings and resolutions are those a call would compute,
  and the stored order is the canonical one.
\<close>

section \<open>Unique exports\<close>

lemma export_pairs_distinct: "distinct (export_pairs h modules n)"
proof (induction n)
  case (Suc n)
  have "export_pairs h modules (Suc n) = export_pairs h modules n @ map (Pair n) (exports (module_at h modules n))"
    by (simp add: export_pairs_def)
  moreover have "set (export_pairs h modules n) \<inter> set (map (Pair n) (exports (module_at h modules n))) = {}"
    by (auto simp: export_pairs_iff)
  ultimately show ?case using Suc.IH by (simp add: distinct_map inj_on_def)
qed (simp add: export_pairs_def)

abbreviation exported_id :: "cap_heap \<Rightarrow> addr \<Rightarrow> nat \<times> nat \<Rightarrow> arbor_capability_id" where
  "exported_id h modules x \<equiv> exp_id (export_at h (module_at h modules (fst x)) (snd x))"

lemma exports_unique:
  assumes "descriptor_set_validate h modules count = Inr ()"
    and "x \<in> set (export_pairs h modules (unat count))" and "y \<in> set (export_pairs h modules (unat count))"
    and "capability_id_equal (exported_id h modules x) (exported_id h modules y)"
  shows "x = y"
proof -
  have unique: "\<not> capability_id_equal (exported_id h modules (a, b)) (exported_id h modules (c, d))"
    if "a < unat count" "b < unat (mod_provides_count (module_at h modules a))" "d < unat (mod_provides_count (module_at h modules c))"
      "c < a \<or> (c = a \<and> d < b)" for a b c d
  proof -
    have "export_unique h modules a b = Inr ()"
      using assms(1) that(1,2) by (auto simp: descriptor_set_validate_def then_ok_Inr_iff each_ok_iff)
    moreover have "c \<in> set [0..<a + 1]" "d \<in> set [0..<(if c = a then b else unat (mod_provides_count (module_at h modules c)))]"
      using that by auto
    ultimately show ?thesis unfolding export_unique_def each_ok_iff by (fastforce simp: refuse_def split: if_splits)
  qed
  obtain a b c d where xy: "x = (a, b)" "y = (c, d)" by (metis surj_pair)
  have bounds: "a < unat count" "b < unat (mod_provides_count (module_at h modules a))"
    "c < unat count" "d < unat (mod_provides_count (module_at h modules c))"
    using assms(2,3) by (simp_all add: xy export_pairs_iff)
  have same: "capability_id_equal (exported_id h modules (a, b)) (exported_id h modules (c, d))"
    "capability_id_equal (exported_id h modules (c, d)) (exported_id h modules (a, b))"
    using assms(4) by (simp_all add: xy capability_id_equal_def)
  have "\<not> (c < a \<or> (c = a \<and> d < b))" using unique [OF bounds(1,2,4)] same(1) by blast
  moreover have "\<not> (a < c \<or> (a = c \<and> b < d))" using unique [OF bounds(3,4,2)] same(2) by blast
  ultimately show ?thesis by (auto simp: xy)
qed

text \<open>A requirement is resolved to the export that is compatible with it.\<close>

lemma resolve_unique:
  assumes counts: "counts_measure h modules module_count = Inr counts" and "descriptor_set_validate h modules module_count = Inr ()"
    and "unat b < length (export_pairs h modules (unat module_count))"
    and "compatible h modules required (export_pairs h modules (unat module_count) ! unat b)"
  shows "\<exists>p. resolve_requirement h modules (unat module_count) required = Inr (p, b)"
proof -
  let ?exported = "export_pairs h modules (unat module_count)"
  obtain p b' where resolved: "resolve_requirement h modules (unat module_count) required = Inr (p, b')"
    using resolve_requirement_cases [OF counts, of required] nth_mem [OF assms(3)] assms(4) by (auto split: if_splits)
  note ok = resolve_requirement_ok [OF counts resolved]
  have "capability_id_equal (exported_id h modules (?exported ! unat b')) (exported_id h modules (?exported ! unat b))"
    using ok(4) assms(4) by (simp add: compatible_def Let_def capability_id_equal_def)
  then have "?exported ! unat b' = ?exported ! unat b"
    using exports_unique [OF assms(2)] nth_mem [OF assms(3)] nth_mem [OF ok(2)] by blast
  then have "unat b' = unat b"
    using nth_eq_iff_index_eq [OF export_pairs_distinct ok(2) assms(3)] by blast
  then have "b' = b" by (simp add: word_unat_eq_iff)
  then show ?thesis using resolved by simp
qed

section \<open>A catalog that passes\<close>

definition stored_order :: "cap_heap \<Rightarrow> arbor_capability_catalog \<Rightarrow> nat list" where
  "stored_order h catalog = map (\<lambda>i. unat (order_at h catalog i)) [0..<unat (cat_module_count catalog)]"

lemma validated_parts:
  assumes "arbor_capability_catalog_validate h catalog_ptr = Inr ()"
  defines "catalog \<equiv> cap_catalog h catalog_ptr"
  shows "\<exists>counts. counts_measure h (cat_modules catalog) (cat_module_count catalog) = Inr counts \<and>
    cnt_binding_count counts = cat_binding_count catalog \<and> cnt_resolution_count counts = cat_resolution_count catalog"
    and "descriptor_set_validate h (cat_modules catalog) (cat_module_count catalog) = Inr ()"
    and "\<And>i. i < unat (cat_module_count catalog) \<Longrightarrow> order_entry_validate h catalog i = Inr ()"
    and "\<And>j. j < length (export_pairs h (cat_modules catalog) (unat (cat_module_count catalog))) \<Longrightarrow>
      binding_validate h catalog (export_pairs h (cat_modules catalog) (unat (cat_module_count catalog)) ! j) j = Inr ()"
    and "\<And>k. k < length (requirement_pairs h (cat_modules catalog) (unat (cat_module_count catalog))) \<Longrightarrow>
      resolution_validate h catalog (requirement_pairs h (cat_modules catalog) (unat (cat_module_count catalog)) ! k) k = Inr ()"
    and "canonical_module_order_validate h catalog = Inr ()" and "catalog_shape_validate h catalog_ptr = Inr ()"
  using assms(1)
  by (auto simp: arbor_capability_catalog_validate_def Let_def then_ok_Inr_iff each_ok_iff each_indexed_iff refuse_def
      catalog_def [symmetric] split: if_splits)

lemma validated_binding:
  assumes "binding_validate h catalog x j = Inr ()"
  shows "binding_at h catalog j = binding_for h (cat_modules catalog) x"
  using assms
  by (auto simp: binding_validate_def Let_def binding_for_def binding_of_def refuse_def capability_id_equal_def
      intro!: arbor_capability_binding.equality arbor_capability_id.equality arbor_capability_version.equality split: if_splits)

lemma validated_resolution:
  assumes "resolution_validate h catalog x k = Inr ()"
  shows "rsl_consumer_module_index (resolution_at h catalog k) = of_nat (fst x)"
    and "rsl_requirement_index (resolution_at h catalog k) = of_nat (snd x)"
    and "rsl_binding_index (resolution_at h catalog k) < cat_binding_count catalog"
    and "capability_id_equal (bind_id (binding_at h catalog (unat (rsl_binding_index (resolution_at h catalog k)))))
      (rqm_id (requirement_of h (cat_modules catalog) x))"
    and "version_satisfies (bind_version (binding_at h catalog (unat (rsl_binding_index (resolution_at h catalog k)))))
      (rqm_minimum_version (requirement_of h (cat_modules catalog) x))"
    and "rqm_minimum_interface_size (requirement_of h (cat_modules catalog) x) \<le>
      bind_interface_size (binding_at h catalog (unat (rsl_binding_index (resolution_at h catalog k))))"
  using assms
  by (auto simp: resolution_validate_def Let_def refuse_def requirement_of_def not_le not_less split: if_splits)

text \<open>The stored catalog is the one a call computes, and its order is canonical.\<close>

lemma validated_catalog:
  assumes valid: "arbor_capability_catalog_validate h catalog_ptr = Inr ()"
  defines "catalog \<equiv> cap_catalog h catalog_ptr"
  defines "modules \<equiv> cat_modules catalog" and "n \<equiv> unat (cat_module_count catalog)"
    and "B \<equiv> \<lambda>k. rsl_binding_index (resolution_at h catalog k)"
  shows "\<exists>counts. counts_measure h modules (cat_module_count catalog) = Inr counts \<and>
      catalog_holds h modules counts catalog B (stored_order h catalog) h"
    and "resolved_as h modules n B" and "canonical_order n (providers h modules n) (stored_order h catalog)"
proof -
  note parts = validated_parts [OF valid, folded catalog_def, folded modules_def n_def]
  obtain counts where counts: "counts_measure h modules (cat_module_count catalog) = Inr counts"
    "cnt_binding_count counts = cat_binding_count catalog" "cnt_resolution_count counts = cat_resolution_count catalog"
    using parts(1) by blast
  note measured = counts_measure_ok [OF counts(1), folded n_def]
  let ?exported = "export_pairs h modules n" and ?required = "requirement_pairs h modules n"
  have binding: "binding_at h catalog j = binding_for h modules (?exported ! j)" if "j < length ?exported" for j
    using validated_binding [OF parts(4) [OF that]] by (simp add: modules_def)
  have resolution: "resolution_at h catalog k =
      \<lparr>rsl_consumer_module_index = of_nat (fst (?required ! k)), rsl_requirement_index = of_nat (snd (?required ! k)), rsl_binding_index = B k\<rparr>"
    if "k < length ?required" for k
    using validated_resolution(1,2) [OF parts(5) [OF that]] by (simp add: B_def)
  have holds: "catalog_holds h modules counts catalog B (stored_order h catalog) h"
    using binding resolution counts(2,3) measured(1)
    by (simp add: catalog_holds_def Let_def modules_def n_def binding_at_def resolution_at_def stored_order_def order_at_def)
  then show "\<exists>counts. counts_measure h modules (cat_module_count catalog) = Inr counts \<and>
      catalog_holds h modules counts catalog B (stored_order h catalog) h" using counts(1) by blast
  show resolved: "resolved_as h modules n B"
    unfolding resolved_as_def
  proof (intro allI impI)
    fix k assume k: "k < length ?required"
    note checked = validated_resolution [OF parts(5) [OF k], folded B_def modules_def]
    have B: "unat (B k) < length ?exported" using checked(3) measured(2) counts(2) by (simp add: word_less_nat_alt B_def)
    have at: "binding_at h catalog (unat (rsl_binding_index (resolution_at h catalog k))) = binding_for h modules (?exported ! unat (B k))"
      using binding [OF B] by (simp add: B_def)
    have "compatible h modules (requirement_of h modules (?required ! k)) (?exported ! unat (B k))"
      using checked(4-6) unfolding at by (simp add: compatible_def Let_def binding_for_def binding_of_def)
    then obtain p where p: "resolve_requirement h modules n (requirement_of h modules (?required ! k)) = Inr (p, B k)"
      using resolve_unique [OF counts(1) parts(2), folded n_def, OF B] by blast
    moreover have "provider_index h modules n k = p"
      using resolve_requirement_ok(1) [OF counts(1), folded n_def, OF p] by (simp add: provider_index_def)
    ultimately show "resolve_requirement h modules n (requirement_of h modules (?required ! k)) = Inr (provider_index h modules n k, B k)"
      by simp
  qed
  have entry: "order_at h catalog i < cat_module_count catalog" "\<And>j. j < i \<Longrightarrow> order_at h catalog i \<noteq> order_at h catalog j" if "i < n" for i
    using parts(3) [OF that] by (auto simp: order_entry_validate_def each_ok_iff refuse_def split: if_splits)
  have complete: "order_complete n (stored_order h catalog)"
  proof -
    have "i = j" if "i < n" "j < n" "unat (order_at h catalog i) = unat (order_at h catalog j)" for i j
      using entry(2) that by (metis nat_neq_iff word_unat_eq_iff)
    then have "distinct (stored_order h catalog)" by (auto simp: stored_order_def distinct_map inj_on_def n_def)
    then show ?thesis using entry(1) by (auto simp: order_complete_def stored_order_def n_def word_less_nat_alt)
  qed
  have "least_ready n (providers h modules n) (take position (stored_order h catalog)) = Some (stored_order h catalog ! position)"
    if "position < n" for position
  proof -
    have "expected_search h catalog position [0..<n] =
        Inr (least_ready n (providers h modules n) (take position (stored_order h catalog)))"
      using expected_search_ok [OF holds counts(1) resolved [unfolded n_def] complete [unfolded n_def], of position "[0..<n]"] that
      by (simp add: n_def least_ready_def)
    then have "\<exists>c. least_ready n (providers h modules n) (take position (stored_order h catalog)) = Some c \<and>
        order_at h catalog position = of_nat c"
      using parts(6) [unfolded canonical_module_order_validate_def each_ok_iff, folded n_def, THEN bspec, of position] that
      by (auto simp: then_ok_Inr_iff refuse_def split: option.splits if_splits)
    then obtain c where c: "least_ready n (providers h modules n) (take position (stored_order h catalog)) = Some c"
      "order_at h catalog position = of_nat c" by blast
    have "unat (of_nat c :: u64) = c" using least_ready_Some(1) [OF c(1)] small_index(1) by (simp add: n_def)
    then show ?thesis using c that by (simp add: stored_order_def n_def)
  qed
  then show "canonical_order n (providers h modules n) (stored_order h catalog)"
    using complete canonical_order_iff by (simp add: order_complete_def partial_order_ok_def)
qed

end
