(* ===== verification/Capability_Memory.thy ===== *)
theory Capability_Memory
  imports Capability_Canonical Byte_Ranges
begin

text \<open>
  The bytes that a call of \<open>arbor_capability_catalog_prepare\<close> of \<open>src/c/capability_kernel.c\<close> reads and writes. Objects
  of different types are in stores of their own in the model, so that the checks of the code keep the descriptors and
  the records whole is stated here for the memory the objects occupy.
\<close>

section \<open>Inputs, outputs and changes as bytes\<close>

text \<open>What a module points to: its exports, its requirements, and the interface table of every export.\<close>

definition module_objects :: "cap_heap \<Rightarrow> arbor_module_descriptor \<Rightarrow> (addr \<times> nat) list" where
  "module_objects h m =
     [(mod_provides m, unat (mod_provides_count m) * unat SIZEOF_CAP_EXPORT),
      (mod_consumes m, unat (mod_consumes_count m) * unat SIZEOF_CAP_REQUIREMENT)] @
     map (\<lambda>e. (exp_interface_table (export_at h m e), unat (exp_interface_size (export_at h m e)))) (exports m)"

definition catalog_inputs :: "cap_heap \<Rightarrow> addr \<Rightarrow> nat \<Rightarrow> addr \<Rightarrow> addr \<Rightarrow> (addr \<times> nat) list" where
  "catalog_inputs h modules n storage_ptr workspace_ptr =
     [(storage_ptr, unat SIZEOF_CAP_STORAGE), (workspace_ptr, unat SIZEOF_CAP_WORKSPACE), (modules, n * unat SIZEOF_CAP_MODULE)] @
     concat (map (\<lambda>i. module_objects h (module_at h modules i)) [0..<n])"

definition storage_objects :: "cap_heap \<Rightarrow> addr \<Rightarrow> nat \<Rightarrow> arbor_capability_catalog_storage \<Rightarrow> (addr \<times> nat) list" where
  "storage_objects h modules n storage =
     [(sto_bindings storage, length (export_pairs h modules n) * unat SIZEOF_CAP_BINDING),
      (sto_resolutions storage, length (requirement_pairs h modules n) * unat SIZEOF_CAP_RESOLUTION),
      (sto_module_order storage, n * unat SIZEOF_CAP_INDEX)]"

definition workspace_objects :: "cap_heap \<Rightarrow> addr \<Rightarrow> nat \<Rightarrow> arbor_capability_workspace \<Rightarrow> (addr \<times> nat) list" where
  "workspace_objects h modules n workspace =
     [(wsp_resolved_provider_module_indices workspace, length (requirement_pairs h modules n) * unat SIZEOF_CAP_INDEX),
      (wsp_resolved_binding_indices workspace, length (requirement_pairs h modules n) * unat SIZEOF_CAP_INDEX),
      (wsp_indegree workspace, n * unat SIZEOF_CAP_INDEX), (wsp_selected workspace, n * unat SIZEOF_CAP_FLAG),
      (wsp_module_order workspace, n * unat SIZEOF_CAP_INDEX)]"

text \<open>The bytes of every object that differs in two heaps, whatever its type.\<close>

definition catalog_changes :: "cap_heap \<Rightarrow> cap_heap \<Rightarrow> nat set" where
  "catalog_changes h h' =
     changed_slots (cap_module h) (cap_module h') (unat SIZEOF_CAP_MODULE) \<union>
     changed_slots (cap_export h) (cap_export h') (unat SIZEOF_CAP_EXPORT) \<union>
     changed_slots (cap_requirement h) (cap_requirement h') (unat SIZEOF_CAP_REQUIREMENT) \<union>
     changed_slots (cap_binding h) (cap_binding h') (unat SIZEOF_CAP_BINDING) \<union>
     changed_slots (cap_resolution h) (cap_resolution h') (unat SIZEOF_CAP_RESOLUTION) \<union>
     changed_slots (cap_storage h) (cap_storage h') (unat SIZEOF_CAP_STORAGE) \<union>
     changed_slots (cap_workspace h) (cap_workspace h') (unat SIZEOF_CAP_WORKSPACE) \<union>
     changed_slots (cap_catalog h) (cap_catalog h') (unat SIZEOF_CAP_CATALOG) \<union>
     changed_slots (cap_index h) (cap_index h') (unat SIZEOF_CAP_INDEX) \<union>
     changed_slots (cap_flag h) (cap_flag h') (unat SIZEOF_CAP_FLAG)"

section \<open>Regions as bytes\<close>

abbreviation region_object :: "addr \<times> u64 \<times> u64 \<Rightarrow> addr \<times> nat" where
  "region_object x \<equiv> (fst x, unat (fst (snd x)) * unat (snd (snd x)))"

lemma unat_widened: "unat (ucast w :: u64) = unat w" for w :: u32
proof -
  have "unat w < 4294967296" using unsigned_less [of w] by simp
  then show ?thesis by (simp add: unsigned_ucast_eq take_bit_nat_eq_self)
qed

lemma accepted_regions_apart:
  assumes "array_region p count width = Inr r" and "array_region q other_count other_width = Inr t" and "reject_overlap r t = Inr ()"
  shows "bytes_from p (unat count * unat width) \<inter> bytes_from q (unat other_count * unat other_width) = {}"
proof (cases "unat count * unat width = 0 \<or> unat other_count * unat other_width = 0")
  case False
  then have counts: "count \<noteq> 0" "other_count \<noteq> 0" by auto
  note r = array_region_ok [OF assms(1)] and t = array_region_ok [OF assms(2)]
  have "unat (mem_byte_length r) \<noteq> 0 \<and> unat (mem_byte_length t) \<noteq> 0" using False by (simp only: r(3) t(3) de_Morgan_disj simp_thms)
  then have "mem_byte_length r \<noteq> 0" "mem_byte_length t \<noteq> 0" by auto
  then have "\<not> (p < q + mem_byte_length t \<and> q < p + mem_byte_length r)"
    using assms(3) r(4) t(4) counts
    by (auto simp: reject_overlap_def memory_regions_overlap_def range_overlaps_def refuse_def Let_def then_ok_Inr_iff
        split: if_splits)
  moreover have "unat (p + mem_byte_length r) = unat p + unat count * unat width"
    "unat (q + mem_byte_length t) = unat q + unat other_count * unat other_width"
    using r t counts unfolding array_ok_def by (auto simp: unat_add_u64)
  ultimately show ?thesis unfolding bytes_from_disjoint by (auto simp: word_less_nat_alt)
qed auto

lemma regions_apart_nth:
  "(\<And>i j. j < i \<Longrightarrow> i < length xs \<Longrightarrow> bytes_from (fst (xs ! i)) (snd (xs ! i)) \<inter> bytes_from (fst (xs ! j)) (snd (xs ! j)) = {}) \<Longrightarrow>
    regions_apart xs"
proof (induction xs)
  case (Cons x xs)
  obtain p n where x: "x = (p, n)" by (cases x)
  have "bytes_from p n \<inter> bytes_from (fst (xs ! i)) (snd (xs ! i)) = {}" if "i < length xs" for i
    using Cons.prems [of 0 "Suc i"] that x by auto
  then have "list_all (\<lambda>(q, k). bytes_from p n \<inter> bytes_from q k = {}) xs"
    by (simp add: list_all_length split_beta)
  moreover have "regions_apart xs" using Cons.prems [of "Suc _" "Suc _"] by (intro Cons.IH) simp
  ultimately show ?case by (simp add: x)
qed simp

lemma region_bytes_subset: "(p, n) \<in> set regions \<Longrightarrow> bytes_from p n \<subseteq> region_bytes regions"
  by (auto simp: region_bytes_def)

lemma region_bytes_append [simp]:
  "region_bytes [] = {}" "region_bytes (xs @ ys) = region_bytes xs \<union> region_bytes ys"
  "region_bytes ((p, n) # xs) = bytes_from p n \<union> region_bytes xs"
  by (auto simp: region_bytes_def)

lemma list_all_apart: "list_all (\<lambda>(q, k). A \<inter> bytes_from q k = {}) ys \<longleftrightarrow> A \<inter> region_bytes ys = {}"
  by (simp add: region_bytes_disjoint list_all_iff split_beta) fastforce

lemma regions_apart_append:
  "regions_apart (xs @ ys) \<longleftrightarrow> regions_apart xs \<and> regions_apart ys \<and> region_bytes xs \<inter> region_bytes ys = {}"
proof (induction xs)
  case (Cons x xs)
  obtain p n where "x = (p, n)" by (cases x)
  then show ?case using Cons.IH by (simp add: list_all_apart Int_Un_distrib Int_Un_distrib2) blast
qed simp

section \<open>What the checks give\<close>

lemma publication_regions_bytes:
  assumes "publication_regions_validate h modules module_count counts storage_ptr workspace_ptr out = Inr ()"
  defines "written \<equiv> map region_object (written_arrays counts (cap_storage h storage_ptr) (cap_workspace h workspace_ptr) out)"
  shows "regions_apart written"
    and "region_bytes written \<inter> region_bytes (catalog_inputs h modules (unat module_count) storage_ptr workspace_ptr) = {}"
proof -
  let ?arrays = "written_arrays counts (cap_storage h storage_ptr) (cap_workspace h workspace_ptr) out"
  let ?controls = "[(storage_ptr, 1, SIZEOF_CAP_STORAGE), (workspace_ptr, 1, SIZEOF_CAP_WORKSPACE), (modules, module_count, SIZEOF_CAP_MODULE)]"
  obtain rs cs where rs: "array_regions ?arrays = Inr rs" and cs: "array_regions ?controls = Inr cs"
    and pairs: "each_ok (\<lambda>i. each_ok (\<lambda>j. reject_overlap (rs ! i) (rs ! j)) [0..<i]) [0..<length rs] = Inr ()"
    and controls: "each_ok (\<lambda>write. each_ok (reject_overlap write) cs) rs = Inr ()"
    and parts: "each_ok (\<lambda>i. reject_module_overlaps h (module_at h modules i) rs) [0..<unat module_count] = Inr ()"
    using assms(1) by (auto simp: publication_regions_validate_def then_ok_Inr_iff)
  note regions = array_regions_nth [OF rs]
  show "regions_apart written"
    unfolding written_def
  proof (rule regions_apart_nth)
    fix i j assume less: "j < i" "i < length (map region_object ?arrays)"
    then have "reject_overlap (rs ! i) (rs ! j) = Inr ()" using pairs regions(1) by (simp add: each_ok_iff)
    then show "bytes_from (fst (map region_object ?arrays ! i)) (snd (map region_object ?arrays ! i)) \<inter>
        bytes_from (fst (map region_object ?arrays ! j)) (snd (map region_object ?arrays ! j)) = {}"
      using accepted_regions_apart [OF regions(2) regions(2)] less by simp
  qed
  have clear: "region_bytes written \<inter> bytes_from q (unat count * unat width) = {}"
    if region: "array_region q count width = Inr t" and accepted: "\<And>r. r \<in> set rs \<Longrightarrow> reject_overlap r t = Inr ()" for q count width t
  proof -
    have "bytes_from (fst x) (unat (fst (snd x)) * unat (snd (snd x))) \<inter> bytes_from q (unat count * unat width) = {}"
      if x: "x \<in> set ?arrays" for x
    proof -
      obtain k where "k < length ?arrays" "x = ?arrays ! k" using x by (metis in_set_conv_nth)
      then show ?thesis
        using accepted_regions_apart [OF regions(2) region] accepted [of "rs ! k"] regions(1) by auto
    qed
    then show ?thesis by (auto simp: written_def region_bytes_def)
  qed
  have records: "region_bytes written \<inter> bytes_from (fst x) (unat (fst (snd x)) * unat (snd (snd x))) = {}" if x: "x \<in> set ?controls" for x
  proof -
    obtain k where "k < length ?controls" "x = ?controls ! k" using x by (metis in_set_conv_nth)
    then show ?thesis
      using clear [OF array_regions_nth(2) [OF cs]] controls array_regions_nth(1) [OF cs] by (auto simp: each_ok_iff)
  qed
  have owned: "region_bytes written \<inter> bytes_from q k = {}"
    if i: "i < unat module_count" and listed: "(q, k) \<in> set (module_objects h (module_at h modules i))" for i q k
  proof -
    let ?m = "module_at h modules i"
    have "reject_module_overlaps h ?m rs = Inr ()" using parts i by (simp add: each_ok_iff)
    then obtain provides consumes where
      arrays: "array_region (mod_provides ?m) (mod_provides_count ?m) SIZEOF_CAP_EXPORT = Inr provides"
        "array_region (mod_consumes ?m) (mod_consumes_count ?m) SIZEOF_CAP_REQUIREMENT = Inr consumes"
      and checked: "\<And>r. r \<in> set rs \<Longrightarrow> reject_overlap r provides = Inr () \<and> reject_overlap r consumes = Inr ()"
      and tables: "\<And>e. e < unat (mod_provides_count ?m) \<Longrightarrow>
        \<exists>t. array_region (exp_interface_table (export_at h ?m e)) (ucast (exp_interface_size (export_at h ?m e))) 1 = Inr t \<and>
          (\<forall>r \<in> set rs. reject_overlap r t = Inr ())"
      by (auto simp: reject_module_overlaps_def each_ok_iff then_ok_Inr_iff)
    consider "(q, k) = (mod_provides ?m, unat (mod_provides_count ?m) * unat SIZEOF_CAP_EXPORT)"
      | "(q, k) = (mod_consumes ?m, unat (mod_consumes_count ?m) * unat SIZEOF_CAP_REQUIREMENT)"
      | e where "e < unat (mod_provides_count ?m)"
        "(q, k) = (exp_interface_table (export_at h ?m e), unat (exp_interface_size (export_at h ?m e)))"
      using listed by (auto simp: module_objects_def)
    then show ?thesis
    proof cases
      case (3 e)
      obtain t where "array_region (exp_interface_table (export_at h ?m e)) (ucast (exp_interface_size (export_at h ?m e))) 1 = Inr t"
        "\<And>r. r \<in> set rs \<Longrightarrow> reject_overlap r t = Inr ()"
        using tables [OF 3(1)] by blast
      from clear [OF this] show ?thesis using 3(2) by (simp add: unat_widened)
    qed (use clear [OF arrays(1)] clear [OF arrays(2)] checked in simp_all)
  qed
  have "region_bytes written \<inter> bytes_from q k = {}"
    if listed: "(q, k) \<in> set (catalog_inputs h modules (unat module_count) storage_ptr workspace_ptr)" for q k
  proof -
    have "(q, k) \<in> set (map region_object ?controls) \<or>
        (\<exists>i < unat module_count. (q, k) \<in> set (module_objects h (module_at h modules i)))"
      using listed by (auto simp: catalog_inputs_def)
    then show ?thesis
    proof
      assume "(q, k) \<in> set (map region_object ?controls)"
      then obtain x where "x \<in> set ?controls" "(q, k) = region_object x" unfolding set_map by blast
      then show ?thesis using records [of x] by simp
    qed (use owned in blast)
  qed
  then show "region_bytes written \<inter> region_bytes (catalog_inputs h modules (unat module_count) storage_ptr workspace_ptr) = {}"
    by (simp only: region_bytes_disjoint) blast
qed

section \<open>What the loops write\<close>

lemma requirements_loop_flags: "cap_flag (fst (requirements_loop modules n workspace c rs k g)) = cap_flag g"
  by (induction rs arbitrary: k g) (auto split: sum.split)

lemma consumers_loop_flags:
  "a \<notin> selected_slot workspace ` set cs \<Longrightarrow> cap_flag (fst (consumers_loop modules n workspace cs k g)) a = cap_flag g a"
proof (induction cs arbitrary: k g)
  case (Cons c cs)
  let ?started = "set_flag (wsp_selected workspace) c 0 (set_index (wsp_indegree workspace) c (mod_consumes_count (module_at g modules c)) g)"
  have "cap_flag (fst (requirements_loop modules n workspace c (requirements (module_at g modules c)) k ?started)) a = cap_flag g a"
    using Cons.prems by (simp add: requirements_loop_flags)
  then show ?case using Cons by (auto simp: Let_def split: prod.splits sum.splits)
qed simp

lemma release_loop_flags: "cap_flag (fst (release_loop workspace s c rs k g)) = cap_flag g"
  by (induction rs arbitrary: k g) (auto simp: Let_def)

lemma release_consumers_flags: "cap_flag (fst (release_consumers modules workspace s cs k g)) = cap_flag g"
proof (induction cs arbitrary: k g)
  case (Cons c cs)
  then show ?case
    using release_loop_flags [of workspace s c "requirements (module_at g modules c)" k g] by (auto split: prod.split sum.split)
qed simp

lemma order_loop_flags:
  "a \<notin> selected_slot workspace ` {0..<n} \<Longrightarrow> cap_flag (fst (order_loop modules n workspace is g)) a = cap_flag g a"
proof (induction "is" arbitrary: g)
  case (Cons i "is")
  show ?case
  proof (cases "candidate_search g n workspace")
    case (Some s)
    let ?marked = "set_index (wsp_module_order workspace) i (of_nat s) (set_flag (wsp_selected workspace) s 1 g)"
    have "s < n" using Some by (auto simp: candidate_search_def find_Some_iff)
    then have "cap_flag (fst (release_consumers modules workspace s [0..<n] 0 ?marked)) a = cap_flag g a"
      using Cons.prems by (auto simp: release_consumers_flags)
    then show ?thesis using Some Cons by (auto simp: Let_def split: prod.splits sum.splits)
  qed simp
qed simp

lemma publish_bindings_frame:
  "\<exists>f. publish_bindings modules base pairs k g = g\<lparr>cap_binding := f\<rparr> \<and>
    (\<forall>a. a \<notin> binding_slot base ` {k..<k + length pairs} \<longrightarrow> f a = cap_binding g a)"
proof (induction pairs arbitrary: k g)
  case Nil
  then show ?case by (intro exI [of _ "cap_binding g"]) simp
next
  case (Cons x pairs)
  obtain i e where x: "x = (i, e)" by (cases x)
  let ?g = "g\<lparr>cap_binding := (cap_binding g)(binding_slot base k := binding_of (export_at g (module_at g modules i) e) i)\<rparr>"
  obtain f where f: "publish_bindings modules base pairs (Suc k) ?g = ?g\<lparr>cap_binding := f\<rparr>"
    "\<And>a. a \<notin> binding_slot base ` {Suc k..<Suc k + length pairs} \<Longrightarrow> f a = cap_binding ?g a"
    using Cons.IH by blast
  have "f a = cap_binding g a" if "a \<notin> binding_slot base ` {k..<k + length (x # pairs)}" for a
  proof -
    have "a \<noteq> binding_slot base k" "a \<notin> binding_slot base ` {Suc k..<Suc k + length pairs}" using that by auto
    then show ?thesis using f(2) by simp
  qed
  then show ?case using f(1) by (intro exI [of _ f]) (simp add: x)
qed

lemma publish_resolutions_frame:
  "\<exists>f. publish_resolutions base workspace pairs k g = g\<lparr>cap_resolution := f\<rparr> \<and>
    (\<forall>a. a \<notin> resolution_slot base ` {k..<k + length pairs} \<longrightarrow> f a = cap_resolution g a)"
proof (induction pairs arbitrary: k g)
  case Nil
  then show ?case by (intro exI [of _ "cap_resolution g"]) simp
next
  case (Cons x pairs)
  let ?g = "g\<lparr>cap_resolution := (cap_resolution g)(resolution_slot base k := resolution_for workspace g x k)\<rparr>"
  obtain f where f: "publish_resolutions base workspace pairs (Suc k) ?g = ?g\<lparr>cap_resolution := f\<rparr>"
    "\<And>a. a \<notin> resolution_slot base ` {Suc k..<Suc k + length pairs} \<Longrightarrow> f a = cap_resolution ?g a"
    using Cons.IH by blast
  have "f a = cap_resolution g a" if "a \<notin> resolution_slot base ` {k..<k + length (x # pairs)}" for a
  proof -
    have "a \<noteq> resolution_slot base k" "a \<notin> resolution_slot base ` {Suc k..<Suc k + length pairs}" using that by auto
    then show ?thesis using f(2) by simp
  qed
  then show ?case using f(1) by (intro exI [of _ f]) (cases x; simp add: resolution_for_def)
qed

lemma publish_order_frame:
  "\<exists>f. publish_order base workspace is g = g\<lparr>cap_index := f\<rparr> \<and>
    (\<forall>a. a \<notin> index_slot base ` set is \<longrightarrow> f a = cap_index g a)"
proof (induction "is" arbitrary: g)
  case Nil
  then show ?case by (intro exI [of _ "cap_index g"]) simp
next
  case (Cons i "is")
  let ?g = "set_index base i (cap_index g (order_slot workspace i)) g"
  obtain f where "publish_order base workspace is ?g = ?g\<lparr>cap_index := f\<rparr>"
    "\<And>a. a \<notin> index_slot base ` set is \<Longrightarrow> f a = cap_index ?g a"
    using Cons.IH by blast
  then show ?case by (intro exI [of _ f]) simp
qed

section \<open>The bytes that change\<close>

lemma changed_slots_member: "g a \<noteq> f a \<Longrightarrow> bytes_from a n \<subseteq> changed_slots f g n"
  by (auto simp: changed_slots_def)

lemma changed_slots_trans:
  assumes "changed_slots f g n \<subseteq> A" and "changed_slots g k n \<subseteq> A"
  shows "changed_slots f k n \<subseteq> A"
proof (rule changed_slots_subset)
  fix a assume "k a \<noteq> f a"
  then show "bytes_from a n \<subseteq> A"
    using changed_slots_member [of g a f n] changed_slots_member [of k a g n] assms by (cases "g a = f a") auto
qed

lemma catalog_changes_trans: "catalog_changes h g \<subseteq> A \<Longrightarrow> catalog_changes g h' \<subseteq> A \<Longrightarrow> catalog_changes h h' \<subseteq> A"
  unfolding catalog_changes_def Un_subset_iff by (elim conjE, intro conjI) (rule changed_slots_trans, assumption, assumption)+

lemma slot_bytes:
  "array_ok p count width \<Longrightarrow> i < unat count \<Longrightarrow>
    bytes_from (p + of_nat i * width) (unat width) \<subseteq> bytes_from p (unat count * unat width)"
  by (rule bytes_from_slot [OF slot_unat])

text \<open>The nine regions of the checks are the arrays of the storage, those of the workspace and the catalog.\<close>

lemma written_objects:
  assumes "prepare_checks h modules module_count storage_ptr workspace_ptr out = Inr counts"
  defines "storage \<equiv> cap_storage h storage_ptr" and "workspace \<equiv> cap_workspace h workspace_ptr" and "n \<equiv> unat module_count"
  shows "map region_object (written_arrays counts storage workspace out) =
      storage_objects h modules n storage @ workspace_objects h modules n workspace @ [(out, unat SIZEOF_CAP_CATALOG)]"
    and "x \<in> set (written_arrays counts storage workspace out) \<Longrightarrow> array_ok (fst x) (fst (snd x)) (snd (snd x))"
    and "unat (cnt_module_count counts) = n" "unat (cnt_binding_count counts) = length (export_pairs h modules n)"
      "unat (cnt_resolution_count counts) = length (requirement_pairs h modules n)"
proof -
  note counts = counts_measure_ok [OF prepare_checks_ok(2) [OF assms(1)]]
  show "unat (cnt_module_count counts) = n" "unat (cnt_binding_count counts) = length (export_pairs h modules n)"
    "unat (cnt_resolution_count counts) = length (requirement_pairs h modules n)"
    using counts by (simp_all add: n_def)
  then show "map region_object (written_arrays counts storage workspace out) =
      storage_objects h modules n storage @ workspace_objects h modules n workspace @ [(out, unat SIZEOF_CAP_CATALOG)]"
    by (simp add: written_arrays_def storage_objects_def workspace_objects_def)
  obtain rs where "array_regions (written_arrays counts storage workspace out) = Inr rs"
    using prepare_checks_ok(5) [OF assms(1)] by (auto simp: publication_regions_validate_def then_ok_Inr_iff storage_def workspace_def)
  then show "array_ok (fst x) (fst (snd x)) (snd (snd x))" if "x \<in> set (written_arrays counts storage workspace out)"
    using array_region_ok(1) [OF array_regions_nth(2)] that by (metis in_set_conv_nth)
qed

text \<open>An array of the checks: the bytes of a slot lie in those of the array.\<close>

lemma written_slot_bytes:
  assumes "prepare_checks h modules module_count storage_ptr workspace_ptr out = Inr counts"
    and "(p, count, width) \<in> set (written_arrays counts (cap_storage h storage_ptr) (cap_workspace h workspace_ptr) out)"
    and "(p, unat count * unat width) \<in> set objects" and "i < unat count"
  shows "bytes_from (p + of_nat i * width) (unat width) \<subseteq> region_bytes objects"
  using subset_trans [OF slot_bytes region_bytes_subset [OF assms(3)]] written_objects(2) [OF assms(1,2)] assms(4) by simp

lemma scratch_changes:
  assumes "prepare_checks h modules module_count storage_ptr workspace_ptr out = Inr counts"
    and "scratch_only (scratch_slots (unat module_count) (length (requirement_pairs h modules (unat module_count))) (cap_workspace h workspace_ptr)) h g"
    and "\<And>a. a \<notin> selected_slot (cap_workspace h workspace_ptr) ` {0..<unat module_count} \<Longrightarrow> cap_flag g a = cap_flag h a"
  shows "catalog_changes h g \<subseteq> region_bytes (workspace_objects h modules (unat module_count) (cap_workspace h workspace_ptr))"
proof -
  let ?workspace = "cap_workspace h workspace_ptr"
  let ?objects = "workspace_objects h modules (unat module_count) ?workspace"
  let ?out = "region_bytes ?objects"
  note counts = written_objects(3-5) [OF assms(1)]
  note slot = written_slot_bytes [OF assms(1)]
  have "changed_slots (cap_index h) (cap_index g) (unat SIZEOF_CAP_INDEX) \<subseteq> ?out"
  proof (rule changed_slots_subset)
    fix a assume "cap_index g a \<noteq> cap_index h a"
    then have "a \<in> scratch_slots (unat module_count) (length (requirement_pairs h modules (unat module_count))) ?workspace"
      using assms(2) by (auto simp: scratch_only_def)
    then consider i where "i < unat (cnt_resolution_count counts)" "a = provider_slot ?workspace i"
      | i where "i < unat (cnt_resolution_count counts)" "a = resolved_slot ?workspace i"
      | i where "i < unat (cnt_module_count counts)" "a = indegree_slot ?workspace i"
      | i where "i < unat (cnt_module_count counts)" "a = order_slot ?workspace i"
      using counts by (auto simp: scratch_slots_def index_slots_def)
    then show "bytes_from a (unat SIZEOF_CAP_INDEX) \<subseteq> ?out"
    proof cases
      case (1 i)
      then show ?thesis using slot [of "wsp_resolved_provider_module_indices ?workspace" "cnt_resolution_count counts" SIZEOF_CAP_INDEX ?objects i] counts
        by (simp add: index_slot_def workspace_objects_def written_arrays_def)
    next
      case (2 i)
      then show ?thesis using slot [of "wsp_resolved_binding_indices ?workspace" "cnt_resolution_count counts" SIZEOF_CAP_INDEX ?objects i] counts
        by (simp add: index_slot_def workspace_objects_def written_arrays_def)
    next
      case (3 i)
      then show ?thesis using slot [of "wsp_indegree ?workspace" "cnt_module_count counts" SIZEOF_CAP_INDEX ?objects i] counts
        by (simp add: index_slot_def workspace_objects_def written_arrays_def)
    next
      case (4 i)
      then show ?thesis using slot [of "wsp_module_order ?workspace" "cnt_module_count counts" SIZEOF_CAP_INDEX ?objects i] counts
        by (simp add: index_slot_def workspace_objects_def written_arrays_def)
    qed
  qed
  moreover have "changed_slots (cap_flag h) (cap_flag g) (unat SIZEOF_CAP_FLAG) \<subseteq> ?out"
  proof (rule changed_slots_subset)
    fix a assume "cap_flag g a \<noteq> cap_flag h a"
    then obtain i where "i < unat module_count" "a = selected_slot ?workspace i" using assms(3) by force
    then show "bytes_from a (unat SIZEOF_CAP_FLAG) \<subseteq> ?out"
      using slot [of "wsp_selected ?workspace" "cnt_module_count counts" SIZEOF_CAP_FLAG ?objects i] counts
      by (simp add: flag_slot_def workspace_objects_def written_arrays_def)
  qed
  ultimately show ?thesis
    using assms(2) by (simp add: catalog_changes_def scratch_only_def same_inputs_def)
qed

lemma publish_changes:
  assumes "prepare_checks h modules module_count storage_ptr workspace_ptr out = Inr counts" and "same_inputs h g"
  defines "storage \<equiv> cap_storage h storage_ptr"
  shows "catalog_changes g (publish_catalog g modules counts storage workspace out) \<subseteq>
    region_bytes (storage_objects h modules (unat module_count) storage @ [(out, unat SIZEOF_CAP_CATALOG)])"
proof -
  let ?n = "unat module_count"
  let ?objects = "storage_objects h modules ?n storage @ [(out, unat SIZEOF_CAP_CATALOG)]"
  let ?out = "region_bytes ?objects"
  note counts = written_objects(3-5) [OF assms(1)]
  note slot = written_slot_bytes [OF assms(1), folded storage_def] and reads = same_reads [OF assms(2)]
  obtain f1 where f1: "publish_bindings modules (sto_bindings storage) (export_pairs h modules ?n) 0 g = g\<lparr>cap_binding := f1\<rparr>"
    "\<And>a. a \<notin> binding_slot (sto_bindings storage) ` {0..<length (export_pairs h modules ?n)} \<Longrightarrow> f1 a = cap_binding g a"
    using publish_bindings_frame [of modules "sto_bindings storage" "export_pairs h modules ?n" 0 g] by auto
  let ?g1 = "g\<lparr>cap_binding := f1\<rparr>"
  obtain f2 where f2: "publish_resolutions (sto_resolutions storage) workspace (requirement_pairs h modules ?n) 0 ?g1 = ?g1\<lparr>cap_resolution := f2\<rparr>"
    "\<And>a. a \<notin> resolution_slot (sto_resolutions storage) ` {0..<length (requirement_pairs h modules ?n)} \<Longrightarrow> f2 a = cap_resolution g a"
    using publish_resolutions_frame [of "sto_resolutions storage" workspace "requirement_pairs h modules ?n" 0 ?g1] by auto
  let ?g2 = "?g1\<lparr>cap_resolution := f2\<rparr>"
  obtain f3 where f3: "publish_order (sto_module_order storage) workspace [0..<?n] ?g2 = ?g2\<lparr>cap_index := f3\<rparr>"
    "\<And>a. a \<notin> index_slot (sto_module_order storage) ` {0..<?n} \<Longrightarrow> f3 a = cap_index g a"
    using publish_order_frame [of "sto_module_order storage" workspace "[0..<?n]" ?g2] by auto
  have whole: "publish_catalog g modules counts storage workspace out =
      ?g2\<lparr>cap_index := f3, cap_catalog := (cap_catalog g)(out := catalog_for modules counts storage)\<rparr>"
    by (simp add: publish_catalog_def Let_def counts(1) reads f1(1) f2(1) f3(1) catalog_for_def)
  have bindings: "changed_slots (cap_binding g) f1 (unat SIZEOF_CAP_BINDING) \<subseteq> ?out"
  proof (rule changed_slots_subset)
    fix a assume "f1 a \<noteq> cap_binding g a"
    then obtain i where "i < length (export_pairs h modules ?n)" "a = binding_slot (sto_bindings storage) i" using f1(2) by force
    then show "bytes_from a (unat SIZEOF_CAP_BINDING) \<subseteq> ?out"
      using slot [of "sto_bindings storage" "cnt_binding_count counts" SIZEOF_CAP_BINDING ?objects i] counts
      by (simp add: binding_slot_def storage_objects_def written_arrays_def)
  qed
  have resolutions: "changed_slots (cap_resolution g) f2 (unat SIZEOF_CAP_RESOLUTION) \<subseteq> ?out"
  proof (rule changed_slots_subset)
    fix a assume "f2 a \<noteq> cap_resolution g a"
    then obtain i where "i < length (requirement_pairs h modules ?n)" "a = resolution_slot (sto_resolutions storage) i" using f2(2) by force
    then show "bytes_from a (unat SIZEOF_CAP_RESOLUTION) \<subseteq> ?out"
      using slot [of "sto_resolutions storage" "cnt_resolution_count counts" SIZEOF_CAP_RESOLUTION ?objects i] counts
      by (simp add: resolution_slot_def storage_objects_def written_arrays_def)
  qed
  have order: "changed_slots (cap_index g) f3 (unat SIZEOF_CAP_INDEX) \<subseteq> ?out"
  proof (rule changed_slots_subset)
    fix a assume "f3 a \<noteq> cap_index g a"
    then obtain i where "i < ?n" "a = index_slot (sto_module_order storage) i" using f3(2) by force
    then show "bytes_from a (unat SIZEOF_CAP_INDEX) \<subseteq> ?out"
      using slot [of "sto_module_order storage" "cnt_module_count counts" SIZEOF_CAP_INDEX ?objects i] counts
      by (simp add: index_slot_def storage_objects_def written_arrays_def)
  qed
  have "changed_slots (cap_catalog g) ((cap_catalog g)(out := catalog_for modules counts storage)) (unat SIZEOF_CAP_CATALOG) \<subseteq> ?out"
    using changed_slots_upd [of "cap_catalog g" out "catalog_for modules counts storage" "unat SIZEOF_CAP_CATALOG"] by auto
  then show ?thesis unfolding whole catalog_changes_def using bindings resolutions order by simp
qed

section \<open>A call\<close>

lemma prepare_changes:
  assumes "arbor_capability_catalog_prepare h modules module_count storage_ptr workspace_ptr out = (h', result)" and "h' \<noteq> h \<or> result = Inr ()"
  defines "storage \<equiv> storage_objects h modules (unat module_count) (cap_storage h storage_ptr)"
    and "workspace \<equiv> workspace_objects h modules (unat module_count) (cap_workspace h workspace_ptr)"
  shows "\<exists>counts. prepare_checks h modules module_count storage_ptr workspace_ptr out = Inr counts"
    and "catalog_changes h h' \<subseteq>
      (case result of Inl status \<Rightarrow> region_bytes workspace | Inr _ \<Rightarrow> region_bytes (storage @ workspace @ [(out, unat SIZEOF_CAP_CATALOG)]))"
proof -
  obtain counts where checks: "prepare_checks h modules module_count storage_ptr workspace_ptr out = Inr counts"
    using assms(1,2) by (cases "prepare_checks h modules module_count storage_ptr workspace_ptr out") (auto simp: arbor_capability_catalog_prepare_def)
  then show "\<exists>counts. prepare_checks h modules module_count storage_ptr workspace_ptr out = Inr counts" by blast
  let ?n = "unat module_count" and ?w = "cap_workspace h workspace_ptr"
  obtain h1 r1 where resolve: "requirements_resolve h modules module_count ?w = (h1, r1)" by fastforce
  have flags1: "cap_flag h1 a = cap_flag h a" if "a \<notin> selected_slot ?w ` {0..<?n}" for a
    using consumers_loop_flags [of a ?w "[0..<?n]" modules ?n 0 h] that resolve
    by (auto simp: requirements_resolve_def split: prod.splits sum.splits)
  note scratch = scratch_changes [OF checks, folded workspace_def]
  show "catalog_changes h h' \<subseteq>
      (case result of Inl status \<Rightarrow> region_bytes workspace | Inr _ \<Rightarrow> region_bytes (storage @ workspace @ [(out, unat SIZEOF_CAP_CATALOG)]))"
  proof (cases r1)
    case (Inl status)
    then have "h' = h1" "result = Inl status"
      using assms(1) checks resolve by (simp_all add: arbor_capability_catalog_prepare_def Let_def)
    then show ?thesis
      using scratch [OF requirements_resolve_ok(1) [OF checked_arrays(2) [OF checks] resolve] flags1] by simp
  next
    case (Inr u)
    then have resolved: "requirements_resolve h modules module_count ?w = (h1, Inr ())" using resolve by simp
    obtain h2 r2 where built: "topological_order_build h1 modules module_count ?w = (h2, r2)" by fastforce
    have only: "scratch_only (scratch_slots ?n (length (requirement_pairs h modules ?n)) ?w) h h2"
      using order_built [OF checks resolved] built by (auto split: option.splits)
    have flags2: "cap_flag h2 a = cap_flag h a" if "a \<notin> selected_slot ?w ` {0..<?n}" for a
      using order_loop_flags [OF that, of modules "[0..<?n]" h1] flags1 [OF that] built by (simp add: topological_order_build_def)
    note ordered = scratch [OF only flags2]
    show ?thesis
    proof (cases r2)
      case (Inl status)
      then have "h' = h2" "result = Inl status"
        using assms(1) checks resolved built by (simp_all add: arbor_capability_catalog_prepare_def Let_def)
      then show ?thesis using ordered by simp
    next
      case (Inr v)
      then have h': "h' = publish_catalog h2 modules counts (cap_storage h storage_ptr) ?w out" "result = Inr ()"
        using assms(1) checks resolved built by (simp_all add: arbor_capability_catalog_prepare_def Let_def)
      have "same_inputs h h2" using only by (simp add: scratch_only_def)
      note published = publish_changes [OF checks this, of ?w, folded h'(1) storage_def]
      have parts: "region_bytes workspace \<subseteq> region_bytes (storage @ workspace @ [(out, unat SIZEOF_CAP_CATALOG)])"
        "region_bytes (storage @ [(out, unat SIZEOF_CAP_CATALOG)]) \<subseteq> region_bytes (storage @ workspace @ [(out, unat SIZEOF_CAP_CATALOG)])"
        by auto
      show ?thesis
        unfolding h'(2) sum.case
        by (rule catalog_changes_trans [OF subset_trans [OF ordered parts(1)] subset_trans [OF published parts(2)]])
    qed
  qed
qed

lemma checked_bytes:
  assumes "prepare_checks h modules module_count storage_ptr workspace_ptr out = Inr counts"
  defines "outputs \<equiv> storage_objects h modules (unat module_count) (cap_storage h storage_ptr) @
      workspace_objects h modules (unat module_count) (cap_workspace h workspace_ptr) @ [(out, unat SIZEOF_CAP_CATALOG)]"
  shows "regions_apart outputs"
    and "region_bytes outputs \<inter> region_bytes (catalog_inputs h modules (unat module_count) storage_ptr workspace_ptr) = {}"
  using publication_regions_bytes [OF prepare_checks_ok(5) [OF assms(1)]] unfolding written_objects(1) [OF assms(1)] outputs_def .

end
