(* ===== verification/Capability_Properties.thy ===== *)
theory Capability_Properties
  imports Capability_Memory
begin

text \<open>
  The properties of the module catalog of \<open>src/c/capability_kernel.c\<close> and the catalogs that show that their
  hypotheses can hold.
\<close>

section \<open>Look-ups\<close>

lemma find_map: "find P (map f xs) = map_option f (find (\<lambda>x. P (f x)) xs)"
  by (induction xs) simp_all

lemma find_nth: "map_option ((!) xs) (find (\<lambda>k. P (xs ! k)) [0..<length xs]) = find P xs"
  using find_map [of P "(!) xs" "[0..<length xs]"] by (simp add: map_nth)

lemma prepared:
  assumes "snd (arbor_capability_catalog_prepare h modules module_count storage_ptr workspace_ptr out) = Inr ()"
  defines "h' \<equiv> fst (arbor_capability_catalog_prepare h modules module_count storage_ptr workspace_ptr out)"
    and "n \<equiv> unat module_count"
  shows "\<exists>counts B order. prepare_checks h modules module_count storage_ptr workspace_ptr out = Inr counts \<and>
    counts_measure h modules module_count = Inr counts \<and>
    catalog_holds h modules counts (catalog_for modules counts (cap_storage h storage_ptr)) B order h' \<and>
    canonical_order n (providers h modules n) order \<and> resolved_as h modules n B \<and>
    cap_catalog h' out = catalog_for modules counts (cap_storage h storage_ptr) \<and> arbor_capability_catalog_validate h' out = Inr ()"
proof -
  have call: "arbor_capability_catalog_prepare h modules module_count storage_ptr workspace_ptr out = (h', Inr ())"
    using assms(1) by (simp add: h'_def prod_eq_iff)
  obtain counts B order where facts: "prepare_checks h modules module_count storage_ptr workspace_ptr out = Inr counts"
    "catalog_holds h modules counts (catalog_for modules counts (cap_storage h storage_ptr)) B order h'"
    "canonical_order n (providers h modules n) order" "resolved_as h modules n B"
    "cap_catalog h' out = catalog_for modules counts (cap_storage h storage_ptr)"
    using prepare_published [OF call] by (auto simp: resolved_as_def n_def)
  then show ?thesis using prepare_checks_ok(2) [OF facts(1)] prepared_catalog_validates [OF call] by blast
qed

section \<open>The order of the modules\<close>

text \<open>C34: when \<open>arbor_capability_catalog_prepare\<close> succeeds, the order it publishes lists every module once; each
  module is the least one, by its index, whose requirements are all met by modules listed before it.\<close>

theorem published_order_canonical:
  assumes "snd (arbor_capability_catalog_prepare h modules module_count storage_ptr workspace_ptr out) = Inr ()"
  defines "h' \<equiv> fst (arbor_capability_catalog_prepare h modules module_count storage_ptr workspace_ptr out)"
    and "n \<equiv> unat module_count"
  shows "canonical_order n (providers h modules n) (map (\<lambda>i. unat (order_at h' (cap_catalog h' out) i)) [0..<n])"
proof -
  obtain counts B order where facts: "counts_measure h modules module_count = Inr counts"
    "catalog_holds h modules counts (catalog_for modules counts (cap_storage h storage_ptr)) B order h'" "canonical_order n (providers h modules n) order"
    "cap_catalog h' out = catalog_for modules counts (cap_storage h storage_ptr)"
    using prepared [OF assms(1)] by (auto simp: h'_def n_def)
  have "unat (order_at h' (cap_catalog h' out) i) = order ! i" if "i < n" for i
  proof -
    have "order ! i < n" using facts(3) that nth_mem [of i order] by (auto simp: canonical_order_def)
    then show ?thesis
      using published_order [OF facts(2)] counts_measure_ok(1) [OF facts(1)] that small_index(1) by (simp add: facts(4) n_def)
  qed
  then have "map (\<lambda>i. unat (order_at h' (cap_catalog h' out) i)) [0..<n] = order"
    using facts(3) by (intro nth_equalityI) (simp_all add: canonical_order_def)
  then show ?thesis using facts(3) by simp
qed

section \<open>The outcome of a call\<close>

text \<open>C35: once the checks of \<open>arbor_capability_catalog_prepare\<close> pass, a call succeeds exactly when every requirement
  has a compatible export and no module provides, through others, for itself; a cycle is answered with
  \<open>-ELOOP\<close>, a requirement that is not met with \<open>-ENOENT\<close> or \<open>-EPROTONOSUPPORT\<close>. The counters of the
  workspace never run below zero.\<close>

theorem prepare_outcome_exact:
  "case prepare_checks h modules module_count storage_ptr workspace_ptr out of
     Inl status \<Rightarrow> arbor_capability_catalog_prepare h modules module_count storage_ptr workspace_ptr out = (h, Inl status)
   | Inr counts \<Rightarrow>
       if satisfiable h modules (unat module_count) then
         snd (arbor_capability_catalog_prepare h modules module_count storage_ptr workspace_ptr out) =
           (if acyclic (dependencies (unat module_count) (providers h modules (unat module_count))) then Inr () else refuse ELOOP)
       else
         snd (arbor_capability_catalog_prepare h modules module_count storage_ptr workspace_ptr out)
           \<in> {refuse ENOENT, refuse EPROTONOSUPPORT}"
  using prepare_outcome [of h modules module_count storage_ptr workspace_ptr out]
  by (auto simp: arbor_capability_catalog_prepare_def split: sum.split)

section \<open>A published catalog is valid\<close>

text \<open>C37: a catalog that \<open>arbor_capability_catalog_prepare\<close> publishes passes every check of
  \<open>arbor_capability_catalog_validate\<close>: its shape, the descriptors, the bindings, the resolutions, and the order
  that the checks compute again.\<close>

theorem published_catalog_validates:
  assumes "snd (arbor_capability_catalog_prepare h modules module_count storage_ptr workspace_ptr out) = Inr ()"
  shows "arbor_capability_catalog_validate (fst (arbor_capability_catalog_prepare h modules module_count storage_ptr workspace_ptr out)) out = Inr ()"
  using prepared [OF assms] by blast

section \<open>What a call writes\<close>

text \<open>C38: \<open>arbor_capability_catalog_prepare\<close> never changes a byte of the module descriptors, of their exports and
  requirements, of the interface tables or of the records of the storage and of the workspace. A call that fails changes
  bytes of the arrays of the workspace only, and none of the storage or of the catalog: nothing is published. A call
  that succeeds changes bytes of the arrays of the storage and of the workspace and of the catalog only; no two of
  these nine objects share a byte, and none shares one with what the call reads.\<close>

theorem prepare_writes_only_its_arrays:
  "let call = arbor_capability_catalog_prepare h modules module_count storage_ptr workspace_ptr out;
       h' = fst call;
       n = unat module_count;
       storage = storage_objects h modules n (cap_storage h storage_ptr);
       workspace = workspace_objects h modules n (cap_workspace h workspace_ptr);
       catalog = [(out, unat SIZEOF_CAP_CATALOG)];
       inputs = catalog_inputs h modules n storage_ptr workspace_ptr
   in same_inputs h h' \<and> catalog_changes h h' \<inter> region_bytes inputs = {} \<and>
      (case snd call of
         Inl status \<Rightarrow>
           catalog_changes h h' \<subseteq> region_bytes workspace \<and> catalog_changes h h' \<inter> region_bytes (storage @ catalog) = {} \<and>
           cap_binding h' = cap_binding h \<and> cap_resolution h' = cap_resolution h \<and> cap_catalog h' = cap_catalog h \<and>
           map (\<lambda>i. cap_index h' (index_slot (sto_module_order (cap_storage h storage_ptr)) i)) [0..<n] =
             map (\<lambda>i. cap_index h (index_slot (sto_module_order (cap_storage h storage_ptr)) i)) [0..<n]
       | Inr _ \<Rightarrow>
           catalog_changes h h' \<subseteq> region_bytes (storage @ workspace @ catalog) \<and> regions_apart (storage @ workspace @ catalog) \<and>
           region_bytes (storage @ workspace @ catalog) \<inter> region_bytes inputs = {})"
proof -
  obtain h' result where call: "arbor_capability_catalog_prepare h modules module_count storage_ptr workspace_ptr out = (h', result)" by fastforce
  show ?thesis
  proof (cases result)
    case (Inr u)
    then have call_ok: "arbor_capability_catalog_prepare h modules module_count storage_ptr workspace_ptr out = (h', Inr ())" using call by simp
    have "h' \<noteq> h \<or> (Inr () :: arbor_status + unit) = Inr ()" by simp
    note changes = prepare_changes [OF call_ok this]
    obtain counts where checks: "prepare_checks h modules module_count storage_ptr workspace_ptr out = Inr counts" using changes(1) by blast
    have "same_inputs h h'" using prepare_published [OF call_ok] by (auto simp: catalog_holds_def Let_def)
    then show ?thesis using call_ok changes(2) checked_bytes [OF checks] by (auto simp: Let_def)
  next
    case (Inl status)
    then have call_failed: "arbor_capability_catalog_prepare h modules module_count storage_ptr workspace_ptr out = (h', Inl status)" using call by simp
    show ?thesis
    proof (cases "h' = h")
      case True
      then show ?thesis using call_failed by (simp add: catalog_changes_def)
    next
      case False
      then have "h' \<noteq> h \<or> (Inl status :: arbor_status + unit) = Inr ()" by simp
      note changes = prepare_changes [OF call_failed this]
      from prepare_failure_frame [OF call_failed] obtain counts where
        checks: "prepare_checks h modules module_count storage_ptr workspace_ptr out = Inr counts"
        and only: "scratch_only (scratch_slots (unat module_count) (length (requirement_pairs h modules (unat module_count)))
          (cap_workspace h workspace_ptr)) h h'"
        using False by blast
      note bytes = checked_bytes [OF checks, unfolded regions_apart_append region_bytes_append]
      show ?thesis
        using call_failed changes(2) bytes storage_order_untouched [OF checked_arrays(1) [OF checks] only] only
        by (auto simp: Let_def scratch_only_def)
    qed
  qed
qed

section \<open>Finding a capability\<close>

text \<open>C40: in a published catalog, \<open>arbor_capability_catalog_find\<close> answers \<open>-EINVAL\<close> to a null pointer for the
  binding, a zero identity, a zero major version or a zero size; for every other identity, version and size it gives
  the binding of the export with that identity, made from the descriptor of its module, it answers \<open>-ENOENT\<close> when no
  module exports it and \<open>-EPROTONOSUPPORT\<close> when the export does not satisfy the version or the size.\<close>

theorem find_reads_exports:
  assumes "snd (arbor_capability_catalog_prepare h modules module_count storage_ptr workspace_ptr out) = Inr ()"
  shows "arbor_capability_catalog_find (fst (arbor_capability_catalog_prepare h modules module_count storage_ptr workspace_ptr out)) out
      i minimum_version minimum_interface_size binding_out =
    (if binding_out = 0 \<or> capability_id_is_zero i \<or> ver_major minimum_version = 0 \<or> minimum_interface_size = 0 then refuse EINVAL
     else case find (\<lambda>x. capability_id_equal (exp_id (export_at h (module_at h modules (fst x)) (snd x))) i) (export_pairs h modules (unat module_count)) of
       None \<Rightarrow> refuse ENOENT
     | Some x \<Rightarrow>
         if version_satisfies (exp_version (export_at h (module_at h modules (fst x)) (snd x))) minimum_version \<and>
            minimum_interface_size \<le> exp_interface_size (export_at h (module_at h modules (fst x)) (snd x))
         then Inr (binding_for h modules x) else refuse EPROTONOSUPPORT)"
proof -
  let ?n = "unat module_count" and ?h' = "fst (arbor_capability_catalog_prepare h modules module_count storage_ptr workspace_ptr out)"
  let ?exported = "export_pairs h modules ?n"
  obtain counts B order where facts: "counts_measure h modules module_count = Inr counts"
    "catalog_holds h modules counts (catalog_for modules counts (cap_storage h storage_ptr)) B order ?h'"
    "cap_catalog ?h' out = catalog_for modules counts (cap_storage h storage_ptr)" "arbor_capability_catalog_validate ?h' out = Inr ()"
    using prepared [OF assms(1)] by blast
  let ?catalog = "catalog_for modules counts (cap_storage h storage_ptr)"
  note binding = published_binding [OF facts(2,1)]
  have count: "unat (cat_binding_count ?catalog) = length ?exported"
    using counts_measure_ok(2) [OF facts(1)] by (simp add: catalog_for_def)
  let ?P = "\<lambda>x. capability_id_equal (exp_id (export_at h (module_at h modules (fst x)) (snd x))) i"
  have search: "find (\<lambda>k. capability_id_equal (bind_id (binding_at ?h' ?catalog k)) i) [0..<length ?exported] =
      find (\<lambda>k. ?P (?exported ! k)) [0..<length ?exported]"
    by (rule find_cong [OF refl]) (simp add: binding binding_for_def binding_of_def)
  show ?thesis
  proof (cases "find (\<lambda>k. ?P (?exported ! k)) [0..<length ?exported]")
    case None
    then have "find ?P ?exported = None" using find_nth [of ?exported ?P] by simp
    then show ?thesis using None facts(3,4) search count by (simp add: arbor_capability_catalog_find_def Let_def)
  next
    case (Some k)
    then have "find ?P ?exported = Some (?exported ! k)" "k < length ?exported"
      using find_nth [of ?exported ?P] by (auto simp: find_Some_iff)
    then show ?thesis
      using Some facts(3,4) search count binding [of k]
      by (auto simp: arbor_capability_catalog_find_def Let_def binding_for_def binding_of_def not_less)
  qed
qed

section \<open>The binding of a requirement\<close>

text \<open>C39: in a published catalog, \<open>arbor_capability_catalog_resolve\<close> gives for every requirement of every module the
  binding of an export that is compatible with it, and the module that exports it comes before the module that requires
  it; for indices out of range it answers \<open>-EINVAL\<close>.\<close>

theorem requirement_resolves:
  assumes "snd (arbor_capability_catalog_prepare h modules module_count storage_ptr workspace_ptr out) = Inr ()" and "binding_out \<noteq> 0"
  defines "h' \<equiv> fst (arbor_capability_catalog_prepare h modules module_count storage_ptr workspace_ptr out)"
    and "n \<equiv> unat module_count"
  shows "if c < module_count \<and> r < mod_consumes_count (module_at h modules (unat c)) then
      \<exists>x \<in> set (export_pairs h modules n). compatible h modules (requirement_of h modules (unat c, unat r)) x \<and>
        arbor_capability_catalog_resolve h' out c r binding_out = Inr (binding_for h modules x) \<and>
        (\<exists>k < n. \<exists>j < k. order_at h' (cap_catalog h' out) k = c \<and> order_at h' (cap_catalog h' out) j = of_nat (fst x))
    else arbor_capability_catalog_resolve h' out c r binding_out = refuse EINVAL"
proof -
  obtain counts B order where facts: "counts_measure h modules module_count = Inr counts"
    "catalog_holds h modules counts (catalog_for modules counts (cap_storage h storage_ptr)) B order h'" "canonical_order n (providers h modules n) order"
    "resolved_as h modules n B"
    "cap_catalog h' out = catalog_for modules counts (cap_storage h storage_ptr)" "arbor_capability_catalog_validate h' out = Inr ()"
    using prepared [OF assms(1)] by (auto simp: h'_def n_def)
  let ?catalog = "catalog_for modules counts (cap_storage h storage_ptr)"
  have inputs: "same_inputs h h'" using facts(2) by (simp add: catalog_holds_def Let_def)
  have fields: "cat_modules ?catalog = modules" "cat_module_count ?catalog = module_count"
    "cat_binding_count ?catalog = cnt_binding_count counts"
    by (simp_all add: catalog_for_def counts_measure_ok(1) [OF facts(1)])
  show ?thesis
  proof (cases "c < module_count \<and> r < mod_consumes_count (module_at h modules (unat c))")
    case False
    then show ?thesis
      using assms(2) facts(5,6) by (auto simp: arbor_capability_catalog_resolve_def Let_def fields same_reads [OF inputs] not_less)
  next
    case True
    then have c: "unat c < n" and mem: "(unat c, unat r) \<in> set (requirement_pairs h modules (unat module_count))"
      by (simp_all add: requirement_pairs_iff word_less_nat_alt n_def)
    obtain k where k: "k < length (requirement_pairs h modules (unat module_count))"
      "requirement_pairs h modules (unat module_count) ! k = (unat c, unat r)"
      "find (\<lambda>i. rsl_consumer_module_index (resolution_at h' ?catalog i) = c \<and>
        rsl_requirement_index (resolution_at h' ?catalog i) = r) [0..<unat (cat_resolution_count ?catalog)] = Some k"
      using published_resolution_found [OF facts(2,1) mem] by auto
    note binding = resolved_binding [OF facts(1) facts(4) [unfolded n_def] k(1)]
    let ?x = "export_pairs h modules (unat module_count) ! unat (B k)"
    have "rsl_binding_index (resolution_at h' ?catalog k) = B k" using published_resolution [OF facts(2,1) k(1)] by simp
    then have result: "arbor_capability_catalog_resolve h' out c r binding_out = Inr (binding_for h modules ?x)"
      using True assms(2) facts(5,6) k(3) binding(2) published_binding [OF facts(2,1) binding(1)]
      by (auto simp: arbor_capability_catalog_resolve_def Let_def fields same_reads [OF inputs])
    have "unat c \<in> set order" using c facts(3) by (simp add: canonical_order_def)
    then obtain l where l: "l < n" "order ! l = unat c" using facts(3) by (auto simp: in_set_conv_nth canonical_order_def)
    have "fst ?x \<in> set (providers h modules n (unat c))"
      unfolding providers_def set_map_filter binding(3)
      using resolved_providers [OF facts(1) facts(4) [unfolded n_def] k(2,1)] mem by (auto simp: requirement_pairs_iff n_def)
    then obtain j where j: "j < l" "order ! j = fst ?x" using cap.order_precedes [OF facts(3) l(1)] l(2) by auto
    have "order_at h' (cap_catalog h' out) l = c" "order_at h' (cap_catalog h' out) j = of_nat (fst ?x)"
      using published_order [OF facts(2)] l j counts_measure_ok(1) [OF facts(1)] by (simp_all add: facts(5) n_def)
    then have "\<exists>k < n. \<exists>j < k. order_at h' (cap_catalog h' out) k = c \<and> order_at h' (cap_catalog h' out) j = of_nat (fst ?x)"
      using l(1) j(1) by blast
    moreover have "?x \<in> set (export_pairs h modules n)" using binding(1) by (simp add: n_def)
    ultimately show ?thesis using True result binding(4) k(2) by auto
  qed
qed

section \<open>What validation accepts\<close>

text \<open>C36: \<open>arbor_capability_catalog_validate\<close> accepts exactly the catalogs that a call would publish for their modules: the
  shape and the descriptors pass, the counts agree, the bindings and the resolutions are those of the descriptors, and
  the order is the canonical one; any other order is rejected, also one that puts every provider first.\<close>

theorem validation_exact:
  "arbor_capability_catalog_validate h catalog_ptr = Inr () \<longleftrightarrow>
     (let catalog = cap_catalog h catalog_ptr; modules = cat_modules catalog; n = unat (cat_module_count catalog);
          B = (\<lambda>k. rsl_binding_index (resolution_at h catalog k))
      in catalog_shape_validate h catalog_ptr = Inr () \<and> descriptor_set_validate h modules (cat_module_count catalog) = Inr () \<and>
         (\<exists>counts. counts_measure h modules (cat_module_count catalog) = Inr counts \<and>
            catalog_holds h modules counts catalog B (stored_order h catalog) h) \<and>
         resolved_as h modules n B \<and> canonical_order n (providers h modules n) (stored_order h catalog))"
  using validated_catalog [of h catalog_ptr] validated_parts(2,7) [of h catalog_ptr] holding_catalog_validates [of h catalog_ptr h]
  unfolding Let_def by blast

section \<open>Two catalogs\<close>

text \<open>A module that requires what the second one exports, and one that requires what it exports itself.\<close>

definition table_7 :: arbor_capability_export where
  "table_7 = \<lparr>exp_id = \<lparr>id_high = 0, id_low = 7\<rparr>, exp_version = \<lparr>ver_major = 1, ver_minor = 2\<rparr>, exp_interface_size = 16,
     exp_reserved0 = 0, exp_flags = 0, exp_interface_table = 61440, exp_provider_context = 0\<rparr>"

definition needs_7 :: arbor_capability_requirement where
  "needs_7 = \<lparr>rqm_id = \<lparr>id_high = 0, id_low = 7\<rparr>, rqm_minimum_version = \<lparr>ver_major = 1, ver_minor = 1\<rparr>,
     rqm_minimum_interface_size = 8, rqm_reserved0 = 0, rqm_flags = 0\<rparr>"

definition module_of :: "u64 \<Rightarrow> u64 \<Rightarrow> u64 \<Rightarrow> arbor_module_descriptor" where
  "module_of low provided required =
     \<lparr>mod_id = \<lparr>mid_high = 0, mid_low = low\<rparr>, mod_abi_version = 1, mod_struct_size = 64, mod_flags = 0, mod_provides = 8192,
      mod_provides_count = provided, mod_consumes = 12288, mod_consumes_count = required\<rparr>"

definition example_heap :: "(addr \<Rightarrow> arbor_module_descriptor) \<Rightarrow> cap_heap" where
  "example_heap modules =
     \<lparr>cap_module = modules, cap_export = (\<lambda>_. table_7), cap_requirement = (\<lambda>_. needs_7),
      cap_binding = (\<lambda>_. binding_of table_7 0),
      cap_resolution = (\<lambda>_. \<lparr>rsl_consumer_module_index = 0, rsl_requirement_index = 0, rsl_binding_index = 0\<rparr>),
      cap_storage = (\<lambda>_. \<lparr>sto_bindings = 28672, sto_binding_capacity = 1, sto_resolutions = 32768, sto_resolution_capacity = 1,
        sto_module_order = 36864, sto_module_order_capacity = 2\<rparr>),
      cap_workspace = (\<lambda>_. \<lparr>wsp_resolved_provider_module_indices = 40960, wsp_resolved_binding_indices = 45056,
        wsp_resolution_capacity = 1, wsp_indegree = 49152, wsp_selected = 53248, wsp_module_order = 57344, wsp_module_capacity = 2\<rparr>),
      cap_catalog = (\<lambda>_. \<lparr>cat_abi_version = 0, cat_struct_size = 0, cat_flags = 0, cat_modules = 0, cat_module_count = 0,
        cat_bindings = 0, cat_binding_count = 0, cat_resolutions = 0, cat_resolution_count = 0, cat_module_order = 0\<rparr>),
      cap_index = (\<lambda>_. 0), cap_flag = (\<lambda>_. 0)\<rparr>"

definition wired_heap :: cap_heap where
  "wired_heap = example_heap (\<lambda>a. if a = 4096 then module_of 1 0 1 else module_of 2 1 0)"

definition knotted_heap :: cap_heap where
  "knotted_heap = example_heap (\<lambda>_. module_of 1 1 1)"

lemma small_ranges: "[0..<1] = [0::nat]" "[0..<2] = [0::nat, 1]" "[0..<9] = [0::nat, 1, 2, 3, 4, 5, 6, 7, 8]"
  by (simp_all add: upt_rec)

lemmas example_objects =
  example_heap_def module_of_def table_7_def needs_7_def module_at_def export_at_def requirement_at_def Let_def

lemmas example_checks =
  module_shape_validate_def export_validate_def requirement_validate_def module_id_is_zero_def capability_id_is_zero_def
  module_id_equal_def capability_id_equal_def checked_add_u64_def u64_add_checked_def carry_def refuse_def

lemmas example_regions =
  publication_regions_validate_def written_arrays_def reject_module_overlaps_def array_region_def reject_overlap_def
  memory_regions_overlap_def range_overlaps_def range_end_checked_def u64_mul_checked_def carry_def refuse_def

lemma wired_counts:
  "counts_measure wired_heap 4096 2 = Inr \<lparr>cnt_module_count = 2, cnt_binding_count = 1, cnt_resolution_count = 1\<rparr>"
  by (simp add: counts_measure_def wired_heap_def small_ranges example_objects example_checks)

lemma knotted_counts:
  "counts_measure knotted_heap 4096 1 = Inr \<lparr>cnt_module_count = 1, cnt_binding_count = 1, cnt_resolution_count = 1\<rparr>"
  by (simp add: counts_measure_def knotted_heap_def small_ranges example_objects example_checks)

lemma wired_descriptors: "descriptor_set_validate wired_heap 4096 2 = Inr ()"
  by (simp add: descriptor_set_validate_def descriptor_validate_def requirement_set_validate_def export_unique_def wired_heap_def
      small_ranges example_objects example_checks)

lemma knotted_descriptors: "descriptor_set_validate knotted_heap 4096 1 = Inr ()"
  by (simp add: descriptor_set_validate_def descriptor_validate_def requirement_set_validate_def export_unique_def knotted_heap_def
      small_ranges example_objects example_checks)

lemma wired_storage:
  "storage_validate wired_heap \<lparr>cnt_module_count = 2, cnt_binding_count = 1, cnt_resolution_count = 1\<rparr> 16384 20480 = Inr ()"
  by (simp add: storage_validate_def wired_heap_def example_objects)

lemma knotted_storage:
  "storage_validate knotted_heap \<lparr>cnt_module_count = 1, cnt_binding_count = 1, cnt_resolution_count = 1\<rparr> 16384 20480 = Inr ()"
  by (simp add: storage_validate_def knotted_heap_def example_objects)

lemma wired_regions:
  "publication_regions_validate wired_heap 4096 2 \<lparr>cnt_module_count = 2, cnt_binding_count = 1, cnt_resolution_count = 1\<rparr>
     16384 20480 24576 = Inr ()"
  by (simp add: wired_heap_def small_ranges example_objects example_regions)

lemma knotted_regions:
  "publication_regions_validate knotted_heap 4096 1 \<lparr>cnt_module_count = 1, cnt_binding_count = 1, cnt_resolution_count = 1\<rparr>
     16384 20480 24576 = Inr ()"
  by (simp add: knotted_heap_def small_ranges example_objects example_regions)

lemma wired_checks:
  "prepare_checks wired_heap 4096 2 16384 20480 24576 = Inr \<lparr>cnt_module_count = 2, cnt_binding_count = 1, cnt_resolution_count = 1\<rparr>"
  by (simp add: prepare_checks_def wired_counts wired_storage wired_descriptors wired_regions)

lemma knotted_checks:
  "prepare_checks knotted_heap 4096 1 16384 20480 24576 = Inr \<lparr>cnt_module_count = 1, cnt_binding_count = 1, cnt_resolution_count = 1\<rparr>"
  by (simp add: prepare_checks_def knotted_counts knotted_storage knotted_descriptors knotted_regions)

lemmas example_graph =
  export_pairs_def requirement_pairs_def compatible_def requirement_of_def version_satisfies_def capability_id_equal_def

lemma wired_pairs: "export_pairs wired_heap 4096 2 = [(1, 0)]" "requirement_pairs wired_heap 4096 2 = [(0, 0)]"
  by (simp_all add: wired_heap_def small_ranges example_objects example_graph)

lemma knotted_pairs: "export_pairs knotted_heap 4096 (Suc 0) = [(0, 0)]" "requirement_pairs knotted_heap 4096 (Suc 0) = [(0, 0)]"
  by (simp_all add: knotted_heap_def small_ranges example_objects example_graph)

lemma wired_providers: "providers wired_heap 4096 2 0 = [1]" "providers wired_heap 4096 2 (Suc 0) = []"
  by (simp_all add: providers_def provider_module_def provider_search_def provider_turn_def wired_pairs requirement_of_def
      capability_id_equal_def)
    (simp_all add: wired_heap_def small_ranges example_objects version_satisfies_def)

lemma knotted_providers: "providers knotted_heap 4096 (Suc 0) 0 = [0]"
  by (simp add: providers_def provider_module_def provider_search_def provider_turn_def knotted_pairs requirement_of_def
      capability_id_equal_def)
    (simp add: knotted_heap_def small_ranges example_objects version_satisfies_def)

lemma example_satisfiable: "satisfiable wired_heap 4096 2" "satisfiable knotted_heap 4096 1"
  by (simp_all add: satisfiable_def wired_pairs knotted_pairs)
    (simp_all add: wired_heap_def knotted_heap_def example_objects compatible_def requirement_of_def version_satisfies_def
      capability_id_equal_def)

lemma wired_acyclic: "acyclic (dependencies 2 (providers wired_heap 4096 2))"
proof -
  have "extend_order 2 (providers wired_heap 4096 2) 2 [] = Some [1, 0]"
    by (simp add: numeral_2_eq_2 least_ready_def ready_def)
      (simp add: numeral_2_eq_2 [symmetric] wired_providers)
  then show ?thesis using cap.construction_succeeds_iff [of 2 wired_heap 4096] by simp
qed

lemma knotted_cyclic: "\<not> acyclic (dependencies 1 (providers knotted_heap 4096 1))"
proof -
  have "(0, 0) \<in> dependencies 1 (providers knotted_heap 4096 1)" by (simp add: dependencies_def knotted_providers)
  then show ?thesis by (meson acyclic_def trancl.r_into_trancl)
qed

lemma wired_prepares: "snd (arbor_capability_catalog_prepare wired_heap 4096 2 16384 20480 24576) = Inr ()"
  using prepare_outcome(1) [OF wired_checks] example_satisfiable(1) wired_acyclic by simp

lemma knotted_fails: "snd (arbor_capability_catalog_prepare knotted_heap 4096 1 16384 20480 24576) = refuse ELOOP"
  using prepare_outcome(1) [OF knotted_checks] example_satisfiable(2) knotted_cyclic by simp

section \<open>Witnesses\<close>

theorem published_order_canonical_witness:
  "canonical_order 2 (providers wired_heap 4096 2)
     (map (\<lambda>i. unat (order_at (fst (arbor_capability_catalog_prepare wired_heap 4096 2 16384 20480 24576))
       (cap_catalog (fst (arbor_capability_catalog_prepare wired_heap 4096 2 16384 20480 24576)) 24576) i)) [0..<2])"
  using published_order_canonical [OF wired_prepares] by simp

theorem published_catalog_validates_witness:
  "arbor_capability_catalog_validate (fst (arbor_capability_catalog_prepare wired_heap 4096 2 16384 20480 24576)) 24576 = Inr ()"
  by (rule published_catalog_validates [OF wired_prepares])

theorem prepare_writes_only_its_arrays_witness:
  "cap_catalog (fst (arbor_capability_catalog_prepare knotted_heap 4096 1 16384 20480 24576)) = cap_catalog knotted_heap"
  using prepare_writes_only_its_arrays [of knotted_heap 4096 1 16384 20480 24576] knotted_fails by (simp add: Let_def refuse_def)

theorem find_reads_exports_witness:
  "arbor_capability_catalog_find (fst (arbor_capability_catalog_prepare wired_heap 4096 2 16384 20480 24576)) 24576
     \<lparr>id_high = 0, id_low = 7\<rparr> \<lparr>ver_major = 1, ver_minor = 2\<rparr> 16 4096 = Inr (binding_of table_7 1)"
  using find_reads_exports [OF wired_prepares, of "\<lparr>id_high = 0, id_low = 7\<rparr>" "\<lparr>ver_major = 1, ver_minor = 2\<rparr>" 16 4096]
  by (simp add: wired_pairs)
    (simp add: wired_heap_def example_objects capability_id_equal_def capability_id_is_zero_def version_satisfies_def binding_for_def)

theorem requirement_resolves_witness:
  "arbor_capability_catalog_resolve (fst (arbor_capability_catalog_prepare wired_heap 4096 2 16384 20480 24576)) 24576 0 0 4096 =
     Inr (binding_of table_7 1)"
proof -
  have "mod_consumes_count (module_at wired_heap 4096 0) = 1" "export_at wired_heap (module_at wired_heap 4096 1) 0 = table_7"
    by (simp_all add: wired_heap_def example_objects)
  then show ?thesis using requirement_resolves [OF wired_prepares, of 4096 0 0] by (simp add: wired_pairs binding_for_def)
qed

end
