(* ===== verification/Profile.thy ===== *)
theory Profile
  imports Checked_Math Capability_Types
begin

text \<open>
  The profiling sessions of \<open>src/c/profile.c\<close>. A session has an array of region identities and one of aggregates; a
  span is a token that carries the start of a measurement. Objects live in a heap with one store for each type. The
  clock is a function of the caller: it is given its address, its context and a world of its own, and does not touch
  the objects of the profiler.
\<close>

unbundle bit_operations_syntax

section \<open>The code: objects\<close>

record arbor_profile_aggregate =
  agg_sample_count :: u64
  agg_total_ns :: u64
  agg_min_ns :: u64
  agg_max_ns :: u64

record arbor_profile_region_result =
  res_id :: u64
  res_aggregate :: arbor_profile_aggregate

record arbor_profile_session =
  ses_abi_version :: u32
  ses_struct_size :: u32
  ses_flags :: u64
  ses_descriptors :: addr
  ses_aggregates :: addr
  ses_region_count :: u64
  ses_clock :: addr
  ses_clock_context :: addr
  ses_identity :: addr
  ses_prepared_guard :: u64

record arbor_profile_span =
  spn_abi_version :: u32
  spn_struct_size :: u32
  spn_flags :: u64
  spn_session :: addr
  spn_region_index :: u64
  spn_start_ns :: i64
  spn_identity :: addr
  spn_prepared_guard :: u64
  spn_active :: bool
  spn_reserved0 :: "u8 list"

text \<open>A descriptor is its identity.\<close>

record profile_heap =
  pf_session :: "addr \<Rightarrow> arbor_profile_session"
  pf_span :: "addr \<Rightarrow> arbor_profile_span"
  pf_descriptor :: "addr \<Rightarrow> u64"
  pf_aggregate :: "addr \<Rightarrow> arbor_profile_aggregate"
  pf_result :: "addr \<Rightarrow> arbor_profile_region_result"

type_synonym 'w arbor_profile_clock_fn = "addr \<Rightarrow> addr \<Rightarrow> 'w \<Rightarrow> i64 \<times> 'w"

abbreviation ARBOR_PROFILE_ABI_VERSION :: u32 where "ARBOR_PROFILE_ABI_VERSION \<equiv> 1"
abbreviation SIZEOF_PROFILE_DESCRIPTOR :: u64 where "SIZEOF_PROFILE_DESCRIPTOR \<equiv> 8"
abbreviation SIZEOF_PROFILE_AGGREGATE :: u64 where "SIZEOF_PROFILE_AGGREGATE \<equiv> 32"
abbreviation SIZEOF_PROFILE_RESULT :: u64 where "SIZEOF_PROFILE_RESULT \<equiv> 40"
abbreviation SIZEOF_PROFILE_SESSION :: u64 where "SIZEOF_PROFILE_SESSION \<equiv> 72"
abbreviation SIZEOF_PROFILE_SPAN :: u64 where "SIZEOF_PROFILE_SPAN \<equiv> 64"

abbreviation PROFILE_SESSION_GUARD_SEED :: u64 where "PROFILE_SESSION_GUARD_SEED \<equiv> 0x50524f46494c4530"
abbreviation PROFILE_SPAN_GUARD_SEED :: u64 where "PROFILE_SPAN_GUARD_SEED \<equiv> 0x50524f465350414e"
abbreviation PROFILE_FNV_PRIME :: u64 where "PROFILE_FNV_PRIME \<equiv> 1099511628211"

abbreviation ERANGE :: int where "ERANGE \<equiv> 34"

definition descriptor_slot :: "addr \<Rightarrow> nat \<Rightarrow> addr" where
  "descriptor_slot base i = base + of_nat i * SIZEOF_PROFILE_DESCRIPTOR"

definition aggregate_slot :: "addr \<Rightarrow> nat \<Rightarrow> addr" where
  "aggregate_slot base i = base + of_nat i * SIZEOF_PROFILE_AGGREGATE"

definition zero_aggregate :: arbor_profile_aggregate where
  "zero_aggregate = \<lparr>agg_sample_count = 0, agg_total_ns = 0, agg_min_ns = 0, agg_max_ns = 0\<rparr>"

definition zero_span :: arbor_profile_span where
  "zero_span = \<lparr>spn_abi_version = 0, spn_struct_size = 0, spn_flags = 0, spn_session = 0, spn_region_index = 0, spn_start_ns = 0,
     spn_identity = 0, spn_prepared_guard = 0, spn_active = False, spn_reserved0 = replicate 7 0\<rparr>"

section \<open>The code: checks\<close>

definition profile_fail :: "int \<Rightarrow> arbor_status + 'a" where
  "profile_fail errno = Inl (native_status (- errno))"

definition profile_guard_mix :: "u64 \<Rightarrow> u8 list \<Rightarrow> u64" where
  "profile_guard_mix state bytes = foldl (\<lambda>s b. (s XOR ucast b) * PROFILE_FNV_PRIME) state bytes"

text \<open>The bytes of an object, least significant first, as on the machines the library is built for.\<close>

definition bytes_u32 :: "u32 \<Rightarrow> u8 list" where
  "bytes_u32 w = map (\<lambda>i. ucast (drop_bit (8 * i) w)) [0..<4]"

definition bytes_u64 :: "u64 \<Rightarrow> u8 list" where
  "bytes_u64 w = map (\<lambda>i. ucast (drop_bit (8 * i) w)) [0..<8]"

definition profile_range_valid :: "addr \<Rightarrow> u64 \<Rightarrow> bool" where
  "profile_range_valid pointer len \<longleftrightarrow>
     \<not> (pointer = 0 \<or> len = 0) \<and> asm_status (range_end_checked pointer len) = 0"

definition profile_ranges_overlap :: "addr \<Rightarrow> u64 \<Rightarrow> addr \<Rightarrow> u64 \<Rightarrow> bool" where
  "profile_ranges_overlap left left_length right right_length \<longleftrightarrow>
     (if \<not> profile_range_valid left left_length \<or> \<not> profile_range_valid right right_length then True
      else
        let result = range_overlaps left left_length right right_length
        in asm_status result \<noteq> 0 \<or> asm_value result \<noteq> 0)"

definition profile_array_bytes :: "u64 \<Rightarrow> u64 \<Rightarrow> arbor_status + u64" where
  "profile_array_bytes count element_size =
     (if count = 0 \<or> element_size = 0 then profile_fail EINVAL
      else
        let product = u64_mul_checked count element_size
        in if asm_status product \<noteq> 0 then Inl (arbor_status_from_native (asm_status product))
           else if asm_value product = 0 then profile_fail EINVAL
           else Inr (asm_value product))"

definition profile_region_ids_valid :: "profile_heap \<Rightarrow> addr \<Rightarrow> nat \<Rightarrow> bool" where
  "profile_region_ids_valid h descriptors count \<longleftrightarrow>
     list_all (\<lambda>index. pf_descriptor h (descriptor_slot descriptors index) \<noteq> 0 \<and>
       list_all (\<lambda>prior. pf_descriptor h (descriptor_slot descriptors prior) \<noteq> pf_descriptor h (descriptor_slot descriptors index)) [0..<index])
       [0..<count]"

text \<open>The fields that the guard of a session covers, in the order of the calls of \<open>profile_guard_mix\<close>.\<close>

definition session_guard_fields :: "profile_heap \<Rightarrow> arbor_profile_session \<Rightarrow> u8 list list" where
  "session_guard_fields h session =
     [bytes_u32 (ses_abi_version session), bytes_u32 (ses_struct_size session), bytes_u64 (ses_flags session),
      bytes_u64 (ses_descriptors session), bytes_u64 (ses_aggregates session), bytes_u64 (ses_region_count session),
      bytes_u64 (ses_clock session), bytes_u64 (ses_clock_context session), bytes_u64 (ses_identity session)] @
     map (\<lambda>index. bytes_u64 (pf_descriptor h (descriptor_slot (ses_descriptors session) index))) [0..<unat (ses_region_count session)]"

definition profile_session_guard :: "profile_heap \<Rightarrow> arbor_profile_session \<Rightarrow> u64" where
  "profile_session_guard h session = NOT (foldl profile_guard_mix PROFILE_SESSION_GUARD_SEED (session_guard_fields h session))"

text \<open>
  \<open>Inr\<close> gives the sizes of the two arrays, which are stored through the out pointers of the callers that pass
  them.
\<close>

definition profile_session_runtime_validate :: "profile_heap \<Rightarrow> addr \<Rightarrow> arbor_status + u64 \<times> u64" where
  "profile_session_runtime_validate h session_ptr =
     (let session = pf_session h session_ptr
      in if session_ptr = 0 \<or> ses_abi_version session \<noteq> ARBOR_PROFILE_ABI_VERSION \<or>
            ses_struct_size session \<noteq> ucast SIZEOF_PROFILE_SESSION \<or> ses_flags session \<noteq> 0 \<or> ses_descriptors session = 0 \<or>
            ses_aggregates session = 0 \<or> ses_region_count session = 0 \<or> ses_clock session = 0 \<or> ses_identity session \<noteq> session_ptr
         then profile_fail EINVAL
         else
           then_ok (profile_array_bytes (ses_region_count session) SIZEOF_PROFILE_DESCRIPTOR) (\<lambda>descriptor_bytes.
           then_ok (profile_array_bytes (ses_region_count session) SIZEOF_PROFILE_AGGREGATE) (\<lambda>aggregate_bytes.
           if \<not> profile_range_valid session_ptr SIZEOF_PROFILE_SESSION \<or>
              \<not> profile_range_valid (ses_descriptors session) descriptor_bytes \<or>
              \<not> profile_range_valid (ses_aggregates session) aggregate_bytes \<or>
              profile_ranges_overlap session_ptr SIZEOF_PROFILE_SESSION (ses_descriptors session) descriptor_bytes \<or>
              profile_ranges_overlap session_ptr SIZEOF_PROFILE_SESSION (ses_aggregates session) aggregate_bytes \<or>
              profile_ranges_overlap (ses_descriptors session) descriptor_bytes (ses_aggregates session) aggregate_bytes \<or>
              \<not> profile_region_ids_valid h (ses_descriptors session) (unat (ses_region_count session)) \<or>
              ses_prepared_guard session \<noteq> profile_session_guard h session
           then profile_fail EINVAL
           else Inr (descriptor_bytes, aggregate_bytes))))"

text \<open>\<open>profile_object_all_zero\<close> on a span, which has no padding.\<close>

definition profile_object_all_zero :: "arbor_profile_span \<Rightarrow> bool" where
  "profile_object_all_zero span \<longleftrightarrow>
     spn_abi_version span = 0 \<and> spn_struct_size span = 0 \<and> spn_flags span = 0 \<and> spn_session span = 0 \<and> spn_region_index span = 0 \<and>
     spn_start_ns span = 0 \<and> spn_identity span = 0 \<and> spn_prepared_guard span = 0 \<and> \<not> spn_active span \<and>
     spn_reserved0 span = replicate 7 0"

definition profile_span_reserved_zero :: "arbor_profile_span \<Rightarrow> bool" where
  "profile_span_reserved_zero span \<longleftrightarrow> spn_reserved0 span = replicate 7 0"

definition profile_span_guard :: "arbor_profile_span \<Rightarrow> u64" where
  "profile_span_guard span =
     NOT (foldl profile_guard_mix PROFILE_SPAN_GUARD_SEED
       [bytes_u32 (spn_abi_version span), bytes_u32 (spn_struct_size span), bytes_u64 (spn_flags span), bytes_u64 (spn_session span),
        bytes_u64 (spn_region_index span), bytes_u64 (ucast (spn_start_ns span)), bytes_u64 (spn_identity span),
        [of_bool (spn_active span)], spn_reserved0 span])"

text \<open>The three calls of \<open>profile_ranges_overlap\<close> of an object against a session and its arrays.\<close>

definition overlaps_session :: "profile_heap \<Rightarrow> addr \<Rightarrow> u64 \<Rightarrow> addr \<Rightarrow> u64 \<times> u64 \<Rightarrow> bool" where
  "overlaps_session h pointer len session_ptr array_bytes \<longleftrightarrow>
     profile_ranges_overlap pointer len session_ptr SIZEOF_PROFILE_SESSION \<or>
     profile_ranges_overlap pointer len (ses_descriptors (pf_session h session_ptr)) (fst array_bytes) \<or>
     profile_ranges_overlap pointer len (ses_aggregates (pf_session h session_ptr)) (snd array_bytes)"

definition profile_span_runtime_validate :: "profile_heap \<Rightarrow> addr \<Rightarrow> arbor_status + unit" where
  "profile_span_runtime_validate h span_ptr =
     (let span = pf_span h span_ptr
      in if span_ptr = 0 \<or> \<not> spn_active span \<or> spn_abi_version span \<noteq> ARBOR_PROFILE_ABI_VERSION \<or>
            spn_struct_size span \<noteq> ucast SIZEOF_PROFILE_SPAN \<or> spn_flags span \<noteq> 0 \<or> spn_session span = 0 \<or> sint (spn_start_ns span) < 0 \<or>
            spn_identity span \<noteq> span_ptr \<or> \<not> profile_span_reserved_zero span \<or> spn_prepared_guard span \<noteq> profile_span_guard span
         then profile_fail EINVAL
         else
           then_ok (profile_session_runtime_validate h (spn_session span)) (\<lambda>array_bytes.
           if spn_region_index span \<ge> ses_region_count (pf_session h (spn_session span)) \<or>
              overlaps_session h span_ptr SIZEOF_PROFILE_SPAN (spn_session span) array_bytes
           then profile_fail EINVAL
           else Inr ()))"

section \<open>The code: sessions\<close>

fun zero_aggregates :: "addr \<Rightarrow> nat list \<Rightarrow> profile_heap \<Rightarrow> profile_heap" where
  "zero_aggregates base [] h = h"
| "zero_aggregates base (index # rest) h =
     zero_aggregates base rest (h\<lparr>pf_aggregate := (pf_aggregate h)(aggregate_slot base index := zero_aggregate)\<rparr>)"

definition arbor_profile_session_prepare ::
    "profile_heap \<Rightarrow> addr \<Rightarrow> addr \<Rightarrow> addr \<Rightarrow> u64 \<Rightarrow> addr \<Rightarrow> addr \<Rightarrow> profile_heap \<times> (arbor_status + unit)" where
  "arbor_profile_session_prepare h session descriptors aggregates region_count clock clock_context =
     (if session = 0 \<or> descriptors = 0 \<or> aggregates = 0 \<or> region_count = 0 \<or> clock = 0 then (h, profile_fail EINVAL)
      else
        case then_ok (profile_array_bytes region_count SIZEOF_PROFILE_DESCRIPTOR) (\<lambda>descriptor_bytes.
             then_ok (profile_array_bytes region_count SIZEOF_PROFILE_AGGREGATE) (\<lambda>aggregate_bytes.
             if \<not> profile_range_valid session SIZEOF_PROFILE_SESSION \<or>
                \<not> profile_range_valid descriptors descriptor_bytes \<or>
                \<not> profile_range_valid aggregates aggregate_bytes \<or>
                profile_ranges_overlap session SIZEOF_PROFILE_SESSION descriptors descriptor_bytes \<or>
                profile_ranges_overlap session SIZEOF_PROFILE_SESSION aggregates aggregate_bytes \<or>
                profile_ranges_overlap descriptors descriptor_bytes aggregates aggregate_bytes \<or>
                \<not> profile_region_ids_valid h descriptors (unat region_count)
             then profile_fail EINVAL
             else Inr ())) of
          Inl status \<Rightarrow> (h, Inl status)
        | Inr _ \<Rightarrow>
            (let candidate =
               \<lparr>ses_abi_version = ARBOR_PROFILE_ABI_VERSION, ses_struct_size = ucast SIZEOF_PROFILE_SESSION, ses_flags = 0,
                ses_descriptors = descriptors, ses_aggregates = aggregates, ses_region_count = region_count, ses_clock = clock,
                ses_clock_context = clock_context, ses_identity = session, ses_prepared_guard = 0\<rparr>;
               sealed = candidate\<lparr>ses_prepared_guard := profile_session_guard h candidate\<rparr>;
               cleared = zero_aggregates aggregates [0..<unat region_count] h
             in (cleared\<lparr>pf_session := (pf_session cleared)(session := sealed)\<rparr>, Inr ())))"

definition arbor_profile_session_validate :: "profile_heap \<Rightarrow> addr \<Rightarrow> arbor_status + unit" where
  "arbor_profile_session_validate h session = then_ok (profile_session_runtime_validate h session) (\<lambda>_. Inr ())"

definition arbor_profile_session_reset :: "profile_heap \<Rightarrow> addr \<Rightarrow> profile_heap \<times> (arbor_status + unit)" where
  "arbor_profile_session_reset h session =
     (case profile_session_runtime_validate h session of
        Inl status \<Rightarrow> (h, Inl status)
      | Inr _ \<Rightarrow>
          (zero_aggregates (ses_aggregates (pf_session h session)) [0..<unat (ses_region_count (pf_session h session))] h, Inr ()))"

definition arbor_profile_region_get :: "profile_heap \<Rightarrow> addr \<Rightarrow> u64 \<Rightarrow> addr \<Rightarrow> profile_heap \<times> (arbor_status + unit)" where
  "arbor_profile_region_get h session region_index result_out =
     (if session = 0 \<or> result_out = 0 then (h, profile_fail EINVAL)
      else
        case then_ok (profile_session_runtime_validate h session) (\<lambda>array_bytes.
             if region_index \<ge> ses_region_count (pf_session h session) \<or> \<not> profile_range_valid result_out SIZEOF_PROFILE_RESULT \<or>
                overlaps_session h result_out SIZEOF_PROFILE_RESULT session array_bytes
             then profile_fail EINVAL else Inr ()) of
          Inl status \<Rightarrow> (h, Inl status)
        | Inr _ \<Rightarrow>
            (let candidate =
               \<lparr>res_id = pf_descriptor h (descriptor_slot (ses_descriptors (pf_session h session)) (unat region_index)),
                res_aggregate = pf_aggregate h (aggregate_slot (ses_aggregates (pf_session h session)) (unat region_index))\<rparr>
             in (h\<lparr>pf_result := (pf_result h)(result_out := candidate)\<rparr>, Inr ())))"

section \<open>The code: spans\<close>

definition span_token :: "addr \<Rightarrow> u64 \<Rightarrow> i64 \<Rightarrow> addr \<Rightarrow> arbor_profile_span" where
  "span_token session region_index start_ns span_out =
     (let candidate =
        \<lparr>spn_abi_version = ARBOR_PROFILE_ABI_VERSION, spn_struct_size = ucast SIZEOF_PROFILE_SPAN, spn_flags = 0,
         spn_session = session, spn_region_index = region_index, spn_start_ns = start_ns, spn_identity = span_out,
         spn_prepared_guard = 0, spn_active = True, spn_reserved0 = replicate 7 0\<rparr>
      in candidate\<lparr>spn_prepared_guard := profile_span_guard candidate\<rparr>)"

definition arbor_profile_span_begin ::
    "'w arbor_profile_clock_fn \<Rightarrow> 'w \<Rightarrow> profile_heap \<Rightarrow> addr \<Rightarrow> u64 \<Rightarrow> addr \<Rightarrow> 'w \<times> profile_heap \<times> (arbor_status + unit)" where
  "arbor_profile_span_begin clock w h session region_index span_out =
     (if session = 0 \<or> span_out = 0 then (w, h, profile_fail EINVAL)
      else
        case then_ok (profile_session_runtime_validate h session) (\<lambda>array_bytes.
             if region_index \<ge> ses_region_count (pf_session h session) \<or> \<not> profile_range_valid span_out SIZEOF_PROFILE_SPAN \<or>
                overlaps_session h span_out SIZEOF_PROFILE_SPAN session array_bytes \<or>
                \<not> profile_object_all_zero (pf_span h span_out)
             then profile_fail EINVAL else Inr ()) of
          Inl status \<Rightarrow> (w, h, Inl status)
        | Inr _ \<Rightarrow>
            (case clock (ses_clock (pf_session h session)) (ses_clock_context (pf_session h session)) w of
               (start_ns, w') \<Rightarrow>
                 if sint start_ns < 0 then (w', h, Inl (arbor_status_from_native start_ns))
                 else (w', h\<lparr>pf_span := (pf_span h)(span_out := span_token session region_index start_ns span_out)\<rparr>, Inr ())))"

text \<open>The aggregate with one more sample, computed from checked sums.\<close>

definition add_sample :: "arbor_profile_aggregate \<Rightarrow> u64 \<Rightarrow> arbor_status + arbor_profile_aggregate" where
  "add_sample current duration =
     (let count = u64_add_checked (agg_sample_count current) 1; total = u64_add_checked (agg_total_ns current) duration
      in if asm_status count \<noteq> 0 then profile_fail EOVERFLOW
         else if asm_status total \<noteq> 0 then profile_fail EOVERFLOW
         else
           let candidate = current\<lparr>agg_sample_count := asm_value count, agg_total_ns := asm_value total\<rparr>
           in Inr (if agg_sample_count current = 0 then candidate\<lparr>agg_min_ns := duration, agg_max_ns := duration\<rparr>
                   else
                     let lower = (if duration < agg_min_ns current then candidate\<lparr>agg_min_ns := duration\<rparr> else candidate)
                     in if duration > agg_max_ns current then lower\<lparr>agg_max_ns := duration\<rparr> else lower))"

definition arbor_profile_span_end ::
    "'w arbor_profile_clock_fn \<Rightarrow> 'w \<Rightarrow> profile_heap \<Rightarrow> addr \<Rightarrow> 'w \<times> profile_heap \<times> (arbor_status + unit)" where
  "arbor_profile_span_end clock w h span_ptr =
     (case profile_span_runtime_validate h span_ptr of
        Inl status \<Rightarrow> (w, h, Inl status)
      | Inr _ \<Rightarrow>
          (let span = pf_span h span_ptr; session = pf_session h (spn_session span)
           in case clock (ses_clock session) (ses_clock_context session) w of
                (finish_ns, w') \<Rightarrow>
                  if sint finish_ns < 0 then (w', h, Inl (arbor_status_from_native finish_ns))
                  else if sint finish_ns < sint (spn_start_ns span) then (w', h, profile_fail ERANGE)
                  else
                    let duration = u64_sub_checked (ucast finish_ns) (ucast (spn_start_ns span))
                    in if asm_status duration \<noteq> 0 then (w', h, Inl (arbor_status_from_native (asm_status duration)))
                       else
                         let slot = aggregate_slot (ses_aggregates session) (unat (spn_region_index span))
                         in case add_sample (pf_aggregate h slot) (asm_value duration) of
                              Inl status \<Rightarrow> (w', h, Inl status)
                            | Inr candidate \<Rightarrow>
                                (w', h\<lparr>pf_aggregate := (pf_aggregate h)(slot := candidate), pf_span := (pf_span h)(span_ptr := zero_span)\<rparr>,
                                 Inr ())))"

end
