(* ===== verification/Profile_Facts.thy ===== *)
theory Profile_Facts
  imports Profile
begin

text \<open>
  What the functions of \<open>src/c/profile.c\<close> keep: a changed byte of a guarded object changes its guard, an aggregate
  is the summary of its samples, and the operations keep a session valid.
\<close>

section \<open>Guards\<close>

text \<open>The multiplier of the guard has an inverse, so no two states meet.\<close>

lemma prime_mult_inj: "(a :: u64) * PROFILE_FNV_PRIME = b * PROFILE_FNV_PRIME \<longleftrightarrow> a = b"
proof
  assume same: "a * PROFILE_FNV_PRIME = b * PROFILE_FNV_PRIME"
  have inverse: "PROFILE_FNV_PRIME * (14886173955864302971 :: u64) = 1" by simp
  have "a * (PROFILE_FNV_PRIME * 14886173955864302971) = b * (PROFILE_FNV_PRIME * 14886173955864302971)"
    using same by (simp only: mult.assoc [symmetric])
  then show "a = b" by (simp only: inverse mult_1_right)
qed simp

lemma guard_step_inj:
  "((s :: u64) XOR ucast (b :: u8)) * PROFILE_FNV_PRIME = (s' XOR ucast b) * PROFILE_FNV_PRIME \<longleftrightarrow> s = s'"
  "((s :: u64) XOR ucast (b :: u8)) * PROFILE_FNV_PRIME = (s XOR ucast b') * PROFILE_FNV_PRIME \<longleftrightarrow> b = b'"
proof -
  have undo: "x XOR (x XOR y) = y" "(y XOR x) XOR x = y" for x y :: u64
    by (rule bit_eqI, auto simp: bit_xor_iff)+
  have cancel: "(x XOR y = x XOR z) \<longleftrightarrow> y = z" "(y XOR x = z XOR x) \<longleftrightarrow> y = z" for x y z :: u64
    by (metis undo(1), metis undo(2))
  have "ucast (ucast c :: u64) = c" for c :: u8 by (rule ucast_up_ucast_id) (simp add: is_up)
  then have byte: "(ucast b :: u64) = ucast b' \<longleftrightarrow> b = b'" by metis
  show "(s XOR ucast b) * PROFILE_FNV_PRIME = (s' XOR ucast b) * PROFILE_FNV_PRIME \<longleftrightarrow> s = s'"
    unfolding prime_mult_inj cancel ..
  show "(s XOR ucast b) * PROFILE_FNV_PRIME = (s XOR ucast b') * PROFILE_FNV_PRIME \<longleftrightarrow> b = b'"
    unfolding prime_mult_inj cancel byte ..
qed

lemma guard_mix_inj: "profile_guard_mix s bytes = profile_guard_mix s' bytes \<longleftrightarrow> s = s'"
  by (induction bytes arbitrary: s s') (simp_all add: profile_guard_mix_def guard_step_inj(1))

lemma guard_mix_append: "profile_guard_mix s (xs @ ys) = profile_guard_mix (profile_guard_mix s xs) ys"
  by (simp add: profile_guard_mix_def)

lemma guard_mix_concat: "foldl profile_guard_mix s parts = profile_guard_mix s (concat parts)"
  by (induction parts arbitrary: s) (simp_all add: guard_mix_append, simp add: profile_guard_mix_def)

lemma guard_mix_one_byte:
  assumes "i < length bytes" and "b \<noteq> bytes ! i"
  shows "profile_guard_mix s (bytes[i := b]) \<noteq> profile_guard_mix s bytes"
proof -
  have bytes: "bytes = take i bytes @ [bytes ! i] @ drop (Suc i) bytes" using assms(1) by (simp add: id_take_nth_drop [symmetric])
  have changed: "bytes[i := b] = take i bytes @ b # drop (Suc i) bytes" using assms(1) by (simp add: upd_conv_take_nth_drop)
  have turn: "profile_guard_mix t (c # rest) = profile_guard_mix ((t XOR ucast c) * PROFILE_FNV_PRIME) rest" for t c rest
    by (simp add: profile_guard_mix_def)
  have "profile_guard_mix s bytes = profile_guard_mix s (take i bytes @ bytes ! i # drop (Suc i) bytes)"
    using arg_cong [OF bytes, of "profile_guard_mix s"] by simp
  then show ?thesis unfolding changed using assms(2) by (simp add: guard_mix_append guard_mix_inj turn guard_step_inj(2) del: append_Cons)
qed

section \<open>Aggregates\<close>

text \<open>The summary of a list of durations.\<close>

definition summarises :: "arbor_profile_aggregate \<Rightarrow> nat list \<Rightarrow> bool" where
  "summarises agg ds \<longleftrightarrow>
     unat (agg_sample_count agg) = length ds \<and> unat (agg_total_ns agg) = sum_list ds \<and>
     unat (agg_min_ns agg) = (if ds = [] then 0 else Min (set ds)) \<and> unat (agg_max_ns agg) = (if ds = [] then 0 else Max (set ds))"

lemma zero_summarises [simp]: "summarises zero_aggregate []"
  by (simp add: summarises_def zero_aggregate_def)

lemma add_sample_summarises:
  assumes "summarises agg ds"
  shows "case add_sample agg d of
      Inl status \<Rightarrow> status = native_status (- EOVERFLOW) \<and>
        (18446744073709551616 \<le> length ds + 1 \<or> 18446744073709551616 \<le> sum_list ds + unat d)
    | Inr agg' \<Rightarrow> summarises agg' (ds @ [unat d])"
proof -
  have counts: "unat (agg_sample_count agg) = length ds" "unat (agg_total_ns agg) = sum_list ds" using assms by (simp_all add: summarises_def)
  show ?thesis
  proof (cases "carry (agg_sample_count agg) 1 \<or> carry (agg_total_ns agg) d")
    case True
    then show ?thesis
      by (auto simp: add_sample_def u64_add_checked_def Let_def profile_fail_def carry_def counts)
  next
    case False
    then have sums: "unat (agg_sample_count agg + 1) = length ds + 1" "unat (agg_total_ns agg + d) = sum_list ds + unat d"
      using counts no_carry_add by fastforce+
    have empty: "agg_sample_count agg = 0 \<longleftrightarrow> ds = []" using counts(1) by (metis length_0_conv unat_eq_zero)
    show ?thesis
    proof (cases "ds = []")
      case True
      then show ?thesis using False sums empty by (simp add: add_sample_def u64_add_checked_def Let_def summarises_def)
    next
      case ne: False
      obtain lo hi where ends: "Min (set ds) = lo" "Max (set ds) = hi" "lo \<le> hi" "unat (agg_min_ns agg) = lo" "unat (agg_max_ns agg) = hi"
        using assms ne Min_le [of "set ds" "hd ds"] Max_ge [of "set ds" "hd ds"] by (force simp: summarises_def)
      have new: "summarises a (ds @ [unat d]) \<longleftrightarrow> unat (agg_sample_count a) = length ds + 1 \<and> unat (agg_total_ns a) = sum_list ds + unat d \<and>
          unat (agg_min_ns a) = min (unat d) lo \<and> unat (agg_max_ns a) = max (unat d) hi" for a
        using ne by (simp add: summarises_def ends(1,2) del: Min_insert2 Max_insert2)
      show ?thesis
        using False sums empty ne ends(3-)
        by (auto simp: add_sample_def u64_add_checked_def Let_def new word_less_nat_alt)
    qed
  qed
qed

section \<open>Sessions\<close>

text \<open>The checks of a session read the session and the identities of its regions.\<close>

lemma session_validate_reads:
  assumes "pf_session g = pf_session h" and "pf_descriptor g = pf_descriptor h"
  shows "profile_session_runtime_validate g sp = profile_session_runtime_validate h sp"
  using assms
  by (simp only: profile_session_runtime_validate_def profile_region_ids_valid_def profile_session_guard_def session_guard_fields_def)

lemma array_bytes_ok:
  assumes "profile_array_bytes count width = Inr bytes"
  shows "unat bytes = unat count * unat width"
proof -
  have "unat count * unat width < 18446744073709551616" "bytes = count * width"
    using assms by (auto simp: profile_array_bytes_def u64_mul_checked_def Let_def profile_fail_def div_eq_0_iff split: if_splits)
  then show ?thesis by (simp add: unat_mult_lem [THEN iffD1])
qed

lemma session_aggregates_ok:
  assumes "profile_session_runtime_validate h sp = Inr sizes"
  shows "array_ok (ses_aggregates (pf_session h sp)) (ses_region_count (pf_session h sp)) SIZEOF_PROFILE_AGGREGATE"
proof -
  let ?session = "pf_session h sp"
  obtain bytes where "profile_array_bytes (ses_region_count ?session) SIZEOF_PROFILE_AGGREGATE = Inr bytes"
    "profile_range_valid (ses_aggregates ?session) bytes"
    using assms by (auto simp: profile_session_runtime_validate_def Let_def profile_fail_def then_ok_Inr_iff split: if_splits)
  then show ?thesis
    using array_bytes_ok [of "ses_region_count ?session" SIZEOF_PROFILE_AGGREGATE bytes]
    by (auto simp: array_ok_def profile_range_valid_def range_end_checked_def carry_def split: if_splits)
qed

lemma session_slots:
  assumes "profile_session_runtime_validate h sp = Inr sizes"
    and "i < unat (ses_region_count (pf_session h sp))" and "j < unat (ses_region_count (pf_session h sp))"
  shows "aggregate_slot (ses_aggregates (pf_session h sp)) i = aggregate_slot (ses_aggregates (pf_session h sp)) j \<longleftrightarrow> i = j"
  using slot_inj [OF session_aggregates_ok [OF assms(1)] _ assms(2,3)] by (simp add: aggregate_slot_def)

lemma zero_aggregates_ok:
  "(\<forall>i \<in> set is. pf_aggregate (zero_aggregates base is h) (aggregate_slot base i) = zero_aggregate) \<and>
   (\<exists>f. zero_aggregates base is h = h\<lparr>pf_aggregate := f\<rparr> \<and> (\<forall>a. pf_aggregate h a = zero_aggregate \<longrightarrow> f a = zero_aggregate))"
proof (induction "is" arbitrary: h)
  case Nil
  then show ?case by (auto intro!: exI [of _ "pf_aggregate h"])
next
  case (Cons i "is")
  define g where "g = h\<lparr>pf_aggregate := (pf_aggregate h)(aggregate_slot base i := zero_aggregate)\<rparr>"
  obtain f where f: "\<forall>i \<in> set is. pf_aggregate (zero_aggregates base is g) (aggregate_slot base i) = zero_aggregate"
    "zero_aggregates base is g = g\<lparr>pf_aggregate := f\<rparr>" "\<forall>a. pf_aggregate g a = zero_aggregate \<longrightarrow> f a = zero_aggregate"
    using Cons.IH [of g] by blast
  then show ?case by (auto simp: g_def)
qed

section \<open>Spans\<close>

definition region_slot :: "profile_heap \<Rightarrow> addr \<Rightarrow> nat \<Rightarrow> addr" where
  "region_slot h sp r = aggregate_slot (ses_aggregates (pf_session h sp)) r"

abbreviation session_valid :: "profile_heap \<Rightarrow> addr \<Rightarrow> bool" where
  "session_valid h sp \<equiv> arbor_profile_session_validate h sp = Inr ()"

lemma session_valid_iff: "session_valid h sp \<longleftrightarrow> (\<exists>sizes. profile_session_runtime_validate h sp = Inr sizes)"
  by (auto simp: arbor_profile_session_validate_def then_ok_Inr_iff)

text \<open>A token of \<open>arbor_profile_span_begin\<close> passes the checks of \<open>arbor_profile_span_end\<close>.\<close>

lemma token_validates:
  assumes "profile_session_runtime_validate h sp = Inr sizes" and "span_ptr \<noteq> 0" and "sp \<noteq> 0" and "0 \<le> sint start"
    and "r < ses_region_count (pf_session h sp)" and "\<not> overlaps_session h span_ptr SIZEOF_PROFILE_SPAN sp sizes"
    and "pf_span h span_ptr = span_token sp r start span_ptr"
  shows "profile_span_runtime_validate h span_ptr = Inr ()"
  using assms
  by (auto simp: profile_span_runtime_validate_def span_token_def Let_def profile_span_reserved_zero_def profile_span_guard_def)

lemma duration_exact:
  assumes "0 \<le> sint (start :: i64)" and "sint start \<le> sint (finish :: i64)"
  shows "u64_sub_checked (ucast finish) (ucast start) = asm_ok (ucast finish - ucast start)"
    and "unat (ucast finish - ucast start :: u64) = nat (sint finish - sint start)"
proof -
  have unsigned: "unat (ucast x :: u64) = nat (sint x)" if "0 \<le> sint x" for x :: i64
  proof -
    have "unat (of_nat (nat (sint x)) :: u64) = nat (sint x)"
      by (rule unat_of_nat_u64) (use sint_i64_upper [of x] in linarith)
    moreover have "of_nat (nat (sint x)) = x" using that by simp
    ultimately show ?thesis by simp
  qed
  have ends: "unat (ucast start :: u64) = nat (sint start)" "unat (ucast finish :: u64) = nat (sint finish)"
    using unsigned assms by auto
  then have le: "(ucast start :: u64) \<le> ucast finish" using assms(2) by (simp add: word_le_nat_alt nat_mono)
  then show "u64_sub_checked (ucast finish) (ucast start) = asm_ok (ucast finish - ucast start)"
    unfolding u64_sub_checked_def by (simp only: not_less [THEN iffD2] if_False)
  show "unat (ucast finish - ucast start :: u64) = nat (sint finish - sint start)"
    using unat_sub [OF le] ends assms by (simp add: nat_diff_distrib)
qed

end
