(* ===== verification/Profile_Properties.thy ===== *)
theory Profile_Properties
  imports Profile_Facts
begin

text \<open>
  The properties of the profiling sessions of \<open>src/c/profile.c\<close>: the calls as a step relation with the durations
  measured so far, and a session on which every hypothesis is met.
\<close>

section \<open>Calls on a session\<close>

text \<open>
  A state is the world of the clock, the objects, and for every region the durations of the spans that have
  ended. All spans belong to the session; a call may be refused.
\<close>

type_synonym 'w profile_state = "'w \<times> profile_heap \<times> (nat \<Rightarrow> nat list)"

inductive profile_step :: "'w arbor_profile_clock_fn \<Rightarrow> addr \<Rightarrow> 'w profile_state \<Rightarrow> 'w profile_state \<Rightarrow> bool"
  for clock :: "'w arbor_profile_clock_fn" and session :: addr
where
  step_begin: "arbor_profile_span_begin clock w h session region span = (w', h', result) \<Longrightarrow>
     profile_step clock session (w, h, log) (w', h', log)"
| step_end: "spn_session (pf_span h span) = session \<Longrightarrow> arbor_profile_span_end clock w h span = (w', h', Inr ()) \<Longrightarrow>
     r = unat (spn_region_index (pf_span h span)) \<Longrightarrow>
     d = nat (sint (fst (clock (ses_clock (pf_session h session)) (ses_clock_context (pf_session h session)) w)) -
       sint (spn_start_ns (pf_span h span))) \<Longrightarrow>
     profile_step clock session (w, h, log) (w', h', log(r := log r @ [d]))"
| step_end_refused: "arbor_profile_span_end clock w h span = (w', h', Inl status) \<Longrightarrow>
     profile_step clock session (w, h, log) (w', h', log)"
| step_reset: "arbor_profile_session_reset h session = (h', Inr ()) \<Longrightarrow>
     profile_step clock session (w, h, log) (w, h', \<lambda>_. [])"
| step_reset_refused: "arbor_profile_session_reset h session = (h', Inl status) \<Longrightarrow>
     profile_step clock session (w, h, log) (w, h', log)"
| step_get: "arbor_profile_region_get h session region result_out = (h', result) \<Longrightarrow>
     profile_step clock session (w, h, log) (w, h', log)"

inductive_cases profile_stepE: "profile_step clock session s s'"

definition profile_ok :: "addr \<Rightarrow> 'w profile_state \<Rightarrow> bool" where
  "profile_ok session s \<longleftrightarrow>
     (case s of (w, h, log) \<Rightarrow>
        session_valid h session \<and>
        (\<forall>r < unat (ses_region_count (pf_session h session)). summarises (pf_aggregate h (region_slot h session r)) (log r)))"

lemma span_end_cases:
  assumes "arbor_profile_span_end clock w h span = (w', h', result)"
  shows "case result of
      Inl status \<Rightarrow> h' = h
    | Inr _ \<Rightarrow>
        (let token = pf_span h span; sp = spn_session token; r = unat (spn_region_index token);
             finish = fst (clock (ses_clock (pf_session h sp)) (ses_clock_context (pf_session h sp)) w)
         in profile_span_runtime_validate h span = Inr () \<and> sint (spn_start_ns token) \<le> sint finish \<and>
            (\<exists>agg d. unat d = nat (sint finish - sint (spn_start_ns token)) \<and>
               add_sample (pf_aggregate h (region_slot h sp r)) d = Inr agg \<and>
               h' = h\<lparr>pf_aggregate := (pf_aggregate h)(region_slot h sp r := agg), pf_span := (pf_span h)(span := zero_span)\<rparr>))"
proof -
  let ?token = "pf_span h span"
  let ?session = "pf_session h (spn_session ?token)"
  obtain finish w2 where clock: "clock (ses_clock ?session) (ses_clock_context ?session) w = (finish, w2)" by fastforce
  show ?thesis
  proof (cases "profile_span_runtime_validate h span")
    case (Inl status)
    then have "h' = h" "result = Inl status" using assms by (simp_all add: arbor_profile_span_end_def)
    then show ?thesis by simp
  next
    case (Inr u)
    then have valid: "profile_span_runtime_validate h span = Inr ()" by simp
    then have start: "0 \<le> sint (spn_start_ns ?token)"
      by (auto simp: profile_span_runtime_validate_def Let_def profile_fail_def split: if_splits)
    show ?thesis
    proof (cases "sint (spn_start_ns ?token) \<le> sint finish")
      case False
      then show ?thesis
        using assms valid clock by (auto simp: arbor_profile_span_end_def Let_def profile_fail_def split: if_splits)
    next
      case True
      note exact = duration_exact [OF start True]
      show ?thesis
        using assms valid clock True start exact
        by (auto simp: arbor_profile_span_end_def Let_def region_slot_def profile_fail_def split: sum.splits if_splits)
    qed
  qed
qed

lemma span_region:
  assumes "profile_span_runtime_validate h span = Inr ()"
  shows "unat (spn_region_index (pf_span h span)) < unat (ses_region_count (pf_session h (spn_session (pf_span h span))))"
  using assms
  by (auto simp: profile_span_runtime_validate_def Let_def profile_fail_def then_ok_Inr_iff word_less_nat_alt not_le split: if_splits)

lemma reset_cases:
  assumes "arbor_profile_session_reset h session = (h', result)"
  shows "case result of
      Inl status \<Rightarrow> h' = h
    | Inr _ \<Rightarrow> (\<exists>f. h' = h\<lparr>pf_aggregate := f\<rparr> \<and>
        (\<forall>r < unat (ses_region_count (pf_session h session)). f (region_slot h session r) = zero_aggregate))"
proof -
  let ?cleared = "zero_aggregates (ses_aggregates (pf_session h session)) [0..<unat (ses_region_count (pf_session h session))] h"
  obtain f where f: "?cleared = h\<lparr>pf_aggregate := f\<rparr>"
    "\<forall>r < unat (ses_region_count (pf_session h session)). pf_aggregate ?cleared (region_slot h session r) = zero_aggregate"
    using zero_aggregates_ok [of "[0..<unat (ses_region_count (pf_session h session))]" "ses_aggregates (pf_session h session)" h]
    by (auto simp: region_slot_def)
  show ?thesis
  proof (cases result)
    case (Inl status)
    then show ?thesis using assms by (simp add: arbor_profile_session_reset_def split: sum.splits)
  next
    case (Inr u)
    then have "h' = ?cleared" using assms by (simp add: arbor_profile_session_reset_def split: sum.splits)
    then show ?thesis using f unfolding Inr sum.case by (intro exI [of _ f]) simp
  qed
qed

lemma begin_frame:
  assumes "arbor_profile_span_begin clock w h session region span = (w', h', result)"
  shows "\<exists>f. h' = h\<lparr>pf_span := f\<rparr>"
  using assms by (auto simp: arbor_profile_span_begin_def intro: exI [of _ "pf_span h"] split: if_splits sum.splits prod.splits)

lemma get_frame:
  assumes "arbor_profile_region_get h session region result_out = (h', result)"
  shows "\<exists>f. h' = h\<lparr>pf_result := f\<rparr>"
  using assms by (auto simp: arbor_profile_region_get_def Let_def intro: exI [of _ "pf_result h"] split: if_splits sum.splits)

lemma session_valid_reads:
  "pf_session g = pf_session h \<Longrightarrow> pf_descriptor g = pf_descriptor h \<Longrightarrow> session_valid g session \<longleftrightarrow> session_valid h session"
  using session_validate_reads [of g h session] by (simp add: arbor_profile_session_validate_def)

lemma profile_ok_frame:
  assumes "profile_ok session (w, h, log)" and "pf_session g = pf_session h" and "pf_descriptor g = pf_descriptor h"
    and "pf_aggregate g = pf_aggregate h"
  shows "profile_ok session (w', g, log)"
  using assms session_valid_reads [of g h session] by (simp add: profile_ok_def region_slot_def)

lemma profile_step_ok:
  assumes "profile_step clock session s s'" and "profile_ok session s"
  shows "profile_ok session s'"
  using assms
proof cases
  case (step_begin w h region span w' h' result log)
  then show ?thesis using begin_frame profile_ok_frame [of session w h log h' w'] assms(2) by fastforce
next
  case (step_end h span w w' h' r d log)
  let ?n = "unat (ses_region_count (pf_session h session))"
  have ok: "session_valid h session" "\<And>r. r < ?n \<Longrightarrow> summarises (pf_aggregate h (region_slot h session r)) (log r)"
    using assms(2) step_end(1) by (simp_all add: profile_ok_def)
  obtain agg e where e: "unat e = d" "add_sample (pf_aggregate h (region_slot h session r)) e = Inr agg"
    "h' = h\<lparr>pf_aggregate := (pf_aggregate h)(region_slot h session r := agg), pf_span := (pf_span h)(span := zero_span)\<rparr>"
    and valid: "profile_span_runtime_validate h span = Inr ()"
    using span_end_cases [OF step_end(4)] step_end(3,5,6) by (auto simp: Let_def)
  have r: "r < ?n" using span_region [OF valid] step_end(3,5) by simp
  then have new: "summarises agg (log r @ [d])"
    using add_sample_summarises [OF ok(2) [OF r], of e] e(1,2) by simp
  have "region_slot h session q = region_slot h session r \<longleftrightarrow> q = r" if "q < ?n" for q
    using ok(1) session_slots that r by (auto simp: session_valid_iff region_slot_def)
  moreover have "session_valid h' session" using ok(1) session_valid_reads [of h' h session] by (simp add: e(3))
  ultimately show ?thesis using new ok(2) step_end(2) by (auto simp: profile_ok_def e(3) region_slot_def)
next
  case (step_end_refused w h span w' h' status log)
  then show ?thesis using span_end_cases profile_ok_frame [of session w h log h' w'] assms(2) by fastforce
next
  case (step_reset h h' w log)
  obtain f where f: "h' = h\<lparr>pf_aggregate := f\<rparr>"
    "\<forall>r < unat (ses_region_count (pf_session h session)). f (region_slot h session r) = zero_aggregate"
    using reset_cases [OF step_reset(3)] by auto
  then show ?thesis
    using assms(2) step_reset(1,2) session_valid_reads [of h' h session] by (simp add: profile_ok_def region_slot_def)
next
  case (step_reset_refused h h' status w log)
  then show ?thesis using reset_cases profile_ok_frame [of session w h log h' w] assms(2) by fastforce
next
  case (step_get h region result_out h' result w log)
  then show ?thesis using get_frame profile_ok_frame [of session w h log h' w] assms(2) by fastforce
qed

lemma session_prepared_ok:
  assumes "arbor_profile_session_prepare h session descriptors aggregates region_count clock clock_context = (h', Inr ())"
  shows "profile_ok session (w, h', \<lambda>_. [])"
proof -
  define candidate where "candidate = \<lparr>ses_abi_version = ARBOR_PROFILE_ABI_VERSION, ses_struct_size = ucast SIZEOF_PROFILE_SESSION,
    ses_flags = 0, ses_descriptors = descriptors, ses_aggregates = aggregates, ses_region_count = region_count, ses_clock = clock,
    ses_clock_context = clock_context, ses_identity = session, ses_prepared_guard = 0\<rparr>"
  define sealed where "sealed = candidate\<lparr>ses_prepared_guard := profile_session_guard h candidate\<rparr>"
  define cleared where "cleared = zero_aggregates aggregates [0..<unat region_count] h"
  have pointers: "\<not> (session = 0 \<or> descriptors = 0 \<or> aggregates = 0 \<or> region_count = 0 \<or> clock = 0)"
    using assms by (auto simp: arbor_profile_session_prepare_def profile_fail_def)
  have h': "h' = cleared\<lparr>pf_session := (pf_session cleared)(session := sealed)\<rparr>"
    using assms by (auto simp: arbor_profile_session_prepare_def Let_def candidate_def sealed_def cleared_def profile_fail_def split: if_splits sum.splits)
  obtain f where f: "cleared = h\<lparr>pf_aggregate := f\<rparr>"
    "\<forall>r < unat region_count. pf_aggregate cleared (aggregate_slot aggregates r) = zero_aggregate"
    using zero_aggregates_ok [of "[0..<unat region_count]" aggregates h] by (auto simp: cleared_def)
  obtain db ab where sizes: "profile_array_bytes region_count SIZEOF_PROFILE_DESCRIPTOR = Inr db"
    "profile_array_bytes region_count SIZEOF_PROFILE_AGGREGATE = Inr ab"
    and ranges: "profile_range_valid session SIZEOF_PROFILE_SESSION" "profile_range_valid descriptors db" "profile_range_valid aggregates ab"
      "\<not> profile_ranges_overlap session SIZEOF_PROFILE_SESSION descriptors db"
      "\<not> profile_ranges_overlap session SIZEOF_PROFILE_SESSION aggregates ab" "\<not> profile_ranges_overlap descriptors db aggregates ab"
      "profile_region_ids_valid h descriptors (unat region_count)"
    using assms pointers
    by (cases "profile_array_bytes region_count SIZEOF_PROFILE_DESCRIPTOR"; cases "profile_array_bytes region_count SIZEOF_PROFILE_AGGREGATE")
      (auto simp: arbor_profile_session_prepare_def profile_fail_def split: if_splits)
  have same: "pf_session h' session = sealed" "pf_descriptor h' = pf_descriptor h" "pf_aggregate h' = pf_aggregate cleared"
    by (simp_all add: h' f(1))
  have "profile_session_guard h' sealed = profile_session_guard h candidate"
    by (simp add: profile_session_guard_def session_guard_fields_def same(2) sealed_def)
  moreover have "profile_region_ids_valid h' descriptors (unat region_count)"
    using ranges(7) by (simp add: profile_region_ids_valid_def same(2))
  ultimately have "profile_session_runtime_validate h' session = Inr (db, ab)"
    using pointers sizes ranges by (simp add: profile_session_runtime_validate_def same(1) Let_def sealed_def candidate_def)
  moreover have "ses_region_count sealed = region_count" "ses_aggregates sealed = aggregates" by (simp_all add: sealed_def candidate_def)
  ultimately show ?thesis
    using f(2) by (simp add: profile_ok_def arbor_profile_session_validate_def region_slot_def same)
qed

section \<open>What the aggregates hold\<close>

text \<open>after \<open>arbor_profile_session_prepare\<close> and any sequence of calls on the session, with any clock and also when calls are
  refused, the session is valid and the aggregate of every region is the summary of the durations of the spans that have
  ended since the last reset: their number, their exact sum, the least and the greatest.\<close>

theorem aggregates_summarise_spans:
  assumes "arbor_profile_session_prepare h session descriptors aggregates region_count clock_fn clock_context = (h0, Inr ())"
    and "rtranclp (profile_step clock session) (w, h0, \<lambda>_. []) (w', h', log)"
  shows "arbor_profile_session_validate h' session = Inr () \<and>
    (\<forall>r. r < unat (ses_region_count (pf_session h' session)) \<longrightarrow>
       summarises (pf_aggregate h' (aggregate_slot (ses_aggregates (pf_session h' session)) r)) (log r))"
proof -
  have "profile_ok session s'" if "rtranclp (profile_step clock session) s s'" "profile_ok session s" for s s'
    using that by induction (auto intro: profile_step_ok)
  from this [OF assms(2) session_prepared_ok [OF assms(1)]] show ?thesis by (simp add: profile_ok_def region_slot_def)
qed

section \<open>Spans end\<close>

lemma begun_token:
  assumes "arbor_profile_span_begin clock w h session region span = (w1, h1, Inr ())"
  shows "\<exists>sizes start. profile_session_runtime_validate h session = Inr sizes \<and> 0 \<le> sint start \<and> span \<noteq> 0 \<and> session \<noteq> 0 \<and>
    region < ses_region_count (pf_session h session) \<and> \<not> overlaps_session h span SIZEOF_PROFILE_SPAN session sizes \<and>
    h1 = h\<lparr>pf_span := (pf_span h)(span := span_token session region start span)\<rparr>"
proof -
  obtain sizes where sizes: "profile_session_runtime_validate h session = Inr sizes"
    using assms
    by (cases "profile_session_runtime_validate h session") (auto simp: arbor_profile_span_begin_def profile_fail_def split: if_splits)
  obtain start w' where read: "clock (ses_clock (pf_session h session)) (ses_clock_context (pf_session h session)) w = (start, w')"
    by (cases "clock (ses_clock (pf_session h session)) (ses_clock_context (pf_session h session)) w") blast
  show ?thesis
    using assms sizes read
    by (intro exI [of _ sizes] exI [of _ start])
      (auto simp: arbor_profile_span_begin_def profile_fail_def not_le not_less split: if_splits)
qed

text \<open>a span that \<open>arbor_profile_span_begin\<close> has started can be ended at any later time, as long as the session and the
  token are untouched and the clock has not gone back: \<open>arbor_profile_span_end\<close> succeeds unless a sum would overflow,
  adds exactly the elapsed time to the region and to nothing else, and clears the token.\<close>

theorem begun_span_ends:
  assumes "arbor_profile_span_begin clock w h session region span = (w1, h1, Inr ())"
    and "pf_session h2 = pf_session h1" and "pf_descriptor h2 = pf_descriptor h1" and "pf_span h2 span = pf_span h1 span"
    and "clock (ses_clock (pf_session h2 session)) (ses_clock_context (pf_session h2 session)) w2 = (finish, w3)"
    and "sint (spn_start_ns (pf_span h2 span)) \<le> sint finish"
  defines "slot \<equiv> aggregate_slot (ses_aggregates (pf_session h2 session)) (unat region)"
    and "d \<equiv> nat (sint finish - sint (spn_start_ns (pf_span h2 span)))"
  assumes "summarises (pf_aggregate h2 slot) ds"
    and "length ds + 1 < 18446744073709551616" and "sum_list ds + d < 18446744073709551616"
  shows "\<exists>agg. summarises agg (ds @ [d]) \<and>
    arbor_profile_span_end clock w2 h2 span =
      (w3, h2\<lparr>pf_aggregate := (pf_aggregate h2)(slot := agg), pf_span := (pf_span h2)(span := zero_span)\<rparr>, Inr ())"
proof -
  obtain sizes start where token: "profile_session_runtime_validate h session = Inr sizes" "0 \<le> sint start" "span \<noteq> 0" "session \<noteq> 0"
    "region < ses_region_count (pf_session h session)" "\<not> overlaps_session h span SIZEOF_PROFILE_SPAN session sizes"
    "h1 = h\<lparr>pf_span := (pf_span h)(span := span_token session region start span)\<rparr>"
    using begun_token [OF assms(1)] by blast
  have same: "pf_session h2 = pf_session h" "pf_descriptor h2 = pf_descriptor h" "pf_span h2 span = span_token session region start span"
    using assms(2-4) token(7) by simp_all
  have fields: "spn_session (pf_span h2 span) = session" "spn_region_index (pf_span h2 span) = region" "spn_start_ns (pf_span h2 span) = start"
    by (simp_all add: same(3) span_token_def Let_def)
  have "overlaps_session h2 span SIZEOF_PROFILE_SPAN session sizes = overlaps_session h span SIZEOF_PROFILE_SPAN session sizes"
    by (simp add: overlaps_session_def same(1))
  then have valid: "profile_span_runtime_validate h2 span = Inr ()"
    using token_validates [of h2 session sizes span start region] token same session_validate_reads [OF same(1,2)] by simp
  have le: "sint start \<le> sint finish" using assms(6) fields by simp
  note exact = duration_exact [OF token(2) le]
  obtain agg where agg: "add_sample (pf_aggregate h2 slot) (ucast finish - ucast start) = Inr agg" "summarises agg (ds @ [d])"
    using add_sample_summarises [OF assms(9), of "ucast finish - ucast start"] exact(2) assms(10,11) fields
    by (auto simp: d_def split: sum.splits)
  have "arbor_profile_span_end clock w2 h2 span =
      (w3, h2\<lparr>pf_aggregate := (pf_aggregate h2)(slot := agg), pf_span := (pf_span h2)(span := zero_span)\<rparr>, Inr ())"
    using valid assms(5) le token(2) agg(1) exact(1)
    by (simp add: arbor_profile_span_end_def Let_def fields slot_def)
  then show ?thesis using agg(2) by blast
qed

section \<open>Changed sessions\<close>

text \<open>when a single byte of what the guard of a valid session covers is changed, a field of the session or the identity of a
  region, and the stored guard is not, \<open>arbor_profile_session_validate\<close> rejects the session.\<close>

theorem changed_byte_rejected:
  assumes "arbor_profile_session_validate h session = Inr ()"
  defines "guarded \<equiv> concat (session_guard_fields h (pf_session h session))"
  assumes "concat (session_guard_fields h' (pf_session h' session)) = guarded[i := b]" and "i < length guarded" and "b \<noteq> guarded ! i"
    and "ses_prepared_guard (pf_session h' session) = ses_prepared_guard (pf_session h session)"
  shows "arbor_profile_session_validate h' session \<noteq> Inr ()"
proof
  have guard: "ses_prepared_guard (pf_session g session) = NOT (profile_guard_mix PROFILE_SESSION_GUARD_SEED (concat (session_guard_fields g (pf_session g session))))"
    if "arbor_profile_session_validate g session = Inr ()" for g
    using that
    by (auto simp: arbor_profile_session_validate_def profile_session_runtime_validate_def profile_session_guard_def guard_mix_concat
        profile_fail_def Let_def then_ok_Inr_iff split: if_splits)
  assume "arbor_profile_session_validate h' session = Inr ()"
  from guard [OF this] guard [OF assms(1)] show False
    using guard_mix_one_byte [OF assms(4,5), of PROFILE_SESSION_GUARD_SEED] assms(3,6) by (simp add: guarded_def)
qed

end
