(* ===== verification/Spec2Isabelle.thy ===== *)
theory Spec2Isabelle
  imports Geometry_Properties Renderer_Properties Ddd_Properties Http_Properties Config_Properties Capability_Properties Profile_Properties
begin

text \<open>
  Arborcore: a verification of the core libraries.

  \<^bold>\<open>The program.\<close> Arborcore is a C and assembly library for applications without hidden allocation: the caller owns all
  storage, every function checks its pointers and sizes, and a failure is a status value. The parts modelled here are the
  fixed-point geometry and the software renderer on top of it (\<open>src/c/geometry.c\<close>, \<open>src/c/renderer.c\<close>, with the 128-bit
  arithmetic that the WebAssembly build supplies in \<open>src/wasm/geometry_int128_builtins.c\<close>), the status values
  (\<open>src/c/status.c\<close>), the domain-event journal and the unit of work (\<open>src/c/ddd_support.c\<close>), the HTTP message layer
  (\<open>src/c/http.c\<close> with \<open>src/asm/http_header.asm\<close> and \<open>src/asm/http_response_v2.asm\<close>), the configuration loader
  (\<open>src/c/config.c\<close>), the capability kernel that wires modules together (\<open>src/c/capability_kernel.c\<close>), and the
  profiling sessions (\<open>src/c/profile.c\<close>). They interact by calls: the renderer computes with the
  geometry; the unit of work is handed its transaction interface as a capability binding, whose records are those of the
  capability kernel; the kernel and the profiler use the checked arithmetic of \<open>src/asm/u64_checked.asm\<close> and
  \<open>src/asm/range.asm\<close>; the HTTP serializer uses the byte buffer (\<open>src/asm/buffer.asm\<close>) and the decimal formatting
  (\<open>src/asm/u64_format.asm\<close>); all but the renderer report with the values of \<open>status.c\<close>.

  \<^bold>\<open>Conventions.\<close> A C integer of fixed width is a word of that width: \<open>+\<close> wraps, \<open>sint\<close> and \<open>unat\<close> read it, and
  overflow is a test where the code has one. A pointer is a 64-bit address with 0 for NULL. Memory is, per component, either bytes
  by address (\<open>Byte_Memory\<close>, the pixels of a surface) or a record with one function from addresses for each type of
  object, so two objects of one type are the same or disjoint. The overlap of objects of different types is what the code's own
  range checks speak about: those checks are modelled on the addresses, and what they give is stated for the sets of bytes
  the objects occupy (\<open>Byte_Ranges\<close>, with \<open>Config_Memory\<close> and \<open>Capability_Memory\<close> for the two calls that write most). An early return with a negated \<open>errno\<close> is
  \<open>Inl\<close>, success is \<open>Inr\<close> with what is stored through an out pointer; functions that write return the heap they leave, also
  on failure. A loop that stops at the first failure is \<open>each_ok\<close>, sequencing is \<open>then_ok\<close> (\<open>Arbor_Prelude\<close>).
  Callbacks of the caller (transaction tables, the clock of the profiler) are parameters that may do anything with their own
  world; where a property needs more of them, its text says so.

  \<^bold>\<open>Loops and fuel.\<close> Loops over an index are recursions over the list of indices or structural ones; loops that
  scan text or halve an interval are functions with a termination proof. The three loops of \<open>config.c\<close> that follow a cursor
  through a file are \<open>partial_function (option)\<close>, where not returning is \<open>None\<close>; that every call returns is a theorem. The
  recursive curve flattening of the renderer is bounded by the depth limit of the source. No definition has a fuel of its own.

  \<^bold>\<open>Theories and sources.\<close>
  \<^item> \<open>Arbor_Prelude\<close>: widths, sequencing, bounds of words. \<open>Rounding\<close>: rounding to nearest, ties to even, on integers.
  \<^item> \<open>Fixed_Point\<close>, \<open>Rect\<close>, \<open>Affine\<close>, \<open>Rotation\<close>, \<open>Device\<close>: \<open>geometry.c\<close> in its order: checked Q32.32
    arithmetic with the generic, the x86 and the portable reduction, rectangles, affine transforms, the CORDIC rotation, device scales and maps.
    \<open>Int128\<close>: \<open>__multi3\<close> and \<open>__udivti3\<close>. \<open>Geometry_Properties\<close>: division rounds exactly in every mode, the
    reductions agree, products are nearest, errors are exactly the results out of range, intersection is intersection of
    point sets, transforms contain images, inversion is exact, device rectangles tile.
  \<^item> \<open>Color\<close>, \<open>Surface\<close>, \<open>Fill\<close>, \<open>Stroke\<close>: \<open>renderer.c\<close>: premultiplied colours and the sRGB
    tables, pixel access, filling by exact coverage, lines and curves. \<open>Renderer_Properties\<close>: drawing stays inside the pixels of a
    valid surface, filling blends by the covered area (on every pixel but those of the column and the row 2147483647, where an
    edge overflows), compositing rounds the exact value, curves are polylines.
  \<^item> \<open>Native_Status\<close>, \<open>Journal\<close>, \<open>Unit_Of_Work\<close>: \<open>status.c\<close> and \<open>ddd_support.c\<close>. The journal is a
    list of events under the abstraction \<open>journal_events\<close>; the unit of work is a state machine with a step relation.
    \<open>Ddd_Properties\<close>: no event of a transaction survives without its commit, also when more is appended after it has ended;
    a unit that is opened can be finished when the callbacks only append; appending adds one event, validation is the packed
    prefix, rewinding accepts exactly the event boundaries of checkpoints that share no memory with the journal.
  \<^item> \<open>Byte_Memory\<close>, \<open>Byte_Ranges\<close>, \<open>Http_Grammar\<close>, \<open>Http_Fields\<close>, \<open>Http_Response\<close>: \<open>http.c\<close> and the assembly behind it;
    \<open>Http_Lines\<close>, \<open>Http_Connection\<close>, \<open>Http_Message\<close>: the lines and lists that it scans and writes.
    \<open>Http_Host_Grammar\<close>: the host grammar of RFC 3986, stated apart from the code. \<open>Http_Properties\<close>: IP addresses and the
    Host check accept exactly what the RFC grammar does, serialization is all or nothing and never writes
    past the buffer, a serialized head scans back to its fields.
  \<^item> \<open>Config_Text\<close>, \<open>Config_Schema\<close>, \<open>Config_Sources\<close>, \<open>Config_Prepare\<close>: \<open>config.c\<close> in its order.
    \<open>Config_Utf8\<close>, \<open>Config_Values\<close>, \<open>Config_Lines\<close>, \<open>Config_Precedence\<close>: the encodings, numerals, lines and the
    order of the sources as specifications without cursors. \<open>Config_Frame\<close>, \<open>Config_Ranges\<close>, \<open>Config_Status\<close>,
    \<open>Config_Result\<close>, \<open>Config_Outcome\<close>, \<open>Config_Valid\<close>, \<open>Config_Entry\<close>, \<open>Config_Memory\<close>: what the functions read and write, object by
    object and byte by byte, and what a prepared result holds. \<open>Config_Properties\<close>: UTF-8 and files are accepted exactly when they should be, later
    sources win, calls return, a prepared result holds the resolved values and validates, no byte of the inputs is
    written, the measured storage suffices.
  \<^item> \<open>Capability_Types\<close>, \<open>Checked_Math\<close>, \<open>Capability_Model\<close>, \<open>Capability_Catalog\<close>: the records, the
    checked arithmetic, the checks and the operations of \<open>capability_kernel.c\<close>. \<open>Capability_Graph\<close>: the abstract order of modules, each
    the least that is ready. \<open>Capability_Regions\<close>: the address checks keep the written arrays apart.
    \<open>Capability_Resolve\<close>, \<open>Capability_Scratch\<close>, \<open>Capability_Order\<close>, \<open>Capability_Prepare\<close>,
    \<open>Capability_Publish\<close>: the loops of a call, each with what it leaves in the arrays. \<open>Capability_Validate\<close>,
    \<open>Capability_Canonical\<close>: validation in both directions. \<open>Capability_Memory\<close>: the bytes a call reads and writes.
    \<open>Capability_Properties\<close>: the published order is the canonical
    one, a call fails with \<open>-ELOOP\<close> exactly on a cycle, a failed call publishes nothing and no call writes a byte it reads, look-ups give what the modules declare, and
    validation accepts exactly the catalogs that a call would publish.
  \<^item> \<open>Profile\<close>, \<open>Profile_Facts\<close>, \<open>Profile_Properties\<close>: \<open>profile.c\<close>: an aggregate is the summary of
    the completed measurements after any sequence of calls, a span that is begun can be ended, and a changed byte is detected by the guards.

  \<^bold>\<open>Interfaces.\<close> \<open>nearest_even_reduction\<close> (a division the scalar products may use) is interpreted by all four reductions of
  \<open>geometry.c\<close>; \<open>channel_scaling\<close> by the two channel products of \<open>renderer.c\<close>; \<open>pixel_store\<close> by the surface;
  \<open>event_log\<close> by the journal; \<open>provider_graph\<close> by the modules and their resolved providers.

  \<^bold>\<open>Bounds.\<close> Results hold for all inputs of their types unless a hypothesis says otherwise; every theorem with a hypothesis has a
  witness on concrete values. Sizes of objects (\<open>SIZEOF_\<close>) are those of the 64-bit layout that the sources assert.

  \<^bold>\<open>Not modelled.\<close> The MVC dispatcher and its HTTP adapter (\<open>mvc.c\<close>, \<open>http_mvc.c\<close>), the views (\<open>view.c\<close>), application
  services, foundation and transport (\<open>application_service.c\<close>, \<open>application_foundation.c\<close>, \<open>application_transport.c\<close>) have
  not been reached; the adapters \<open>runtime.c\<close>, \<open>route.c\<close>, \<open>request.c\<close> and \<open>security.c\<close> only check pointers
  around assembly routines; sockets, epoll, signals and the start-up code (\<open>src/asm\<close>, \<open>linux_http_mvc_host.c\<close>) are system calls; the
  browser hosts are exports around the renderer; the conformance tools under \<open>tools\<close> drive a third-party parser. In the
  modelled files, undefined behaviour of C is not given a meaning: where an expression can overflow a signed type the model wraps,
  and the two places where a call can reach that are listed as findings.
\<close>

end
